(* ===== verification/Grlx_Prelude.thy ===== *)
theory Grlx_Prelude
  imports
    Main
    "HOL-Library.Sublist"
    "HOL-Library.List_Lexorder"
    "HOL-Library.Char_ord"
    "HOL-Library.AList"
begin

text \<open>
  Shared vocabulary of the development: the part of Go's standard library the
  modelled packages call (the \<open>strings\<close> package on byte strings, dynamically
  typed values of JSON and YAML documents), keyed database tables with their
  failure mode, and the interface locales of a keyed store and of a
  tenant-partitioned store.  A Go string is a sequence of bytes, so \<^typ>\<open>string\<close>
  (a list of 8-bit characters, compared lexicographically) is its model; a Go
  error return is the left summand of a sum; a nil error is \<^term>\<open>None\<close>.
\<close>

named_theorems go_strings \<open>defining equations of the string functions\<close>
named_theorems table_simps \<open>rewriting of table reads after table writes\<close>

section \<open>The strings package\<close>

definition HasPrefix :: "string \<Rightarrow> string \<Rightarrow> bool" where
  [go_strings]: "HasPrefix s p = prefix p s"

definition HasSuffix :: "string \<Rightarrow> string \<Rightarrow> bool" where
  [go_strings]: "HasSuffix s p = suffix p s"

definition Contains :: "string \<Rightarrow> string \<Rightarrow> bool" where
  [go_strings]: "Contains s sub = sublist sub s"

definition TrimPrefix :: "string \<Rightarrow> string \<Rightarrow> string" where
  [go_strings]: "TrimPrefix s p = (if prefix p s then drop (length p) s else s)"

definition TrimSuffix :: "string \<Rightarrow> string \<Rightarrow> string" where
  [go_strings]: "TrimSuffix s p = (if suffix p s then take (length s - length p) s else s)"

text \<open>\<open>strings.Split(s, sep)\<close> for a separator of one byte: always at least one part.\<close>

fun Split :: "char \<Rightarrow> string \<Rightarrow> string list" where
  "Split sep [] = [[]]"
| "Split sep (c # cs) =
     (if c = sep then [] # Split sep cs
      else case Split sep cs of
             [] \<Rightarrow> [[c]]
           | w # ws \<Rightarrow> (c # w) # ws)"

text \<open>\<open>strings.Join\<close>.\<close>

fun Join :: "string list \<Rightarrow> string \<Rightarrow> string" where
  "Join [] sep = []"
| "Join [w] sep = w"
| "Join (w # w' # ws) sep = w @ sep @ Join (w' # ws) sep"

text \<open>
  \<open>strings.ReplaceAll(s, old, new)\<close> for a non-empty \<open>old\<close>: occurrences are
  found from left to right and do not overlap.  No modelled caller passes an
  empty \<open>old\<close>; the guard keeps the scan advancing.
\<close>

function ReplaceAll :: "string \<Rightarrow> string \<Rightarrow> string \<Rightarrow> string" where
  "ReplaceAll [] old new = []"
| "ReplaceAll (c # cs) old new =
     (if old \<noteq> [] \<and> prefix old (c # cs)
      then new @ ReplaceAll (drop (length old) (c # cs)) old new
      else c # ReplaceAll cs old new)"
  by pat_completeness auto
termination
  by (relation "measure (\<lambda>(s, old, new). length s)") auto

text \<open>\<open>strings.TrimSpace\<close> on ASCII text.\<close>

definition is_space :: "char \<Rightarrow> bool" where
  "is_space c = (c \<in> set [CHR '' '', CHR 0x09, CHR 0x0A, CHR 0x0B, CHR 0x0C, CHR 0x0D])"

definition TrimSpace :: "string \<Rightarrow> string" where
  "TrimSpace s = rev (dropWhile is_space (rev (dropWhile is_space s)))"

text \<open>\<open>strings.ToLower\<close> on ASCII text.\<close>

definition lower_char :: "char \<Rightarrow> char" where
  "lower_char c = (if 65 \<le> (of_char c :: nat) \<and> (of_char c :: nat) \<le> 90
                   then char_of ((of_char c :: nat) + 32) else c)"

definition ToLower :: "string \<Rightarrow> string" where
  "ToLower s = map lower_char s"

lemma Split_not_Nil [simp]: "Split sep s \<noteq> []"
  by (cases s) (auto split: list.splits)

lemma Split_no_sep: "sep \<notin> set s \<Longrightarrow> Split sep s = [s]"
  by (induction s) auto

lemma Split_append_sep: "sep \<notin> set s \<Longrightarrow> Split sep (s @ sep # t) = s # Split sep t"
  by (induction s) auto

lemma Join_Split: "Join (Split sep s) [sep] = s"
proof (induction s)
  case Nil
  then show ?case by simp
next
  case (Cons c cs)
  obtain w ws where *: "Split sep cs = w # ws"
    by (cases "Split sep cs") auto
  with Cons show ?case
    by (cases ws) auto
qed

lemma Split_sep_free: "w \<in> set (Split sep s) \<Longrightarrow> sep \<notin> set w"
proof (induction s arbitrary: w)
  case Nil
  then show ?case by simp
next
  case (Cons c cs)
  then show ?case
    by (cases "Split sep cs") (auto split: if_splits)
qed

lemma HasPrefix_append [simp]: "HasPrefix (p @ s) p"
  by (simp add: HasPrefix_def)

lemma HasPrefix_decomp: "HasPrefix s p \<Longrightarrow> s = p @ drop (length p) s"
  by (auto simp: HasPrefix_def prefix_def)

section \<open>Replacement never leaves or creates a match\<close>

text \<open>
  A string that cannot meet the replacement, because it avoids the replacement's
  first character and does not occur inside it, can occur in the output of
  \<^const>\<open>ReplaceAll\<close> only where it occurred in the input, and the replaced string
  itself does not occur in the output at all.
\<close>

definition apart :: "string \<Rightarrow> string \<Rightarrow> bool" where
  "apart p new \<longleftrightarrow> new \<noteq> [] \<and> p \<noteq> [] \<and> hd new \<notin> set p \<and> (\<forall>r. sublist p (new @ r) \<longrightarrow> sublist p r)"

lemma prefix_ReplaceAll:
  assumes "new \<noteq> []" "hd new \<notin> set p" "prefix p (ReplaceAll s old new)"
  shows "prefix p s"
  using assms
proof (induction s old new arbitrary: p rule: ReplaceAll.induct)
  case (2 c cs old new)
  show ?case
  proof (cases "old \<noteq> [] \<and> prefix old (c # cs)")
    case True
    with "2.prems" have "p = []"
      by (cases p; cases new) auto
    then show ?thesis by simp
  next
    case False
    with "2.prems" show ?thesis
      by (cases p) (use "2.IH"(2) False in auto)
  qed
qed simp

lemma sublist_ReplaceAll:
  assumes "apart p new" "sublist p (ReplaceAll s old new)"
  shows "sublist p s"
  using assms
proof (induction s old new rule: ReplaceAll.induct)
  case (2 c cs old new)
  show ?case
  proof (cases "old \<noteq> [] \<and> prefix old (c # cs)")
    case True
    with "2.prems" have "sublist p (ReplaceAll (drop (length old) (c # cs)) old new)"
      by (auto simp: apart_def)
    with "2.IH"(1)[OF True] "2.prems" have "sublist p (drop (length old) (c # cs))"
      by blast
    then show ?thesis
      by (meson sublist_drop sublist_order.order_trans)
  next
    case False
    then have eq: "ReplaceAll (c # cs) old new = c # ReplaceAll cs old new" by auto
    with "2.prems" consider "prefix p (ReplaceAll (c # cs) old new)" | "sublist p (ReplaceAll cs old new)"
      by (auto simp: sublist_Cons_right)
    then show ?thesis
    proof cases
      case 1
      with "2.prems" have "prefix p (c # cs)" unfolding apart_def by (blast intro: prefix_ReplaceAll)
      then show ?thesis by (rule prefix_imp_sublist)
    next
      case 2
      with "2.IH"(2)[OF False] "2.prems" have "sublist p cs" by blast
      then show ?thesis by (simp add: sublist_Cons_right)
    qed
  qed
qed simp

lemma ReplaceAll_no_match:
  assumes "apart old new"
  shows "\<not> sublist old (ReplaceAll s old new)"
  using assms
proof (induction s old new rule: ReplaceAll.induct)
  case (2 c cs old new)
  show ?case
  proof (cases "old \<noteq> [] \<and> prefix old (c # cs)")
    case True
    then show ?thesis
      using "2.IH"(1)[OF True] "2.prems" by (auto simp: apart_def)
  next
    case False
    then have eq: "ReplaceAll (c # cs) old new = c # ReplaceAll cs old new" by auto
    have "\<not> prefix old (ReplaceAll (c # cs) old new)"
      using prefix_ReplaceAll[of new old "c # cs" old] "2.prems" False unfolding apart_def by blast
    with eq "2.IH"(2)[OF False] "2.prems" show ?thesis
      by (auto simp: sublist_Cons_right)
  qed
qed (simp add: apart_def)

text \<open>A string without a separator occurs on one side of it or on the other.\<close>

lemma sublist_sep:
  assumes "c \<notin> set p"
  shows "sublist p (xs @ c # ys) \<longleftrightarrow> sublist p xs \<or> sublist p ys"
proof (induction xs)
  case Nil
  show ?case using assms by (cases p) (auto simp: sublist_Cons_right)
next
  case (Cons x xs)
  have "prefix p (x # xs @ c # ys) \<longleftrightarrow> prefix p (x # xs)"
    using assms prefix_append[of p "x # xs" "c # ys"] by (cases p) (auto simp: prefix_Cons)
  then show ?case using Cons by (auto simp: sublist_Cons_right)
qed

section \<open>Dynamically typed values\<close>

text \<open>
  Values of Go's \<open>any\<close> as the JSON and YAML decoders and the configuration
  library produce them.  \<open>VStrs\<close> is a typed \<open>[]string\<close>, which a type switch
  tells apart from the \<open>[]any\<close> of a decoded document.  An object is the list of
  its fields in document order.
\<close>

datatype val =
    VNull
  | VBool bool
  | VNum int
  | VStr string
  | VStrs "string list"
  | VList "val list"
  | VMap "(string \<times> val) list"

text \<open>\<open>m[k].(string)\<close> with the comma-ok form: the zero string when absent or of another type.\<close>

fun as_string :: "val option \<Rightarrow> string" where
  "as_string (Some (VStr s)) = s"
| "as_string _ = []"

fun is_VStr :: "val \<Rightarrow> bool" where
  "is_VStr (VStr s) = True"
| "is_VStr _ = False"

section \<open>Database tables\<close>

text \<open>
  A table keyed by its primary key, as gorm reads and writes it: the rows in
  storage order, and whether the database answers.  A query against a database
  that does not answer is an error, which \<open>First\<close> reports apart from a missing
  row.
\<close>

datatype 'r qres = Found 'r | NotFound | DbErr

record ('k, 'r) table =
  tbl_rows :: "('k \<times> 'r) list"
  tbl_up :: bool

definition tbl_first :: "('k, 'r) table \<Rightarrow> 'k \<Rightarrow> 'r qres" where
  "tbl_first t k = (if \<not> tbl_up t then DbErr
     else case map_of (tbl_rows t) k of None \<Rightarrow> NotFound | Some r \<Rightarrow> Found r)"

text \<open>\<open>Find\<close> leaves the result slice empty when the query fails.\<close>

definition tbl_find :: "('k, 'r) table \<Rightarrow> ('k \<Rightarrow> 'r \<Rightarrow> bool) \<Rightarrow> ('k \<times> 'r) list" where
  "tbl_find t P = (if tbl_up t then filter (\<lambda>(k, r). P k r) (tbl_rows t) else [])"

text \<open>\<open>Create\<close> with an \<open>OnConflict\<close> clause that overwrites; the flag is the absence of an error.\<close>

definition tbl_upsert :: "('k, 'r) table \<Rightarrow> 'k \<Rightarrow> 'r \<Rightarrow> ('k, 'r) table \<times> bool" where
  "tbl_upsert t k r =
     (if tbl_up t then (t\<lparr>tbl_rows := AList.update k r (tbl_rows t)\<rparr>, True) else (t, False))"

definition tbl_delete :: "('k, 'r) table \<Rightarrow> ('k \<Rightarrow> 'r \<Rightarrow> bool) \<Rightarrow> ('k, 'r) table" where
  "tbl_delete t P =
     (if tbl_up t then t\<lparr>tbl_rows := filter (\<lambda>(k, r). \<not> P k r) (tbl_rows t)\<rparr> else t)"

text \<open>Rows are unique per primary key.\<close>

definition tbl_wf :: "('k, 'r) table \<Rightarrow> bool" where
  "tbl_wf t = distinct (map fst (tbl_rows t))"

definition tbl_get :: "('k, 'r) table \<Rightarrow> 'k \<Rightarrow> 'r option" where
  "tbl_get t = map_of (tbl_rows t)"

lemma tbl_first_up [simp]:
  "tbl_up t \<Longrightarrow> tbl_first t k = (case tbl_get t k of None \<Rightarrow> NotFound | Some r \<Rightarrow> Found r)"
  by (simp add: tbl_first_def tbl_get_def)

lemma tbl_first_Found_iff: "tbl_first t k = Found r \<longleftrightarrow> tbl_up t \<and> tbl_get t k = Some r"
  by (auto simp: tbl_first_def tbl_get_def split: option.splits)

lemma tbl_up_upsert [simp]: "tbl_up (fst (tbl_upsert t k r)) = tbl_up t"
  by (simp add: tbl_upsert_def)

lemma tbl_up_delete [simp]: "tbl_up (tbl_delete t P) = tbl_up t"
  by (simp add: tbl_delete_def)

lemma tbl_upsert_ok [simp]: "snd (tbl_upsert t k r) = tbl_up t"
  by (simp add: tbl_upsert_def)

lemma tbl_get_upsert [table_simps]:
  "tbl_up t \<Longrightarrow> tbl_get (fst (tbl_upsert t k r)) k' = (if k' = k then Some r else tbl_get t k')"
  by (simp add: tbl_upsert_def tbl_get_def update_conv')

lemma tbl_wf_upsert [simp]: "tbl_wf t \<Longrightarrow> tbl_wf (fst (tbl_upsert t k r))"
  by (simp add: tbl_upsert_def tbl_wf_def distinct_update)

lemma tbl_wf_delete [simp]: "tbl_wf t \<Longrightarrow> tbl_wf (tbl_delete t P)"
  by (auto simp: tbl_delete_def tbl_wf_def distinct_map intro: inj_on_subset)

lemma map_of_filter_wf:
  "distinct (map fst xs) \<Longrightarrow>
   map_of (filter (\<lambda>(k, r). Q k r) xs) k =
     (case map_of xs k of None \<Rightarrow> None | Some r \<Rightarrow> if Q k r then Some r else None)"
proof (induction xs)
  case Nil
  then show ?case by simp
next
  case (Cons x xs)
  then show ?case
    by (cases x) (auto simp: map_of_eq_None_iff image_iff split: option.splits)
qed

lemma tbl_get_delete [table_simps]:
  "tbl_up t \<Longrightarrow> tbl_wf t \<Longrightarrow>
   tbl_get (tbl_delete t P) k =
     (case tbl_get t k of None \<Rightarrow> None | Some r \<Rightarrow> if P k r then None else Some r)"
  by (simp add: tbl_delete_def tbl_get_def tbl_wf_def map_of_filter_wf split: option.splits)

lemma tbl_find_get:
  "tbl_up t \<Longrightarrow> tbl_wf t \<Longrightarrow> (k, r) \<in> set (tbl_find t P) \<longleftrightarrow> tbl_get t k = Some r \<and> P k r"
  by (auto simp: tbl_find_def tbl_get_def tbl_wf_def)

lemma tbl_find_keys_distinct: "tbl_wf t \<Longrightarrow> distinct (map fst (tbl_find t P))"
  by (auto simp: tbl_find_def tbl_wf_def distinct_map intro: inj_on_subset)

section \<open>Preserved invariants\<close>

text \<open>
  The contract between the steps of a component and an invariant of its state:
  every single step keeps it.  Then every run does.
\<close>

locale preserved =
  fixes step :: "'s \<Rightarrow> 's \<Rightarrow> bool" and inv :: "'s \<Rightarrow> bool"
  assumes keeps: "inv s \<Longrightarrow> step s t \<Longrightarrow> inv t"
begin

lemma run_keeps:
  assumes "step\<^sup>*\<^sup>* s t" "inv s"
  shows "inv t"
  using assms by (induction rule: rtranclp_induct) (auto intro: keeps)

end

section \<open>Interfaces: keyed stores and tenant-partitioned stores\<close>

text \<open>
  What every read-through store of the program relies on: reading a key back
  after a write returns what was written, and a write touches no other key.
\<close>

locale keyed_store =
  fixes get :: "'s \<Rightarrow> 'k \<Rightarrow> 'v option"
    and put :: "'s \<Rightarrow> 'k \<Rightarrow> 'v \<Rightarrow> 's"
    and del :: "'s \<Rightarrow> 'k \<Rightarrow> 's"
    and invar :: "'s \<Rightarrow> bool"
  assumes get_put: "invar s \<Longrightarrow> get (put s k v) k' = (if k' = k then Some v else get s k')"
    and get_del: "invar s \<Longrightarrow> get (del s k) k' = (if k' = k then None else get s k')"
    and invar_put: "invar s \<Longrightarrow> invar (put s k v)"
    and invar_del: "invar s \<Longrightarrow> invar (del s k)"
begin

lemma get_put_put:
  "invar s \<Longrightarrow> get (put (put s k v) k w) k' = get (put s k w) k'"
  by (simp add: get_put invar_put)

lemma put_commute:
  "invar s \<Longrightarrow> k \<noteq> l \<Longrightarrow> get (put (put s k v) l w) k' = get (put (put s l w) k v) k'"
  by (simp add: get_put invar_put)

lemma del_put: "invar s \<Longrightarrow> get s k = None \<Longrightarrow> get (del (put s k v) k) k' = get s k'"
  by (simp add: get_put get_del invar_put)

end

text \<open>
  A store whose keys carry the tenant: two tenants' entries never interfere.
\<close>

locale tenant_store = keyed_store get put del invar
  for get :: "'s \<Rightarrow> 't \<times> 'n \<Rightarrow> 'v option" and put del invar
begin

lemma put_other_tenant: "invar s \<Longrightarrow> t \<noteq> u \<Longrightarrow> get (put s (t, n) v) (u, m) = get s (u, m)"
  by (simp add: get_put)

lemma del_other_tenant: "invar s \<Longrightarrow> t \<noteq> u \<Longrightarrow> get (del s (t, n)) (u, m) = get s (u, m)"
  by (simp add: get_del)

end

text \<open>The tables of an answering database are tenant-partitioned stores.\<close>

definition tbl_put :: "('k, 'r) table \<Rightarrow> 'k \<Rightarrow> 'r \<Rightarrow> ('k, 'r) table" where
  "tbl_put t k r = fst (tbl_upsert t k r)"

definition tbl_del :: "('k, 'r) table \<Rightarrow> 'k \<Rightarrow> ('k, 'r) table" where
  "tbl_del t k = tbl_delete t (\<lambda>k' r. k' = k)"

definition tbl_ok :: "('k, 'r) table \<Rightarrow> bool" where
  "tbl_ok t = (tbl_up t \<and> tbl_wf t)"

lemma tbl_okD: "tbl_ok t \<Longrightarrow> tbl_up t" "tbl_ok t \<Longrightarrow> tbl_wf t"
  by (auto simp: tbl_ok_def)

lemma tbl_get_put [table_simps]:
  "tbl_ok t \<Longrightarrow> tbl_get (tbl_put t k r) k' = (if k' = k then Some r else tbl_get t k')"
  by (simp add: tbl_put_def tbl_get_upsert tbl_okD)

lemma tbl_get_del [table_simps]:
  "tbl_ok t \<Longrightarrow> tbl_get (tbl_del t k) k' = (if k' = k then None else tbl_get t k')"
  by (simp add: tbl_del_def tbl_get_delete tbl_okD split: option.splits)

lemma tbl_ok_put [simp]: "tbl_ok t \<Longrightarrow> tbl_ok (tbl_put t k r)"
  by (simp add: tbl_put_def tbl_ok_def)

lemma tbl_ok_del [simp]: "tbl_ok t \<Longrightarrow> tbl_ok (tbl_del t k)"
  by (simp add: tbl_del_def tbl_ok_def)

interpretation tbl: keyed_store tbl_get tbl_put tbl_del tbl_ok
  by unfold_locales (simp_all add: tbl_get_put tbl_get_del)

interpretation ttbl: tenant_store tbl_get tbl_put tbl_del tbl_ok
  by unfold_locales

end
