(* ===== verification/Rbac_Role.thy ===== *)
theory Rbac_Role
  imports Grlx_Prelude
begin

text \<open>
  Roles and permission rules (\<open>internal/rbac/role.go\<close>): actions, scopes, the
  route table, the unscoped and the scoped permission check, scope filtering
  and role validation.  A cohort resolver is what \<^term>\<open>HasScopedAccess\<close> gets
  as a callback: it maps a cohort name to its member set or to an error; a nil
  resolver is \<^term>\<open>None\<close>.
\<close>

section \<open>Actions\<close>

type_synonym action = string

definition ActionAdmin :: action where "ActionAdmin = ''admin''"
definition ActionView :: action where "ActionView = ''view''"
definition ActionCook :: action where "ActionCook = ''cook''"
definition ActionCmd :: action where "ActionCmd = ''cmd''"
definition ActionShell :: action where "ActionShell = ''shell''"
definition ActionTest :: action where "ActionTest = ''test''"
definition ActionProps :: action where "ActionProps = ''props''"
definition ActionJobAdmin :: action where "ActionJobAdmin = ''job_admin''"
definition ActionPKI :: action where "ActionPKI = ''pki''"
definition ActionUserRead :: action where "ActionUserRead = ''user_read''"

lemmas action_defs =
  ActionAdmin_def ActionView_def ActionCook_def ActionCmd_def ActionShell_def
  ActionTest_def ActionProps_def ActionJobAdmin_def ActionPKI_def ActionUserRead_def

definition AllActions :: "action list" where
  "AllActions = [ActionAdmin, ActionView, ActionCook, ActionCmd, ActionShell, ActionTest,
                 ActionProps, ActionJobAdmin, ActionPKI, ActionUserRead]"

definition IsValidAction :: "action \<Rightarrow> bool" where
  "IsValidAction a = list_ex (\<lambda>valid. a = valid) AllActions"

section \<open>Rules and roles\<close>

record rule =
  Action :: action
  Scope :: string

record role =
  role_Name :: string
  role_Rules :: "rule list"
  role_TenantID :: string

datatype role_error =
    ErrUnknownRole string
  | ErrAccessDenied
  | ErrUnknownAction string
  | RoleNameRequired
  | SproutScopeRequiresID
  | CohortScopeRequiresName
  | UnknownScopeFormat string
  | AtRule nat role_error
  | RoleStoreWrite
  | RolesMustBeList string
  | RuleMustBeMap string nat

text \<open>The route table, in the order of the source.\<close>

definition routeActions :: "(string \<times> action) list" where
  "routeActions =
    [(''GetCertificate'', ActionView), (''PutNKey'', ActionView),
     (''GetVersion'', ActionView), (''ListCohorts'', ActionView),
     (''ListSprouts'', ActionView), (''GetSprout'', ActionView),
     (''ListJobs'', ActionView), (''GetJob'', ActionView),
     (''ListJobsForSprout'', ActionView), (''GetAllProps'', ActionView),
     (''GetProp'', ActionView), (''ListID'', ActionView),
     (''ListRecipes'', ActionView), (''GetRecipe'', ActionView),
     (''TestPing'', ActionTest), (''Cook'', ActionCook), (''CmdRun'', ActionCmd),
     (''ShellStart'', ActionShell), (''ResolveCohort'', ActionView),
     (''SetProp'', ActionProps), (''DeleteProp'', ActionProps),
     (''CancelJob'', ActionJobAdmin),
     (''GetID'', ActionPKI), (''AcceptID'', ActionPKI), (''RejectID'', ActionPKI),
     (''DenyID'', ActionPKI), (''UnacceptID'', ActionPKI), (''DeleteID'', ActionPKI),
     (''WhoAmI'', ActionUserRead), (''ListUsers'', ActionAdmin)]"

definition RouteAction :: "string \<Rightarrow> action" where
  "RouteAction routeName =
     (case map_of routeActions routeName of Some a \<Rightarrow> a | None \<Rightarrow> ActionAdmin)"

text \<open>The loop of \<open>HasAction\<close>: the first admin rule or rule for the action decides.\<close>

fun rules_have_action :: "rule list \<Rightarrow> action \<Rightarrow> bool" where
  "rules_have_action [] action = False"
| "rules_have_action (rule # rules) action =
     (if Action rule = ActionAdmin then True
      else if Action rule = action then True
      else rules_have_action rules action)"

definition HasAction :: "role \<Rightarrow> action \<Rightarrow> bool" where
  "HasAction r action = rules_have_action (role_Rules r) action"

definition HasRouteAccess :: "role \<Rightarrow> string \<Rightarrow> bool" where
  "HasRouteAccess r routeName = HasAction r (RouteAction routeName)"

section \<open>Scopes\<close>

definition sprout_prefix :: string where "sprout_prefix = ''sprout:''"
definition cohort_prefix :: string where "cohort_prefix = ''cohort:''"

type_synonym 'e resolver = "(string \<Rightarrow> 'e + string set) option"

text \<open>The loop of \<open>HasScopedAccess\<close>, one equation per iteration, in the source's order.\<close>

fun rules_scoped_access ::
  "rule list \<Rightarrow> action \<Rightarrow> string \<Rightarrow> 'e resolver \<Rightarrow> bool" where
  "rules_scoped_access [] action sproutID resolver = False"
| "rules_scoped_access (rule # rules) action sproutID resolver =
     (if Action rule \<noteq> ActionAdmin \<and> Action rule \<noteq> action
      then rules_scoped_access rules action sproutID resolver
      else let scope = Scope rule in
        if scope = [] \<or> scope = ''*'' then True
        else if HasPrefix scope sprout_prefix then
          (if drop (length sprout_prefix) scope = sproutID then True
           else rules_scoped_access rules action sproutID resolver)
        else if HasPrefix scope cohort_prefix then
          (case resolver of
             None \<Rightarrow> rules_scoped_access rules action sproutID resolver
           | Some res \<Rightarrow>
               (case res (drop (length cohort_prefix) scope) of
                  Inl _ \<Rightarrow> rules_scoped_access rules action sproutID resolver
                | Inr members \<Rightarrow>
                    if sproutID \<in> members then True
                    else rules_scoped_access rules action sproutID resolver))
        else rules_scoped_access rules action sproutID resolver)"

definition HasScopedAccess :: "role \<Rightarrow> action \<Rightarrow> string \<Rightarrow> 'e resolver \<Rightarrow> bool" where
  "HasScopedAccess r action sproutID resolver =
     rules_scoped_access (role_Rules r) action sproutID resolver"

fun HasScopedAccessMulti :: "role \<Rightarrow> action \<Rightarrow> string list \<Rightarrow> 'e resolver \<Rightarrow> bool" where
  "HasScopedAccessMulti r action [] resolver = True"
| "HasScopedAccessMulti r action (sid # sids) resolver =
     (if \<not> HasScopedAccess r action sid resolver then False
      else HasScopedAccessMulti r action sids resolver)"

text \<open>
  \<open>ScopeFilter\<close> appends to a nil slice, so its result is nil, here \<^term>\<open>None\<close>,
  exactly when no ID is allowed; its callers test for nil.
\<close>

fun scope_filter_loop ::
  "role \<Rightarrow> action \<Rightarrow> string list \<Rightarrow> 'e resolver \<Rightarrow> string list option \<Rightarrow> string list option" where
  "scope_filter_loop r action [] resolver allowed = allowed"
| "scope_filter_loop r action (sid # sids) resolver allowed =
     scope_filter_loop r action sids resolver
       (if HasScopedAccess r action sid resolver
        then Some ((case allowed of None \<Rightarrow> [] | Some xs \<Rightarrow> xs) @ [sid]) else allowed)"

definition ScopeFilter ::
  "role \<Rightarrow> action \<Rightarrow> string list \<Rightarrow> 'e resolver \<Rightarrow> string list option" where
  "ScopeFilter r action sproutIDs resolver = scope_filter_loop r action sproutIDs resolver None"

section \<open>Validation\<close>

definition validateScope :: "string \<Rightarrow> role_error option" where
  "validateScope scope =
     (if scope = [] \<or> scope = ''*'' then None
      else if HasPrefix scope sprout_prefix then
        (if scope = sprout_prefix then Some SproutScopeRequiresID else None)
      else if HasPrefix scope cohort_prefix then
        (if scope = cohort_prefix then Some CohortScopeRequiresName else None)
      else Some (UnknownScopeFormat scope))"

fun validate_rules :: "nat \<Rightarrow> rule list \<Rightarrow> role_error option" where
  "validate_rules i [] = None"
| "validate_rules i (rule # rules) =
     (if \<not> IsValidAction (Action rule) then Some (AtRule i (ErrUnknownAction (Action rule)))
      else case validateScope (Scope rule) of
             Some err \<Rightarrow> Some (AtRule i err)
           | None \<Rightarrow> validate_rules (Suc i) rules)"

definition Role_Validate :: "role \<Rightarrow> role_error option" where
  "Role_Validate r = (if role_Name r = [] then Some RoleNameRequired
                      else validate_rules 0 (role_Rules r))"

definition ParseAction :: "string \<Rightarrow> role_error + action" where
  "ParseAction s = (if \<not> IsValidAction s then Inl (ErrUnknownAction s) else Inr s)"

section \<open>What a scope means\<close>

text \<open>
  The specification of a scope string: the set of sprouts it covers under a
  resolver.  A cohort whose resolution fails covers nothing.
\<close>

definition scope_covers :: "string \<Rightarrow> 'e resolver \<Rightarrow> string set" where
  "scope_covers scope resolver =
     (if scope = [] \<or> scope = ''*'' then UNIV
      else if HasPrefix scope sprout_prefix then {drop (length sprout_prefix) scope}
      else if HasPrefix scope cohort_prefix then
        (case resolver of None \<Rightarrow> {}
         | Some res \<Rightarrow> (case res (drop (length cohort_prefix) scope) of
             Inl _ \<Rightarrow> {} | Inr members \<Rightarrow> members))
      else {})"

definition rule_applies :: "rule \<Rightarrow> action \<Rightarrow> bool" where
  "rule_applies rule action = (Action rule = ActionAdmin \<or> Action rule = action)"

lemma rules_scoped_access_spec:
  "rules_scoped_access rules action sproutID resolver \<longleftrightarrow>
     (\<exists>rule \<in> set rules. rule_applies rule action \<and> sproutID \<in> scope_covers (Scope rule) resolver)"
proof (induction rules)
  case Nil
  then show ?case by simp
next
  case (Cons rule rules)
  have step: "rules_scoped_access (rule # rules) action sproutID resolver \<longleftrightarrow>
      (rule_applies rule action \<and> sproutID \<in> scope_covers (Scope rule) resolver) \<or>
      rules_scoped_access rules action sproutID resolver"
    by (cases resolver) (auto simp: rule_applies_def scope_covers_def Let_def split: sum.splits)
  show ?case unfolding step Cons.IH by auto
qed

lemma HasAction_iff: "HasAction r action \<longleftrightarrow> (\<exists>rule \<in> set (role_Rules r). rule_applies rule action)"
proof -
  have "rules_have_action rules action \<longleftrightarrow> (\<exists>rule \<in> set rules. rule_applies rule action)" for rules
    by (induction rules) (auto simp: rule_applies_def)
  then show ?thesis by (simp add: HasAction_def)
qed

lemma HasScopedAccess_iff:
  "HasScopedAccess r action sproutID resolver \<longleftrightarrow>
     (\<exists>rule \<in> set (role_Rules r). rule_applies rule action \<and>
        sproutID \<in> scope_covers (Scope rule) resolver)"
  by (simp add: HasScopedAccess_def rules_scoped_access_spec)

lemma HasScopedAccess_imp_HasAction:
  "HasScopedAccess r action sproutID resolver \<Longrightarrow> HasAction r action"
  by (auto simp: HasScopedAccess_iff HasAction_iff)

lemma HasScopedAccessMulti_iff:
  "HasScopedAccessMulti r action sids resolver \<longleftrightarrow>
     (\<forall>sid \<in> set sids. HasScopedAccess r action sid resolver)"
  by (induction sids) auto

lemma scope_filter_loop_eq:
  "scope_filter_loop r action sids resolver allowed =
     (let ok = filter (\<lambda>sid. HasScopedAccess r action sid resolver) sids in
      if ok = [] then allowed
      else Some ((case allowed of None \<Rightarrow> [] | Some xs \<Rightarrow> xs) @ ok))"
  by (induction sids arbitrary: allowed) (auto simp: Let_def split: option.splits)

lemma ScopeFilter_eq:
  "ScopeFilter r action sids resolver =
     (let ok = filter (\<lambda>sid. HasScopedAccess r action sid resolver) sids in
      if ok = [] then None else Some ok)"
  by (simp add: ScopeFilter_def scope_filter_loop_eq Let_def)

lemma validate_rules_None:
  "validate_rules i rules = None \<longleftrightarrow>
     (\<forall>rule \<in> set rules. IsValidAction (Action rule) \<and> validateScope (Scope rule) = None)"
  by (induction rules arbitrary: i) (auto split: option.splits)

text \<open>
  The scoped permission check grants an action on a sprout exactly
  when some rule for the action (or an admin rule) has a scope that covers the
  sprout; rule order, failing cohort lookups and repeated rules do not matter.
\<close>

theorem HasScopedAccess_meets_spec:
  "HasScopedAccess r action sproutID resolver =
     (\<exists>rule \<in> set (role_Rules r). rule_applies rule action \<and>
        sproutID \<in> scope_covers (Scope rule) resolver)"
  by (rule HasScopedAccess_iff)

text \<open>
  A request that names several sprouts is granted only if every one
  of them survives scope filtering, and then filtering removes nothing; when no
  sprout is permitted the filter returns a nil slice, not an empty one.
\<close>

theorem HasScopedAccessMulti_ScopeFilter:
  "HasScopedAccessMulti r action sids resolver =
     (sids = [] \<or> ScopeFilter r action sids resolver = Some sids) \<and>
   (ScopeFilter r action sids resolver = None) =
     (\<not> (\<exists>sid \<in> set sids. HasScopedAccess r action sid resolver))"
proof -
  let ?ok = "filter (\<lambda>sid. HasScopedAccess r action sid resolver) sids"
  have "?ok = sids \<longleftrightarrow> (\<forall>sid \<in> set sids. HasScopedAccess r action sid resolver)"
    by (simp add: filter_id_conv)
  moreover have "?ok = [] \<longleftrightarrow> (\<forall>sid \<in> set sids. \<not> HasScopedAccess r action sid resolver)"
    by (simp add: filter_empty_conv)
  ultimately show ?thesis
    by (auto simp: HasScopedAccessMulti_iff ScopeFilter_eq Let_def)
qed

end
