(* ===== verification/Props.thy ===== *)
theory Props
  imports Grlx_Prelude
begin

text \<open>
  Sprout properties (\<open>internal/props\<close>): the \<open>props\<close> table with its expiry
  times, the tenant-scoped reads and writes, and the static properties loaded
  from the configuration.  The clock is a parameter \<open>now\<close> of each operation, in
  nanoseconds; the key of a row is the tenant with the sprout and the name.
\<close>

section \<open>Rows and the current tenant\<close>

record propRow =
  prop_Value :: string
  prop_Static :: bool
  prop_Expiry :: int

type_synonym prop_key = "string \<times> (string \<times> string)"
type_synonym prop_db = "(prop_key, propRow) table"

datatype prop_error = ErrInvalidPropKey | PropDbError

definition DefaultPropTTL :: int where "DefaultPropTTL = 5 * 60 * 1000000000"
definition StaticPropTTL :: int where "StaticPropTTL = 100 * 365 * 24 * 3600 * 1000000000"

text \<open>The current tenant: \<open>config.FarmerOrganization\<close>, or \<open>default\<close>.\<close>

definition tenantID :: "string \<Rightarrow> string" where
  "tenantID FarmerOrganization = (if FarmerOrganization \<noteq> [] then FarmerOrganization else ''default'')"

section \<open>Operations\<close>

definition upsertProp :: "prop_db \<Rightarrow> prop_key \<Rightarrow> propRow \<Rightarrow> prop_db \<times> prop_error option" where
  "upsertProp db k row =
     (let (db', done) = tbl_upsert db k row in (db', if done then None else Some PropDbError))"

definition getStringProp :: "prop_db \<Rightarrow> int \<Rightarrow> string \<Rightarrow> string \<Rightarrow> string \<Rightarrow> string" where
  "getStringProp db now tid sproutID name =
     (case tbl_first db (tid, sproutID, name) of
        Found row \<Rightarrow> if prop_Expiry row > now then prop_Value row else []
      | NotFound \<Rightarrow> [] | DbErr \<Rightarrow> [])"

definition GetStringPropFuncForTenant ::
  "prop_db \<Rightarrow> int \<Rightarrow> string \<Rightarrow> string \<Rightarrow> string \<Rightarrow> string" where
  "GetStringPropFuncForTenant db now tid sproutID = (\<lambda>name. getStringProp db now tid sproutID name)"

definition setPropWithTTL ::
  "prop_db \<Rightarrow> int \<Rightarrow> string \<Rightarrow> string \<Rightarrow> string \<Rightarrow> string \<Rightarrow> int \<Rightarrow> prop_db \<times> prop_error option" where
  "setPropWithTTL db now tid sproutID name value ttl =
     (if sproutID = [] \<or> name = [] then (db, Some ErrInvalidPropKey)
      else upsertProp db (tid, sproutID, name)
             \<lparr>prop_Value = value, prop_Static = False, prop_Expiry = now + ttl\<rparr>)"

definition setProp ::
  "prop_db \<Rightarrow> int \<Rightarrow> string \<Rightarrow> string \<Rightarrow> string \<Rightarrow> string \<Rightarrow> prop_db \<times> prop_error option" where
  "setProp db now tid sproutID name value =
     setPropWithTTL db now tid sproutID name value DefaultPropTTL"

definition deleteProp ::
  "prop_db \<Rightarrow> string \<Rightarrow> string \<Rightarrow> string \<Rightarrow> prop_db \<times> prop_error option" where
  "deleteProp db tid sproutID name =
     (if sproutID = [] \<or> name = [] then (db, Some ErrInvalidPropKey)
      else (tbl_delete db (\<lambda>k row. k = (tid, sproutID, name)),
            if tbl_up db then None else Some PropDbError))"

text \<open>A nil map is \<^term>\<open>None\<close>; the database failing and no row matching both give it.\<close>

definition getProps :: "prop_db \<Rightarrow> int \<Rightarrow> string \<Rightarrow> string \<Rightarrow> (string \<times> string) list option" where
  "getProps db now tid sproutID =
     (let rows = tbl_find db (\<lambda>(t, s, n) row. t = tid \<and> s = sproutID \<and> prop_Expiry row > now) in
      if rows = [] then None else Some (map (\<lambda>((t, s, n), row). (n, prop_Value row)) rows))"

section \<open>Static properties\<close>

text \<open>\<open>fmt.Sprintf("%v", v)\<close>; a map prints its keys in order.\<close>

fun digits :: "nat \<Rightarrow> nat \<Rightarrow> string" where
  "digits 0 n = []"
| "digits (Suc fuel) n =
     (if n < 10 then [char_of (48 + n)] else digits fuel (n div 10) @ [char_of (48 + n mod 10)])"

definition show_int :: "int \<Rightarrow> string" where
  "show_int i = (if i < 0 then CHR ''-'' # digits (Suc (nat (- i))) (nat (- i))
                 else digits (Suc (nat i)) (nat i))"

fun fmt_v :: "val \<Rightarrow> string" where
  "fmt_v VNull = ''<nil>''"
| "fmt_v (VBool b) = (if b then ''true'' else ''false'')"
| "fmt_v (VNum i) = show_int i"
| "fmt_v (VStr s) = s"
| "fmt_v (VStrs ss) = ''['' @ Join ss '' '' @ '']''"
| "fmt_v (VList vs) = ''['' @ Join (map fmt_v vs) '' '' @ '']''"
| "fmt_v (VMap kvs) = ''map['' @
     Join (map (\<lambda>(k, s). k @ '':'' @ s) (sort_key fst (map (\<lambda>(k, v). (k, fmt_v v)) kvs))) '' '' @ '']''"

definition setStaticProp :: "prop_db \<Rightarrow> int \<Rightarrow> string \<Rightarrow> string \<Rightarrow> string \<Rightarrow> string \<Rightarrow> prop_db" where
  "setStaticProp db now tid sproutID name value =
     (if sproutID = [] \<or> name = [] then db
      else fst (upsertProp db (tid, sproutID, name)
             \<lparr>prop_Value = value, prop_Static = True, prop_Expiry = now + StaticPropTTL\<rparr>))"

fun load_sprout_props :: "prop_db \<Rightarrow> int \<Rightarrow> string \<Rightarrow> string \<Rightarrow> (string \<times> val) list \<Rightarrow> prop_db" where
  "load_sprout_props db now tid sproutID [] = db"
| "load_sprout_props db now tid sproutID ((k, v) # kvs) =
     load_sprout_props (setStaticProp db now tid sproutID k (fmt_v v)) now tid sproutID kvs"

fun LoadStaticProps :: "prop_db \<Rightarrow> int \<Rightarrow> string \<Rightarrow> (string \<times> val) list \<Rightarrow> prop_db" where
  "LoadStaticProps db now tid [] = db"
| "LoadStaticProps db now tid ((sproutID, propsI) # cfg) =
     (case propsI of
        VMap propsMap \<Rightarrow> LoadStaticProps (load_sprout_props db now tid sproutID propsMap) now tid cfg
      | _ \<Rightarrow> LoadStaticProps db now tid cfg)"

definition IsStaticProp :: "prop_db \<Rightarrow> string \<Rightarrow> string \<Rightarrow> string \<Rightarrow> bool" where
  "IsStaticProp db tid sproutID name =
     (case tbl_first db (tid, sproutID, name) of
        Found row \<Rightarrow> prop_Static row | NotFound \<Rightarrow> False | DbErr \<Rightarrow> False)"

definition ClearStaticProps :: "prop_db \<Rightarrow> string \<Rightarrow> prop_db" where
  "ClearStaticProps db tid = tbl_delete db (\<lambda>(t, s, n) row. t = tid \<and> prop_Static row)"

section \<open>Reads after writes\<close>

lemma setPropWithTTL_ok:
  assumes "tbl_ok db" "sproutID \<noteq> []" "name \<noteq> []"
  shows "setPropWithTTL db now tid sproutID name value ttl =
     (tbl_put db (tid, sproutID, name)
        \<lparr>prop_Value = value, prop_Static = False, prop_Expiry = now + ttl\<rparr>, None)"
  using assms
  by (simp add: setPropWithTTL_def upsertProp_def tbl_put_def tbl_upsert_def tbl_okD)

lemma getStringProp_get:
  "tbl_ok db \<Longrightarrow> getStringProp db now tid sproutID name =
     (case tbl_get db (tid, sproutID, name) of
        Some row \<Rightarrow> if prop_Expiry row > now then prop_Value row else [] | None \<Rightarrow> [])"
  by (simp add: getStringProp_def tbl_okD split: option.splits)

lemma deleteProp_ok:
  assumes "tbl_ok db" "sproutID \<noteq> []" "name \<noteq> []"
  shows "deleteProp db tid sproutID name = (tbl_del db (tid, sproutID, name), None)"
  using assms by (simp add: deleteProp_def tbl_del_def tbl_okD)

lemma getProps_mem:
  assumes "tbl_ok db"
  shows "(\<exists>kvs. getProps db now tid sproutID = Some kvs \<and> (name, value) \<in> set kvs) \<longleftrightarrow>
     (\<exists>row. tbl_get db (tid, sproutID, name) = Some row \<and> prop_Expiry row > now \<and> prop_Value row = value)"
proof -
  define rows where "rows = tbl_find db (\<lambda>(t, s, n) row. t = tid \<and> s = sproutID \<and> prop_Expiry row > now)"
  have mem: "((t, s, n), row) \<in> set rows \<longleftrightarrow>
      tbl_get db (t, s, n) = Some row \<and> t = tid \<and> s = sproutID \<and> prop_Expiry row > now" for t s n row
    using assms by (simp add: rows_def tbl_find_get tbl_okD)
  have eq: "getProps db now tid sproutID =
      (if rows = [] then None else Some (map (\<lambda>((t, s, n), row). (n, prop_Value row)) rows))"
    by (simp add: getProps_def rows_def)
  have "(name, value) \<in> set (map (\<lambda>((t, s, n), row). (n, prop_Value row)) rows) \<longleftrightarrow>
      (\<exists>t s row. ((t, s, name), row) \<in> set rows \<and> prop_Value row = value)"
    by (auto simp: image_iff) (metis case_prod_conv)
  then have "(name, value) \<in> set (map (\<lambda>((t, s, n), row). (n, prop_Value row)) rows) \<longleftrightarrow>
      (\<exists>row. tbl_get db (tid, sproutID, name) = Some row \<and> prop_Expiry row > now \<and> prop_Value row = value)"
    by (auto simp: mem)
  then show ?thesis unfolding eq by (cases rows) auto
qed

section \<open>Loading the static properties\<close>

definition static_row :: "int \<Rightarrow> val \<Rightarrow> propRow" where
  "static_row now v = \<lparr>prop_Value = fmt_v v, prop_Static = True, prop_Expiry = now + StaticPropTTL\<rparr>"

text \<open>The entry a configuration gives a sprout's property, if any.\<close>

definition static_entry :: "(string \<times> val) list \<Rightarrow> string \<Rightarrow> string \<Rightarrow> val option" where
  "static_entry cfg sproutID name =
     (if sproutID = [] \<or> name = [] then None
      else case map_of cfg sproutID of Some (VMap kvs) \<Rightarrow> map_of kvs name | _ \<Rightarrow> None)"

text \<open>The keys of a decoded YAML map are distinct, at both levels.\<close>

fun distinct_val_keys :: "val \<Rightarrow> bool" where
  "distinct_val_keys (VMap kvs) = distinct (map fst kvs)"
| "distinct_val_keys _ = True"

definition cfg_distinct :: "(string \<times> val) list \<Rightarrow> bool" where
  "cfg_distinct cfg = (distinct (map fst cfg) \<and> list_all (\<lambda>(s, v). distinct_val_keys v) cfg)"

lemma setStaticProp_put:
  "tbl_ok db \<Longrightarrow> setStaticProp db now tid s n (fmt_v v) =
     (if s = [] \<or> n = [] then db else tbl_put db (tid, s, n) (static_row now v))"
  by (simp add: setStaticProp_def upsertProp_def tbl_put_def tbl_upsert_def tbl_okD static_row_def)

lemma load_sprout_props_get:
  "tbl_ok db \<Longrightarrow> distinct (map fst kvs) \<Longrightarrow>
   tbl_ok (load_sprout_props db now tid s kvs) \<and>
   tbl_get (load_sprout_props db now tid s kvs) (t, s', n) =
     (if t = tid \<and> s' = s \<and> s \<noteq> [] \<and> n \<noteq> [] \<and> map_of kvs n \<noteq> None
      then Some (static_row now (the (map_of kvs n))) else tbl_get db (t, s', n))"
proof (induction kvs arbitrary: db)
  case Nil
  then show ?case by simp
next
  case (Cons kv kvs)
  obtain k v where kv: "kv = (k, v)" by (cases kv)
  let ?db = "setStaticProp db now tid s k (fmt_v v)"
  have ok: "tbl_ok ?db" using Cons.prems by (simp add: setStaticProp_put)
  have "k \<notin> dom (map_of kvs)" using Cons.prems kv by (simp add: dom_map_of_conv_image_fst)
  then have k: "map_of kvs k = None" by (simp add: domIff)
  show ?case
    using Cons.IH[OF ok] Cons.prems k kv
    by (auto simp: setStaticProp_put tbl_get_put)
qed

lemma LoadStaticProps_get:
  "tbl_ok db \<Longrightarrow> cfg_distinct cfg \<Longrightarrow>
   tbl_ok (LoadStaticProps db now tid cfg) \<and>
   tbl_get (LoadStaticProps db now tid cfg) (t, s, n) =
     (if t = tid \<and> static_entry cfg s n \<noteq> None
      then Some (static_row now (the (static_entry cfg s n))) else tbl_get db (t, s, n))"
proof (induction cfg arbitrary: db)
  case Nil
  then show ?case by (simp add: static_entry_def)
next
  case (Cons sv cfg)
  obtain s0 v where sv: "sv = (s0, v)" by (cases sv)
  have cfg: "cfg_distinct cfg" and v: "distinct_val_keys v" and s0: "map_of cfg s0 = None"
    using Cons.prems sv by (auto simp: cfg_distinct_def map_of_eq_None_iff)
  show ?case
  proof (cases v)
    case (VMap kvs)
    have d: "distinct (map fst kvs)" using v VMap by simp
    have ok: "tbl_ok (load_sprout_props db now tid s0 kvs)"
      and get: "tbl_get (load_sprout_props db now tid s0 kvs) (t, s, n) =
        (if t = tid \<and> s = s0 \<and> s0 \<noteq> [] \<and> n \<noteq> [] \<and> map_of kvs n \<noteq> None
         then Some (static_row now (the (map_of kvs n))) else tbl_get db (t, s, n))" for t s n
      using load_sprout_props_get[OF Cons.prems(1) d] by blast+
    show ?thesis
      using Cons.IH[OF ok cfg] s0 sv VMap get by (auto simp: static_entry_def)
  qed (use Cons.IH[OF Cons.prems(1) cfg] s0 sv in \<open>auto simp: static_entry_def\<close>)
qed

lemma ClearStaticProps_get:
  assumes "tbl_ok db"
  shows "tbl_ok (ClearStaticProps db tid)"
    and "tbl_get (ClearStaticProps db tid) (t, s, n) =
      (case tbl_get db (t, s, n) of None \<Rightarrow> None
       | Some row \<Rightarrow> if t = tid \<and> prop_Static row then None else Some row)"
  using assms
  by (simp_all add: ClearStaticProps_def tbl_ok_def tbl_get_delete split: option.splits)

section \<open>Properties\<close>

text \<open>
  A property that was set is read back until it expires and reads
  as the empty string from then on, and setting it changes what no other
  tenant, sprout or name reads.
\<close>

theorem setPropWithTTL_read_back:
  assumes "tbl_ok db" "sproutID \<noteq> []" "name \<noteq> []"
  shows "getStringProp (fst (setPropWithTTL db now tid sproutID name value ttl)) later tid' sproutID' name' =
     (if (tid', sproutID', name') = (tid, sproutID, name)
      then if later < now + ttl then value else []
      else getStringProp db later tid' sproutID' name')"
  using assms by (simp add: setPropWithTTL_ok getStringProp_get tbl_get_put)

definition prop_demo :: prop_db where
  "prop_demo = \<lparr>tbl_rows = [((''acme'', ''web-1'', ''role''),
       \<lparr>prop_Value = ''old'', prop_Static = True, prop_Expiry = 100\<rparr>)], tbl_up = True\<rparr>"

lemma prop_demo_ok: "tbl_ok prop_demo"
  by (simp add: prop_demo_def tbl_ok_def tbl_wf_def)

theorem setPropWithTTL_read_back_witness:
  "getStringProp (fst (setPropWithTTL prop_demo 10 ''acme'' ''web-1'' ''role'' ''db'' 5)) 14
     ''acme'' ''web-1'' ''role'' = ''db''"
  using setPropWithTTL_read_back[of prop_demo "''web-1''" "''role''" 10 "''acme''" "''db''" 5
      14 "''acme''" "''web-1''" "''role''"] prop_demo_ok
  by simp

text \<open>
  A configuration reload (\<open>ClearStaticProps\<close>, then
  \<open>LoadStaticProps\<close>) makes exactly the configured properties of the tenant
  static, drops the static ones that left the configuration, keeps every
  runtime property the configuration does not name and leaves other tenants
  alone.
\<close>

theorem reload_static_props:
  fixes db :: prop_db and cfg :: "(string \<times> val) list" and tid :: string and now :: int
  assumes "tbl_ok db" "cfg_distinct cfg"
  defines "db' \<equiv> LoadStaticProps (ClearStaticProps db tid) now tid cfg"
  shows "tbl_ok db' \<and>
     IsStaticProp db' tid sproutID name = (static_entry cfg sproutID name \<noteq> None) \<and>
     tbl_get db' (t, sproutID, name) =
       (if t \<noteq> tid then tbl_get db (t, sproutID, name)
        else case static_entry cfg sproutID name of
               Some v \<Rightarrow> Some (static_row now v)
             | None \<Rightarrow> (case tbl_get db (t, sproutID, name) of
                 Some row \<Rightarrow> if prop_Static row then None else Some row
               | None \<Rightarrow> None))"
proof -
  note clear = ClearStaticProps_get[OF assms(1), of tid]
  note load = LoadStaticProps_get[OF clear(1) assms(2), of now tid, folded db'_def]
  have ok: "tbl_ok db'" using load by blast
  have get: "tbl_get db' (u, sproutID, name) =
       (if u \<noteq> tid then tbl_get db (u, sproutID, name)
        else case static_entry cfg sproutID name of
               Some v \<Rightarrow> Some (static_row now v)
             | None \<Rightarrow> (case tbl_get db (u, sproutID, name) of
                 Some row \<Rightarrow> if prop_Static row then None else Some row
               | None \<Rightarrow> None))" for u
    using load by (auto simp: clear(2) split: option.splits)
  have "IsStaticProp db' tid sproutID name = (static_entry cfg sproutID name \<noteq> None)"
    using ok get[of tid]
    by (auto simp: IsStaticProp_def tbl_okD static_row_def split: option.splits if_splits)
  with ok get[of t] show ?thesis by blast
qed

theorem reload_static_props_witness:
  "IsStaticProp (LoadStaticProps (ClearStaticProps prop_demo ''acme'') 20 ''acme''
      [(''db-1'', VMap [(''port'', VNum 5432)])]) ''acme'' ''web-1'' ''role'' = False"
  using reload_static_props[of prop_demo "[(''db-1'', VMap [(''port'', VNum 5432)])]"
      "''acme''" 20 "''web-1''" "''role''"] prop_demo_ok
  by (simp add: cfg_distinct_def static_entry_def)

end
