(* ===== verification/Rbac_Cohort.thy ===== *)
theory Rbac_Cohort
  imports Props
begin

text \<open>
  Cohorts (\<open>internal/rbac/cohort.go\<close> and the cohort rows of \<open>store.go\<close>):
  definitions and their validation, the registry with its membership cache,
  reference validation by nesting depth, and recursive resolution of static,
  dynamic and compound cohorts.  A Go map used as a set (\<open>map[string]bool\<close> whose
  values are all true) is a set; a nil dereference is the error \<open>NilPanic\<close>.
\<close>

section \<open>Definitions of cohorts\<close>

definition CohortTypeStatic :: string where "CohortTypeStatic = ''static''"
definition CohortTypeDynamic :: string where "CohortTypeDynamic = ''dynamic''"
definition CohortTypeCompound :: string where "CohortTypeCompound = ''compound''"

definition OperatorAND :: string where "OperatorAND = ''AND''"
definition OperatorOR :: string where "OperatorOR = ''OR''"
definition OperatorEXCEPT :: string where "OperatorEXCEPT = ''EXCEPT''"

definition MaxNestingDepth :: nat where "MaxNestingDepth = 16"

lemmas cohort_consts =
  CohortTypeStatic_def CohortTypeDynamic_def CohortTypeCompound_def
  OperatorAND_def OperatorOR_def OperatorEXCEPT_def

record DynamicMatch =
  PropName :: string
  PropValue :: string

record CompoundExpr =
  Operator :: string
  Operands :: "string list"

record cohort =
  coh_Name :: string
  coh_Type :: string
  coh_Members :: "string list option"
  coh_Match :: "DynamicMatch option"
  coh_Compound :: "CompoundExpr option"
  coh_TenantID :: string

datatype cohort_error =
    ErrCohortNotFound string
  | ErrCircularReference string
  | ErrMaxDepthExceeded string nat
  | ErrInvalidCohort string
  | ErrInvalidOperator string
  | ErrMissingOperands string
  | ErrSelfReference string
  | InCohort string cohort_error
  | InOperand string string cohort_error
  | Refreshing string cohort_error
  | CohortDbError
  | NilPanic

definition validateOperator :: "string \<Rightarrow> cohort_error option" where
  "validateOperator op =
     (if op = OperatorAND \<or> op = OperatorOR \<or> op = OperatorEXCEPT then None
      else Some (ErrInvalidOperator op))"

definition Cohort_Validate :: "cohort \<Rightarrow> cohort_error option" where
  "Cohort_Validate c =
     (if coh_Name c = [] then Some (ErrInvalidCohort ''name is required'')
      else if coh_Type c = CohortTypeStatic then None
      else if coh_Type c = CohortTypeDynamic then
        (case coh_Match c of
           None \<Rightarrow> Some (ErrInvalidCohort ''requires a match rule'')
         | Some m \<Rightarrow> if PropName m = [] then Some (ErrInvalidCohort ''match requires prop_name'')
                     else None)
      else if coh_Type c = CohortTypeCompound then
        (case coh_Compound c of
           None \<Rightarrow> Some (ErrInvalidCohort ''requires a compound expression'')
         | Some e \<Rightarrow>
             (case validateOperator (Operator e) of
                Some err \<Rightarrow> Some (InCohort (coh_Name c) err)
              | None \<Rightarrow> if length (Operands e) < 2 then Some (ErrMissingOperands (coh_Name c))
                        else None))
      else Some (ErrInvalidCohort ''unknown type''))"

section \<open>Rows\<close>

text \<open>
  A row of \<open>rbac_cohorts\<close>.  The three payload columns hold JSON text that only
  this code writes and reads; the model stores the value the text encodes, with
  \<^term>\<open>None\<close> for the empty text of an absent payload.
\<close>

record cohortRow =
  crow_Type :: string
  crow_Members :: "string list option"
  crow_Match :: "DynamicMatch option"
  crow_Compound :: "CompoundExpr option"

type_synonym cohort_db = "(string \<times> string, cohortRow) table"

definition cohortRowFrom :: "string \<Rightarrow> cohort \<Rightarrow> (string \<times> string) \<times> cohortRow" where
  "cohortRowFrom org c =
     ((if coh_TenantID c = [] then tenantID org else coh_TenantID c, coh_Name c),
      \<lparr>crow_Type = coh_Type c, crow_Members = coh_Members c,
       crow_Match = coh_Match c, crow_Compound = coh_Compound c\<rparr>)"

definition toCohort :: "(string \<times> string) \<times> cohortRow \<Rightarrow> cohort" where
  "toCohort kr = (case kr of ((tid, name), row) \<Rightarrow>
     \<lparr>coh_Name = name, coh_Type = crow_Type row, coh_Members = crow_Members row,
      coh_Match = crow_Match row, coh_Compound = crow_Compound row, coh_TenantID = tid\<rparr>)"

definition upsertCohortRow ::
  "cohort_db \<Rightarrow> (string \<times> string) \<times> cohortRow \<Rightarrow> cohort_db \<times> cohort_error option" where
  "upsertCohortRow db kr =
     (let (db', done) = tbl_upsert db (fst kr) (snd kr) in
      (db', if done then None else Some CohortDbError))"

definition getCohort :: "cohort_db \<Rightarrow> string \<Rightarrow> string \<Rightarrow> cohort_error + cohort" where
  "getCohort db tid name =
     (case tbl_first db (tid, name) of
        Found row \<Rightarrow> Inr (toCohort ((tid, name), row))
      | NotFound \<Rightarrow> Inl (ErrCohortNotFound name)
      | DbErr \<Rightarrow> Inl (ErrCohortNotFound name))"

definition listCohorts :: "cohort_db \<Rightarrow> string \<Rightarrow> (string \<times> cohort) list" where
  "listCohorts db tid =
     map (\<lambda>((t, n), row). (n, toCohort ((t, n), row))) (tbl_find db (\<lambda>(t, n) row. t = tid))"

section \<open>The registry\<close>

record CachedMembership =
  cm_Members :: "string list"
  cm_LastRefreshed :: int

record registry =
  reg_cache :: "string \<rightharpoonup> CachedMembership"
  reg_tenantID :: string

definition NewRegistryForTenant :: "string \<Rightarrow> registry" where
  "NewRegistryForTenant tid = \<lparr>reg_cache = (\<lambda>_. None), reg_tenantID = tid\<rparr>"

definition NewRegistry :: "string \<Rightarrow> registry" where
  "NewRegistry org = NewRegistryForTenant (tenantID org)"

text \<open>\<open>Register\<close>; the state is the table and the registry.\<close>

definition Registry_Register ::
  "string \<Rightarrow> cohort_db \<times> registry \<Rightarrow> cohort \<Rightarrow> (cohort_db \<times> registry) \<times> cohort_error option" where
  "Registry_Register org st c =
     (let (db, r) = st in
      case Cohort_Validate c of
        Some err \<Rightarrow> (st, Some err)
      | None \<Rightarrow>
          if coh_Type c = CohortTypeCompound \<and>
             list_ex (\<lambda>op. op = coh_Name c) (case coh_Compound c of Some e \<Rightarrow> Operands e | None \<Rightarrow> [])
          then (st, Some (ErrSelfReference (coh_Name c)))
          else let c' = (if coh_TenantID c = [] then c\<lparr>coh_TenantID := reg_tenantID r\<rparr> else c);
                   (db', err) = upsertCohortRow db (cohortRowFrom org c')
               in (case err of
                     Some e \<Rightarrow> ((db', r), Some e)
                   | None \<Rightarrow> ((db', r\<lparr>reg_cache := (reg_cache r)(coh_Name c' := None)\<rparr>), None)))"

definition Registry_Get :: "cohort_db \<Rightarrow> registry \<Rightarrow> string \<Rightarrow> cohort_error + cohort" where
  "Registry_Get db r name = getCohort db (reg_tenantID r) name"

definition Registry_List :: "cohort_db \<Rightarrow> registry \<Rightarrow> string list" where
  "Registry_List db r = map fst (listCohorts db (reg_tenantID r))"

definition GetCachedMembership :: "registry \<Rightarrow> string \<Rightarrow> CachedMembership option" where
  "GetCachedMembership r name = reg_cache r name"

section \<open>Reference validation\<close>

text \<open>
  \<open>computeDepth\<close> marks a compound cohort as visited for the time its operands
  are examined and unmarks it before it returns normally, and an error ends the
  whole computation, so each operand sees exactly the set of its ancestors:
  \<open>visited\<close> is passed down.
\<close>

function (sequential) computeDepth ::
    "(string \<times> cohort) list \<Rightarrow> string \<Rightarrow> string set \<Rightarrow> cohort_error + nat"
  and computeDepth_ops ::
    "(string \<times> cohort) list \<Rightarrow> string list \<Rightarrow> string set \<Rightarrow> nat \<Rightarrow> cohort_error + nat"
where
  "computeDepth cohorts name visited =
     (if name \<in> visited then Inl (ErrCircularReference name)
      else case map_of cohorts name of
             None \<Rightarrow> Inl (ErrCohortNotFound name)
           | Some c \<Rightarrow>
               if coh_Type c \<noteq> CohortTypeCompound then Inr 0
               else (case coh_Compound c of
                       None \<Rightarrow> Inl NilPanic
                     | Some e \<Rightarrow>
                         (case computeDepth_ops cohorts (Operands e) (insert name visited) 0 of
                            Inl err \<Rightarrow> Inl err
                          | Inr maxChild \<Rightarrow> Inr (1 + maxChild))))"
| "computeDepth_ops cohorts [] visited maxChild = Inr maxChild"
| "computeDepth_ops cohorts (op # ops) visited maxChild =
     (case computeDepth cohorts op visited of
        Inl err \<Rightarrow> Inl err
      | Inr d \<Rightarrow> computeDepth_ops cohorts ops visited (if d > maxChild then d else maxChild))"
  by pat_completeness auto

lemma unvisited_decreases:
  assumes "name \<notin> visited" "map_of cohorts name = Some c"
  shows "card (fst ` set cohorts - insert name visited) < card (fst ` set cohorts - visited)"
proof -
  have "name \<in> fst ` set cohorts" using map_of_SomeD[OF assms(2)] by force
  with assms(1) show ?thesis by (intro psubset_card_mono) auto
qed

termination computeDepth
  by (relation "measures [\<lambda>x. case x of
          Inl (cohorts, name, visited) \<Rightarrow> card (fst ` set cohorts - visited)
        | Inr (cohorts, ops, visited, m) \<Rightarrow> card (fst ` set cohorts - visited),
      \<lambda>x. case x of Inl _ \<Rightarrow> 0 | Inr (cohorts, ops, visited, m) \<Rightarrow> Suc (length ops)]")
    (auto simp: unvisited_decreases)

text \<open>The first loop of \<open>ValidateReferencesAll\<close>: operands that no cohort defines.\<close>

fun unknown_operands ::
  "(string \<times> cohort) list \<Rightarrow> (string \<times> cohort) list \<Rightarrow> cohort_error list option" where
  "unknown_operands cohorts [] = Some []"
| "unknown_operands cohorts ((name, c) # rest) =
     (if coh_Type c \<noteq> CohortTypeCompound then unknown_operands cohorts rest
      else case coh_Compound c of
             None \<Rightarrow> None
           | Some e \<Rightarrow>
               (case unknown_operands cohorts rest of
                  None \<Rightarrow> None
                | Some errs \<Rightarrow>
                    Some (map (\<lambda>op. InCohort name (ErrCohortNotFound op))
                            (filter (\<lambda>op. map_of cohorts op = None) (Operands e)) @ errs)))"

text \<open>The second loop: the depth of every compound cohort.\<close>

fun depth_errors :: "(string \<times> cohort) list \<Rightarrow> (string \<times> cohort) list \<Rightarrow> cohort_error list" where
  "depth_errors cohorts [] = []"
| "depth_errors cohorts ((name, c) # rest) =
     (if coh_Type c \<noteq> CohortTypeCompound then depth_errors cohorts rest
      else case computeDepth cohorts name {} of
             Inl err \<Rightarrow> err # depth_errors cohorts rest
           | Inr depth \<Rightarrow>
               if depth > MaxNestingDepth
               then ErrMaxDepthExceeded name depth # depth_errors cohorts rest
               else depth_errors cohorts rest)"

text \<open>\<^term>\<open>None\<close> is a nil dereference of a missing compound expression.\<close>

definition ValidateReferencesAll :: "cohort_db \<Rightarrow> registry \<Rightarrow> cohort_error list option" where
  "ValidateReferencesAll db r =
     (let cohorts = listCohorts db (reg_tenantID r) in
      case unknown_operands cohorts cohorts of
        None \<Rightarrow> None
      | Some errs \<Rightarrow> Some (errs @ depth_errors cohorts cohorts))"

definition ValidateReferences :: "cohort_db \<Rightarrow> registry \<Rightarrow> cohort_error option" where
  "ValidateReferences db r =
     (case ValidateReferencesAll db r of
        None \<Rightarrow> Some NilPanic | Some [] \<Rightarrow> None | Some (err # errs) \<Rightarrow> Some err)"

section \<open>Resolution\<close>

text \<open>What resolution reads: the cohort table, the property table and the clock.\<close>

record cohort_env =
  env_cohorts :: cohort_db
  env_props :: prop_db
  env_now :: int

definition resolveStatic :: "cohort \<Rightarrow> string set" where
  "resolveStatic c = set (case coh_Members c of None \<Rightarrow> [] | Some ms \<Rightarrow> ms)"

text \<open>The slice expressions of the wildcard forms are written as \<open>drop\<close> and \<open>take\<close>.\<close>

definition matchesPropValue :: "string \<Rightarrow> string \<Rightarrow> bool" where
  "matchesPropValue actual expected =
     (if expected = ''*'' then actual \<noteq> []
      else if HasPrefix expected ''*'' \<and> HasSuffix expected ''*''
      then Contains actual (drop 1 (take (length expected - 1) expected))
      else if HasPrefix expected ''*'' then HasSuffix actual (drop 1 expected)
      else if HasSuffix expected ''*''
      then HasPrefix actual (take (length expected - 1) expected)
      else actual = expected)"

definition resolveDynamic ::
  "cohort_env \<Rightarrow> string \<Rightarrow> cohort \<Rightarrow> string list \<Rightarrow> cohort_error + string set" where
  "resolveDynamic env tid c allSproutIDs =
     (case coh_Match c of
        None \<Rightarrow> if allSproutIDs = [] then Inr {} else Inl NilPanic
      | Some m \<Rightarrow> Inr (set (filter (\<lambda>sproutID.
          matchesPropValue
            (GetStringPropFuncForTenant (env_props env) (env_now env) tid sproutID (PropName m))
            (PropValue m)) allSproutIDs)))"

definition intersect :: "string set \<Rightarrow> string set \<Rightarrow> string set" where
  "intersect a b = Set.filter (\<lambda>sid. sid \<in> b) a"

definition set_union :: "string set \<Rightarrow> string set \<Rightarrow> string set" where
  "set_union a b = a \<union> b"

definition set_except :: "string set \<Rightarrow> string set \<Rightarrow> string set" where
  "set_except a b = Set.filter (\<lambda>sid. sid \<notin> b) a"

text \<open>The \<open>switch\<close> of \<open>resolveCompound\<close>: an unknown operator leaves the result as it is.\<close>

definition combine :: "string \<Rightarrow> string set \<Rightarrow> string set \<Rightarrow> string set" where
  "combine op result operandSet =
     (if op = OperatorAND then intersect result operandSet
      else if op = OperatorOR then set_union result operandSet
      else if op = OperatorEXCEPT then set_except result operandSet
      else result)"

text \<open>
  \<open>resolve\<close> and the operand loop of \<open>resolveCompound\<close>.  Every operand gets its
  own copy of the visited set, as in the code.  The first operand is resolved
  before the loop, with the same error wrapping: \<open>acc\<close> is \<^term>\<open>None\<close> for it.
\<close>

function (sequential) resolve ::
    "cohort_env \<Rightarrow> string \<Rightarrow> string list \<Rightarrow> string \<Rightarrow> string set \<Rightarrow> nat \<Rightarrow> cohort_error + string set"
  and resolve_operands ::
    "cohort_env \<Rightarrow> string \<Rightarrow> string list \<Rightarrow> cohort \<Rightarrow> string \<Rightarrow> string list \<Rightarrow> string set \<Rightarrow> nat \<Rightarrow>
     string set option \<Rightarrow> cohort_error + string set"
where
  "resolve env tid allSproutIDs name visited depth =
     (if depth > MaxNestingDepth then Inl (ErrMaxDepthExceeded name depth)
      else if name \<in> visited then Inl (ErrCircularReference name)
      else case getCohort (env_cohorts env) tid name of
             Inl err \<Rightarrow> Inl err
           | Inr c \<Rightarrow>
               if coh_Type c = CohortTypeStatic then Inr (resolveStatic c)
               else if coh_Type c = CohortTypeDynamic then resolveDynamic env tid c allSproutIDs
               else if coh_Type c = CohortTypeCompound then
                 (case coh_Compound c of
                    None \<Rightarrow> Inl NilPanic
                  | Some e \<Rightarrow>
                      if length (Operands e) < 2 then Inl (ErrMissingOperands (coh_Name c))
                      else resolve_operands env tid allSproutIDs c (Operator e) (Operands e)
                             (insert name visited) (depth + 1) None)
               else Inl (ErrInvalidCohort ''unknown type''))"
| "resolve_operands env tid allSproutIDs c op [] visited depth acc =
     Inr (case acc of None \<Rightarrow> {} | Some result \<Rightarrow> result)"
| "resolve_operands env tid allSproutIDs c op (operandName # rest) visited depth acc =
     (case resolve env tid allSproutIDs operandName visited depth of
        Inl err \<Rightarrow> Inl (InOperand operandName (coh_Name c) err)
      | Inr operandSet \<Rightarrow>
          resolve_operands env tid allSproutIDs c op rest visited depth
            (Some (case acc of None \<Rightarrow> operandSet | Some result \<Rightarrow> combine op result operandSet)))"
  by pat_completeness auto
termination resolve
  by (relation "measures [\<lambda>x. case x of
          Inl (env, tid, ss, name, visited, depth) \<Rightarrow> Suc (Suc MaxNestingDepth) - depth
        | Inr (env, tid, ss, c, op, ops, visited, depth, acc) \<Rightarrow> Suc (Suc MaxNestingDepth) - depth,
      \<lambda>x. case x of Inl _ \<Rightarrow> 0
        | Inr (env, tid, ss, c, op, ops, visited, depth, acc) \<Rightarrow> Suc (length ops)]")
    auto

definition Resolve :: "cohort_env \<Rightarrow> registry \<Rightarrow> string \<Rightarrow> string list \<Rightarrow> cohort_error + string set" where
  "Resolve env r name allSproutIDs = resolve env (reg_tenantID r) allSproutIDs name {} 0"

section \<open>Refreshing the membership cache\<close>

record RefreshResult =
  rr_Name :: string
  rr_Members :: "string list"
  rr_LastRefreshed :: int

definition Refresh ::
  "cohort_env \<Rightarrow> registry \<Rightarrow> string \<Rightarrow> string list \<Rightarrow> registry \<times> (cohort_error + RefreshResult)" where
  "Refresh env r name allSproutIDs =
     (case getCohort (env_cohorts env) (reg_tenantID r) name of
        Inl _ \<Rightarrow> (r, Inl (ErrCohortNotFound name))
      | Inr _ \<Rightarrow>
          (case Resolve env r name allSproutIDs of
             Inl err \<Rightarrow> (r, Inl (Refreshing name err))
           | Inr members \<Rightarrow>
               let memberList = sorted_list_of_set members; now = env_now env
               in (r\<lparr>reg_cache := (reg_cache r)(name \<mapsto>
                      \<lparr>cm_Members = memberList, cm_LastRefreshed = now\<rparr>)\<rparr>,
                   Inr \<lparr>rr_Name = name, rr_Members = memberList, rr_LastRefreshed = now\<rparr>)))"

fun refresh_names ::
  "cohort_env \<Rightarrow> registry \<Rightarrow> string list \<Rightarrow> string list \<Rightarrow>
   registry \<times> RefreshResult list \<times> cohort_error option" where
  "refresh_names env r [] allSproutIDs = (r, [], None)"
| "refresh_names env r (name # names) allSproutIDs =
     (let (r1, res) = Refresh env r name allSproutIDs;
          (r2, results, firstErr) = refresh_names env r1 names allSproutIDs
      in case res of
           Inl err \<Rightarrow> (r2, results, Some err)
         | Inr result \<Rightarrow> (r2, result # results, firstErr))"

definition RefreshAll ::
  "cohort_env \<Rightarrow> registry \<Rightarrow> string list \<Rightarrow> registry \<times> RefreshResult list \<times> cohort_error option" where
  "RefreshAll env r allSproutIDs =
     refresh_names env r (sort (Registry_List (env_cohorts env) r)) allSproutIDs"

section \<open>Reading definitions back\<close>

text \<open>Every stored definition is a valid one: what \<open>Register\<close> lets in.\<close>

definition cohort_db_valid :: "cohort_db \<Rightarrow> bool" where
  "cohort_db_valid db = list_all (\<lambda>kr. Cohort_Validate (toCohort kr) = None) (tbl_rows db)"

lemma map_of_listCohorts:
  assumes "tbl_ok db"
  shows "map_of (listCohorts db tid) name =
    map_option (\<lambda>row. toCohort ((tid, name), row)) (tbl_get db (tid, name))"
proof -
  have *: "map_of (map (\<lambda>((t, n), row). (n, toCohort ((t, n), row)))
        (filter (\<lambda>(k, r). (\<lambda>(t, n) row. t = tid) k r) rows)) name =
      map_option (\<lambda>row. toCohort ((tid, name), row)) (map_of rows (tid, name))" for rows
    by (induction rows) auto
  show ?thesis
    using * assms by (simp add: listCohorts_def tbl_find_def tbl_get_def tbl_okD)
qed

lemma getCohort_get:
  "tbl_ok db \<Longrightarrow> getCohort db tid name =
     (case tbl_get db (tid, name) of
        Some row \<Rightarrow> Inr (toCohort ((tid, name), row)) | None \<Rightarrow> Inl (ErrCohortNotFound name))"
  by (simp add: getCohort_def tbl_okD split: option.splits)

lemma getCohort_iff_listed:
  "tbl_ok db \<Longrightarrow> getCohort db tid name = Inr c \<longleftrightarrow> map_of (listCohorts db tid) name = Some c"
  by (auto simp: getCohort_get map_of_listCohorts split: option.splits)

lemma getCohort_valid:
  assumes "tbl_ok db" "cohort_db_valid db" "getCohort db tid name = Inr c"
  shows "Cohort_Validate c = None" "coh_Name c = name"
proof -
  obtain row where row: "tbl_get db (tid, name) = Some row" "c = toCohort ((tid, name), row)"
    using assms by (auto simp: getCohort_get split: option.splits)
  then have "((tid, name), row) \<in> set (tbl_rows db)" by (auto simp: tbl_get_def dest: map_of_SomeD)
  with assms(2) row(2) show "Cohort_Validate c = None"
    by (auto simp: cohort_db_valid_def list_all_iff)
  show "coh_Name c = name" using row(2) by (simp add: toCohort_def)
qed

lemma Cohort_Validate_cases:
  assumes "Cohort_Validate c = None"
  obtains (static) "coh_Type c = CohortTypeStatic"
    | (dynamic) m where "coh_Type c = CohortTypeDynamic" "coh_Match c = Some m"
    | (compound) e where "coh_Type c = CohortTypeCompound" "coh_Compound c = Some e"
        "validateOperator (Operator e) = None" "2 \<le> length (Operands e)"
  using assms by (auto simp: Cohort_Validate_def split: if_splits option.splits)

section \<open>Depth and resolution\<close>

lemma computeDepth_ops_bounds:
  "computeDepth_ops cohorts ops visited m = Inr k \<Longrightarrow>
   m \<le> k \<and> list_all (\<lambda>op. \<exists>d \<le> k. computeDepth cohorts op visited = Inr d) ops"
proof (induction ops arbitrary: m)
  case Nil
  then show ?case by simp
next
  case (Cons op ops)
  then obtain d where d: "computeDepth cohorts op visited = Inr d"
    and rest: "computeDepth_ops cohorts ops visited (if d > m then d else m) = Inr k"
    by (auto split: sum.splits)
  from Cons.IH[OF rest] d show ?case by (auto split: if_splits)
qed

lemma resolve_operands_total:
  assumes "list_all (\<lambda>op. \<exists>S. resolve env tid ss op visited depth = Inr S) ops"
  shows "\<exists>S. resolve_operands env tid ss c oper ops visited depth acc = Inr S"
  using assms by (induction ops arbitrary: acc) (auto simp del: resolve.simps)

lemma computeDepth_Inr_cases:
  assumes "computeDepth cohorts name visited = Inr k" "map_of cohorts name = Some c"
    and "coh_Type c = CohortTypeCompound"
  obtains e k' where "name \<notin> visited" "coh_Compound c = Some e" "k = Suc k'"
    "computeDepth_ops cohorts (Operands e) (insert name visited) 0 = Inr k'"
  using assms by (auto split: if_splits option.splits sum.splits)

lemma validated_resolves_leaf:
  assumes "getCohort (env_cohorts env) tid name = Inr c" "Cohort_Validate c = None"
    and "coh_Type c \<noteq> CohortTypeCompound" "name \<notin> visited" "depth \<le> MaxNestingDepth"
  shows "\<exists>S. resolve env tid ss name visited depth = Inr S"
  using assms(2)
proof (cases rule: Cohort_Validate_cases)
  case (dynamic m)
  with assms show ?thesis by (simp add: resolveDynamic_def)
qed (use assms in auto)

text \<open>
  A nesting depth within the bound is enough for resolution to succeed: the
  depth check of resolution and the one of validation agree exactly.
\<close>

lemma depth_within_bound_resolves:
  assumes db: "tbl_ok (env_cohorts env)" "cohort_db_valid (env_cohorts env)"
    and "computeDepth (listCohorts (env_cohorts env) tid) name visited = Inr k"
    and "depth + k \<le> MaxNestingDepth"
  shows "\<exists>S. resolve env tid ss name visited depth = Inr S"
  using assms(3,4)
proof (induction k arbitrary: name visited depth rule: less_induct)
  case (less k)
  let ?cohorts = "listCohorts (env_cohorts env) tid"
  obtain c where c: "map_of ?cohorts name = Some c" and nv: "name \<notin> visited"
    using less.prems(1) by (auto split: if_splits option.splits)
  then have get: "getCohort (env_cohorts env) tid name = Inr c" by (simp add: getCohort_iff_listed db)
  note valid = getCohort_valid[OF db get]
  show ?case
  proof (cases "coh_Type c = CohortTypeCompound")
    case False
    then show ?thesis
      using validated_resolves_leaf[OF get valid(1) _ nv] less.prems(2) by simp
  next
    case True
    obtain e k' where e: "coh_Compound c = Some e" and k: "k = Suc k'"
      and ops: "computeDepth_ops ?cohorts (Operands e) (insert name visited) 0 = Inr k'"
      using computeDepth_Inr_cases[OF less.prems(1) c True] by blast
    have two: "2 \<le> length (Operands e)"
      using valid(1) True e by (auto elim: Cohort_Validate_cases simp: cohort_consts)
    have "\<exists>S. resolve env tid ss op (insert name visited) (depth + 1) = Inr S"
      if "d \<le> k'" "computeDepth ?cohorts op (insert name visited) = Inr d" for op d
    proof (rule less.IH[OF _ that(2)])
      show "d < k" "depth + 1 + d \<le> MaxNestingDepth" using that(1) less.prems(2) k by auto
    qed
    then have "list_all (\<lambda>op. \<exists>S. resolve env tid ss op (insert name visited) (depth + 1) = Inr S) (Operands e)"
      using computeDepth_ops_bounds[OF ops] unfolding list_all_iff by blast
    from resolve_operands_total[OF this] obtain S where
      S: "resolve_operands env tid ss c (Operator e) (Operands e) (insert name visited) (depth + 1) None = Inr S"
      by blast
    have "resolve env tid ss name visited depth = Inr S"
      using S True e two nv get less.prems(2) k by (simp add: cohort_consts)
    then show ?thesis by blast
  qed
qed

text \<open>A result does not depend on how deep, or below which ancestors, it was computed.\<close>

lemma resolve_mono:
  "resolve env tid ss name visited depth = Inr S \<Longrightarrow> visited' \<subseteq> visited \<Longrightarrow> depth' \<le> depth \<Longrightarrow>
     resolve env tid ss name visited' depth' = Inr S"
  "resolve_operands env tid ss c oper ops visited depth acc = Inr S \<Longrightarrow> visited' \<subseteq> visited \<Longrightarrow>
     depth' \<le> depth \<Longrightarrow> resolve_operands env tid ss c oper ops visited' depth' acc = Inr S"
proof (induction env tid ss name visited depth and env tid ss c oper ops visited depth acc
    arbitrary: S visited' depth' and S visited' depth'
    rule: resolve_resolve_operands.induct)
  case (1 env tid ss name visited depth)
  from "1.prems" have d: "\<not> depth > MaxNestingDepth" "\<not> depth' > MaxNestingDepth"
    and v: "name \<notin> visited" "name \<notin> visited'"
    by (auto split: if_splits)
  obtain c where c: "getCohort (env_cohorts env) tid name = Inr c"
    using "1.prems"(1) by (auto split: if_splits sum.splits)
  show ?case
  proof (cases "coh_Type c = CohortTypeCompound")
    case False
    with "1.prems"(1) c d v show ?thesis by (auto split: if_splits)
  next
    case True
    then obtain e where e: "coh_Compound c = Some e" "\<not> length (Operands e) < 2"
      and ops: "resolve_operands env tid ss c (Operator e) (Operands e) (insert name visited) (depth + 1) None = Inr S"
      using "1.prems"(1) c d v by (auto simp: cohort_consts split: if_splits option.splits)
    have sub: "insert name visited' \<subseteq> insert name visited" "depth' + 1 \<le> depth + 1"
      using "1.prems" by auto
    have ne: "coh_Type c \<noteq> CohortTypeStatic" "coh_Type c \<noteq> CohortTypeDynamic"
      using True by (simp_all add: cohort_consts)
    from "1.IH"[OF d(1) v(1) c ne True e ops sub] e True ne c d v show ?thesis
      by simp
  qed
next
  case (2 env tid ss c op visited depth acc)
  then show ?case by simp
next
  case (3 env tid ss c op operandName rest visited depth acc)
  from "3.prems"(1) obtain T where T: "resolve env tid ss operandName visited depth = Inr T"
    and rest: "resolve_operands env tid ss c op rest visited depth
      (Some (case acc of None \<Rightarrow> T | Some result \<Rightarrow> combine op result T)) = Inr S"
    by (cases "resolve env tid ss operandName visited depth") (simp_all del: resolve.simps)
  from "3.IH"(1)[OF T "3.prems"(2,3)] "3.IH"(2)[OF T rest "3.prems"(2,3)] show ?case
    by (simp del: resolve.simps)
qed

section \<open>The meaning of a compound cohort\<close>

text \<open>
  The set algebra a compound expression stands for, over the member sets of its
  operands in order.
\<close>

definition compound_sem :: "string \<Rightarrow> string set list \<Rightarrow> string set" where
  "compound_sem op Ss =
     (if op = OperatorAND then \<Inter> (set Ss)
      else if op = OperatorOR then \<Union> (set Ss)
      else hd Ss - \<Union> (set (tl Ss)))"

lemma fold_combine:
  "validateOperator op = None \<Longrightarrow> foldl (combine op) S Ss = compound_sem op (S # Ss)"
proof (induction Ss arbitrary: S)
  case Nil
  then show ?case by (simp add: compound_sem_def)
next
  case (Cons T Ss)
  then show ?case
    by (auto simp: validateOperator_def compound_sem_def combine_def intersect_def set_union_def
        set_except_def cohort_consts split: if_splits)
qed

lemma resolve_operands_foldl:
  "resolve_operands env tid ss c oper ops visited depth (Some T) = Inr S \<Longrightarrow>
   \<exists>Ss. list_all2 (\<lambda>op S. resolve env tid ss op visited depth = Inr S) ops Ss \<and>
        S = foldl (combine oper) T Ss"
proof (induction ops arbitrary: T)
  case Nil
  then show ?case by simp
next
  case (Cons op ops)
  from Cons.prems obtain U where U: "resolve env tid ss op visited depth = Inr U"
    and rest: "resolve_operands env tid ss c oper ops visited depth (Some (combine oper T U)) = Inr S"
    by (cases "resolve env tid ss op visited depth") (simp_all del: resolve.simps)
  from Cons.IH[OF rest] obtain Ss where
    "list_all2 (\<lambda>op S. resolve env tid ss op visited depth = Inr S) ops Ss"
    "S = foldl (combine oper) (combine oper T U) Ss" by blast
  with U show ?case by (intro exI[of _ "U # Ss"]) (simp del: resolve.simps)
qed

lemma resolve_operands_meaning:
  assumes "resolve_operands env tid ss c oper ops visited depth None = Inr S"
    and "validateOperator oper = None" "ops \<noteq> []"
  shows "\<exists>Ss. list_all2 (\<lambda>op S. resolve env tid ss op visited depth = Inr S) ops Ss \<and>
        S = compound_sem oper Ss"
proof -
  obtain op rest where ops: "ops = op # rest" using assms(3) by (cases ops) auto
  from assms(1) obtain T where T: "resolve env tid ss op visited depth = Inr T"
    and rest: "resolve_operands env tid ss c oper rest visited depth (Some T) = Inr S"
    by (cases "resolve env tid ss op visited depth") (simp_all add: ops del: resolve.simps)
  from resolve_operands_foldl[OF rest] obtain Ss where
    "list_all2 (\<lambda>op S. resolve env tid ss op visited depth = Inr S) rest Ss"
    "S = foldl (combine oper) T Ss" by blast
  with T ops show ?thesis
    by (intro exI[of _ "T # Ss"]) (simp add: fold_combine[OF assms(2)] del: resolve.simps)
qed

lemma list_all2_weaken: "list_all2 P xs ys \<Longrightarrow> (\<And>x y. P x y \<Longrightarrow> Q x y) \<Longrightarrow> list_all2 Q xs ys"
  by (rule list_all2_mono)

section \<open>Registration keeps the table valid\<close>

lemma toCohort_cohortRowFrom:
  "toCohort (cohortRowFrom org c) =
     c\<lparr>coh_TenantID := if coh_TenantID c = [] then tenantID org else coh_TenantID c\<rparr>"
  by (simp add: toCohort_def cohortRowFrom_def)

lemma Cohort_Validate_tenant [simp]: "Cohort_Validate (c\<lparr>coh_TenantID := t\<rparr>) = Cohort_Validate c"
  by (simp add: Cohort_Validate_def split: option.split)

lemma set_update_subset: "set (AList.update k v xs) \<subseteq> insert (k, v) (set xs)"
  by (induction xs) auto

lemma cohort_db_valid_upsert:
  assumes "cohort_db_valid db" "Cohort_Validate (toCohort kr) = None"
  shows "cohort_db_valid (fst (upsertCohortRow db kr))"
  using assms set_update_subset[of "fst kr" "snd kr" "tbl_rows db"]
  by (auto simp: cohort_db_valid_def upsertCohortRow_def tbl_upsert_def list_all_iff)

lemma tbl_ok_upsertCohortRow: "tbl_ok db \<Longrightarrow> tbl_ok (fst (upsertCohortRow db kr))"
  by (auto simp: upsertCohortRow_def tbl_put_def tbl_upsert_def dest: tbl_ok_put split: prod.splits)

section \<open>Properties\<close>

lemma Register_keeps:
  assumes "tbl_ok db" "cohort_db_valid db"
    and "Registry_Register org (db, r) c = ((db', r'), err)"
  shows "cohort_db_valid db' \<and> tbl_ok db' \<and>
    (case err of
       Some e \<Rightarrow> db' = db \<and> r' = r
     | None \<Rightarrow>
         (let tid = (if coh_TenantID c \<noteq> [] then coh_TenantID c
                     else if reg_tenantID r \<noteq> [] then reg_tenantID r else tenantID org) in
          getCohort db' tid (coh_Name c) = Inr (c\<lparr>coh_TenantID := tid\<rparr>) \<and>
          GetCachedMembership r' (coh_Name c) = None))"
proof (cases "Cohort_Validate c")
  case (Some e)
  with assms(3) have "err = Some e" "db' = db" "r' = r" by (auto simp: Registry_Register_def)
  with assms(1,2) show ?thesis by simp
next
  case None
  define c' where "c' = (if coh_TenantID c = [] then c\<lparr>coh_TenantID := reg_tenantID r\<rparr> else c)"
  define kr where "kr = cohortRowFrom org c'"
  have valid: "Cohort_Validate (toCohort kr) = None"
    using None by (simp add: kr_def c'_def toCohort_cohortRowFrom)
  have up: "tbl_up db" using assms(1) by (rule tbl_okD)
  have ins: "upsertCohortRow db kr = (tbl_put db (fst kr) (snd kr), None)"
    using up by (simp add: upsertCohortRow_def tbl_put_def tbl_upsert_def)
  show ?thesis
  proof (cases err)
    case (Some e)
    with assms None ins show ?thesis
      by (auto simp: Registry_Register_def Let_def c'_def[symmetric] kr_def[symmetric] split: if_splits)
  next
    case err: None
    then have db': "db' = tbl_put db (fst kr) (snd kr)"
      and r': "r' = r\<lparr>reg_cache := (reg_cache r)(coh_Name c := None)\<rparr>"
      using assms None ins
      by (auto simp: Registry_Register_def Let_def c'_def[symmetric] kr_def[symmetric] split: if_splits)
        (auto simp: c'_def)
    have "cohort_db_valid db'" using cohort_db_valid_upsert[OF assms(2) valid] ins db' by simp
    with assms(1) show ?thesis
      by (auto simp: err db' r' getCohort_get tbl_get_put kr_def c'_def cohortRowFrom_def toCohort_def
          GetCachedMembership_def Let_def)
  qed
qed

text \<open>
  Registration keeps the stored definitions valid: whatever the
  outcome, a table of valid rows stays one, and a successful registration
  makes the cohort readable under its tenant and name and drops its cached
  membership, while a rejected one changes nothing at all.
\<close>

theorem Register_keeps_valid:
  assumes "tbl_ok db" "cohort_db_valid db"
    and "Registry_Register org (db, r) c = ((db', r'), err)"
  shows "cohort_db_valid db' \<and> tbl_ok db' \<and>
    (case err of
       Some e \<Rightarrow> db' = db \<and> r' = r
     | None \<Rightarrow>
         (let tid = (if coh_TenantID c \<noteq> [] then coh_TenantID c
                     else if reg_tenantID r \<noteq> [] then reg_tenantID r else tenantID org) in
          getCohort db' tid (coh_Name c) = Inr (c\<lparr>coh_TenantID := tid\<rparr>) \<and>
          GetCachedMembership r' (coh_Name c) = None))"
  using assms by (rule Register_keeps)

definition cohort_demo_db :: cohort_db where
  "cohort_demo_db = \<lparr>tbl_rows =
     [((''acme'', ''web''), \<lparr>crow_Type = ''static'', crow_Members = Some [''w1'', ''w2''],
         crow_Match = None, crow_Compound = None\<rparr>),
      ((''acme'', ''prod''), \<lparr>crow_Type = ''dynamic'', crow_Members = None,
         crow_Match = Some \<lparr>PropName = ''env'', PropValue = ''prod*''\<rparr>, crow_Compound = None\<rparr>),
      ((''acme'', ''idle''), \<lparr>crow_Type = ''compound'', crow_Members = None, crow_Match = None,
         crow_Compound = Some \<lparr>Operator = ''EXCEPT'', Operands = [''web'', ''prod'']\<rparr>\<rparr>)],
     tbl_up = True\<rparr>"

definition cohort_demo_env :: cohort_env where
  "cohort_demo_env = \<lparr>env_cohorts = cohort_demo_db,
     env_props = \<lparr>tbl_rows = [((''acme'', ''w1'', ''env''),
        \<lparr>prop_Value = ''production'', prop_Static = True, prop_Expiry = 100\<rparr>)], tbl_up = True\<rparr>,
     env_now = 5\<rparr>"

definition cohort_demo_new :: cohort where
  "cohort_demo_new = \<lparr>coh_Name = ''db'', coh_Type = ''static'', coh_Members = Some [''d1''],
     coh_Match = None, coh_Compound = None, coh_TenantID = []\<rparr>"

lemma cohort_demo_ok: "tbl_ok cohort_demo_db" "cohort_db_valid cohort_demo_db"
  by (simp_all add: cohort_demo_db_def tbl_ok_def tbl_wf_def cohort_db_valid_def toCohort_def
      Cohort_Validate_def validateOperator_def cohort_consts)

theorem Register_keeps_valid_witness:
  "\<exists>db' r'. Registry_Register [] (cohort_demo_db, NewRegistryForTenant ''acme'') cohort_demo_new
      = ((db', r'), None) \<and>
     getCohort db' ''acme'' ''db'' = Inr (cohort_demo_new\<lparr>coh_TenantID := ''acme''\<rparr>)"
proof -
  obtain db' r' where reg: "Registry_Register [] (cohort_demo_db, NewRegistryForTenant ''acme'') cohort_demo_new
      = ((db', r'), None)"
    by (simp add: Registry_Register_def cohort_demo_new_def Cohort_Validate_def cohort_consts
        upsertCohortRow_def tbl_upsert_def cohort_demo_db_def NewRegistryForTenant_def Let_def)
  show ?thesis
    using Register_keeps_valid[OF cohort_demo_ok reg] reg
    by (simp add: cohort_demo_new_def NewRegistryForTenant_def Let_def)
qed

lemma validated_resolves:
  assumes "tbl_ok (env_cohorts env)" "cohort_db_valid (env_cohorts env)"
    and "ValidateReferences (env_cohorts env) r = None"
    and "name \<in> set (Registry_List (env_cohorts env) r)"
  shows "\<exists>members. Resolve env r name allSproutIDs = Inr members"
proof -
  let ?tid = "reg_tenantID r"
  let ?cohorts = "listCohorts (env_cohorts env) ?tid"
  have none: "depth_errors ?cohorts ?cohorts = []"
    using assms(3)
    by (auto simp: ValidateReferences_def ValidateReferencesAll_def Let_def split: option.splits list.splits)
  have depth: "\<exists>k \<le> MaxNestingDepth. computeDepth cs n {} = Inr k"
    if "depth_errors cs rest = []" "(n, c) \<in> set rest" "coh_Type c = CohortTypeCompound" for cs rest n c
    using that by (induction rest) (auto simp del: computeDepth.simps split: if_splits sum.splits)
  obtain c where c: "map_of ?cohorts name = Some c"
    using assms(4) by (auto simp: Registry_List_def map_of_eq_None_iff split: option.splits)
      (metis not_None_eq map_of_eq_None_iff image_eqI fst_conv)
  then have get: "getCohort (env_cohorts env) ?tid name = Inr c"
    by (simp add: getCohort_iff_listed assms)
  obtain k where "k \<le> MaxNestingDepth" "computeDepth ?cohorts name {} = Inr k"
  proof (cases "coh_Type c = CohortTypeCompound")
    case True
    with depth[OF none map_of_SomeD[OF c]] that show ?thesis by blast
  next
    case False
    with c have "computeDepth ?cohorts name {} = Inr 0" by simp
    with that show ?thesis by blast
  qed
  with depth_within_bound_resolves[OF assms(1,2), of ?tid name "{}" k 0 allSproutIDs] show ?thesis
    by (simp add: Resolve_def del: resolve.simps)
qed

lemma cohort_demo_refs: "ValidateReferences cohort_demo_db (NewRegistryForTenant ''acme'') = None"
  by (simp add: cohort_demo_db_def ValidateReferences_def ValidateReferencesAll_def
      listCohorts_def tbl_find_def NewRegistryForTenant_def toCohort_def cohort_consts MaxNestingDepth_def)

text \<open>
  Reference validation is complete for resolution: when it reports
  nothing, every registered cohort resolves, so the circularity, depth and
  missing-reference errors of resolution cannot occur at run time.
\<close>

theorem validated_registry_resolves:
  assumes "tbl_ok (env_cohorts env)" "cohort_db_valid (env_cohorts env)"
    and "ValidateReferences (env_cohorts env) r = None"
    and "name \<in> set (Registry_List (env_cohorts env) r)"
  shows "\<exists>members. Resolve env r name allSproutIDs = Inr members"
  using assms by (rule validated_resolves)

theorem validated_registry_resolves_witness:
  "\<exists>members. Resolve cohort_demo_env (NewRegistryForTenant ''acme'') ''idle'' [''w1'', ''w2'', ''d1''] = Inr members"
proof (rule validated_registry_resolves)
  show "tbl_ok (env_cohorts cohort_demo_env)" "cohort_db_valid (env_cohorts cohort_demo_env)"
    "ValidateReferences (env_cohorts cohort_demo_env) (NewRegistryForTenant ''acme'') = None"
    using cohort_demo_ok cohort_demo_refs by (simp_all add: cohort_demo_env_def)
qed (simp add: cohort_demo_env_def cohort_demo_db_def listCohorts_def tbl_find_def
      NewRegistryForTenant_def Registry_List_def)

text \<open>
  A resolved cohort has the members its definition stands for.  A
  compound cohort is the intersection, the union or the difference of the
  results its operands resolve to on their own, in their listed order; the
  visited set and the depth of the recursion leave no trace in the result.
\<close>

theorem Resolve_compound_meaning:
  assumes "tbl_ok (env_cohorts env)" "cohort_db_valid (env_cohorts env)"
    and "Resolve env r name allSproutIDs = Inr members"
    and "getCohort (env_cohorts env) (reg_tenantID r) name = Inr c"
    and "coh_Type c = CohortTypeCompound"
  shows "\<exists>e Ss. coh_Compound c = Some e \<and>
    list_all2 (\<lambda>op S. Resolve env r op allSproutIDs = Inr S) (Operands e) Ss \<and>
    members = compound_sem (Operator e) Ss"
proof -
  let ?tid = "reg_tenantID r"
  obtain e where e: "coh_Compound c = Some e" "validateOperator (Operator e) = None"
      "2 \<le> length (Operands e)"
    using getCohort_valid(1)[OF assms(1,2,4)] assms(5)
    by (auto elim: Cohort_Validate_cases simp: cohort_consts)
  have "resolve_operands env ?tid allSproutIDs c (Operator e) (Operands e) {name} 1 None = Inr members"
    using assms(3-5) e by (simp add: Resolve_def cohort_consts MaxNestingDepth_def)
  from resolve_operands_meaning[OF this e(2)] e(3) obtain Ss where
    Ss: "list_all2 (\<lambda>op S. resolve env ?tid allSproutIDs op {name} 1 = Inr S) (Operands e) Ss"
    and m: "members = compound_sem (Operator e) Ss"
    by (cases "Operands e") (auto simp del: resolve.simps)
  have "list_all2 (\<lambda>op S. Resolve env r op allSproutIDs = Inr S) (Operands e) Ss"
    using Ss
  proof (rule list_all2_weaken)
    show "Resolve env r op allSproutIDs = Inr S" if "resolve env ?tid allSproutIDs op {name} 1 = Inr S" for op S
      using resolve_mono(1)[OF that, of "{}" 0] by (simp add: Resolve_def del: resolve.simps)
  qed
  with e(1) m show ?thesis by blast
qed

lemma Resolve_demo: "Resolve cohort_demo_env (NewRegistryForTenant ''acme'') ''idle'' [''w1'', ''w2'', ''d1''] = Inr {''w2''}"
  by code_simp

theorem Resolve_compound_meaning_witness:
  "\<exists>Ss. list_all2 (\<lambda>op S. Resolve cohort_demo_env (NewRegistryForTenant ''acme'') op [''w1'', ''w2'', ''d1''] = Inr S)
      [''web'', ''prod''] Ss \<and> {''w2''} = compound_sem ''EXCEPT'' Ss"
proof -
  let ?row = "\<lparr>crow_Type = ''compound'', crow_Members = None, crow_Match = None,
         crow_Compound = Some \<lparr>Operator = ''EXCEPT'', Operands = [''web'', ''prod'']\<rparr>\<rparr>"
  have get: "getCohort (env_cohorts cohort_demo_env) (reg_tenantID (NewRegistryForTenant ''acme'')) ''idle''
      = Inr (toCohort ((''acme'', ''idle''), ?row))"
    by (simp add: cohort_demo_env_def cohort_demo_db_def NewRegistryForTenant_def getCohort_def tbl_first_def)
  show ?thesis
    using Resolve_compound_meaning[OF _ _ Resolve_demo get] cohort_demo_ok
    by (simp add: cohort_demo_env_def toCohort_def cohort_consts)
qed

section \<open>The membership cache\<close>

lemma finite_resolveDynamic: "resolveDynamic env tid c ss = Inr S \<Longrightarrow> finite S"
  by (auto simp: resolveDynamic_def split: option.splits if_splits)

lemma finite_resolveStatic [simp]: "finite (resolveStatic c)"
  unfolding resolveStatic_def by (rule finite_set)

lemma finite_combine: "finite S \<Longrightarrow> finite T \<Longrightarrow> finite (combine oper S T)"
  by (simp add: combine_def intersect_def set_union_def set_except_def)

lemma resolve_finite:
  "resolve env tid ss name visited depth = Inr S \<Longrightarrow> finite S"
  "resolve_operands env tid ss c oper ops visited depth acc = Inr S \<Longrightarrow>
     (case acc of None \<Rightarrow> True | Some T \<Rightarrow> finite T) \<Longrightarrow> finite S"
proof (induction env tid ss name visited depth and env tid ss c oper ops visited depth acc
    arbitrary: S and S rule: resolve_resolve_operands.induct)
  case (1 env tid ss name visited depth)
  then show ?case
    by (auto simp: finite_resolveDynamic
        split: if_splits sum.splits option.splits)
next
  case (2 env tid ss c op visited depth acc)
  then show ?case by (auto split: option.splits)
next
  case (3 env tid ss c op operandName rest visited depth acc)
  from "3.prems"(1) obtain T where T: "resolve env tid ss operandName visited depth = Inr T"
    and rest: "resolve_operands env tid ss c op rest visited depth
      (Some (case acc of None \<Rightarrow> T | Some result \<Rightarrow> combine op result T)) = Inr S"
    by (cases "resolve env tid ss operandName visited depth") (simp_all del: resolve.simps)
  from "3.IH"(1)[OF T] "3.prems"(2) have
    "finite (case acc of None \<Rightarrow> T | Some result \<Rightarrow> combine op result T)"
    by (auto simp: finite_combine split: option.splits)
  with "3.IH"(2)[OF T rest] show ?case by simp
qed

text \<open>What the cache promises: an entry is the sorted result of resolving its cohort.\<close>

definition cache_sound :: "cohort_env \<Rightarrow> registry \<Rightarrow> string list \<Rightarrow> string \<Rightarrow> bool" where
  "cache_sound env r ss name =
     (case GetCachedMembership r name of
        None \<Rightarrow> True
      | Some cm \<Rightarrow> (\<exists>S. Resolve env r name ss = Inr S \<and> set (cm_Members cm) = S \<and>
          sorted (cm_Members cm) \<and> distinct (cm_Members cm)))"

lemma Resolve_reg_cache [simp]: "Resolve env (r\<lparr>reg_cache := m\<rparr>) name ss = Resolve env r name ss"
  by (simp add: Resolve_def del: resolve.simps)

lemma Refresh_tenant [simp]: "reg_tenantID (fst (Refresh env r name ss)) = reg_tenantID r"
  by (simp add: Refresh_def Let_def split: sum.split)

lemma Resolve_Refresh [simp]: "Resolve env (fst (Refresh env r name ss)) n ss' = Resolve env r n ss'"
  by (simp add: Resolve_def del: resolve.simps)

lemma Refresh_success:
  assumes "Resolve env r name ss = Inr S"
  shows "Refresh env r name ss =
    (r\<lparr>reg_cache := (reg_cache r)(name \<mapsto>
        \<lparr>cm_Members = sorted_list_of_set S, cm_LastRefreshed = env_now env\<rparr>)\<rparr>,
     Inr \<lparr>rr_Name = name, rr_Members = sorted_list_of_set S, rr_LastRefreshed = env_now env\<rparr>)"
proof -
  obtain c where "getCohort (env_cohorts env) (reg_tenantID r) name = Inr c"
    using assms by (auto simp: Resolve_def split: if_splits sum.splits)
  with assms show ?thesis by (simp add: Refresh_def Let_def)
qed

lemma Refresh_cases:
  obtains S where "Resolve env r name ss = Inr S"
  | err where "Resolve env r name ss = Inl err" "fst (Refresh env r name ss) = r"
      "\<exists>err'. snd (Refresh env r name ss) = Inl err'"
  by (cases "Resolve env r name ss")
    (auto simp: Refresh_def split: sum.splits)

lemma Refresh_sound:
  assumes "cache_sound env r ss n"
  shows "cache_sound env (fst (Refresh env r name ss)) ss n"
proof (cases rule: Refresh_cases[of env r name ss])
  case (1 S)
  then have "finite S" unfolding Resolve_def by (rule resolve_finite(1))
  with 1 assms show ?thesis
    by (auto simp: cache_sound_def GetCachedMembership_def Refresh_success split: option.splits)
qed (use assms in simp)

lemma refresh_names_results:
  assumes "list_all (\<lambda>name. \<exists>S. Resolve env r name ss = Inr S) names"
  shows "snd (refresh_names env r names ss) =
    (map (\<lambda>name. \<lparr>rr_Name = name,
        rr_Members = sorted_list_of_set (case Resolve env r name ss of Inr S \<Rightarrow> S | Inl _ \<Rightarrow> {}),
        rr_LastRefreshed = env_now env\<rparr>) names, None)"
  using assms
proof (induction names arbitrary: r)
  case Nil
  then show ?case by simp
next
  case (Cons name names)
  then obtain S where S: "Resolve env r name ss = Inr S" by auto
  define r1 where "r1 = fst (Refresh env r name ss)"
  have same: "Resolve env r1 n ss = Resolve env r n ss" for n by (simp add: r1_def)
  from Cons.IH[of r1] Cons.prems have IH: "snd (refresh_names env r1 names ss) =
    (map (\<lambda>name. \<lparr>rr_Name = name,
        rr_Members = sorted_list_of_set (case Resolve env r name ss of Inr S \<Rightarrow> S | Inl _ \<Rightarrow> {}),
        rr_LastRefreshed = env_now env\<rparr>) names, None)"
    by (simp add: same)
  from Refresh_success[OF S] have "Refresh env r name ss = (r1, Inr \<lparr>rr_Name = name,
      rr_Members = sorted_list_of_set S, rr_LastRefreshed = env_now env\<rparr>)"
    by (simp add: r1_def)
  with IH S show ?case by (cases "refresh_names env r1 names ss") (auto simp: Let_def)
qed

text \<open>
  Refreshing every cohort of a registry whose references were
  validated reports no error and returns one result per registered cohort, in
  name order, each with the members the cohort resolves to.
\<close>

theorem RefreshAll_complete:
  assumes "tbl_ok (env_cohorts env)" "cohort_db_valid (env_cohorts env)"
    and "ValidateReferences (env_cohorts env) r = None"
    and "RefreshAll env r allSproutIDs = (r', results, firstErr)"
  shows "firstErr = None \<and> map rr_Name results = sort (Registry_List (env_cohorts env) r) \<and>
    list_all (\<lambda>res. \<exists>S. Resolve env r (rr_Name res) allSproutIDs = Inr S \<and>
      rr_Members res = sorted_list_of_set S) results"
proof -
  let ?names = "sort (Registry_List (env_cohorts env) r)"
  have all: "list_all (\<lambda>name. \<exists>S. Resolve env r name allSproutIDs = Inr S) ?names"
    using validated_resolves[OF assms(1-3)] by (simp add: list_all_iff)
  from refresh_names_results[OF this] assms(4) have
    "results = map (\<lambda>name. \<lparr>rr_Name = name,
        rr_Members = sorted_list_of_set (case Resolve env r name allSproutIDs of Inr S \<Rightarrow> S | Inl _ \<Rightarrow> {}),
        rr_LastRefreshed = env_now env\<rparr>) ?names" "firstErr = None"
    by (simp_all add: RefreshAll_def)
  with all show ?thesis by (auto simp: list_all_iff comp_def)
qed

theorem RefreshAll_complete_witness:
  "fst (snd (RefreshAll cohort_demo_env (NewRegistryForTenant ''acme'') [''w1'', ''w2'', ''d1''])) \<noteq> []"
proof -
  obtain r' results firstErr where run:
    "RefreshAll cohort_demo_env (NewRegistryForTenant ''acme'') [''w1'', ''w2'', ''d1''] = (r', results, firstErr)"
    by (metis prod_cases3)
  have "map rr_Name results = sort (Registry_List (env_cohorts cohort_demo_env) (NewRegistryForTenant ''acme''))"
    using RefreshAll_complete[OF _ _ _ run] cohort_demo_ok cohort_demo_refs
    by (simp add: cohort_demo_env_def)
  then have "results \<noteq> []"
    by (auto simp: Registry_List_def listCohorts_def cohort_demo_env_def cohort_demo_db_def tbl_find_def
        NewRegistryForTenant_def)
  with run show ?thesis by simp
qed

end
