(* ===== verification/Rbac_Config.thy ===== *)
theory Rbac_Config
  imports Rbac_Role Rbac_Cohort
begin

text \<open>
  Policy definitions (\<open>internal/rbac/config.go\<close>, \<open>store.go\<close> and \<open>policy.go\<close>):
  the database-backed role store and user map, loading roles, users and cohorts
  from the configuration, the two uniqueness checks, policy validation and the
  access explanation.  A configuration section is the list of its entries in
  the order the map iteration visits them: every statement is for an arbitrary
  order.  A nil section is the empty list.
\<close>

section \<open>The role store\<close>

type_synonym role_db = "(string \<times> string, rule list) table"

text \<open>The \<open>rules\<close> column holds the JSON of the rule list; the model stores the list.\<close>

definition roleRowFrom :: "string \<Rightarrow> role \<Rightarrow> (string \<times> string) \<times> rule list" where
  "roleRowFrom org r =
     ((if role_TenantID r = [] then tenantID org else role_TenantID r, role_Name r), role_Rules r)"

definition toRole :: "(string \<times> string) \<times> rule list \<Rightarrow> role" where
  "toRole kr = \<lparr>role_Name = snd (fst kr), role_Rules = snd kr, role_TenantID = fst (fst kr)\<rparr>"

definition upsertRoleRow ::
  "role_db \<Rightarrow> (string \<times> string) \<times> rule list \<Rightarrow> role_db \<times> role_error option" where
  "upsertRoleRow db kr =
     (let (db', done) = tbl_upsert db (fst kr) (snd kr) in
      (db', if done then None else Some RoleStoreWrite))"

text \<open>A \<open>RoleStore\<close> is the tenant it was constructed for.\<close>

definition RoleStore_Register ::
  "string \<Rightarrow> string \<Rightarrow> role_db \<Rightarrow> role \<Rightarrow> role_db \<times> role_error option" where
  "RoleStore_Register org rs db r =
     (let r' = (if role_TenantID r = [] then r\<lparr>role_TenantID := rs\<rparr> else r) in
      case Role_Validate r' of
        Some err \<Rightarrow> (db, Some err)
      | None \<Rightarrow> upsertRoleRow db (roleRowFrom org r'))"

definition RoleStore_Get :: "string \<Rightarrow> role_db \<Rightarrow> string \<Rightarrow> role_error + role" where
  "RoleStore_Get rs db name =
     (case tbl_first db (rs, name) of
        Found rules \<Rightarrow> Inr (toRole ((rs, name), rules))
      | NotFound \<Rightarrow> Inl (ErrUnknownRole name)
      | DbErr \<Rightarrow> Inl (ErrUnknownRole name))"

definition RoleStore_List :: "string \<Rightarrow> role_db \<Rightarrow> string list" where
  "RoleStore_List rs db = map (\<lambda>((t, n), rules). n) (tbl_find db (\<lambda>(t, n) rules. t = rs))"

definition wild :: "action \<Rightarrow> rule" where
  "wild a = \<lparr>Action = a, Scope = ''*''\<rparr>"

definition BuiltinViewerRole :: role where
  "BuiltinViewerRole = \<lparr>role_Name = ''viewer'',
     role_Rules = [wild ActionView, wild ActionUserRead], role_TenantID = []\<rparr>"

definition BuiltinOperatorRole :: role where
  "BuiltinOperatorRole = \<lparr>role_Name = ''operator'',
     role_Rules = [wild ActionView, wild ActionCook, wild ActionCmd, wild ActionShell, wild ActionTest,
                   wild ActionProps, wild ActionJobAdmin, wild ActionUserRead], role_TenantID = []\<rparr>"

section \<open>Loading roles\<close>

fun parse_rules :: "string \<Rightarrow> nat \<Rightarrow> val list \<Rightarrow> role_error + rule list" where
  "parse_rules name i [] = Inr []"
| "parse_rules name i (ruleRaw # rest) =
     (case ruleRaw of
        VMap m \<Rightarrow>
          (case ParseAction (TrimSpace (as_string (map_of m ''action''))) of
             Inl err \<Rightarrow> Inl (AtRule i err)
           | Inr action \<Rightarrow>
               (let scope = TrimSpace (as_string (map_of m ''scope''));
                    scope' = (if scope = [] then ''*'' else scope)
                in case parse_rules name (Suc i) rest of
                     Inl err \<Rightarrow> Inl err
                   | Inr rules \<Rightarrow> Inr (\<lparr>Action = action, Scope = scope'\<rparr> # rules)))
      | _ \<Rightarrow> Inl (RuleMustBeMap name i))"

definition parseRoleEntry :: "string \<Rightarrow> val \<Rightarrow> role_error + role" where
  "parseRoleEntry name raw =
     (case raw of
        VList rulesRaw \<Rightarrow>
          (case parse_rules name 0 rulesRaw of
             Inl err \<Rightarrow> Inl err
           | Inr rules \<Rightarrow> Inr \<lparr>role_Name = name, role_Rules = rules, role_TenantID = []\<rparr>)
      | _ \<Rightarrow> Inl (RolesMustBeList name))"

fun load_roles ::
  "string \<Rightarrow> string \<Rightarrow> role_db \<Rightarrow> (string \<times> val) list \<Rightarrow> role_db \<times> role_error option" where
  "load_roles org rs db [] = (db, None)"
| "load_roles org rs db ((name, v) # rest) =
     (case parseRoleEntry name v of
        Inl err \<Rightarrow> (db, Some err)
      | Inr role \<Rightarrow>
          (case RoleStore_Register org rs db role of
             (db', Some err) \<Rightarrow> (db', Some err)
           | (db', None) \<Rightarrow> load_roles org rs db' rest))"

text \<open>
  \<open>LoadRolesFromConfig\<close>: clear the tenant's roles, register the built-in
  ones (errors ignored), then the configured ones.
\<close>

definition LoadRolesFromConfig ::
  "string \<Rightarrow> (string \<times> val) list \<Rightarrow> role_db \<Rightarrow> role_db \<times> (role_error + string)" where
  "LoadRolesFromConfig org roles db =
     (let store = tenantID org;
          db0 = tbl_delete db (\<lambda>(t, n) r. t = store);
          db1 = fst (RoleStore_Register org store db0 BuiltinViewerRole);
          db2 = fst (RoleStore_Register org store db1 BuiltinOperatorRole);
          (db3, err) = load_roles org store db2 roles
      in (db3, case err of None \<Rightarrow> Inr store | Some e \<Rightarrow> Inl e))"

section \<open>Users\<close>

record userRoleRow =
  ur_RoleName :: string
  ur_Username :: string

type_synonym user_db = "(string \<times> string, userRoleRow) table"

definition user_row :: "string \<Rightarrow> user_db \<Rightarrow> string \<Rightarrow> userRoleRow option" where
  "user_row m db pubkey = (case tbl_first db (m, pubkey) of Found row \<Rightarrow> Some row | _ \<Rightarrow> None)"

definition RoleName :: "string \<Rightarrow> user_db \<Rightarrow> string \<Rightarrow> string" where
  "RoleName m db pubkey = (case user_row m db pubkey of Some row \<Rightarrow> ur_RoleName row | None \<Rightarrow> [])"

definition Username :: "string \<Rightarrow> user_db \<Rightarrow> string \<Rightarrow> string" where
  "Username m db pubkey = (case user_row m db pubkey of Some row \<Rightarrow> ur_Username row | None \<Rightarrow> [])"

text \<open>The upsert error is dropped by both callers.\<close>

definition upsertUserRoleRow :: "user_db \<Rightarrow> string \<times> string \<Rightarrow> userRoleRow \<Rightarrow> user_db" where
  "upsertUserRoleRow db k row = fst (tbl_upsert db k row)"

definition UserRoleMap_Set :: "string \<Rightarrow> user_db \<Rightarrow> string \<Rightarrow> string \<Rightarrow> user_db" where
  "UserRoleMap_Set m db pubkey roleName =
     upsertUserRoleRow db (m, pubkey) \<lparr>ur_RoleName = roleName, ur_Username = Username m db pubkey\<rparr>"

definition SetUsername :: "string \<Rightarrow> user_db \<Rightarrow> string \<Rightarrow> string \<Rightarrow> user_db" where
  "SetUsername m db pubkey username =
     upsertUserRoleRow db (m, pubkey) \<lparr>ur_RoleName = RoleName m db pubkey, ur_Username = username\<rparr>"

definition UserRoleMap_Delete :: "string \<Rightarrow> user_db \<Rightarrow> string \<Rightarrow> user_db \<times> bool" where
  "UserRoleMap_Delete m db pubkey =
     (tbl_delete db (\<lambda>k row. k = (m, pubkey)),
      tbl_up db \<and> tbl_find db (\<lambda>k row. k = (m, pubkey)) \<noteq> [])"

definition UserRoleMap_All :: "string \<Rightarrow> user_db \<Rightarrow> (string \<times> string) list" where
  "UserRoleMap_All m db =
     map (\<lambda>((t, pk), row). (pk, ur_RoleName row)) (tbl_find db (\<lambda>(t, pk) row. t = m))"

definition AllWithUsernames :: "string \<Rightarrow> user_db \<Rightarrow> (string \<times> string) list" where
  "AllWithUsernames m db =
     map (\<lambda>((t, pk), row). (pk, ur_Username row))
       (tbl_find db (\<lambda>(t, pk) row. t = m \<and> ur_Username row \<noteq> []))"

record userEntry =
  ue_Pubkey :: string
  ue_Username :: string

fun parse_user_items :: "val list \<Rightarrow> userEntry list" where
  "parse_user_items [] = []"
| "parse_user_items (item # items) =
     (case item of
        VStr s \<Rightarrow> \<lparr>ue_Pubkey = s, ue_Username = []\<rparr> # parse_user_items items
      | VMap m \<Rightarrow>
          (let pk = as_string (map_of m ''pubkey''); name = as_string (map_of m ''username'') in
           if pk \<noteq> [] then \<lparr>ue_Pubkey = pk, ue_Username = name\<rparr> # parse_user_items items
           else parse_user_items items)
      | _ \<Rightarrow> parse_user_items items)"

definition parseUserEntries :: "val \<Rightarrow> userEntry list" where
  "parseUserEntries v =
     (case v of
        VList items \<Rightarrow> parse_user_items items
      | VStr s \<Rightarrow> [\<lparr>ue_Pubkey = s, ue_Username = []\<rparr>]
      | _ \<Rightarrow> [])"

text \<open>The result slice: nil, \<^term>\<open>None\<close>, when the value is absent or no list.\<close>

definition parseStringSlice :: "val option \<Rightarrow> string list option" where
  "parseStringSlice v =
     (case v of
        Some (VList xs) \<Rightarrow> Some (map (\<lambda>x. as_string (Some x)) (filter is_VStr xs))
      | Some (VStrs ss) \<Rightarrow> Some ss
      | _ \<Rightarrow> None)"

definition slice_elems :: "string list option \<Rightarrow> string list" where
  "slice_elems s = (case s of None \<Rightarrow> [] | Some xs \<Rightarrow> xs)"

fun set_user_entries :: "string \<Rightarrow> user_db \<Rightarrow> string \<Rightarrow> userEntry list \<Rightarrow> user_db" where
  "set_user_entries m db roleName [] = db"
| "set_user_entries m db roleName (e # es) =
     (let db1 = UserRoleMap_Set m db (ue_Pubkey e) roleName;
          db2 = (if ue_Username e \<noteq> [] then SetUsername m db1 (ue_Pubkey e) (ue_Username e) else db1)
      in set_user_entries m db2 roleName es)"

fun load_users_section :: "string \<Rightarrow> user_db \<Rightarrow> (string \<times> val) list \<Rightarrow> user_db" where
  "load_users_section m db [] = db"
| "load_users_section m db ((roleName, v) # rest) =
     load_users_section m (set_user_entries m db roleName (parseUserEntries v)) rest"

fun set_legacy_keys :: "string \<Rightarrow> user_db \<Rightarrow> string \<Rightarrow> string list \<Rightarrow> user_db" where
  "set_legacy_keys m db roleName [] = db"
| "set_legacy_keys m db roleName (k # ks) =
     set_legacy_keys m (if RoleName m db k = [] then UserRoleMap_Set m db k roleName else db) roleName ks"

fun load_pubkeys_section :: "string \<Rightarrow> user_db \<Rightarrow> (string \<times> val) list \<Rightarrow> user_db" where
  "load_pubkeys_section m db [] = db"
| "load_pubkeys_section m db ((roleName, v) # rest) =
     load_pubkeys_section m
       (set_legacy_keys m db roleName (slice_elems (parseStringSlice (Some v)))) rest"

definition LoadUsersFromConfig ::
  "string \<Rightarrow> (string \<times> val) list \<Rightarrow> (string \<times> val) list \<Rightarrow> user_db \<Rightarrow> user_db \<times> string" where
  "LoadUsersFromConfig org users pubkeys db =
     (let m = tenantID org;
          db0 = tbl_delete db (\<lambda>(t, pk) row. t = m)
      in (load_pubkeys_section m (load_users_section m db0 users) pubkeys, m))"

section \<open>Uniqueness of pubkeys and usernames\<close>

text \<open>\<open>seen[k] = append(seen[k], v)\<close>.\<close>

definition seen_add :: "string \<Rightarrow> string \<Rightarrow> (string \<times> string list) list \<Rightarrow> (string \<times> string list) list" where
  "seen_add k v seen = AList.update k ((case map_of seen k of None \<Rightarrow> [] | Some vs \<Rightarrow> vs) @ [v]) seen"

definition seen_of :: "(string \<times> string) list \<Rightarrow> (string \<times> string list) list" where
  "seen_of kvs = fold (\<lambda>(k, v) seen. seen_add k v seen) kvs []"

text \<open>The pairs the two loops of \<open>ValidateUserUniqueness\<close> append, in order.\<close>

definition pubkey_assignments ::
  "(string \<times> val) list \<Rightarrow> (string \<times> val) list \<Rightarrow> (string \<times> string) list" where
  "pubkey_assignments users pubkeys =
     concat (map (\<lambda>(roleName, v).
       map (\<lambda>e. (ue_Pubkey e, ''users.'' @ roleName)) (parseUserEntries v)) users) @
     concat (map (\<lambda>(roleName, v).
       map (\<lambda>k. (k, ''pubkeys.'' @ roleName)) (slice_elems (parseStringSlice (Some v)))) pubkeys)"

definition username_claims :: "(string \<times> val) list \<Rightarrow> (string \<times> string) list" where
  "username_claims users =
     concat (map (\<lambda>(roleName, v).
       map (\<lambda>e. (ue_Username e, ue_Pubkey e))
         (filter (\<lambda>e. ue_Username e \<noteq> []) (parseUserEntries v))) users)"

datatype dup_error = ErrDuplicatePubkey "string list" | ErrDuplicateUsername "string list"

definition trunc16 :: "string \<Rightarrow> string" where
  "trunc16 s = (if length s > 16 then take 16 s @ ''...'' else s)"

text \<open>The arrow of the report line, in UTF-8.\<close>

definition arrow :: string where
  "arrow = [CHR 0xE2, CHR 0x86, CHR 0x92]"

definition ValidateUserUniqueness ::
  "(string \<times> val) list \<Rightarrow> (string \<times> val) list \<Rightarrow> dup_error option" where
  "ValidateUserUniqueness users pubkeys =
     (let seen = seen_of (pubkey_assignments users pubkeys);
          dupes = map (\<lambda>(pubkey, roles).
                    ''  '' @ trunc16 pubkey @ '' '' @ arrow @ '' ['' @ Join (sort roles) '', '' @ '']'')
                  (filter (\<lambda>(pubkey, roles). length roles > 1) seen)
      in if dupes = [] then None else Some (ErrDuplicatePubkey (sort dupes)))"

text \<open>The quoting of \<open>%q\<close> is the identity on usernames of printable ASCII other than quote and backslash.\<close>

definition ValidateUsernameUniqueness :: "(string \<times> val) list \<Rightarrow> dup_error option" where
  "ValidateUsernameUniqueness users =
     (let seen = seen_of (username_claims users);
          dupes = map (\<lambda>(username, pubkeys).
                    ''  \"'' @ username @ ''\" '' @ arrow @ '' ['' @
                    Join (map trunc16 (sort pubkeys)) '', '' @ '']'')
                  (filter (\<lambda>(username, pubkeys). length pubkeys > 1) seen)
      in if dupes = [] then None else Some (ErrDuplicateUsername (sort dupes)))"

section \<open>Loading cohorts\<close>

definition parseDynamicMatch :: "val option \<Rightarrow> cohort_error + DynamicMatch" where
  "parseDynamicMatch v =
     (case v of
        Some (VMap m) \<Rightarrow>
          (let propName = as_string (map_of m ''prop_name'');
               propValue = as_string (map_of m ''prop_value'')
           in if propName = [] then Inl (ErrInvalidCohort ''match requires prop_name'')
              else Inr \<lparr>PropName = propName, PropValue = propValue\<rparr>)
      | None \<Rightarrow> Inl (ErrInvalidCohort ''dynamic match is nil'')
      | Some VNull \<Rightarrow> Inl (ErrInvalidCohort ''dynamic match is nil'')
      | Some _ \<Rightarrow> Inl (ErrInvalidCohort ''match is not a map''))"

definition parseCompoundExpr :: "val option \<Rightarrow> cohort_error + CompoundExpr" where
  "parseCompoundExpr v =
     (case v of
        Some (VMap m) \<Rightarrow>
          (let op = as_string (map_of m ''operator'') in
           case validateOperator op of
             Some err \<Rightarrow> Inl err
           | None \<Rightarrow>
               (let operands = slice_elems (parseStringSlice (map_of m ''operands'')) in
                if length operands < 2 then Inl (ErrMissingOperands [])
                else Inr \<lparr>Operator = op, Operands = operands\<rparr>))
      | None \<Rightarrow> Inl (ErrInvalidCohort ''compound expression is nil'')
      | Some VNull \<Rightarrow> Inl (ErrInvalidCohort ''compound expression is nil'')
      | Some _ \<Rightarrow> Inl (ErrInvalidCohort ''compound is not a map''))"

definition parseCohortEntry :: "string \<Rightarrow> val \<Rightarrow> cohort_error + cohort" where
  "parseCohortEntry name raw =
     (case raw of
        VMap m \<Rightarrow>
          (let typeStr = as_string (map_of m ''type'');
               cohort = \<lparr>coh_Name = name, coh_Type = [], coh_Members = None, coh_Match = None,
                         coh_Compound = None, coh_TenantID = []\<rparr>
           in if typeStr = CohortTypeStatic then
                Inr (cohort\<lparr>coh_Type := CohortTypeStatic,
                       coh_Members := parseStringSlice (map_of m ''members'')\<rparr>)
              else if typeStr = CohortTypeDynamic then
                (case parseDynamicMatch (map_of m ''match'') of
                   Inl err \<Rightarrow> Inl (InCohort name err)
                 | Inr match \<Rightarrow> Inr (cohort\<lparr>coh_Type := CohortTypeDynamic, coh_Match := Some match\<rparr>))
              else if typeStr = CohortTypeCompound then
                (case parseCompoundExpr (map_of m ''compound'') of
                   Inl err \<Rightarrow> Inl (InCohort name err)
                 | Inr compound \<Rightarrow>
                     Inr (cohort\<lparr>coh_Type := CohortTypeCompound, coh_Compound := Some compound\<rparr>))
              else Inl (ErrInvalidCohort ''unknown type''))
      | _ \<Rightarrow> Inl (ErrInvalidCohort ''value is not a map''))"

fun load_cohorts ::
  "string \<Rightarrow> cohort_db \<times> registry \<Rightarrow> (string \<times> val) list \<Rightarrow>
   (cohort_db \<times> registry) \<times> cohort_error option" where
  "load_cohorts org st [] = (st, None)"
| "load_cohorts org st ((name, v) # rest) =
     (case parseCohortEntry name v of
        Inl err \<Rightarrow> (st, Some err)
      | Inr cohort \<Rightarrow>
          (case Registry_Register org st cohort of
             (st', Some err) \<Rightarrow> (st', Some err)
           | (st', None) \<Rightarrow> load_cohorts org st' rest))"

definition LoadCohortsFromConfig ::
  "string \<Rightarrow> (string \<times> val) list \<Rightarrow> cohort_db \<Rightarrow> cohort_db \<times> (cohort_error + registry)" where
  "LoadCohortsFromConfig org cohorts db =
     (let registry = NewRegistry org;
          db0 = tbl_delete db (\<lambda>(t, n) row. t = reg_tenantID registry);
          ((db', registry'), err) = load_cohorts org (db0, registry) cohorts
      in (db', case err of None \<Rightarrow> Inr registry' | Some e \<Rightarrow> Inl e))"

section \<open>The uniqueness checks decide distinctness\<close>

definition vals_of :: "string \<Rightarrow> (string \<times> string) list \<Rightarrow> string list" where
  "vals_of k kvs = map snd (filter (\<lambda>kv. fst kv = k) kvs)"

lemma fold_seen_add:
  "map_of (fold (\<lambda>(k, v) seen. seen_add k v seen) kvs seen) k =
     (case map_of seen k of
        Some vs \<Rightarrow> Some (vs @ vals_of k kvs)
      | None \<Rightarrow> if vals_of k kvs = [] then None else Some (vals_of k kvs))"
proof (induction kvs arbitrary: seen)
  case Nil
  then show ?case by (auto simp: vals_of_def split: option.splits)
next
  case (Cons kv kvs)
  obtain k0 v0 where "kv = (k0, v0)" by (cases kv)
  with Cons show ?case
    by (auto simp: seen_add_def update_conv' vals_of_def split: option.splits)
qed

lemma distinct_fold_seen_add:
  "distinct (map fst seen) \<Longrightarrow>
   distinct (map fst (fold (\<lambda>(k, v) seen. seen_add k v seen) kvs seen))"
  by (induction kvs arbitrary: seen) (auto simp: seen_add_def distinct_update)

lemma all_le_one_update:
  "(\<forall>k. (if k = a then Suc (L k) else L k) \<le> (1 :: nat)) \<longleftrightarrow> (\<forall>k. L k \<le> 1) \<and> L a = 0"
proof (intro iffI conjI allI)
  assume *: "\<forall>k. (if k = a then Suc (L k) else L k) \<le> 1"
  show "L a = 0" using spec[OF *, of a] by simp
  show "L k \<le> 1" for k using spec[OF *, of k] by (simp split: if_splits)
next
  fix k
  assume "(\<forall>k. L k \<le> 1) \<and> L a = 0"
  then show "(if k = a then Suc (L k) else L k) \<le> 1" by simp
qed

lemma distinct_iff_vals_of:
  "distinct (map fst kvs) \<longleftrightarrow> (\<forall>k. length (vals_of k kvs) \<le> 1)"
proof (induction kvs)
  case Nil
  then show ?case by (simp add: vals_of_def)
next
  case (Cons kv kvs)
  have mem: "fst kv \<in> fst ` set kvs \<longleftrightarrow> length (vals_of (fst kv) kvs) \<noteq> 0"
    unfolding image_iff vals_of_def length_map length_0_conv filter_empty_conv bex_simps(8)[symmetric] not_not
    by (rule bex_cong[OF refl]) (rule eq_commute)
  have "length (vals_of k (kv # kvs)) =
      (if k = fst kv then Suc (length (vals_of k kvs)) else length (vals_of k kvs))" for k
    by (simp add: vals_of_def)
  then have "(\<forall>k. length (vals_of k (kv # kvs)) \<le> 1) \<longleftrightarrow>
      (\<forall>k. length (vals_of k kvs) \<le> 1) \<and> length (vals_of (fst kv) kvs) = 0"
    by (simp only: all_le_one_update)
  with Cons.IH mem show ?case by auto
qed

lemma no_repeated_seen:
  "filter (\<lambda>(k, vs). length vs > 1) (seen_of kvs) = [] \<longleftrightarrow> distinct (map fst kvs)"
proof -
  have d: "distinct (map fst (seen_of kvs))"
    unfolding seen_of_def by (rule distinct_fold_seen_add) simp
  have get: "map_of (seen_of kvs) k = (if vals_of k kvs = [] then None else Some (vals_of k kvs))" for k
    by (simp add: seen_of_def fold_seen_add)
  have "filter (\<lambda>(k, vs). length vs > 1) (seen_of kvs) = [] \<longleftrightarrow>
      (\<forall>k vs. map_of (seen_of kvs) k = Some vs \<longrightarrow> length vs \<le> 1)"
    using d by (fastforce simp: filter_empty_conv not_less)
  also have "\<dots> \<longleftrightarrow> distinct (map fst kvs)"
    by (auto simp: get distinct_iff_vals_of) (metis le0 list.size(3))
  finally show ?thesis .
qed

lemma ValidateUserUniqueness_None:
  "ValidateUserUniqueness users pubkeys = None \<longleftrightarrow> distinct (map fst (pubkey_assignments users pubkeys))"
  using no_repeated_seen[of "pubkey_assignments users pubkeys"]
  by (simp add: ValidateUserUniqueness_def Let_def)

lemma ValidateUsernameUniqueness_None:
  "ValidateUsernameUniqueness users = None \<longleftrightarrow> distinct (map fst (username_claims users))"
  using no_repeated_seen[of "username_claims users"]
  by (simp add: ValidateUsernameUniqueness_def Let_def)

section \<open>Loading users\<close>

text \<open>The pubkey to role assignments the configuration lists, users section first.\<close>

definition listed_users :: "(string \<times> val) list \<Rightarrow> (string \<times> string) list" where
  "listed_users users = concat (map (\<lambda>(roleName, v).
     map (\<lambda>e. (ue_Pubkey e, roleName)) (parseUserEntries v)) users)"

definition listed_legacy :: "(string \<times> val) list \<Rightarrow> (string \<times> string) list" where
  "listed_legacy pubkeys = concat (map (\<lambda>(roleName, v).
     map (\<lambda>k. (k, roleName)) (slice_elems (parseStringSlice (Some v)))) pubkeys)"

lemma fst_concat_map:
  "map fst (concat (map (\<lambda>(r, v). map (\<lambda>e. (f e, g r)) (h v)) xs)) = concat (map (\<lambda>(r, v). map f (h v)) xs)"
  by (induction xs) auto

lemma pubkeys_listed:
  "map fst (pubkey_assignments users pubkeys) = map fst (listed_users users @ listed_legacy pubkeys)"
  by (simp add: pubkey_assignments_def listed_users_def listed_legacy_def fst_concat_map
      del: map_map)

lemma RoleName_get:
  "tbl_ok db \<Longrightarrow> RoleName m db pk =
     (case tbl_get db (m, pk) of Some row \<Rightarrow> ur_RoleName row | None \<Rightarrow> [])"
  by (simp add: RoleName_def user_row_def tbl_okD split: option.splits)

lemma UserRoleMap_Set_put:
  "tbl_ok db \<Longrightarrow> UserRoleMap_Set m db pk role =
     tbl_put db (m, pk) \<lparr>ur_RoleName = role, ur_Username = Username m db pk\<rparr>"
  by (simp add: UserRoleMap_Set_def upsertUserRoleRow_def tbl_put_def)

lemma SetUsername_put:
  "tbl_ok db \<Longrightarrow> SetUsername m db pk name =
     tbl_put db (m, pk) \<lparr>ur_RoleName = RoleName m db pk, ur_Username = name\<rparr>"
  by (simp add: SetUsername_def upsertUserRoleRow_def tbl_put_def)

lemma UserRoleMap_Set_ok [simp]: "tbl_ok db \<Longrightarrow> tbl_ok (UserRoleMap_Set m db pk role)"
  by (simp add: UserRoleMap_Set_put)

lemma SetUsername_ok [simp]: "tbl_ok db \<Longrightarrow> tbl_ok (SetUsername m db pk name)"
  by (simp add: SetUsername_put)

lemma RoleName_Set [simp]:
  "tbl_ok db \<Longrightarrow> RoleName m (UserRoleMap_Set m db pk role) pk' = (if pk' = pk then role else RoleName m db pk')"
  by (simp add: UserRoleMap_Set_put RoleName_get tbl_get_put)

lemma RoleName_SetUsername [simp]:
  "tbl_ok db \<Longrightarrow> RoleName m (SetUsername m db pk name) pk' = RoleName m db pk'"
  by (simp add: SetUsername_put RoleName_get tbl_get_put)

lemma map_of_append_some: "map_of (xs @ ys) k = (case map_of xs k of Some v \<Rightarrow> Some v | None \<Rightarrow> map_of ys k)"
  by (simp add: map_add_def split: option.splits)

lemma set_user_entries_RoleName:
  "tbl_ok db \<Longrightarrow> tbl_ok (set_user_entries m db role es) \<and>
   RoleName m (set_user_entries m db role es) pk =
     (if pk \<in> ue_Pubkey ` set es then role else RoleName m db pk)"
  by (induction es arbitrary: db) (auto simp: Let_def)

lemma set_legacy_keys_RoleName:
  "tbl_ok db \<Longrightarrow> tbl_ok (set_legacy_keys m db role ks) \<and>
   RoleName m (set_legacy_keys m db role ks) pk =
     (if pk \<in> set ks \<and> RoleName m db pk = [] then role else RoleName m db pk)"
  by (induction ks arbitrary: db) auto

lemma map_of_const:
  "map_of (map (\<lambda>e. (f e, r)) es) pk = (if pk \<in> f ` set es then Some r else None)"
  by (induction es) auto

text \<open>
  With every pubkey listed once, the loops assign each listed pubkey its role
  and no other.
\<close>

lemma load_users_section_RoleName:
  "tbl_ok db \<Longrightarrow> distinct (map fst (listed_users users)) \<Longrightarrow>
   tbl_ok (load_users_section m db users) \<and>
   RoleName m (load_users_section m db users) pk =
     (case map_of (listed_users users) pk of Some role \<Rightarrow> role | None \<Rightarrow> RoleName m db pk)"
proof (induction users arbitrary: db)
  case Nil
  then show ?case by (simp add: listed_users_def)
next
  case (Cons rv users)
  obtain role v where rv: "rv = (role, v)" by (cases rv)
  let ?es = "parseUserEntries v"
  let ?db = "set_user_entries m db role ?es"
  have l: "listed_users (rv # users) = map (\<lambda>e. (ue_Pubkey e, role)) ?es @ listed_users users"
    by (simp add: listed_users_def rv)
  have d: "distinct (map fst (listed_users users))"
    and disj: "pk \<in> ue_Pubkey ` set ?es \<Longrightarrow> map_of (listed_users users) pk = None"
    using Cons.prems(2) l by (auto simp: map_of_eq_None_iff)
  have ok: "tbl_ok ?db" and rn: "RoleName m ?db pk =
      (if pk \<in> ue_Pubkey ` set ?es then role else RoleName m db pk)"
    using set_user_entries_RoleName[OF Cons.prems(1)] by blast+
  show ?case
    using Cons.IH[OF ok d] rn disj l rv
    by (auto simp: map_of_append_some map_of_const split: option.splits)
qed

lemma load_pubkeys_section_RoleName:
  "tbl_ok db \<Longrightarrow> distinct (map fst (listed_legacy pubkeys)) \<Longrightarrow>
   tbl_ok (load_pubkeys_section m db pubkeys) \<and>
   RoleName m (load_pubkeys_section m db pubkeys) pk =
     (if RoleName m db pk = []
      then case map_of (listed_legacy pubkeys) pk of Some role \<Rightarrow> role | None \<Rightarrow> []
      else RoleName m db pk)"
proof (induction pubkeys arbitrary: db)
  case Nil
  then show ?case by (simp add: listed_legacy_def)
next
  case (Cons rv pubkeys)
  obtain role v where rv: "rv = (role, v)" by (cases rv)
  let ?ks = "slice_elems (parseStringSlice (Some v))"
  let ?db = "set_legacy_keys m db role ?ks"
  have l: "listed_legacy (rv # pubkeys) = map (\<lambda>k. (k, role)) ?ks @ listed_legacy pubkeys"
    by (simp add: listed_legacy_def rv)
  have d: "distinct (map fst (listed_legacy pubkeys))"
    and disj: "pk \<in> set ?ks \<Longrightarrow> map_of (listed_legacy pubkeys) pk = None"
    using Cons.prems(2) l by (auto simp: map_of_eq_None_iff)
  have ok: "tbl_ok ?db" and rn: "RoleName m ?db pk =
      (if pk \<in> set ?ks \<and> RoleName m db pk = [] then role else RoleName m db pk)"
    using set_legacy_keys_RoleName[OF Cons.prems(1)] by blast+
  show ?case
    using Cons.IH[OF ok d] rn disj l rv
    by (auto simp: map_of_append_some map_of_const[of "\<lambda>k. k", simplified] split: option.splits)
qed

lemma clear_tenant_get:
  assumes "tbl_ok db"
  shows "tbl_ok (tbl_delete db (\<lambda>(t, n) row. t = m))"
    and "tbl_get (tbl_delete db (\<lambda>(t, n) row. t = m)) (t, n) = (if t = m then None else tbl_get db (t, n))"
  using assms by (simp_all add: tbl_ok_def tbl_get_delete split: option.splits)

lemma load_users_exact:
  assumes "tbl_ok db" "ValidateUserUniqueness users pubkeys = None"
    and "LoadUsersFromConfig org users pubkeys db = (db', m)"
  shows "tbl_ok db' \<and> RoleName m db' pubkey =
    (case map_of (listed_users users @ listed_legacy pubkeys) pubkey of Some role \<Rightarrow> role | None \<Rightarrow> [])"
proof -
  let ?db0 = "tbl_delete db (\<lambda>(t, pk) row. t = tenantID org)"
  have m: "m = tenantID org"
    and db': "db' = load_pubkeys_section m (load_users_section m ?db0 users) pubkeys"
    using assms(3) by (auto simp: LoadUsersFromConfig_def Let_def)
  have d: "distinct (map fst (listed_users users))" "distinct (map fst (listed_legacy pubkeys))"
    and disj: "map_of (listed_users users) pubkey = None \<or> map_of (listed_legacy pubkeys) pubkey = None"
    using assms(2) unfolding ValidateUserUniqueness_None pubkeys_listed
    by (auto simp: map_of_eq_None_iff)
  note clear = clear_tenant_get[OF assms(1), of "tenantID org"]
  have empty: "RoleName m ?db0 pubkey = []" using clear by (simp add: RoleName_get m)
  note users = load_users_section_RoleName[OF clear(1) d(1), of m pubkey]
  from users load_pubkeys_section_RoleName[OF conjunct1[OF users] d(2), of m pubkey] empty disj
  show ?thesis by (auto simp: db' map_of_append_some split: option.splits)
qed

text \<open>
  A configuration that passes the pubkey uniqueness check is loaded
  exactly: whatever the iteration order of its sections and whatever the table
  held before, each pubkey gets the one role the configuration lists it under,
  and every other pubkey has none.
\<close>

theorem LoadUsersFromConfig_exact:
  assumes "tbl_ok db" "ValidateUserUniqueness users pubkeys = None"
    and "LoadUsersFromConfig org users pubkeys db = (db', m)"
  shows "tbl_ok db' \<and> RoleName m db' pubkey =
    (case map_of (listed_users users @ listed_legacy pubkeys) pubkey of Some role \<Rightarrow> role | None \<Rightarrow> [])"
  using assms by (rule load_users_exact)

definition users_demo :: "(string \<times> val) list" where
  "users_demo = [(''sre'', VList [VStr ''AKEY1'',
     VMap [(''pubkey'', VStr ''AKEY2''), (''username'', VStr ''bob'')]])]"

definition legacy_demo :: "(string \<times> val) list" where
  "legacy_demo = [(''admin'', VList [VStr ''AKEY3''])]"

definition user_db_empty :: user_db where
  "user_db_empty = \<lparr>tbl_rows = [], tbl_up = True\<rparr>"

lemmas users_demo_defs = users_demo_def legacy_demo_def listed_users_def listed_legacy_def
  parseUserEntries_def parseStringSlice_def slice_elems_def

theorem LoadUsersFromConfig_exact_witness:
  "RoleName ''default'' (fst (LoadUsersFromConfig [] users_demo legacy_demo user_db_empty)) ''AKEY2'' = ''sre''"
proof -
  have "ValidateUserUniqueness users_demo legacy_demo = None"
    by (simp add: ValidateUserUniqueness_None pubkeys_listed users_demo_defs)
  moreover have "tbl_ok user_db_empty" by (simp add: user_db_empty_def tbl_ok_def tbl_wf_def)
  moreover have "LoadUsersFromConfig [] users_demo legacy_demo user_db_empty =
      (fst (LoadUsersFromConfig [] users_demo legacy_demo user_db_empty), ''default'')"
    by (simp add: LoadUsersFromConfig_def tenantID_def Let_def)
  ultimately have "RoleName ''default'' (fst (LoadUsersFromConfig [] users_demo legacy_demo user_db_empty)) ''AKEY2'' =
    (case map_of (listed_users users_demo @ listed_legacy legacy_demo) ''AKEY2'' of Some role \<Rightarrow> role | None \<Rightarrow> [])"
    using LoadUsersFromConfig_exact by blast
  then show ?thesis by (simp add: users_demo_defs)
qed

text \<open>
  The pubkey check accepts a configuration exactly when no pubkey
  is listed twice over both sections, and the username check exactly when no
  two entries of the users section claim the same non-empty username.
\<close>

theorem uniqueness_checks_exact:
  "(ValidateUserUniqueness users pubkeys = None) =
     distinct (map fst (listed_users users @ listed_legacy pubkeys)) \<and>
   (ValidateUsernameUniqueness users = None) =
     distinct (filter (\<lambda>name. name \<noteq> []) (map ue_Username (concat (map (\<lambda>(r, v). parseUserEntries v) users))))"
proof -
  have "map fst (username_claims users) =
      filter (\<lambda>name. name \<noteq> []) (map ue_Username (concat (map (\<lambda>(r, v). parseUserEntries v) users)))"
    by (induction users) (auto simp: username_claims_def filter_map comp_def)
  then show ?thesis
    unfolding ValidateUserUniqueness_None ValidateUsernameUniqueness_None pubkeys_listed by simp
qed

section \<open>Loading roles\<close>

lemma RoleStore_Get_get:
  "tbl_ok db \<Longrightarrow> RoleStore_Get rs db name =
     (case tbl_get db (rs, name) of
        Some rules \<Rightarrow> Inr (toRole ((rs, name), rules)) | None \<Rightarrow> Inl (ErrUnknownRole name))"
  by (simp add: RoleStore_Get_def tbl_okD split: option.splits)

lemma tenantID_nonempty [simp]: "tenantID org \<noteq> []"
  by (simp add: tenantID_def)

lemma Role_Validate_tenant [simp]: "Role_Validate (r\<lparr>role_TenantID := t\<rparr>) = Role_Validate r"
  by (simp add: Role_Validate_def)

lemma RoleStore_Register_eq:
  assumes "tbl_ok db" "role_TenantID r = []" "rs \<noteq> []"
  shows "RoleStore_Register org rs db r =
    (case Role_Validate r of
       Some err \<Rightarrow> (db, Some err) | None \<Rightarrow> (tbl_put db (rs, role_Name r) (role_Rules r), None))"
  using assms
  by (simp add: RoleStore_Register_def roleRowFrom_def upsertRoleRow_def tbl_put_def tbl_upsert_def
      tbl_okD Let_def split: option.split)

lemma parseRoleEntry_name:
  "parseRoleEntry name v = Inr role \<Longrightarrow> role_Name role = name \<and> role_TenantID role = []"
  by (auto simp: parseRoleEntry_def split: val.splits sum.splits)

lemma load_roles_success:
  assumes "load_roles org rs db roles = (db', None)" "tbl_ok db" "rs \<noteq> []" "distinct (map fst roles)"
  shows "tbl_ok db' \<and> tbl_get db' (t, name) =
     (if t = rs \<and> map_of roles name \<noteq> None
      then (case parseRoleEntry name (the (map_of roles name)) of
              Inr role \<Rightarrow> Some (role_Rules role) | Inl _ \<Rightarrow> None)
      else tbl_get db (t, name)) \<and>
     list_all (\<lambda>(n, v). \<exists>role. parseRoleEntry n v = Inr role \<and> Role_Validate role = None) roles"
  using assms
proof (induction roles arbitrary: db)
  case Nil
  then show ?case by simp
next
  case (Cons nv roles)
  obtain n v where nv: "nv = (n, v)" by (cases nv)
  obtain role where role: "parseRoleEntry n v = Inr role"
    using Cons.prems(1) nv by (auto split: sum.splits)
  note shape = parseRoleEntry_name[OF role]
  let ?db = "tbl_put db (rs, n) (role_Rules role)"
  have valid: "Role_Validate role = None" and rest: "load_roles org rs ?db roles = (db', None)"
    using Cons.prems(1-3) nv role shape
    by (auto simp: RoleStore_Register_eq split: option.splits)
  have n: "map_of roles n = None" and d: "distinct (map fst roles)"
    using Cons.prems(4) nv by (auto simp: map_of_eq_None_iff)
  show ?case
    using Cons.IH[OF rest _ Cons.prems(3) d] Cons.prems(2) n nv role valid
    by (auto simp: tbl_get_put)
qed

lemma builtin_valid: "Role_Validate BuiltinViewerRole = None" "Role_Validate BuiltinOperatorRole = None"
  by (simp_all add: Role_Validate_def BuiltinViewerRole_def BuiltinOperatorRole_def wild_def
      IsValidAction_def AllActions_def action_defs validateScope_def)

definition builtin_roles :: "string \<Rightarrow> role option" where
  "builtin_roles name = (if name = ''viewer'' then Some BuiltinViewerRole
     else if name = ''operator'' then Some BuiltinOperatorRole else None)"

text \<open>What the loader leaves behind for its tenant when it succeeds.\<close>

definition configured_role :: "(string \<times> val) list \<Rightarrow> string \<Rightarrow> role option" where
  "configured_role roles name =
     (case map_of roles name of
        Some v \<Rightarrow> (case parseRoleEntry name v of Inr role \<Rightarrow> Some role | Inl _ \<Rightarrow> None)
      | None \<Rightarrow> builtin_roles name)"

lemma load_roles_tables:
  assumes "LoadRolesFromConfig org roles db = (db', Inr rs)" "tbl_ok db" "distinct (map fst roles)"
  shows "rs = tenantID org" "tbl_ok db'"
    "tbl_get db' (rs, name) = map_option role_Rules (configured_role roles name)"
    "t \<noteq> rs \<Longrightarrow> tbl_get db' (t, name) = tbl_get db (t, name)"
    "list_all (\<lambda>(n, v). \<exists>role. parseRoleEntry n v = Inr role \<and> Role_Validate role = None) roles"
proof -
  let ?db0 = "tbl_delete db (\<lambda>(t, n) r. t = tenantID org)"
  let ?db2 = "tbl_put (tbl_put ?db0 (tenantID org, ''viewer'') (role_Rules BuiltinViewerRole))
      (tenantID org, ''operator'') (role_Rules BuiltinOperatorRole)"
  note clear = clear_tenant_get[OF assms(2), of "tenantID org"]
  have load: "load_roles org (tenantID org) ?db2 roles = (db', None)" and rs: "rs = tenantID org"
    using assms(1) clear(1) builtin_valid
    by (auto simp: LoadRolesFromConfig_def Let_def RoleStore_Register_eq BuiltinViewerRole_def
        BuiltinOperatorRole_def split: prod.splits option.splits)
  have ok: "tbl_ok ?db2" using clear(1) by simp
  note loaded = load_roles_success[OF load ok _ assms(3)]
  show "rs = tenantID org" by (rule rs)
  show "tbl_ok db'" using loaded by simp
  show "tbl_get db' (rs, name) = map_option role_Rules (configured_role roles name)"
    using loaded clear rs
    by (auto simp: configured_role_def builtin_roles_def tbl_get_put split: option.splits sum.splits)
  show "tbl_get db' (t, name) = tbl_get db (t, name)" if "t \<noteq> rs"
    using loaded clear rs that by (auto simp: tbl_get_put)
  show "list_all (\<lambda>(n, v). \<exists>role. parseRoleEntry n v = Inr role \<and> Role_Validate role = None) roles"
    using loaded by simp
qed

text \<open>
  After a successful load the tenant's roles are exactly the
  configured ones, each valid, plus the two built-in roles the configuration
  does not redefine; nothing of an earlier load lingers and no other tenant's
  role changes.
\<close>

theorem LoadRolesFromConfig_exact:
  assumes "LoadRolesFromConfig org roles db = (db', Inr rs)" "tbl_ok db" "distinct (map fst roles)"
  shows "(case RoleStore_Get rs db' name of
            Inr role \<Rightarrow> (\<exists>role0. configured_role roles name = Some role0 \<and>
               role_Rules role = role_Rules role0 \<and> Role_Validate role0 = None)
          | Inl _ \<Rightarrow> configured_role roles name = None) \<and>
     (t \<noteq> rs \<longrightarrow> tbl_get db' (t, name) = tbl_get db (t, name))"
proof -
  note loaded = load_roles_tables[OF assms]
  have valid: "Role_Validate role0 = None" if r: "configured_role roles name = Some role0" for role0
  proof (cases "map_of roles name")
    case None
    with r show ?thesis
      by (auto simp: configured_role_def builtin_roles_def builtin_valid split: if_splits)
  next
    case (Some v)
    then have "(name, v) \<in> set roles" by (rule map_of_SomeD)
    with loaded(5) obtain role where "parseRoleEntry name v = Inr role" "Role_Validate role = None"
      by (auto simp: list_all_iff)
    with r Some show ?thesis by (simp add: configured_role_def)
  qed
  have "RoleStore_Get rs db' name = (case configured_role roles name of
      Some role0 \<Rightarrow> Inr (toRole ((rs, name), role_Rules role0)) | None \<Rightarrow> Inl (ErrUnknownRole name))"
    using loaded(2,3) by (simp add: RoleStore_Get_get split: option.splits)
  then show ?thesis
    using valid loaded(4) by (cases "configured_role roles name") (auto simp: toRole_def)
qed

definition roles_demo :: "(string \<times> val) list" where
  "roles_demo = [(''dev'', VList [VMap [(''action'', VStr '' cook ''), (''scope'', VStr ''cohort:web'')]])]"

definition role_db_demo :: role_db where
  "role_db_demo = \<lparr>tbl_rows = [((''default'', ''old''), [wild ActionAdmin])], tbl_up = True\<rparr>"

theorem LoadRolesFromConfig_exact_witness:
  "\<exists>db'. LoadRolesFromConfig [] roles_demo role_db_demo = (db', Inr ''default'') \<and>
     (case RoleStore_Get ''default'' db' ''old'' of Inr _ \<Rightarrow> False | Inl _ \<Rightarrow> True)"
proof -
  have ok: "tbl_ok role_db_demo" by (simp add: role_db_demo_def tbl_ok_def tbl_wf_def)
  have d: "distinct (map fst roles_demo)" by (simp add: roles_demo_def)
  have "snd (LoadRolesFromConfig [] roles_demo role_db_demo) = Inr ''default''"
    by code_simp
  then obtain db' where load: "LoadRolesFromConfig [] roles_demo role_db_demo = (db', Inr ''default'')"
    by (metis prod.collapse)
  have none: "configured_role roles_demo ''old'' = None"
    by (simp add: configured_role_def roles_demo_def builtin_roles_def)
  from LoadRolesFromConfig_exact[OF load ok d, of "''old''"] none load show ?thesis
    by (auto split: sum.splits)
qed

section \<open>Loading cohorts\<close>

lemma load_cohorts_keeps:
  assumes "tbl_ok db" "cohort_db_valid db"
    and "load_cohorts org (db, r) cohorts = ((db', r'), err)"
  shows "tbl_ok db' \<and> cohort_db_valid db'"
  using assms
proof (induction cohorts arbitrary: db r)
  case Nil
  then show ?case by simp
next
  case (Cons nv cohorts)
  obtain n v where nv: "nv = (n, v)" by (cases nv)
  show ?case
  proof (cases "parseCohortEntry n v")
    case (Inl e)
    with Cons.prems nv show ?thesis by simp
  next
    case (Inr c)
    obtain db1 r1 err1 where reg: "Registry_Register org (db, r) c = ((db1, r1), err1)"
      by (metis surj_pair)
    with Register_keeps[OF Cons.prems(1,2) reg] Cons Inr nv show ?thesis
      by (auto split: option.splits)
  qed
qed

end
