(* ===== verification/Rbac_Policy.thy ===== *)
theory Rbac_Policy
  imports Rbac_Config
begin

text \<open>
  The assembled policy (\<open>internal/rbac/policy.go\<close>): the validation that reports
  dangling references, and the explanation of one user's access.
\<close>

section \<open>The policy and its warnings\<close>

text \<open>Nil stores are \<^term>\<open>None\<close>; a non-nil role or user store is its tenant.\<close>

record policy =
  pol_Roles :: "string option"
  pol_Users :: "string option"
  pol_Cohorts :: "registry option"

record policy_db =
  pdb_roles :: role_db
  pdb_users :: user_db
  pdb_cohorts :: cohort_db

text \<open>A warning carries what its message is formatted from.\<close>

datatype PolicyWarning =
    OrphanRoleRef string string
  | OrphanCohortRef string action string string
  | EmptyRole string
  | UnusedRole string
  | NoPolicy
  | NoRole
  | AssignedRoleMissing string

fun Kind :: "PolicyWarning \<Rightarrow> string" where
  "Kind (OrphanRoleRef pk role) = ''orphan_role_ref''"
| "Kind (OrphanCohortRef role action scope cohort) = ''orphan_cohort_ref''"
| "Kind (EmptyRole role) = ''empty_role''"
| "Kind (UnusedRole role) = ''unused_role''"
| "Kind NoPolicy = ''no_policy''"
| "Kind NoRole = ''no_role''"
| "Kind (AssignedRoleMissing role) = ''orphan_role_ref''"

definition truncatePubkey :: "string \<Rightarrow> string" where
  "truncatePubkey pk = (if length pk \<le> 12 then pk else take 6 pk @ ''...'' @ drop (length pk - 6) pk)"

definition allRoleNames :: "string \<Rightarrow> user_db \<Rightarrow> string list" where
  "allRoleNames m db = remdups (map snd (UserRoleMap_All m db))"

text \<open>\<open>role, _ := p.Roles.Get(roleName)\<close> of a listed role, which \<open>List_then_Get\<close> shows to exist.\<close>

definition listed_role_rules :: "string \<Rightarrow> role_db \<Rightarrow> string \<Rightarrow> rule list" where
  "listed_role_rules rs db name = (case RoleStore_Get rs db name of Inr role \<Rightarrow> role_Rules role | Inl _ \<Rightarrow> [])"

definition cohort_ref_warnings :: "policy_db \<Rightarrow> string \<Rightarrow> registry \<Rightarrow> string \<Rightarrow> PolicyWarning list" where
  "cohort_ref_warnings db rs reg roleName =
     concat (map (\<lambda>rule.
       if HasPrefix (Scope rule) cohort_prefix then
         (let cohortName = drop (length cohort_prefix) (Scope rule) in
          case Registry_Get (pdb_cohorts db) reg cohortName of
            Inl _ \<Rightarrow> [OrphanCohortRef roleName (Action rule) (Scope rule) cohortName]
          | Inr _ \<Rightarrow> [])
       else []) (listed_role_rules rs (pdb_roles db) roleName))"

definition ValidatePolicy :: "policy_db \<Rightarrow> policy \<Rightarrow> PolicyWarning list" where
  "ValidatePolicy db p =
     (case (pol_Roles p, pol_Users p) of
        (Some rs, Some us) \<Rightarrow>
          (let roleNames = RoleStore_List rs (pdb_roles db);
               orphans = concat (map (\<lambda>(pubkey, roleName).
                 case RoleStore_Get rs (pdb_roles db) roleName of
                   Inl _ \<Rightarrow> [OrphanRoleRef (truncatePubkey pubkey) roleName]
                 | Inr _ \<Rightarrow> []) (UserRoleMap_All us (pdb_users db)));
               cohortRefs = (case pol_Cohorts p of
                 None \<Rightarrow> []
               | Some reg \<Rightarrow> concat (map (cohort_ref_warnings db rs reg) roleNames));
               emptyRoles = map EmptyRole
                 (filter (\<lambda>n. length (listed_role_rules rs (pdb_roles db) n) = 0) roleNames);
               referenced = allRoleNames us (pdb_users db);
               unused = map UnusedRole (filter (\<lambda>n. n \<notin> set referenced) roleNames)
           in orphans @ cohortRefs @ emptyRoles @ unused)
      | _ \<Rightarrow> [])"

section \<open>Explaining access\<close>

record PermissionSummary =
  ps_Pubkey :: string
  ps_RoleName :: string
  ps_IsAdmin :: bool
  ps_Actions :: "rule list"
  ps_Warnings :: "PolicyWarning list"

definition ExplainAccess :: "policy_db \<Rightarrow> policy \<Rightarrow> string \<Rightarrow> PermissionSummary" where
  "ExplainAccess db p pubkey =
     (let summary = \<lparr>ps_Pubkey = pubkey, ps_RoleName = [], ps_IsAdmin = False,
                     ps_Actions = [], ps_Warnings = []\<rparr> in
      case (pol_Users p, pol_Roles p) of
        (Some us, Some rs) \<Rightarrow>
          (let roleName = RoleName us (pdb_users db) pubkey in
           if roleName = [] then summary\<lparr>ps_Warnings := [NoRole]\<rparr>
           else case RoleStore_Get rs (pdb_roles db) roleName of
                  Inl _ \<Rightarrow> summary\<lparr>ps_RoleName := roleName, ps_Warnings := [AssignedRoleMissing roleName]\<rparr>
                | Inr role \<Rightarrow>
                    summary\<lparr>ps_RoleName := roleName,
                      ps_IsAdmin := list_ex (\<lambda>rule. Action rule = ActionAdmin) (role_Rules role),
                      ps_Actions := map (\<lambda>rule. \<lparr>Action = Action rule,
                        Scope = (if Scope rule = [] then ''*'' else Scope rule)\<rparr>) (role_Rules role)\<rparr>)
      | _ \<Rightarrow> summary\<lparr>ps_Warnings := [NoPolicy]\<rparr>)"

definition ExplainAllUsers :: "policy_db \<Rightarrow> policy \<Rightarrow> PermissionSummary list" where
  "ExplainAllUsers db p =
     (case pol_Users p of
        None \<Rightarrow> []
      | Some us \<Rightarrow> map (ExplainAccess db p) (sort (map fst (UserRoleMap_All us (pdb_users db)))))"

section \<open>Listings\<close>

lemma tenant_rows_set:
  assumes "tbl_ok db"
  shows "set (map (\<lambda>((t, n), r). f n r) (tbl_find db (\<lambda>(t, n) r. t = m))) =
    {f n r | n r. tbl_get db (m, n) = Some r}"
proof -
  define rows where "rows = tbl_find db (\<lambda>(t, n) r. t = m)"
  have mem: "((t, n), r) \<in> set rows \<longleftrightarrow> tbl_get db (t, n) = Some r \<and> t = m" for t n r
    using assms by (simp add: rows_def tbl_find_get tbl_okD)
  have "set (map (\<lambda>((t, n), r). f n r) rows) = {f n r | t n r. ((t, n), r) \<in> set rows}"
    by (auto simp: image_iff) (metis case_prod_conv)
  then show ?thesis unfolding rows_def[symmetric] by (auto simp: mem)
qed

lemma List_then_Get:
  "tbl_ok db \<Longrightarrow> name \<in> set (RoleStore_List rs db) \<longleftrightarrow> (\<exists>role. RoleStore_Get rs db name = Inr role)"
  unfolding RoleStore_List_def tenant_rows_set[of db "\<lambda>n r. n"]
  by (auto simp: RoleStore_Get_get split: option.splits)

lemma All_mem:
  "tbl_ok db \<Longrightarrow> (pk, role) \<in> set (UserRoleMap_All m db) \<longleftrightarrow>
    (\<exists>row. tbl_get db (m, pk) = Some row \<and> ur_RoleName row = role)"
  unfolding UserRoleMap_All_def tenant_rows_set[of db "\<lambda>pk row. (pk, ur_RoleName row)"] by auto

lemma allRoleNames_mem:
  assumes "tbl_ok db" "name \<in> set (allRoleNames m db)"
  shows "\<exists>pk. RoleName m db pk = name"
proof -
  obtain pk where "(pk, name) \<in> set (UserRoleMap_All m db)"
    using assms(2) by (auto simp: allRoleNames_def)
  then obtain row where "tbl_get db (m, pk) = Some row" "ur_RoleName row = name"
    using assms(1) by (auto simp: All_mem)
  with assms(1) have "RoleName m db pk = name" by (simp add: RoleName_get)
  then show ?thesis ..
qed

lemma no_cohort_warning:
  assumes "OrphanCohortRef roleName (Action rule) (Scope rule) (drop (length cohort_prefix) (Scope rule))
      \<notin> set (cohort_ref_warnings db rs reg roleName)"
    and "rule \<in> set (listed_role_rules rs (pdb_roles db) roleName)" "HasPrefix (Scope rule) cohort_prefix"
  shows "\<exists>c. Registry_Get (pdb_cohorts db) reg (drop (length cohort_prefix) (Scope rule)) = Inr c"
  using assms
  by (cases "Registry_Get (pdb_cohorts db) reg (drop (length cohort_prefix) (Scope rule))")
    (force simp: cohort_ref_warnings_def Let_def)+

section \<open>Properties\<close>

text \<open>
  A policy that validates without warnings has no dangling
  reference: every assigned user's role is defined, every cohort scope of every
  role names a registered cohort, no role is without rules and every role has a
  user.
\<close>

theorem ValidatePolicy_complete:
  assumes "ValidatePolicy db p = []"
    and "p = \<lparr>pol_Roles = Some rs, pol_Users = Some us, pol_Cohorts = Some reg\<rparr>"
    and "tbl_ok (pdb_roles db)" "tbl_ok (pdb_users db)"
  shows "(RoleName us (pdb_users db) pubkey \<noteq> [] \<longrightarrow>
            (\<exists>role. RoleStore_Get rs (pdb_roles db) (RoleName us (pdb_users db) pubkey) = Inr role)) \<and>
         (\<forall>role rule. RoleStore_Get rs (pdb_roles db) name = Inr role \<longrightarrow>
            role_Rules role \<noteq> [] \<and>
            (rule \<in> set (role_Rules role) \<and> HasPrefix (Scope rule) cohort_prefix \<longrightarrow>
               (\<exists>c. Registry_Get (pdb_cohorts db) reg (drop (length cohort_prefix) (Scope rule)) = Inr c)) \<and>
            (\<exists>pk. RoleName us (pdb_users db) pk = name))"
proof -
  let ?names = "RoleStore_List rs (pdb_roles db)"
  have orphans: "RoleStore_Get rs (pdb_roles db) r = Inl e \<Longrightarrow> (pk, r) \<notin> set (UserRoleMap_All us (pdb_users db))"
    and refs: "n \<in> set ?names \<Longrightarrow> cohort_ref_warnings db rs reg n = []"
    and empty: "n \<in> set ?names \<Longrightarrow> listed_role_rules rs (pdb_roles db) n \<noteq> []"
    and used: "n \<in> set ?names \<Longrightarrow> n \<in> set (allRoleNames us (pdb_users db))" for r e pk n
    using assms(1,2) by (force simp: ValidatePolicy_def Let_def filter_empty_conv)+
  show ?thesis
  proof (intro conjI allI impI)
    assume "RoleName us (pdb_users db) pubkey \<noteq> []"
    then have "(pubkey, RoleName us (pdb_users db) pubkey) \<in> set (UserRoleMap_All us (pdb_users db))"
      using assms(4) by (auto simp: All_mem RoleName_get split: option.splits)
    with orphans show "\<exists>role. RoleStore_Get rs (pdb_roles db) (RoleName us (pdb_users db) pubkey) = Inr role"
      by (metis sumE)
  next
    fix role rule
    assume get: "RoleStore_Get rs (pdb_roles db) name = Inr role"
    then have n: "name \<in> set ?names" using assms(3) by (auto simp: List_then_Get)
    have rules: "listed_role_rules rs (pdb_roles db) name = role_Rules role"
      by (simp add: listed_role_rules_def get)
    show "role_Rules role \<noteq> []" using empty[OF n] rules by simp
    show "\<exists>pk. RoleName us (pdb_users db) pk = name"
      using used[OF n] assms(4) by (blast intro: allRoleNames_mem)
    assume "rule \<in> set (role_Rules role) \<and> HasPrefix (Scope rule) cohort_prefix"
    then show "\<exists>c. Registry_Get (pdb_cohorts db) reg (drop (length cohort_prefix) (Scope rule)) = Inr c"
      using no_cohort_warning[of name rule db rs reg] refs[OF n] rules by simp
  qed
qed

definition policy_demo_db :: policy_db where
  "policy_demo_db = \<lparr>
     pdb_roles = \<lparr>tbl_rows = [((''acme'', ''ops''), [\<lparr>Action = ActionCook, Scope = ''cohort:web''\<rparr>])], tbl_up = True\<rparr>,
     pdb_users = \<lparr>tbl_rows = [((''acme'', ''AKEY1''), \<lparr>ur_RoleName = ''ops'', ur_Username = ''ann''\<rparr>)], tbl_up = True\<rparr>,
     pdb_cohorts = cohort_demo_db\<rparr>"

definition policy_demo :: policy where
  "policy_demo = \<lparr>pol_Roles = Some ''acme'', pol_Users = Some ''acme'',
     pol_Cohorts = Some (NewRegistryForTenant ''acme'')\<rparr>"

lemma policy_demo_tables: "tbl_ok (pdb_roles policy_demo_db)" "tbl_ok (pdb_users policy_demo_db)"
  by (simp_all add: policy_demo_db_def tbl_ok_def tbl_wf_def)

lemma policy_demo_valid: "ValidatePolicy policy_demo_db policy_demo = []"
  by code_simp

theorem ValidatePolicy_complete_witness:
  "\<exists>role. RoleStore_Get ''acme'' (pdb_roles policy_demo_db)
     (RoleName ''acme'' (pdb_users policy_demo_db) ''AKEY1'') = Inr role"
proof -
  have "RoleName ''acme'' (pdb_users policy_demo_db) ''AKEY1'' \<noteq> []" by code_simp
  with ValidatePolicy_complete[OF policy_demo_valid policy_demo_def policy_demo_tables, of "''AKEY1''"]
  show ?thesis by blast
qed

text \<open>
  The access explanation of a user tells the truth about the
  permission check: it lists an admin flag, an action or a scope exactly when
  the user's role grants it, and the scopes it prints cover the same sprouts as
  the role's own.
\<close>

theorem ExplainAccess_sound:
  assumes "RoleName us (pdb_users db) pubkey = roleName" "roleName \<noteq> []"
    and "RoleStore_Get rs (pdb_roles db) roleName = Inr role"
    and "pol_Users p = Some us" "pol_Roles p = Some rs"
  shows "ps_IsAdmin (ExplainAccess db p pubkey) = HasAction role ActionAdmin \<and>
    HasAction role action =
      (\<exists>a \<in> set (ps_Actions (ExplainAccess db p pubkey)). rule_applies a action) \<and>
    HasScopedAccess role action sproutID resolver =
      (\<exists>a \<in> set (ps_Actions (ExplainAccess db p pubkey)).
         rule_applies a action \<and> sproutID \<in> scope_covers (Scope a) resolver)"
proof -
  have "scope_covers (if s = [] then ''*'' else s) resolver = scope_covers s resolver" for s
    by (simp add: scope_covers_def)
  with assms show ?thesis
    by (auto simp: ExplainAccess_def Let_def HasAction_iff HasScopedAccess_iff rule_applies_def list_ex_iff)
qed

theorem ExplainAccess_sound_witness:
  "HasAction \<lparr>role_Name = ''ops'', role_Rules = [\<lparr>Action = ActionCook, Scope = ''cohort:web''\<rparr>],
       role_TenantID = ''acme''\<rparr> ActionCook =
     (\<exists>a \<in> set (ps_Actions (ExplainAccess policy_demo_db policy_demo ''AKEY1'')). rule_applies a ActionCook)"
proof -
  have name: "RoleName ''acme'' (pdb_users policy_demo_db) ''AKEY1'' = ''ops''" by code_simp
  have get: "RoleStore_Get ''acme'' (pdb_roles policy_demo_db) ''ops'' =
    Inr \<lparr>role_Name = ''ops'', role_Rules = [\<lparr>Action = ActionCook, Scope = ''cohort:web''\<rparr>],
       role_TenantID = ''acme''\<rparr>"
    by (simp add: RoleStore_Get_def tbl_first_def policy_demo_db_def toRole_def)
  have "pol_Users policy_demo = Some ''acme''" "pol_Roles policy_demo = Some ''acme''"
    by (simp_all add: policy_demo_def)
  from ExplainAccess_sound[OF name _ get this, of ActionCook] show ?thesis by blast
qed

end
