(* ===== verification/Auth.thy ===== *)
theory Auth
  imports Rbac_Policy
begin

text \<open>
  Authentication and authorization of API tokens (\<open>internal/auth/auth.go\<close> and
  \<open>sign.go\<close>): loading the policy, looking up a caller's role, the token checks
  the request handlers call, user management in the configuration file, and
  signed tokens.  The NKey library, the token encoding and the configuration
  library's file access are parameters.
\<close>

section \<open>State\<close>

record farmer_config =
  cfg_org :: string
  cfg_roles :: "(string \<times> val) list"
  cfg_users :: "(string \<times> val) list"
  cfg_pubkeys :: "(string \<times> val) list"
  cfg_cohorts :: "(string \<times> val) list"
  cfg_allow_root :: bool
  cfg_readable :: bool
  cfg_writable :: bool

record auth_state =
  au_config :: farmer_config
  au_db :: policy_db
  au_roleStore :: "string option"
  au_userRoleMap :: "string option"
  au_cohortReg :: "registry option"

datatype auth_error =
    ErrInvalidPubkey
  | ErrMissingAdmin
  | ErrNoPubkeys
  | ErrUserExists
  | ErrUserNotFound
  | ErrConfigRead
  | ErrConfigWrite
  | ErrRoles role_error
  | ErrCohorts cohort_error
  | ErrDuplicates dup_error

definition extractStringSlice :: "val option \<Rightarrow> string list" where
  "extractStringSlice v =
     (case v of
        Some (VList xs) \<Rightarrow> map (\<lambda>x. as_string (Some x)) (filter is_VStr xs)
      | Some (VStrs ss) \<Rightarrow> ss
      | Some (VStr s) \<Rightarrow> [s]
      | _ \<Rightarrow> [])"

definition GetPubkeysByRole :: "farmer_config \<Rightarrow> string \<Rightarrow> auth_error + string list" where
  "GetPubkeysByRole cfg role =
     (if \<not> cfg_readable cfg then Inl ErrConfigRead
      else if cfg_pubkeys cfg = [] then Inl ErrNoPubkeys
      else case map_of (cfg_pubkeys cfg) role of
             None \<Rightarrow> Inl ErrMissingAdmin
           | Some (VStr adminKey) \<Rightarrow> Inr [adminKey]
           | Some (VList ks) \<Rightarrow>
               if list_all is_VStr ks then Inr (map (\<lambda>k. as_string (Some k)) ks) else Inl ErrInvalidPubkey
           | Some _ \<Rightarrow> Inl ErrInvalidPubkey)"

section \<open>Loading the policy\<close>

definition currentPolicyLocked :: "auth_state \<Rightarrow> policy" where
  "currentPolicyLocked st =
     \<lparr>pol_Roles = au_roleStore st, pol_Users = au_userRoleMap st, pol_Cohorts = au_cohortReg st\<rparr>"

definition adminRole :: role where
  "adminRole = \<lparr>role_Name = ''admin'', role_Rules = [wild ActionAdmin], role_TenantID = []\<rparr>"

fun set_unassigned :: "string \<Rightarrow> user_db \<Rightarrow> string list \<Rightarrow> string \<Rightarrow> user_db" where
  "set_unassigned m db [] role = db"
| "set_unassigned m db (k # ks) role =
     set_unassigned m (if RoleName m db k = [] then UserRoleMap_Set m db k role else db) ks role"

text \<open>The branch for configurations without roles: the legacy admin keys get an admin role.\<close>

definition legacy_admin :: "farmer_config \<Rightarrow> string \<Rightarrow> string \<Rightarrow> policy_db \<Rightarrow> policy_db" where
  "legacy_admin cfg rs m db =
     (if length (RoleStore_List rs (pdb_roles db)) = 0 then
        (case GetPubkeysByRole cfg ''admin'' of
           Inl _ \<Rightarrow> db
         | Inr legacyKeys \<Rightarrow>
             if length legacyKeys > 0
             then db\<lparr>pdb_roles := fst (RoleStore_Register (cfg_org cfg) rs (pdb_roles db) adminRole),
                     pdb_users := set_unassigned m (pdb_users db) legacyKeys ''admin''\<rparr>
             else db)
      else db)"

text \<open>
  \<open>LoadPolicy\<close>.  A failing loader assigns nil to its global before the error is
  returned.
\<close>

definition LoadPolicy :: "auth_state \<Rightarrow> auth_state \<times> auth_error option \<times> PolicyWarning list" where
  "LoadPolicy st =
     (let cfg = au_config st; org = cfg_org cfg; db = au_db st in
      case ValidateUserUniqueness (cfg_users cfg) (cfg_pubkeys cfg) of
        Some err \<Rightarrow> (st, Some (ErrDuplicates err), [])
      | None \<Rightarrow>
      (case ValidateUsernameUniqueness (cfg_users cfg) of
        Some err \<Rightarrow> (st, Some (ErrDuplicates err), [])
      | None \<Rightarrow>
      (case LoadRolesFromConfig org (cfg_roles cfg) (pdb_roles db) of
        (rdb, Inl err) \<Rightarrow> (st\<lparr>au_db := db\<lparr>pdb_roles := rdb\<rparr>, au_roleStore := None\<rparr>, Some (ErrRoles err), [])
      | (rdb, Inr rs) \<Rightarrow>
      (case LoadUsersFromConfig org (cfg_users cfg) (cfg_pubkeys cfg) (pdb_users db) of
        (udb, m) \<Rightarrow>
      (case LoadCohortsFromConfig org (cfg_cohorts cfg) (pdb_cohorts db) of
        (cdb, Inl err) \<Rightarrow>
          (st\<lparr>au_db := \<lparr>pdb_roles = rdb, pdb_users = udb, pdb_cohorts = cdb\<rparr>,
              au_roleStore := Some rs, au_userRoleMap := Some m, au_cohortReg := None\<rparr>,
           Some (ErrCohorts err), [])
      | (cdb, Inr reg) \<Rightarrow>
          (let db1 = legacy_admin cfg rs m \<lparr>pdb_roles = rdb, pdb_users = udb, pdb_cohorts = cdb\<rparr>;
               st' = st\<lparr>au_db := db1, au_roleStore := Some rs, au_userRoleMap := Some m,
                        au_cohortReg := Some reg\<rparr>
           in (st', None, ValidatePolicy db1 (currentPolicyLocked st'))))))))"

definition SetPolicy :: "auth_state \<Rightarrow> string option \<Rightarrow> string option \<Rightarrow> registry option \<Rightarrow> auth_state" where
  "SetPolicy st rs urm cr = st\<lparr>au_roleStore := rs, au_userRoleMap := urm, au_cohortReg := cr\<rparr>"

text \<open>The resolver closes over the registry, the property table and the clock.\<close>

definition CohortResolver ::
  "auth_state \<Rightarrow> prop_db \<Rightarrow> int \<Rightarrow> string list \<Rightarrow> cohort_error resolver" where
  "CohortResolver st props now allSproutIDs =
     (case au_cohortReg st of
        None \<Rightarrow> None
      | Some reg \<Rightarrow> Some (\<lambda>name.
          Resolve \<lparr>env_cohorts = pdb_cohorts (au_db st), env_props = props, env_now = now\<rparr>
            reg name allSproutIDs))"

section \<open>Role lookup\<close>

fun legacy_role_of :: "(string \<times> val) list \<Rightarrow> string \<Rightarrow> string" where
  "legacy_role_of [] pubkey = []"
| "legacy_role_of ((roleName, v) # rest) pubkey =
     (if list_ex (\<lambda>k. k = pubkey) (extractStringSlice (Some v)) then roleName
      else legacy_role_of rest pubkey)"

definition legacyRoleName :: "auth_state \<Rightarrow> string \<Rightarrow> string" where
  "legacyRoleName st pubkey = legacy_role_of (cfg_pubkeys (au_config st)) pubkey"

definition lookupRole :: "auth_state \<Rightarrow> string \<Rightarrow> role option" where
  "lookupRole st pubkey =
     (case (au_userRoleMap st, au_roleStore st) of
        (Some m, Some rs) \<Rightarrow>
          (let name0 = RoleName m (pdb_users (au_db st)) pubkey;
               name = (if name0 = [] then legacyRoleName st pubkey else name0)
           in if name = [] then None
              else case RoleStore_Get rs (pdb_roles (au_db st)) name of
                     Inr role \<Rightarrow> Some role | Inl _ \<Rightarrow> None)
      | _ \<Rightarrow> None)"

definition pubkeyHasAccess :: "auth_state \<Rightarrow> string \<Rightarrow> bool" where
  "pubkeyHasAccess st pubkey = (lookupRole st pubkey \<noteq> None)"

fun add_legacy_users :: "(string \<times> val) list \<Rightarrow> (string \<times> string) list \<Rightarrow> (string \<times> string) list" where
  "add_legacy_users [] result = result"
| "add_legacy_users ((roleName, v) # rest) result =
     add_legacy_users rest
       (foldl (\<lambda>res k. if map_of res k = None then AList.update k roleName res else res)
          result (extractStringSlice (Some v)))"

definition ListAllUsers :: "auth_state \<Rightarrow> (string \<times> string) list" where
  "ListAllUsers st =
     add_legacy_users (cfg_pubkeys (au_config st))
       (case au_userRoleMap st of None \<Rightarrow> [] | Some m \<Rightarrow> UserRoleMap_All m (pdb_users (au_db st)))"

definition ListRoles :: "auth_state \<Rightarrow> string list" where
  "ListRoles st = (case au_roleStore st of None \<Rightarrow> [] | Some rs \<Rightarrow> RoleStore_List rs (pdb_roles (au_db st)))"

definition GetRole :: "auth_state \<Rightarrow> string \<Rightarrow> role_error + role" where
  "GetRole st name =
     (case au_roleStore st of
        None \<Rightarrow> Inl (ErrUnknownRole []) | Some rs \<Rightarrow> RoleStore_Get rs (pdb_roles (au_db st)) name)"

section \<open>Tokens\<close>

record UserAuth =
  ua_Expires :: string
  ua_Pubkey :: string
  ua_Sig :: string

text \<open>
  What the token code calls: base64 with JSON as one codec, base64 of a
  signature, RFC 3339 times (in nanoseconds), and the NKey library's public key
  parsing, verification and signing.
\<close>

record token_lib =
  tl_decode :: "string \<Rightarrow> UserAuth option"
  tl_encode :: "UserAuth \<Rightarrow> string"
  tl_b64dec :: "string \<Rightarrow> string option"
  tl_b64enc :: "string \<Rightarrow> string"
  tl_parse_time :: "string \<Rightarrow> int option"
  tl_format_time :: "int \<Rightarrow> string"
  tl_from_pub :: "string \<Rightarrow> bool"
  tl_verify :: "string \<Rightarrow> string \<Rightarrow> string \<Rightarrow> bool"
  tl_public :: "string \<Rightarrow> string"
  tl_sign :: "string \<Rightarrow> string \<Rightarrow> string"

datatype token_error = BadTime | ErrExpired | BadPubkey | BadSignatureEncoding | BadSignature | BadToken

definition UserAuth_IsValid :: "token_lib \<Rightarrow> int \<Rightarrow> UserAuth \<Rightarrow> token_error + string" where
  "UserAuth_IsValid lib now u =
     (case tl_parse_time lib (ua_Expires u) of
        None \<Rightarrow> Inl BadTime
      | Some e \<Rightarrow>
          if e < now then Inl ErrExpired
          else if \<not> tl_from_pub lib (ua_Pubkey u) then Inl BadPubkey
          else (case tl_b64dec lib (ua_Sig u) of
                  None \<Rightarrow> Inl BadSignatureEncoding
                | Some sig \<Rightarrow>
                    if tl_verify lib (ua_Pubkey u) (ua_Expires u) sig then Inr (ua_Pubkey u)
                    else Inl BadSignature))"

definition decodeToken :: "token_lib \<Rightarrow> string \<Rightarrow> token_error + UserAuth" where
  "decodeToken lib token = (case tl_decode lib token of None \<Rightarrow> Inl BadToken | Some ua \<Rightarrow> Inr ua)"

definition UserAuth_Sign :: "token_lib \<Rightarrow> string \<Rightarrow> UserAuth \<Rightarrow> UserAuth" where
  "UserAuth_Sign lib seed u = u\<lparr>ua_Sig := tl_b64enc lib (tl_sign lib seed (ua_Expires u))\<rparr>"

definition token_lifetime :: int where "token_lifetime = 60 * 1000000000 * 5"

definition createSignedToken :: "token_lib \<Rightarrow> int \<Rightarrow> string \<Rightarrow> string" where
  "createSignedToken lib now seed =
     tl_encode lib (UserAuth_Sign lib seed
       \<lparr>ua_Expires = tl_format_time lib (now + token_lifetime), ua_Pubkey = tl_public lib seed, ua_Sig = []\<rparr>)"

text \<open>The caller a token authenticates: the common prefix of the token checks.\<close>

definition token_pubkey :: "token_lib \<Rightarrow> int \<Rightarrow> string \<Rightarrow> string option" where
  "token_pubkey lib now token =
     (case decodeToken lib token of
        Inl _ \<Rightarrow> None
      | Inr ua \<Rightarrow> (case UserAuth_IsValid lib now ua of Inl _ \<Rightarrow> None | Inr pk \<Rightarrow> Some pk))"

definition token_role :: "token_lib \<Rightarrow> auth_state \<Rightarrow> int \<Rightarrow> string \<Rightarrow> role option" where
  "token_role lib st now token =
     (case token_pubkey lib now token of None \<Rightarrow> None | Some pk \<Rightarrow> lookupRole st pk)"

definition DangerouslyAllowRoot :: "auth_state \<Rightarrow> bool" where
  "DangerouslyAllowRoot st = cfg_allow_root (au_config st)"

definition TokenHasAccess :: "token_lib \<Rightarrow> auth_state \<Rightarrow> int \<Rightarrow> string \<Rightarrow> bool" where
  "TokenHasAccess lib st now token =
     (if DangerouslyAllowRoot st then True
      else case token_pubkey lib now token of None \<Rightarrow> False | Some pk \<Rightarrow> pubkeyHasAccess st pk)"

definition TokenHasRouteAccess :: "token_lib \<Rightarrow> auth_state \<Rightarrow> int \<Rightarrow> string \<Rightarrow> string \<Rightarrow> bool" where
  "TokenHasRouteAccess lib st now token routeName =
     (if DangerouslyAllowRoot st then True
      else case token_role lib st now token of None \<Rightarrow> False | Some role \<Rightarrow> HasRouteAccess role routeName)"

definition TokenHasAction :: "token_lib \<Rightarrow> auth_state \<Rightarrow> int \<Rightarrow> string \<Rightarrow> action \<Rightarrow> bool" where
  "TokenHasAction lib st now token action =
     (if DangerouslyAllowRoot st then True
      else case token_role lib st now token of None \<Rightarrow> False | Some role \<Rightarrow> HasAction role action)"

definition TokenHasScopedAccess ::
  "token_lib \<Rightarrow> auth_state \<Rightarrow> prop_db \<Rightarrow> int \<Rightarrow> string \<Rightarrow> action \<Rightarrow> string list \<Rightarrow> string list \<Rightarrow> bool" where
  "TokenHasScopedAccess lib st props now token action sproutIDs allSproutIDs =
     (if DangerouslyAllowRoot st then True
      else case token_role lib st now token of
             None \<Rightarrow> False
           | Some role \<Rightarrow>
               HasScopedAccessMulti role action sproutIDs (CohortResolver st props now allSproutIDs))"

text \<open>The result is a slice: \<^term>\<open>None\<close> is nil.\<close>

definition TokenScopeFilter ::
  "token_lib \<Rightarrow> auth_state \<Rightarrow> prop_db \<Rightarrow> int \<Rightarrow> string \<Rightarrow> action \<Rightarrow> string list \<Rightarrow> string list \<Rightarrow>
   string list option" where
  "TokenScopeFilter lib st props now token action sproutIDs allSproutIDs =
     (if DangerouslyAllowRoot st then Some sproutIDs
      else case token_role lib st now token of
             None \<Rightarrow> None
           | Some role \<Rightarrow> ScopeFilter role action sproutIDs (CohortResolver st props now allSproutIDs))"

definition WhoAmI ::
  "token_lib \<Rightarrow> auth_state \<Rightarrow> int \<Rightarrow> string \<Rightarrow> token_error + (string \<times> string \<times> string)" where
  "WhoAmI lib st now token =
     (case decodeToken lib token of
        Inl err \<Rightarrow> Inl err
      | Inr ua \<Rightarrow>
          (case UserAuth_IsValid lib now ua of
             Inl err \<Rightarrow> Inl err
           | Inr pk \<Rightarrow>
               (let (name, uname) = (case au_userRoleMap st of
                      None \<Rightarrow> ([], [])
                    | Some m \<Rightarrow> (RoleName m (pdb_users (au_db st)) pk, Username m (pdb_users (au_db st)) pk))
                in Inr (pk, if name = [] then legacyRoleName st pk else name, uname))))"

section \<open>Managing users\<close>

text \<open>The NKey format check is a parameter.\<close>

definition AddUser :: "(string \<Rightarrow> bool) \<Rightarrow> auth_state \<Rightarrow> string \<Rightarrow> string \<Rightarrow> auth_state \<times> auth_error option" where
  "AddUser IsValidPublicAccountKey st pubkey roleName =
     (if \<not> IsValidPublicAccountKey pubkey then (st, Some ErrInvalidPubkey)
      else case (case au_roleStore st of
                   None \<Rightarrow> None
                 | Some rs \<Rightarrow> (case RoleStore_Get rs (pdb_roles (au_db st)) roleName of
                                 Inl err \<Rightarrow> Some err | Inr _ \<Rightarrow> None)) of
             Some err \<Rightarrow> (st, Some (ErrRoles err))
           | None \<Rightarrow>
               if (case au_userRoleMap st of
                     None \<Rightarrow> False | Some m \<Rightarrow> RoleName m (pdb_users (au_db st)) pubkey \<noteq> [])
               then (st, Some ErrUserExists)
               else let cfg = au_config st;
                        existing = extractStringSlice (map_of (cfg_users cfg) roleName) @ [pubkey];
                        st1 = st\<lparr>au_config := cfg\<lparr>cfg_users :=
                                AList.update roleName (VStrs existing) (cfg_users cfg)\<rparr>\<rparr>
                    in if \<not> cfg_writable cfg then (st1, Some ErrConfigWrite)
                       else (case au_userRoleMap st of
                               None \<Rightarrow> (st1, None)
                             | Some m \<Rightarrow>
                                 (st1\<lparr>au_db := (au_db st1)\<lparr>pdb_users :=
                                    UserRoleMap_Set m (pdb_users (au_db st1)) pubkey roleName\<rparr>\<rparr>, None)))"

text \<open>Both loops of \<open>RemoveUser\<close>: an entry is rewritten only when a key was dropped from it.\<close>

definition drop_key :: "string \<Rightarrow> (string \<times> val) list \<Rightarrow> (string \<times> val) list" where
  "drop_key pubkey sect = map (\<lambda>(roleName, v).
     (let keys = extractStringSlice (Some v); filtered = filter (\<lambda>k. k \<noteq> pubkey) keys in
      (roleName, if length filtered \<noteq> length keys then VStrs filtered else v))) sect"

definition RemoveUser :: "auth_state \<Rightarrow> string \<Rightarrow> auth_state \<times> auth_error option" where
  "RemoveUser st pubkey =
     (case au_userRoleMap st of
        None \<Rightarrow> (st, Some ErrUserNotFound)
      | Some m \<Rightarrow>
          if RoleName m (pdb_users (au_db st)) pubkey = [] then (st, Some ErrUserNotFound)
          else let cfg = au_config st;
                   st1 = st\<lparr>au_config := cfg\<lparr>cfg_users := drop_key pubkey (cfg_users cfg),
                                            cfg_pubkeys := drop_key pubkey (cfg_pubkeys cfg)\<rparr>\<rparr>
               in if \<not> cfg_writable cfg then (st1, Some ErrConfigWrite)
                  else (st1\<lparr>au_db := (au_db st1)\<lparr>pdb_users :=
                          fst (UserRoleMap_Delete m (pdb_users (au_db st1)) pubkey)\<rparr>\<rparr>, None))"

section \<open>The token checks\<close>

lemma token_role_Some:
  "token_role lib st now token = Some role \<longleftrightarrow>
     (\<exists>pk. token_pubkey lib now token = Some pk \<and> lookupRole st pk = Some role)"
  by (auto simp: token_role_def split: option.splits)

text \<open>
  Property C3. Outside the root bypass, scoped access is granted to a token
  exactly when it authenticates a pubkey whose role has, for each requested
  sprout, a rule for the action (or an admin rule) whose scope covers it: a
  malformed, expired or unsigned token, an unassigned pubkey and an undefined
  role are all denied.
\<close>

theorem TokenHasScopedAccess_exact:
  assumes "\<not> DangerouslyAllowRoot st"
  shows "TokenHasScopedAccess lib st props now token action sproutIDs allSproutIDs =
    (\<exists>pk role. token_pubkey lib now token = Some pk \<and> lookupRole st pk = Some role \<and>
       (\<forall>sid \<in> set sproutIDs. \<exists>rule \<in> set (role_Rules role). rule_applies rule action \<and>
          sid \<in> scope_covers (Scope rule) (CohortResolver st props now allSproutIDs)))"
  using assms
  by (cases "token_role lib st now token")
    (auto simp: TokenHasScopedAccess_def token_role_Some HasScopedAccessMulti_iff HasScopedAccess_iff
      token_role_def split: option.splits)

text \<open>A library of which decoding and verification accept exactly one token, for concrete runs.\<close>

definition lib_demo :: token_lib where
  "lib_demo = \<lparr>
     tl_decode = (\<lambda>tok. case tok of c # cs \<Rightarrow>
        if c = CHR ''T'' then Some \<lparr>ua_Expires = cs, ua_Pubkey = ''AKEY1'', ua_Sig = ''S'' @ cs\<rparr> else None
      | [] \<Rightarrow> None),
     tl_encode = (\<lambda>u. CHR ''T'' # ua_Expires u),
     tl_b64dec = (\<lambda>s. Some s), tl_b64enc = (\<lambda>s. s),
     tl_parse_time = (\<lambda>s. Some (int (length s) * 1000000000)),
     tl_format_time = (\<lambda>t. replicate (nat (t div 1000000000)) CHR ''x''),
     tl_from_pub = (\<lambda>pk. pk = ''AKEY1''),
     tl_verify = (\<lambda>pk msg sig. sig = ''S'' @ msg),
     tl_public = (\<lambda>seed. ''AKEY1''),
     tl_sign = (\<lambda>seed msg. ''S'' @ msg)\<rparr>"

definition auth_demo :: auth_state where
  "auth_demo = \<lparr>au_config = \<lparr>cfg_org = ''acme'', cfg_roles = [], cfg_users = users_demo, cfg_pubkeys = [],
       cfg_cohorts = [], cfg_allow_root = False, cfg_readable = True, cfg_writable = True\<rparr>,
     au_db = policy_demo_db, au_roleStore = Some ''acme'', au_userRoleMap = Some ''acme'',
     au_cohortReg = Some (NewRegistryForTenant ''acme'')\<rparr>"

definition props_demo :: prop_db where "props_demo = \<lparr>tbl_rows = [], tbl_up = True\<rparr>"

theorem TokenHasScopedAccess_exact_witness:
  "TokenHasScopedAccess lib_demo auth_demo props_demo 0 ''Txx'' ActionCook [''w1''] [''w1'', ''d1''] \<and>
   \<not> TokenHasScopedAccess lib_demo auth_demo props_demo 0 ''Txx'' ActionCook [''d1''] [''w1'', ''d1'']"
proof -
  let ?res = "CohortResolver auth_demo props_demo 0 [''w1'', ''d1'']"
  have root: "\<not> DangerouslyAllowRoot auth_demo" by (simp add: DangerouslyAllowRoot_def auth_demo_def)
  have pk: "token_pubkey lib_demo 0 ''Txx'' = Some ''AKEY1''"
    by (simp add: token_pubkey_def decodeToken_def UserAuth_IsValid_def lib_demo_def)
  have role: "lookupRole auth_demo ''AKEY1'' = Some \<lparr>role_Name = ''ops'',
      role_Rules = [\<lparr>Action = ActionCook, Scope = ''cohort:web''\<rparr>], role_TenantID = ''acme''\<rparr>"
    by code_simp
  have members: "scope_covers ''cohort:web'' ?res = {''w1'', ''w2''}"
    by (simp add: scope_covers_def HasPrefix_def cohort_prefix_def sprout_prefix_def CohortResolver_def auth_demo_def
        policy_demo_db_def Resolve_def MaxNestingDepth_def getCohort_def cohort_demo_db_def tbl_first_def
        NewRegistryForTenant_def toCohort_def cohort_consts resolveStatic_def)
  show ?thesis
    unfolding TokenHasScopedAccess_exact[OF root] pk
    by (simp add: role members rule_applies_def)
qed

text \<open>
  A route outside the route table is an admin route: outside the
  root bypass a token may call it only when its role has an admin rule.
\<close>

theorem unknown_route_needs_admin:
  assumes "\<not> DangerouslyAllowRoot st" "routeName \<notin> fst ` set routeActions"
    and "TokenHasRouteAccess lib st now token routeName"
  shows "\<exists>pk role rule. token_pubkey lib now token = Some pk \<and> lookupRole st pk = Some role \<and>
    rule \<in> set (role_Rules role) \<and> Action rule = ActionAdmin"
proof -
  have "map_of routeActions routeName = None" using assms(2) by (simp add: map_of_eq_None_iff)
  then have "RouteAction routeName = ActionAdmin" by (simp add: RouteAction_def)
  with assms(1,3) show ?thesis
    by (auto simp: TokenHasRouteAccess_def HasRouteAccess_def HasAction_iff rule_applies_def token_role_Some
        split: option.splits)
qed

definition auth_admin_demo :: auth_state where
  "auth_admin_demo = auth_demo\<lparr>au_db := policy_demo_db\<lparr>pdb_roles :=
     \<lparr>tbl_rows = [((''acme'', ''ops''), [wild ActionAdmin])], tbl_up = True\<rparr>\<rparr>\<rparr>"

theorem unknown_route_needs_admin_witness:
  "\<exists>pk role rule. token_pubkey lib_demo 0 ''Txx'' = Some pk \<and> lookupRole auth_admin_demo pk = Some role \<and>
    rule \<in> set (role_Rules role) \<and> Action rule = ActionAdmin"
proof (rule unknown_route_needs_admin[where routeName = "''DropTables''"])
  show "\<not> DangerouslyAllowRoot auth_admin_demo" by code_simp
  show "''DropTables'' \<notin> fst ` set routeActions" by (simp add: routeActions_def)
  have pk: "token_pubkey lib_demo 0 ''Txx'' = Some ''AKEY1''"
    by (simp add: token_pubkey_def decodeToken_def UserAuth_IsValid_def lib_demo_def)
  have "lookupRole auth_admin_demo ''AKEY1'' = Some \<lparr>role_Name = ''ops'', role_Rules = [wild ActionAdmin],
     role_TenantID = ''acme''\<rparr>"
    by code_simp
  then show "TokenHasRouteAccess lib_demo auth_admin_demo 0 ''Txx'' ''DropTables''"
    by (simp add: TokenHasRouteAccess_def token_role_def pk HasRouteAccess_def HasAction_def wild_def)
qed

section \<open>Signed tokens\<close>

text \<open>What the encodings, the time format and the signature scheme promise.\<close>

definition token_lib_ok :: "token_lib \<Rightarrow> string \<Rightarrow> bool" where
  "token_lib_ok lib seed \<longleftrightarrow>
     (\<forall>t. let u = UserAuth_Sign lib seed \<lparr>ua_Expires = tl_format_time lib t,
                    ua_Pubkey = tl_public lib seed, ua_Sig = []\<rparr>
          in tl_decode lib (tl_encode lib u) = Some u) \<and>
     (\<forall>s. tl_b64dec lib (tl_b64enc lib s) = Some s) \<and>
     (\<forall>t. t \<ge> 0 \<longrightarrow> tl_parse_time lib (tl_format_time lib t) = Some (t div 1000000000 * 1000000000)) \<and>
     tl_from_pub lib (tl_public lib seed) \<and>
     (\<forall>msg. tl_verify lib (tl_public lib seed) msg (tl_sign lib seed msg))"

text \<open>
  A token created with a key authenticates that key's pubkey until
  five minutes after its creation, cut to the second the expiry is written
  with, and nobody after that.
\<close>

theorem signed_token_lifetime:
  assumes "token_lib_ok lib seed" "now \<ge> 0"
  shows "token_pubkey lib later (createSignedToken lib now seed) =
    (if later \<le> (now + token_lifetime) div 1000000000 * 1000000000
     then Some (tl_public lib seed) else None)"
proof -
  have "now + token_lifetime \<ge> 0" using assms(2) by (simp add: token_lifetime_def)
  then have *: "tl_parse_time lib (tl_format_time lib (now + token_lifetime)) =
      Some ((now + token_lifetime) div 1000000000 * 1000000000)"
    using assms(1) by (simp add: token_lib_ok_def)
  have dec: "tl_decode lib (createSignedToken lib now seed) =
      Some (UserAuth_Sign lib seed \<lparr>ua_Expires = tl_format_time lib (now + token_lifetime),
        ua_Pubkey = tl_public lib seed, ua_Sig = []\<rparr>)"
    using assms(1) by (simp add: token_lib_ok_def createSignedToken_def Let_def)
  show ?thesis
    using assms(1)
    by (auto simp: token_pubkey_def decodeToken_def dec UserAuth_IsValid_def UserAuth_Sign_def * token_lib_ok_def)
qed

lemma lib_demo_ok: "token_lib_ok lib_demo seed"
  by (simp add: token_lib_ok_def lib_demo_def UserAuth_Sign_def Let_def)

theorem signed_token_lifetime_witness:
  "token_pubkey lib_demo 300000000000 (createSignedToken lib_demo 1 ''seed'') = Some ''AKEY1''"
  using signed_token_lifetime[OF lib_demo_ok[of "''seed''"], of 1 300000000000]
  by (simp add: token_lifetime_def) (simp add: lib_demo_def)

section \<open>The policy a configuration loads\<close>

definition auth_tables_ok :: "policy_db \<Rightarrow> bool" where
  "auth_tables_ok db = (tbl_ok (pdb_roles db) \<and> tbl_ok (pdb_users db) \<and> tbl_ok (pdb_cohorts db))"

lemma LoadRoles_List_nonempty:
  assumes "LoadRolesFromConfig org roles db = (db', Inr rs)" "tbl_ok db" "distinct (map fst roles)"
  shows "RoleStore_List rs db' \<noteq> []"
proof -
  note loaded = load_roles_tables[OF assms]
  obtain role where role: "configured_role roles ''viewer'' = Some role"
  proof (cases "map_of roles ''viewer''")
    case None
    then have "configured_role roles ''viewer'' = Some BuiltinViewerRole"
      by (simp add: configured_role_def builtin_roles_def)
    then show ?thesis by (rule that)
  next
    case (Some v)
    with loaded(5) obtain r where "parseRoleEntry ''viewer'' v = Inr r"
      by (auto simp: list_all_iff dest!: map_of_SomeD)
    with Some have "configured_role roles ''viewer'' = Some r" by (simp add: configured_role_def)
    then show ?thesis by (rule that)
  qed
  then have "tbl_get db' (rs, ''viewer'') = Some (role_Rules role)"
    using loaded(3)[of "''viewer''"] by simp
  then have "''viewer'' \<in> set (RoleStore_List rs db')"
    using loaded(2) by (auto simp: List_then_Get RoleStore_Get_get)
  then show ?thesis by auto
qed

text \<open>The parts of a successful \<open>LoadPolicy\<close>; the legacy branch never runs.\<close>

lemma LoadPolicy_success:
  assumes "LoadPolicy st = (st', None, warnings)" "auth_tables_ok (au_db st)"
    and "distinct (map fst (cfg_roles (au_config st)))"
  obtains rdb udb cdb reg rs m where
    "LoadRolesFromConfig (cfg_org (au_config st)) (cfg_roles (au_config st)) (pdb_roles (au_db st)) = (rdb, Inr rs)"
    "LoadUsersFromConfig (cfg_org (au_config st)) (cfg_users (au_config st)) (cfg_pubkeys (au_config st))
       (pdb_users (au_db st)) = (udb, m)"
    "ValidateUserUniqueness (cfg_users (au_config st)) (cfg_pubkeys (au_config st)) = None"
    "st' = st\<lparr>au_db := \<lparr>pdb_roles = rdb, pdb_users = udb, pdb_cohorts = cdb\<rparr>,
        au_roleStore := Some rs, au_userRoleMap := Some m, au_cohortReg := Some reg\<rparr>"
proof -
  obtain rdb res where roles: "LoadRolesFromConfig (cfg_org (au_config st)) (cfg_roles (au_config st))
      (pdb_roles (au_db st)) = (rdb, res)" by fastforce
  obtain udb m where users: "LoadUsersFromConfig (cfg_org (au_config st)) (cfg_users (au_config st))
      (cfg_pubkeys (au_config st)) (pdb_users (au_db st)) = (udb, m)" by fastforce
  obtain cdb cres where cohorts: "LoadCohortsFromConfig (cfg_org (au_config st)) (cfg_cohorts (au_config st))
      (pdb_cohorts (au_db st)) = (cdb, cres)" by fastforce
  have uniq: "ValidateUserUniqueness (cfg_users (au_config st)) (cfg_pubkeys (au_config st)) = None"
    using assms(1) by (auto simp: LoadPolicy_def Let_def split: option.splits)
  obtain rs where rs: "res = Inr rs"
    using assms(1) uniq roles by (cases res) (auto simp: LoadPolicy_def Let_def split: option.splits)
  obtain reg where reg: "cres = Inr reg"
    using assms(1) uniq roles users cohorts rs
    by (cases cres) (auto simp: LoadPolicy_def Let_def split: option.splits)
  have "RoleStore_List rs rdb \<noteq> []"
    using LoadRoles_List_nonempty[OF roles[unfolded rs] _ assms(3)] assms(2) by (simp add: auth_tables_ok_def)
  then have dead: "legacy_admin (au_config st) rs m \<lparr>pdb_roles = rdb, pdb_users = udb, pdb_cohorts = cdb\<rparr> =
      \<lparr>pdb_roles = rdb, pdb_users = udb, pdb_cohorts = cdb\<rparr>"
    by (simp add: legacy_admin_def)
  have "st' = st\<lparr>au_db := \<lparr>pdb_roles = rdb, pdb_users = udb, pdb_cohorts = cdb\<rparr>,
        au_roleStore := Some rs, au_userRoleMap := Some m, au_cohortReg := Some reg\<rparr>"
    using assms(1) uniq roles users cohorts rs reg dead
    by (auto simp: LoadPolicy_def Let_def split: option.splits)
  with roles rs users uniq that show ?thesis by blast
qed

text \<open>The role name the configuration gives a pubkey.\<close>

definition configured_role_name :: "farmer_config \<Rightarrow> string \<Rightarrow> string" where
  "configured_role_name cfg pubkey =
     (case map_of (listed_users (cfg_users cfg) @ listed_legacy (cfg_pubkeys cfg)) pubkey of
        Some role \<Rightarrow> if role = [] then legacy_role_of (cfg_pubkeys cfg) pubkey else role
      | None \<Rightarrow> legacy_role_of (cfg_pubkeys cfg) pubkey)"

lemma lookupRole_loaded:
  assumes "LoadPolicy st = (st', None, warnings)" "auth_tables_ok (au_db st)"
    and "distinct (map fst (cfg_roles (au_config st)))"
  defines "name \<equiv> \<lambda>pubkey. configured_role_name (au_config st) pubkey"
  shows "map_option role_Rules (lookupRole st' pubkey) =
    (if name pubkey = [] then None
     else map_option role_Rules (configured_role (cfg_roles (au_config st)) (name pubkey)))"
proof -
  obtain rdb udb cdb reg rs m where roles: "LoadRolesFromConfig (cfg_org (au_config st))
      (cfg_roles (au_config st)) (pdb_roles (au_db st)) = (rdb, Inr rs)"
    and users: "LoadUsersFromConfig (cfg_org (au_config st)) (cfg_users (au_config st)) (cfg_pubkeys (au_config st))
       (pdb_users (au_db st)) = (udb, m)"
    and uniq: "ValidateUserUniqueness (cfg_users (au_config st)) (cfg_pubkeys (au_config st)) = None"
    and st': "st' = st\<lparr>au_db := \<lparr>pdb_roles = rdb, pdb_users = udb, pdb_cohorts = cdb\<rparr>,
        au_roleStore := Some rs, au_userRoleMap := Some m, au_cohortReg := Some reg\<rparr>"
    by (rule LoadPolicy_success[OF assms(1-3)])
  have ok: "tbl_ok (pdb_roles (au_db st))" "tbl_ok (pdb_users (au_db st))"
    using assms(2) by (simp_all add: auth_tables_ok_def)
  note rl = load_roles_tables[OF roles ok(1) assms(3)]
  have get: "RoleStore_Get rs rdb n = (case configured_role (cfg_roles (au_config st)) n of
      Some r \<Rightarrow> Inr (toRole ((rs, n), role_Rules r)) | None \<Rightarrow> Inl (ErrUnknownRole n))" for n
    using rl(2,3) by (simp add: RoleStore_Get_get split: option.splits)
  have rn: "RoleName m udb pubkey = (case map_of (listed_users (cfg_users (au_config st)) @
      listed_legacy (cfg_pubkeys (au_config st))) pubkey of Some role \<Rightarrow> role | None \<Rightarrow> [])"
    using load_users_exact[OF ok(2) uniq users] by blast
  show ?thesis
    by (auto simp: lookupRole_def st' rn get name_def configured_role_name_def legacyRoleName_def Let_def
        toRole_def split: option.splits)
qed

text \<open>
  After a successful policy load, a pubkey holds exactly the rules
  of the role the configuration lists it under (users section, pubkeys section,
  or a single legacy string), and nothing when that role is not defined, no
  matter what the tables held before.
\<close>

theorem LoadPolicy_grants_configured_role:
  assumes "LoadPolicy st = (st', None, warnings)" "auth_tables_ok (au_db st)"
    and "distinct (map fst (cfg_roles (au_config st)))"
  shows "map_option role_Rules (lookupRole st' pubkey) =
    (let name = configured_role_name (au_config st) pubkey in
     if name = [] then None
     else map_option role_Rules (configured_role (cfg_roles (au_config st)) name))"
  using lookupRole_loaded[OF assms, of pubkey] by (simp add: Let_def)

definition load_demo :: auth_state where
  "load_demo = \<lparr>au_config = \<lparr>cfg_org = ''acme'', cfg_roles = roles_demo,
       cfg_users = [(''dev'', VList [VStr ''AKEY1''])], cfg_pubkeys = legacy_demo,
       cfg_cohorts = [(''web'', VMap [(''type'', VStr ''static''), (''members'', VList [VStr ''w1''])])],
       cfg_allow_root = False, cfg_readable = True, cfg_writable = True\<rparr>,
     au_db = policy_demo_db, au_roleStore = None, au_userRoleMap = None, au_cohortReg = None\<rparr>"

lemma load_demo_ok: "auth_tables_ok (au_db load_demo)" "distinct (map fst (cfg_roles (au_config load_demo)))"
  using policy_demo_tables cohort_demo_ok
  by (simp_all add: load_demo_def auth_tables_ok_def policy_demo_db_def roles_demo_def)

lemma load_demo_success: "\<exists>st' ws. LoadPolicy load_demo = (st', None, ws)"
proof -
  have "fst (snd (LoadPolicy load_demo)) = None" by code_simp
  then show ?thesis by (metis prod.collapse)
qed

theorem LoadPolicy_grants_configured_role_witness:
  "\<exists>st' ws. LoadPolicy load_demo = (st', None, ws) \<and>
     map_option role_Rules (lookupRole st' ''AKEY1'') = Some [\<lparr>Action = ActionCook, Scope = ''cohort:web''\<rparr>]"
proof -
  obtain st' ws where load: "LoadPolicy load_demo = (st', None, ws)" using load_demo_success by blast
  have name: "configured_role_name (au_config load_demo) ''AKEY1'' = ''dev''"
    by (simp add: configured_role_name_def load_demo_def users_demo_defs)
  have "map_option role_Rules (lookupRole st' ''AKEY1'') =
      map_option role_Rules (configured_role (cfg_roles (au_config load_demo)) ''dev'')"
    using LoadPolicy_grants_configured_role[OF load load_demo_ok, of "''AKEY1''"] by (simp add: name)
  also have "map_option role_Rules (configured_role (cfg_roles (au_config load_demo)) ''dev'') =
      Some [\<lparr>Action = ActionCook, Scope = ''cohort:web''\<rparr>]"
    by code_simp
  finally show ?thesis using load by blast
qed

text \<open>
  The legacy admin fallback is unreachable.  A key listed only under
  the legacy \<open>pubkeys.admin\<close> section of a configuration without an \<open>admin\<close> role
  has no role at all after a successful load, although the loader's comment and
  the documentation of the users section promise it the built-in admin role.
\<close>

theorem legacy_admin_key_denied:
  assumes "LoadPolicy st = (st', None, warnings)" "auth_tables_ok (au_db st)"
    and "distinct (map fst (cfg_roles (au_config st)))"
    and "map_of (cfg_roles (au_config st)) ''admin'' = None"
    and "configured_role_name (au_config st) pubkey = ''admin''"
  shows "lookupRole st' pubkey = None"
  using lookupRole_loaded[OF assms(1-3), of pubkey] assms(4,5)
  by (simp add: configured_role_def builtin_roles_def)

theorem legacy_admin_key_denied_witness:
  "\<exists>st' ws. LoadPolicy load_demo = (st', None, ws) \<and>
     ''AKEY3'' \<in> set (extractStringSlice (map_of (cfg_pubkeys (au_config load_demo)) ''admin'')) \<and>
     lookupRole st' ''AKEY3'' = None"
proof -
  obtain st' ws where load: "LoadPolicy load_demo = (st', None, ws)" using load_demo_success by blast
  have "configured_role_name (au_config load_demo) ''AKEY3'' = ''admin''"
    by (simp add: configured_role_name_def load_demo_def users_demo_defs)
  moreover have "map_of (cfg_roles (au_config load_demo)) ''admin'' = None"
    by (simp add: load_demo_def roles_demo_def)
  ultimately have "lookupRole st' ''AKEY3'' = None"
    using legacy_admin_key_denied[OF load load_demo_ok] by blast
  with load show ?thesis by (auto simp: load_demo_def legacy_demo_def extractStringSlice_def)
qed

section \<open>User management\<close>

lemma legacy_role_of_drop: "legacy_role_of (drop_key pk sect) pk = []"
proof (induction sect)
  case Nil
  then show ?case by (simp add: drop_key_def)
next
  case (Cons rv sect)
  obtain r v where rv: "rv = (r, v)" by (cases rv)
  let ?keys = "extractStringSlice (Some v)"
  have "length (filter (\<lambda>k. k \<noteq> pk) ?keys) = length ?keys \<longleftrightarrow> pk \<notin> set ?keys"
    by (metis (mono_tags, lifting) filter_id_conv filter_True length_filter_less less_irrefl)
  moreover have "drop_key pk (rv # sect) = (r, if length (filter (\<lambda>k. k \<noteq> pk) ?keys) \<noteq> length ?keys
      then VStrs (filter (\<lambda>k. k \<noteq> pk) ?keys) else v) # drop_key pk sect"
    by (simp add: drop_key_def rv Let_def)
  ultimately show ?case using Cons.IH by (auto simp: list_ex_iff extractStringSlice_def)
qed

lemma RoleName_Delete:
  "tbl_ok db \<Longrightarrow> RoleName m (fst (UserRoleMap_Delete m db pk)) pk' = (if pk' = pk then [] else RoleName m db pk')"
  by (auto simp: UserRoleMap_Delete_def tbl_del_def[symmetric] RoleName_get tbl_get_del)

lemma RemoveUser_success:
  assumes "RemoveUser st pubkey = (st', None)"
  obtains m where "au_userRoleMap st = Some m" "RoleName m (pdb_users (au_db st)) pubkey \<noteq> []"
    "st' = st\<lparr>au_config := (au_config st)\<lparr>cfg_users := drop_key pubkey (cfg_users (au_config st)),
         cfg_pubkeys := drop_key pubkey (cfg_pubkeys (au_config st))\<rparr>,
       au_db := (au_db st)\<lparr>pdb_users := fst (UserRoleMap_Delete m (pdb_users (au_db st)) pubkey)\<rparr>\<rparr>"
  using assms by (auto simp: RemoveUser_def Let_def split: option.splits if_splits)

text \<open>
  A removed user is locked out at once: after a successful removal
  the pubkey has no role through either the user table or the legacy section,
  and the role assignment of every other pubkey in the table is what it was.
\<close>

theorem RemoveUser_locks_out:
  assumes "RemoveUser st pubkey = (st', None)" "tbl_ok (pdb_users (au_db st))"
  shows "lookupRole st' pubkey = None \<and>
    (\<forall>m pk. au_userRoleMap st = Some m \<and> pk \<noteq> pubkey \<longrightarrow>
       RoleName m (pdb_users (au_db st')) pk = RoleName m (pdb_users (au_db st)) pk)"
proof -
  obtain m where m: "au_userRoleMap st = Some m"
    and st': "st' = st\<lparr>au_config := (au_config st)\<lparr>cfg_users := drop_key pubkey (cfg_users (au_config st)),
         cfg_pubkeys := drop_key pubkey (cfg_pubkeys (au_config st))\<rparr>,
       au_db := (au_db st)\<lparr>pdb_users := fst (UserRoleMap_Delete m (pdb_users (au_db st)) pubkey)\<rparr>\<rparr>"
    using assms(1) by (rule RemoveUser_success)
  have "lookupRole st' pubkey = None"
    using assms(2) by (auto simp: lookupRole_def st' m RoleName_Delete legacyRoleName_def
        legacy_role_of_drop split: option.splits)
  then show ?thesis using assms(2) by (simp add: st' m RoleName_Delete)
qed

lemma auth_demo_users_ok: "tbl_ok (pdb_users (au_db auth_demo))"
  using policy_demo_tables by (simp add: auth_demo_def)

lemma remove_demo: "\<exists>st'. RemoveUser auth_demo ''AKEY1'' = (st', None)"
proof -
  have "snd (RemoveUser auth_demo ''AKEY1'') = None" by code_simp
  then show ?thesis by (metis prod.collapse)
qed

theorem RemoveUser_locks_out_witness:
  "\<exists>st'. RemoveUser auth_demo ''AKEY1'' = (st', None) \<and> lookupRole st' ''AKEY1'' = None"
  using remove_demo RemoveUser_locks_out auth_demo_users_ok by blast

text \<open>
  A section as the next start reads it: the \<open>[]string\<close> values the code stores
  are written to the file and decoded as lists of strings.
\<close>

fun reread :: "val \<Rightarrow> val" where
  "reread (VStrs ss) = VList (map VStr ss)"
| "reread v = v"

definition reread_section :: "(string \<times> val) list \<Rightarrow> (string \<times> val) list" where
  "reread_section sect = map (\<lambda>(r, v). (r, reread v)) sect"

lemma drop_key_unlisted:
  assumes "(role, v) \<in> set sect" "pubkey \<notin> set (extractStringSlice (Some v))"
  shows "(role, v) \<in> set (drop_key pubkey sect)"
proof -
  have "filter (\<lambda>k. k \<noteq> pubkey) (extractStringSlice (Some v)) = extractStringSlice (Some v)"
    using assms(2) by (auto simp: filter_id_conv)
  with assms(1) show ?thesis unfolding drop_key_def set_map image_iff by (intro bexI[of _ "(role, v)"]) auto
qed

text \<open>
  Removing a user who is listed in the rich \<open>pubkey/username\<close> form
  leaves the entry in the configuration, although the removal reports success:
  read back at the next start, the users section still lists the pubkey under
  its role.
\<close>

theorem RemoveUser_keeps_rich_entry:
  assumes "RemoveUser st pubkey = (st', None)"
    and "(role, VList items) \<in> set (cfg_users (au_config st))"
    and "VMap m \<in> set items" "map_of m ''pubkey'' = Some (VStr pubkey)" "pubkey \<noteq> []"
    and "VStr pubkey \<notin> set items"
  shows "(pubkey, role) \<in> set (listed_users (reread_section (cfg_users (au_config st'))))"
proof -
  have "pubkey \<notin> set (extractStringSlice (Some (VList items)))"
  proof
    assume "pubkey \<in> set (extractStringSlice (Some (VList items)))"
    then obtain x where x: "x \<in> set items" "is_VStr x" "pubkey = as_string (Some x)"
      by (auto simp: extractStringSlice_def)
    from x(2,3) have "x = VStr pubkey" by (cases x) auto
    with x(1) assms(6) show False by simp
  qed
  moreover have "cfg_users (au_config st') = drop_key pubkey (cfg_users (au_config st))"
    by (rule RemoveUser_success[OF assms(1)]) simp
  ultimately have kept: "(role, VList items) \<in> set (cfg_users (au_config st'))"
    using drop_key_unlisted[OF assms(2)] by simp
  have entry: "\<exists>e \<in> set (parse_user_items items). ue_Pubkey e = pubkey"
    using assms(3-5)
  proof (induction items)
    case Nil
    then show ?case by simp
  next
    case (Cons item items)
    then show ?case by (cases item) (auto simp: Let_def)
  qed
  have "(role, VList items) \<in> set (reread_section (cfg_users (au_config st')))"
    using kept unfolding reread_section_def set_map image_iff by (intro bexI[of _ "(role, VList items)"]) auto
  with entry show ?thesis by (force simp: listed_users_def parseUserEntries_def)
qed

definition rich_demo :: auth_state where
  "rich_demo = auth_demo\<lparr>au_config := (au_config auth_demo)\<lparr>cfg_users :=
     [(''ops'', VList [VMap [(''pubkey'', VStr ''AKEY1''), (''username'', VStr ''ann'')]])]\<rparr>\<rparr>"

theorem RemoveUser_keeps_rich_entry_witness:
  "\<exists>st'. RemoveUser rich_demo ''AKEY1'' = (st', None) \<and>
     (''AKEY1'', ''ops'') \<in> set (listed_users (reread_section (cfg_users (au_config st'))))"
proof -
  have "snd (RemoveUser rich_demo ''AKEY1'') = None" by code_simp
  then obtain st' where rm: "RemoveUser rich_demo ''AKEY1'' = (st', None)" by (metis prod.collapse)
  have "(''AKEY1'', ''ops'') \<in> set (listed_users (reread_section (cfg_users (au_config st'))))"
    by (rule RemoveUser_keeps_rich_entry[OF rm,
        where items = "[VMap [(''pubkey'', VStr ''AKEY1''), (''username'', VStr ''ann'')]]"])
      (auto simp: rich_demo_def)
  with rm show ?thesis by blast
qed

lemma AddUser_success:
  assumes "AddUser valid st pubkey roleName = (st', None)" "au_userRoleMap st = Some m"
  shows "cfg_users (au_config st') = AList.update roleName
      (VStrs (extractStringSlice (map_of (cfg_users (au_config st)) roleName) @ [pubkey]))
      (cfg_users (au_config st))"
    "pdb_users (au_db st') = UserRoleMap_Set m (pdb_users (au_db st)) pubkey roleName"
    "pdb_roles (au_db st') = pdb_roles (au_db st)" "au_roleStore st' = au_roleStore st"
    "au_userRoleMap st' = Some m"
    "\<And>rs. au_roleStore st = Some rs \<Longrightarrow> \<exists>role. RoleStore_Get rs (pdb_roles (au_db st)) roleName = Inr role"
  using assms by (auto simp: AddUser_def Let_def split: if_splits option.splits sum.splits)

text \<open>
  Adding a user to a role rewrites the role's entry of the users
  section as a list of plain strings and loses every user who was listed there
  in the rich \<open>pubkey/username\<close> form; the added user is in it and can log in at
  once with the role's rules.
\<close>

theorem AddUser_drops_rich_entries:
  assumes "AddUser valid st pubkey roleName = (st', None)"
    and "au_userRoleMap st = Some m" "au_roleStore st = Some rs" "tbl_ok (pdb_users (au_db st))"
    and "roleName \<noteq> []"
  shows "lookupRole st' pubkey \<noteq> None \<and>
    map ue_Pubkey (parseUserEntries (reread (the (map_of (cfg_users (au_config st')) roleName)))) =
      extractStringSlice (map_of (cfg_users (au_config st)) roleName) @ [pubkey]"
proof -
  note add = AddUser_success[OF assms(1,2)]
  have "RoleName m (pdb_users (au_db st')) pubkey = roleName" using add(2) assms(4) by simp
  moreover obtain role where "RoleStore_Get rs (pdb_roles (au_db st)) roleName = Inr role"
    using add(6) assms(3) by blast
  ultimately have "lookupRole st' pubkey \<noteq> None"
    using add(3-5) assms(3,5) by (simp add: lookupRole_def Let_def)
  moreover have "map ue_Pubkey (parse_user_items (map VStr ss)) = ss" for ss
    by (induction ss) auto
  ultimately show ?thesis
    using add(1) by (simp add: update_conv' parseUserEntries_def del: map_append)
qed

theorem AddUser_drops_rich_entries_witness:
  "\<exists>st'. AddUser (\<lambda>_. True) rich_demo ''AKEY9'' ''ops'' = (st', None) \<and>
     map ue_Pubkey (parseUserEntries (reread (the (map_of (cfg_users (au_config rich_demo)) ''ops'')))) = [''AKEY1''] \<and>
     map ue_Pubkey (parseUserEntries (reread (the (map_of (cfg_users (au_config st')) ''ops'')))) = [''AKEY9'']"
proof -
  have "snd (AddUser (\<lambda>_. True) rich_demo ''AKEY9'' ''ops'') = None" by code_simp
  then obtain st' where add: "AddUser (\<lambda>_. True) rich_demo ''AKEY9'' ''ops'' = (st', None)"
    by (metis prod.collapse)
  have "map ue_Pubkey (parseUserEntries (reread (the (map_of (cfg_users (au_config st')) ''ops'')))) =
      extractStringSlice (map_of (cfg_users (au_config rich_demo)) ''ops'') @ [''AKEY9'']"
    using AddUser_drops_rich_entries[OF add, of "''acme''" "''acme''"] auth_demo_users_ok
    by (simp add: rich_demo_def auth_demo_def)
  with add show ?thesis
    by (simp add: rich_demo_def extractStringSlice_def parseUserEntries_def)
qed

end
