(* ===== verification/Pki.thy ===== *)
theory Pki
  imports Props
begin

text \<open>
  The sprout identity store (\<open>internal/pki/pki.go\<close>, \<open>store.go\<close>, the bootstrap
  handler of \<open>internal/api/handlers/pki.go\<close>): sprout and tenant identifiers, the
  NKey lifecycle (unaccepted, accepted, denied, rejected), the tenant registry
  and the point-of-effect ownership check.  Every lifecycle call ends by
  reloading one NATS account; the reload itself (account JWTs, files, the bus)
  is an effect the model records in a log.
\<close>

section \<open>Identifiers\<close>

definition is_digit :: "char \<Rightarrow> bool" where
  "is_digit c = (48 \<le> (of_char c :: nat) \<and> (of_char c :: nat) \<le> 57)"

definition is_lower :: "char \<Rightarrow> bool" where
  "is_lower c = (97 \<le> (of_char c :: nat) \<and> (of_char c :: nat) \<le> 122)"

definition is_upper :: "char \<Rightarrow> bool" where
  "is_upper c = (65 \<le> (of_char c :: nat) \<and> (of_char c :: nat) \<le> 90)"

text \<open>The two character classes of \<open>sproutMatcher\<close>.\<close>

definition sprout_first :: "char \<Rightarrow> bool" where
  "sprout_first c = (is_digit c \<or> is_lower c \<or> c = CHR ''.'')"

definition sprout_char :: "char \<Rightarrow> bool" where
  "sprout_char c = (c = CHR ''-'' \<or> is_digit c \<or> c = CHR ''_'' \<or> is_lower c \<or> c = CHR ''.'')"

fun sproutMatcher :: "string \<Rightarrow> bool" where
  "sproutMatcher [] = False"
| "sproutMatcher (c # cs) = (sprout_first c \<and> list_all sprout_char cs)"

definition IsValidSproutID :: "string \<Rightarrow> bool" where
  "IsValidSproutID sid =
     (if length sid > 253 then False
      else if HasPrefix sid ''_'' then False
      else if HasPrefix sid ''-'' then False
      else if HasSuffix sid ''.'' then False
      else if \<not> sproutMatcher sid then False
      else True)"

text \<open>The host name is a parameter: \<^term>\<open>None\<close> when the system call fails.\<close>

definition normalize_host :: "string \<Rightarrow> string" where
  "normalize_host h = TrimPrefix (ReplaceAll (ToLower h) ''_'' ''-'') ''-''"

definition createSproutID :: "string option \<Rightarrow> string" where
  "createSproutID hostname = normalize_host (case hostname of None \<Rightarrow> ''unknown'' | Some h \<Rightarrow> h)"

definition IsValidTenantID :: "string \<Rightarrow> bool" where
  "IsValidTenantID tid =
     (1 \<le> length tid \<and> length tid \<le> 191 \<and>
      list_all (\<lambda>c. is_digit c \<or> is_upper c \<or> is_lower c \<or> c = CHR ''_'' \<or> c = CHR ''-'') tid)"

section \<open>Tables and state\<close>

definition stateUnaccepted :: string where "stateUnaccepted = ''unaccepted''"
definition stateAccepted :: string where "stateAccepted = ''accepted''"
definition stateDenied :: string where "stateDenied = ''denied''"
definition stateRejected :: string where "stateRejected = ''rejected''"

lemmas pki_states = stateUnaccepted_def stateAccepted_def stateDenied_def stateRejected_def

record nkeyRow =
  nk_NKey :: string
  nk_State :: string

type_synonym nkey_db = "(string \<times> string, nkeyRow) table"

record tenantRow =
  tn_Name :: string
  tn_Deleted :: bool
  tn_CreatedAt :: int
  tn_AccountPub :: string

type_synonym tenant_db = "(string, tenantRow) table"

text \<open>A reload goes through the legacy account for the current tenant and through the tenant's own otherwise.\<close>

datatype reload = ReloadLegacy | ReloadTenant string

record pki_state =
  pki_org :: string
  pki_nkeys :: nkey_db
  pki_tenants :: tenant_db
  pki_reloads :: "reload list"

datatype pki_error =
    ErrAlreadyAccepted
  | ErrAlreadyDenied
  | ErrAlreadyRejected
  | ErrAlreadyUnaccepted
  | ErrSproutIDInvalid
  | ErrSproutIDNotFound
  | ErrTenantNotFound
  | ErrTenantIDInvalid
  | ErrTenantDeprovisioned
  | PkiDbError

definition currentTenantID :: "pki_state \<Rightarrow> string" where
  "currentTenantID st = tenantID (pki_org st)"

definition reloadNKeysFor :: "string \<Rightarrow> pki_state \<Rightarrow> pki_state" where
  "reloadNKeysFor tid st =
     st\<lparr>pki_reloads := pki_reloads st @
          [if tid = currentTenantID st then ReloadLegacy else ReloadTenant tid]\<rparr>"

definition upsertNKeyRow :: "pki_state \<Rightarrow> string \<Rightarrow> string \<Rightarrow> nkeyRow \<Rightarrow> pki_state \<times> pki_error option" where
  "upsertNKeyRow st tid sid row =
     (let (db', written) = tbl_upsert (pki_nkeys st) (tid, sid) row in
      (st\<lparr>pki_nkeys := db'\<rparr>, if written then None else Some PkiDbError))"

text \<open>\<open>UPDATE ... SET state\<close>: no row, no change, no error.\<close>

definition setStateInTenant ::
  "pki_state \<Rightarrow> string \<Rightarrow> string \<Rightarrow> string \<Rightarrow> pki_state \<times> pki_error option" where
  "setStateInTenant st tid sid state =
     (if \<not> tbl_up (pki_nkeys st) then (st, Some PkiDbError)
      else case tbl_get (pki_nkeys st) (tid, sid) of
             None \<Rightarrow> (st, None)
           | Some row \<Rightarrow>
               (st\<lparr>pki_nkeys := tbl_put (pki_nkeys st) (tid, sid) (row\<lparr>nk_State := state\<rparr>)\<rparr>, None))"

definition findNKeyRowInTenant :: "pki_state \<Rightarrow> string \<Rightarrow> string \<Rightarrow> pki_error + nkeyRow" where
  "findNKeyRowInTenant st tid sid =
     (if \<not> IsValidSproutID sid then Inl ErrSproutIDInvalid
      else case tbl_first (pki_nkeys st) (tid, sid) of
             Found row \<Rightarrow> Inr row
           | NotFound \<Rightarrow> Inl ErrSproutIDNotFound
           | DbErr \<Rightarrow> Inl ErrSproutIDNotFound)"

section \<open>The lifecycle operations\<close>

text \<open>Each operation with a deferred reload: the body first, then the reload on every path.\<close>

definition with_reload ::
  "string \<Rightarrow> pki_state \<times> pki_error option \<Rightarrow> pki_state \<times> pki_error option" where
  "with_reload tid res = (reloadNKeysFor tid (fst res), snd res)"

definition DeleteNKey :: "pki_state \<Rightarrow> string \<Rightarrow> string \<Rightarrow> pki_state \<times> pki_error option" where
  "DeleteNKey st tid sid = with_reload tid
     (if \<not> IsValidSproutID sid then (st, Some ErrSproutIDInvalid)
      else if \<not> tbl_up (pki_nkeys st) then (st, Some PkiDbError)
      else if tbl_get (pki_nkeys st) (tid, sid) = None then (st, Some ErrSproutIDNotFound)
      else (st\<lparr>pki_nkeys := tbl_del (pki_nkeys st) (tid, sid)\<rparr>, None))"

text \<open>\<open>strings.SplitN(id, "_", 2)\<close>.\<close>

definition base_of :: "string \<Rightarrow> string" where
  "base_of sid = takeWhile (\<lambda>c. c \<noteq> CHR ''_'') sid"

definition has_suffix_part :: "string \<Rightarrow> bool" where
  "has_suffix_part sid = (CHR ''_'' \<in> set sid)"

text \<open>
  The row of the base ID is deleted by a statement of its own before the transaction that
  accepts the key; \<open>commits\<close> says whether that transaction goes through.
\<close>

definition AcceptNKey_tx :: "bool \<Rightarrow> pki_state \<Rightarrow> string \<Rightarrow> string \<Rightarrow> pki_state \<times> pki_error option" where
  "AcceptNKey_tx commits st tid sid = with_reload tid
     (let base = base_of sid in
      if \<not> IsValidSproutID base then (st, Some ErrSproutIDInvalid)
      else case findNKeyRowInTenant st tid sid of
             Inl err \<Rightarrow> (st, Some err)
           | Inr row \<Rightarrow>
               (let st1 = (if has_suffix_part sid then fst (DeleteNKey st tid base) else st) in
                if sid = base \<and> nk_State row = stateAccepted then (st1, Some ErrAlreadyAccepted)
                else if \<not> commits then (st1, Some PkiDbError)
                else (st1\<lparr>pki_nkeys := tbl_put (tbl_del (pki_nkeys st1) (tid, sid)) (tid, base)
                         \<lparr>nk_NKey = nk_NKey row, nk_State = stateAccepted\<rparr>\<rparr>, None)))"

text \<open>With a database that answers all of a call or none of it.\<close>

definition AcceptNKey :: "pki_state \<Rightarrow> string \<Rightarrow> string \<Rightarrow> pki_state \<times> pki_error option" where
  "AcceptNKey st tid sid = AcceptNKey_tx (tbl_up (pki_nkeys st)) st tid sid"

definition DenyNKey :: "pki_state \<Rightarrow> string \<Rightarrow> string \<Rightarrow> pki_state \<times> pki_error option" where
  "DenyNKey st tid sid = with_reload tid
     (if \<not> IsValidSproutID sid then (st, Some ErrSproutIDInvalid)
      else case findNKeyRowInTenant st tid sid of
             Inl err \<Rightarrow> (st, Some err)
           | Inr row \<Rightarrow>
               if nk_State row = stateDenied then (st, Some ErrAlreadyDenied)
               else setStateInTenant st tid sid stateDenied)"

definition UnacceptNKey :: "pki_state \<Rightarrow> string \<Rightarrow> string \<Rightarrow> string \<Rightarrow> pki_state \<times> pki_error option" where
  "UnacceptNKey st tid sid nkey = with_reload tid
     (if \<not> IsValidSproutID sid then (st, Some ErrSproutIDInvalid)
      else case findNKeyRowInTenant st tid sid of
             Inl err \<Rightarrow>
               if nkey \<noteq> [] \<and> err = ErrSproutIDNotFound
               then upsertNKeyRow st tid sid \<lparr>nk_NKey = nkey, nk_State = stateUnaccepted\<rparr>
               else (st, Some err)
           | Inr row \<Rightarrow>
               if nk_State row = stateUnaccepted then (st, Some ErrAlreadyUnaccepted)
               else setStateInTenant st tid sid stateUnaccepted)"

definition RejectNKey :: "pki_state \<Rightarrow> string \<Rightarrow> string \<Rightarrow> string \<Rightarrow> pki_state \<times> pki_error option" where
  "RejectNKey st tid sid nkey = with_reload tid
     (if \<not> IsValidSproutID sid then (st, Some ErrSproutIDInvalid)
      else case findNKeyRowInTenant st tid sid of
             Inl err \<Rightarrow>
               if nkey \<noteq> [] \<and> err = ErrSproutIDNotFound
               then upsertNKeyRow st tid sid \<lparr>nk_NKey = nkey, nk_State = stateRejected\<rparr>
               else (st, Some err)
           | Inr row \<Rightarrow>
               if nk_State row = stateRejected then (st, Some ErrAlreadyRejected)
               else setStateInTenant st tid sid stateRejected)"

section \<open>Queries\<close>

definition getNKeysByTypeForTenant :: "pki_state \<Rightarrow> string \<Rightarrow> string \<Rightarrow> string list" where
  "getNKeysByTypeForTenant st tid ks =
     (if ks = stateUnaccepted \<or> ks = stateAccepted \<or> ks = stateDenied \<or> ks = stateRejected
      then map (\<lambda>((t, s), row). s)
             (tbl_find (pki_nkeys st) (\<lambda>(t, s) row. t = tid \<and> nk_State row = ks))
      else [])"

record KeysByType =
  Accepted :: "string list"
  Denied :: "string list"
  Rejected :: "string list"
  Unaccepted :: "string list"

definition ListNKeysByType :: "pki_state \<Rightarrow> string \<Rightarrow> KeysByType" where
  "ListNKeysByType st tid =
     \<lparr>Accepted = getNKeysByTypeForTenant st tid ''accepted'',
      Denied = getNKeysByTypeForTenant st tid ''denied'',
      Rejected = getNKeysByTypeForTenant st tid ''rejected'',
      Unaccepted = getNKeysByTypeForTenant st tid ''unaccepted''\<rparr>"

definition GetNKey :: "pki_state \<Rightarrow> string \<Rightarrow> string \<Rightarrow> pki_error + string" where
  "GetNKey st tid sid =
     (case findNKeyRowInTenant st tid sid of Inl err \<Rightarrow> Inl err | Inr row \<Rightarrow> Inr (nk_NKey row))"

definition NKeyExistsInTenant :: "pki_state \<Rightarrow> string \<Rightarrow> string \<Rightarrow> string \<Rightarrow> bool \<times> bool" where
  "NKeyExistsInTenant st tid sid nkey =
     (case findNKeyRowInTenant st tid sid of
        Inl _ \<Rightarrow> (False, False) | Inr row \<Rightarrow> (True, nk_NKey row = nkey))"

definition SproutIDForNKey :: "pki_state \<Rightarrow> string \<Rightarrow> string \<Rightarrow> pki_error + string" where
  "SproutIDForNKey st tid nkey =
     (case tbl_find (pki_nkeys st)
             (\<lambda>(t, s) row. t = tid \<and> nk_NKey row = nkey \<and> nk_State row = stateAccepted) of
        [] \<Rightarrow> Inl ErrSproutIDNotFound | ((t, s), row) # _ \<Rightarrow> Inr s)"

definition SproutIDAndTenantForNKey :: "pki_state \<Rightarrow> string \<Rightarrow> pki_error + (string \<times> string)" where
  "SproutIDAndTenantForNKey st nkey =
     (case tbl_find (pki_nkeys st)
             (\<lambda>(t, s) row. nk_NKey row = nkey \<and> nk_State row = stateAccepted) of
        [] \<Rightarrow> Inl ErrSproutIDNotFound | ((t, s), row) # _ \<Rightarrow> Inr (t, s))"

section \<open>The bootstrap endpoint\<close>

text \<open>
  \<open>PutNKey\<close> of the HTTP handlers: the status code and whether the reply
  reports success.  The NKey format check is a parameter.
\<close>

definition itoa :: "nat \<Rightarrow> string" where "itoa n = digits (Suc n) n"

fun put_suffixed :: "nat \<Rightarrow> nat \<Rightarrow> pki_state \<Rightarrow> string \<Rightarrow> string \<Rightarrow> string \<Rightarrow> pki_state \<times> nat \<times> bool" where
  "put_suffixed 0 i st tid sid nkey = (st, 503, False)"
| "put_suffixed (Suc left) i st tid sid nkey =
     (let sid' = sid @ ''_'' @ itoa i;
          (registered, matches) = NKeyExistsInTenant st tid sid' nkey
      in if registered \<and> matches then (st, 200, True)
         else if \<not> registered then (fst (RejectNKey st tid sid' nkey), 200, True)
         else put_suffixed left (Suc i) st tid sid nkey)"

definition PutNKey ::
  "(string \<Rightarrow> bool) \<Rightarrow> pki_state \<Rightarrow> string \<Rightarrow> string \<Rightarrow> pki_state \<times> nat \<times> bool" where
  "PutNKey IsValidPublicUserKey st sid nkey =
     (if \<not> IsValidSproutID sid \<or> Contains sid ''_'' then (st, 400, False)
      else if \<not> IsValidPublicUserKey nkey then (st, 400, False)
      else let tid = currentTenantID st;
               (registered, matches) = NKeyExistsInTenant st tid sid nkey
           in if registered \<and> matches then (st, 200, True)
              else if \<not> registered then (fst (UnacceptNKey st tid sid nkey), 200, True)
              else put_suffixed 99 1 st tid sid nkey)"

section \<open>The tenant registry\<close>

definition getTenantRow :: "pki_state \<Rightarrow> string \<Rightarrow> pki_error + tenantRow" where
  "getTenantRow st tid =
     (case tbl_first (pki_tenants st) tid of
        Found row \<Rightarrow> Inr row | NotFound \<Rightarrow> Inl ErrTenantNotFound | DbErr \<Rightarrow> Inl PkiDbError)"

text \<open>On conflict only the name and the deleted flag are assigned.\<close>

definition upsertTenantRow :: "pki_state \<Rightarrow> string \<Rightarrow> tenantRow \<Rightarrow> pki_state \<times> pki_error option" where
  "upsertTenantRow st tid row =
     (if \<not> tbl_up (pki_tenants st) then (st, Some PkiDbError)
      else let row' = (case tbl_get (pki_tenants st) tid of
                         None \<Rightarrow> row
                       | Some old \<Rightarrow> old\<lparr>tn_Name := tn_Name row, tn_Deleted := tn_Deleted row\<rparr>)
           in (st\<lparr>pki_tenants := tbl_put (pki_tenants st) tid row'\<rparr>, None))"

definition update_tenant :: "pki_state \<Rightarrow> string \<Rightarrow> (tenantRow \<Rightarrow> tenantRow) \<Rightarrow> pki_state \<times> pki_error option" where
  "update_tenant st tid f =
     (if \<not> tbl_up (pki_tenants st) then (st, Some PkiDbError)
      else case tbl_get (pki_tenants st) tid of
             None \<Rightarrow> (st, None)
           | Some row \<Rightarrow> (st\<lparr>pki_tenants := tbl_put (pki_tenants st) tid (f row)\<rparr>, None))"

definition markTenantDeleted :: "pki_state \<Rightarrow> string \<Rightarrow> pki_state \<times> pki_error option" where
  "markTenantDeleted st tid = update_tenant st tid (\<lambda>row. row\<lparr>tn_Deleted := True\<rparr>)"

definition setTenantAccountPub :: "pki_state \<Rightarrow> string \<Rightarrow> string \<Rightarrow> pki_state \<times> pki_error option" where
  "setTenantAccountPub st tid pub = update_tenant st tid (\<lambda>row. row\<lparr>tn_AccountPub := pub\<rparr>)"

definition ListProvisionedTenantIDs :: "pki_state \<Rightarrow> pki_error + string list" where
  "ListProvisionedTenantIDs st =
     (if \<not> tbl_up (pki_tenants st) then Inl PkiDbError
      else Inr (map fst (tbl_find (pki_tenants st) (\<lambda>tid row. \<not> tn_Deleted row))))"

text \<open>\<open>legacyPub\<close> is the current tenant's account key, when its material can be loaded.\<close>

definition TenantIDForAccountPub :: "string option \<Rightarrow> pki_state \<Rightarrow> string \<Rightarrow> pki_error + string" where
  "TenantIDForAccountPub legacyPub st accountPub =
     (if accountPub = [] then Inl ErrTenantNotFound
      else if legacyPub = Some accountPub then Inr (currentTenantID st)
      else case tbl_find (pki_tenants st) (\<lambda>tid row. tn_AccountPub row = accountPub \<and> \<not> tn_Deleted row) of
             [] \<Rightarrow> Inl ErrTenantNotFound | (tid, row) # _ \<Rightarrow> Inr tid)"

definition GetTenantAccountPub :: "string option \<Rightarrow> pki_state \<Rightarrow> string \<Rightarrow> pki_error + string" where
  "GetTenantAccountPub legacyPub st tid =
     (if tid = currentTenantID st \<and> legacyPub \<noteq> None then Inr (the legacyPub)
      else case getTenantRow st tid of
             Inl _ \<Rightarrow> Inl ErrTenantNotFound
           | Inr row \<Rightarrow> if tn_AccountPub row = [] then Inl ErrTenantNotFound else Inr (tn_AccountPub row))"

section \<open>The ownership check\<close>

text \<open>
  \<open>VerifySproutInTenant\<close> with both queries as parameters: a query returns a row
  with its own key, which under a case-insensitive collation need not be the
  key that was asked for.
\<close>

definition VerifySproutInTenant ::
  "(string \<Rightarrow> (string \<times> tenantRow) qres) \<Rightarrow> (string \<Rightarrow> string \<Rightarrow> ((string \<times> string) \<times> nkeyRow) qres) \<Rightarrow>
   string \<Rightarrow> string \<Rightarrow> string \<Rightarrow> pki_error option" where
  "VerifySproutInTenant tenantQuery nkeyQuery current tid sid =
     (if \<not> IsValidTenantID tid then Some ErrTenantIDInvalid
      else if \<not> IsValidSproutID sid then Some ErrSproutIDInvalid
      else case (if tid \<noteq> current then
                   (case tenantQuery tid of
                      DbErr \<Rightarrow> Some PkiDbError
                    | NotFound \<Rightarrow> Some ErrTenantNotFound
                    | Found (rid, trow) \<Rightarrow>
                        if tn_Deleted trow \<or> rid \<noteq> tid then Some ErrTenantNotFound else None)
                 else None) of
             Some err \<Rightarrow> Some err
           | None \<Rightarrow>
               (case nkeyQuery tid sid of
                  DbErr \<Rightarrow> Some PkiDbError
                | NotFound \<Rightarrow> Some ErrSproutIDNotFound
                | Found ((rtid, rsid), row) \<Rightarrow>
                    if rtid \<noteq> tid \<or> rsid \<noteq> sid \<or> nk_State row \<noteq> stateAccepted
                    then Some ErrSproutIDNotFound else None))"

text \<open>The queries of the model's own tables, which compare keys exactly.\<close>

definition tenant_query :: "pki_state \<Rightarrow> string \<Rightarrow> (string \<times> tenantRow) qres" where
  "tenant_query st tid =
     (case tbl_first (pki_tenants st) tid of
        Found row \<Rightarrow> Found (tid, row) | NotFound \<Rightarrow> NotFound | DbErr \<Rightarrow> DbErr)"

definition nkey_query :: "pki_state \<Rightarrow> string \<Rightarrow> string \<Rightarrow> ((string \<times> string) \<times> nkeyRow) qres" where
  "nkey_query st tid sid =
     (case tbl_first (pki_nkeys st) (tid, sid) of
        Found row \<Rightarrow> Found ((tid, sid), row) | NotFound \<Rightarrow> NotFound | DbErr \<Rightarrow> DbErr)"

section \<open>The lifecycle as an abstract machine\<close>

text \<open>
  The specification: a partial map from tenant and sprout to key and state, and
  what each administrator operation does to it; \<^term>\<open>None\<close> is a refusal.
\<close>

type_synonym nkey_map = "string \<times> string \<Rightarrow> nkeyRow option"

datatype lifecycle_op = OpAccept | OpDeny | OpReject | OpUnaccept | OpDelete

definition move_state :: "string \<Rightarrow> string \<times> string \<Rightarrow> nkey_map \<Rightarrow> nkey_map option" where
  "move_state target k m =
     (case m k of
        None \<Rightarrow> None
      | Some row \<Rightarrow> if nk_State row = target then None else Some (m(k \<mapsto> row\<lparr>nk_State := target\<rparr>)))"

fun spec_op :: "lifecycle_op \<Rightarrow> string \<Rightarrow> string \<Rightarrow> nkey_map \<Rightarrow> nkey_map option" where
  "spec_op OpAccept tid sid m =
     (if \<not> IsValidSproutID (base_of sid) \<or> \<not> IsValidSproutID sid then None
      else case m (tid, sid) of
             None \<Rightarrow> None
           | Some row \<Rightarrow>
               if sid = base_of sid \<and> nk_State row = stateAccepted then None
               else Some (m((tid, sid) := None, (tid, base_of sid) \<mapsto>
                      \<lparr>nk_NKey = nk_NKey row, nk_State = stateAccepted\<rparr>)))"
| "spec_op OpDeny tid sid m = (if IsValidSproutID sid then move_state stateDenied (tid, sid) m else None)"
| "spec_op OpReject tid sid m = (if IsValidSproutID sid then move_state stateRejected (tid, sid) m else None)"
| "spec_op OpUnaccept tid sid m =
     (if IsValidSproutID sid then move_state stateUnaccepted (tid, sid) m else None)"
| "spec_op OpDelete tid sid m =
     (if IsValidSproutID sid \<and> m (tid, sid) \<noteq> None then Some (m((tid, sid) := None)) else None)"

text \<open>The operations the API handlers call.\<close>

fun run_op :: "lifecycle_op \<Rightarrow> pki_state \<Rightarrow> string \<Rightarrow> string \<Rightarrow> pki_state \<times> pki_error option" where
  "run_op OpAccept st tid sid = AcceptNKey st tid sid"
| "run_op OpDeny st tid sid = DenyNKey st tid sid"
| "run_op OpReject st tid sid = RejectNKey st tid sid []"
| "run_op OpUnaccept st tid sid = UnacceptNKey st tid sid []"
| "run_op OpDelete st tid sid = DeleteNKey st tid sid"

definition nkeys_of :: "pki_state \<Rightarrow> nkey_map" where
  "nkeys_of st = tbl_get (pki_nkeys st)"

definition nkeys_ok :: "pki_state \<Rightarrow> bool" where
  "nkeys_ok st = tbl_ok (pki_nkeys st)"

text \<open>What it means that an operation implements its specification.\<close>

definition implements ::
  "pki_state \<Rightarrow> nkey_map option \<Rightarrow> pki_state \<times> pki_error option \<Rightarrow> bool" where
  "implements st spec res =
     (nkeys_ok (fst res) \<and>
      (case spec of
         None \<Rightarrow> snd res \<noteq> None \<and> nkeys_of (fst res) = nkeys_of st
       | Some m \<Rightarrow> snd res = None \<and> nkeys_of (fst res) = m))"

lemma reloadNKeysFor_simps [simp]:
  "pki_nkeys (reloadNKeysFor tid st) = pki_nkeys st"
  "pki_tenants (reloadNKeysFor tid st) = pki_tenants st"
  "pki_org (reloadNKeysFor tid st) = pki_org st"
  "nkeys_of (reloadNKeysFor tid st) = nkeys_of st"
  "nkeys_ok (reloadNKeysFor tid st) = nkeys_ok st"
  by (simp_all add: reloadNKeysFor_def nkeys_of_def nkeys_ok_def)

lemma implements_with_reload [simp]: "implements st spec (with_reload tid res) = implements st spec res"
  by (cases spec) (simp_all add: implements_def with_reload_def)

lemma nkeys_put:
  assumes "nkeys_ok st"
  shows "nkeys_ok (st\<lparr>pki_nkeys := tbl_put (pki_nkeys st) k row\<rparr>)"
    and "nkeys_of (st\<lparr>pki_nkeys := tbl_put (pki_nkeys st) k row\<rparr>) = (nkeys_of st)(k \<mapsto> row)"
  using assms by (auto simp: nkeys_ok_def nkeys_of_def tbl_get_put)

lemma nkeys_del:
  assumes "nkeys_ok st"
  shows "nkeys_ok (st\<lparr>pki_nkeys := tbl_del (pki_nkeys st) k\<rparr>)"
    and "nkeys_of (st\<lparr>pki_nkeys := tbl_del (pki_nkeys st) k\<rparr>) = (nkeys_of st)(k := None)"
  using assms by (auto simp: nkeys_ok_def nkeys_of_def tbl_get_del)

lemma find_row:
  "nkeys_ok st \<Longrightarrow> findNKeyRowInTenant st tid sid =
     (if \<not> IsValidSproutID sid then Inl ErrSproutIDInvalid
      else case nkeys_of st (tid, sid) of None \<Rightarrow> Inl ErrSproutIDNotFound | Some row \<Rightarrow> Inr row)"
  by (simp add: findNKeyRowInTenant_def nkeys_of_def nkeys_ok_def tbl_okD split: option.splits)

lemma setState_implements:
  assumes "nkeys_ok st" "nkeys_of st (tid, sid) = Some row" "nk_State row \<noteq> target"
  shows "implements st (move_state target (tid, sid) (nkeys_of st)) (setStateInTenant st tid sid target)"
  using assms nkeys_put[OF assms(1)]
  by (auto simp: implements_def move_state_def setStateInTenant_def nkeys_of_def nkeys_ok_def tbl_okD)

lemma DeleteNKey_implements:
  assumes "nkeys_ok st"
  shows "implements st (spec_op OpDelete tid sid (nkeys_of st)) (DeleteNKey st tid sid)"
  using assms nkeys_del[OF assms]
  by (auto simp: DeleteNKey_def implements_def nkeys_ok_def nkeys_of_def tbl_okD with_reload_def)

lemma move_implements:
  assumes "nkeys_ok st"
    and op: "op \<in> {OpDeny, OpReject, OpUnaccept}"
  shows "implements st (spec_op op tid sid (nkeys_of st)) (run_op op st tid sid)"
proof (cases "IsValidSproutID sid")
  case False
  with assms show ?thesis
    by (auto simp: DenyNKey_def RejectNKey_def UnacceptNKey_def implements_def with_reload_def)
next
  case valid: True
  show ?thesis
  proof (cases "nkeys_of st (tid, sid)")
    case None
    with assms valid show ?thesis
      by (auto simp: DenyNKey_def RejectNKey_def UnacceptNKey_def find_row implements_def move_state_def
          with_reload_def)
  next
    case (Some row)
    with assms valid setState_implements[OF assms(1) Some] show ?thesis
      by (auto simp: DenyNKey_def RejectNKey_def UnacceptNKey_def find_row)
        (auto simp: implements_def move_state_def)
  qed
qed

lemma DeleteNKey_state:
  assumes "nkeys_ok st"
  shows "nkeys_ok (fst (DeleteNKey st tid sid))"
    "IsValidSproutID sid \<Longrightarrow> nkeys_of (fst (DeleteNKey st tid sid)) = (nkeys_of st)((tid, sid) := None)"
  using DeleteNKey_implements[OF assms, of tid sid]
  by (auto simp: implements_def split: if_splits)

lemma base_of_eq: "base_of sid = sid \<longleftrightarrow> \<not> has_suffix_part sid"
  by (auto simp: has_suffix_part_def base_of_def takeWhile_eq_all_conv)

lemma AcceptNKey_implements:
  assumes "nkeys_ok st"
  shows "implements st (spec_op OpAccept tid sid (nkeys_of st)) (AcceptNKey st tid sid)"
proof (cases "IsValidSproutID (base_of sid) \<and> IsValidSproutID sid")
  case False
  with assms show ?thesis by (auto simp: AcceptNKey_def AcceptNKey_tx_def implements_def find_row Let_def with_reload_def)
next
  case valid: True
  show ?thesis
  proof (cases "nkeys_of st (tid, sid)")
    case None
    with assms valid show ?thesis
      by (auto simp: AcceptNKey_def AcceptNKey_tx_def implements_def find_row Let_def with_reload_def)
  next
    case (Some row)
    define st1 where "st1 = (if has_suffix_part sid then fst (DeleteNKey st tid (base_of sid)) else st)"
    have ok1: "nkeys_ok st1" using assms by (simp add: st1_def DeleteNKey_state)
    have of1: "nkeys_of st1 k = nkeys_of st k" if "k \<noteq> (tid, base_of sid)" for k
      using assms valid that by (simp add: st1_def DeleteNKey_state)
    have base: "\<not> has_suffix_part sid \<longleftrightarrow> sid = base_of sid" using base_of_eq[of sid] by metis
    let ?row = "\<lparr>nk_NKey = nk_NKey row, nk_State = stateAccepted\<rparr>"
    let ?st2 = "st1\<lparr>pki_nkeys := tbl_put (tbl_del (pki_nkeys st1) (tid, sid)) (tid, base_of sid) ?row\<rparr>"
    have up: "tbl_up (pki_nkeys st)" using assms by (simp add: nkeys_ok_def tbl_okD)
    have st2ok: "nkeys_ok ?st2" using ok1 by (simp add: nkeys_ok_def)
    have "nkeys_of ?st2 k = (if k = (tid, base_of sid) then Some ?row
        else if k = (tid, sid) then None else nkeys_of st1 k)" for k
      using ok1 by (simp add: nkeys_of_def nkeys_ok_def tbl_get_put tbl_get_del)
    then have st2: "nkeys_of ?st2 = (nkeys_of st)((tid, sid) := None, (tid, base_of sid) \<mapsto> ?row)"
      using of1 by (intro ext) simp
    show ?thesis
    proof (cases "sid = base_of sid \<and> nk_State row = stateAccepted")
      case True
      with base have "\<not> has_suffix_part sid" by blast
      with True assms valid Some show ?thesis
        by (simp add: AcceptNKey_def AcceptNKey_tx_def find_row Let_def implements_def with_reload_def)
    next
      case False
      then have "AcceptNKey st tid sid = with_reload tid (?st2, None)"
        using assms valid Some up by (auto simp: AcceptNKey_def AcceptNKey_tx_def find_row Let_def st1_def[symmetric])
      with False valid Some st2 st2ok show ?thesis by (simp add: implements_def with_reload_def)
    qed
  qed
qed

text \<open>
  When the database fails between the two statements, accepting a suffixed submission reports
  an error and yet has deleted the key that held the base ID.
\<close>

theorem failed_accept_deletes_base:
  assumes "nkeys_ok st" "IsValidSproutID (base_of sid)" "IsValidSproutID sid" "has_suffix_part sid" "nkeys_of st (tid, sid) = Some row"
  shows "snd (AcceptNKey_tx False st tid sid) = Some PkiDbError \<and>
    nkeys_of (fst (AcceptNKey_tx False st tid sid)) = (nkeys_of st)((tid, base_of sid) := None)"
proof -
  have "sid \<noteq> base_of sid" using assms(4) base_of_eq[of sid] by metis
  moreover have "nkeys_of (fst (with_reload tid (fst (DeleteNKey st tid (base_of sid)), Some PkiDbError))) = (nkeys_of st)((tid, base_of sid) := None)"
    using DeleteNKey_state(2)[OF assms(1,2), of tid] by (simp add: with_reload_def nkeys_of_def reloadNKeysFor_def Let_def)
  ultimately show ?thesis using assms by (simp add: AcceptNKey_tx_def find_row Let_def with_reload_def)
qed

lemma run_op_implements:
  "nkeys_ok st \<Longrightarrow> implements st (spec_op op tid sid (nkeys_of st)) (run_op op st tid sid)"
proof (cases op)
  case OpAccept
  assume "nkeys_ok st"
  with OpAccept show ?thesis by (simp add: AcceptNKey_implements del: spec_op.simps)
next
  case OpDelete
  assume "nkeys_ok st"
  with OpDelete show ?thesis by (simp add: DeleteNKey_implements del: spec_op.simps)
qed (simp_all only: move_implements insert_iff simp_thms)



definition pki_demo :: pki_state where
  "pki_demo = \<lparr>pki_org = ''acme'',
     pki_nkeys = \<lparr>tbl_rows = [((''acme'', ''web''), \<lparr>nk_NKey = ''UOLD'', nk_State = ''accepted''\<rparr>),
       ((''acme'', ''web_1''), \<lparr>nk_NKey = ''UNEW'', nk_State = ''rejected''\<rparr>)], tbl_up = True\<rparr>,
     pki_tenants = \<lparr>tbl_rows = [(''t_1'', \<lparr>tn_Name = ''one'', tn_Deleted = True, tn_CreatedAt = 0,
       tn_AccountPub = ''ACC1''\<rparr>)], tbl_up = True\<rparr>,
     pki_reloads = []\<rparr>"

lemma pki_demo_ok: "tbl_ok (pki_nkeys pki_demo)" "tbl_ok (pki_tenants pki_demo)"
  by (simp_all add: pki_demo_def tbl_ok_def tbl_wf_def)

lemma pki_demo_ids: "IsValidSproutID ''web''" "IsValidSproutID ''web_1''"
  by code_simp+


section \<open>Reachable key tables\<close>

text \<open>
  The steps of the running farmer on the key table: administrator calls and
  bootstrap submissions, whose NKey check rejects the empty string.
\<close>

inductive pki_step :: "pki_state \<Rightarrow> pki_state \<Rightarrow> bool" where
  admin: "run_op op st tid sid = (st', err) \<Longrightarrow> pki_step st st'"
| bootstrap: "\<not> valid [] \<Longrightarrow> PutNKey valid st sid nkey = (st', code, ok) \<Longrightarrow> pki_step st st'"

inductive_cases pki_stepE: "pki_step st st'"

definition known_state :: "string \<Rightarrow> bool" where
  "known_state s = (s \<in> {stateUnaccepted, stateAccepted, stateDenied, stateRejected})"

lemma known_states [simp]:
  "known_state stateUnaccepted" "known_state stateAccepted" "known_state stateDenied" "known_state stateRejected"
  by (simp_all add: known_state_def)

lemma state_neq: "stateUnaccepted \<noteq> stateAccepted" "stateRejected \<noteq> stateAccepted"
  by (simp_all add: pki_states)

definition rows_ok :: "nkey_map \<Rightarrow> bool" where
  "rows_ok m = (\<forall>k row. m k = Some row \<longrightarrow> IsValidSproutID (snd k) \<and> known_state (nk_State row))"

lemma rows_ok_put: "rows_ok m \<Longrightarrow> IsValidSproutID (snd k) \<Longrightarrow> known_state (nk_State row) \<Longrightarrow> rows_ok (m(k \<mapsto> row))"
  by (cases k) (auto simp: rows_ok_def)

lemma rows_ok_del: "rows_ok m \<Longrightarrow> rows_ok (m(k := None))"
  by (simp add: rows_ok_def)

definition pki_inv :: "pki_state \<Rightarrow> bool" where
  "pki_inv st = (nkeys_ok st \<and> rows_ok (nkeys_of st))"

lemma spec_op_inv:
  assumes "rows_ok m" "spec_op op tid sid m = Some m'"
  shows "rows_ok m'"
  using assms
  by (cases op)
    (auto simp: move_state_def intro!: rows_ok_put rows_ok_del split: if_splits option.splits)

lemma run_op_inv: "pki_inv st \<Longrightarrow> pki_inv (fst (run_op op st tid sid))"
  using run_op_implements[of st op tid sid] spec_op_inv[of "nkeys_of st" op tid sid]
  unfolding pki_inv_def implements_def
  by (cases "spec_op op tid sid (nkeys_of st)") (simp_all del: spec_op.simps run_op.simps)

text \<open>A key submitted for an unknown sprout is stored as a new row; nothing else changes.\<close>

lemma submit_new:
  assumes "nkeys_ok st" "nkeys_of st (tid, sid) = None" "nkey \<noteq> []" "IsValidSproutID sid"
  shows "nkeys_ok (fst (UnacceptNKey st tid sid nkey))"
    "nkeys_of (fst (UnacceptNKey st tid sid nkey)) =
       (nkeys_of st)((tid, sid) \<mapsto> \<lparr>nk_NKey = nkey, nk_State = stateUnaccepted\<rparr>)"
    "nkeys_ok (fst (RejectNKey st tid sid nkey))"
    "nkeys_of (fst (RejectNKey st tid sid nkey)) =
       (nkeys_of st)((tid, sid) \<mapsto> \<lparr>nk_NKey = nkey, nk_State = stateRejected\<rparr>)"
proof -
  have up: "tbl_up (pki_nkeys st)" using assms(1) by (simp add: nkeys_ok_def tbl_okD)
  have put: "upsertNKeyRow st tid sid row = (st\<lparr>pki_nkeys := tbl_put (pki_nkeys st) (tid, sid) row\<rparr>, None)" for row
    using up by (simp add: upsertNKeyRow_def tbl_upsert_def tbl_put_def)
  show "nkeys_ok (fst (UnacceptNKey st tid sid nkey))"
    "nkeys_of (fst (UnacceptNKey st tid sid nkey)) =
       (nkeys_of st)((tid, sid) \<mapsto> \<lparr>nk_NKey = nkey, nk_State = stateUnaccepted\<rparr>)"
    "nkeys_ok (fst (RejectNKey st tid sid nkey))"
    "nkeys_of (fst (RejectNKey st tid sid nkey)) =
       (nkeys_of st)((tid, sid) \<mapsto> \<lparr>nk_NKey = nkey, nk_State = stateRejected\<rparr>)"
    using assms by (simp_all add: UnacceptNKey_def RejectNKey_def find_row put with_reload_def nkeys_put)
qed

text \<open>A submission is refused for an identifier that is too long to be valid.\<close>

lemma submit_invalid:
  "\<not> IsValidSproutID sid \<Longrightarrow> nkeys_of (fst (RejectNKey st tid sid nkey)) = nkeys_of st \<and>
     nkeys_ok (fst (RejectNKey st tid sid nkey)) = nkeys_ok st"
  by (simp add: RejectNKey_def with_reload_def)

definition only_adds :: "pki_state \<Rightarrow> pki_state \<Rightarrow> bool" where
  "only_adds st st' = (nkeys_ok st' \<and>
     (nkeys_of st' = nkeys_of st \<or>
      (\<exists>tid sid row. nkeys_of st (tid, sid) = None \<and> IsValidSproutID sid \<and> known_state (nk_State row) \<and>
         nk_State row \<noteq> stateAccepted \<and> nkeys_of st' = (nkeys_of st)((tid, sid) \<mapsto> row))))"

lemma only_addsI:
  assumes "nkeys_ok st'" "nkeys_of st' = (nkeys_of st)((tid, sid) \<mapsto> row)"
    and "nkeys_of st (tid, sid) = None" "IsValidSproutID sid" "known_state (nk_State row)"
    and "nk_State row \<noteq> stateAccepted"
  shows "only_adds st st'"
  using assms unfolding only_adds_def by blast

lemma NKeyExists_unregistered:
  "nkeys_ok st \<Longrightarrow> NKeyExistsInTenant st tid sid nkey = (False, m) \<Longrightarrow>
     \<not> IsValidSproutID sid \<or> nkeys_of st (tid, sid) = None"
  by (auto simp: NKeyExistsInTenant_def find_row split: if_splits option.splits)

lemma put_suffixed_only_adds:
  "nkeys_ok st \<Longrightarrow> nkey \<noteq> [] \<Longrightarrow> only_adds st (fst (put_suffixed left i st tid sid nkey))"
proof (induction left arbitrary: i)
  case 0
  then show ?case by (simp add: only_adds_def)
next
  case (Suc left)
  let ?sid = "sid @ ''_'' @ itoa i"
  obtain registered matches where ex: "NKeyExistsInTenant st tid ?sid nkey = (registered, matches)" by fastforce
  show ?case
  proof (cases registered)
    case True
    with ex Suc show ?thesis by (simp add: only_adds_def Let_def del: append_Cons append_Nil)
  next
    case False
    with ex have "NKeyExistsInTenant st tid ?sid nkey = (False, matches)" by simp
    note unreg = NKeyExists_unregistered[OF Suc.prems(1) this]
    have "only_adds st (fst (RejectNKey st tid ?sid nkey))"
    proof (cases "IsValidSproutID ?sid")
      case invalid: False
      with submit_invalid[OF invalid] Suc.prems show ?thesis by (simp add: only_adds_def)
    next
      case valid: True
      with unreg have none: "nkeys_of st (tid, ?sid) = None" by simp
      note new = submit_new(3,4)[OF Suc.prems(1) none Suc.prems(2) valid]
      show ?thesis
        by (rule only_addsI[OF new none valid]) (simp_all add: state_neq)
    qed
    with False ex show ?thesis by (simp add: Let_def del: append_Cons append_Nil)
  qed
qed

lemma PutNKey_only_adds:
  assumes "nkeys_ok st" "\<not> valid []"
  shows "only_adds st (fst (PutNKey valid st sid nkey))"
proof (cases "IsValidSproutID sid \<and> \<not> Contains sid ''_'' \<and> valid nkey")
  case False
  with assms(1) show ?thesis by (auto simp: PutNKey_def only_adds_def)
next
  case True
  then have nk: "nkey \<noteq> []" using assms(2) by auto
  obtain registered matches where
    ex: "NKeyExistsInTenant st (currentTenantID st) sid nkey = (registered, matches)" by fastforce
  show ?thesis
  proof (cases registered)
    case reg: True
    with True ex assms(1) put_suffixed_only_adds[OF assms(1) nk] show ?thesis
      by (auto simp: PutNKey_def Let_def only_adds_def)
  next
    case False
    with ex have "NKeyExistsInTenant st (currentTenantID st) sid nkey = (False, matches)" by simp
    from NKeyExists_unregistered[OF assms(1) this] True
    have none: "nkeys_of st (currentTenantID st, sid) = None" by blast
    from True have valid: "IsValidSproutID sid" by simp
    note new = submit_new(1,2)[OF assms(1) none nk valid]
    have "only_adds st (fst (UnacceptNKey st (currentTenantID st) sid nkey))"
      by (rule only_addsI[OF new none valid]) (simp_all add: state_neq)
    with False True ex show ?thesis by (simp add: PutNKey_def Let_def)
  qed
qed

text \<open>
  The bootstrap endpoint is first come, first served: on a working
  database a submission never changes or removes a stored key of any tenant and
  never creates an accepted one; at most it adds one new valid sprout ID.
\<close>

theorem PutNKey_never_overwrites:
  assumes "tbl_ok (pki_nkeys st)" "\<not> IsValidPublicUserKey []"
    and "PutNKey IsValidPublicUserKey st sid nkey = (st', code, ok)"
    and "tbl_get (pki_nkeys st') k \<noteq> tbl_get (pki_nkeys st) k"
  shows "tbl_get (pki_nkeys st) k = None \<and>
    (\<exists>row. tbl_get (pki_nkeys st') k = Some row \<and> nk_State row \<noteq> stateAccepted \<and>
       IsValidSproutID (snd k))"
  using PutNKey_only_adds[of st IsValidPublicUserKey sid nkey] assms
  by (auto simp: only_adds_def nkeys_of_def nkeys_ok_def split: if_splits)

theorem PutNKey_never_overwrites_witness:
  "\<exists>st' code ok. PutNKey (\<lambda>k. k \<noteq> []) pki_demo ''web'' ''UEVIL'' = (st', code, ok) \<and>
     tbl_get (pki_nkeys st') (''acme'', ''web_2'') = Some \<lparr>nk_NKey = ''UEVIL'', nk_State = ''rejected''\<rparr> \<and>
     tbl_get (pki_nkeys pki_demo) (''acme'', ''web_2'') = None \<and> IsValidSproutID ''web_2''"
proof -
  obtain st' code ok where put: "PutNKey (\<lambda>k. k \<noteq> []) pki_demo ''web'' ''UEVIL'' = (st', code, ok)"
    by (metis prod_cases3)
  have new: "tbl_get (pki_nkeys (fst (PutNKey (\<lambda>k. k \<noteq> []) pki_demo ''web'' ''UEVIL''))) (''acme'', ''web_2'') =
      Some \<lparr>nk_NKey = ''UEVIL'', nk_State = ''rejected''\<rparr>"
    by code_simp
  have old: "tbl_get (pki_nkeys pki_demo) (''acme'', ''web_2'') = None"
    by (simp add: pki_demo_def tbl_get_def)
  have "IsValidSproutID (snd (''acme'', ''web_2''))"
    using PutNKey_never_overwrites[OF pki_demo_ok(1) _ put, of "(''acme'', ''web_2'')"] new old put by simp
  with new old put show ?thesis by simp
qed

lemma only_adds_inv: "only_adds st st' \<Longrightarrow> pki_inv st \<Longrightarrow> pki_inv st'"
  by (auto simp: only_adds_def pki_inv_def intro!: rows_ok_put)

lemma pki_step_inv: "pki_step st st' \<Longrightarrow> pki_inv st \<Longrightarrow> pki_inv st'"
proof (induction rule: pki_step.induct)
  case (admin op st tid sid st' err)
  with run_op_inv[of st op tid sid] show ?case by simp
next
  case (bootstrap valid st sid nkey st' code ok)
  then have "only_adds st st'" using PutNKey_only_adds[of st valid sid nkey] by (simp add: pki_inv_def)
  with bootstrap show ?case by (blast intro: only_adds_inv)
qed

lemma pki_reachable_inv: "pki_step\<^sup>*\<^sup>* st st' \<Longrightarrow> pki_inv st \<Longrightarrow> pki_inv st'"
  by (induction rule: rtranclp_induct) (auto intro: pki_step_inv)

lemma by_type_mem:
  assumes "nkeys_ok st" "known_state ks"
  shows "sid \<in> set (getNKeysByTypeForTenant st tid ks) \<longleftrightarrow>
    (\<exists>row. nkeys_of st (tid, sid) = Some row \<and> nk_State row = ks)"
proof -
  define rows where "rows = tbl_find (pki_nkeys st) (\<lambda>(t, s) row. t = tid \<and> nk_State row = ks)"
  have mem: "((t, s), row) \<in> set rows \<longleftrightarrow> nkeys_of st (t, s) = Some row \<and> t = tid \<and> nk_State row = ks" for t s row
    using assms(1) by (simp add: rows_def tbl_find_get nkeys_ok_def nkeys_of_def tbl_okD)
  have "getNKeysByTypeForTenant st tid ks = map (\<lambda>((t, s), row). s) rows"
    using assms(2) by (auto simp: getNKeysByTypeForTenant_def known_state_def rows_def)
  moreover have "sid \<in> set (map (\<lambda>((t, s), row). s) rows) \<longleftrightarrow> (\<exists>t row. ((t, sid), row) \<in> set rows)"
    by (auto simp: image_iff) (metis case_prod_conv)
  ultimately show ?thesis by (auto simp: mem)
qed

text \<open>
  Starting from an empty or valid key table, after any sequence of
  administrator calls and bootstrap submissions every stored sprout ID is a
  valid one and every sprout of a tenant is in exactly one of the four lists of
  the PKI listing, which together list nothing else.
\<close>

theorem pki_listing_partitions:
  assumes "pki_step\<^sup>*\<^sup>* st st'" "pki_inv st"
  shows "(tbl_get (pki_nkeys st') (tid, sid) \<noteq> None) =
      (sid \<in> set (Accepted (ListNKeysByType st' tid)) \<union> set (Denied (ListNKeysByType st' tid)) \<union>
        set (Rejected (ListNKeysByType st' tid)) \<union> set (Unaccepted (ListNKeysByType st' tid))) \<and>
    (sid \<in> set (Accepted (ListNKeysByType st' tid)) \<longrightarrow>
       IsValidSproutID sid \<and>
       sid \<notin> set (Denied (ListNKeysByType st' tid)) \<union> set (Rejected (ListNKeysByType st' tid)) \<union>
         set (Unaccepted (ListNKeysByType st' tid)))"
proof -
  have inv: "pki_inv st'" using pki_reachable_inv[OF assms] .
  then have ok: "nkeys_ok st'" and rows: "rows_ok (nkeys_of st')" by (simp_all add: pki_inv_def)
  have mem: "sid \<in> set (getNKeysByTypeForTenant st' tid ks) \<longleftrightarrow>
      (\<exists>row. nkeys_of st' (tid, sid) = Some row \<and> nk_State row = ks)" if "known_state ks" for ks
    using by_type_mem[OF ok that] .
  show ?thesis
  proof (cases "nkeys_of st' (tid, sid)")
    case None
    then show ?thesis
      by (simp add: ListNKeysByType_def mem[unfolded pki_states] known_states[unfolded pki_states] nkeys_of_def[symmetric])
  next
    case (Some row)
    then have "known_state (nk_State row)" "IsValidSproutID sid" using rows by (auto simp: rows_ok_def)
    with Some show ?thesis
      by (auto simp: ListNKeysByType_def mem[unfolded pki_states] known_states[unfolded pki_states]
          nkeys_of_def[symmetric] known_state_def pki_states)
  qed
qed

lemma pki_demo_inv: "pki_inv pki_demo"
proof -
  have "rows_ok (nkeys_of pki_demo)"
    using pki_demo_ids
    by (auto simp: rows_ok_def nkeys_of_def pki_demo_def tbl_get_def known_state_def pki_states split: if_splits)
  then show ?thesis using pki_demo_ok by (simp add: pki_inv_def nkeys_ok_def)
qed

theorem pki_listing_partitions_witness:
  "\<exists>st'. pki_step\<^sup>*\<^sup>* pki_demo st' \<and> ''web'' \<in> set (Denied (ListNKeysByType st' ''acme'')) \<and>
     ''web'' \<notin> set (Accepted (ListNKeysByType st' ''acme''))"
proof -
  obtain st' err where run: "run_op OpDeny pki_demo ''acme'' ''web'' = (st', err)" by fastforce
  then have step: "pki_step\<^sup>*\<^sup>* pki_demo st'" by (blast intro: pki_step.admin)
  have "''web'' \<in> set (Denied (ListNKeysByType (fst (run_op OpDeny pki_demo ''acme'' ''web'')) ''acme''))"
    by code_simp
  with pki_listing_partitions[OF step pki_demo_inv, of "''acme''" "''web''"] run step show ?thesis by auto
qed

section \<open>The ownership check\<close>

text \<open>
  The point-of-effect check lets an action through only for an
  accepted sprout whose own row carries the asserted tenant and sprout ID, and
  only for a live tenant, whatever rows a collation-insensitive query returns;
  a failing query is never taken for permission.
\<close>

theorem VerifySproutInTenant_sound:
  assumes "VerifySproutInTenant tenantQuery nkeyQuery current tid sid = None"
  shows "\<exists>row. nkeyQuery tid sid = Found ((tid, sid), row) \<and> nk_State row = stateAccepted \<and>
    (tid = current \<or> (\<exists>trow. tenantQuery tid = Found (tid, trow) \<and> \<not> tn_Deleted trow)) \<and>
    IsValidTenantID tid \<and> IsValidSproutID sid"
  using assms
  by (auto simp: VerifySproutInTenant_def split: if_splits qres.splits prod.splits option.splits)

theorem VerifySproutInTenant_sound_witness:
  "\<exists>row. nkey_query pki_demo ''acme'' ''web'' = Found ((''acme'', ''web''), row) \<and> nk_State row = stateAccepted"
proof -
  have "VerifySproutInTenant (tenant_query pki_demo) (nkey_query pki_demo) ''acme'' ''acme'' ''web'' = None"
    by code_simp
  from VerifySproutInTenant_sound[OF this] show ?thesis by blast
qed

end
