(* ===== verification/Go_Json.thy ===== *)
theory Go_Json
  imports Grlx_Prelude
begin

text \<open>
  The part of \<open>encoding/json\<close> the request handlers use: decoding a request
  body into a struct.  A body is empty, malformed, or a document; decoding
  validates the syntax first, matches field names without regard to (ASCII)
  case, lets a later occurrence of a field overwrite an earlier one, leaves the
  target alone on \<open>null\<close>, and on a type mismatch keeps decoding and reports the
  error at the end.  A decoder returns the decoded value with the error flag,
  because several handlers ignore the error and use the value.
\<close>

datatype raw = RawEmpty | RawBad | RawDoc val

definition raw_len_pos :: "raw \<Rightarrow> bool" where
  "raw_len_pos params = (params \<noteq> RawEmpty)"

text \<open>One decoder per Go type: the value found, the current target, the new target and the error flag.\<close>

type_synonym 'a dec = "val \<Rightarrow> 'a \<Rightarrow> 'a \<times> bool"

definition dec_str :: "string dec" where
  "dec_str v a = (case v of VStr s \<Rightarrow> (s, False) | VNull \<Rightarrow> (a, False) | _ \<Rightarrow> (a, True))"

definition dec_bool :: "bool dec" where
  "dec_bool v a = (case v of VBool b \<Rightarrow> (b, False) | VNull \<Rightarrow> (a, False) | _ \<Rightarrow> (a, True))"

text \<open>A 64-bit integer; a number out of range is a type error.\<close>

definition dec_int :: "int dec" where
  "dec_int v a = (case v of
       VNum i \<Rightarrow> if - (2 ^ 63) \<le> i \<and> i < 2 ^ 63 then (i, False) else (a, True)
     | VNull \<Rightarrow> (a, False) | _ \<Rightarrow> (a, True))"

text \<open>A field of type \<open>any\<close> takes whatever the document holds.\<close>

definition dec_any :: "val dec" where
  "dec_any v a = (v, False)"

definition dec_field :: "'a dec \<Rightarrow> string \<Rightarrow> (string \<times> val) list \<Rightarrow> 'a \<Rightarrow> 'a \<times> bool" where
  "dec_field dec name kvs zero =
     foldl (\<lambda>(a, e) (k, v). if ToLower k = ToLower name
              then (let (a', e') = dec v a in (a', e \<or> e')) else (a, e)) (zero, False) kvs"

text \<open>
  A slice of structs with one string field: a fresh zero element per entry.  An
  object is taken to name a slice field at most once.
\<close>

definition dec_elem :: "string \<Rightarrow> val \<Rightarrow> string \<times> bool" where
  "dec_elem name v = (case v of
       VMap kvs \<Rightarrow> dec_field dec_str name kvs []
     | VNull \<Rightarrow> ([], False) | _ \<Rightarrow> ([], True))"

definition dec_structs :: "string \<Rightarrow> string list dec" where
  "dec_structs name v a = (case v of
       VList vs \<Rightarrow> (map (\<lambda>x. fst (dec_elem name x)) vs, list_ex (\<lambda>x. snd (dec_elem name x)) vs)
     | VNull \<Rightarrow> ([], False) | _ \<Rightarrow> (a, True))"

text \<open>The fields of the object a struct is decoded from.\<close>

definition struct_fields :: "val \<Rightarrow> (string \<times> val) list \<times> bool" where
  "struct_fields v = (case v of VMap kvs \<Rightarrow> (kvs, False) | VNull \<Rightarrow> ([], False) | _ \<Rightarrow> ([], True))"

definition raw_fields :: "raw \<Rightarrow> (string \<times> val) list \<times> bool" where
  "raw_fields params =
     (case params of RawEmpty \<Rightarrow> ([], True) | RawBad \<Rightarrow> ([], True) | RawDoc v \<Rightarrow> struct_fields v)"

definition raw_str :: "raw \<Rightarrow> string \<Rightarrow> string \<times> bool" where
  "raw_str params name =
     (let (kvs, e) = raw_fields params; (s, e') = dec_field dec_str name kvs [] in (s, e \<or> e'))"

definition raw_int :: "raw \<Rightarrow> string \<Rightarrow> int \<times> bool" where
  "raw_int params name =
     (let (kvs, e) = raw_fields params; (i, e') = dec_field dec_int name kvs 0 in (i, e \<or> e'))"

text \<open>A struct all of whose fields are strings: the values in order, and the error of the whole.\<close>

definition raw_strs :: "raw \<Rightarrow> string list \<Rightarrow> string list \<times> bool" where
  "raw_strs params names =
     (map (\<lambda>n. fst (raw_str params n)) names, list_ex (\<lambda>n. snd (raw_str params n)) names)"

lemma dec_field_absent:
  "list_all (\<lambda>kv. ToLower (fst kv) \<noteq> ToLower name) kvs \<Longrightarrow> dec_field dec name kvs zero = (zero, False)"
proof (induction kvs)
  case Nil
  then show ?case by (simp add: dec_field_def)
next
  case (Cons kv kvs)
  then show ?case by (cases kv) (simp add: dec_field_def)
qed

lemma raw_str_fields: "raw_str (RawDoc (VMap kvs)) name = dec_field dec_str name kvs []"
  by (simp add: raw_str_def raw_fields_def struct_fields_def split: prod.splits)

text \<open>Two structs that read the same field of one body read the same value.\<close>

lemma raw_strs_err_mono:
  "n \<in> set names \<Longrightarrow> \<not> snd (raw_strs params names) \<Longrightarrow> \<not> snd (raw_str params n)"
  by (auto simp: raw_strs_def list_ex_iff)

end
