(* ===== verification/Go_Path.thy ===== *)
theory Go_Path
  imports Grlx_Prelude
begin

text \<open>
  The part of Go's \<open>path/filepath\<close> (on Unix) the recipe resolution calls: \<open>Clean\<close>,
  \<open>Join\<close> and \<open>Dir\<close>, all lexical.  A path is cleaned component by component; the
  stack holds the components kept so far, the last one first.
\<close>

fun clean_part :: "bool \<Rightarrow> string \<Rightarrow> string list \<Rightarrow> string list" where
  "clean_part rooted c stack =
     (if c = [] \<or> c = ''.'' then stack
      else if c = ''..'' then
        (case stack of
           [] \<Rightarrow> if rooted then [] else [c]
         | w # ws \<Rightarrow> if w = ''..'' then c # stack else ws)
      else c # stack)"

definition is_rooted :: "string \<Rightarrow> bool" where
  "is_rooted path = (case path of [] \<Rightarrow> False | c # cs \<Rightarrow> c = CHR ''/'')"

definition clean_parts :: "string \<Rightarrow> string list" where
  "clean_parts path = rev (fold (clean_part (is_rooted path)) (Split (CHR ''/'') path) [])"

definition Clean :: "string \<Rightarrow> string" where
  "Clean path =
     (let out = (if is_rooted path then ''/'' else []) @ Join (clean_parts path) ''/'' in
      if out = [] then ''.'' else out)"

definition FJoin :: "string list \<Rightarrow> string" where
  "FJoin elems =
     (case dropWhile (\<lambda>e. e = []) elems of [] \<Rightarrow> [] | es \<Rightarrow> Clean (Join es ''/''))"

definition Dir :: "string \<Rightarrow> string" where
  "Dir path = Clean (rev (dropWhile (\<lambda>c. c \<noteq> CHR ''/'') (rev path)))"

section \<open>Cleaning a path\<close>

text \<open>The components of a cleaned path are not empty and hold no separator.\<close>

definition plain_part :: "string \<Rightarrow> bool" where
  "plain_part w = (w \<noteq> [] \<and> CHR ''/'' \<notin> set w)"

lemma clean_fold_plain:
  "\<forall>w \<in> set ws. CHR ''/'' \<notin> set w \<Longrightarrow> \<forall>w \<in> set stack. plain_part w \<Longrightarrow>
   \<forall>w \<in> set (fold (clean_part r) ws stack). plain_part w"
proof (induction ws arbitrary: stack)
  case (Cons w ws)
  have "\<forall>x \<in> set (clean_part r w stack). plain_part x"
    using Cons.prems by (auto simp: plain_part_def split: list.splits)
  with Cons show ?case by simp
qed simp

lemma clean_parts_plain: "w \<in> set (clean_parts path) \<Longrightarrow> plain_part w"
  using clean_fold_plain[of "Split (CHR ''/'') path" "[]" "is_rooted path"] Split_sep_free[of _ "CHR ''/''" path]
  by (auto simp: clean_parts_def)

text \<open>Without dots in the path nothing is dropped but empty components.\<close>

lemma clean_fold_no_dot:
  "\<forall>w \<in> set ws. CHR ''.'' \<notin> set w \<Longrightarrow> fold (clean_part r) ws stack = rev (filter (\<lambda>w. w \<noteq> []) ws) @ stack"
proof (induction ws arbitrary: stack)
  case (Cons w ws)
  then have "clean_part r w stack = (if w = [] then stack else w # stack)" by auto
  with Cons show ?case by simp
qed simp

lemma Split_parts_subset: "w \<in> set (Split sep s) \<Longrightarrow> set w \<subseteq> set s"
proof (induction s arbitrary: w)
  case (Cons c s)
  then show ?case by (fastforce split: if_splits list.splits)
qed simp

lemma Split_snoc_part: "sep \<notin> set t \<Longrightarrow> Split sep (s @ sep # t) = Split sep s @ [t]"
proof (induction s)
  case (Cons c s)
  then show ?case by (cases "Split sep s") auto
qed (simp add: Split_no_sep)

lemma Join_snoc: "ws \<noteq> [] \<Longrightarrow> Join (ws @ [w]) sep = Join ws sep @ sep @ w"
proof (induction ws rule: induct_list012)
  case (3 x y zs)
  then show ?case by simp
qed auto

lemma set_Join: "set (Join ws sep) \<subseteq> \<Union> (set ` set ws) \<union> set sep"
  by (induction ws sep rule: Join.induct) auto

text \<open>A file name appended to a dot-free directory is the last component of the cleaned path.\<close>

lemma Clean_append_file:
  assumes "CHR ''.'' \<notin> set dir" and last: "CHR ''/'' \<notin> set f" "f \<notin> {[], ''.'', ''..''}"
  shows "\<exists>d. Clean (dir @ CHR ''/'' # f) = d @ f \<and> CHR ''.'' \<notin> set d"
proof -
  let ?path = "dir @ CHR ''/'' # f"
  let ?parts = "filter (\<lambda>w. w \<noteq> []) (Split (CHR ''/'') dir)"
  have dots: "\<forall>w \<in> set (Split (CHR ''/'') dir). CHR ''.'' \<notin> set w"
    using Split_parts_subset[of _ "CHR ''/''" dir] assms(1) by blast
  then have parts: "clean_parts ?path = ?parts @ [f]"
    using last by (simp add: clean_parts_def Split_snoc_part clean_fold_no_dot[OF dots])
  define d where "d = (if is_rooted ?path then ''/'' else []) @ (if ?parts = [] then [] else Join ?parts ''/'' @ ''/'')"
  have "Clean ?path = d @ f"
    using last by (simp add: Clean_def parts d_def Join_snoc)
  moreover have "CHR ''.'' \<notin> set d"
    using set_Join[of ?parts "''/''"] dots by (auto simp: d_def)
  ultimately show ?thesis by blast
qed

end
