(* ===== verification/Audit_Log.thy ===== *)
theory Audit_Log
  imports Go_Json Go_Path "HOL-Library.Multiset"
begin

text \<open>
  Reading the audit log (\<open>internal/audit/query.go\<close>): the entries of a day, filtered, counted and
  cut off, and the list of days.  The file system is a parameter; a scanned file is a
  list of lines, each blank, malformed or an entry, and a flag for a scan that broke off.
\<close>

record Entry =
  au_Timestamp :: int
  au_Username :: string
  au_Pubkey :: string
  au_RoleName :: string
  au_Action :: string
  au_Targets :: "string list"
  au_Parameters :: raw
  au_Success :: bool
  au_Error :: string

datatype audit_line = BlankLine | MalformedLine | EntryLine Entry

datatype audit_file = NoFile | OpenFailed | Scanned "audit_line list" bool

record audit_fs =
  af_open :: "string \<Rightarrow> audit_file"
  af_glob :: "string \<Rightarrow> string list option"
  af_size :: "string \<Rightarrow> int option"

record QueryParams =
  qp_Date :: string
  qp_Action :: string
  qp_Pubkey :: string
  qp_Username :: string
  qp_Limit :: int
  qp_FailedOnly :: bool

record QueryResult =
  qr_Date :: string
  qr_Entries :: "Entry list"
  qr_Total :: nat

record DateSummary =
  ds_Date :: string
  ds_EntryCount :: nat
  ds_SizeBytes :: int

definition entry_selected :: "QueryParams \<Rightarrow> Entry \<Rightarrow> bool" where
  "entry_selected p e =
     (\<not> (qp_Action p \<noteq> [] \<and> au_Action e \<noteq> qp_Action p) \<and>
      \<not> (qp_Pubkey p \<noteq> [] \<and> au_Pubkey e \<noteq> qp_Pubkey p) \<and>
      \<not> (qp_Username p \<noteq> [] \<and> au_Username e \<noteq> qp_Username p) \<and>
      \<not> (qp_FailedOnly p \<and> au_Success e))"

fun scan_entries :: "QueryParams \<Rightarrow> audit_line list \<Rightarrow> Entry list" where
  "scan_entries p [] = []"
| "scan_entries p (EntryLine e # ls) = (if entry_selected p e then e # scan_entries p ls else scan_entries p ls)"
| "scan_entries p (_ # ls) = scan_entries p ls"

definition audit_path :: "string \<Rightarrow> string \<Rightarrow> string" where
  "audit_path dir date = FJoin [dir, ''audit-'' @ date @ ''.jsonl'']"

text \<open>\<open>sort.Slice\<close> leaves the order of equal times open; the model keeps the order of the file.\<close>

definition Query :: "audit_fs \<Rightarrow> string \<Rightarrow> string \<Rightarrow> QueryParams \<Rightarrow> QueryResult option" where
  "Query fs dir today params =
     (let date = (if qp_Date params = [] then today else qp_Date params);
          limit = (if qp_Limit params \<le> 0 then 100 else qp_Limit params)
      in case af_open fs (audit_path dir date) of
           NoFile \<Rightarrow> Some \<lparr>qr_Date = date, qr_Entries = [], qr_Total = 0\<rparr>
         | OpenFailed \<Rightarrow> None
         | Scanned ls broken \<Rightarrow>
             if broken then None
             else let found = scan_entries params ls; sorted = sort_key (\<lambda>e. - au_Timestamp e) found in
               Some \<lparr>qr_Date = date, qr_Entries = take (nat limit) sorted, qr_Total = length found\<rparr>)"

definition countLines :: "audit_fs \<Rightarrow> string \<Rightarrow> nat" where
  "countLines fs path =
     (case af_open fs path of Scanned ls _ \<Rightarrow> length (filter (\<lambda>l. l \<noteq> BlankLine) ls) | _ \<Rightarrow> 0)"

text \<open>Go compares strings by bytes.\<close>

fun byte_less :: "string \<Rightarrow> string \<Rightarrow> bool" where
  "byte_less [] t = (t \<noteq> [])"
| "byte_less (c # s) [] = False"
| "byte_less (c # s) (d # t) = ((of_char c :: nat) < of_char d \<or> c = d \<and> byte_less s t)"

fun date_insert :: "DateSummary \<Rightarrow> DateSummary list \<Rightarrow> DateSummary list" where
  "date_insert d [] = [d]"
| "date_insert d (x # xs) =
     (if byte_less (ds_Date x) (ds_Date d) then d # x # xs else x # date_insert d xs)"

definition ListDates :: "audit_fs \<Rightarrow> string \<Rightarrow> DateSummary list option" where
  "ListDates fs dir =
     map_option (\<lambda>paths. fold date_insert (List.map_filter (\<lambda>path.
         map_option (\<lambda>size. \<lparr>ds_Date = TrimSuffix (TrimPrefix (last (Split (CHR ''/'') path)) ''audit-'') ''.jsonl'',
             ds_EntryCount = countLines fs path, ds_SizeBytes = size\<rparr>) (af_size fs path)) paths) [])
       (af_glob fs (FJoin [dir, ''audit-*.jsonl'']))"

section \<open>What a query returns\<close>

lemma scan_entries_filter:
  "scan_entries p ls = filter (entry_selected p) (List.map_filter (\<lambda>l. case l of EntryLine e \<Rightarrow> Some e | _ \<Rightarrow> None) ls)"
  by (induction p ls rule: scan_entries.induct) (simp_all add: map_filter_simps)

text \<open>
  A query of a readable day: the entries that pass the filters, counted in full, the most
  recent first, and no entry left out that is more recent than one returned.
\<close>

theorem Query_most_recent:
  assumes "Query fs dir today p = Some r" "af_open fs (audit_path dir (qr_Date r)) = Scanned ls broken"
  defines "found \<equiv> filter (entry_selected p) (List.map_filter (\<lambda>l. case l of EntryLine e \<Rightarrow> Some e | _ \<Rightarrow> None) ls)"
  shows "qr_Total r = length found \<and> sorted_wrt (\<lambda>a b. au_Timestamp b \<le> au_Timestamp a) (qr_Entries r) \<and>
    (\<exists>rest. mset (qr_Entries r @ rest) = mset found \<and>
       (\<forall>a \<in> set (qr_Entries r). \<forall>b \<in> set rest. au_Timestamp b \<le> au_Timestamp a)) \<and>
    length (qr_Entries r) = min (length found) (if qp_Limit p \<le> 0 then 100 else nat (qp_Limit p))"
proof -
  let ?n = "if qp_Limit p \<le> 0 then 100 else nat (qp_Limit p)"
  let ?s = "sort_key (\<lambda>e. - au_Timestamp e) found"
  have r: "qr_Entries r = take ?n ?s" "qr_Total r = length found"
    using assms(1,2) by (auto simp: Query_def Let_def found_def scan_entries_filter split: if_splits audit_file.splits)
  define a b where "a = take ?n ?s" and "b = drop ?n ?s"
  have ab: "?s = a @ b" by (simp add: a_def b_def)
  have "sorted (map (\<lambda>e. - au_Timestamp e) ?s)" by simp
  then have "sorted_wrt (\<lambda>x y. au_Timestamp y \<le> au_Timestamp x) (a @ b)" unfolding ab sorted_map by simp
  moreover have "mset (a @ b) = mset found" unfolding ab[symmetric] by simp
  moreover have "length a = min (length found) ?n" by (simp add: a_def min.commute)
  ultimately show ?thesis using r a_def by (auto simp: sorted_wrt_append)
qed

text \<open>The date is not checked to be one: with dots and slashes in it the file read is outside the log's directory.\<close>

theorem query_leaves_directory: "audit_path ''/var/audit'' ''x/../../other/log'' = ''/var/other/log.jsonl''"
  by code_simp

end
