(* ===== verification/Natsapi_Scope.thy ===== *)
theory Natsapi_Scope
  imports Auth Pki Audit_Log
begin

text \<open>
  The gate in front of every bus API method (\<open>internal/natsapi/middleware.go\<close>,
  \<open>scope.go\<close>, \<open>subjects.go\<close>): the action a method needs, the sprouts a request
  targets, and the middleware that checks both before the handler runs.  A
  handler takes the state, the tenant of the connection and the request body,
  and returns the new state with a result or an error.
\<close>

section \<open>Methods and actions\<close>

definition MethodHealth :: string where "MethodHealth = ''health''"
definition MethodVersion :: string where "MethodVersion = ''version''"
definition MethodPKIList :: string where "MethodPKIList = ''pki.list''"
definition MethodPKIAccept :: string where "MethodPKIAccept = ''pki.accept''"
definition MethodPKIReject :: string where "MethodPKIReject = ''pki.reject''"
definition MethodPKIDeny :: string where "MethodPKIDeny = ''pki.deny''"
definition MethodPKIUnaccept :: string where "MethodPKIUnaccept = ''pki.unaccept''"
definition MethodPKIDelete :: string where "MethodPKIDelete = ''pki.delete''"
definition MethodPKIRotateBoxKey :: string where "MethodPKIRotateBoxKey = ''pki.rotatebox''"
definition MethodSproutsList :: string where "MethodSproutsList = ''sprouts.list''"
definition MethodSproutsGet :: string where "MethodSproutsGet = ''sprouts.get''"
definition MethodTestPing :: string where "MethodTestPing = ''test.ping''"
definition MethodCmdRun :: string where "MethodCmdRun = ''cmd.run''"
definition MethodCook :: string where "MethodCook = ''cook''"
definition MethodJobsList :: string where "MethodJobsList = ''jobs.list''"
definition MethodJobsGet :: string where "MethodJobsGet = ''jobs.get''"
definition MethodJobsDelete :: string where "MethodJobsDelete = ''jobs.delete''"
definition MethodJobsCancel :: string where "MethodJobsCancel = ''jobs.cancel''"
definition MethodJobsForSprout :: string where "MethodJobsForSprout = ''jobs.forsprout''"
definition MethodPropsGetAll :: string where "MethodPropsGetAll = ''props.getall''"
definition MethodPropsGet :: string where "MethodPropsGet = ''props.get''"
definition MethodPropsSet :: string where "MethodPropsSet = ''props.set''"
definition MethodPropsDelete :: string where "MethodPropsDelete = ''props.delete''"
definition MethodCohortsList :: string where "MethodCohortsList = ''cohorts.list''"
definition MethodCohortsGet :: string where "MethodCohortsGet = ''cohorts.get''"
definition MethodCohortsResolve :: string where "MethodCohortsResolve = ''cohorts.resolve''"
definition MethodCohortsRefresh :: string where "MethodCohortsRefresh = ''cohorts.refresh''"
definition MethodCohortsValidate :: string where "MethodCohortsValidate = ''cohorts.validate''"
definition MethodAuthLogin :: string where "MethodAuthLogin = ''auth.login''"
definition MethodAuthWhoAmI :: string where "MethodAuthWhoAmI = ''auth.whoami''"
definition MethodAuthListUsers :: string where "MethodAuthListUsers = ''auth.users''"
definition MethodAuthAddUser :: string where "MethodAuthAddUser = ''auth.users.add''"
definition MethodAuthRemoveUser :: string where "MethodAuthRemoveUser = ''auth.users.remove''"
definition MethodAuthExplain :: string where "MethodAuthExplain = ''auth.explain''"
definition MethodShellStart :: string where "MethodShellStart = ''shell.start''"
definition MethodAuditDates :: string where "MethodAuditDates = ''audit.dates''"
definition MethodAuditQuery :: string where "MethodAuditQuery = ''audit.query''"

lemmas method_defs =
  MethodHealth_def MethodVersion_def MethodPKIList_def MethodPKIAccept_def MethodPKIReject_def
  MethodPKIDeny_def MethodPKIUnaccept_def MethodPKIDelete_def MethodPKIRotateBoxKey_def
  MethodSproutsList_def MethodSproutsGet_def MethodTestPing_def MethodCmdRun_def MethodCook_def
  MethodJobsList_def MethodJobsGet_def MethodJobsDelete_def MethodJobsCancel_def MethodJobsForSprout_def
  MethodPropsGetAll_def MethodPropsGet_def MethodPropsSet_def MethodPropsDelete_def
  MethodCohortsList_def MethodCohortsGet_def MethodCohortsResolve_def MethodCohortsRefresh_def
  MethodCohortsValidate_def MethodAuthLogin_def MethodAuthWhoAmI_def MethodAuthListUsers_def
  MethodAuthAddUser_def MethodAuthRemoveUser_def MethodAuthExplain_def MethodShellStart_def
  MethodAuditDates_def MethodAuditQuery_def

definition AllMethods :: "string list" where
  "AllMethods =
     [MethodHealth, MethodVersion, MethodPKIList, MethodPKIAccept, MethodPKIReject, MethodPKIDeny,
      MethodPKIUnaccept, MethodPKIDelete, MethodPKIRotateBoxKey, MethodSproutsList, MethodSproutsGet,
      MethodTestPing, MethodCmdRun, MethodCook, MethodJobsList, MethodJobsGet, MethodJobsDelete,
      MethodJobsCancel, MethodJobsForSprout, MethodPropsGetAll, MethodPropsGet, MethodPropsSet,
      MethodPropsDelete, MethodCohortsList, MethodCohortsGet, MethodCohortsResolve, MethodCohortsRefresh,
      MethodCohortsValidate, MethodAuthLogin, MethodAuthWhoAmI, MethodAuthListUsers, MethodAuthAddUser,
      MethodAuthRemoveUser, MethodAuthExplain, MethodShellStart, MethodAuditDates, MethodAuditQuery]"

definition natsActionMap :: "(string \<times> action) list" where
  "natsActionMap =
     [(MethodHealth, ActionView), (MethodVersion, ActionView), (MethodSproutsList, ActionView),
      (MethodSproutsGet, ActionView), (MethodJobsList, ActionView), (MethodJobsGet, ActionView),
      (MethodJobsForSprout, ActionView), (MethodPropsGetAll, ActionView), (MethodPropsGet, ActionView),
      (MethodCohortsList, ActionView), (MethodCohortsGet, ActionView), (MethodCohortsResolve, ActionView),
      (MethodCohortsRefresh, ActionView), (MethodCohortsValidate, ActionView),
      (MethodCook, ActionCook), (MethodCmdRun, ActionCmd), (MethodShellStart, ActionShell),
      (MethodTestPing, ActionTest), (MethodPropsSet, ActionProps), (MethodPropsDelete, ActionProps),
      (MethodJobsCancel, ActionJobAdmin), (MethodJobsDelete, ActionJobAdmin),
      (MethodPKIList, ActionPKI), (MethodPKIAccept, ActionPKI), (MethodPKIReject, ActionPKI),
      (MethodPKIDeny, ActionPKI), (MethodPKIUnaccept, ActionPKI), (MethodPKIDelete, ActionPKI),
      (MethodPKIRotateBoxKey, ActionPKI),
      (MethodAuthLogin, ActionUserRead), (MethodAuthWhoAmI, ActionUserRead),
      (MethodAuthListUsers, ActionAdmin), (MethodAuthAddUser, ActionAdmin),
      (MethodAuthRemoveUser, ActionAdmin), (MethodAuthExplain, ActionUserRead),
      (MethodAuditDates, ActionAdmin), (MethodAuditQuery, ActionAdmin)]"

definition publicMethods :: "string list" where
  "publicMethods = [MethodHealth, MethodVersion, MethodAuthLogin, MethodAuthWhoAmI, MethodAuthExplain]"

definition NATSMethodAction :: "string \<Rightarrow> action" where
  "NATSMethodAction method = (case map_of natsActionMap method of Some a \<Rightarrow> a | None \<Rightarrow> ActionAdmin)"

definition SubjectPrefix :: string where "SubjectPrefix = ''grlx.api.''"
definition SproutSubjectPrefix :: string where "SproutSubjectPrefix = ''grlx.sprouts.''"

definition Subject :: "string \<Rightarrow> string" where
  "Subject method = SubjectPrefix @ method"

definition SproutSubject :: "string \<Rightarrow> string \<Rightarrow> string" where
  "SproutSubject sproutID suf = SproutSubjectPrefix @ sproutID @ ''.'' @ suf"

section \<open>The sprouts a request targets\<close>

definition target_ids :: "string \<Rightarrow> raw \<Rightarrow> string list \<times> bool" where
  "target_ids name params =
     (let (kvs, e) = raw_fields params; (ids, e') = dec_field (dec_structs name) ''target'' kvs [] in (ids, e \<or> e'))"

definition extractTargetedSproutIDs :: "raw \<Rightarrow> string list option" where
  "extractTargetedSproutIDs params =
     (let (ids, err) = target_ids ''sprout_id'' params in
      if err then None
      else if ids = [] then None
      else if [] \<in> set ids then None
      else Some ids)"

text \<open>The four extractors that read one \<open>sprout_id\<close> differ only in their error messages.\<close>

definition extract_sprout_id :: "raw \<Rightarrow> string list option" where
  "extract_sprout_id params =
     (let (sid, err) = raw_str params ''sprout_id'' in
      if err then None else if sid = [] then None else Some [sid])"

definition extractShellSproutID :: "raw \<Rightarrow> string list option" where
  "extractShellSproutID params = extract_sprout_id params"

definition extractPropsSproutID :: "raw \<Rightarrow> string list option" where
  "extractPropsSproutID params = extract_sprout_id params"

definition extractJobsForSproutID :: "raw \<Rightarrow> string list option" where
  "extractJobsForSproutID params = extract_sprout_id params"

definition extractSproutsGetID :: "raw \<Rightarrow> string list option" where
  "extractSproutsGetID params = extract_sprout_id params"

lemmas extractor_defs = extractShellSproutID_def extractPropsSproutID_def extractJobsForSproutID_def
  extractSproutsGetID_def

definition scopeExtractors :: "(string \<times> (raw \<Rightarrow> string list option)) list" where
  "scopeExtractors =
     [(''cook'', extractTargetedSproutIDs), (''cmd.run'', extractTargetedSproutIDs),
      (''test.ping'', extractTargetedSproutIDs), (''shell.start'', extractShellSproutID),
      (''props.getall'', extractPropsSproutID), (''props.get'', extractPropsSproutID),
      (''props.set'', extractPropsSproutID), (''props.delete'', extractPropsSproutID),
      (''jobs.forsprout'', extractJobsForSproutID), (''sprouts.get'', extractSproutsGetID)]"

section \<open>State and environment\<close>

text \<open>
  What a handler reads besides its own state: the token library, the clock, the
  heartbeat reads, whether a registered connection is up, whether a publish
  succeeds, a fresh job ID, what a sprout answers to a request on a subject
  (\<^term>\<open>None\<close> when it does not), a fresh session ID, the build's version, the audit
  logger with its directory, and today's date.
\<close>

record Version =
  ve_Arch :: string
  ve_Compiler :: string
  ve_GitCommit :: string
  ve_Tag :: string

record world =
  w_lib :: token_lib
  w_now :: int
  w_online :: "string \<Rightarrow> string \<Rightarrow> bool"
  w_connected :: "string \<Rightarrow> bool"
  w_publish :: "string \<Rightarrow> bool"
  w_jobID :: string
  w_validAccountKey :: "string \<Rightarrow> bool"
  w_answer :: "string \<Rightarrow> raw option"
  w_sessionID :: string
  w_version :: Version
  w_audit :: "(audit_fs \<times> string) option"
  w_today :: string

text \<open>
  The handlers' state; \<open>fm_conns\<close> holds the tenants with a registered
  connection.  A component that adds state extends the record.
\<close>

record farmer =
  fm_auth :: auth_state
  fm_props :: prop_db
  fm_pki :: pki_state
  fm_conns :: "string list"
  fm_cohorts :: "registry option"

definition natsConnFor :: "'m farmer_scheme \<Rightarrow> string \<Rightarrow> bool" where
  "natsConnFor fm tid = (tid \<in> set (fm_conns fm))"

definition SetNatsConn :: "'m farmer_scheme \<Rightarrow> string \<Rightarrow> 'm farmer_scheme" where
  "SetNatsConn fm tid = fm\<lparr>fm_conns := List.insert tid (fm_conns fm)\<rparr>"

definition ClearNatsConn :: "'m farmer_scheme \<Rightarrow> string \<Rightarrow> 'm farmer_scheme" where
  "ClearNatsConn fm tid = fm\<lparr>fm_conns := removeAll tid (fm_conns fm)\<rparr>"

definition allAcceptedSproutIDs :: "'m farmer_scheme \<Rightarrow> string \<Rightarrow> string list" where
  "allAcceptedSproutIDs fm tid = Accepted (ListNKeysByType (fm_pki fm) tid)"

definition has_scoped_access :: "world \<Rightarrow> 'm farmer_scheme \<Rightarrow> string \<Rightarrow> string \<Rightarrow> action \<Rightarrow> string list \<Rightarrow> bool" where
  "has_scoped_access w fm tid token action sproutIDs =
     TokenHasScopedAccess (w_lib w) (fm_auth fm) (fm_props fm) (w_now w) token action sproutIDs
       (allAcceptedSproutIDs fm tid)"

text \<open>\<^term>\<open>True\<close> is a nil error, \<^term>\<open>False\<close> the access-denied error.\<close>

definition checkScopedAccess :: "world \<Rightarrow> 'm farmer_scheme \<Rightarrow> string \<Rightarrow> string \<Rightarrow> action \<Rightarrow> string list \<Rightarrow> bool" where
  "checkScopedAccess w fm tid token action sproutIDs = has_scoped_access w fm tid token action sproutIDs"

definition filterSproutsByScope ::
  "world \<Rightarrow> 'm farmer_scheme \<Rightarrow> string \<Rightarrow> string \<Rightarrow> action \<Rightarrow> string list \<Rightarrow> string list option" where
  "filterSproutsByScope w fm tid token action sproutIDs =
     TokenScopeFilter (w_lib w) (fm_auth fm) (fm_props fm) (w_now w) token action sproutIDs
       (allAcceptedSproutIDs fm tid)"

section \<open>The middleware\<close>

datatype api_error =
    AccessDenied
  | BadParams
  | MissingField string
  | InvalidSprout string
  | UnknownSprout string
  | SproutNotFound
  | NoConnection
  | PublishFailed
  | NoCohortRegistry
  | Unauthorized
  | PropFailed prop_error
  | PkiFailed pki_error
  | AuthFailed auth_error
  | CohortFailed cohort_error
  | StoreFailed string
  | NotCancellable string

type_synonym ('s, 'r) handler = "'s \<Rightarrow> string \<Rightarrow> raw \<Rightarrow> 's \<times> (api_error + 'r)"

text \<open>\<open>tokenParams\<close>: the decoder's error is ignored.\<close>

definition token_of :: "raw \<Rightarrow> string" where
  "token_of params = (if raw_len_pos params then fst (raw_str params ''token'') else [])"

definition authMiddleware ::
  "world \<Rightarrow> string \<Rightarrow> ('m farmer_scheme, 'r) handler \<Rightarrow> ('m farmer_scheme, 'r) handler" where
  "authMiddleware w method next =
     (if method \<in> set publicMethods then next
      else (\<lambda>fm tid params.
        let requiredAction = NATSMethodAction method; token = token_of params in
        if DangerouslyAllowRoot (fm_auth fm) then next fm tid params
        else if token = [] then (fm, Inl AccessDenied)
        else if \<not> TokenHasAction (w_lib w) (fm_auth fm) (w_now w) token requiredAction
        then (fm, Inl AccessDenied)
        else case map_of scopeExtractors method of
               None \<Rightarrow> next fm tid params
             | Some extractor \<Rightarrow>
                 (case extractor params of
                    None \<Rightarrow> next fm tid params
                  | Some sproutIDs \<Rightarrow>
                      if \<not> checkScopedAccess w fm tid token requiredAction sproutIDs
                      then (fm, Inl AccessDenied)
                      else next fm tid params)))"

section \<open>What the middleware lets through\<close>

text \<open>Why a request of a protected method reached its handler.\<close>

lemma authMiddleware_passes:
  assumes "authMiddleware w method next fm tid params = res" "res \<noteq> (fm, Inl AccessDenied)"
    and "method \<notin> set publicMethods" "\<not> DangerouslyAllowRoot (fm_auth fm)"
  shows "res = next fm tid params"
    and "TokenHasAction (w_lib w) (fm_auth fm) (w_now w) (token_of params) (NATSMethodAction method)"
    and "\<And>extractor ids. map_of scopeExtractors method = Some extractor \<Longrightarrow> extractor params = Some ids \<Longrightarrow>
      checkScopedAccess w fm tid (token_of params) (NATSMethodAction method) ids"
  using assms by (auto simp: authMiddleware_def Let_def split: if_splits option.splits)

text \<open>Every registered method is listed with an action; only an unlisted one falls back to admin.\<close>

lemma AllMethods_mapped: "set AllMethods = fst ` set natsActionMap" "distinct AllMethods"
  by code_simp+

end
