(* ===== verification/Pki_Enroll.thy ===== *)
theory Pki_Enroll
  imports Pki
begin

text \<open>
  Enrollment and payload-encryption keys (\<open>internal/pki/enroll.go\<close> and
  \<open>boxkeys.go\<close>): join tokens and their redemption, the choice of a sprout ID,
  the enrollment flow with its idempotent replay, and the rotation of a sprout's
  X25519 public key with its grace window.  Hashing, NKey checks and JWT minting
  are parameters.
\<close>

section \<open>Join tokens\<close>

record enrollmentKeyRow =
  ek_TenantID :: string
  ek_KeyHash :: string
  ek_Expiry :: int
  ek_MaxUses :: int
  ek_UsedCount :: int
  ek_Revoked :: bool

type_synonym enroll_db = "(string, enrollmentKeyRow) table"

text \<open>The index of the first dot decides; both halves must be non-empty.\<close>

definition splitJoinToken :: "string \<Rightarrow> (string \<times> string) option" where
  "splitJoinToken token =
     (let keyID = takeWhile (\<lambda>c. c \<noteq> CHR ''.'') token; i = length keyID in
      if CHR ''.'' \<notin> set token \<or> i = 0 \<or> i = length token - 1 then None
      else Some (keyID, drop (i + 1) token))"

text \<open>The guarded \<open>UPDATE\<close>: the test and the increment are one statement.\<close>

definition redeem :: "enroll_db \<Rightarrow> int \<Rightarrow> string \<Rightarrow> enroll_db \<times> bool option" where
  "redeem db now keyID =
     (if \<not> tbl_up db then (db, None)
      else case tbl_get db keyID of
             None \<Rightarrow> (db, Some False)
           | Some row \<Rightarrow>
               if ek_UsedCount row < ek_MaxUses row \<and> \<not> ek_Revoked row \<and> ek_Expiry row > now
               then (tbl_put db keyID (row\<lparr>ek_UsedCount := ek_UsedCount row + 1\<rparr>), Some True)
               else (db, Some False))"

section \<open>Sprout box keys\<close>

record boxKeyRow =
  bk_State :: string
  bk_GraceUntil :: "int option"

type_synonym box_db = "(string \<times> (string \<times> string), boxKeyRow) table"

definition boxKeyStateActive :: string where "boxKeyStateActive = ''active''"
definition boxKeyStateGrace :: string where "boxKeyStateGrace = ''grace''"
definition boxKeyStateRevoked :: string where "boxKeyStateRevoked = ''revoked''"

lemmas box_states = boxKeyStateActive_def boxKeyStateGrace_def boxKeyStateRevoked_def

datatype box_error = BadBoxPub | ErrNoActiveBoxKey | BoxDbError

definition is_base64 :: "char \<Rightarrow> bool" where
  "is_base64 c = (is_upper c \<or> is_lower c \<or> is_digit c \<or> c = CHR ''+'' \<or> c = CHR ''/'')"

text \<open>
  Whether \<open>decodeBoxPub\<close> accepts: standard base64 decodes to 32 bytes exactly when,
  without line breaks, it is 43 alphabet characters and one padding character.
\<close>

definition decodeBoxPub :: "string \<Rightarrow> bool" where
  "decodeBoxPub pub =
     (let s = filter (\<lambda>c. c \<noteq> CHR 0x0A \<and> c \<noteq> CHR 0x0D) pub in
      length s = 44 \<and> list_all is_base64 (take 43 s) \<and> drop 43 s = ''='')"

definition box_active :: boxKeyRow where
  "box_active = \<lparr>bk_State = boxKeyStateActive, bk_GraceUntil = None\<rparr>"

definition upsertSproutBoxKeyActive :: "box_db \<Rightarrow> string \<Rightarrow> string \<Rightarrow> string \<Rightarrow> box_db \<times> box_error option" where
  "upsertSproutBoxKeyActive db tid sid pub =
     (if \<not> decodeBoxPub pub then (db, Some BadBoxPub)
      else let (db', written) = tbl_upsert db (tid, sid, pub) box_active in
           (db', if written then None else Some BoxDbError))"

text \<open>\<open>UPDATE\<close> of the rows a condition selects.\<close>

definition tbl_update_where :: "('k, 'r) table \<Rightarrow> ('k \<Rightarrow> 'r \<Rightarrow> bool) \<Rightarrow> ('r \<Rightarrow> 'r) \<Rightarrow> ('k, 'r) table" where
  "tbl_update_where t P f =
     (if tbl_up t then t\<lparr>tbl_rows := map (\<lambda>(k, r). (k, if P k r then f r else r)) (tbl_rows t)\<rparr> else t)"

definition active_pubs :: "box_db \<Rightarrow> string \<Rightarrow> string \<Rightarrow> string list" where
  "active_pubs db tid sid = map (\<lambda>((t, s, p), r). p)
     (tbl_find db (\<lambda>(t, s, p) r. t = tid \<and> s = sid \<and> bk_State r = boxKeyStateActive))"

definition RotateSproutBoxKey ::
  "box_db \<Rightarrow> int \<Rightarrow> string \<Rightarrow> string \<Rightarrow> string \<Rightarrow> int \<Rightarrow> box_db \<times> box_error option" where
  "RotateSproutBoxKey db now tid sid newPub graceDuration =
     (if \<not> decodeBoxPub newPub then (db, Some BadBoxPub)
      else if \<not> tbl_up db then (db, Some BoxDbError)
      else let pubs = active_pubs db tid sid in
           if newPub \<in> set pubs then (db, None)
           else let graceUntil = now + graceDuration;
                    db1 = tbl_update_where db (\<lambda>(t, s, p) r. t = tid \<and> s = sid \<and> p \<in> set pubs)
                            (\<lambda>r. \<lparr>bk_State = boxKeyStateGrace, bk_GraceUntil = Some graceUntil\<rparr>)
                in (tbl_put db1 (tid, sid, newPub) box_active, None))"

definition grace_expired :: "int \<Rightarrow> boxKeyRow \<Rightarrow> bool" where
  "grace_expired now r = (bk_State r = boxKeyStateGrace \<and>
     (case bk_GraceUntil r of None \<Rightarrow> False | Some g \<Rightarrow> g \<le> now))"

definition grace_open :: "int \<Rightarrow> boxKeyRow \<Rightarrow> bool" where
  "grace_open now r = (bk_State r = boxKeyStateGrace \<and>
     (case bk_GraceUntil r of None \<Rightarrow> False | Some g \<Rightarrow> g > now))"

text \<open>
  The sweep, then the read; the last active row of the result set wins.
\<close>

definition ValidSproutBoxKeys ::
  "box_db \<Rightarrow> int \<Rightarrow> string \<Rightarrow> string \<Rightarrow> box_db \<times> (box_error + string \<times> string list)" where
  "ValidSproutBoxKeys db now tid sid =
     (let db1 = tbl_update_where db (\<lambda>(t, s, p) r. t = tid \<and> s = sid \<and> grace_expired now r)
                  (\<lambda>r. r\<lparr>bk_State := boxKeyStateRevoked\<rparr>) in
      if \<not> tbl_up db then (db1, Inl BoxDbError)
      else let rows = tbl_find db1 (\<lambda>(t, s, p) r. t = tid \<and> s = sid \<and>
                        (bk_State r = boxKeyStateActive \<or> grace_open now r));
               actives = map (\<lambda>((t, s, p), r). p) (filter (\<lambda>(k, r). bk_State r = boxKeyStateActive) rows);
               grace = map (\<lambda>((t, s, p), r). p) (filter (\<lambda>(k, r). bk_State r = boxKeyStateGrace) rows);
               active = (if actives = [] then [] else last actives)
           in (db1, if active = [] then Inl ErrNoActiveBoxKey else Inr (active, grace)))"

section \<open>Enrollment\<close>

text \<open>The collision loop: suffixes 1 to 99.\<close>

fun enroll_suffix :: "nat \<Rightarrow> nat \<Rightarrow> pki_state \<Rightarrow> string \<Rightarrow> string \<Rightarrow> string \<Rightarrow> string option" where
  "enroll_suffix 0 i st tid base nkeyPub = None"
| "enroll_suffix (Suc left) i st tid base nkeyPub =
     (let sid = base @ ''_'' @ itoa i;
          (registered, matches) = NKeyExistsInTenant st tid sid nkeyPub
      in if \<not> registered \<or> matches then Some sid
         else enroll_suffix left (Suc i) st tid base nkeyPub)"

definition resolveEnrollSproutID :: "pki_state \<Rightarrow> string \<Rightarrow> string \<Rightarrow> string \<Rightarrow> string option" where
  "resolveEnrollSproutID st tid hostname nkeyPub =
     (let base = normalize_host hostname in
      if \<not> IsValidSproutID base then None
      else let (registered, matches) = NKeyExistsInTenant st tid base nkeyPub in
           if \<not> registered \<or> matches then Some base
           else enroll_suffix 99 1 st tid base nkeyPub)"

definition acceptEnrolledNKey :: "pki_state \<Rightarrow> string \<Rightarrow> string \<Rightarrow> string \<Rightarrow> pki_state \<times> pki_error option" where
  "acceptEnrolledNKey st tid sid nkey =
     (let (st', err) = upsertNKeyRow st tid sid \<lparr>nk_NKey = nkey, nk_State = stateAccepted\<rparr> in
      (st'\<lparr>pki_reloads := pki_reloads st' @ [ReloadTenant tid]\<rparr>, err))"

text \<open>
  What the flow calls outside the database: the NKey format check, the secret's
  hash, the stored user JWT, the tenant's box public key and the gateway token.
\<close>

record enroll_lib =
  el_valid_nkey :: "string \<Rightarrow> bool"
  el_hash :: "string \<Rightarrow> string"
  el_user_jwt :: "string \<Rightarrow> string \<Rightarrow> string option"
  el_tenant_pub :: "string option"
  el_gateway_jwt :: "string \<Rightarrow> string \<Rightarrow> string \<Rightarrow> string option"

record enroll_state =
  en_pki :: pki_state
  en_keys :: enroll_db
  en_box :: box_db

record EnrollResult =
  er_SproutID :: string
  er_JWT :: string
  er_GatewayJWT :: string
  er_TenantPub :: string

text \<open>Every failure is the one error \<open>ErrEnrollmentFailed\<close>: a result of \<^term>\<open>None\<close>.\<close>

definition enroll_tokens :: "enroll_lib \<Rightarrow> string \<Rightarrow> string \<Rightarrow> string \<Rightarrow> EnrollResult option" where
  "enroll_tokens lib tid sid nkeyPub =
     (case el_user_jwt lib tid sid of
        None \<Rightarrow> None
      | Some jwt \<Rightarrow>
          (case el_tenant_pub lib of
             None \<Rightarrow> None
           | Some pub \<Rightarrow>
               (case el_gateway_jwt lib tid sid nkeyPub of
                  None \<Rightarrow> None
                | Some gw \<Rightarrow> Some \<lparr>er_SproutID = sid, er_JWT = jwt, er_GatewayJWT = gw, er_TenantPub = pub\<rparr>)))"

definition replayExistingEnrollment :: "enroll_lib \<Rightarrow> string \<Rightarrow> string \<Rightarrow> string \<Rightarrow> EnrollResult option" where
  "replayExistingEnrollment lib tid sid nkeyPub = enroll_tokens lib tid sid nkeyPub"

definition Enroll ::
  "enroll_lib \<Rightarrow> int \<Rightarrow> enroll_state \<Rightarrow> string \<Rightarrow> string \<Rightarrow> string \<Rightarrow> string \<Rightarrow>
   enroll_state \<times> EnrollResult option" where
  "Enroll lib now st joinToken nkeyPub hostname sproutPub =
     (if \<not> el_valid_nkey lib nkeyPub then (st, None)
      else if \<not> decodeBoxPub sproutPub then (st, None)
      else case SproutIDAndTenantForNKey (en_pki st) nkeyPub of
        Inr (tid, sid) \<Rightarrow> (st, replayExistingEnrollment lib tid sid nkeyPub)
      | Inl _ \<Rightarrow>
      (case splitJoinToken joinToken of
        None \<Rightarrow> (st, None)
      | Some (keyID, secret) \<Rightarrow>
      (case tbl_first (en_keys st) keyID of
        NotFound \<Rightarrow> (st, None)
      | DbErr \<Rightarrow> (st, None)
      | Found row \<Rightarrow>
          if el_hash lib secret \<noteq> ek_KeyHash row then (st, None)
          else if \<not> IsValidTenantID (ek_TenantID row) then (st, None)
          else if ek_Revoked row \<or> now > ek_Expiry row \<or> ek_UsedCount row \<ge> ek_MaxUses row then (st, None)
          else (case resolveEnrollSproutID (en_pki st) (ek_TenantID row) hostname nkeyPub of
                  None \<Rightarrow> (st, None)
                | Some sid \<Rightarrow>
                    (case redeem (en_keys st) now keyID of
                       (keys', res) \<Rightarrow>
                         if res \<noteq> Some True then (st\<lparr>en_keys := keys'\<rparr>, None)
                         else (case acceptEnrolledNKey (en_pki st) (ek_TenantID row) sid nkeyPub of
                                 (pki', Some _) \<Rightarrow> (st\<lparr>en_keys := keys', en_pki := pki'\<rparr>, None)
                               | (pki', None) \<Rightarrow>
                                   (case upsertSproutBoxKeyActive (en_box st) (ek_TenantID row) sid sproutPub of
                                      (box', Some _) \<Rightarrow>
                                        (st\<lparr>en_keys := keys', en_pki := pki', en_box := box'\<rparr>, None)
                                    | (box', None) \<Rightarrow>
                                        (st\<lparr>en_keys := keys', en_pki := pki', en_box := box'\<rparr>,
                                         enroll_tokens lib (ek_TenantID row) sid nkeyPub))))))))"

section \<open>A join token is not redeemed more often than it allows\<close>

text \<open>The outcomes of redemption attempts at the given times, in the order the database serializes them.\<close>

fun redemptions :: "enroll_db \<Rightarrow> string \<Rightarrow> int list \<Rightarrow> bool list" where
  "redemptions db keyID [] = []"
| "redemptions db keyID (t # ts) =
     (snd (redeem db t keyID) = Some True) # redemptions (fst (redeem db t keyID)) keyID ts"

lemma redeem_cases:
  assumes "tbl_ok db" "tbl_get db keyID = Some row"
  shows "(snd (redeem db now keyID) = Some True \<and> ek_UsedCount row < ek_MaxUses row \<and> \<not> ek_Revoked row \<and>
      now < ek_Expiry row \<and> tbl_ok (fst (redeem db now keyID)) \<and>
      fst (redeem db now keyID) = tbl_put db keyID (row\<lparr>ek_UsedCount := ek_UsedCount row + 1\<rparr>)) \<or>
    (snd (redeem db now keyID) = Some False \<and> fst (redeem db now keyID) = db)"
  using assms by (auto simp: redeem_def tbl_okD)

lemma redemptions_bounded:
  "tbl_ok db \<Longrightarrow> tbl_get db keyID = Some row \<Longrightarrow>
   int (length (filter (\<lambda>b. b) (redemptions db keyID ts))) \<le> max 0 (ek_MaxUses row - ek_UsedCount row)"
proof (induction ts arbitrary: db row)
  case Nil
  then show ?case by simp
next
  case (Cons t ts)
  from redeem_cases[OF Cons.prems, of t] show ?case
  proof
    let ?row = "row\<lparr>ek_UsedCount := ek_UsedCount row + 1\<rparr>"
    assume *: "snd (redeem db t keyID) = Some True \<and> ek_UsedCount row < ek_MaxUses row \<and> \<not> ek_Revoked row \<and>
      t < ek_Expiry row \<and> tbl_ok (fst (redeem db t keyID)) \<and>
      fst (redeem db t keyID) = tbl_put db keyID ?row"
    then have "tbl_get (fst (redeem db t keyID)) keyID = Some ?row"
      using Cons.prems(1) by (simp add: tbl_get_put)
    moreover have "tbl_ok (fst (redeem db t keyID))" using * by blast
    ultimately have "int (length (filter (\<lambda>b. b) (redemptions (fst (redeem db t keyID)) keyID ts))) \<le>
        max 0 (ek_MaxUses ?row - ek_UsedCount ?row)"
      by (intro Cons.IH)
    with * show ?thesis by simp
  next
    assume "snd (redeem db t keyID) = Some False \<and> fst (redeem db t keyID) = db"
    with Cons.IH[OF Cons.prems] show ?thesis by simp
  qed
qed

text \<open>
  Property C7. However many enrollment attempts race for a join token, the
  number that redeem it never exceeds the uses it has left.
\<close>

theorem join_token_uses_bounded:
  assumes "tbl_ok db" "tbl_get db keyID = Some row"
  shows "int (length (filter (\<lambda>b. b) (redemptions db keyID attempts))) \<le>
    max 0 (ek_MaxUses row - ek_UsedCount row)"
  using assms by (rule redemptions_bounded)

definition join_key_demo :: enrollmentKeyRow where
  "join_key_demo = \<lparr>ek_TenantID = ''t_1'', ek_KeyHash = ''s3cret'', ek_Expiry = 100, ek_MaxUses = 1,
     ek_UsedCount = 0, ek_Revoked = False\<rparr>"

definition join_keys_demo :: enroll_db where
  "join_keys_demo = \<lparr>tbl_rows = [(''ek_1'', join_key_demo)], tbl_up = True\<rparr>"

lemma join_keys_demo_ok: "tbl_ok join_keys_demo" "tbl_get join_keys_demo ''ek_1'' = Some join_key_demo"
  by (simp_all add: join_keys_demo_def tbl_ok_def tbl_wf_def tbl_get_def)

theorem join_token_uses_bounded_witness:
  "length (filter (\<lambda>b. b) (redemptions join_keys_demo ''ek_1'' [5, 6, 7])) \<le> 1"
  using join_token_uses_bounded[OF join_keys_demo_ok, of "[5, 6, 7]"] by (simp add: join_key_demo_def)

section \<open>The chosen sprout ID\<close>

lemma is_digit_char [simp]: "n < 10 \<Longrightarrow> is_digit (char_of (48 + n :: nat))"
  by (simp add: is_digit_def)

lemma digits_all_digit: "n < 10 ^ fuel \<Longrightarrow> list_all is_digit (digits fuel n)"
  by (induction fuel arbitrary: n) auto

lemma digits_nonempty [simp]: "digits (Suc fuel) n \<noteq> []"
  by simp

lemma itoa_digits: "list_all is_digit (itoa n)" "itoa n \<noteq> []"
proof -
  have "n < 10 ^ Suc n" by (induction n) auto
  then show "list_all is_digit (itoa n)" unfolding itoa_def by (rule digits_all_digit)
qed (simp add: itoa_def del: digits.simps)

lemma itoa_short:
  assumes "n < 100"
  shows "length (itoa n) \<le> 2"
proof (cases "n < 10")
  case True
  then show ?thesis by (simp add: itoa_def)
next
  case False
  then obtain m where "n = Suc m" by (cases n) auto
  with False assms show ?thesis by (simp add: itoa_def)
qed

lemma HasSuffix_last: "HasSuffix s [c] \<longleftrightarrow> s \<noteq> [] \<and> last s = c"
  by (cases s rule: rev_cases) (auto simp: HasSuffix_def suffix_def)

lemma suffixed_valid:
  assumes "IsValidSproutID base" "length base \<le> 250" "i < 100"
  shows "IsValidSproutID (base @ ''_'' @ itoa i)"
proof -
  obtain c cs where base: "base = c # cs" using assms(1) by (cases base) (auto simp: IsValidSproutID_def split: if_splits)
  have dig: "list_all sprout_char (itoa i)"
    using itoa_digits(1)[of i] by (auto simp: list_all_iff sprout_char_def)
  have "is_digit (last (itoa i))"
    using itoa_digits(1)[of i] itoa_digits(2)[of i] unfolding list_all_iff by (blast intro: last_in_set)
  then have "last (itoa i) \<noteq> CHR ''.''" by (auto simp: is_digit_def)
  moreover have "sproutMatcher base" "\<not> HasPrefix base ''_''" "\<not> HasPrefix base ''-''"
    using assms(1) by (auto simp: IsValidSproutID_def split: if_splits)
  ultimately show ?thesis
    using assms(2) itoa_short[OF assms(3)] itoa_digits(2)[of i] dig
    by (auto simp: IsValidSproutID_def base HasSuffix_last HasPrefix_def sprout_char_def)
qed

text \<open>An ID the enrolling key may take: nobody's, or its own already.\<close>

definition free_for :: "pki_state \<Rightarrow> string \<Rightarrow> string \<Rightarrow> string \<Rightarrow> bool" where
  "free_for st tid sid nkey = (case tbl_get (pki_nkeys st) (tid, sid) of None \<Rightarrow> True | Some row \<Rightarrow> nk_NKey row = nkey)"

lemma exists_free:
  assumes "nkeys_ok st" "IsValidSproutID sid"
  shows "NKeyExistsInTenant st tid sid nkey = (registered, matches) \<Longrightarrow>
    \<not> registered \<or> matches \<longleftrightarrow> free_for st tid sid nkey"
  using assms
  by (auto simp: NKeyExistsInTenant_def find_row free_for_def nkeys_of_def split: option.splits)

lemma enroll_suffix_free:
  assumes "nkeys_ok st" "IsValidSproutID base"
  shows "enroll_suffix left i st tid base nkey = Some sid \<Longrightarrow> i + left \<le> 100 \<Longrightarrow>
    (IsValidSproutID sid \<longrightarrow> free_for st tid sid nkey) \<and> (length base \<le> 250 \<longrightarrow> IsValidSproutID sid)"
proof (induction left arbitrary: i)
  case 0
  then show ?case by simp
next
  case (Suc left)
  let ?sid = "base @ ''_'' @ itoa i"
  obtain registered matches where ex: "NKeyExistsInTenant st tid ?sid nkey = (registered, matches)" by fastforce
  have valid: "length base \<le> 250 \<Longrightarrow> IsValidSproutID ?sid" using suffixed_valid[OF assms(2)] Suc.prems(2) by simp
  show ?case
  proof (cases "\<not> registered \<or> matches")
    case True
    with Suc.prems(1) ex have "sid = ?sid" by (auto simp: Let_def)
    with exists_free[OF assms(1) _ ex] True valid show ?thesis by blast
  next
    case False
    with Suc.prems ex have "enroll_suffix left (Suc i) st tid base nkey = Some sid"
      by (simp add: Let_def del: append_Cons append_Nil)
    with Suc.IH Suc.prems(2) show ?thesis by simp
  qed
qed

lemma resolve_free:
  assumes "nkeys_ok st" "resolveEnrollSproutID st tid hostname nkey = Some sid"
  shows "(IsValidSproutID sid \<longrightarrow> free_for st tid sid nkey) \<and> (length (normalize_host hostname) \<le> 250 \<longrightarrow> IsValidSproutID sid)"
proof -
  let ?base = "normalize_host hostname"
  have valid: "IsValidSproutID ?base"
    using assms(2) by (auto simp: resolveEnrollSproutID_def Let_def split: if_splits)
  obtain registered matches where ex: "NKeyExistsInTenant st tid ?base nkey = (registered, matches)" by fastforce
  show ?thesis
  proof (cases "\<not> registered \<or> matches")
    case True
    with assms(2) valid ex have "sid = ?base" by (auto simp: resolveEnrollSproutID_def Let_def)
    with exists_free[OF assms(1) valid ex] True valid show ?thesis by simp
  next
    case False
    with assms(2) valid ex have "enroll_suffix 99 1 st tid ?base nkey = Some sid"
      by (simp add: resolveEnrollSproutID_def Let_def)
    from enroll_suffix_free[OF assms(1) valid this] show ?thesis by simp
  qed
qed

text \<open>
  Property C6. Enrollment grants an identity only in two ways.  Either the key
  was already accepted, and then nothing changes and no token use is spent; or a
  join token whose secret hashes to the stored value, neither revoked, expired
  nor used up, is charged exactly one use, and the key is accepted in that
  token's tenant, with every other stored key unchanged.  The ID it gets was free or
  already its own whenever it is a valid one, and it is valid for every host name of at most
  250 characters; with a longer name the numbered ID may be too long, is then not looked up
  and may belong to another key (see \<open>enroll_long_hostname_gets_invalid_id\<close>).
\<close>

theorem Enroll_success:
  assumes "Enroll lib now st joinToken nkeyPub hostname sproutPub = (st', Some res)"
    and "tbl_ok (pki_nkeys (en_pki st))" "tbl_ok (en_keys st)"
  shows "(st' = st \<and> (\<exists>tid. SproutIDAndTenantForNKey (en_pki st) nkeyPub = Inr (tid, er_SproutID res))) \<or>
    (\<exists>keyID secret row. splitJoinToken joinToken = Some (keyID, secret) \<and>
       tbl_get (en_keys st) keyID = Some row \<and> el_hash lib secret = ek_KeyHash row \<and>
       \<not> ek_Revoked row \<and> now < ek_Expiry row \<and> ek_UsedCount row < ek_MaxUses row \<and>
       tbl_get (en_keys st') keyID = Some (row\<lparr>ek_UsedCount := ek_UsedCount row + 1\<rparr>) \<and>
       (IsValidSproutID (er_SproutID res) \<longrightarrow> free_for (en_pki st) (ek_TenantID row) (er_SproutID res) nkeyPub) \<and>
       (length (normalize_host hostname) \<le> 250 \<longrightarrow> IsValidSproutID (er_SproutID res)) \<and>
       tbl_get (pki_nkeys (en_pki st')) = (tbl_get (pki_nkeys (en_pki st)))
         ((ek_TenantID row, er_SproutID res) \<mapsto> \<lparr>nk_NKey = nkeyPub, nk_State = stateAccepted\<rparr>))"
proof (cases "SproutIDAndTenantForNKey (en_pki st) nkeyPub")
  case (Inr ts)
  with assms(1) show ?thesis
    by (auto simp: Enroll_def replayExistingEnrollment_def enroll_tokens_def
        split: if_splits option.splits prod.splits)
next
  case (Inl e)
  have up: "tbl_up (en_keys st)" "tbl_up (pki_nkeys (en_pki st))" using assms(2,3) by (auto dest: tbl_okD)
  obtain keyID secret where split: "splitJoinToken joinToken = Some (keyID, secret)"
    using assms(1) Inl by (auto simp: Enroll_def split: if_splits option.splits)
  obtain row where row: "tbl_get (en_keys st) keyID = Some row"
    using assms(1) Inl split up by (cases "tbl_get (en_keys st) keyID") (auto simp: Enroll_def split: if_splits)
  let ?tid = "ek_TenantID row"
  have ok: "el_hash lib secret = ek_KeyHash row" "\<not> ek_Revoked row" "ek_UsedCount row < ek_MaxUses row"
    using assms(1) Inl split up row by (auto simp: Enroll_def split: if_splits)
  obtain sid where sid: "resolveEnrollSproutID (en_pki st) ?tid hostname nkeyPub = Some sid"
    using assms(1) Inl split up row by (auto simp: Enroll_def split: if_splits option.splits)
  note free = resolve_free[OF _ sid]
  have red: "snd (redeem (en_keys st) now keyID) = Some True"
    using assms(1) Inl split up row sid by (auto simp: Enroll_def split: if_splits prod.splits)
  with redeem_cases[OF assms(3) row, of now] have exp: "now < ek_Expiry row"
    and keys: "fst (redeem (en_keys st) now keyID) =
      tbl_put (en_keys st) keyID (row\<lparr>ek_UsedCount := ek_UsedCount row + 1\<rparr>)" by auto
  have redeq: "redeem (en_keys st) now keyID =
      (tbl_put (en_keys st) keyID (row\<lparr>ek_UsedCount := ek_UsedCount row + 1\<rparr>), Some True)"
    using red keys by (metis prod.collapse)
  have acc: "acceptEnrolledNKey (en_pki st) ?tid sid nkeyPub =
      ((en_pki st)\<lparr>pki_nkeys := tbl_put (pki_nkeys (en_pki st)) (?tid, sid)
         \<lparr>nk_NKey = nkeyPub, nk_State = stateAccepted\<rparr>,
        pki_reloads := pki_reloads (en_pki st) @ [ReloadTenant ?tid]\<rparr>, None)"
    using up by (simp add: acceptEnrolledNKey_def upsertNKeyRow_def tbl_upsert_def tbl_put_def)
  have st': "pki_nkeys (en_pki st') = tbl_put (pki_nkeys (en_pki st)) (?tid, sid)
         \<lparr>nk_NKey = nkeyPub, nk_State = stateAccepted\<rparr>"
    "en_keys st' = tbl_put (en_keys st) keyID (row\<lparr>ek_UsedCount := ek_UsedCount row + 1\<rparr>)"
    "er_SproutID res = sid"
    using assms(1) Inl split up row sid
    by (auto simp: Enroll_def redeq acc enroll_tokens_def split: if_splits prod.splits option.splits)
  have "tbl_get (pki_nkeys (en_pki st')) = (tbl_get (pki_nkeys (en_pki st)))
         ((?tid, sid) \<mapsto> \<lparr>nk_NKey = nkeyPub, nk_State = stateAccepted\<rparr>)"
    using assms(2) by (auto simp: st' tbl_get_put)
  moreover have "tbl_get (en_keys st') keyID = Some (row\<lparr>ek_UsedCount := ek_UsedCount row + 1\<rparr>)"
    using assms(3) by (simp add: st' tbl_get_put)
  ultimately show ?thesis
    using split row ok exp free assms(2) by (auto simp: st'(3) nkeys_ok_def)
qed

definition enroll_lib_demo :: enroll_lib where
  "enroll_lib_demo = \<lparr>el_valid_nkey = (\<lambda>k. k \<noteq> []), el_hash = (\<lambda>s. s), el_user_jwt = (\<lambda>t s. Some ''jwt''),
     el_tenant_pub = Some ''pub'', el_gateway_jwt = (\<lambda>t s k. Some ''gw'')\<rparr>"

definition enroll_demo :: enroll_state where
  "enroll_demo = \<lparr>en_pki = pki_demo, en_keys = join_keys_demo, en_box = \<lparr>tbl_rows = [], tbl_up = True\<rparr>\<rparr>"

definition box_pub_demo :: "char \<Rightarrow> string" where
  "box_pub_demo c = replicate 43 c @ ''=''"

theorem Enroll_success_witness:
  "\<exists>st' res. Enroll enroll_lib_demo 5 enroll_demo ''ek_1.s3cret'' ''UKEY'' ''Web_1'' (box_pub_demo CHR ''a'') =
      (st', Some res) \<and> st' \<noteq> enroll_demo \<and> free_for pki_demo ''t_1'' (er_SproutID res) ''UKEY''"
proof -
  let ?run = "Enroll enroll_lib_demo 5 enroll_demo ''ek_1.s3cret'' ''UKEY'' ''Web_1'' (box_pub_demo CHR ''a'')"
  have some: "map_option er_SproutID (snd ?run) = Some ''web-1''" by code_simp
  obtain st' r where run0: "?run = (st', r)" by (cases ?run)
  from some[unfolded run0 snd_conv] obtain res where "r = Some res" by (cases r) simp_all
  with run0 have run: "?run = (st', Some res)" by simp
  have "SproutIDAndTenantForNKey (en_pki enroll_demo) ''UKEY'' = Inl ErrSproutIDNotFound" by code_simp
  moreover have "length (normalize_host ''Web_1'') \<le> 250" by code_simp
  moreover have "splitJoinToken ''ek_1.s3cret'' = Some (''ek_1'', ''s3cret'')" by code_simp
  moreover have "tbl_ok (pki_nkeys (en_pki enroll_demo))" "tbl_ok (en_keys enroll_demo)"
    "tbl_get (en_keys enroll_demo) ''ek_1'' = Some join_key_demo"
    using pki_demo_ok join_keys_demo_ok by (simp_all add: enroll_demo_def)
  ultimately have "tbl_get (en_keys st') ''ek_1'' = Some (join_key_demo\<lparr>ek_UsedCount := 1\<rparr>) \<and>
      free_for (en_pki enroll_demo) (ek_TenantID join_key_demo) (er_SproutID res) ''UKEY''"
    using Enroll_success[OF run] by (auto simp: join_key_demo_def)
  moreover have "tbl_get (en_keys enroll_demo) ''ek_1'' \<noteq> Some (join_key_demo\<lparr>ek_UsedCount := 1\<rparr>)"
    using join_keys_demo_ok by (simp add: enroll_demo_def join_key_demo_def)
  ultimately show ?thesis using run by (auto simp: enroll_demo_def join_key_demo_def)
qed

text \<open>
  For a host name of 252 or 253 valid characters that another key
  already holds, the ID the enrollment flow settles on is longer than the 253
  characters a sprout ID may have: the first suffix is taken, whoever holds it,
  because the lookup of an invalid ID reports it as free.
\<close>

theorem enroll_long_hostname_gets_invalid_id:
  assumes "tbl_ok (pki_nkeys st)" "IsValidSproutID (normalize_host hostname)"
    and "length (normalize_host hostname) > 251"
    and "\<not> free_for st tid (normalize_host hostname) nkeyPub"
  shows "resolveEnrollSproutID st tid hostname nkeyPub = Some (normalize_host hostname @ ''_1'') \<and>
    \<not> IsValidSproutID (normalize_host hostname @ ''_1'')"
proof -
  let ?base = "normalize_host hostname"
  let ?sid = "?base @ ''_'' @ itoa 1"
  have ok: "nkeys_ok st" using assms(1) by (simp add: nkeys_ok_def)
  obtain registered matches where ex: "NKeyExistsInTenant st tid ?base nkeyPub = (registered, matches)" by fastforce
  have taken: "registered" "\<not> matches" using exists_free[OF ok assms(2) ex] assms(4) by auto
  have "itoa 1 \<noteq> []" by (rule itoa_digits)
  then have "length ?sid > 253" using assms(3) by (cases "itoa 1") auto
  then have inv: "\<not> IsValidSproutID ?sid" by (simp add: IsValidSproutID_def)
  then have "NKeyExistsInTenant st tid ?sid nkeyPub = (False, False)"
    by (simp add: NKeyExistsInTenant_def findNKeyRowInTenant_def)
  then have "enroll_suffix 99 1 st tid ?base nkeyPub = Some ?sid"
    by (simp add: eval_nat_numeral(3)[of "num.Bit1 _"] numeral_eq_Suc Let_def del: append_Cons append_Nil)
  moreover have "itoa 1 = ''1''" by code_simp
  ultimately show ?thesis using assms(2) ex taken inv by (auto simp: resolveEnrollSproutID_def Let_def)
qed

definition long_pki :: pki_state where
  "long_pki = \<lparr>pki_org = ''acme'', pki_nkeys = \<lparr>tbl_rows = [((''t_1'', replicate 253 CHR ''a''),
      \<lparr>nk_NKey = ''UA'', nk_State = ''accepted''\<rparr>)], tbl_up = True\<rparr>,
    pki_tenants = \<lparr>tbl_rows = [], tbl_up = True\<rparr>, pki_reloads = []\<rparr>"

theorem enroll_long_hostname_witness:
  "resolveEnrollSproutID long_pki ''t_1'' (replicate 253 CHR ''a'') ''UB'' =
     Some (normalize_host (replicate 253 CHR ''a'') @ ''_1'') \<and> \<not> IsValidSproutID (normalize_host (replicate 253 CHR ''a'') @ ''_1'')"
proof (rule enroll_long_hostname_gets_invalid_id)
  have n: "normalize_host (replicate 253 CHR ''a'') = replicate 253 CHR ''a''" by code_simp
  show "tbl_ok (pki_nkeys long_pki)" by (simp add: long_pki_def tbl_ok_def tbl_wf_def)
  show "length (normalize_host (replicate 253 CHR ''a'')) > 251" unfolding n by simp
  show "IsValidSproutID (normalize_host (replicate 253 CHR ''a''))" by code_simp
  show "\<not> free_for long_pki ''t_1'' (normalize_host (replicate 253 CHR ''a'')) ''UB''"
    unfolding n by (simp add: free_for_def long_pki_def tbl_get_def)
qed

section \<open>Box key rotation\<close>

lemma tbl_get_update_where:
  "tbl_up t \<Longrightarrow> tbl_get (tbl_update_where t P f) k = map_option (\<lambda>r. if P k r then f r else r) (tbl_get t k)"
proof -
  have *: "map_of (map (\<lambda>(k, r). (k, if P k r then f r else r)) xs) k =
      map_option (\<lambda>r. if P k r then f r else r) (map_of xs k)" for xs
    by (induction xs) auto
  show "tbl_up t \<Longrightarrow> ?thesis" by (simp add: tbl_update_where_def tbl_get_def *)
qed

lemma tbl_ok_update_where [simp]: "tbl_ok t \<Longrightarrow> tbl_ok (tbl_update_where t P f)"
  by (simp add: tbl_ok_def tbl_wf_def tbl_update_where_def comp_def case_prod_unfold)

lemma tbl_up_update_where [simp]: "tbl_up (tbl_update_where t P f) = tbl_up t"
  by (simp add: tbl_update_where_def)

text \<open>The public keys of a sprout whose row satisfies a condition, as a query reads them.\<close>

definition pubs_where :: "box_db \<Rightarrow> string \<Rightarrow> string \<Rightarrow> (boxKeyRow \<Rightarrow> bool) \<Rightarrow> string set" where
  "pubs_where db tid sid Q = {p. \<exists>r. tbl_get db (tid, sid, p) = Some r \<and> Q r}"

lemma pubs_where_mem:
  "p \<in> pubs_where db tid sid Q \<longleftrightarrow> (case tbl_get db (tid, sid, p) of None \<Rightarrow> False | Some r \<Rightarrow> Q r)"
  by (auto simp: pubs_where_def split: option.splits)

lemma set_box_query:
  assumes "tbl_ok db"
  shows "set (map (\<lambda>((t, s, p), r). p) (tbl_find db (\<lambda>(t, s, p) r. t = tid \<and> s = sid \<and> Q r))) =
    pubs_where db tid sid Q"
proof -
  define rows where "rows = tbl_find db (\<lambda>(t, s, p) r. t = tid \<and> s = sid \<and> Q r)"
  have mem: "((t, s, p), r) \<in> set rows \<longleftrightarrow> tbl_get db (t, s, p) = Some r \<and> t = tid \<and> s = sid \<and> Q r" for t s p r
    using assms by (simp add: rows_def tbl_find_get tbl_okD)
  have "p \<in> set (map (\<lambda>((t, s, p), r). p) rows) \<longleftrightarrow> (\<exists>t s r. ((t, s, p), r) \<in> set rows)" for p
    by (auto simp: image_iff) (metis case_prod_conv)
  then show ?thesis unfolding rows_def[symmetric] pubs_where_def by (auto simp: mem)
qed

lemma active_pubs_set:
  "tbl_ok db \<Longrightarrow> set (active_pubs db tid sid) = pubs_where db tid sid (\<lambda>r. bk_State r = boxKeyStateActive)"
  unfolding active_pubs_def by (rule set_box_query)

lemma tbl_find_filter:
  "filter (\<lambda>(k, r). R r) (tbl_find db (\<lambda>(t, s, p) r. t = tid \<and> s = sid \<and> Q r)) =
     tbl_find db (\<lambda>(t, s, p) r. t = tid \<and> s = sid \<and> (Q r \<and> R r))"
  by (auto simp: tbl_find_def intro!: filter_cong)

text \<open>What a read of the valid keys returns.\<close>

lemma ValidSproutBoxKeys_read:
  assumes "tbl_ok db"
    and act: "pubs_where db tid sid (\<lambda>r. bk_State r = boxKeyStateActive) = {a}" "a \<noteq> []"
  shows "\<exists>grace. snd (ValidSproutBoxKeys db now tid sid) = Inr (a, grace) \<and>
    set grace = pubs_where db tid sid (grace_open now)"
proof -
  define db1 where "db1 = tbl_update_where db (\<lambda>(t, s, p) r. t = tid \<and> s = sid \<and> grace_expired now r)
      (\<lambda>r. r\<lparr>bk_State := boxKeyStateRevoked\<rparr>)"
  let ?Q = "\<lambda>r. bk_State r = boxKeyStateActive \<or> grace_open now r"
  have ok1: "tbl_ok db1" using assms(1) by (simp add: db1_def)
  have get1: "tbl_get db1 (tid, sid, p) = map_option
      (\<lambda>r. if grace_expired now r then r\<lparr>bk_State := boxKeyStateRevoked\<rparr> else r) (tbl_get db (tid, sid, p))" for p
    using assms(1) by (simp add: db1_def tbl_get_update_where tbl_okD)
  have actives: "pubs_where db1 tid sid (\<lambda>r. ?Q r \<and> bk_State r = boxKeyStateActive) = {a}"
    unfolding act(1)[symmetric]
    by (rule set_eqI) (auto simp: pubs_where_mem get1 grace_expired_def box_states split: option.splits if_splits)
  have grace: "pubs_where db1 tid sid (\<lambda>r. ?Q r \<and> bk_State r = boxKeyStateGrace) =
      pubs_where db tid sid (grace_open now)"
    by (rule set_eqI)
      (auto simp: pubs_where_mem get1 grace_expired_def grace_open_def box_states split: if_splits option.splits)
  let ?al = "map (\<lambda>((t, s, p), r). p) (tbl_find db1 (\<lambda>(t, s, p) r. t = tid \<and> s = sid \<and>
      (?Q r \<and> bk_State r = boxKeyStateActive)))"
  let ?gl = "map (\<lambda>((t, s, p), r). p) (tbl_find db1 (\<lambda>(t, s, p) r. t = tid \<and> s = sid \<and>
      (?Q r \<and> bk_State r = boxKeyStateGrace)))"
  have al: "set ?al = {a}" and gl: "set ?gl = pubs_where db tid sid (grace_open now)"
    unfolding set_box_query[OF ok1] actives grace by simp_all
  then have ne: "?al \<noteq> []" by (metis empty_iff empty_set insertI1)
  then have last: "last ?al = a" using al last_in_set by blast
  have "snd (ValidSproutBoxKeys db now tid sid) = Inr (a, ?gl)"
    using assms(1) act(2) ne last
    by (simp only: ValidSproutBoxKeys_def Let_def tbl_find_filter tbl_okD db1_def[symmetric]) simp
  with gl show ?thesis by blast
qed

lemma RotateSproutBoxKey_get:
  fixes db :: box_db and now g :: int and tid sid newPub :: string
  assumes "tbl_ok db" "decodeBoxPub newPub" "newPub \<notin> pubs_where db tid sid (\<lambda>r. bk_State r = boxKeyStateActive)"
  defines "db' \<equiv> fst (RotateSproutBoxKey db now tid sid newPub g)"
  shows "tbl_ok db'"
    "tbl_get db' (t, s, p) =
      (if (t, s, p) = (tid, sid, newPub) then Some box_active
       else if t = tid \<and> s = sid
       then map_option (\<lambda>r. if bk_State r = boxKeyStateActive
              then \<lparr>bk_State = boxKeyStateGrace, bk_GraceUntil = Some (now + g)\<rparr> else r) (tbl_get db (t, s, p))
       else tbl_get db (t, s, p))"
proof -
  let ?db1 = "tbl_update_where db (\<lambda>(t, s, p) r. t = tid \<and> s = sid \<and> p \<in> set (active_pubs db tid sid))
      (\<lambda>r. \<lparr>bk_State = boxKeyStateGrace, bk_GraceUntil = Some (now + g)\<rparr>)"
  have up: "tbl_up db" using assms(1) by (rule tbl_okD)
  have db': "db' = tbl_put ?db1 (tid, sid, newPub) box_active"
    using assms(2,3) up by (simp add: db'_def RotateSproutBoxKey_def Let_def active_pubs_set[OF assms(1)])
  show "tbl_ok db'" using assms(1) by (simp add: db')
  have get1: "tbl_get ?db1 (t, s, p) = (if t = tid \<and> s = sid
       then map_option (\<lambda>r. if bk_State r = boxKeyStateActive
              then \<lparr>bk_State = boxKeyStateGrace, bk_GraceUntil = Some (now + g)\<rparr> else r) (tbl_get db (t, s, p))
       else tbl_get db (t, s, p))"
    using up by (cases "tbl_get db (t, s, p)")
      (auto simp: tbl_get_update_where active_pubs_set[OF assms(1)] pubs_where_def)
  have "tbl_get db' (t, s, p) =
      (if (t, s, p) = (tid, sid, newPub) then Some box_active else tbl_get ?db1 (t, s, p))"
    unfolding db' by (rule tbl_get_put) (simp add: assms(1))
  then show "tbl_get db' (t, s, p) =
      (if (t, s, p) = (tid, sid, newPub) then Some box_active
       else if t = tid \<and> s = sid
       then map_option (\<lambda>r. if bk_State r = boxKeyStateActive
              then \<lparr>bk_State = boxKeyStateGrace, bk_GraceUntil = Some (now + g)\<rparr> else r) (tbl_get db (t, s, p))
       else tbl_get db (t, s, p))"
    unfolding get1 .
qed

text \<open>
  After a sprout rotates to a new box key, the new key is its only
  active one, each previously active key stays acceptable exactly until the
  grace window closes, keys already in an earlier window keep theirs, and no
  other sprout's keys change.
\<close>

theorem box_key_rotation:
  assumes "tbl_ok db" "decodeBoxPub newPub"
    and "newPub \<notin> pubs_where db tid sid (\<lambda>r. bk_State r = boxKeyStateActive)"
    and "RotateSproutBoxKey db now tid sid newPub graceDuration = (db', err)"
  shows "err = None \<and>
    (\<exists>grace. snd (ValidSproutBoxKeys db' later tid sid) = Inr (newPub, grace) \<and>
      set grace =
        {p. p \<in> pubs_where db tid sid (\<lambda>r. bk_State r = boxKeyStateActive) \<and> later < now + graceDuration} \<union>
        (pubs_where db tid sid (grace_open later) - {newPub})) \<and>
    ((tid', sid') \<noteq> (tid, sid) \<longrightarrow> tbl_get db' (tid', sid', pub) = tbl_get db (tid', sid', pub))"
proof -
  note rot = RotateSproutBoxKey_get[OF assms(1-3), of now graceDuration, unfolded assms(4) fst_conv]
  have "tbl_up db" using assms(1) by (rule tbl_okD)
  then have err: "err = None"
    using assms by (auto simp: RotateSproutBoxKey_def Let_def split: if_splits)
  have ne: "newPub \<noteq> []" using assms(2) by (auto simp: decodeBoxPub_def)
  have act: "pubs_where db' tid sid (\<lambda>r. bk_State r = boxKeyStateActive) = {newPub}"
    by (rule set_eqI)
      (auto simp: pubs_where_mem rot(2) box_active_def box_states split: option.splits if_splits)
  have "pubs_where db' tid sid (grace_open later) =
        {p. p \<in> pubs_where db tid sid (\<lambda>r. bk_State r = boxKeyStateActive) \<and> later < now + graceDuration} \<union>
        (pubs_where db tid sid (grace_open later) - {newPub})"
    using assms(3)
    by (intro set_eqI)
      (auto simp: pubs_where_mem rot(2) box_active_def grace_open_def box_states split: option.splits if_splits)
  with ValidSproutBoxKeys_read[OF rot(1) act ne, of later] err show ?thesis
    by (auto simp: rot(2))
qed

definition box_demo :: box_db where
  "box_demo = \<lparr>tbl_rows = [((''t_1'', ''web'', box_pub_demo CHR ''a''), box_active)], tbl_up = True\<rparr>"

theorem box_key_rotation_witness:
  "\<exists>grace. snd (ValidSproutBoxKeys (fst (RotateSproutBoxKey box_demo 10 ''t_1'' ''web'' (box_pub_demo CHR ''b'') 60))
      69 ''t_1'' ''web'') = Inr (box_pub_demo CHR ''b'', grace) \<and> box_pub_demo CHR ''a'' \<in> set grace"
proof -
  let ?rot = "RotateSproutBoxKey box_demo 10 ''t_1'' ''web'' (box_pub_demo CHR ''b'') 60"
  have ok: "tbl_ok box_demo" by (simp add: box_demo_def tbl_ok_def tbl_wf_def)
  have dec: "decodeBoxPub (box_pub_demo CHR ''b'')" by code_simp
  have neq: "box_pub_demo CHR ''a'' \<noteq> box_pub_demo CHR ''b''" by code_simp
  have act: "pubs_where box_demo ''t_1'' ''web'' (\<lambda>r. bk_State r = boxKeyStateActive) = {box_pub_demo CHR ''a''}"
    by (auto simp: pubs_where_def box_demo_def tbl_get_def box_active_def split: if_splits)
  have "box_pub_demo CHR ''b'' \<notin> pubs_where box_demo ''t_1'' ''web'' (\<lambda>r. bk_State r = boxKeyStateActive)"
    unfolding act using neq by simp
  from box_key_rotation[OF ok dec this prod.collapse[symmetric], of 10 60 69] show ?thesis
    by (force simp: act)
qed

end
