(* ===== verification/Cook_Types.thy ===== *)
theory Cook_Types
  imports Grlx_Prelude "HOL-Library.Multiset"
begin

text \<open>
  The data of the cook engine (\<open>internal/cook/cooktypes.go\<close>): steps with their
  requisites, step completions and their wire form, and the per-sprout summary
  of \<open>summary.go\<close>.  Times are nanoseconds since Go's zero time, which is 0.
\<close>

section \<open>Steps\<close>

datatype CompletionStatus = StepNotStarted | StepInProgress | StepCompleted | StepFailed | StepSkipped

type_synonym StepID = string
type_synonym ReqType = string

definition OnChanges :: ReqType where "OnChanges = ''onchanges''"
definition OnFail :: ReqType where "OnFail = ''onfail''"
definition Require :: ReqType where "Require = ''require''"
definition OnChangesAny :: ReqType where "OnChangesAny = ''onchanges_any''"
definition OnFailAny :: ReqType where "OnFailAny = ''onfail_any''"
definition RequireAny :: ReqType where "RequireAny = ''require_any''"

lemmas reqtype_defs = OnChanges_def OnFail_def Require_def OnChangesAny_def OnFailAny_def RequireAny_def

text \<open>
  \<open>Requisite.Steps\<close> points at the steps the IDs name once a recipe is assembled; the
  IDs carry the relation.
\<close>

record Requisite =
  Condition :: ReqType
  StepIDs :: "StepID list"

record Cond =
  cond_Test :: string
  cond_Negate :: bool

record Register =
  reg_Name :: string
  reg_Sensitive :: bool

text \<open>
  The fields of a step that running it as an \<open>on_exit\<close> step reads, and a whole step.
  An \<open>on_exit\<close> step's own requisites, condition and \<open>on_exit\<close> list are never looked at.
\<close>

record exit_step =
  st_Ingredient :: string
  st_Method :: string
  st_ID :: StepID
  st_Properties :: "(string \<times> val) list"
  st_Register :: "Register option"
  st_Secrets :: "(string \<times> string) list"

record Step = exit_step +
  st_Requisites :: "Requisite list"
  st_IsRequisite :: bool
  st_Cond :: "Cond option"
  st_OnExit :: "exit_step list"

record RecipeEnvelope =
  env_JobID :: string
  env_Steps :: "Step list"
  env_Test :: bool
  env_InvokedBy :: string

text \<open>A Go error is kept by its message.\<close>

record StepCompletion =
  sc_ID :: StepID
  sc_Status :: CompletionStatus
  sc_ChangesMade :: bool
  sc_Changes :: "string list"
  sc_Started :: int
  sc_Duration :: int
  sc_Error :: "string option"

definition AllIDs :: "Requisite list \<Rightarrow> StepID list" where
  "AllIDs r = concat (map StepIDs r)"

text \<open>The requisite relation of a list of steps: \<open>(r, i)\<close> when \<open>i\<close> names \<open>r\<close> in some requisite.\<close>

definition requires :: "Step list \<Rightarrow> (StepID \<times> StepID) set" where
  "requires steps = {(r, st_ID s) |r s. s \<in> set steps \<and> r \<in> set (AllIDs (st_Requisites s))}"

lemma finite_requires: "finite (requires steps)"
proof -
  have "requires steps = (\<Union>s \<in> set steps. (\<lambda>r. (r, st_ID s)) ` set (AllIDs (st_Requisites s)))"
    by (auto simp: requires_def)
  then show ?thesis by simp
qed

text \<open>The equality tests build maps, so the last entry of a condition and the set of the IDs decide.\<close>

definition Requisite_Equals :: "Requisite \<Rightarrow> Requisite \<Rightarrow> bool" where
  "Requisite_Equals r other =
     (Condition r = Condition other \<and> length (StepIDs r) = length (StepIDs other) \<and>
      list_all (\<lambda>k. k \<in> set (StepIDs other) \<or> k = []) (StepIDs r))"

definition last_by_condition :: "Requisite list \<Rightarrow> ReqType \<Rightarrow> Requisite option" where
  "last_by_condition r k = map_of (rev (map (\<lambda>q. (Condition q, q)) r)) k"

definition RequisiteSet_Equals :: "Requisite list \<Rightarrow> Requisite list \<Rightarrow> bool" where
  "RequisiteSet_Equals r other =
     (length r = length other \<and>
      list_all (\<lambda>q. case (last_by_condition r (Condition q), last_by_condition other (Condition q)) of
          (Some q1, Some q2) \<Rightarrow> Requisite_Equals q1 q2 | _ \<Rightarrow> False) r)"

section \<open>The wire form of a step error\<close>

definition errLegacyStepError :: string where
  "errLegacyStepError = ''step error (message not recorded by the sending grlx version)''"

text \<open>\<open>MarshalJSON\<close>: the \<open>Error\<close> field is the message, or null.\<close>

definition marshal_error :: "string option \<Rightarrow> val" where
  "marshal_error e = (case e of None \<Rightarrow> VNull | Some m \<Rightarrow> VStr m)"

definition decodeStepError :: "val \<Rightarrow> string option" where
  "decodeStepError v = (case v of VNull \<Rightarrow> None | VStr msg \<Rightarrow> Some msg | _ \<Rightarrow> Some errLegacyStepError)"

text \<open>
  \<open>UnmarshalJSON\<close>: an absent key leaves the error of the target as it was.  A
  \<open>null\<close> value reaches the raw message as its text, so it decodes to no error.
\<close>

definition unmarshal_error :: "val option \<Rightarrow> string option \<Rightarrow> string option" where
  "unmarshal_error field current = (case field of None \<Rightarrow> current | Some v \<Rightarrow> decodeStepError v)"

lemma step_error_roundtrip: "unmarshal_error (Some (marshal_error e)) current = e"
  by (cases e) (simp_all add: unmarshal_error_def marshal_error_def decodeStepError_def)

lemma legacy_step_error: "unmarshal_error (Some (VMap kvs)) current = Some errLegacyStepError"
  by (simp add: unmarshal_error_def decodeStepError_def)

section \<open>Summaries\<close>

record Summary =
  sum_Succeeded :: nat
  sum_Failures :: nat
  sum_Changes :: nat
  sum_Errors :: "string option list"

definition add_step :: "Summary \<Rightarrow> StepCompletion \<Rightarrow> Summary" where
  "add_step s0 c =
     (let s = (if sc_ChangesMade c then s0\<lparr>sum_Changes := sum_Changes s0 + 1\<rparr> else s0) in
      case sc_Status c of
        StepCompleted \<Rightarrow> s\<lparr>sum_Succeeded := sum_Succeeded s + 1\<rparr>
      | StepFailed \<Rightarrow> s\<lparr>sum_Failures := sum_Failures s + 1, sum_Errors := sum_Errors s @ [sc_Error c]\<rparr>
      | _ \<Rightarrow> s)"

definition zero_summary :: Summary where
  "zero_summary = \<lparr>sum_Succeeded = 0, sum_Failures = 0, sum_Changes = 0, sum_Errors = []\<rparr>"

fun SummarizeSteps_loop ::
  "(string \<times> Summary) list \<Rightarrow> (string \<times> StepCompletion) list \<Rightarrow> (string \<times> Summary) list" where
  "SummarizeSteps_loop m [] = m"
| "SummarizeSteps_loop m ((sprout, c) # steps) =
     SummarizeSteps_loop
       (AList.update sprout (add_step (case map_of m sprout of None \<Rightarrow> zero_summary | Some s \<Rightarrow> s) c) m) steps"

definition SummarizeSteps :: "(string \<times> StepCompletion) list \<Rightarrow> (string \<times> Summary) list" where
  "SummarizeSteps steps = SummarizeSteps_loop [] steps"

text \<open>What a summary should say of one sprout's completions.\<close>

definition summary_of :: "StepCompletion list \<Rightarrow> Summary" where
  "summary_of cs = \<lparr>
     sum_Succeeded = length (filter (\<lambda>c. sc_Status c = StepCompleted) cs),
     sum_Failures = length (filter (\<lambda>c. sc_Status c = StepFailed) cs),
     sum_Changes = length (filter sc_ChangesMade cs),
     sum_Errors = map sc_Error (filter (\<lambda>c. sc_Status c = StepFailed) cs)\<rparr>"

lemma summary_of_Nil [simp]: "summary_of [] = zero_summary"
  by (simp add: summary_of_def zero_summary_def)

lemma add_step_summary_of [simp]: "add_step (summary_of cs) c = summary_of (cs @ [c])"
  by (cases "sc_Status c") (simp_all add: add_step_def summary_of_def Let_def)

lemma add_step_zero: "add_step zero_summary c = summary_of [c]"
  using add_step_summary_of[of "[]" c] by simp

definition completions_of :: "string \<Rightarrow> (string \<times> StepCompletion) list \<Rightarrow> StepCompletion list" where
  "completions_of sprout steps = map snd (filter (\<lambda>(s, c). s = sprout) steps)"

lemma SummarizeSteps_loop_spec:
  assumes "\<forall>s. map_of m s = (if completions_of s pre = [] then None else Some (summary_of (completions_of s pre)))"
  shows "map_of (SummarizeSteps_loop m steps) sprout =
     (if completions_of sprout (pre @ steps) = [] then None
      else Some (summary_of (completions_of sprout (pre @ steps))))"
  using assms
proof (induction steps arbitrary: m pre)
  case Nil
  then show ?case by simp
next
  case (Cons sc steps)
  obtain s c where sc: "sc = (s, c)" by (cases sc)
  let ?m = "AList.update s (add_step (case map_of m s of None \<Rightarrow> zero_summary | Some x \<Rightarrow> x) c) m"
  have eq: "(case map_of m s of None \<Rightarrow> zero_summary | Some x \<Rightarrow> x) = summary_of (completions_of s pre)"
    using Cons.prems by (simp add: completions_of_def)
  have "\<forall>s'. map_of ?m s' =
      (if completions_of s' (pre @ [sc]) = [] then None else Some (summary_of (completions_of s' (pre @ [sc]))))"
    using Cons.prems by (simp add: eq update_conv' sc) (simp add: completions_of_def add_step_zero)
  from Cons.IH[OF this] show ?case by (simp add: sc)
qed

lemma SummarizeSteps_spec:
  "map_of (SummarizeSteps steps) sprout =
     (if completions_of sprout steps = [] then None else Some (summary_of (completions_of sprout steps)))"
  unfolding SummarizeSteps_def using SummarizeSteps_loop_spec[of "[]" "[]"] by (simp add: completions_of_def)

end
