(* ===== verification/Jobs_Index.thy ===== *)
theory Jobs_Index
  imports Cook_Types Props
begin

text \<open>
  The job-status index (\<open>internal/jobs/status_index.go\<close>): one row per tenant,
  sprout and job, written by several farmer replicas at once.  An event is two
  statements, an upsert of the counters and flags and a recomputation of the
  status; each is atomic, and statements of different replicas interleave
  freely.  A statement that loses a write conflict is rolled back and retried.
\<close>

section \<open>Rows and events\<close>

definition JobIndexStatusPending :: string where "JobIndexStatusPending = ''pending''"
definition JobIndexStatusRunning :: string where "JobIndexStatusRunning = ''running''"
definition JobIndexStatusSucceeded :: string where "JobIndexStatusSucceeded = ''succeeded''"
definition JobIndexStatusFailed :: string where "JobIndexStatusFailed = ''failed''"

lemmas index_status_defs =
  JobIndexStatusPending_def JobIndexStatusRunning_def JobIndexStatusSucceeded_def JobIndexStatusFailed_def

record jobStatusRow =
  jr_Status :: string
  jr_StepsTotal :: "nat option"
  jr_StepsReported :: nat
  jr_StepFailed :: bool
  jr_Started :: bool
  jr_Finished :: bool
  jr_TimedOut :: bool
  jr_UpdatedAt :: int

type_synonym job_key = "string \<times> (string \<times> string)"
type_synonym index_db = "(job_key, jobStatusRow) table"

record jobEvent =
  je_stepsTotal :: "nat option"
  je_started :: bool
  je_step :: bool
  je_stepFailed :: bool
  je_finished :: bool
  je_timedOut :: bool

definition no_event :: jobEvent where
  "no_event = \<lparr>je_stepsTotal = None, je_started = False, je_step = False, je_stepFailed = False,
     je_finished = False, je_timedOut = False\<rparr>"

text \<open>\<open>steps_total IS NOT NULL AND steps_reported >= steps_total\<close>.\<close>

definition all_reported :: "nat option \<Rightarrow> nat \<Rightarrow> bool" where
  "all_reported tot reported = (case tot of None \<Rightarrow> False | Some n \<Rightarrow> reported \<ge> n)"

definition jobStatusExpr :: "jobStatusRow \<Rightarrow> string" where
  "jobStatusExpr r =
     (if jr_TimedOut r then JobIndexStatusFailed
      else if jr_Finished r \<and> all_reported (jr_StepsTotal r) (jr_StepsReported r)
      then (if jr_StepFailed r then JobIndexStatusFailed else JobIndexStatusSucceeded)
      else if jr_Started r \<or> jr_Finished r \<or> jr_StepsReported r > 0 then JobIndexStatusRunning
      else JobIndexStatusPending)"

definition classifyJobEvent :: "string \<Rightarrow> StepCompletion \<Rightarrow> jobEvent" where
  "classifyJobEvent jid step =
     (if sc_ID step = ''start-'' @ jid then no_event\<lparr>je_started := True\<rparr>
      else if sc_ID step = ''completed-'' @ jid then no_event\<lparr>je_finished := True\<rparr>
      else if sc_ID step = ''timeout-'' @ jid then no_event\<lparr>je_timedOut := True\<rparr>
      else no_event\<lparr>je_step := True, je_stepFailed := (sc_Status step = StepFailed)\<rparr>)"

section \<open>The two statements\<close>

text \<open>The row an event inserts, and what it assigns to a row that exists.\<close>

definition fresh_row :: "int \<Rightarrow> jobEvent \<Rightarrow> jobStatusRow" where
  "fresh_row now ev = \<lparr>jr_Status = JobIndexStatusPending, jr_StepsTotal = je_stepsTotal ev,
     jr_StepsReported = (if je_step ev then 1 else 0), jr_StepFailed = je_stepFailed ev,
     jr_Started = je_started ev, jr_Finished = je_finished ev, jr_TimedOut = je_timedOut ev,
     jr_UpdatedAt = now\<rparr>"

definition assign_row :: "int \<Rightarrow> jobEvent \<Rightarrow> jobStatusRow \<Rightarrow> jobStatusRow" where
  "assign_row now ev r = r\<lparr>
     jr_UpdatedAt := now,
     jr_StepsTotal := (case je_stepsTotal ev of None \<Rightarrow> jr_StepsTotal r | Some n \<Rightarrow> Some n),
     jr_StepsReported := (if je_step ev then jr_StepsReported r + 1 else jr_StepsReported r),
     jr_StepFailed := (je_stepFailed ev \<or> jr_StepFailed r),
     jr_Started := (je_started ev \<or> jr_Started r),
     jr_Finished := (je_finished ev \<or> jr_Finished r),
     jr_TimedOut := (je_timedOut ev \<or> jr_TimedOut r)\<rparr>"

definition upsertJobEvent :: "int \<Rightarrow> job_key \<Rightarrow> jobEvent \<Rightarrow> index_db \<Rightarrow> index_db" where
  "upsertJobEvent now k ev db =
     fst (tbl_upsert db k (case tbl_get db k of
            None \<Rightarrow> fresh_row now ev | Some r \<Rightarrow> assign_row now ev r))"

definition refreshJobStatus :: "int \<Rightarrow> job_key \<Rightarrow> index_db \<Rightarrow> index_db" where
  "refreshJobStatus now k db =
     (case tbl_get db k of
        None \<Rightarrow> db
      | Some r \<Rightarrow> fst (tbl_upsert db k (r\<lparr>jr_Status := jobStatusExpr r, jr_UpdatedAt := now\<rparr>)))"

text \<open>
  What one attempt of a statement meets: success, a conflict that rolls it back
  (with the context expiring during the wait or not), or another error, after
  which the write may or may not have been committed.
\<close>

datatype attempt = WOk | WConflict bool | WFail bool

definition conflictRetries :: nat where "conflictRetries = 5"

fun retry_loop :: "nat \<Rightarrow> attempt list \<Rightarrow> ('s \<Rightarrow> 's) \<Rightarrow> 's \<Rightarrow> 's \<times> bool" where
  "retry_loop 0 attempts stm s = (s, False)"
| "retry_loop (Suc left) attempts stm s =
     (case attempts of
        [] \<Rightarrow> (stm s, True)
      | WOk # rest \<Rightarrow> (stm s, True)
      | WFail committed # rest \<Rightarrow> (if committed then stm s else s, False)
      | WConflict expired # rest \<Rightarrow> if expired then (s, False) else retry_loop left rest stm s)"

definition retryOnConflict :: "attempt list \<Rightarrow> ('s \<Rightarrow> 's) \<Rightarrow> 's \<Rightarrow> 's \<times> bool" where
  "retryOnConflict attempts stm s = retry_loop conflictRetries attempts stm s"

definition indexable :: "string \<Rightarrow> string \<Rightarrow> string \<Rightarrow> bool" where
  "indexable tid sproutID jid =
     (\<not> (tid = [] \<or> length tid > 191 \<or> sproutID = [] \<or> length sproutID > 253 \<or>
          jid = [] \<or> length jid > 64))"

text \<open>No installed database is \<^term>\<open>None\<close>; the two attempt lists are what the two statements meet.\<close>

definition indexJobEvent ::
  "attempt list \<Rightarrow> attempt list \<Rightarrow> int \<Rightarrow> index_db option \<Rightarrow> string \<Rightarrow> string \<Rightarrow> string \<Rightarrow> jobEvent \<Rightarrow>
   index_db option" where
  "indexJobEvent at1 at2 now d tid sproutID jid ev =
     (case d of
        None \<Rightarrow> None
      | Some db \<Rightarrow>
          if \<not> indexable tid sproutID jid then Some db
          else let k = (tid, sproutID, jid);
                   (db1, written) = retryOnConflict at1 (upsertJobEvent now k ev) db
               in if \<not> written then Some db1
                  else Some (fst (retryOnConflict at2 (refreshJobStatus now k) db1)))"

definition indexJobCreation ::
  "attempt list \<Rightarrow> attempt list \<Rightarrow> int \<Rightarrow> index_db option \<Rightarrow> string \<Rightarrow> string \<Rightarrow> string \<Rightarrow> nat \<Rightarrow>
   index_db option" where
  "indexJobCreation at1 at2 now d tid sproutID jid steps =
     indexJobEvent at1 at2 now d tid sproutID jid (no_event\<lparr>je_stepsTotal := Some steps\<rparr>)"

definition reapJobStatusIndex :: "int \<Rightarrow> index_db option \<Rightarrow> index_db option" where
  "reapJobStatusIndex cutoff d = map_option (\<lambda>db. tbl_delete db (\<lambda>k r. jr_UpdatedAt r < cutoff)) d"

section \<open>Retrying\<close>

text \<open>A write takes effect at most once, and exactly once when the retry reports success.\<close>

lemma retry_loop_once:
  "retry_loop left attempts stm s = (s', b) \<Longrightarrow> s' = stm s \<or> (\<not> b \<and> s' = s)"
  by (induction left attempts stm s rule: retry_loop.induct)
     (auto split: list.splits attempt.splits if_splits)

lemma retry_loop_conflicts:
  "length cs < left \<Longrightarrow> \<forall>c \<in> set cs. c = WConflict False \<Longrightarrow>
   retry_loop left (cs @ WOk # rest) stm s = (stm s, True)"
proof (induction cs arbitrary: left)
  case Nil
  then show ?case by (cases left) auto
next
  case (Cons c cs)
  then show ?case by (cases left) auto
qed

section \<open>What a row accumulates\<close>

text \<open>The counters and flags a list of events amounts to, in whatever order they were applied.\<close>

definition steps_total :: "jobEvent list \<Rightarrow> nat option" where
  "steps_total evs = (case filter (\<lambda>ev. je_stepsTotal ev \<noteq> None) evs of
       [] \<Rightarrow> None | es \<Rightarrow> je_stepsTotal (last es))"

definition row_reflects :: "jobEvent list \<Rightarrow> jobStatusRow \<Rightarrow> bool" where
  "row_reflects evs r \<longleftrightarrow>
     jr_StepsTotal r = steps_total evs \<and>
     jr_StepsReported r = length (filter je_step evs) \<and>
     jr_StepFailed r = list_ex je_stepFailed evs \<and>
     jr_Started r = list_ex je_started evs \<and>
     jr_Finished r = list_ex je_finished evs \<and>
     jr_TimedOut r = list_ex je_timedOut evs"

text \<open>The status a set of events should give a job.\<close>

definition index_status :: "jobEvent list \<Rightarrow> string" where
  "index_status evs =
     (if list_ex je_timedOut evs then JobIndexStatusFailed
      else if list_ex je_finished evs \<and> all_reported (steps_total evs) (length (filter je_step evs))
      then (if list_ex je_stepFailed evs then JobIndexStatusFailed else JobIndexStatusSucceeded)
      else if list_ex je_started evs \<or> list_ex je_finished evs \<or> length (filter je_step evs) > 0
      then JobIndexStatusRunning else JobIndexStatusPending)"

lemma jobStatusExpr_reflects: "row_reflects evs r \<Longrightarrow> jobStatusExpr r = index_status evs"
  by (simp add: row_reflects_def jobStatusExpr_def index_status_def)

lemma row_reflects_fresh: "row_reflects [ev] (fresh_row now ev)"
  by (simp add: row_reflects_def fresh_row_def steps_total_def)

lemma row_reflects_assign: "row_reflects evs r \<Longrightarrow> row_reflects (evs @ [ev]) (assign_row now ev r)"
  by (auto simp: row_reflects_def assign_row_def steps_total_def split: list.splits option.splits)

text \<open>Creation events of one job agree on its step count, so the order of the events does not matter.\<close>

definition totals_agree :: "jobEvent list \<Rightarrow> bool" where
  "totals_agree evs \<longleftrightarrow> (\<exists>n. \<forall>ev \<in> set evs. je_stepsTotal ev \<noteq> None \<longrightarrow> je_stepsTotal ev = Some n)"

lemma steps_total_agree:
  assumes "totals_agree evs"
  shows "steps_total evs = (if \<exists>ev \<in> set evs. je_stepsTotal ev \<noteq> None
     then Some (SOME n. \<exists>ev \<in> set evs. je_stepsTotal ev = Some n) else None)"
proof (cases "\<exists>ev \<in> set evs. je_stepsTotal ev \<noteq> None")
  case True
  obtain n where n: "\<forall>ev \<in> set evs. je_stepsTotal ev \<noteq> None \<longrightarrow> je_stepsTotal ev = Some n"
    using assms by (auto simp: totals_agree_def)
  let ?es = "filter (\<lambda>ev. je_stepsTotal ev \<noteq> None) evs"
  have "?es \<noteq> []" using True by (auto simp: filter_empty_conv)
  then have "last ?es \<in> set ?es" by (rule last_in_set)
  then have "je_stepsTotal (last ?es) = Some n" using n by auto
  then have "steps_total evs = Some n"
    using \<open>?es \<noteq> []\<close> unfolding steps_total_def by (cases ?es) simp_all
  moreover have "(SOME n. \<exists>ev \<in> set evs. je_stepsTotal ev = Some n) = n"
  proof (rule some_equality)
    show "\<exists>ev \<in> set evs. je_stepsTotal ev = Some n" using True n by auto
    show "m = n" if "\<exists>ev \<in> set evs. je_stepsTotal ev = Some m" for m using that n by fastforce
  qed
  ultimately show ?thesis using True by simp
next
  case False
  then have "filter (\<lambda>ev. je_stepsTotal ev \<noteq> None) evs = []" by (auto simp: filter_empty_conv)
  then show ?thesis using False by (simp only: steps_total_def) simp
qed

lemma row_reflects_perm:
  assumes "mset evs = mset evs'" "totals_agree evs" "row_reflects evs r"
  shows "row_reflects evs' r"
proof -
  have s: "set evs = set evs'" using assms(1) by (metis set_mset_mset)
  then have t: "totals_agree evs'" using assms(2) by (simp add: totals_agree_def)
  have "length (filter P evs) = length (filter P evs')" for P
    using assms(1) by (metis mset_filter size_mset)
  moreover have "steps_total evs = steps_total evs'"
    by (simp only: steps_total_agree[OF assms(2)] steps_total_agree[OF t] s)
  ultimately show ?thesis
    using assms(3) s by (simp add: row_reflects_def list_ex_iff)
qed

section \<open>Interleaved statements\<close>

text \<open>
  Event \<open>i\<close> of a job is \<open>UpsertStmt i\<close> followed, some time later, by \<open>RefreshStmt i\<close>;
  the replicas' statements interleave in any order that respects this.
\<close>

datatype stmt = UpsertStmt nat | RefreshStmt nat

fun stmt_step :: "job_key \<Rightarrow> jobEvent list \<Rightarrow> index_db \<Rightarrow> int \<times> stmt \<Rightarrow> index_db" where
  "stmt_step k evs db (now, UpsertStmt i) = upsertJobEvent now k (evs ! i) db"
| "stmt_step k evs db (now, RefreshStmt i) = refreshJobStatus now k db"

definition run_stmts :: "job_key \<Rightarrow> jobEvent list \<Rightarrow> index_db \<Rightarrow> (int \<times> stmt) list \<Rightarrow> index_db" where
  "run_stmts k evs db sched = foldl (stmt_step k evs) db sched"

fun upserts :: "(int \<times> stmt) list \<Rightarrow> nat list" where
  "upserts [] = []"
| "upserts ((now, UpsertStmt i) # sched) = i # upserts sched"
| "upserts ((now, RefreshStmt i) # sched) = upserts sched"

definition schedule_of :: "jobEvent list \<Rightarrow> (int \<times> stmt) list \<Rightarrow> bool" where
  "schedule_of evs sched \<longleftrightarrow> mset (upserts sched) = mset [0..<length evs] \<and>
     (\<forall>pre t i post. sched = pre @ (t, UpsertStmt i) # post \<longrightarrow> RefreshStmt i \<in> snd ` set post)"

lemma upserts_append: "upserts (xs @ ys) = upserts xs @ upserts ys"
  by (induction xs rule: upserts.induct) auto

lemma tbl_ok_upsertJobEvent [simp]: "tbl_ok db \<Longrightarrow> tbl_ok (upsertJobEvent now k ev db)"
  by (simp add: upsertJobEvent_def tbl_ok_def)

lemma tbl_ok_refresh [simp]: "tbl_ok db \<Longrightarrow> tbl_ok (refreshJobStatus now k db)"
  by (simp add: refreshJobStatus_def tbl_ok_def split: option.splits)

lemma get_upsertJobEvent:
  "tbl_ok db \<Longrightarrow> tbl_get (upsertJobEvent now k ev db) k' =
     (if k' = k then Some (case tbl_get db k of None \<Rightarrow> fresh_row now ev | Some r \<Rightarrow> assign_row now ev r)
      else tbl_get db k')"
  by (simp add: upsertJobEvent_def tbl_get_upsert tbl_okD)

lemma get_refreshJobStatus:
  "tbl_ok db \<Longrightarrow> tbl_get (refreshJobStatus now k db) k' =
     (if k' = k then map_option (\<lambda>r. r\<lparr>jr_Status := jobStatusExpr r, jr_UpdatedAt := now\<rparr>) (tbl_get db k)
      else tbl_get db k')"
  by (auto simp: refreshJobStatus_def tbl_get_upsert tbl_okD split: option.splits)

lemma row_reflects_refresh [simp]:
  "row_reflects evs (r\<lparr>jr_Status := s, jr_UpdatedAt := now\<rparr>) = row_reflects evs r"
  by (simp add: row_reflects_def)

lemma jobStatusExpr_refresh [simp]:
  "jobStatusExpr (r\<lparr>jr_Status := s, jr_UpdatedAt := now\<rparr>) = jobStatusExpr r"
  by (simp add: jobStatusExpr_def)

lemma run_stmts_snoc [simp]:
  "run_stmts k evs db (sched @ [x]) = stmt_step k evs (run_stmts k evs db sched) x"
  by (simp add: run_stmts_def)

text \<open>After any prefix the row reflects the events upserted so far.\<close>

lemma run_stmts_row:
  assumes "tbl_ok db" "tbl_get db k = None"
  shows "tbl_ok (run_stmts k evs db sched) \<and>
    (case tbl_get (run_stmts k evs db sched) k of
       None \<Rightarrow> upserts sched = []
     | Some r \<Rightarrow> upserts sched \<noteq> [] \<and> row_reflects (map ((!) evs) (upserts sched)) r)"
proof (induction sched rule: rev_induct)
  case Nil
  then show ?case using assms by (simp add: run_stmts_def)
next
  case (snoc ts sched)
  obtain t s where ts: "ts = (t, s)" by (cases ts)
  let ?db = "run_stmts k evs db sched"
  show ?case
  proof (cases s)
    case (UpsertStmt i)
    then show ?thesis
      using snoc row_reflects_fresh row_reflects_assign
      by (cases "tbl_get ?db k") (simp_all add: ts upserts_append get_upsertJobEvent)
  next
    case (RefreshStmt i)
    then show ?thesis
      using snoc
      by (cases "tbl_get ?db k") (simp_all add: ts upserts_append get_refreshJobStatus)
  qed
qed

lemma run_stmts_other:
  "tbl_ok db \<Longrightarrow> k' \<noteq> k \<Longrightarrow> tbl_get (run_stmts k evs db sched) k' = tbl_get db k' \<and>
     tbl_ok (run_stmts k evs db sched)"
proof (induction sched rule: rev_induct)
  case Nil
  then show ?case by (simp add: run_stmts_def)
next
  case (snoc ts sched)
  then show ?case
    by (cases ts; cases "snd ts") (auto simp: run_stmts_def get_upsertJobEvent get_refreshJobStatus)
qed

lemma schedule_ends_in_refresh:
  assumes "schedule_of evs sched" "evs \<noteq> []"
  shows "\<exists>pre t i. sched = pre @ [(t, RefreshStmt i)]"
proof -
  have "length (upserts sched) = length evs"
    using assms(1) unfolding schedule_of_def by (metis length_upt minus_nat.diff_0 size_mset)
  then have "upserts sched \<noteq> []" using assms(2) by auto
  then have "sched \<noteq> []" by auto
  then obtain pre x where sched: "sched = pre @ [x]" by (cases sched rule: rev_cases) auto
  obtain t s where x: "x = (t, s)" by (cases x)
  show ?thesis
  proof (cases s)
    case (UpsertStmt i)
    with sched x have "sched = pre @ (t, UpsertStmt i) # []" by simp
    with assms(1) have "RefreshStmt i \<in> snd ` set ([] :: (int \<times> stmt) list)"
      unfolding schedule_of_def by blast
    then show ?thesis by simp
  next
    case (RefreshStmt i)
    with sched x have "sched = pre @ [(t, RefreshStmt i)]" by simp
    then show ?thesis by blast
  qed
qed

section \<open>Properties\<close>

text \<open>
  Property C8. The index converges whatever order the replicas' statements
  run in: once every event of a job has been upserted and its recomputation has
  run, the job's row holds exactly the counters and flags of the set of events
  and the status that set determines, and no other row has changed.
\<close>

theorem job_index_converges:
  assumes "tbl_ok db" "tbl_get db k = None" "evs \<noteq> []" "totals_agree evs" "schedule_of evs sched"
  shows "(\<exists>r. tbl_get (run_stmts k evs db sched) k = Some r \<and> row_reflects evs r \<and>
       jr_Status r = index_status evs) \<and>
     (\<forall>k'. k' \<noteq> k \<longrightarrow> tbl_get (run_stmts k evs db sched) k' = tbl_get db k')"
proof -
  obtain pre t i where sched: "sched = pre @ [(t, RefreshStmt i)]"
    using schedule_ends_in_refresh assms by blast
  let ?db = "run_stmts k evs db pre"
  have up: "upserts sched = upserts pre" by (simp add: sched upserts_append)
  have perm: "mset (map ((!) evs) (upserts pre)) = mset evs"
    using assms(5) by (simp add: schedule_of_def up) (metis map_nth mset_map mset_upt)
  then have "upserts pre \<noteq> []" using assms(3) by auto
  then obtain r where r: "tbl_get ?db k = Some r" "row_reflects (map ((!) evs) (upserts pre)) r"
    and ok: "tbl_ok ?db"
    using run_stmts_row[OF assms(1,2), of evs pre] by (auto split: option.splits)
  have "totals_agree (map ((!) evs) (upserts pre))"
    using perm assms(4) by (metis set_mset_mset totals_agree_def)
  then have refl: "row_reflects evs r" using row_reflects_perm[OF perm] r(2) by blast
  have "tbl_get (run_stmts k evs db sched) k = Some (r\<lparr>jr_Status := jobStatusExpr r, jr_UpdatedAt := t\<rparr>)"
    using r ok by (simp add: sched run_stmts_def get_refreshJobStatus)
  then show ?thesis
    using refl jobStatusExpr_reflects[OF refl] run_stmts_other[OF assms(1)] by simp
qed

definition evs_demo :: "jobEvent list" where
  "evs_demo = [no_event\<lparr>je_stepsTotal := Some 1\<rparr>, no_event\<lparr>je_step := True\<rparr>, no_event\<lparr>je_finished := True\<rparr>]"

definition sched_demo :: "(int \<times> stmt) list" where
  "sched_demo = [(1, UpsertStmt 1), (2, UpsertStmt 0), (3, RefreshStmt 1), (4, UpsertStmt 2), (5, RefreshStmt 2), (6, RefreshStmt 0)]"

definition index_demo :: index_db where "index_demo = \<lparr>tbl_rows = [], tbl_up = True\<rparr>"

definition key_demo :: job_key where "key_demo = (''acme'', ''w1'', ''j1'')"

lemma evs_demo_agree: "totals_agree evs_demo"
  unfolding totals_agree_def by (rule exI[of _ 1]) (simp add: evs_demo_def no_event_def)

lemma sched_demo_ok: "schedule_of evs_demo sched_demo"
  unfolding schedule_of_def
proof (intro conjI allI impI)
  show "mset (upserts sched_demo) = mset [0..<length evs_demo]" by code_simp
  show "RefreshStmt i \<in> snd ` set post" if "sched_demo = pre @ (t, UpsertStmt i) # post" for pre t i post
    using that by (auto simp: sched_demo_def Cons_eq_append_conv)
qed

theorem job_index_converges_witness:
  "\<exists>r. tbl_get (run_stmts key_demo evs_demo index_demo sched_demo) key_demo = Some r \<and>
     jr_Status r = ''succeeded''"
proof -
  have "tbl_ok index_demo" "tbl_get index_demo key_demo = None" "evs_demo \<noteq> []" by code_simp+
  from job_index_converges[OF this evs_demo_agree sched_demo_ok]
  obtain r where "tbl_get (run_stmts key_demo evs_demo index_demo sched_demo) key_demo = Some r"
    "jr_Status r = index_status evs_demo" by blast
  moreover have "index_status evs_demo = ''succeeded''" by code_simp
  ultimately show ?thesis by auto
qed

lemma steps_total_Some:
  assumes "steps_total es = Some m" "\<forall>ev \<in> set es. je_stepsTotal ev \<noteq> None \<longrightarrow> je_stepsTotal ev = Some n"
  shows "m = n"
proof -
  let ?fs = "filter (\<lambda>ev. je_stepsTotal ev \<noteq> None) es"
  have ne: "?fs \<noteq> []" using assms(1) by (auto simp: steps_total_def)
  then have "last ?fs \<in> set ?fs" by (rule last_in_set)
  moreover have "je_stepsTotal (last ?fs) = Some m"
    using assms(1) ne unfolding steps_total_def by (cases ?fs) simp_all
  ultimately show ?thesis using assms(2) by auto
qed

lemma steps_total_None: "steps_total es = None \<longleftrightarrow> (\<forall>ev \<in> set es. je_stepsTotal ev = None)"
proof
  let ?fs = "filter (\<lambda>ev. je_stepsTotal ev \<noteq> None) es"
  assume none: "steps_total es = None"
  have "?fs = []"
  proof (rule ccontr)
    assume ne: "?fs \<noteq> []"
    then have "last ?fs \<in> set ?fs" by (rule last_in_set)
    moreover have "je_stepsTotal (last ?fs) = None"
      using none ne unfolding steps_total_def by (cases ?fs) simp_all
    ultimately show False by auto
  qed
  then show "\<forall>ev \<in> set es. je_stepsTotal ev = None" by (auto simp: filter_empty_conv)
qed (simp add: steps_total_def)

lemma steps_total_append:
  assumes "\<forall>ev \<in> set (es @ rest). je_stepsTotal ev \<noteq> None \<longrightarrow> je_stepsTotal ev = Some n"
    and "steps_total es = Some n"
  shows "steps_total (es @ rest) = Some n"
proof -
  have "\<exists>ev \<in> set es. je_stepsTotal ev \<noteq> None" using assms(2) steps_total_None[of es] by auto
  then have "steps_total (es @ rest) \<noteq> None" using steps_total_None[of "es @ rest"] by auto
  then show ?thesis using steps_total_Some[OF _ assms(1)] by blast
qed

text \<open>
  A terminal status is final: if the creation events agree on the
  number of steps and each step reports at most once, then a job the index shows
  as succeeded stays so whatever events arrive later, short of a timeout, and
  none of its steps failed; a job it shows as failed stays failed.
\<close>

theorem terminal_index_status_final:
  assumes totals: "\<forall>ev \<in> set (es @ rest). je_stepsTotal ev \<noteq> None \<longrightarrow> je_stepsTotal ev = Some n"
    and steps: "length (filter je_step (es @ rest)) \<le> n"
    and failed: "\<forall>ev \<in> set (es @ rest). je_stepFailed ev \<longrightarrow> je_step ev"
  shows "(index_status es = JobIndexStatusSucceeded \<and> \<not> list_ex je_timedOut rest \<longrightarrow>
            index_status (es @ rest) = JobIndexStatusSucceeded \<and> \<not> list_ex je_stepFailed (es @ rest)) \<and>
         (index_status es = JobIndexStatusFailed \<longrightarrow> index_status (es @ rest) = JobIndexStatusFailed)"
proof (cases "list_ex je_timedOut es")
  case True
  then show ?thesis by (simp add: index_status_def index_status_defs)
next
  case False
  show ?thesis
  proof (cases "list_ex je_finished es \<and> all_reported (steps_total es) (length (filter je_step es))")
    case True
    then obtain m where m: "steps_total es = Some m" "m \<le> length (filter je_step es)"
      by (auto simp: all_reported_def split: option.splits)
    then have mn: "m = n" using steps_total_Some[OF m(1)] totals by simp
    have "length (filter je_step es) + length (filter je_step rest) \<le> n" using steps by simp
    then have "length (filter je_step rest) = 0" using m(2) mn by linarith
    then have "filter je_step rest = []" by simp
    then have nofail: "\<not> list_ex je_stepFailed rest"
      using failed by (auto simp: list_ex_iff filter_empty_conv)
    have "all_reported (steps_total (es @ rest)) (length (filter je_step (es @ rest)))"
      using steps_total_append[OF totals] m mn by (simp add: all_reported_def)
    then show ?thesis
      using True False nofail by (auto simp: index_status_def index_status_defs)
  next
    case notdone: False
    then have "index_status es \<noteq> JobIndexStatusSucceeded" "index_status es \<noteq> JobIndexStatusFailed"
      using False by (auto simp: index_status_def index_status_defs)
    then show ?thesis by simp
  qed
qed

theorem terminal_index_status_final_witness:
  "index_status (evs_demo @ [no_event\<lparr>je_started := True\<rparr>]) = JobIndexStatusSucceeded"
proof -
  have "\<forall>ev \<in> set (evs_demo @ [no_event\<lparr>je_started := True\<rparr>]).
      je_stepsTotal ev \<noteq> None \<longrightarrow> je_stepsTotal ev = Some 1"
    "\<forall>ev \<in> set (evs_demo @ [no_event\<lparr>je_started := True\<rparr>]). je_stepFailed ev \<longrightarrow> je_step ev"
    by (simp_all add: evs_demo_def no_event_def)
  moreover have "length (filter je_step (evs_demo @ [no_event\<lparr>je_started := True\<rparr>])) \<le> 1" by code_simp
  ultimately show ?thesis
    using terminal_index_status_final[of evs_demo "[no_event\<lparr>je_started := True\<rparr>]" 1]
    by (simp add: evs_demo_def no_event_def index_status_def steps_total_def all_reported_def)
qed

end
