(* ===== verification/Jobs_Store.thy ===== *)
theory Jobs_Store
  imports Jobs_Index Pki "HOL-Library.Product_Lexorder"
begin

text \<open>
  Farmer's job log (\<open>internal/jobs/store.go\<close>, \<open>listener.go\<close>, \<open>expiry.go\<close>): one
  object per job event in a bucket all replicas share, the index of its keys,
  the summary of a job, the store's queries and deletion, the two bus listeners
  that write it, and the reaper.  The bucket is a keyed table.  A log object is
  the list of its lines, each blank, unreadable, or what it decodes to.
  Messages arrive decoded (\<^term>\<open>None\<close> when the decoder fails).
\<close>

section \<open>Job status\<close>

datatype JobStatus = JobPending | JobRunning | JobSucceeded | JobFailed | JobPartial

fun JobStatus_String :: "JobStatus \<Rightarrow> string" where
  "JobStatus_String JobPending = ''pending''"
| "JobStatus_String JobRunning = ''running''"
| "JobStatus_String JobSucceeded = ''succeeded''"
| "JobStatus_String JobFailed = ''failed''"
| "JobStatus_String JobPartial = ''partial''"

definition JobStatus_Unmarshal :: "string \<Rightarrow> JobStatus option" where
  "JobStatus_Unmarshal str =
     (if str = ''pending'' then Some JobPending
      else if str = ''running'' then Some JobRunning
      else if str = ''succeeded'' then Some JobSucceeded
      else if str = ''failed'' then Some JobFailed
      else if str = ''partial'' then Some JobPartial
      else None)"

lemma JobStatus_roundtrip: "JobStatus_Unmarshal (JobStatus_String s) = Some s"
  by (cases s) (simp_all add: JobStatus_Unmarshal_def)

record JobSummary =
  js_JID :: string
  js_SproutID :: string
  js_Status :: JobStatus
  js_Steps :: "StepCompletion list"
  js_StartedAt :: int
  js_Duration :: int
  js_Succeeded :: nat
  js_Failed :: nat
  js_Skipped :: nat
  js_Total :: nat
  js_InvokedBy :: string

definition has_status :: "CompletionStatus \<Rightarrow> StepCompletion list \<Rightarrow> bool" where
  "has_status s steps = list_ex (\<lambda>c. sc_Status c = s) steps"

definition determineJobStatus :: "StepCompletion list \<Rightarrow> JobStatus" where
  "determineJobStatus steps =
     (if steps = [] then JobPending
      else let hasNotStarted = has_status StepNotStarted steps;
               hasInProgress = has_status StepInProgress steps;
               hasCompleted = has_status StepCompleted steps \<or> has_status StepSkipped steps;
               hasFailed = has_status StepFailed steps
           in if hasInProgress then JobRunning
              else if hasFailed then JobFailed
              else if hasNotStarted \<and> hasCompleted then JobPartial
              else if hasNotStarted then JobPending
              else JobSucceeded)"

text \<open>The loop of \<open>buildSummary\<close> over the times: the earliest start and the latest end so far.\<close>

definition time_step :: "int \<times> int \<Rightarrow> StepCompletion \<Rightarrow> int \<times> int" where
  "time_step acc step =
     (let (earliest, latestEnd) = acc in
      if sc_Started step = 0 then acc
      else let fin = sc_Started step + sc_Duration step in
           (if earliest = 0 \<or> sc_Started step < earliest then sc_Started step else earliest,
            if fin > latestEnd then fin else latestEnd))"

definition count_status :: "CompletionStatus \<Rightarrow> StepCompletion list \<Rightarrow> nat" where
  "count_status s steps = length (filter (\<lambda>c. sc_Status c = s) steps)"

definition buildSummary :: "string \<Rightarrow> string \<Rightarrow> StepCompletion list \<Rightarrow> JobSummary" where
  "buildSummary jid sproutID steps =
     (let (earliest, latestEnd) = foldl time_step (0, 0) steps in
      \<lparr>js_JID = jid, js_SproutID = sproutID, js_Status = determineJobStatus steps, js_Steps = steps,
       js_StartedAt = earliest,
       js_Duration = (if earliest \<noteq> 0 \<and> latestEnd \<noteq> 0 then latestEnd - earliest else 0),
       js_Succeeded = count_status StepCompleted steps, js_Failed = count_status StepFailed steps,
       js_Skipped = count_status StepSkipped steps, js_Total = length steps, js_InvokedBy = []\<rparr>)"

section \<open>Keys\<close>

definition jobKeyPrefix :: string where "jobKeyPrefix = ''jobs/''"
definition createdObject :: string where "createdObject = ''created.jsonl''"
definition metaObject :: string where "metaObject = ''meta.json''"
definition eventsDir :: string where "eventsDir = ''events/''"
definition logExt :: string where "logExt = ''.jsonl''"

lemmas job_key_consts = jobKeyPrefix_def createdObject_def metaObject_def eventsDir_def logExt_def

definition validKeySegment :: "string \<Rightarrow> bool" where
  "validKeySegment seg = (seg \<noteq> [] \<and> seg \<noteq> ''.'' \<and> seg \<noteq> ''..'' \<and> CHR ''/'' \<notin> set seg)"

definition sproutPrefix :: "string \<Rightarrow> string" where
  "sproutPrefix sproutID = jobKeyPrefix @ sproutID @ ''/''"

definition jobPrefix :: "string \<Rightarrow> string \<Rightarrow> string" where
  "jobPrefix sproutID jid = sproutPrefix sproutID @ jid @ ''/''"

definition createdKey :: "string \<Rightarrow> string \<Rightarrow> string" where
  "createdKey sproutID jid = jobPrefix sproutID jid @ createdObject"

definition metaKey :: "string \<Rightarrow> string \<Rightarrow> string" where
  "metaKey sproutID jid = jobPrefix sproutID jid @ metaObject"

text \<open>\<open>%020d\<close> of a time after 1970, in nanoseconds since then; the random suffix is a parameter.\<close>

definition unix_epoch :: int where "unix_epoch = 62135596800 * 1000000000"

definition pad20 :: "nat \<Rightarrow> string" where
  "pad20 n = replicate (20 - length (itoa n)) (CHR ''0'') @ itoa n"

definition eventKey :: "string \<Rightarrow> string \<Rightarrow> int \<Rightarrow> string \<Rightarrow> string" where
  "eventKey sproutID jid at rnd =
     jobPrefix sproutID jid @ eventsDir @ pad20 (nat (at - unix_epoch)) @ ''-'' @ rnd @ logExt"

text \<open>\<open>strings.Cut\<close> at one byte, and the text after the last slash.\<close>

definition cut_at :: "char \<Rightarrow> string \<Rightarrow> (string \<times> string) option" where
  "cut_at c s = (case dropWhile (\<lambda>x. x \<noteq> c) s of [] \<Rightarrow> None | _ # t \<Rightarrow> Some (takeWhile (\<lambda>x. x \<noteq> c) s, t))"

definition base_name :: "string \<Rightarrow> string" where
  "base_name key = rev (takeWhile (\<lambda>x. x \<noteq> CHR ''/'') (rev key))"

definition digit_val :: "char \<Rightarrow> nat" where "digit_val c = of_char c - 48"

definition decimal :: "string \<Rightarrow> nat" where
  "decimal s = foldl (\<lambda>a c. a * 10 + digit_val c) 0 s"

text \<open>\<open>strconv.ParseInt(s, 10, 64)\<close>.\<close>

definition ParseInt :: "string \<Rightarrow> int option" where
  "ParseInt s =
     (let (neg, ds) = (case s of c # cs \<Rightarrow> if c = CHR ''-'' then (True, cs)
                          else if c = CHR ''+'' then (False, cs) else (False, s) | [] \<Rightarrow> (False, []));
          v = (if neg then - int (decimal ds) else int (decimal ds))
      in if ds = [] \<or> \<not> list_all is_digit ds then None
         else if - (2 ^ 63) \<le> v \<and> v < 2 ^ 63 then Some v else None)"

definition eventTime :: "string \<Rightarrow> int option" where
  "eventTime key =
     (case cut_at (CHR ''-'') (base_name key) of
        None \<Rightarrow> None
      | Some (ds, rest) \<Rightarrow> (case ParseInt ds of None \<Rightarrow> None | Some ns \<Rightarrow> Some (unix_epoch + ns)))"

section \<open>Indexing keys\<close>

type_synonym jobRef = "string \<times> string"

record jobObjects =
  jo_created :: bool
  jo_meta :: bool
  jo_events :: "string list"

definition hasLog :: "jobObjects \<Rightarrow> bool" where
  "hasLog objs = (jo_created objs \<or> length (jo_events objs) > 0)"

datatype key_kind = KCreated | KMeta | KEvent

text \<open>The guards of the loop of \<open>indexJobs\<close>: the job a key belongs to and what it is there.\<close>

definition classify_key :: "string \<Rightarrow> (jobRef \<times> key_kind) option" where
  "classify_key key =
     (if \<not> HasPrefix key jobKeyPrefix then None
      else case cut_at (CHR ''/'') (drop (length jobKeyPrefix) key) of
             None \<Rightarrow> None
           | Some (sprout, rest) \<Rightarrow>
               (case cut_at (CHR ''/'') rest of
                  None \<Rightarrow> None
                | Some (jid, name) \<Rightarrow>
                    if \<not> validKeySegment sprout \<or> \<not> validKeySegment jid then None
                    else if name = createdObject then Some ((sprout, jid), KCreated)
                    else if name = metaObject then Some ((sprout, jid), KMeta)
                    else if HasPrefix name eventsDir \<and> HasSuffix name logExt \<and>
                            CHR ''/'' \<notin> set (drop (length eventsDir) name)
                    then Some ((sprout, jid), KEvent)
                    else None))"

definition add_key :: "jobObjects \<Rightarrow> key_kind \<Rightarrow> string \<Rightarrow> jobObjects" where
  "add_key objs kind key =
     (case kind of KCreated \<Rightarrow> objs\<lparr>jo_created := True\<rparr>
      | KMeta \<Rightarrow> objs\<lparr>jo_meta := True\<rparr>
      | KEvent \<Rightarrow> objs\<lparr>jo_events := jo_events objs @ [key]\<rparr>)"

fun index_loop :: "(jobRef \<times> jobObjects) list \<Rightarrow> string list \<Rightarrow> (jobRef \<times> jobObjects) list" where
  "index_loop idx [] = idx"
| "index_loop idx (key # keys) =
     (case classify_key key of
        None \<Rightarrow> index_loop idx keys
      | Some (ref, kind) \<Rightarrow>
          index_loop (AList.update ref (add_key
             (case map_of idx ref of None \<Rightarrow> \<lparr>jo_created = False, jo_meta = False, jo_events = []\<rparr>
              | Some objs \<Rightarrow> objs) kind key) idx) keys)"

definition indexJobs :: "string list \<Rightarrow> (jobRef \<times> jobObjects) list" where
  "indexJobs keys = map (\<lambda>(ref, objs). (ref, objs\<lparr>jo_events := sort (jo_events objs)\<rparr>)) (index_loop [] keys)"

section \<open>The bucket and the queries\<close>

datatype 'a line = Blank | Unreadable | Line 'a

record JobMeta =
  jm_JID :: string
  jm_InvokedBy :: string
  jm_CreatedAt :: int

datatype obj_data = LogData "StepCompletion line list" | MetaData JobMeta | JunkData

type_synonym obj_db = "(string, obj_data) table"

datatype job_error = ErrJobNotFound | ErrSproutNoJobs | ErrJobStoreNotConfigured | ObjErr | ParseErr

fun parseJobLines :: "StepCompletion line list \<Rightarrow> StepCompletion list option" where
  "parseJobLines [] = Some []"
| "parseJobLines (Blank # ls) = parseJobLines ls"
| "parseJobLines (Unreadable # ls) = None"
| "parseJobLines (Line step # ls) = map_option (\<lambda>steps. step # steps) (parseJobLines ls)"

definition obj_list :: "obj_db \<Rightarrow> string \<Rightarrow> string list option" where
  "obj_list obj pre = (if tbl_up obj then Some (filter (\<lambda>k. HasPrefix k pre) (map fst (tbl_rows obj))) else None)"

definition listJobs :: "obj_db \<Rightarrow> string \<Rightarrow> (jobRef \<times> jobObjects) list option" where
  "listJobs obj pre =
     map_option (\<lambda>keys. filter (\<lambda>(ref, objs). hasLog objs) (indexJobs keys)) (obj_list obj pre)"

definition refsForJID :: "(jobRef \<times> jobObjects) list \<Rightarrow> string \<Rightarrow> jobRef list" where
  "refsForJID idx jid = sort_key fst (filter (\<lambda>ref. snd ref = jid) (map fst idx))"

definition log_keys :: "jobRef \<Rightarrow> jobObjects \<Rightarrow> string list" where
  "log_keys ref objs =
     (if jo_created objs then [createdKey (fst ref) (snd ref)] else []) @ jo_events objs"

fun read_log :: "obj_db \<Rightarrow> string list \<Rightarrow> job_error + StepCompletion list" where
  "read_log obj [] = Inr []"
| "read_log obj (key # keys) =
     (case tbl_first obj key of
        DbErr \<Rightarrow> Inl ObjErr
      | NotFound \<Rightarrow> Inl ErrJobNotFound
      | Found (LogData ls) \<Rightarrow>
          (case parseJobLines ls of
             None \<Rightarrow> Inl ParseErr
           | Some chunk \<Rightarrow> (case read_log obj keys of Inl e \<Rightarrow> Inl e | Inr steps \<Rightarrow> Inr (chunk @ steps)))
      | Found _ \<Rightarrow> Inl ParseErr)"

definition readJobMeta :: "obj_db \<Rightarrow> jobRef \<Rightarrow> JobMeta option" where
  "readJobMeta obj ref =
     (case tbl_first obj (metaKey (fst ref) (snd ref)) of
        Found (MetaData meta) \<Rightarrow> Some meta | _ \<Rightarrow> None)"

definition loadJob :: "obj_db \<Rightarrow> jobRef \<Rightarrow> jobObjects \<Rightarrow> job_error + JobSummary" where
  "loadJob obj ref objs =
     (case read_log obj (log_keys ref objs) of
        Inl e \<Rightarrow> Inl e
      | Inr steps \<Rightarrow>
          let summary = buildSummary (snd ref) (fst ref) steps in
          Inr (if jo_meta objs then
                 (case readJobMeta obj ref of
                    None \<Rightarrow> summary | Some meta \<Rightarrow> summary\<lparr>js_InvokedBy := jm_InvokedBy meta\<rparr>)
               else summary))"

text \<open>The jobs that load, most recent first; start time, sprout and job ID order them totally.\<close>

definition loadJobs :: "obj_db \<Rightarrow> (jobRef \<times> jobObjects) list \<Rightarrow> JobSummary list" where
  "loadJobs obj idx =
     sort_key (\<lambda>s. (- js_StartedAt s, js_SproutID s, js_JID s))
       (concat (map (\<lambda>(ref, objs). case loadJob obj ref objs of Inl _ \<Rightarrow> [] | Inr s \<Rightarrow> [s]) idx))"

text \<open>\<open>GetJob\<close>; the bucket is \<^term>\<open>None\<close> until one is installed.\<close>

definition GetJob :: "obj_db option \<Rightarrow> string \<Rightarrow> string \<Rightarrow> job_error + JobSummary" where
  "GetJob store sproutID jid =
     (case store of
        None \<Rightarrow> Inl ErrJobStoreNotConfigured
      | Some obj \<Rightarrow>
          if \<not> validKeySegment sproutID \<or> \<not> validKeySegment jid then Inl ErrJobNotFound
          else (case listJobs obj (jobPrefix sproutID jid) of
                  None \<Rightarrow> Inl ObjErr
                | Some idx \<Rightarrow>
                    (case map_of idx (sproutID, jid) of
                       None \<Rightarrow> Inl ErrJobNotFound
                     | Some objs \<Rightarrow> loadJob obj (sproutID, jid) objs)))"

fun first_loadable :: "obj_db \<Rightarrow> (jobRef \<times> jobObjects) list \<Rightarrow> jobRef list \<Rightarrow> job_error + JobSummary" where
  "first_loadable obj idx [] = Inl ErrJobNotFound"
| "first_loadable obj idx (ref # refs) =
     (case map_of idx ref of
        None \<Rightarrow> first_loadable obj idx refs
      | Some objs \<Rightarrow> (case loadJob obj ref objs of
                         Inl _ \<Rightarrow> first_loadable obj idx refs | Inr summary \<Rightarrow> Inr summary))"

definition FindJob :: "obj_db option \<Rightarrow> string \<Rightarrow> job_error + JobSummary" where
  "FindJob store jid =
     (case store of
        None \<Rightarrow> Inl ErrJobStoreNotConfigured
      | Some obj \<Rightarrow>
          if \<not> validKeySegment jid then Inl ErrJobNotFound
          else (case listJobs obj jobKeyPrefix of
                  None \<Rightarrow> Inl ObjErr
                | Some idx \<Rightarrow> first_loadable obj idx (refsForJID idx jid)))"

definition ListJobsForSprout :: "obj_db option \<Rightarrow> string \<Rightarrow> job_error + JobSummary list" where
  "ListJobsForSprout store sproutID =
     (case store of
        None \<Rightarrow> Inl ErrJobStoreNotConfigured
      | Some obj \<Rightarrow>
          if \<not> validKeySegment sproutID then Inl ErrSproutNoJobs
          else (case listJobs obj (sproutPrefix sproutID) of
                  None \<Rightarrow> Inl ObjErr
                | Some idx \<Rightarrow> if idx = [] then Inl ErrSproutNoJobs else Inr (loadJobs obj idx)))"

definition ListAllJobs :: "obj_db option \<Rightarrow> int \<Rightarrow> job_error + JobSummary list" where
  "ListAllJobs store limit =
     (case store of
        None \<Rightarrow> Inl ErrJobStoreNotConfigured
      | Some obj \<Rightarrow>
          (case listJobs obj jobKeyPrefix of
             None \<Rightarrow> Inl ObjErr
           | Some idx \<Rightarrow>
               let all = loadJobs obj idx in
               Inr (if limit > 0 \<and> int (length all) > limit then take (nat limit) all else all)))"

definition deleteJobObjects :: "obj_db \<Rightarrow> jobRef \<Rightarrow> jobObjects \<Rightarrow> obj_db \<times> job_error option" where
  "deleteJobObjects obj ref objs =
     (if tbl_up obj
      then (foldl tbl_del obj (log_keys ref objs @
              (if jo_meta objs then [metaKey (fst ref) (snd ref)] else [])), None)
      else (obj, if log_keys ref objs = [] then None else Some ObjErr))"

definition DeleteJob :: "obj_db option \<Rightarrow> string \<Rightarrow> obj_db option \<times> job_error option" where
  "DeleteJob store jid =
     (case store of
        None \<Rightarrow> (None, Some ErrJobStoreNotConfigured)
      | Some obj \<Rightarrow>
          if \<not> validKeySegment jid then (store, Some ErrJobNotFound)
          else (case listJobs obj jobKeyPrefix of
                  None \<Rightarrow> (store, Some ObjErr)
                | Some idx \<Rightarrow>
                    (case refsForJID idx jid of
                       [] \<Rightarrow> (store, Some ErrJobNotFound)
                     | ref # _ \<Rightarrow>
                         (case map_of idx ref of
                            None \<Rightarrow> (store, None)
                          | Some objs \<Rightarrow>
                              (let (obj', err) = deleteJobObjects obj ref objs in (Some obj', err))))))"

definition ListSprouts :: "obj_db option \<Rightarrow> job_error + string list" where
  "ListSprouts store =
     (case store of
        None \<Rightarrow> Inl ErrJobStoreNotConfigured
      | Some obj \<Rightarrow>
          (case listJobs obj jobKeyPrefix of
             None \<Rightarrow> Inl ObjErr
           | Some idx \<Rightarrow> Inr (sort (remdups (map (\<lambda>(ref, objs). fst ref) idx)))))"

definition CountJobsForSprout :: "obj_db option \<Rightarrow> string \<Rightarrow> job_error + nat" where
  "CountJobsForSprout store sproutID =
     (case store of
        None \<Rightarrow> Inl ErrJobStoreNotConfigured
      | Some obj \<Rightarrow>
          if \<not> validKeySegment sproutID then Inr 0
          else (case listJobs obj (sproutPrefix sproutID) of
                  None \<Rightarrow> Inl ObjErr | Some idx \<Rightarrow> Inr (length idx)))"

section \<open>The listeners\<close>

record jobs_state =
  jb_obj :: "obj_db option"
  jb_index :: "index_db option"

definition put_obj :: "jobs_state \<Rightarrow> string \<Rightarrow> obj_data \<Rightarrow> jobs_state" where
  "put_obj st key data = st\<lparr>jb_obj := map_option (\<lambda>obj. fst (tbl_upsert obj key data)) (jb_obj st)\<rparr>"

definition placeholder :: "int \<Rightarrow> Step \<Rightarrow> StepCompletion" where
  "placeholder now step = \<lparr>sc_ID = st_ID step, sc_Status = StepNotStarted, sc_ChangesMade = False,
     sc_Changes = [], sc_Started = now, sc_Duration = 0, sc_Error = None\<rparr>"

text \<open>The clock is read anew for the index, the metadata and each placeholder.\<close>

definition placeholders :: "(nat \<Rightarrow> int) \<Rightarrow> Step list \<Rightarrow> StepCompletion list" where
  "placeholders clock steps = map (\<lambda>i. placeholder (clock (i + 2)) (steps ! i)) [0..<length steps]"

definition logJobCreation ::
  "attempt list \<Rightarrow> attempt list \<Rightarrow> (nat \<Rightarrow> int) \<Rightarrow> jobs_state \<Rightarrow> string \<Rightarrow> string \<Rightarrow> RecipeEnvelope option \<Rightarrow> jobs_state" where
  "logJobCreation at1 at2 clock st tid subject data =
     (let parts = Split (CHR ''.'') subject in
      if length parts < 4 then st
      else let sprout = parts ! 2 in
      case data of
        None \<Rightarrow> st
      | Some envelope \<Rightarrow>
          if env_JobID envelope = [] then st
          else if \<not> validKeySegment sprout \<or> \<not> validKeySegment (env_JobID envelope) then st
          else let jid = env_JobID envelope;
                   st1 = st\<lparr>jb_index := indexJobCreation at1 at2 (clock 0) (jb_index st) tid sprout jid
                              (length (env_Steps envelope))\<rparr>
               in case jb_obj st1 of
                    None \<Rightarrow> st1
                  | Some obj \<Rightarrow>
                      (case tbl_first obj (createdKey sprout jid) of
                         DbErr \<Rightarrow> st1
                       | Found _ \<Rightarrow> st1
                       | NotFound \<Rightarrow>
                           put_obj (put_obj st1 (metaKey sprout jid)
                             (MetaData \<lparr>jm_JID = jid, jm_InvokedBy = env_InvokedBy envelope, jm_CreatedAt = clock 1\<rparr>))
                             (createdKey sprout jid)
                             (LogData (map Line (placeholders clock (env_Steps envelope))))))"

definition logJobs ::
  "attempt list \<Rightarrow> attempt list \<Rightarrow> int \<Rightarrow> string \<Rightarrow> jobs_state \<Rightarrow> string \<Rightarrow> string \<Rightarrow> StepCompletion option \<Rightarrow>
   jobs_state" where
  "logJobs at1 at2 now rnd st tid subject data =
     (let parts = Split (CHR ''.'') subject in
      if length parts < 4 then st
      else let sprout = parts ! 2; jid = parts ! 3 in
      case data of
        None \<Rightarrow> st
      | Some step \<Rightarrow>
          if \<not> validKeySegment sprout \<or> \<not> validKeySegment jid then st
          else let st1 = st\<lparr>jb_index := indexJobEvent at1 at2 now (jb_index st) tid sprout jid
                              (classifyJobEvent jid step)\<rparr>
               in put_obj st1 (eventKey sprout jid now rnd) (LogData [Line step]))"

section \<open>The reaper\<close>

definition lastActivity :: "obj_db \<Rightarrow> jobRef \<Rightarrow> jobObjects \<Rightarrow> int" where
  "lastActivity obj ref objs =
     (let last = foldl (\<lambda>last key. case eventTime key of
                          None \<Rightarrow> last | Some t \<Rightarrow> if t > last then t else last) 0 (jo_events objs)
      in if last = 0 \<and> jo_meta objs then
           (case readJobMeta obj ref of None \<Rightarrow> last | Some meta \<Rightarrow> jm_CreatedAt meta)
         else last)"

fun reap_loop :: "int \<Rightarrow> (jobRef \<times> jobObjects) list \<Rightarrow> obj_db \<Rightarrow> obj_db" where
  "reap_loop cutoff [] obj = obj"
| "reap_loop cutoff ((ref, objs) # idx) obj =
     (let last = lastActivity obj ref objs in
      reap_loop cutoff idx
        (if last = 0 \<or> \<not> last < cutoff then obj else fst (deleteJobObjects obj ref objs)))"

definition reap :: "int \<Rightarrow> int \<Rightarrow> jobs_state \<Rightarrow> jobs_state" where
  "reap now ttl st =
     (let st1 = st\<lparr>jb_index := reapJobStatusIndex (now - ttl) (jb_index st)\<rparr> in
      case jb_obj st1 of
        None \<Rightarrow> st1
      | Some obj \<Rightarrow>
          (case obj_list obj jobKeyPrefix of
             None \<Rightarrow> st1
           | Some keys \<Rightarrow> st1\<lparr>jb_obj := Some (reap_loop (now - ttl) (indexJobs keys) obj)\<rparr>))"

section \<open>Summaries do not depend on the order of the events\<close>

lemma time_step_min_max:
  "m \<noteq> 0 \<Longrightarrow> sc_Started c \<noteq> 0 \<Longrightarrow>
   time_step (m, max 0 M) c = (min (sc_Started c) m, max 0 (max (sc_Started c + sc_Duration c) M))"
  by (auto simp: time_step_def Let_def max_def)

lemma time_step_fold:
  "foldl time_step (0, 0) steps =
     (let ts = set (filter (\<lambda>c. sc_Started c \<noteq> 0) steps) in
      if ts = {} then (0, 0)
      else (Min (sc_Started ` ts), max 0 (Max ((\<lambda>c. sc_Started c + sc_Duration c) ` ts))))"
proof (induction steps rule: rev_induct)
  case Nil
  then show ?case by simp
next
  case (snoc c steps)
  let ?ts = "set (filter (\<lambda>c. sc_Started c \<noteq> 0) steps)"
  have nz: "Min (sc_Started ` ?ts) \<noteq> 0" if "?ts \<noteq> {}"
  proof -
    have "Min (sc_Started ` ?ts) \<in> sc_Started ` ?ts" using that by (intro Min_in) simp_all
    then show ?thesis by auto
  qed
  show ?case
  proof (cases "sc_Started c = 0")
    case True
    then show ?thesis using snoc by (simp add: time_step_def split: prod.splits)
  next
    case False
    show ?thesis
    proof (cases "?ts = {}")
      case True
      then have "filter (\<lambda>c. sc_Started c \<noteq> 0) steps = []" by simp
      then show ?thesis using snoc False by (simp add: time_step_def max_def Let_def)
    next
      case ne: False
      then have fold: "foldl time_step (0, 0) steps =
          (Min (sc_Started ` ?ts), max 0 (Max ((\<lambda>c. sc_Started c + sc_Duration c) ` ?ts)))"
        using snoc by (simp only: Let_def if_False)
      have ins: "set (filter (\<lambda>c. sc_Started c \<noteq> 0) (steps @ [c])) = insert c ?ts"
        using False by auto
      have "Min (sc_Started ` insert c ?ts) = min (sc_Started c) (Min (sc_Started ` ?ts))"
        "Max ((\<lambda>c. sc_Started c + sc_Duration c) ` insert c ?ts) =
          max (sc_Started c + sc_Duration c) (Max ((\<lambda>c. sc_Started c + sc_Duration c) ` ?ts))"
        using ne by (simp_all only: image_insert, (subst Min_insert Max_insert, simp_all)+)
      then show ?thesis
        unfolding foldl_append fold ins Let_def
        using time_step_min_max[OF nz[OF ne] False] by (simp only: foldl.simps insert_not_empty if_False)
    qed
  qed
qed

lemma buildSummary_perm:
  assumes "mset steps = mset steps'"
  shows "(buildSummary jid sprout steps)\<lparr>js_Steps := steps'\<rparr> = buildSummary jid sprout steps'"
proof -
  have s: "set steps = set steps'" using assms by (metis set_mset_mset)
  have c: "length (filter P steps) = length (filter P steps')" for P
    using assms by (metis mset_filter size_mset)
  have l: "length steps = length steps'" using assms by (metis size_mset)
  have "foldl time_step (0, 0) steps = foldl time_step (0, 0) steps'"
    by (simp only: time_step_fold set_filter s)
  moreover have "determineJobStatus steps = determineJobStatus steps'"
    using s l by (auto simp: determineJobStatus_def has_status_def list_ex_iff Let_def)
  ultimately show ?thesis
    using c l by (simp add: buildSummary_def count_status_def split: prod.splits)
qed

section \<open>Keys decode to what they were made from\<close>

lemma cut_at_append: "c \<notin> set a \<Longrightarrow> cut_at c (a @ c # b) = Some (a, b)"
proof -
  assume "c \<notin> set a"
  then have "dropWhile (\<lambda>x. x \<noteq> c) (a @ c # b) = c # b" "takeWhile (\<lambda>x. x \<noteq> c) (a @ c # b) = a"
    by (subst dropWhile_append2 takeWhile_append2; auto)+
  then show ?thesis by (simp add: cut_at_def)
qed

lemma cut_at_SomeD: "cut_at c s = Some (a, b) \<Longrightarrow> s = a @ c # b \<and> c \<notin> set a"
proof -
  assume cut: "cut_at c s = Some (a, b)"
  then obtain x where d: "dropWhile (\<lambda>x. x \<noteq> c) s = x # b" and a: "a = takeWhile (\<lambda>x. x \<noteq> c) s"
    by (auto simp: cut_at_def split: list.splits)
  have "x = c" using hd_dropWhile[of "\<lambda>x. x \<noteq> c" s] d by simp
  then have "s = a @ c # b" using takeWhile_dropWhile_id[of "\<lambda>x. x \<noteq> c" s] d a by simp
  then show ?thesis using a by (auto dest: set_takeWhileD)
qed

lemma validKeySegment_no_slash: "validKeySegment s \<Longrightarrow> CHR ''/'' \<notin> set s"
  by (simp add: validKeySegment_def)

lemma jobPrefix_eq: "jobPrefix s j = jobKeyPrefix @ s @ CHR ''/'' # j @ [CHR ''/'']"
  by (simp add: jobPrefix_def sproutPrefix_def)

text \<open>The name within its job decides what a key is.\<close>

definition name_kind :: "string \<Rightarrow> key_kind option" where
  "name_kind name =
     (if name = createdObject then Some KCreated
      else if name = metaObject then Some KMeta
      else if HasPrefix name eventsDir \<and> HasSuffix name logExt \<and> CHR ''/'' \<notin> set (drop (length eventsDir) name)
      then Some KEvent else None)"

lemma classify_key_job:
  assumes "validKeySegment s" "validKeySegment j"
  shows "classify_key (jobPrefix s j @ name) = map_option (\<lambda>kind. ((s, j), kind)) (name_kind name)"
proof -
  have "cut_at (CHR ''/'') (s @ CHR ''/'' # j @ CHR ''/'' # name) = Some (s, j @ CHR ''/'' # name)"
    "cut_at (CHR ''/'') (j @ CHR ''/'' # name) = Some (j, name)"
    using assms by (simp_all add: cut_at_append validKeySegment_no_slash)
  then show ?thesis
    using assms by (simp add: classify_key_def jobPrefix_eq HasPrefix_def name_kind_def)
qed

lemma classify_keyD:
  assumes "classify_key key = Some ((s, j), kind)"
  shows "validKeySegment s \<and> validKeySegment j \<and> (\<exists>name. key = jobPrefix s j @ name \<and> name_kind name = Some kind)"
proof -
  from assms obtain r1 rest where
    pre: "HasPrefix key jobKeyPrefix"
    and c1: "cut_at (CHR ''/'') (drop (length jobKeyPrefix) key) = Some (r1, rest)"
    by (auto simp: classify_key_def split: if_splits option.splits)
  from assms pre c1 obtain r2 name where c2: "cut_at (CHR ''/'') rest = Some (r2, name)"
    by (auto simp: classify_key_def split: if_splits option.splits)
  have eqs: "r1 = s" "r2 = j" "validKeySegment s" "validKeySegment j" "name_kind name = Some kind"
    using assms pre c1 c2 by (auto simp: classify_key_def name_kind_def split: if_splits)
  have "key = jobKeyPrefix @ drop (length jobKeyPrefix) key" using pre by (rule HasPrefix_decomp)
  also have "\<dots> = jobPrefix s j @ name"
    using cut_at_SomeD[OF c1] cut_at_SomeD[OF c2] eqs by (simp add: jobPrefix_eq)
  finally show ?thesis using eqs by blast
qed

lemma name_kind_consts [simp]:
  "name_kind createdObject = Some KCreated" "name_kind metaObject = Some KMeta"
  by (simp_all add: name_kind_def job_key_consts)

lemma name_kindD:
  "name_kind name = Some KCreated \<Longrightarrow> name = createdObject"
  "name_kind name = Some KMeta \<Longrightarrow> name = metaObject"
  by (auto simp: name_kind_def split: if_splits)

lemma classify_created:
  assumes "validKeySegment s" "validKeySegment j"
  shows "classify_key k = Some ((s, j), KCreated) \<longleftrightarrow> k = createdKey s j"
  using classify_keyD[of k s j KCreated] name_kindD classify_key_job[OF assms]
  by (auto simp: createdKey_def)

lemma classify_meta:
  assumes "validKeySegment s" "validKeySegment j"
  shows "classify_key k = Some ((s, j), KMeta) \<longleftrightarrow> k = metaKey s j"
  using classify_keyD[of k s j KMeta] name_kindD classify_key_job[OF assms]
  by (auto simp: metaKey_def)

lemma event_key_apart:
  assumes "validKeySegment s" "validKeySegment j" "classify_key k = Some ((s, j), KEvent)"
  shows "k \<noteq> createdKey s j" "k \<noteq> metaKey s j"
  using assms(3) classify_created[OF assms(1,2)] classify_meta[OF assms(1,2)]
  by (metis key_kind.distinct option.inject prod.inject)+

lemma classify_prefix: "classify_key k = Some ((s, j), kind) \<Longrightarrow> HasPrefix k (jobPrefix s j)"
  by (auto dest: classify_keyD)

lemma classify_prefixes:
  "classify_key k = Some ((s, j), kind) \<Longrightarrow> HasPrefix k (sproutPrefix s) \<and> HasPrefix k jobKeyPrefix"
  by (auto dest!: classify_keyD simp: jobPrefix_def sproutPrefix_def HasPrefix_def)

lemma jobPrefix_inj:
  assumes "validKeySegment s" "validKeySegment j" "HasPrefix k (jobPrefix s j)"
    and "classify_key k = Some (ref, kind)"
  shows "ref = (s, j)"
proof -
  obtain name where "k = jobPrefix s j @ name" using assms(3) by (auto simp: HasPrefix_def prefix_def)
  then show ?thesis using assms classify_key_job[OF assms(1,2)] by auto
qed

section \<open>Event keys carry the receive time\<close>

lemma digits_range: "\<forall>c \<in> set (digits fuel n). is_digit c"
  by (induction fuel n rule: digits.induct) (auto simp: is_digit_def)

lemma decimal_append: "decimal (s @ t) = foldl (\<lambda>a c. a * 10 + digit_val c) (decimal s) t"
  by (simp add: decimal_def)

lemma decimal_digits: "n < fuel \<Longrightarrow> decimal (digits fuel n) = n"
proof (induction fuel n rule: digits.induct)
  case (1 n)
  then show ?case by simp
next
  case (2 fuel n)
  show ?case
  proof (cases "n < 10")
    case True
    then show ?thesis by (simp add: decimal_def digit_val_def)
  next
    case False
    then have "n div 10 < fuel" using 2 by simp
    then have "decimal (digits fuel (n div 10)) = n div 10" using 2 False by blast
    then show ?thesis using False by (simp add: decimal_append digit_val_def)
  qed
qed

lemma decimal_zeros: "decimal (replicate m (CHR ''0'') @ s) = decimal s"
  by (induction m) (simp_all add: decimal_def digit_val_def)

lemma decimal_pad20: "decimal (pad20 n) = n"
  unfolding pad20_def itoa_def decimal_zeros by (rule decimal_digits) simp

lemma pad20_digits: "list_all is_digit (pad20 n)"
  using digits_range[of "Suc n" n]
  by (auto simp: pad20_def itoa_def list_all_iff is_digit_def)

lemma pad20_nonempty: "pad20 n \<noteq> []"
  by (auto simp: pad20_def itoa_def)

lemma ParseInt_pad20:
  assumes "n < 2 ^ 63"
  shows "ParseInt (pad20 n) = Some (int n)"
proof -
  obtain c cs where pad: "pad20 n = c # cs" using pad20_nonempty[of n] by (cases "pad20 n") auto
  have "is_digit c" using pad20_digits[of n] pad by simp
  then have "c \<noteq> CHR ''-''" "c \<noteq> CHR ''+''" by (auto simp: is_digit_def)
  moreover have "int n < 2 ^ 63" using assms by (metis of_nat_less_iff of_nat_numeral of_nat_power)
  ultimately show ?thesis
    using pad pad20_digits[of n] decimal_pad20[of n] by (simp add: ParseInt_def)
qed

lemma is_digit_chars: "list_all is_digit s \<Longrightarrow> CHR ''/'' \<notin> set s \<and> CHR ''-'' \<notin> set s"
  by (auto simp: list_all_iff is_digit_def)

lemma base_name_append: "CHR ''/'' \<notin> set b \<Longrightarrow> base_name (a @ CHR ''/'' # b) = b"
proof -
  assume "CHR ''/'' \<notin> set b"
  then have "takeWhile (\<lambda>x. x \<noteq> CHR ''/'') (rev b @ CHR ''/'' # rev a) = rev b"
    by (subst takeWhile_append2) auto
  then show ?thesis by (simp add: base_name_def)
qed

definition event_name :: "int \<Rightarrow> string \<Rightarrow> string" where
  "event_name at rnd = pad20 (nat (at - unix_epoch)) @ ''-'' @ rnd @ logExt"

lemma eventKey_eq: "eventKey s j at rnd = jobPrefix s j @ eventsDir @ event_name at rnd"
  by (simp add: eventKey_def event_name_def)

lemma event_name_no_slash: "CHR ''/'' \<notin> set rnd \<Longrightarrow> CHR ''/'' \<notin> set (event_name at rnd)"
  using is_digit_chars[OF pad20_digits] by (auto simp: event_name_def logExt_def)

lemma eventTime_eventKey:
  assumes "CHR ''/'' \<notin> set rnd" "unix_epoch \<le> at" "at < unix_epoch + 2 ^ 63"
  shows "eventTime (eventKey s j at rnd) = Some at"
proof -
  let ?n = "nat (at - unix_epoch)"
  have "eventKey s j at rnd = (jobPrefix s j @ ''events'') @ CHR ''/'' # event_name at rnd"
    by (simp add: eventKey_eq eventsDir_def)
  then have base: "base_name (eventKey s j at rnd) = event_name at rnd"
    using base_name_append[OF event_name_no_slash[OF assms(1)]] by metis
  have cut: "cut_at (CHR ''-'') (event_name at rnd) = Some (pad20 ?n, rnd @ logExt)"
    using is_digit_chars[OF pad20_digits] by (simp add: event_name_def cut_at_append)
  have "?n < 2 ^ 63" using assms by (simp add: nat_less_iff)
  then show ?thesis
    using base cut assms(2) ParseInt_pad20 by (simp add: eventTime_def)
qed

lemma classify_event:
  assumes "validKeySegment s" "validKeySegment j" "CHR ''/'' \<notin> set rnd"
  shows "classify_key (eventKey s j at rnd) = Some ((s, j), KEvent)"
proof -
  have "name_kind (eventsDir @ event_name at rnd) = Some KEvent"
    using event_name_no_slash[OF assms(3), of at]
    by (auto simp: name_kind_def job_key_consts HasPrefix_def HasSuffix_def event_name_def)
       (metis append_assoc append_Cons append_Nil suffixI)
  then show ?thesis using classify_key_job[OF assms(1,2)] by (simp add: eventKey_eq)
qed

section \<open>What the index finds\<close>

definition kind_keys :: "jobRef \<Rightarrow> key_kind \<Rightarrow> string list \<Rightarrow> string list" where
  "kind_keys ref kind keys = filter (\<lambda>k. classify_key k = Some (ref, kind)) keys"

definition objects_of :: "jobRef \<Rightarrow> string list \<Rightarrow> jobObjects" where
  "objects_of ref keys = \<lparr>jo_created = (kind_keys ref KCreated keys \<noteq> []),
     jo_meta = (kind_keys ref KMeta keys \<noteq> []), jo_events = kind_keys ref KEvent keys\<rparr>"

definition ref_known :: "jobRef \<Rightarrow> string list \<Rightarrow> bool" where
  "ref_known ref keys \<longleftrightarrow> (\<exists>k \<in> set keys. \<exists>kind. classify_key k = Some (ref, kind))"

lemma kind_keys_snoc:
  "kind_keys ref kind (keys @ [k]) =
     kind_keys ref kind keys @ (if classify_key k = Some (ref, kind) then [k] else [])"
  by (simp add: kind_keys_def)

lemma index_loop_append: "index_loop idx (xs @ ys) = index_loop (index_loop idx xs) ys"
  by (induction xs arbitrary: idx) (auto split: option.splits)

lemma not_ref_known: "\<not> ref_known ref keys \<Longrightarrow> kind_keys ref kind keys = []"
  by (auto simp: ref_known_def kind_keys_def filter_empty_conv)

lemma objects_of_unknown:
  "\<not> ref_known ref keys \<Longrightarrow> objects_of ref keys = \<lparr>jo_created = False, jo_meta = False, jo_events = []\<rparr>"
  by (simp add: objects_of_def not_ref_known)

lemma objects_of_snoc:
  "classify_key k = Some (ref, kind) \<Longrightarrow> objects_of ref (keys @ [k]) = add_key (objects_of ref keys) kind k"
  by (cases kind) (simp_all add: objects_of_def kind_keys_snoc add_key_def)

lemma objects_of_snoc_other:
  "\<forall>kind. classify_key k \<noteq> Some (ref, kind) \<Longrightarrow> objects_of ref (keys @ [k]) = objects_of ref keys"
  by (simp add: objects_of_def kind_keys_snoc)

lemma index_loop_spec:
  "distinct (map fst (index_loop [] keys)) \<and>
   map_of (index_loop [] keys) ref = (if ref_known ref keys then Some (objects_of ref keys) else None)"
proof (induction keys arbitrary: ref rule: rev_induct)
  case Nil
  then show ?case by (simp add: ref_known_def)
next
  case (snoc k keys)
  show ?case
  proof (cases "classify_key k")
    case None
    then show ?thesis
      using snoc by (simp add: index_loop_append ref_known_def objects_of_snoc_other)
  next
    case (Some rk)
    obtain r kind where rk: "rk = (r, kind)" by (cases rk)
    have known: "ref_known ref (keys @ [k]) \<longleftrightarrow> ref = r \<or> ref_known ref keys"
      using Some rk by (auto simp: ref_known_def)
    have objs: "(case map_of (index_loop [] keys) r of None \<Rightarrow> \<lparr>jo_created = False, jo_meta = False, jo_events = []\<rparr>
        | Some objs \<Rightarrow> objs) = objects_of r keys"
      using snoc[of r] objects_of_unknown by auto
    show ?thesis
      using snoc Some rk known objs
      by (simp add: index_loop_append update_conv' distinct_update objects_of_snoc objects_of_snoc_other)
  qed
qed

lemma map_of_map_snd: "map_of (map (\<lambda>(k, v). (k, f v)) xs) k = map_option f (map_of xs k)"
  by (induction xs) auto

lemma indexJobs_spec:
  "map_of (indexJobs keys) ref =
     (if ref_known ref keys
      then Some ((objects_of ref keys)\<lparr>jo_events := sort (jo_events (objects_of ref keys))\<rparr>) else None)"
  using index_loop_spec[of keys ref] by (simp add: indexJobs_def map_of_map_snd)

lemma indexJobs_distinct: "distinct (map fst (indexJobs keys))"
proof -
  have "map fst (indexJobs keys) = map fst (index_loop [] keys)"
    by (auto simp: indexJobs_def split: prod.splits)
  then show ?thesis using index_loop_spec by simp
qed

definition obj_keys :: "obj_db \<Rightarrow> string list" where
  "obj_keys obj = map fst (tbl_rows obj)"

lemma obj_keys_get: "k \<in> set (obj_keys obj) \<longleftrightarrow> tbl_get obj k \<noteq> None"
  by (simp add: obj_keys_def tbl_get_def map_of_eq_None_iff)

text \<open>Listing under a prefix that covers a job's keys finds the same objects for that job.\<close>

definition job_objects :: "obj_db \<Rightarrow> jobRef \<Rightarrow> jobObjects" where
  "job_objects obj ref =
     (let objs = objects_of ref (obj_keys obj) in objs\<lparr>jo_events := sort (jo_events objs)\<rparr>)"

lemma kind_keys_prefix:
  assumes "\<forall>k kind. classify_key k = Some (ref, kind) \<longrightarrow> HasPrefix k pre"
  shows "kind_keys ref kind (filter (\<lambda>k. HasPrefix k pre) keys) = kind_keys ref kind keys"
  using assms by (auto simp: kind_keys_def intro: filter_cong)

lemma listJobs_find:
  assumes "tbl_up obj" "\<forall>k kind. classify_key k = Some (ref, kind) \<longrightarrow> HasPrefix k pre"
  shows "\<exists>idx. listJobs obj pre = Some idx \<and>
     map_of idx ref = (if hasLog (job_objects obj ref) then Some (job_objects obj ref) else None)"
proof -
  let ?keys = "filter (\<lambda>k. HasPrefix k pre) (obj_keys obj)"
  have objs: "objects_of ref ?keys = objects_of ref (obj_keys obj)"
    using kind_keys_prefix[OF assms(2)] by (simp add: objects_of_def)
  have log: "ref_known ref ?keys" if "hasLog (job_objects obj ref)"
  proof (rule ccontr)
    assume "\<not> ref_known ref ?keys"
    then show False
      using that objects_of_unknown[of ref ?keys] objs by (simp add: job_objects_def hasLog_def)
  qed
  have "map_of (filter (\<lambda>(ref, objs). hasLog objs) (indexJobs ?keys)) ref =
      (if hasLog (job_objects obj ref) then Some (job_objects obj ref) else None)"
    using log objs
    by (auto simp: map_of_filter_wf[OF indexJobs_distinct, where Q = "\<lambda>r. hasLog"]
        indexJobs_spec job_objects_def Let_def)
  then show ?thesis
    using assms(1) by (simp add: listJobs_def obj_list_def obj_keys_def)
qed

lemma GetJob_eq:
  assumes "tbl_up obj" "validKeySegment s" "validKeySegment j"
  shows "GetJob (Some obj) s j =
     (if hasLog (job_objects obj (s, j)) then loadJob obj (s, j) (job_objects obj (s, j))
      else Inl ErrJobNotFound)"
proof -
  have "\<forall>k kind. classify_key k = Some ((s, j), kind) \<longrightarrow> HasPrefix k (jobPrefix s j)"
    by (blast dest: classify_prefix)
  from listJobs_find[OF assms(1) this] show ?thesis
    using assms by (auto simp: GetJob_def)
qed

section \<open>A recorded job reads back\<close>

text \<open>One event a listener records: when it arrived, the random suffix of its key, and the step.\<close>

type_synonym job_ev = "int \<times> string \<times> StepCompletion"

definition ev_key :: "string \<Rightarrow> string \<Rightarrow> job_ev \<Rightarrow> string" where
  "ev_key s j ev = (case ev of (t, rnd, step) \<Rightarrow> eventKey s j t rnd)"

definition ev_step :: "job_ev \<Rightarrow> StepCompletion" where
  "ev_step ev = (case ev of (t, rnd, step) \<Rightarrow> step)"

definition event_subject :: "string \<Rightarrow> string \<Rightarrow> string" where
  "event_subject s j = ''grlx.cook.'' @ s @ ''.'' @ j"

definition cook_subject :: "string \<Rightarrow> string" where
  "cook_subject s = ''grlx.sprouts.'' @ s @ ''.cook''"

definition record_events :: "string \<Rightarrow> jobs_state \<Rightarrow> string \<Rightarrow> string \<Rightarrow> job_ev list \<Rightarrow> jobs_state" where
  "record_events tid st s j evs =
     foldl (\<lambda>st (t, rnd, step). logJobs [] [] t rnd st tid (event_subject s j) (Some step)) st evs"

definition record_job ::
  "string \<Rightarrow> jobs_state \<Rightarrow> string \<Rightarrow> (nat \<Rightarrow> int) \<Rightarrow> RecipeEnvelope \<Rightarrow> job_ev list \<Rightarrow> jobs_state" where
  "record_job tid st s clock envelope evs =
     record_events tid (logJobCreation [] [] clock st tid (cook_subject s) (Some envelope))
       s (env_JobID envelope) evs"

text \<open>Sprout and job IDs that are one token of a subject.\<close>

definition subject_token :: "string \<Rightarrow> bool" where
  "subject_token s \<longleftrightarrow> validKeySegment s \<and> CHR ''.'' \<notin> set s"

lemma subject_tokenD: "subject_token s \<Longrightarrow> validKeySegment s" "subject_token s \<Longrightarrow> CHR ''.'' \<notin> set s"
  by (simp_all add: subject_token_def)

lemma Split_two:
  assumes "CHR ''.'' \<notin> set a" "CHR ''.'' \<notin> set b"
  shows "Split (CHR ''.'') (''grlx.'' @ a @ CHR ''.'' # b @ CHR ''.'' # c) =
    ''grlx'' # a # b # Split (CHR ''.'') c"
  using assms by (simp add: Split_append_sep)

lemma Split_event_subject:
  "subject_token s \<Longrightarrow> subject_token j \<Longrightarrow> Split (CHR ''.'') (event_subject s j) = [''grlx'', ''cook'', s, j]"
  using Split_two[of "''cook''" s j] Split_no_sep[of "CHR ''.''" j]
  by (simp add: event_subject_def subject_tokenD del: Split.simps)

lemma Split_cook_subject:
  "subject_token s \<Longrightarrow> Split (CHR ''.'') (cook_subject s) = [''grlx'', ''sprouts'', s, ''cook'']"
  using Split_two[of "''sprouts''" s "''cook''"] Split_no_sep[of "CHR ''.''" "''cook''"]
  by (simp add: cook_subject_def subject_tokenD del: Split.simps)

lemma logJobs_obj:
  assumes "subject_token s" "subject_token j"
  shows "jb_obj (logJobs at1 at2 t rnd st tid (event_subject s j) (Some step)) =
     map_option (\<lambda>obj. fst (tbl_upsert obj (eventKey s j t rnd) (LogData [Line step]))) (jb_obj st)"
  using assms by (simp add: logJobs_def Split_event_subject subject_tokenD put_obj_def Let_def)

text \<open>No key of the job exists before it is created.\<close>

definition job_absent :: "obj_db \<Rightarrow> jobRef \<Rightarrow> bool" where
  "job_absent obj ref \<longleftrightarrow> \<not> ref_known ref (obj_keys obj)"

lemma job_absent_get:
  "job_absent obj ref \<Longrightarrow> classify_key k = Some (ref, kind) \<Longrightarrow> tbl_get obj k = None"
  using obj_keys_get by (auto simp: job_absent_def ref_known_def)

text \<open>The objects of the job after its creation and a list of events.\<close>

definition recorded ::
  "obj_db \<Rightarrow> string \<Rightarrow> string \<Rightarrow> (nat \<Rightarrow> int) \<Rightarrow> RecipeEnvelope \<Rightarrow> job_ev list \<Rightarrow> bool" where
  "recorded obj s j clock envelope evs \<longleftrightarrow> tbl_ok obj \<and>
     (\<forall>k kind. classify_key k = Some ((s, j), kind) \<longrightarrow> tbl_get obj k =
        (if k = createdKey s j then Some (LogData (map Line (placeholders clock (env_Steps envelope))))
         else if k = metaKey s j
         then Some (MetaData \<lparr>jm_JID = j, jm_InvokedBy = env_InvokedBy envelope, jm_CreatedAt = clock 1\<rparr>)
         else map_of (map (\<lambda>ev. (ev_key s j ev, LogData [Line (ev_step ev)])) evs) k))"

lemma createdKey_not_metaKey: "createdKey s j \<noteq> metaKey s j"
  by (simp add: createdKey_def metaKey_def job_key_consts)

lemma logJobCreation_recorded:
  assumes "subject_token s" "subject_token (env_JobID envelope)" "jb_obj st = Some obj" "tbl_ok obj"
    and "job_absent obj (s, env_JobID envelope)"
  shows "\<exists>obj'. jb_obj (logJobCreation at1 at2 clock st tid (cook_subject s) (Some envelope)) = Some obj' \<and>
     recorded obj' s (env_JobID envelope) clock envelope []"
proof -
  let ?j = "env_JobID envelope"
  have v: "validKeySegment s" "validKeySegment ?j" "?j \<noteq> []" using assms subject_tokenD
    by (auto simp: validKeySegment_def)
  have none: "tbl_get obj (createdKey s ?j) = None"
    using job_absent_get[OF assms(5)] classify_created[OF v(1,2)] by blast
  let ?meta = "MetaData \<lparr>jm_JID = ?j, jm_InvokedBy = env_InvokedBy envelope, jm_CreatedAt = clock 1\<rparr>"
  let ?log = "LogData (map Line (placeholders clock (env_Steps envelope)))"
  let ?obj = "tbl_put (tbl_put obj (metaKey s ?j) ?meta) (createdKey s ?j) ?log"
  have "jb_obj (logJobCreation at1 at2 clock st tid (cook_subject s) (Some envelope)) = Some ?obj"
    using assms v none
    by (simp add: logJobCreation_def Split_cook_subject Let_def put_obj_def tbl_put_def tbl_okD del: Split.simps)
  moreover have "recorded ?obj s ?j clock envelope []"
    using assms(4) job_absent_get[OF assms(5)] createdKey_not_metaKey
    by (auto simp: recorded_def tbl_get_put)
  ultimately show ?thesis by blast
qed

lemma record_events_recorded:
  assumes "subject_token s" "subject_token j" "jb_obj st = Some obj" "recorded obj s j clock envelope []"
    and "\<forall>(t, rnd, step) \<in> set evs. CHR ''/'' \<notin> set rnd"
    and "distinct (map (ev_key s j) evs)"
  shows "\<exists>obj'. jb_obj (record_events tid st s j evs) = Some obj' \<and> recorded obj' s j clock envelope evs"
  using assms(5,6)
proof (induction evs rule: rev_induct)
  case Nil
  then show ?case using assms by (simp add: record_events_def)
next
  case (snoc ev evs)
  obtain t rnd step where ev: "ev = (t, rnd, step)" by (cases ev)
  obtain obj' where obj': "jb_obj (record_events tid st s j evs) = Some obj'" "recorded obj' s j clock envelope evs"
    using snoc by auto
  have ok: "tbl_ok obj'" using obj'(2) by (simp add: recorded_def)
  let ?k = "eventKey s j t rnd"
  have cl: "classify_key ?k = Some ((s, j), KEvent)"
    using classify_event assms(1,2) snoc.prems ev by (simp add: subject_tokenD)
  have ne: "?k \<noteq> createdKey s j" "?k \<noteq> metaKey s j"
    using event_key_apart[OF _ _ cl] assms(1,2) subject_tokenD by blast+
  have "jb_obj (record_events tid st s j (evs @ [ev])) = Some (tbl_put obj' ?k (LogData [Line step]))"
    using obj'(1) logJobs_obj[OF assms(1,2)] by (simp add: record_events_def ev tbl_put_def)
  moreover have "recorded (tbl_put obj' ?k (LogData [Line step])) s j clock envelope (evs @ [ev])"
    unfolding recorded_def
  proof (intro conjI allI impI)
    show "tbl_ok (tbl_put obj' ?k (LogData [Line step]))" using ok by simp
    fix k kind assume k: "classify_key k = Some ((s, j), kind)"
    let ?m = "map (\<lambda>ev. (ev_key s j ev, LogData [Line (ev_step ev)]))"
    have new: "map_of (?m evs) ?k = None"
    proof -
      have "ev_key s j ev \<notin> set (map (ev_key s j) evs)" using snoc.prems(2) by simp
      moreover have "ev_key s j ev = ?k" by (simp add: ev ev_key_def)
      ultimately show ?thesis by (simp add: map_of_eq_None_iff image_image)
    qed
    have "map_of (?m (evs @ [ev])) k =
        (case map_of (?m evs) k of Some v \<Rightarrow> Some v | None \<Rightarrow> if k = ?k then Some (LogData [Line step]) else None)"
      by (simp add: map_add_def ev ev_key_def ev_step_def split: option.splits)
    then show "tbl_get (tbl_put obj' ?k (LogData [Line step])) k =
      (if k = createdKey s j then Some (LogData (map Line (placeholders clock (env_Steps envelope))))
       else if k = metaKey s j
       then Some (MetaData \<lparr>jm_JID = j, jm_InvokedBy = env_InvokedBy envelope, jm_CreatedAt = clock 1\<rparr>)
       else map_of (?m (evs @ [ev])) k)"
      using obj'(2) k ne new ok by (auto simp: recorded_def tbl_get_put split: option.splits)
  qed
  ultimately show ?case by blast
qed

section \<open>Events come back in the order they arrived\<close>

lemma foldl_decimal:
  "foldl (\<lambda>a c. a * 10 + digit_val c) a s = a * 10 ^ length s + decimal s"
proof (induction s arbitrary: a)
  case Nil
  then show ?case by (simp add: decimal_def)
next
  case (Cons c s)
  from Cons.IH[of "a * 10 + digit_val c"] Cons.IH[of "digit_val c"] show ?case
    by (simp add: decimal_def algebra_simps)
qed

lemma decimal_Cons: "decimal (c # s) = digit_val c * 10 ^ length s + decimal s"
  using foldl_decimal[of "digit_val c" s] by (simp add: decimal_def)

lemma digit_val_less: "is_digit c \<Longrightarrow> digit_val c \<le> 9"
  by (auto simp: is_digit_def digit_val_def)

lemma decimal_bound: "list_all is_digit s \<Longrightarrow> decimal s < 10 ^ length s"
proof (induction s)
  case Nil
  then show ?case by (simp add: decimal_def)
next
  case (Cons c s)
  then have "digit_val c * 10 ^ length s \<le> 9 * 10 ^ length s" using digit_val_less by simp
  moreover have "decimal s < 10 ^ length s" using Cons by simp
  ultimately show ?case by (simp only: decimal_Cons list.size add_Suc_right add_0_right power_Suc)
qed

lemma char_less_digit: "is_digit c \<Longrightarrow> is_digit d \<Longrightarrow> c < d \<longleftrightarrow> digit_val c < digit_val d"
  by (auto simp: less_char_def digit_val_def is_digit_def)

lemma decimal_mono:
  "length s = length t \<Longrightarrow> list_all is_digit s \<Longrightarrow> list_all is_digit t \<Longrightarrow> s < t \<Longrightarrow> decimal s < decimal t"
proof (induction s t rule: list_induct2)
  case Nil
  then show ?case by simp
next
  case (Cons c s d t)
  show ?case
  proof (cases "c = d")
    case True
    then show ?thesis using Cons by (simp add: decimal_Cons)
  next
    case False
    then have "digit_val c < digit_val d" using Cons.prems char_less_digit by auto
    then have "digit_val c * 10 ^ length t + 10 ^ length t \<le> digit_val d * 10 ^ length t"
      by (metis Suc_leI add.commute mult_Suc mult_le_mono1)
    moreover have "decimal s < 10 ^ length t" using decimal_bound[of s] Cons by simp
    ultimately show ?thesis using Cons.hyps by (simp add: decimal_Cons)
  qed
qed

lemma digits_length: "n < 10 ^ m \<Longrightarrow> 0 < m \<Longrightarrow> length (digits fuel n) \<le> m"
proof (induction fuel n arbitrary: m rule: digits.induct)
  case (1 n)
  then show ?case by simp
next
  case (2 fuel n)
  show ?case
  proof (cases "n < 10")
    case True
    then show ?thesis using 2 by simp
  next
    case False
    then obtain m' where m: "m = Suc m'" "0 < m'" using "2.prems" by (cases m; cases "m - 1") auto
    then have "n div 10 < 10 ^ m'" using "2.prems" by simp
    then show ?thesis using "2.IH"[OF False] m False by simp
  qed
qed

lemma pad20_length: "n < 10 ^ 20 \<Longrightarrow> length (pad20 n) = 20"
  using digits_length[of n 20 "Suc n"] by (simp add: pad20_def itoa_def del: digits.simps)

lemma pad20_mono:
  assumes "n < m" "m < 2 ^ 63"
  shows "pad20 n < pad20 m"
proof -
  have bounds: "n < 10 ^ 20" "m < 10 ^ 20" using assms by auto
  have len: "length (pad20 m) = length (pad20 n)" using pad20_length bounds by simp
  show ?thesis
  proof (rule ccontr)
    assume "\<not> pad20 n < pad20 m"
    then consider "pad20 m < pad20 n" | "pad20 m = pad20 n" by fastforce
    then show False
    proof cases
      case 1
      then have "decimal (pad20 m) < decimal (pad20 n)"
        using decimal_mono[OF len] pad20_digits by blast
      then show False using assms(1) by (simp add: decimal_pad20)
    next
      case 2
      then show False using assms(1) decimal_pad20 by (metis less_irrefl)
    qed
  qed
qed

lemma less_append_same: "(x :: string) < y \<Longrightarrow> p @ x < p @ y"
  by (induction p) auto

lemma less_append_right:
  "length (x :: string) = length y \<Longrightarrow> x < y \<Longrightarrow> x @ u < y @ v"
  by (induction x y rule: list_induct2) auto

lemma eventKey_mono:
  assumes "unix_epoch \<le> t" "t < t'" "t' < unix_epoch + 2 ^ 63"
  shows "eventKey s j t rnd < eventKey s j t' rnd'"
proof -
  let ?n = "nat (t - unix_epoch)" and ?m = "nat (t' - unix_epoch)"
  have nm: "?n < ?m" "?m < 2 ^ 63" using assms by (auto simp: nat_less_iff)
  then have "?n < 10 ^ 20" "?m < 10 ^ 20" by auto
  then have "length (pad20 ?n) = length (pad20 ?m)" using pad20_length by simp
  from less_append_right[OF this pad20_mono[OF nm]] show ?thesis
    unfolding eventKey_eq event_name_def by (intro less_append_same)
qed

definition events_ok :: "job_ev list \<Rightarrow> bool" where
  "events_ok evs \<longleftrightarrow> distinct (map fst evs) \<and>
     (\<forall>(t, rnd, step) \<in> set evs. CHR ''/'' \<notin> set rnd \<and> unix_epoch \<le> t \<and> t < unix_epoch + 2 ^ 63)"

lemma eventTime_ev_key:
  "events_ok evs \<Longrightarrow> ev \<in> set evs \<Longrightarrow> eventTime (ev_key s j ev) = Some (fst ev)"
  by (auto simp: events_ok_def ev_key_def eventTime_eventKey)

lemma events_ok_keys_inj: "events_ok evs \<Longrightarrow> inj_on (ev_key s j) (set evs)"
proof (rule inj_onI)
  fix x y assume ok: "events_ok evs" and mem: "x \<in> set evs" "y \<in> set evs" and eq: "ev_key s j x = ev_key s j y"
  then have "fst x = fst y" using eventTime_ev_key[OF ok] by (metis option.inject)
  then show "x = y" using ok mem by (auto simp: events_ok_def distinct_map inj_on_def)
qed

lemma events_ok_distinct_keys: "events_ok evs \<Longrightarrow> distinct (map (ev_key s j) evs)"
  using events_ok_keys_inj by (auto simp: distinct_map events_ok_def)

lemma events_sorted_by_time:
  assumes "events_ok evs"
  shows "sort (map (ev_key s j) evs) = map (ev_key s j) (sort_key fst evs)"
proof (rule properties_for_sort)
  show "mset (map (ev_key s j) (sort_key fst evs)) = mset (map (ev_key s j) evs)" by simp
  have sorted: "sorted (map fst (sort_key fst evs))" by simp
  have "distinct (map fst evs)" using assms by (simp add: events_ok_def)
  then have "distinct (map fst (sort_key fst evs))" by (metis distinct_map distinct_sort set_sort)
  with sorted have strict: "sorted_wrt (\<lambda>x y. fst x < fst y) (sort_key fst evs)"
    by (simp add: strict_sorted_iff flip: sorted_wrt_map)
  have "sorted_wrt (\<lambda>x y. ev_key s j x < ev_key s j y) (sort_key fst evs)"
  proof (rule sorted_wrt_mono_rel[OF _ strict])
    fix x y assume mem: "x \<in> set (sort_key fst evs)" "y \<in> set (sort_key fst evs)" and lt: "fst x < fst y"
    have "unix_epoch \<le> fst x" "fst y < unix_epoch + 2 ^ 63"
      using assms mem by (auto simp: events_ok_def)
    from eventKey_mono[OF this(1) lt this(2)] show "ev_key s j x < ev_key s j y"
      by (cases x; cases y) (simp add: ev_key_def)
  qed
  then show "sorted (map (ev_key s j) (sort_key fst evs))"
    by (simp add: sorted_wrt_map sorted_wrt_mono_rel[of _ "\<lambda>x y. ev_key s j x < ev_key s j y"])
qed

lemma classify_ev_key:
  "validKeySegment s \<Longrightarrow> validKeySegment j \<Longrightarrow> events_ok evs \<Longrightarrow> ev \<in> set evs \<Longrightarrow>
   classify_key (ev_key s j ev) = Some ((s, j), KEvent)"
  by (auto simp: events_ok_def ev_key_def classify_event)

lemma recorded_objects:
  assumes "recorded obj s j clock envelope evs" "validKeySegment s" "validKeySegment j" "events_ok evs"
  shows "job_objects obj (s, j) =
     \<lparr>jo_created = True, jo_meta = True, jo_events = map (ev_key s j) (sort_key fst evs)\<rparr>"
proof -
  have ok: "tbl_ok obj" using assms(1) by (simp add: recorded_def)
  note get = assms(1)[unfolded recorded_def, THEN conjunct2, rule_format]
  have mem: "k \<in> set (kind_keys (s, j) kind (obj_keys obj)) \<longleftrightarrow>
      classify_key k = Some ((s, j), kind) \<and> tbl_get obj k \<noteq> None" for k kind
    using obj_keys_get[of k obj] by (auto simp: kind_keys_def)
  have created: "createdKey s j \<in> set (kind_keys (s, j) KCreated (obj_keys obj))"
    using get[of "createdKey s j" KCreated] classify_created[OF assms(2,3)] mem by simp
  have meta: "metaKey s j \<in> set (kind_keys (s, j) KMeta (obj_keys obj))"
    using get[of "metaKey s j" KMeta] classify_meta[OF assms(2,3)] createdKey_not_metaKey[of s j] mem by auto
  let ?evk = "kind_keys (s, j) KEvent (obj_keys obj)"
  have "set ?evk = set (map (ev_key s j) evs)"
  proof (rule set_eqI)
    fix k
    show "k \<in> set ?evk \<longleftrightarrow> k \<in> set (map (ev_key s j) evs)"
    proof (cases "classify_key k = Some ((s, j), KEvent)")
      case True
      note apart = event_key_apart[OF assms(2,3) True]
      show ?thesis
        using True apart get[OF True] mem[of k KEvent] by (auto simp: map_of_eq_None_iff image_image)
    next
      case False
      then show ?thesis using mem[of k KEvent] classify_ev_key[OF assms(2,3,4)] by auto
    qed
  qed
  moreover have "distinct ?evk" using ok by (simp add: kind_keys_def obj_keys_def tbl_ok_def tbl_wf_def)
  ultimately have "mset ?evk = mset (map (ev_key s j) evs)"
    using events_ok_distinct_keys[OF assms(4)] set_eq_iff_mset_eq_distinct by metis
  then have "sort ?evk = sort (map (ev_key s j) evs)"
    by (metis mset_sort properties_for_sort sorted_sort)
  then have "sort ?evk = map (ev_key s j) (sort_key fst evs)"
    using events_sorted_by_time[OF assms(4)] by simp
  moreover have "kind_keys (s, j) KCreated (obj_keys obj) \<noteq> []" "kind_keys (s, j) KMeta (obj_keys obj) \<noteq> []"
    using created meta by auto
  ultimately show ?thesis by (simp add: job_objects_def objects_of_def)
qed

lemma parseJobLines_lines: "parseJobLines (map (\<lambda>x. Line (f x)) xs) = Some (map f xs)"
  by (induction xs) auto

lemma read_log_events:
  assumes "tbl_up obj" "\<forall>ev \<in> set evs. tbl_get obj (ev_key s j ev) = Some (LogData [Line (ev_step ev)])"
  shows "read_log obj (map (ev_key s j) evs) = Inr (map ev_step evs)"
  using assms(2) by (induction evs) (simp_all add: assms(1))

lemma recorded_load:
  assumes "recorded obj s j clock envelope evs" "validKeySegment s" "validKeySegment j" "events_ok evs"
  shows "GetJob (Some obj) s j =
     Inr ((buildSummary j s (placeholders clock (env_Steps envelope) @ map ev_step (sort_key fst evs)))
            \<lparr>js_InvokedBy := env_InvokedBy envelope\<rparr>)"
proof -
  have up: "tbl_up obj" using assms(1) by (simp add: recorded_def tbl_ok_def)
  note get = assms(1)[unfolded recorded_def, THEN conjunct2, rule_format]
  note cl = classify_ev_key[OF assms(2,3,4)]
  have created: "tbl_get obj (createdKey s j) =
      Some (LogData (map Line (placeholders clock (env_Steps envelope))))"
    using get[of "createdKey s j" KCreated] classify_created[OF assms(2,3)] by simp
  have meta: "tbl_get obj (metaKey s j) =
      Some (MetaData \<lparr>jm_JID = j, jm_InvokedBy = env_InvokedBy envelope, jm_CreatedAt = clock 1\<rparr>)"
    using get[of "metaKey s j" KMeta] classify_meta[OF assms(2,3)] createdKey_not_metaKey[of s j] by simp
  have "tbl_get obj (ev_key s j ev) = Some (LogData [Line (ev_step ev)])" if ev: "ev \<in> set evs" for ev
  proof -
    note event_key_apart[OF assms(2,3) cl[OF ev]]
    moreover have "map_of (map (\<lambda>ev. (ev_key s j ev, LogData [Line (ev_step ev)])) evs) (ev_key s j ev) =
        Some (LogData [Line (ev_step ev)])"
      using events_ok_distinct_keys[OF assms(4), of s j] ev by (intro map_of_is_SomeI) (auto simp: comp_def)
    ultimately show ?thesis using get[OF cl[OF ev]] by simp
  qed
  then have events: "read_log obj (map (ev_key s j) (sort_key fst evs)) = Inr (map ev_step (sort_key fst evs))"
    using read_log_events[OF up] by simp
  show ?thesis
    using up created meta events
    by (simp add: GetJob_eq assms(2,3) recorded_objects[OF assms] hasLog_def loadJob_def log_keys_def
        parseJobLines_lines readJobMeta_def)
qed

section \<open>Deletion\<close>

text \<open>The keys of a job, as the index finds them.\<close>

definition job_key_list :: "obj_db \<Rightarrow> jobRef \<Rightarrow> string list" where
  "job_key_list obj ref = log_keys ref (job_objects obj ref) @
     (if jo_meta (job_objects obj ref) then [metaKey (fst ref) (snd ref)] else [])"

lemma foldl_tbl_del:
  "tbl_ok obj \<Longrightarrow> tbl_ok (foldl tbl_del obj ks) \<and>
   tbl_get (foldl tbl_del obj ks) k = (if k \<in> set ks then None else tbl_get obj k)"
  by (induction ks arbitrary: obj) (auto simp: tbl_get_del)

lemma job_key_list_mem:
  assumes "validKeySegment s" "validKeySegment j"
  shows "k \<in> set (job_key_list obj (s, j)) \<longleftrightarrow>
     tbl_get obj k \<noteq> None \<and> (\<exists>kind. classify_key k = Some ((s, j), kind))"
proof -
  have mem: "k \<in> set (kind_keys (s, j) kind (obj_keys obj)) \<longleftrightarrow>
      classify_key k = Some ((s, j), kind) \<and> tbl_get obj k \<noteq> None" for k kind
    using obj_keys_get[of k obj] by (auto simp: kind_keys_def)
  have c: "kind_keys (s, j) KCreated (obj_keys obj) \<noteq> [] \<longleftrightarrow> tbl_get obj (createdKey s j) \<noteq> None"
    using mem[of _ KCreated] classify_created[OF assms] by (metis empty_iff empty_set last_in_set)
  have m: "kind_keys (s, j) KMeta (obj_keys obj) \<noteq> [] \<longleftrightarrow> tbl_get obj (metaKey s j) \<noteq> None"
    using mem[of _ KMeta] classify_meta[OF assms] by (metis empty_iff empty_set last_in_set)
  have "k \<in> set (job_key_list obj (s, j)) \<longleftrightarrow> (k = createdKey s j \<and> tbl_get obj k \<noteq> None) \<or>
      (k = metaKey s j \<and> tbl_get obj k \<noteq> None) \<or> k \<in> set (kind_keys (s, j) KEvent (obj_keys obj))"
    using c m by (auto simp: job_key_list_def log_keys_def job_objects_def objects_of_def)
  moreover have "(\<exists>kind. classify_key k = Some ((s, j), kind)) \<longleftrightarrow>
      k = createdKey s j \<or> k = metaKey s j \<or> classify_key k = Some ((s, j), KEvent)"
    unfolding classify_created[OF assms, symmetric] classify_meta[OF assms, symmetric]
    by (metis key_kind.exhaust)
  ultimately show ?thesis unfolding mem by blast
qed

lemma deleteJobObjects_get:
  assumes "tbl_ok obj" "validKeySegment s" "validKeySegment j"
  shows "\<exists>obj'. deleteJobObjects obj (s, j) (job_objects obj (s, j)) = (obj', None) \<and> tbl_ok obj' \<and>
     (\<forall>k. tbl_get obj' k = (if \<exists>kind. classify_key k = Some ((s, j), kind) then None else tbl_get obj k))"
proof -
  let ?obj = "foldl tbl_del obj (job_key_list obj (s, j))"
  have "deleteJobObjects obj (s, j) (job_objects obj (s, j)) = (?obj, None)"
    using assms(1) by (simp add: deleteJobObjects_def job_key_list_def tbl_okD)
  moreover have "tbl_get ?obj k = (if \<exists>kind. classify_key k = Some ((s, j), kind) then None else tbl_get obj k)" for k
    using foldl_tbl_del[OF assms(1)] job_key_list_mem[OF assms(2,3), of k obj] by auto
  ultimately show ?thesis using foldl_tbl_del[OF assms(1)] by auto
qed

text \<open>The runs of a job ID the store knows, in the order both lookups use.\<close>

definition runs_of :: "obj_db \<Rightarrow> string \<Rightarrow> jobRef list" where
  "runs_of obj jid = (case listJobs obj jobKeyPrefix of None \<Rightarrow> [] | Some idx \<Rightarrow> refsForJID idx jid)"

lemma listJobs_all:
  assumes "tbl_up obj" "listJobs obj jobKeyPrefix = Some idx"
  shows "map_of idx ref = (if hasLog (job_objects obj ref) then Some (job_objects obj ref) else None)"
proof -
  have "\<forall>k kind. classify_key k = Some (ref, kind) \<longrightarrow> HasPrefix k jobKeyPrefix"
    using classify_prefixes by (metis surj_pair)
  from listJobs_find[OF assms(1) this] assms(2) show ?thesis by auto
qed

lemma hasLog_valid: "hasLog (job_objects obj (s, j)) \<Longrightarrow> validKeySegment s \<and> validKeySegment j"
  by (auto simp: hasLog_def job_objects_def objects_of_def kind_keys_def filter_empty_conv dest: classify_keyD)

lemma runs_of_mem:
  assumes "tbl_up obj" "(s, j) \<in> set (runs_of obj jid)"
  shows "j = jid \<and> hasLog (job_objects obj (s, j)) \<and> validKeySegment s \<and> validKeySegment j"
proof -
  obtain idx where idx: "listJobs obj jobKeyPrefix = Some idx"
    using assms(1) by (simp add: listJobs_def obj_list_def)
  then have "(s, j) \<in> fst ` set idx" "j = jid" using assms(2) by (auto simp: runs_of_def refsForJID_def)
  then have "map_of idx (s, j) \<noteq> None" by (simp add: map_of_eq_None_iff)
  then have "hasLog (job_objects obj (s, j))"
    using listJobs_all[OF assms(1) idx, of "(s, j)"] by (auto split: if_splits)
  with hasLog_valid \<open>j = jid\<close> show ?thesis by blast
qed

lemma DeleteJob_runs:
  assumes "tbl_ok obj" "validKeySegment jid" "runs_of obj jid = (s, j) # rest"
  shows "\<exists>obj'. DeleteJob (Some obj) jid = (Some obj', None) \<and> tbl_ok obj' \<and> j = jid \<and>
     (\<forall>k. tbl_get obj' k = (if \<exists>kind. classify_key k = Some ((s, jid), kind) then None else tbl_get obj k))"
proof -
  have up: "tbl_up obj" using assms(1) by (rule tbl_okD)
  obtain idx where idx: "listJobs obj jobKeyPrefix = Some idx"
    using up by (simp add: listJobs_def obj_list_def)
  have run: "j = jid" "hasLog (job_objects obj (s, j))" "validKeySegment s" "validKeySegment j"
    using runs_of_mem[OF up, of s j jid] assms(3) by auto
  have "map_of idx (s, j) = Some (job_objects obj (s, j))"
    using listJobs_all[OF up idx] run by simp
  then show ?thesis
    using deleteJobObjects_get[OF assms(1) run(3,4)] assms(2,3) idx run(1)
    by (auto simp: DeleteJob_def runs_of_def)
qed

lemma first_loadable_cases:
  "first_loadable obj idx refs = Inr summary \<Longrightarrow>
   \<exists>ref \<in> set refs. \<exists>objs. map_of idx ref = Some objs \<and> loadJob obj ref objs = Inr summary"
  by (induction obj idx refs rule: first_loadable.induct) (auto split: option.splits sum.splits)

lemma loadJob_ids:
  "loadJob obj ref objs = Inr summary \<Longrightarrow> js_SproutID summary = fst ref \<and> js_JID summary = snd ref"
  by (auto simp: loadJob_def buildSummary_def Let_def split: sum.splits if_splits option.splits prod.splits)

end
