(* ===== verification/Jobs.thy ===== *)
theory Jobs
  imports Jobs_Store
begin

text \<open>
  What the job log guarantees (\<open>internal/jobs\<close>): a job the listeners record reads
  back complete and in order of arrival, its summary does not depend on the
  order of the events, deletion and expiry remove exactly the objects of the
  jobs they name; and two ways in which the log and its callers disagree.
\<close>

section \<open>Recording and reading back\<close>

lemma record_job_recorded:
  assumes "subject_token s" "subject_token (env_JobID envelope)" "jb_obj st = Some obj" "tbl_ok obj"
    and "job_absent obj (s, env_JobID envelope)" "events_ok evs"
  shows "\<exists>obj'. jb_obj (record_job tid st s clock envelope evs) = Some obj' \<and>
     recorded obj' s (env_JobID envelope) clock envelope evs"
proof -
  have "\<forall>(t, rnd, step) \<in> set evs. CHR ''/'' \<notin> set rnd" using assms(6) by (auto simp: events_ok_def)
  then show ?thesis
    using logJobCreation_recorded[OF assms(1-5)] record_events_recorded[OF assms(1,2)]
      events_ok_distinct_keys[OF assms(6)]
    unfolding record_job_def by metis
qed

lemma record_job_GetJob:
  assumes "subject_token s" "subject_token (env_JobID envelope)" "jb_obj st = Some obj" "tbl_ok obj"
    and "job_absent obj (s, env_JobID envelope)" "events_ok evs"
  shows "GetJob (jb_obj (record_job tid st s clock envelope evs)) s (env_JobID envelope) =
     Inr ((buildSummary (env_JobID envelope) s
             (placeholders clock (env_Steps envelope) @ map ev_step (sort_key fst evs)))
          \<lparr>js_InvokedBy := env_InvokedBy envelope\<rparr>)"
  using record_job_recorded[OF assms] recorded_load assms(1,2,6) subject_tokenD by (metis (no_types, lifting))

text \<open>
  Property C32. A job reads back as it was recorded: after the listeners have
  seen the creation of a job and any events of it, in any order of handling, a
  query for it returns the placeholders of its steps followed by every event,
  in order of arrival, attributed to the invoker.
\<close>

theorem recorded_job_reads_back:
  assumes "subject_token s" "subject_token (env_JobID envelope)" "jb_obj st = Some obj" "tbl_ok obj"
    and "job_absent obj (s, env_JobID envelope)" "events_ok evs"
  shows "\<exists>summary. GetJob (jb_obj (record_job tid st s clock envelope evs)) s (env_JobID envelope) = Inr summary \<and>
     js_Steps summary = placeholders clock (env_Steps envelope) @ map ev_step (sort_key fst evs) \<and>
     js_InvokedBy summary = env_InvokedBy envelope \<and> js_SproutID summary = s \<and>
     js_Total summary = length (env_Steps envelope) + length evs"
  unfolding record_job_GetJob[OF assms] by (simp add: buildSummary_def placeholders_def split: prod.splits)

definition step_demo :: Step where
  "step_demo = \<lparr>st_Ingredient = ''cmd'', st_Method = ''run'', st_ID = ''s1'', st_Properties = [],
     st_Register = None, st_Secrets = [], st_Requisites = [], st_IsRequisite = False, st_Cond = None, st_OnExit = []\<rparr>"

definition envelope_demo :: RecipeEnvelope where
  "envelope_demo = \<lparr>env_JobID = ''j1'', env_Steps = [step_demo], env_Test = False, env_InvokedBy = ''AKEY1''\<rparr>"

definition completion_demo :: "string \<Rightarrow> CompletionStatus \<Rightarrow> StepCompletion" where
  "completion_demo i s = \<lparr>sc_ID = i, sc_Status = s, sc_ChangesMade = False, sc_Changes = [], sc_Started = 0,
     sc_Duration = 0, sc_Error = None\<rparr>"

definition job_evs_demo :: "job_ev list" where
  "job_evs_demo = [(unix_epoch + 30, ''cc'', completion_demo ''completed-j1'' StepCompleted),
     (unix_epoch + 10, ''aa'', completion_demo ''start-j1'' StepCompleted),
     (unix_epoch + 20, ''bb'', completion_demo ''s1'' StepCompleted)]"

definition jobs_demo :: jobs_state where
  "jobs_demo = \<lparr>jb_obj = Some \<lparr>tbl_rows = [], tbl_up = True\<rparr>, jb_index = Some index_demo\<rparr>"

lemma job_demo_ok:
  "subject_token ''w1''" "subject_token (env_JobID envelope_demo)"
  "jb_obj jobs_demo = Some \<lparr>tbl_rows = [], tbl_up = True\<rparr>"
  "tbl_ok (\<lparr>tbl_rows = [], tbl_up = True\<rparr> :: obj_db)"
  "job_absent \<lparr>tbl_rows = [], tbl_up = True\<rparr> (''w1'', env_JobID envelope_demo)"
  "events_ok job_evs_demo"
  by (simp_all add: subject_token_def validKeySegment_def envelope_demo_def jobs_demo_def tbl_ok_def tbl_wf_def
      job_absent_def ref_known_def obj_keys_def events_ok_def job_evs_demo_def)

theorem recorded_job_reads_back_witness:
  "\<exists>summary. GetJob (jb_obj (record_job ''acme'' jobs_demo ''w1'' (\<lambda>_. 5) envelope_demo job_evs_demo)) ''w1'' ''j1'' = Inr summary \<and>
     map sc_ID (js_Steps summary) = [''s1'', ''start-j1'', ''s1'', ''completed-j1''] \<and>
     js_InvokedBy summary = ''AKEY1''"
proof -
  have jid: "env_JobID envelope_demo = ''j1''" by (simp add: envelope_demo_def)
  have steps: "map sc_ID (placeholders (\<lambda>_. 5) (env_Steps envelope_demo) @ map ev_step (sort_key fst job_evs_demo)) =
      [''s1'', ''start-j1'', ''s1'', ''completed-j1'']" "env_InvokedBy envelope_demo = ''AKEY1''"
    by (simp_all add: envelope_demo_def placeholders_def placeholder_def step_demo_def job_evs_demo_def ev_step_def completion_demo_def)
  from recorded_job_reads_back[OF job_demo_ok, where tid = "''acme''" and clock = "\<lambda>_. 5"] obtain summary where
    "GetJob (jb_obj (record_job ''acme'' jobs_demo ''w1'' (\<lambda>_. 5) envelope_demo job_evs_demo)) ''w1'' ''j1'' = Inr summary"
    "js_Steps summary = placeholders (\<lambda>_. 5) (env_Steps envelope_demo) @ map ev_step (sort_key fst job_evs_demo)"
    "js_InvokedBy summary = env_InvokedBy envelope_demo"
    unfolding jid by blast
  then show ?thesis using steps by metis
qed

text \<open>
  A summary does not depend on the order in which the replicas'
  events are read: status, counts, start and duration are the same for every
  permutation of the steps; only the list of steps itself keeps the order.
\<close>

theorem summary_ignores_event_order:
  assumes "mset steps = mset steps'"
  shows "(buildSummary jid sprout steps)\<lparr>js_Steps := steps'\<rparr> = buildSummary jid sprout steps'"
  using assms by (rule buildSummary_perm)

theorem summary_ignores_event_order_witness:
  "(buildSummary ''j1'' ''w1'' [completion_demo ''a'' StepFailed, completion_demo ''b'' StepCompleted])
     \<lparr>js_Steps := [completion_demo ''b'' StepCompleted, completion_demo ''a'' StepFailed]\<rparr> =
   buildSummary ''j1'' ''w1'' [completion_demo ''b'' StepCompleted, completion_demo ''a'' StepFailed]"
  by (rule summary_ignores_event_order) simp

lemma has_status_placeholders: "has_status s (placeholders clock steps) \<longleftrightarrow> steps \<noteq> [] \<and> s = StepNotStarted"
  by (auto simp: has_status_def list_ex_iff placeholders_def placeholder_def)

lemma placeholders_keep_partial:
  assumes "env_Steps envelope \<noteq> []" "evs \<noteq> []" "\<forall>ev \<in> set evs. sc_Status (ev_step ev) = StepCompleted"
  shows "determineJobStatus (placeholders clock (env_Steps envelope) @ map ev_step (sort_key fst evs)) = JobPartial"
proof -
  let ?steps = "placeholders clock (env_Steps envelope) @ map ev_step (sort_key fst evs)"
  have "placeholders clock (env_Steps envelope) \<noteq> []" using assms(1) by (simp add: placeholders_def)
  moreover have app: "has_status s (xs @ ys) \<longleftrightarrow> has_status s xs \<or> has_status s ys" for s xs ys by (simp add: has_status_def)
  moreover have "hd evs \<in> set (sort_key fst evs)" using assms(2) by simp
  then have ev: "has_status s (map ev_step (sort_key fst evs)) \<longleftrightarrow> s = StepCompleted" for s
    using assms(3) unfolding has_status_def list_ex_iff set_map set_sort by blast
  ultimately have "has_status StepNotStarted ?steps" "has_status StepCompleted ?steps"
    "\<not> has_status StepInProgress ?steps" "\<not> has_status StepFailed ?steps" "?steps \<noteq> []"
    using assms ev by (auto simp: app has_status_placeholders)
  then show ?thesis by (simp add: determineJobStatus_def)
qed

text \<open>
  A job that ran to the end successfully reads as partial, not as
  succeeded: the placeholders written at its creation are never removed, so its
  log always holds steps that have not started.  Since the sprout reports no
  step as in progress, the job also reads as partial, and not as running, from
  its first event on.
\<close>

theorem successful_job_reads_partial:
  assumes "subject_token s" "subject_token (env_JobID envelope)" "jb_obj st = Some obj" "tbl_ok obj"
    and "job_absent obj (s, env_JobID envelope)" "events_ok evs"
    and "env_Steps envelope \<noteq> []" "evs \<noteq> []" "\<forall>ev \<in> set evs. sc_Status (ev_step ev) = StepCompleted"
  shows "\<exists>summary. GetJob (jb_obj (record_job tid st s clock envelope evs)) s (env_JobID envelope) = Inr summary \<and>
     js_Status summary = JobPartial"
  unfolding record_job_GetJob[OF assms(1-6)]
  using placeholders_keep_partial[OF assms(7-9)] by (simp add: buildSummary_def split: prod.splits)

theorem successful_job_reads_partial_witness:
  "\<exists>summary. GetJob (jb_obj (record_job ''acme'' jobs_demo ''w1'' (\<lambda>_. 5) envelope_demo job_evs_demo)) ''w1''
     (env_JobID envelope_demo) = Inr summary \<and> js_Status summary = JobPartial"
proof (rule successful_job_reads_partial[OF job_demo_ok])
  show "env_Steps envelope_demo \<noteq> []" by (simp add: envelope_demo_def)
  show "job_evs_demo \<noteq> []" by (simp add: job_evs_demo_def)
  show "\<forall>ev \<in> set job_evs_demo. sc_Status (ev_step ev) = StepCompleted"
    by (simp add: job_evs_demo_def ev_step_def completion_demo_def)
qed

section \<open>Deleting and expiring\<close>

lemma FindJob_first:
  assumes "tbl_ok obj" "validKeySegment jid" "runs_of obj jid = (s, j) # rest"
    and "loadJob obj (s, j) (job_objects obj (s, j)) = Inr summary"
  shows "FindJob (Some obj) jid = Inr summary"
proof -
  have up: "tbl_up obj" using assms(1) by (rule tbl_okD)
  obtain idx where idx: "listJobs obj jobKeyPrefix = Some idx"
    using up by (simp add: listJobs_def obj_list_def)
  have "hasLog (job_objects obj (s, j))" using runs_of_mem[OF up, of s j jid] assms(3) by auto
  then have "map_of idx (s, j) = Some (job_objects obj (s, j))" using listJobs_all[OF up idx] by simp
  then show ?thesis using assms(2,3,4) idx by (simp add: FindJob_def runs_of_def)
qed

text \<open>
  When the first run of a job ID can be read, deletion removes
  that run, the very one a lookup by job ID returns: every object of it, and no
  other object of the bucket.
\<close>

theorem DeleteJob_exact:
  assumes "tbl_ok obj" "validKeySegment jid" "runs_of obj jid = (s, j) # rest"
    and "loadJob obj (s, j) (job_objects obj (s, j)) = Inr summary"
  shows "FindJob (Some obj) jid = Inr summary \<and> js_SproutID summary = s \<and>
     (\<exists>obj'. DeleteJob (Some obj) jid = (Some obj', None) \<and>
        (\<forall>k. tbl_get obj' k = (if \<exists>kind. classify_key k = Some ((s, jid), kind) then None else tbl_get obj k)))"
  using FindJob_first[OF assms] DeleteJob_runs[OF assms(1-3)] loadJob_ids[OF assms(4)] by auto

definition log_demo :: obj_data where "log_demo = LogData [Line (completion_demo ''s1'' StepCompleted)]"

definition bucket_demo :: obj_db where
  "bucket_demo = \<lparr>tbl_rows = [(createdKey ''a1'' ''j1'', log_demo), (createdKey ''b1'' ''j1'', log_demo)], tbl_up = True\<rparr>"

theorem DeleteJob_exact_witness:
  "\<exists>obj'. DeleteJob (Some bucket_demo) ''j1'' = (Some obj', None) \<and> tbl_get obj' (createdKey ''a1'' ''j1'') = None"
proof -
  let ?objs = "job_objects bucket_demo (''a1'', ''j1'')"
  have "tbl_ok bucket_demo" "validKeySegment ''j1''"
    "runs_of bucket_demo ''j1'' = [(''a1'', ''j1''), (''b1'', ''j1'')]" by code_simp+
  moreover have "\<exists>summary. loadJob bucket_demo (''a1'', ''j1'') ?objs = Inr summary"
  proof -
    have "projl (loadJob bucket_demo (''a1'', ''j1'') ?objs) = projl (loadJob bucket_demo (''a1'', ''j1'') ?objs) \<and>
        isl (loadJob bucket_demo (''a1'', ''j1'') ?objs) = False" by (rule conjI, simp, code_simp)
    then show ?thesis by (cases "loadJob bucket_demo (''a1'', ''j1'') ?objs") auto
  qed
  moreover have "classify_key (createdKey ''a1'' ''j1'') = Some ((''a1'', ''j1''), KCreated)" by code_simp
  ultimately show ?thesis using DeleteJob_exact[of bucket_demo "''j1''"] by fastforce
qed

text \<open>
  When the first run cannot be read, lookup and deletion part: the
  lookup skips it and returns the next sprout's run, on which a caller checks
  access, while the deletion still removes the first sprout's run.
\<close>

theorem DeleteJob_removes_unread_run:
  "\<exists>obj summary obj'. tbl_ok obj \<and> FindJob (Some obj) ''j1'' = Inr summary \<and> js_SproutID summary = ''b1'' \<and>
     DeleteJob (Some obj) ''j1'' = (Some obj', None) \<and>
     tbl_get obj (createdKey ''a1'' ''j1'') \<noteq> None \<and> tbl_get obj' (createdKey ''a1'' ''j1'') = None \<and>
     tbl_get obj' (createdKey ''b1'' ''j1'') = tbl_get obj (createdKey ''b1'' ''j1'')"
proof -
  let ?obj = "\<lparr>tbl_rows = [(createdKey ''a1'' ''j1'', LogData [Unreadable]),
                          (createdKey ''b1'' ''j1'', log_demo)], tbl_up = True\<rparr> :: obj_db"
  have ok: "tbl_ok ?obj" by code_simp
  have runs: "runs_of ?obj ''j1'' = [(''a1'', ''j1''), (''b1'', ''j1'')]" by code_simp
  have "(case FindJob (Some ?obj) ''j1'' of Inl _ \<Rightarrow> [] | Inr summary \<Rightarrow> js_SproutID summary) = ''b1''" by code_simp
  then obtain summary where find: "FindJob (Some ?obj) ''j1'' = Inr summary" "js_SproutID summary = ''b1''"
    by (cases "FindJob (Some ?obj) ''j1''") auto
  have v: "validKeySegment ''j1''" by code_simp
  obtain obj' where del: "DeleteJob (Some ?obj) ''j1'' = (Some obj', None)"
    "\<forall>k. tbl_get obj' k = (if \<exists>kind. classify_key k = Some ((''a1'', ''j1''), kind) then None else tbl_get ?obj k)"
    using DeleteJob_runs[OF ok v runs] by blast
  have "classify_key (createdKey ''a1'' ''j1'') = Some ((''a1'', ''j1''), KCreated)"
    "classify_key (createdKey ''b1'' ''j1'') = Some ((''b1'', ''j1''), KCreated)" by code_simp+
  moreover have "tbl_get ?obj (createdKey ''a1'' ''j1'') \<noteq> None" by code_simp
  ultimately have "tbl_get obj' (createdKey ''a1'' ''j1'') = None"
    "tbl_get obj' (createdKey ''b1'' ''j1'') = tbl_get ?obj (createdKey ''b1'' ''j1'')" using del(2) by simp_all
  then show ?thesis using ok find del(1) \<open>tbl_get ?obj (createdKey ''a1'' ''j1'') \<noteq> None\<close> by blast
qed

text \<open>A job is expired when it can be dated and its last activity lies before the cutoff.\<close>

definition expired :: "int \<Rightarrow> obj_db \<Rightarrow> jobRef \<Rightarrow> bool" where
  "expired cutoff obj ref =
     (let last = lastActivity obj ref (job_objects obj ref) in last \<noteq> 0 \<and> last < cutoff)"

definition agrees_on :: "obj_db \<Rightarrow> obj_db \<Rightarrow> jobRef \<Rightarrow> bool" where
  "agrees_on obj obj0 ref \<longleftrightarrow> (\<forall>k kind. classify_key k = Some (ref, kind) \<longrightarrow> tbl_get obj k = tbl_get obj0 k)"

lemma lastActivity_agrees:
  assumes "tbl_up obj" "tbl_up obj0" "agrees_on obj obj0 (s, j)" "validKeySegment s" "validKeySegment j"
  shows "lastActivity obj (s, j) objs = lastActivity obj0 (s, j) objs"
proof -
  have "tbl_get obj (metaKey s j) = tbl_get obj0 (metaKey s j)"
    using assms(3) classify_meta[OF assms(4,5)] by (auto simp: agrees_on_def)
  then have "readJobMeta obj (s, j) = readJobMeta obj0 (s, j)"
    using assms(1,2) by (simp add: readJobMeta_def)
  then show ?thesis by (simp only: lastActivity_def)
qed

lemma delete_objects_of:
  assumes "tbl_ok obj" "agrees_on obj obj0 (s, j)" "validKeySegment s" "validKeySegment j"
  shows "tbl_ok (fst (deleteJobObjects obj (s, j) (job_objects obj0 (s, j)))) \<and>
    tbl_get (fst (deleteJobObjects obj (s, j) (job_objects obj0 (s, j)))) k =
      (if \<exists>kind. classify_key k = Some ((s, j), kind) then None else tbl_get obj k)"
proof -
  have "fst (deleteJobObjects obj (s, j) (job_objects obj0 (s, j))) = foldl tbl_del obj (job_key_list obj0 (s, j))"
    using assms(1) by (simp add: deleteJobObjects_def job_key_list_def tbl_okD)
  then show ?thesis
    using foldl_tbl_del[OF assms(1), of "job_key_list obj0 (s, j)"] job_key_list_mem[OF assms(3,4), of k obj0] assms(2)
    by (auto simp: agrees_on_def)
qed

lemma reap_loop_get:
  assumes "tbl_ok obj" "tbl_up obj0" "distinct (map fst idx)"
    and "\<forall>(ref, objs) \<in> set idx. objs = job_objects obj0 ref \<and> agrees_on obj obj0 ref \<and>
           validKeySegment (fst ref) \<and> validKeySegment (snd ref)"
  shows "tbl_ok (reap_loop cutoff idx obj) \<and> tbl_get (reap_loop cutoff idx obj) k =
     (if \<exists>ref kind. classify_key k = Some (ref, kind) \<and> ref \<in> fst ` set idx \<and> expired cutoff obj0 ref
      then None else tbl_get obj k)"
  using assms
proof (induction idx arbitrary: obj)
  case Nil
  then show ?case by simp
next
  case (Cons ro idx)
  obtain s j objs where ro: "ro = ((s, j), objs)" by (metis surj_pair)
  have objs: "objs = job_objects obj0 (s, j)" and ag: "agrees_on obj obj0 (s, j)"
    and v: "validKeySegment s" "validKeySegment j"
    using Cons.prems(4) ro by auto
  have up: "tbl_up obj" using Cons.prems(1) by (rule tbl_okD)
  define obj1 where "obj1 = (if expired cutoff obj0 (s, j) then fst (deleteJobObjects obj (s, j) objs) else obj)"
  have loop: "reap_loop cutoff (ro # idx) obj = reap_loop cutoff idx obj1"
    using lastActivity_agrees[OF up Cons.prems(2) ag v]
    by (auto simp: ro obj1_def expired_def objs Let_def)
  have ok1: "tbl_ok obj1" using delete_objects_of[OF Cons.prems(1) ag v] Cons.prems(1)
    by (simp add: obj1_def objs)
  have get1: "tbl_get obj1 k' =
      (if (\<exists>kind. classify_key k' = Some ((s, j), kind)) \<and> expired cutoff obj0 (s, j) then None else tbl_get obj k')" for k'
    using delete_objects_of[OF Cons.prems(1) ag v] by (simp add: obj1_def objs)
  have new: "(s, j) \<notin> fst ` set idx" using Cons.prems(3) ro by simp
  then have "agrees_on obj1 obj0 ref" if "(ref, objs') \<in> set idx" for ref objs'
    using that Cons.prems(4) get1 by (force simp: agrees_on_def)
  then have "\<forall>(ref, objs) \<in> set idx. objs = job_objects obj0 ref \<and> agrees_on obj1 obj0 ref \<and>
      validKeySegment (fst ref) \<and> validKeySegment (snd ref)"
    using Cons.prems(4) by auto
  then have IH: "tbl_ok (reap_loop cutoff idx obj1) \<and> tbl_get (reap_loop cutoff idx obj1) k =
      (if \<exists>ref kind. classify_key k = Some (ref, kind) \<and> ref \<in> fst ` set idx \<and> expired cutoff obj0 ref
       then None else tbl_get obj1 k)"
    using Cons.IH[OF ok1 Cons.prems(2)] Cons.prems(3) by simp
  show ?case
  proof (cases "classify_key k")
    case None
    then show ?thesis using IH loop by (simp add: get1 del: reap_loop.simps)
  next
    case (Some rk)
    obtain ref kind where rk: "rk = (ref, kind)" by (cases rk)
    show ?thesis using IH loop new Some rk ro
      by (cases "ref = (s, j)") (simp_all add: get1 del: reap_loop.simps)
  qed
qed

lemma indexJobs_entry:
  assumes "(ref, objs) \<in> set (indexJobs (filter (\<lambda>k. HasPrefix k jobKeyPrefix) (obj_keys obj)))"
  shows "objs = job_objects obj ref \<and> validKeySegment (fst ref) \<and> validKeySegment (snd ref)"
proof -
  let ?keys = "filter (\<lambda>k. HasPrefix k jobKeyPrefix) (obj_keys obj)"
  have "map_of (indexJobs ?keys) ref = Some objs"
    using assms indexJobs_distinct by (simp add: map_of_eq_Some_iff)
  then have known: "ref_known ref ?keys"
    and objs: "objs = (objects_of ref ?keys)\<lparr>jo_events := sort (jo_events (objects_of ref ?keys))\<rparr>"
    by (auto simp: indexJobs_spec split: if_splits)
  have pre: "\<forall>k kind. classify_key k = Some (ref, kind) \<longrightarrow> HasPrefix k jobKeyPrefix"
    using classify_prefixes by (metis surj_pair)
  have "objects_of ref ?keys = objects_of ref (obj_keys obj)"
    using kind_keys_prefix[OF pre] by (simp add: objects_of_def)
  moreover have "validKeySegment (fst ref) \<and> validKeySegment (snd ref)"
    using known classify_keyD by (cases ref) (auto simp: ref_known_def)
  ultimately show ?thesis using objs by (simp add: job_objects_def Let_def)
qed

lemma indexJobs_known:
  assumes "tbl_get obj k \<noteq> None" "classify_key k = Some (ref, kind)"
  shows "ref \<in> fst ` set (indexJobs (filter (\<lambda>k. HasPrefix k jobKeyPrefix) (obj_keys obj)))"
proof -
  let ?keys = "filter (\<lambda>k. HasPrefix k jobKeyPrefix) (obj_keys obj)"
  have "HasPrefix k jobKeyPrefix" using assms(2) classify_prefixes by (metis surj_pair)
  then have "k \<in> set ?keys" using assms(1) obj_keys_get[of k obj] by simp
  then have "ref_known ref ?keys" using assms(2) by (auto simp: ref_known_def)
  then have "map_of (indexJobs ?keys) ref \<noteq> None" by (simp add: indexJobs_spec)
  then show ?thesis by (simp add: map_of_eq_None_iff)
qed

text \<open>
  The reaper removes exactly the expired jobs: an object of a job
  goes if and only if the job's last activity (its newest event, or its
  creation when no event arrived) lies before the cutoff, and keys that belong
  to no job stay.
\<close>

theorem reap_exact:
  assumes "jb_obj st = Some obj" "tbl_ok obj"
  shows "\<exists>obj'. jb_obj (reap now ttl st) = Some obj' \<and>
     (\<forall>k. tbl_get obj' k =
        (case classify_key k of
           None \<Rightarrow> tbl_get obj k
         | Some (ref, kind) \<Rightarrow> if expired (now - ttl) obj ref then None else tbl_get obj k))"
proof -
  let ?idx = "indexJobs (filter (\<lambda>k. HasPrefix k jobKeyPrefix) (obj_keys obj))"
  let ?obj = "reap_loop (now - ttl) ?idx obj"
  have up: "tbl_up obj" using assms(2) by (rule tbl_okD)
  have "jb_obj (reap now ttl st) = Some ?obj"
    using assms(1) up by (simp add: reap_def obj_list_def obj_keys_def)
  moreover have "\<forall>(ref, objs) \<in> set ?idx. objs = job_objects obj ref \<and> agrees_on obj obj ref \<and>
      validKeySegment (fst ref) \<and> validKeySegment (snd ref)"
    using indexJobs_entry by (auto simp: agrees_on_def)
  note get = reap_loop_get[OF assms(2) up indexJobs_distinct this, of "now - ttl"]
  have "tbl_get ?obj k =
      (case classify_key k of None \<Rightarrow> tbl_get obj k
       | Some (ref, kind) \<Rightarrow> if expired (now - ttl) obj ref then None else tbl_get obj k)" for k
    using get[of k] indexJobs_known[of obj k] by (cases "tbl_get obj k") (auto split: option.splits)
  ultimately show ?thesis by blast
qed

theorem reap_exact_witness:
  "\<exists>obj'. jb_obj (reap (unix_epoch + 1000) 900
       \<lparr>jb_obj = Some \<lparr>tbl_rows = [(eventKey ''a1'' ''j1'' (unix_epoch + 50) ''aa'', log_demo),
                                 (eventKey ''b1'' ''j1'' (unix_epoch + 500) ''bb'', log_demo)], tbl_up = True\<rparr>,
        jb_index = None\<rparr>) = Some obj' \<and>
     tbl_get obj' (eventKey ''a1'' ''j1'' (unix_epoch + 50) ''aa'') = None \<and>
     tbl_get obj' (eventKey ''b1'' ''j1'' (unix_epoch + 500) ''bb'') = Some log_demo"
proof -
  let ?a = "eventKey ''a1'' ''j1'' (unix_epoch + 50) ''aa''" and ?b = "eventKey ''b1'' ''j1'' (unix_epoch + 500) ''bb''"
  let ?obj = "\<lparr>tbl_rows = [(?a, log_demo), (?b, log_demo)], tbl_up = True\<rparr> :: obj_db"
  let ?st = "\<lparr>jb_obj = Some ?obj, jb_index = None\<rparr>"
  have facts: "tbl_ok ?obj" "classify_key ?a = Some ((''a1'', ''j1''), KEvent)"
    "classify_key ?b = Some ((''b1'', ''j1''), KEvent)"
    "expired (unix_epoch + 1000 - 900) ?obj (''a1'', ''j1'')"
    "\<not> expired (unix_epoch + 1000 - 900) ?obj (''b1'', ''j1'')" "tbl_get ?obj ?b = Some log_demo" by code_simp+
  have "jb_obj ?st = Some ?obj" by simp
  from reap_exact[OF this facts(1), of "unix_epoch + 1000" 900] facts show ?thesis by auto
qed

end
