(* ===== verification/Natsapi.thy ===== *)
theory Natsapi
  imports Natsapi_Scope Pki_Enroll Jobs
begin

text \<open>
  The bus API's handlers and their registration (\<open>internal/natsapi\<close>): properties,
  sprouts, PKI, cohorts, users, jobs, targeted actions and shell sessions, each
  as a function of the farmer's state, and \<open>dispatch\<close>, the wrapped handler of a
  method as \<open>Subscribe\<close> registers it.  What a handler publishes on the bus is
  recorded in the state; what a sprout answers is part of the environment.
\<close>

section \<open>State and results\<close>

record CmdCook =
  cc_Async :: bool
  cc_Env :: string
  cc_Recipe :: string
  cc_State :: string
  cc_Test :: bool
  cc_Timeout :: int
  cc_JID :: string

record CmdRun =
  cr_Command :: string
  cr_Args :: "string list"
  cr_Path :: string
  cr_CWD :: string
  cr_RunAs :: string
  cr_Env :: "(string \<times> string) list"
  cr_Timeout :: int
  cr_StreamTopic :: string

text \<open>A cook request waiting for its trigger: what the goroutine of \<open>handleCook\<close> closes over.\<close>

record cook_request =
  ck_tenant :: string
  ck_targets :: "string list"
  ck_command :: CmdCook
  ck_invoker :: string
  ck_jid :: string

record SessionInfo =
  si_SproutID :: string
  si_Pubkey :: string
  si_RoleName :: string
  si_Shell :: string
  si_StartedAt :: int
  si_DoneSubject :: string

text \<open>
  What the handlers send: messages they publish or request themselves, and the
  calls of \<open>cmd.FRun\<close> and \<open>test.FPing\<close>, which request the sprout over their own
  connection table.
\<close>

datatype sent =
    SentCancel string string string
  | SentRotate string string
  | CallFRun string string CmdRun
  | CallFPing string string
  | SentShell string string string

record api_state = farmer +
  fm_jobs :: jobs_state
  fm_cooks :: "cook_request list"
  fm_sessions :: "(string \<times> SessionInfo) list"
  fm_sent :: "sent list"

record SproutInfo =
  spr_ID :: string
  spr_KeyState :: string
  spr_Connected :: bool
  spr_NKey :: string

record CohortDetail =
  cd_cohort :: cohort
  cd_Resolved :: "string set"

record LoginResponse =
  lr_Pubkey :: string
  lr_RoleName :: string
  lr_Username :: string
  lr_IsAdmin :: bool
  lr_Actions :: "rule list"
  lr_Warnings :: "PolicyWarning list"

datatype api_result =
    RSuccess
  | RProps "(string \<times> string) list"
  | RProp string string string
  | RSprouts "SproutInfo list"
  | RSprout SproutInfo
  | RKeys KeysByType
  | RCohorts "(string \<times> string) list"
  | RCohort CohortDetail
  | RMembers string "string set"
  | RRefreshed "RefreshResult list"
  | RValidated bool nat "cohort_error list"
  | RLogin LoginResponse
  | RUser string string string
  | RUsers "(string \<times> string) list" "role list"
  | RJobs "JobSummary list"
  | RJob JobSummary
  | RJobDone string
  | RCook CmdCook
  | RTargets "string list"
  | RShell "string list"
  | RHealth string bool
  | RVersion Version
  | RAuditDates "DateSummary list"
  | RAudit QueryResult

section \<open>Properties\<close>

definition handlePropsGetAll :: "world \<Rightarrow> ('m api_state_scheme, api_result) handler" where
  "handlePropsGetAll w fm tid params =
     (let (fs, err) = raw_strs params [''sprout_id'', ''name'', ''value'']; sid = fs ! 0 in
      if err then (fm, Inl BadParams)
      else if sid = [] then (fm, Inl (MissingField ''sprout_id''))
      else (fm, Inr (RProps (case getProps (fm_props fm) (w_now w) tid sid of None \<Rightarrow> [] | Some kvs \<Rightarrow> kvs))))"

definition handlePropsGet :: "world \<Rightarrow> ('m api_state_scheme, api_result) handler" where
  "handlePropsGet w fm tid params =
     (let (fs, err) = raw_strs params [''sprout_id'', ''name'', ''value'']; sid = fs ! 0; name = fs ! 1 in
      if err then (fm, Inl BadParams)
      else if sid = [] \<or> name = [] then (fm, Inl (MissingField ''sprout_id and name''))
      else (fm, Inr (RProp sid name (getStringProp (fm_props fm) (w_now w) tid sid name))))"

definition handlePropsSet :: "world \<Rightarrow> ('m api_state_scheme, api_result) handler" where
  "handlePropsSet w fm tid params =
     (let (fs, err) = raw_strs params [''sprout_id'', ''name'', ''value'']; sid = fs ! 0; name = fs ! 1; value = fs ! 2 in
      if err then (fm, Inl BadParams)
      else if sid = [] \<or> name = [] then (fm, Inl (MissingField ''sprout_id and name''))
      else let (db', perr) = setProp (fm_props fm) (w_now w) tid sid name value in
           (fm\<lparr>fm_props := db'\<rparr>, case perr of Some e \<Rightarrow> Inl (PropFailed e) | None \<Rightarrow> Inr RSuccess))"

definition handlePropsDelete :: "world \<Rightarrow> ('m api_state_scheme, api_result) handler" where
  "handlePropsDelete w fm tid params =
     (let (fs, err) = raw_strs params [''sprout_id'', ''name'', ''value'']; sid = fs ! 0; name = fs ! 1 in
      if err then (fm, Inl BadParams)
      else if sid = [] \<or> name = [] then (fm, Inl (MissingField ''sprout_id and name''))
      else let (db', perr) = deleteProp (fm_props fm) tid sid name in
           (fm\<lparr>fm_props := db'\<rparr>, case perr of Some e \<Rightarrow> Inl (PropFailed e) | None \<Rightarrow> Inr RSuccess))"

section \<open>Sprouts\<close>

definition probeSprout :: "world \<Rightarrow> 'm farmer_scheme \<Rightarrow> string \<Rightarrow> string \<Rightarrow> bool" where
  "probeSprout w fm tid sid = (if \<not> natsConnFor fm tid then False else w_online w tid sid)"

definition resolveKeyState :: "'m farmer_scheme \<Rightarrow> string \<Rightarrow> string \<Rightarrow> string" where
  "resolveKeyState fm tid sid =
     (let allKeys = ListNKeysByType (fm_pki fm) tid in
      if sid \<in> set (Accepted allKeys) then ''accepted''
      else if sid \<in> set (Unaccepted allKeys) then ''unaccepted''
      else if sid \<in> set (Denied allKeys) then ''denied''
      else if sid \<in> set (Rejected allKeys) then ''rejected''
      else ''unknown'')"

definition sprout_entries :: "'m farmer_scheme \<Rightarrow> string \<Rightarrow> (string \<times> string) list" where
  "sprout_entries fm tid =
     (let allKeys = ListNKeysByType (fm_pki fm) tid in
      map (\<lambda>s. (s, ''accepted'')) (Accepted allKeys) @ map (\<lambda>s. (s, ''unaccepted'')) (Unaccepted allKeys) @
      map (\<lambda>s. (s, ''denied'')) (Denied allKeys) @ map (\<lambda>s. (s, ''rejected'')) (Rejected allKeys))"

definition sprout_info :: "world \<Rightarrow> 'm farmer_scheme \<Rightarrow> string \<Rightarrow> string \<times> string \<Rightarrow> SproutInfo" where
  "sprout_info w fm tid e =
     \<lparr>spr_ID = fst e, spr_KeyState = snd e,
      spr_Connected = (snd e = ''accepted'' \<and> natsConnFor fm tid \<and> probeSprout w fm tid (fst e)),
      spr_NKey = (case GetNKey (fm_pki fm) tid (fst e) of Inl _ \<Rightarrow> [] | Inr nkey \<Rightarrow> nkey)\<rparr>"

text \<open>The filter step both listings share: a nil result of the scope filter leaves the list as it is.\<close>

definition keep_allowed :: "string list option \<Rightarrow> ('a \<Rightarrow> bool) \<Rightarrow> ('a \<Rightarrow> string) \<Rightarrow> 'a list \<Rightarrow> 'a list" where
  "keep_allowed allowed always sprout_of xs =
     (case allowed of None \<Rightarrow> xs | Some ids \<Rightarrow> filter (\<lambda>x. always x \<or> sprout_of x \<in> set ids) xs)"

definition handleSproutsList :: "world \<Rightarrow> ('m api_state_scheme, api_result) handler" where
  "handleSproutsList w fm tid params =
     (let sprouts = map (sprout_info w fm tid) (sprout_entries fm tid); token = token_of params in
      if DangerouslyAllowRoot (fm_auth fm) \<or> token = [] then (fm, Inr (RSprouts sprouts))
      else let allowed = filterSproutsByScope w fm tid token ActionView (map spr_ID sprouts) in
           (fm, Inr (RSprouts (keep_allowed allowed (\<lambda>s. False) spr_ID sprouts))))"

definition handleSproutsGet :: "world \<Rightarrow> ('m api_state_scheme, api_result) handler" where
  "handleSproutsGet w fm tid params =
     (let (sid, err) = raw_str params ''id'' in
      if err then (fm, Inl BadParams)
      else if \<not> IsValidSproutID sid then (fm, Inl (InvalidSprout sid))
      else case GetNKey (fm_pki fm) tid sid of
             Inl _ \<Rightarrow> (fm, Inl SproutNotFound)
           | Inr nkey \<Rightarrow>
               (let keyState = resolveKeyState fm tid sid in
                (fm, Inr (RSprout \<lparr>spr_ID = sid, spr_KeyState = keyState,
                   spr_Connected = (keyState = ''accepted'' \<and> natsConnFor fm tid \<and> probeSprout w fm tid sid),
                   spr_NKey = nkey\<rparr>))))"

section \<open>PKI\<close>

definition handlePKIList :: "world \<Rightarrow> ('m api_state_scheme, api_result) handler" where
  "handlePKIList w fm tid params = (fm, Inr (RKeys (ListNKeysByType (fm_pki fm) tid)))"

text \<open>The shape the five state-changing handlers share: decode, call, report.\<close>

definition pki_handler ::
  "(pki_state \<Rightarrow> string \<Rightarrow> string \<Rightarrow> pki_state \<times> pki_error option) \<Rightarrow> ('m api_state_scheme, api_result) handler" where
  "pki_handler operation fm tid params =
     (let (sid, err) = raw_str params ''id'' in
      if err then (fm, Inl BadParams)
      else let (pki', perr) = operation (fm_pki fm) tid sid in
           (fm\<lparr>fm_pki := pki'\<rparr>, case perr of Some e \<Rightarrow> Inl (PkiFailed e) | None \<Rightarrow> Inr RSuccess))"

definition handlePKIAccept :: "world \<Rightarrow> ('m api_state_scheme, api_result) handler" where
  "handlePKIAccept w = pki_handler AcceptNKey"

definition handlePKIReject :: "world \<Rightarrow> ('m api_state_scheme, api_result) handler" where
  "handlePKIReject w = pki_handler (\<lambda>st tid sid. RejectNKey st tid sid [])"

definition handlePKIDeny :: "world \<Rightarrow> ('m api_state_scheme, api_result) handler" where
  "handlePKIDeny w = pki_handler DenyNKey"

definition handlePKIUnaccept :: "world \<Rightarrow> ('m api_state_scheme, api_result) handler" where
  "handlePKIUnaccept w = pki_handler (\<lambda>st tid sid. UnacceptNKey st tid sid [])"

definition handlePKIDelete :: "world \<Rightarrow> ('m api_state_scheme, api_result) handler" where
  "handlePKIDelete w = pki_handler DeleteNKey"

definition NKeyExists :: "'m farmer_scheme \<Rightarrow> string \<Rightarrow> string \<Rightarrow> bool" where
  "NKeyExists fm tid sid = fst (NKeyExistsInTenant (fm_pki fm) tid sid [])"

definition add_sent :: "sent list \<Rightarrow> 'm api_state_scheme \<Rightarrow> 'm api_state_scheme" where
  "add_sent ms fm = fm\<lparr>fm_sent := fm_sent fm @ ms\<rparr>"

definition handlePKIRotateBoxKey :: "world \<Rightarrow> ('m api_state_scheme, api_result) handler" where
  "handlePKIRotateBoxKey w fm tid params =
     (let (sid, err) = raw_str params ''id'' in
      if err then (fm, Inl BadParams)
      else if sid = [] then (fm, Inl (MissingField ''id''))
      else if \<not> NKeyExists fm tid sid then (fm, Inl (UnknownSprout sid))
      else if \<not> natsConnFor fm tid then (fm, Inl NoConnection)
      else if \<not> w_publish w (SproutSubject sid ''boxkey.rotate'') then (fm, Inl PublishFailed)
      else (add_sent [SentRotate tid sid] fm, Inr RSuccess))"

section \<open>Cohorts\<close>

definition cohort_env_of :: "world \<Rightarrow> 'm farmer_scheme \<Rightarrow> cohort_env" where
  "cohort_env_of w fm =
     \<lparr>env_cohorts = pdb_cohorts (au_db (fm_auth fm)), env_props = fm_props fm, env_now = w_now w\<rparr>"

definition handleCohortsList :: "world \<Rightarrow> ('m api_state_scheme, api_result) handler" where
  "handleCohortsList w fm tid params =
     (case fm_cohorts fm of
        None \<Rightarrow> (fm, Inr (RCohorts []))
      | Some reg \<Rightarrow>
          (let db = pdb_cohorts (au_db (fm_auth fm)) in
           (fm, Inr (RCohorts (concat (map (\<lambda>name. case Registry_Get db reg name of
                Inl _ \<Rightarrow> [] | Inr c \<Rightarrow> [(name, coh_Type c)]) (Registry_List db reg)))))))"

definition handleCohortsGet :: "world \<Rightarrow> ('m api_state_scheme, api_result) handler" where
  "handleCohortsGet w fm tid params =
     (case fm_cohorts fm of
        None \<Rightarrow> (fm, Inl NoCohortRegistry)
      | Some reg \<Rightarrow>
          (let (name, err) = raw_str params ''name'' in
           if err then (fm, Inl BadParams)
           else if name = [] then (fm, Inl (MissingField ''name''))
           else case Registry_Get (pdb_cohorts (au_db (fm_auth fm))) reg name of
                  Inl e \<Rightarrow> (fm, Inl (CohortFailed e))
                | Inr c \<Rightarrow>
                    (fm, Inr (RCohort \<lparr>cd_cohort = c, cd_Resolved =
                       (case Resolve (cohort_env_of w fm) reg name (allAcceptedSproutIDs fm tid) of
                          Inl _ \<Rightarrow> {} | Inr members \<Rightarrow> members)\<rparr>))))"

definition handleCohortsResolve :: "world \<Rightarrow> ('m api_state_scheme, api_result) handler" where
  "handleCohortsResolve w fm tid params =
     (case fm_cohorts fm of
        None \<Rightarrow> (fm, Inl NoCohortRegistry)
      | Some reg \<Rightarrow>
          (let (name, err) = raw_str params ''name'' in
           if err then (fm, Inl BadParams)
           else if name = [] then (fm, Inl (MissingField ''name''))
           else case Resolve (cohort_env_of w fm) reg name (allAcceptedSproutIDs fm tid) of
                  Inl e \<Rightarrow> (fm, Inl (CohortFailed e))
                | Inr members \<Rightarrow> (fm, Inr (RMembers name members))))"

definition handleCohortsRefresh :: "world \<Rightarrow> ('m api_state_scheme, api_result) handler" where
  "handleCohortsRefresh w fm tid params =
     (case fm_cohorts fm of
        None \<Rightarrow> (fm, Inl NoCohortRegistry)
      | Some reg \<Rightarrow>
          (let (name, err) = (if raw_len_pos params then raw_str params ''name'' else ([], False));
               ids = sort (allAcceptedSproutIDs fm tid)
           in if err then (fm, Inl BadParams)
              else if name \<noteq> [] then
                (let (reg', res) = Refresh (cohort_env_of w fm) reg name ids in
                 (fm\<lparr>fm_cohorts := Some reg'\<rparr>,
                  case res of Inl e \<Rightarrow> Inl (CohortFailed e) | Inr r \<Rightarrow> Inr (RRefreshed [r])))
              else
                (let (reg', results, cerr) = RefreshAll (cohort_env_of w fm) reg ids in
                 (fm\<lparr>fm_cohorts := Some reg'\<rparr>,
                  case cerr of Some e \<Rightarrow> Inl (CohortFailed e) | None \<Rightarrow> Inr (RRefreshed results)))))"

definition handleCohortsValidate :: "world \<Rightarrow> ('m api_state_scheme, api_result) handler" where
  "handleCohortsValidate w fm tid params =
     (case fm_cohorts fm of
        None \<Rightarrow> (fm, Inr (RValidated True 0 []))
      | Some reg \<Rightarrow>
          (let db = pdb_cohorts (au_db (fm_auth fm)); n = length (Registry_List db reg) in
           case ValidateReferencesAll db reg of
             None \<Rightarrow> (fm, Inl (CohortFailed NilPanic))
           | Some errs \<Rightarrow> (fm, Inr (RValidated (errs = []) n errs))))"

text \<open>One tick of the scheduled refresher, for the current tenant.\<close>

definition refreshAllCohorts :: "world \<Rightarrow> 'm api_state_scheme \<Rightarrow> 'm api_state_scheme" where
  "refreshAllCohorts w fm =
     (case fm_cohorts fm of
        None \<Rightarrow> fm
      | Some reg \<Rightarrow>
          if Registry_List (pdb_cohorts (au_db (fm_auth fm))) reg = [] then fm
          else fm\<lparr>fm_cohorts := Some (fst (RefreshAll (cohort_env_of w fm) reg
                    (sort (allAcceptedSproutIDs fm (currentTenantID (fm_pki fm))))))\<rparr>)"

section \<open>Users\<close>

definition root_login :: LoginResponse where
  "root_login = \<lparr>lr_Pubkey = ''(dangerously_allow_root)'', lr_RoleName = ''admin'', lr_Username = [],
     lr_IsAdmin = True, lr_Actions = [], lr_Warnings = []\<rparr>"

definition handleAuthLogin :: "world \<Rightarrow> ('m api_state_scheme, api_result) handler" where
  "handleAuthLogin w fm tid params =
     (let token = token_of params; au = fm_auth fm in
      if token = [] then
        (if DangerouslyAllowRoot au then (fm, Inr (RLogin root_login)) else (fm, Inl Unauthorized))
      else case WhoAmI (w_lib w) au (w_now w) token of
             Inl _ \<Rightarrow> (fm, Inl Unauthorized)
           | Inr (pubkey, roleName, username) \<Rightarrow>
               (let summary = ExplainAccess (au_db au) (currentPolicyLocked au) pubkey in
                (fm, Inr (RLogin \<lparr>lr_Pubkey = pubkey, lr_RoleName = roleName, lr_Username = username,
                   lr_IsAdmin = ps_IsAdmin summary, lr_Actions = ps_Actions summary, lr_Warnings = []\<rparr>))))"

definition handleAuthWhoAmI :: "world \<Rightarrow> ('m api_state_scheme, api_result) handler" where
  "handleAuthWhoAmI w fm tid params =
     (let token = token_of params in
      if token = [] then
        (if DangerouslyAllowRoot (fm_auth fm) then (fm, Inr (RUser ''(dangerously_allow_root)'' ''admin'' []))
         else (fm, Inl Unauthorized))
      else case WhoAmI (w_lib w) (fm_auth fm) (w_now w) token of
             Inl _ \<Rightarrow> (fm, Inl Unauthorized)
           | Inr (pubkey, roleName, username) \<Rightarrow> (fm, Inr (RUser pubkey roleName username)))"

definition handleAuthExplain :: "world \<Rightarrow> ('m api_state_scheme, api_result) handler" where
  "handleAuthExplain w fm tid params =
     (let token = token_of params; au = fm_auth fm in
      if token = [] then
        (if DangerouslyAllowRoot au
         then (fm, Inr (RLogin (root_login\<lparr>lr_Actions := [\<lparr>Action = ''admin'', Scope = ''*''\<rparr>]\<rparr>)))
         else (fm, Inl Unauthorized))
      else case WhoAmI (w_lib w) au (w_now w) token of
             Inl _ \<Rightarrow> (fm, Inl Unauthorized)
           | Inr (pubkey, roleName, _) \<Rightarrow>
               (let summary = ExplainAccess (au_db au) (currentPolicyLocked au) pubkey in
                (fm, Inr (RLogin \<lparr>lr_Pubkey = pubkey, lr_RoleName = roleName, lr_Username = [],
                   lr_IsAdmin = ps_IsAdmin summary, lr_Actions = ps_Actions summary,
                   lr_Warnings = ps_Warnings summary\<rparr>))))"

definition handleAuthAddUser :: "world \<Rightarrow> ('m api_state_scheme, api_result) handler" where
  "handleAuthAddUser w fm tid params =
     (let (fs, err) = (if raw_len_pos params then raw_strs params [''pubkey'', ''role'', ''token'']
                       else ([[], [], []], False));
          pubkey = fs ! 0; roleName = fs ! 1
      in if err then (fm, Inl BadParams)
         else if pubkey = [] \<or> roleName = [] then (fm, Inl (MissingField ''pubkey and role''))
         else let (au', aerr) = AddUser (w_validAccountKey w) (fm_auth fm) pubkey roleName in
              (fm\<lparr>fm_auth := au'\<rparr>, case aerr of Some e \<Rightarrow> Inl (AuthFailed e) | None \<Rightarrow> Inr RSuccess))"

definition handleAuthRemoveUser :: "world \<Rightarrow> ('m api_state_scheme, api_result) handler" where
  "handleAuthRemoveUser w fm tid params =
     (let (fs, err) = (if raw_len_pos params then raw_strs params [''pubkey'', ''token'']
                       else ([[], []], False));
          pubkey = fs ! 0
      in if err then (fm, Inl BadParams)
         else if pubkey = [] then (fm, Inl (MissingField ''pubkey''))
         else let (au', aerr) = RemoveUser (fm_auth fm) pubkey in
              (fm\<lparr>fm_auth := au'\<rparr>, case aerr of Some e \<Rightarrow> Inl (AuthFailed e) | None \<Rightarrow> Inr RSuccess))"

definition handleAuthListUsers :: "world \<Rightarrow> ('m api_state_scheme, api_result) handler" where
  "handleAuthListUsers w fm tid params =
     (fm, Inr (RUsers (ListAllUsers (fm_auth fm))
        (concat (map (\<lambda>name. case GetRole (fm_auth fm) name of Inl _ \<Rightarrow> [] | Inr role \<Rightarrow> [role])
           (ListRoles (fm_auth fm))))))"

section \<open>Jobs\<close>

fun job_error_text :: "job_error \<Rightarrow> string" where
  "job_error_text ErrJobNotFound = ''job not found''"
| "job_error_text ErrSproutNoJobs = ''no jobs found for sprout''"
| "job_error_text ErrJobStoreNotConfigured = ''job store not configured''"
| "job_error_text ObjErr = ''object store''"
| "job_error_text ParseErr = ''parsing step completion''"

definition handleJobsList :: "world \<Rightarrow> ('m api_state_scheme, api_result) handler" where
  "handleJobsList w fm tid params =
     (let limit0 = (if raw_len_pos params then fst (raw_int params ''limit'') else 0);
          user = (if raw_len_pos params then fst (raw_str params ''user'') else []);
          limit = (if limit0 \<le> 0 then 50 else limit0);
          token = token_of params
      in case ListAllJobs (jb_obj (fm_jobs fm)) limit of
           Inl e \<Rightarrow> (fm, Inl (StoreFailed (job_error_text e)))
         | Inr summaries \<Rightarrow>
             (let scoped = (if DangerouslyAllowRoot (fm_auth fm) \<or> token = [] then summaries
                    else keep_allowed (filterSproutsByScope w fm tid token ActionView
                           (remdups (filter (\<lambda>s. s \<noteq> []) (map js_SproutID summaries))))
                           (\<lambda>s. js_SproutID s = []) js_SproutID summaries)
              in (fm, Inr (RJobs (if user \<noteq> [] then filter (\<lambda>s. js_InvokedBy s = user) scoped else scoped)))))"

definition handleJobsGet :: "world \<Rightarrow> ('m api_state_scheme, api_result) handler" where
  "handleJobsGet w fm tid params =
     (let (jid, err) = raw_str params ''jid'' in
      if err then (fm, Inl BadParams)
      else if jid = [] then (fm, Inl (MissingField ''jid''))
      else case FindJob (jb_obj (fm_jobs fm)) jid of
             Inl e \<Rightarrow> (fm, Inl (StoreFailed (job_error_text e)))
           | Inr summary \<Rightarrow> (fm, Inr (RJob summary)))"

text \<open>The scope check of the two handlers that act on a job they first look up.\<close>

definition job_scope_ok :: "world \<Rightarrow> 'm farmer_scheme \<Rightarrow> string \<Rightarrow> raw \<Rightarrow> JobSummary \<Rightarrow> bool" where
  "job_scope_ok w fm tid params summary =
     (if DangerouslyAllowRoot (fm_auth fm) then True
      else let token = token_of params in
           if token \<noteq> [] \<and> js_SproutID summary \<noteq> []
           then checkScopedAccess w fm tid token ActionJobAdmin [js_SproutID summary] else True)"

definition handleJobsDelete :: "world \<Rightarrow> ('m api_state_scheme, api_result) handler" where
  "handleJobsDelete w fm tid params =
     (let (jid, err) = raw_str params ''jid'' in
      if err then (fm, Inl BadParams)
      else if jid = [] then (fm, Inl (MissingField ''jid''))
      else case FindJob (jb_obj (fm_jobs fm)) jid of
             Inl e \<Rightarrow> (fm, Inl (StoreFailed (job_error_text e)))
           | Inr summary \<Rightarrow>
               if \<not> job_scope_ok w fm tid params summary then (fm, Inl AccessDenied)
               else let (obj', derr) = DeleteJob (jb_obj (fm_jobs fm)) jid in
                    (fm\<lparr>fm_jobs := (fm_jobs fm)\<lparr>jb_obj := obj'\<rparr>\<rparr>,
                     case derr of Some e \<Rightarrow> Inl (StoreFailed (job_error_text e)) | None \<Rightarrow> Inr (RJobDone jid)))"

definition handleJobsCancel :: "world \<Rightarrow> ('m api_state_scheme, api_result) handler" where
  "handleJobsCancel w fm tid params =
     (let (jid, err) = raw_str params ''jid'' in
      if err then (fm, Inl BadParams)
      else if jid = [] then (fm, Inl (MissingField ''jid''))
      else case FindJob (jb_obj (fm_jobs fm)) jid of
             Inl e \<Rightarrow> (fm, Inl (StoreFailed (job_error_text e)))
           | Inr summary \<Rightarrow>
               if \<not> job_scope_ok w fm tid params summary then (fm, Inl AccessDenied)
               else if js_Status summary \<noteq> JobRunning \<and> js_Status summary \<noteq> JobPending
               then (fm, Inl (NotCancellable (JobStatus_String (js_Status summary))))
               else if \<not> natsConnFor fm tid then (fm, Inl NoConnection)
               else if \<not> w_publish w (SproutSubject (js_SproutID summary) ''cancel'') then (fm, Inl PublishFailed)
               else (add_sent [SentCancel tid (js_SproutID summary) jid] fm, Inr (RJobDone jid)))"

definition handleJobsListForSprout :: "world \<Rightarrow> ('m api_state_scheme, api_result) handler" where
  "handleJobsListForSprout w fm tid params =
     (let (sid, err) = raw_str params ''sprout_id'' in
      if err then (fm, Inl BadParams)
      else if sid = [] then (fm, Inl (MissingField ''sprout_id''))
      else case ListJobsForSprout (jb_obj (fm_jobs fm)) sid of
             Inl e \<Rightarrow> (fm, Inl (StoreFailed (job_error_text e)))
           | Inr summaries \<Rightarrow> (fm, Inr (RJobs summaries)))"

section \<open>Targeted actions\<close>

text \<open>The validation loop of the three targeted handlers.\<close>

fun validate_targets :: "'m farmer_scheme \<Rightarrow> string \<Rightarrow> string list \<Rightarrow> api_error option" where
  "validate_targets fm tid [] = None"
| "validate_targets fm tid (sid # sids) =
     (if \<not> IsValidSproutID sid \<or> Contains sid ''_'' then Some (InvalidSprout sid)
      else if \<not> NKeyExists fm tid sid then Some (UnknownSprout sid)
      else validate_targets fm tid sids)"

text \<open>The \<open>action\<close> field of a targeted request, re-encoded and decoded into the command's type.\<close>

definition action_fields :: "raw \<Rightarrow> (string \<times> val) list \<times> bool" where
  "action_fields params = struct_fields (fst (dec_field dec_any ''action'' (fst (raw_fields params)) VNull))"

definition dec_strs :: "string list dec" where
  "dec_strs v a = (case v of
       VList vs \<Rightarrow> (map (\<lambda>x. fst (dec_str x [])) vs, list_ex (\<lambda>x. snd (dec_str x [])) vs)
     | VNull \<Rightarrow> ([], False) | _ \<Rightarrow> (a, True))"

definition dec_strmap :: "(string \<times> string) list dec" where
  "dec_strmap v a = (case v of
       VMap kvs \<Rightarrow> (map (\<lambda>(k, x). (k, fst (dec_str x []))) kvs, list_ex (\<lambda>(k, x). snd (dec_str x [])) kvs)
     | VNull \<Rightarrow> ([], False) | _ \<Rightarrow> (a, True))"

text \<open>A field of an error type decodes from nothing but \<open>null\<close>; a map of errors, value by value.\<close>

definition dec_err :: "unit dec" where
  "dec_err v a = ((), v \<noteq> VNull)"

definition dec_errs :: "unit dec" where
  "dec_errs v a = ((), case v of VMap kvs \<Rightarrow> list_ex (\<lambda>(k, x). x \<noteq> VNull) kvs | VNull \<Rightarrow> False | _ \<Rightarrow> True)"

definition decode_CmdCook :: "(string \<times> val) list \<Rightarrow> CmdCook \<times> bool" where
  "decode_CmdCook kvs =
     (let (async, e1) = dec_field dec_bool ''async'' kvs False; (env, e2) = dec_field dec_str ''env'' kvs [];
          (recipe, e3) = dec_field dec_str ''recipe'' kvs []; (state, e4) = dec_field dec_str ''state'' kvs [];
          (test, e5) = dec_field dec_bool ''test'' kvs False; (timeout, e6) = dec_field dec_int ''timeout'' kvs 0;
          (_, e7) = dec_field dec_errs ''errors'' kvs (); (jid, e8) = dec_field dec_str ''jid'' kvs []
      in (\<lparr>cc_Async = async, cc_Env = env, cc_Recipe = recipe, cc_State = state, cc_Test = test,
           cc_Timeout = timeout, cc_JID = jid\<rparr>, e1 \<or> e2 \<or> e3 \<or> e4 \<or> e5 \<or> e6 \<or> e7 \<or> e8))"

definition decode_CmdRun :: "(string \<times> val) list \<Rightarrow> CmdRun \<times> bool" where
  "decode_CmdRun kvs =
     (let (command, e1) = dec_field dec_str ''command'' kvs []; (args, e2) = dec_field dec_strs ''args'' kvs [];
          (path, e3) = dec_field dec_str ''path'' kvs []; (cwd, e4) = dec_field dec_str ''cwd'' kvs [];
          (runas, e5) = dec_field dec_str ''runas'' kvs []; (env, e6) = dec_field dec_strmap ''env'' kvs [];
          (timeout, e7) = dec_field dec_int ''timeout'' kvs 0;
          (topic, e8) = dec_field dec_str ''stream_topic'' kvs [];
          (_, e9) = dec_field dec_str ''stdout'' kvs []; (_, e10) = dec_field dec_str ''stderr'' kvs [];
          (_, e11) = dec_field dec_int ''duration'' kvs 0; (_, e12) = dec_field dec_int ''errcode'' kvs 0;
          (_, e13) = dec_field dec_err ''error'' kvs ()
      in (\<lparr>cr_Command = command, cr_Args = args, cr_Path = path, cr_CWD = cwd, cr_RunAs = runas, cr_Env = env,
           cr_Timeout = timeout, cr_StreamTopic = topic\<rparr>,
          e1 \<or> e2 \<or> e3 \<or> e4 \<or> e5 \<or> e6 \<or> e7 \<or> e8 \<or> e9 \<or> e10 \<or> e11 \<or> e12 \<or> e13))"

text \<open>
  \<open>handleCook\<close> up to its reply: the request is left waiting for its trigger.  The
  target IDs come from the \<open>id\<close> field of each target.
\<close>

definition handleCook :: "world \<Rightarrow> ('m api_state_scheme, api_result) handler" where
  "handleCook w fm tid params =
     (let (ids, err) = target_ids ''id'' params in
      if err then (fm, Inl BadParams)
      else let (kvs, e1) = action_fields params; (command, e2) = decode_CmdCook kvs in
      if e1 \<or> e2 then (fm, Inl BadParams)
      else case validate_targets fm tid ids of
             Some e \<Rightarrow> (fm, Inl e)
           | None \<Rightarrow>
               if \<not> natsConnFor fm tid then (fm, Inl NoConnection)
               else let token = token_of params;
                        invoker = (if token = [] then [] else
                           (case WhoAmI (w_lib w) (fm_auth fm) (w_now w) token of Inl _ \<Rightarrow> [] | Inr (pk, _) \<Rightarrow> pk));
                        jid = w_jobID w
                    in if \<not> w_publish w (''grlx.farmer.cook.trigger.'' @ jid) then (fm, Inl PublishFailed)
                       else (fm\<lparr>fm_cooks := fm_cooks fm @ [\<lparr>ck_tenant = tid, ck_targets = ids, ck_command = command,
                                ck_invoker = invoker, ck_jid = jid\<rparr>]\<rparr>,
                             Inr (RCook (command\<lparr>cc_JID := jid\<rparr>))))"

text \<open>The calls of \<open>SendCookEvent\<close> the trigger starts: one per target, with the request's options.\<close>

definition cook_sends :: "cook_request \<Rightarrow> (string \<times> string \<times> string \<times> string \<times> bool \<times> string \<times> string option) list" where
  "cook_sends req = map (\<lambda>sid. (ck_tenant req, sid, cc_Recipe (ck_command req), ck_jid req,
      cc_Test (ck_command req), ck_invoker req,
      if cc_State (ck_command req) \<noteq> [] then Some (cc_State (ck_command req)) else None)) (ck_targets req)"

definition handleCmdRun :: "world \<Rightarrow> ('m api_state_scheme, api_result) handler" where
  "handleCmdRun w fm tid params =
     (let (ids, err) = target_ids ''id'' params in
      if err then (fm, Inl BadParams)
      else let (kvs, e1) = action_fields params; (command, e2) = decode_CmdRun kvs in
      if e1 \<or> e2 then (fm, Inl BadParams)
      else case validate_targets fm tid ids of
             Some e \<Rightarrow> (fm, Inl e)
           | None \<Rightarrow> (add_sent (map (\<lambda>sid. CallFRun tid sid command) ids) fm, Inr (RTargets ids)))"

definition handleTestPing :: "world \<Rightarrow> ('m api_state_scheme, api_result) handler" where
  "handleTestPing w fm tid params =
     (let (ids, err) = target_ids ''id'' params in
      if err then (fm, Inl BadParams)
      else case validate_targets fm tid ids of
             Some e \<Rightarrow> (fm, Inl e)
           | None \<Rightarrow> (add_sent (map (CallFPing tid) ids) fm, Inr (RTargets ids)))"

section \<open>Shell sessions\<close>

definition resolveCallerIdentity :: "world \<Rightarrow> 'm farmer_scheme \<Rightarrow> raw \<Rightarrow> string \<times> string" where
  "resolveCallerIdentity w fm params =
     (if \<not> raw_len_pos params then ([], [])
      else let (token, err) = raw_str params ''token'' in
           if err \<or> token = [] then ([], [])
           else case WhoAmI (w_lib w) (fm_auth fm) (w_now w) token of
                  Inl _ \<Rightarrow> ([], []) | Inr (pk, role, _) \<Rightarrow> (pk, role))"

definition Tracker_Add :: "(string \<times> SessionInfo) list \<Rightarrow> string \<Rightarrow> SessionInfo \<Rightarrow> (string \<times> SessionInfo) list" where
  "Tracker_Add t sessionID info = AList.update sessionID info t"

definition Tracker_Remove ::
  "(string \<times> SessionInfo) list \<Rightarrow> string \<Rightarrow> (string \<times> SessionInfo) list \<times> SessionInfo option" where
  "Tracker_Remove t sessionID =
     (case map_of t sessionID of None \<Rightarrow> (t, None) | Some info \<Rightarrow> (AList.delete sessionID t, Some info))"

text \<open>
  \<open>handleShellStart\<close>: the request is forwarded to the sprout, whose answer names the subjects of the session.
\<close>

definition handleShellStart :: "world \<Rightarrow> ('m api_state_scheme, api_result) handler" where
  "handleShellStart w fm tid params =
     (let (kvs, e0) = raw_fields params;
          (sid, e1) = dec_field dec_str ''sprout_id'' kvs []; (cols, e2) = dec_field dec_int ''cols'' kvs 0;
          (rows, e3) = dec_field dec_int ''rows'' kvs 0; (shell, e4) = dec_field dec_str ''shell'' kvs [];
          (idle, e5) = dec_field dec_int ''idle_timeout_sec'' kvs 0
      in if e0 \<or> e1 \<or> e2 \<or> e3 \<or> e4 \<or> e5 then (fm, Inl BadParams)
         else if sid = [] then (fm, Inl (MissingField ''sprout_id''))
         else case validate_targets fm tid [sid] of
                Some e \<Rightarrow> (fm, Inl e)
              | None \<Rightarrow>
                  if \<not> natsConnFor fm tid then (fm, Inl NoConnection)
                  else let (pubkey, roleName) = resolveCallerIdentity w fm params;
                           fm1 = add_sent [SentShell tid sid (w_sessionID w)] fm
                  in case w_answer w (SproutSubject sid ''shell.start'') of
                       None \<Rightarrow> (fm1, Inl (StoreFailed ''sprout did not respond''))
                     | Some reply \<Rightarrow>
                         (let (emsg, eerr) = raw_str reply ''error'';
                              (fs, rerr) = raw_strs reply [''session_id'', ''input_subject'', ''output_subject'',
                                 ''resize_subject'', ''done_subject'']
                          in if \<not> eerr \<and> emsg \<noteq> [] then (fm1, Inl (StoreFailed ''sprout error''))
                             else if rerr then (fm1, Inl BadParams)
                             else (fm1\<lparr>fm_sessions := Tracker_Add (fm_sessions fm) (w_sessionID w)
                                     \<lparr>si_SproutID = sid, si_Pubkey = pubkey, si_RoleName = roleName, si_Shell = shell,
                                      si_StartedAt = w_now w, si_DoneSubject = fs ! 4\<rparr>\<rparr>,
                                   Inr (RShell fs))))"

text \<open>What the done subscription of a session does: the entry leaves the tracker once.\<close>

definition session_done :: "string \<Rightarrow> 'm api_state_scheme \<Rightarrow> 'm api_state_scheme \<times> SessionInfo option" where
  "session_done sessionID fm =
     (let (t', info) = Tracker_Remove (fm_sessions fm) sessionID in (fm\<lparr>fm_sessions := t'\<rparr>, info))"

section \<open>Health and box keys\<close>

definition handleHealth :: "world \<Rightarrow> ('m api_state_scheme, api_result) handler" where
  "handleHealth w fm tid params =
     (let natsReady = natsConnFor fm tid \<and> w_connected w tid in
      (fm, Inr (RHealth (if natsReady then ''ok'' else ''degraded'') natsReady)))"

text \<open>\<open>handleBoxKeySubmit\<close>: the sprout ID is the third token of the subject.\<close>

definition handleBoxKeySubmit :: "int \<Rightarrow> int \<Rightarrow> box_db \<Rightarrow> string \<Rightarrow> string \<Rightarrow> raw \<Rightarrow> box_db" where
  "handleBoxKeySubmit now grace db tid subject data =
     (let parts = Split (CHR ''.'') subject in
      if length parts < 4 then db
      else let sproutID = parts ! 2; (pub, err) = raw_str data ''pub'' in
           if err then db
           else if pub = [] then db
           else fst (RotateSproutBoxKey db now tid sproutID pub grace))"

section \<open>Version and audit log\<close>

definition handleVersion :: "world \<Rightarrow> ('m api_state_scheme, api_result) handler" where
  "handleVersion w fm tid params = (fm, Inr (RVersion (w_version w)))"

definition errAuditNotConfigured :: api_error where
  "errAuditNotConfigured = StoreFailed ''audit logging not configured''"

definition handleAuditList :: "world \<Rightarrow> ('m api_state_scheme, api_result) handler" where
  "handleAuditList w fm tid params =
     (fm, case w_audit w of
        None \<Rightarrow> Inl errAuditNotConfigured
      | Some (fs, dir) \<Rightarrow> (case ListDates fs dir of None \<Rightarrow> Inl (StoreFailed ''audit: glob'') | Some ds \<Rightarrow> Inr (RAuditDates ds)))"

text \<open>The decoder's error is ignored.\<close>

definition decode_QueryParams :: "raw \<Rightarrow> QueryParams" where
  "decode_QueryParams params =
     (let kvs = fst (raw_fields params) in
      \<lparr>qp_Date = fst (dec_field dec_str ''date'' kvs []), qp_Action = fst (dec_field dec_str ''action'' kvs []),
       qp_Pubkey = fst (dec_field dec_str ''pubkey'' kvs []), qp_Username = fst (dec_field dec_str ''username'' kvs []),
       qp_Limit = fst (dec_field dec_int ''limit'' kvs 0), qp_FailedOnly = fst (dec_field dec_bool ''failed_only'' kvs False)\<rparr>)"

definition handleAuditQuery :: "world \<Rightarrow> ('m api_state_scheme, api_result) handler" where
  "handleAuditQuery w fm tid params =
     (fm, case w_audit w of
        None \<Rightarrow> Inl errAuditNotConfigured
      | Some (fs, dir) \<Rightarrow> (case Query fs dir (w_today w) (decode_QueryParams params) of
          None \<Rightarrow> Inl (StoreFailed ''audit: open'') | Some r \<Rightarrow> Inr (RAudit r)))"

section \<open>Registration\<close>

text \<open>Every method of the source's table, in its order.\<close>

definition routes :: "world \<Rightarrow> (string \<times> ('m api_state_scheme, api_result) handler) list" where
  "routes w =
     [(MethodHealth, handleHealth w), (MethodVersion, handleVersion w),
      (MethodPKIList, handlePKIList w), (MethodPKIAccept, handlePKIAccept w),
      (MethodPKIReject, handlePKIReject w), (MethodPKIDeny, handlePKIDeny w),
      (MethodPKIUnaccept, handlePKIUnaccept w), (MethodPKIDelete, handlePKIDelete w),
      (MethodPKIRotateBoxKey, handlePKIRotateBoxKey w),
      (MethodSproutsList, handleSproutsList w), (MethodSproutsGet, handleSproutsGet w),
      (MethodTestPing, handleTestPing w), (MethodCmdRun, handleCmdRun w), (MethodCook, handleCook w),
      (MethodJobsList, handleJobsList w), (MethodJobsGet, handleJobsGet w),
      (MethodJobsDelete, handleJobsDelete w), (MethodJobsCancel, handleJobsCancel w),
      (MethodJobsForSprout, handleJobsListForSprout w),
      (MethodPropsGetAll, handlePropsGetAll w), (MethodPropsGet, handlePropsGet w),
      (MethodPropsSet, handlePropsSet w), (MethodPropsDelete, handlePropsDelete w),
      (MethodCohortsList, handleCohortsList w), (MethodCohortsGet, handleCohortsGet w),
      (MethodCohortsResolve, handleCohortsResolve w), (MethodCohortsRefresh, handleCohortsRefresh w),
      (MethodCohortsValidate, handleCohortsValidate w),
      (MethodAuthLogin, handleAuthLogin w), (MethodAuthWhoAmI, handleAuthWhoAmI w),
      (MethodAuthListUsers, handleAuthListUsers w), (MethodAuthAddUser, handleAuthAddUser w),
      (MethodAuthRemoveUser, handleAuthRemoveUser w), (MethodAuthExplain, handleAuthExplain w),
      (MethodShellStart, handleShellStart w),
      (MethodAuditDates, handleAuditList w), (MethodAuditQuery, handleAuditQuery w)]"

text \<open>The handler \<open>Subscribe\<close> registers for a method: wrapped by the middleware.\<close>

definition dispatch ::
  "world \<Rightarrow> string \<Rightarrow> 'm api_state_scheme \<Rightarrow> string \<Rightarrow> raw \<Rightarrow> ('m api_state_scheme \<times> (api_error + api_result)) option" where
  "dispatch w method fm tid params =
     map_option (\<lambda>h. authMiddleware w method h fm tid params) (map_of (routes w) method)"

end
