(* ===== verification/Natsapi_Props.thy ===== *)
theory Natsapi_Props
  imports Natsapi
begin

text \<open>
  What the bus API guarantees: an effect needs a caller whose role has the
  method's action, a tenant's requests touch that tenant's rows only, property
  writes stay within the caller's scope; and where the scope checks do not do
  what the handlers rely on.
\<close>

section \<open>Handlers that change nothing\<close>

lemma read_only_handlers [simp]:
  "fst (handleHealth w fm tid params) = fm"
  "fst (handleVersion w fm tid params) = fm"
  "fst (handleAuditList w fm tid params) = fm"
  "fst (handleAuditQuery w fm tid params) = fm"
  "fst (handlePKIList w fm tid params) = fm"
  "fst (handleSproutsList w fm tid params) = fm"
  "fst (handleSproutsGet w fm tid params) = fm"
  "fst (handleJobsList w fm tid params) = fm"
  "fst (handleJobsGet w fm tid params) = fm"
  "fst (handleJobsListForSprout w fm tid params) = fm"
  "fst (handlePropsGetAll w fm tid params) = fm"
  "fst (handlePropsGet w fm tid params) = fm"
  "fst (handleCohortsList w fm tid params) = fm"
  "fst (handleCohortsGet w fm tid params) = fm"
  "fst (handleCohortsResolve w fm tid params) = fm"
  "fst (handleCohortsValidate w fm tid params) = fm"
  "fst (handleAuthLogin w fm tid params) = fm"
  "fst (handleAuthWhoAmI w fm tid params) = fm"
  "fst (handleAuthExplain w fm tid params) = fm"
  "fst (handleAuthListUsers w fm tid params) = fm"
  by (simp_all add: handleHealth_def handleVersion_def handleAuditList_def handleAuditQuery_def handlePKIList_def handleSproutsList_def handleSproutsGet_def
      handleJobsList_def handleJobsGet_def handleJobsListForSprout_def handlePropsGetAll_def handlePropsGet_def
      handleCohortsList_def handleCohortsGet_def handleCohortsResolve_def handleCohortsValidate_def
      handleAuthLogin_def handleAuthWhoAmI_def handleAuthExplain_def handleAuthListUsers_def Let_def
      split: prod.splits option.splits sum.splits)

section \<open>Effects need the action\<close>

lemma public_routes_read_only:
  assumes "map_of (routes w) method = Some h" "method \<in> set publicMethods"
  shows "fst (h fm tid params) = fm"
proof -
  have "method \<in> {MethodHealth, MethodVersion, MethodAuthLogin, MethodAuthWhoAmI, MethodAuthExplain}"
    using assms(2) by (auto simp: publicMethods_def)
  then show ?thesis
    using assms(1) by (elim insertE emptyE) (auto simp: routes_def method_defs split: if_splits)
qed

lemma TokenHasAction_role:
  "TokenHasAction lib st now tok action \<Longrightarrow> \<not> DangerouslyAllowRoot st \<Longrightarrow>
   \<exists>role. token_role lib st now tok = Some role \<and> HasAction role action"
  by (auto simp: TokenHasAction_def split: option.splits)

text \<open>
  Property C1. A request changes the farmer's state only for a caller who may
  do so: unless root access is configured, the request's token authenticates a
  key whose role has the action of the method, and the method is not public.
  In particular a request without a valid token has no effect.
\<close>

theorem effect_needs_action:
  assumes "dispatch w method fm tid params = Some (fm', res)" "fm' \<noteq> fm"
    and "\<not> DangerouslyAllowRoot (fm_auth fm)"
  shows "method \<notin> set publicMethods \<and>
     (\<exists>role. token_role (w_lib w) (fm_auth fm) (w_now w) (token_of params) = Some role \<and>
        HasAction role (NATSMethodAction method))"
proof -
  obtain h where h: "map_of (routes w) method = Some h"
    and res: "authMiddleware w method h fm tid params = (fm', res)"
    using assms(1) by (auto simp: dispatch_def)
  have public: "method \<notin> set publicMethods"
  proof
    assume p: "method \<in> set publicMethods"
    then have "(fm', res) = h fm tid params" using res by (simp add: authMiddleware_def)
    then show False using public_routes_read_only[OF h p] assms(2) by (metis fst_conv)
  qed
  have "(fm', res) \<noteq> (fm, Inl AccessDenied)" using assms(2) by simp
  from authMiddleware_passes(2)[OF res this public assms(3)] TokenHasAction_role assms(3) public
  show ?thesis by blast
qed

section \<open>Tenant isolation\<close>

fun sent_tenant :: "sent \<Rightarrow> string" where
  "sent_tenant (SentCancel t s j) = t"
| "sent_tenant (SentRotate t s) = t"
| "sent_tenant (CallFRun t s c) = t"
| "sent_tenant (CallFPing t s) = t"
| "sent_tenant (SentShell t s i) = t"

definition tables_ok :: "'m farmer_scheme \<Rightarrow> bool" where
  "tables_ok fm \<longleftrightarrow> tbl_ok (fm_props fm) \<and> nkeys_ok (fm_pki fm)"

text \<open>What one tenant's request leaves alone: every other tenant's keys and properties, and the bus of other tenants.\<close>

definition only_tenant :: "string \<Rightarrow> 'm api_state_scheme \<Rightarrow> 'm api_state_scheme \<Rightarrow> bool" where
  "only_tenant tid fm fm' \<longleftrightarrow> tables_ok fm' \<and>
     (\<forall>u s. u \<noteq> tid \<longrightarrow> nkeys_of (fm_pki fm') (u, s) = nkeys_of (fm_pki fm) (u, s)) \<and>
     (\<forall>u s n. u \<noteq> tid \<longrightarrow> tbl_get (fm_props fm') (u, s, n) = tbl_get (fm_props fm) (u, s, n)) \<and>
     (\<exists>ms. fm_sent fm' = fm_sent fm @ ms \<and> (\<forall>m \<in> set ms. sent_tenant m = tid)) \<and>
     (\<exists>cs. fm_cooks fm' = fm_cooks fm @ cs \<and> (\<forall>c \<in> set cs. ck_tenant c = tid))"

lemma only_tenant_refl [simp]: "tables_ok fm \<Longrightarrow> only_tenant tid fm fm"
  by (auto simp: only_tenant_def)

lemma only_tenant_trans:
  assumes "only_tenant t fm fm1" "only_tenant t' fm1 fm2" "u \<noteq> t" "u \<noteq> t'"
  shows "nkeys_of (fm_pki fm2) (u, s) = nkeys_of (fm_pki fm) (u, s)"
    "tbl_get (fm_props fm2) (u, s, n) = tbl_get (fm_props fm) (u, s, n)"
  using assms by (auto simp: only_tenant_def)

lemma spec_op_other:
  "spec_op operation tid sid m = Some m' \<Longrightarrow> u \<noteq> tid \<Longrightarrow> m' (u, s) = m (u, s)"
  by (cases operation) (auto simp: move_state_def split: if_splits option.splits)

lemma run_op_other:
  assumes "nkeys_ok st"
  shows "nkeys_ok (fst (run_op operation st tid sid))"
    and "u \<noteq> tid \<Longrightarrow> nkeys_of (fst (run_op operation st tid sid)) (u, s) = nkeys_of st (u, s)"
  using run_op_implements[OF assms, where op = operation and tid = tid and sid = sid]
    spec_op_other[where operation = operation and tid = tid and sid = sid and m = "nkeys_of st"]
  by (auto simp: implements_def split: option.splits)

lemma pki_handler_only:
  assumes "tables_ok fm"
  shows "only_tenant tid fm (fst (pki_handler (run_op operation) fm tid params))"
  using assms run_op_other[where st = "fm_pki fm" and operation = operation and tid = tid]
  by (auto simp: pki_handler_def only_tenant_def tables_ok_def Let_def split: prod.splits) (metis fst_conv)+

lemma setProp_get:
  assumes "tbl_ok db"
  shows "tbl_ok (fst (setProp db now tid sid name v)) \<and>
    (k \<noteq> (tid, sid, name) \<longrightarrow> tbl_get (fst (setProp db now tid sid name v)) k = tbl_get db k)"
  using assms setPropWithTTL_ok[OF assms, of sid name now tid v DefaultPropTTL]
  by (cases "sid = [] \<or> name = []") (auto simp: setProp_def tbl_get_put setPropWithTTL_def)

lemma deleteProp_get:
  assumes "tbl_ok db"
  shows "tbl_ok (fst (deleteProp db tid sid name)) \<and>
    (k \<noteq> (tid, sid, name) \<longrightarrow> tbl_get (fst (deleteProp db tid sid name)) k = tbl_get db k)"
  using assms deleteProp_ok[OF assms, of sid name tid]
  by (cases "sid = [] \<or> name = []") (auto simp: tbl_get_del deleteProp_def)

lemma props_set_only:
  assumes "tables_ok fm"
  shows "only_tenant tid fm (fst (handlePropsSet w fm tid params))"
proof -
  have "only_tenant tid fm (fm\<lparr>fm_props := fst (setProp (fm_props fm) (w_now w) tid sid name v)\<rparr>)" for sid name v
    using assms setProp_get[of "fm_props fm"] by (auto simp: only_tenant_def tables_ok_def)
  then show ?thesis using assms by (simp add: handlePropsSet_def Let_def split: prod.splits) (metis fst_conv)
qed

lemma props_delete_only:
  assumes "tables_ok fm"
  shows "only_tenant tid fm (fst (handlePropsDelete w fm tid params))"
proof -
  have "only_tenant tid fm (fm\<lparr>fm_props := fst (deleteProp (fm_props fm) tid sid name)\<rparr>)" for sid name
    using assms deleteProp_get[of "fm_props fm"] by (auto simp: only_tenant_def tables_ok_def)
  then show ?thesis using assms by (simp add: handlePropsDelete_def Let_def split: prod.splits) (metis fst_conv)
qed

lemma run_op_funs:
  "run_op OpAccept = AcceptNKey" "run_op OpReject = (\<lambda>st tid sid. RejectNKey st tid sid [])"
  "run_op OpDeny = DenyNKey" "run_op OpUnaccept = (\<lambda>st tid sid. UnacceptNKey st tid sid [])"
  "run_op OpDelete = DeleteNKey"
  by (intro ext; simp)+

lemma pki_handlers_eq:
  "handlePKIAccept w = pki_handler (run_op OpAccept)" "handlePKIReject w = pki_handler (run_op OpReject)"
  "handlePKIDeny w = pki_handler (run_op OpDeny)" "handlePKIUnaccept w = pki_handler (run_op OpUnaccept)"
  "handlePKIDelete w = pki_handler (run_op OpDelete)"
  by (simp_all add: handlePKIAccept_def handlePKIReject_def handlePKIDeny_def handlePKIUnaccept_def
      handlePKIDelete_def run_op_funs)

lemma add_sent_only:
  "tables_ok fm \<Longrightarrow> \<forall>m \<in> set ms. sent_tenant m = tid \<Longrightarrow> only_tenant tid fm (add_sent ms fm)"
  by (auto simp: only_tenant_def add_sent_def tables_ok_def)

lemma keeps_only:
  "tables_ok fm \<Longrightarrow> only_tenant tid fm (fm\<lparr>fm_auth := au\<rparr>)"
  "tables_ok fm \<Longrightarrow> only_tenant tid fm (fm\<lparr>fm_cohorts := reg\<rparr>)"
  "tables_ok fm \<Longrightarrow> only_tenant tid fm (fm\<lparr>fm_jobs := js\<rparr>)"
  "tables_ok fm \<Longrightarrow> ck_tenant c = tid \<Longrightarrow> only_tenant tid fm (fm\<lparr>fm_cooks := fm_cooks fm @ [c]\<rparr>)"
  by (auto simp: only_tenant_def tables_ok_def)

lemma sending_handlers_only:
  assumes "tables_ok fm"
  shows "only_tenant tid fm (fst (handlePKIRotateBoxKey w fm tid params))"
    "only_tenant tid fm (fst (handleJobsCancel w fm tid params))"
    "only_tenant tid fm (fst (handleCmdRun w fm tid params))"
    "only_tenant tid fm (fst (handleTestPing w fm tid params))"
  using assms add_sent_only[OF assms]
  by (simp_all add: handlePKIRotateBoxKey_def handleJobsCancel_def handleCmdRun_def handleTestPing_def Let_def
      split: prod.splits option.splits sum.splits)

lemma other_handlers_only:
  assumes "tables_ok fm"
  shows "only_tenant tid fm (fst (handleCohortsRefresh w fm tid params))"
    "only_tenant tid fm (fst (handleAuthAddUser w fm tid params))"
    "only_tenant tid fm (fst (handleAuthRemoveUser w fm tid params))"
    "only_tenant tid fm (fst (handleJobsDelete w fm tid params))"
  using assms keeps_only[OF assms]
  by (simp_all add: handleCohortsRefresh_def handleAuthAddUser_def handleAuthRemoveUser_def handleJobsDelete_def
      Let_def split: prod.splits option.splits sum.splits)

lemma handleCook_only:
  assumes "tables_ok fm"
  shows "only_tenant tid fm (fst (handleCook w fm tid params))"
  using assms by (auto simp: handleCook_def Let_def intro!: keeps_only(4) split: prod.split option.split)

lemma shell_only:
  assumes "tables_ok fm"
  shows "only_tenant tid fm (fst (handleShellStart w fm tid params))"
  using assms
  by (auto simp: handleShellStart_def Let_def tables_ok_def only_tenant_def add_sent_def
      split: prod.split option.split if_splits)

lemma routes_only:
  assumes "map_of (routes w) method = Some h" "tables_ok fm"
  shows "only_tenant tid fm (fst (h fm tid params))"
proof -
  have "list_all (\<lambda>(m, h). only_tenant tid fm (fst (h fm tid params))) (routes w)"
    using assms(2)
    by (simp add: routes_def pki_handlers_eq pki_handler_only props_set_only props_delete_only
        sending_handlers_only other_handlers_only handleCook_only shell_only)
  then show ?thesis using assms(1) map_of_SomeD by (fastforce simp: list_all_iff)
qed

lemma dispatch_only:
  assumes "dispatch w method fm tid params = Some (fm', res)" "tables_ok fm"
  shows "only_tenant tid fm fm'"
proof -
  obtain h where h: "map_of (routes w) method = Some h"
    and res: "authMiddleware w method h fm tid params = (fm', res)"
    using assms(1) by (auto simp: dispatch_def)
  have "fm' = fst (h fm tid params) \<or> fm' = fm"
    using res by (auto simp: authMiddleware_def Let_def split: if_splits option.splits)
  then show ?thesis using routes_only[OF h assms(2)] assms(2) by auto
qed

section \<open>A farmer for the examples\<close>

text \<open>Two sprouts of tenant \<open>acme\<close>, one of tenant \<open>beta\<close>, and a caller whose rules name single sprouts.\<close>

definition api_auth_demo :: auth_state where
  "api_auth_demo = auth_demo\<lparr>au_db := policy_demo_db\<lparr>pdb_roles :=
     \<lparr>tbl_rows = [((''acme'', ''ops''),
        [\<lparr>Action = ActionProps, Scope = ''sprout:w1''\<rparr>, \<lparr>Action = ActionCmd, Scope = ''sprout:w1''\<rparr>,
         \<lparr>Action = ActionView, Scope = ''sprout:x9''\<rparr>, \<lparr>Action = ActionJobAdmin, Scope = ''*''\<rparr>])], tbl_up = True\<rparr>\<rparr>\<rparr>"

definition api_pki_demo :: pki_state where
  "api_pki_demo = \<lparr>pki_org = ''acme'',
     pki_nkeys = \<lparr>tbl_rows = [((''acme'', ''w1''), \<lparr>nk_NKey = ''UW1'', nk_State = ''accepted''\<rparr>),
        ((''acme'', ''d1''), \<lparr>nk_NKey = ''UD1'', nk_State = ''accepted''\<rparr>),
        ((''beta'', ''w1''), \<lparr>nk_NKey = ''UB1'', nk_State = ''accepted''\<rparr>)], tbl_up = True\<rparr>,
     pki_tenants = \<lparr>tbl_rows = [], tbl_up = True\<rparr>, pki_reloads = []\<rparr>"

definition fm_demo :: api_state where
  "fm_demo = \<lparr>fm_auth = api_auth_demo, fm_props = props_demo, fm_pki = api_pki_demo, fm_conns = [''acme''],
     fm_cohorts = None, fm_jobs = jobs_demo, fm_cooks = [], fm_sessions = [], fm_sent = []\<rparr>"

definition w_demo :: world where
  "w_demo = \<lparr>w_lib = lib_demo, w_now = 0, w_online = (\<lambda>t s. True), w_connected = (\<lambda>t. True),
     w_publish = (\<lambda>s. True), w_jobID = ''j9'', w_validAccountKey = (\<lambda>k. True),
     w_answer = (\<lambda>s. None), w_sessionID = ''s1'', w_version = \<lparr>ve_Arch = [], ve_Compiler = [], ve_GitCommit = [], ve_Tag = []\<rparr>,
     w_audit = None, w_today = []\<rparr>"

definition set_req :: "string \<Rightarrow> raw" where
  "set_req sid = RawDoc (VMap [(''token'', VStr ''Txx''), (''sprout_id'', VStr sid), (''name'', VStr ''env''),
     (''value'', VStr ''prod'')])"

lemma fm_demo_ok: "tables_ok fm_demo" "\<not> DangerouslyAllowRoot (fm_auth fm_demo)"
  by code_simp+

theorem effect_needs_action_witness:
  "\<exists>role. token_role lib_demo api_auth_demo 0 ''Txx'' = Some role \<and> HasAction role ActionProps"
proof -
  let ?run = "dispatch w_demo MethodPropsSet fm_demo ''acme'' (set_req ''w1'')"
  have "map_option (\<lambda>r. tbl_rows (fm_props (fst r))) ?run =
      Some [((''acme'', ''w1'', ''env''), \<lparr>prop_Value = ''prod'', prop_Static = False, prop_Expiry = 300000000000\<rparr>)]"
    by code_simp
  then obtain fm' res where run: "?run = Some (fm', res)" and rows: "tbl_rows (fm_props fm') \<noteq> []"
    by (cases ?run) auto
  have "tbl_rows (fm_props fm_demo) = []" by code_simp
  then have "fm' \<noteq> fm_demo" using rows by auto
  from effect_needs_action[OF run this fm_demo_ok(2)] show ?thesis
    by (simp add: w_demo_def fm_demo_def set_req_def token_of_def raw_len_pos_def raw_str_fields dec_field_def
        dec_str_def ToLower_def lower_char_def NATSMethodAction_def natsActionMap_def method_defs)
qed

text \<open>A sequence of requests, each on some tenant's connection.\<close>

fun run_requests ::
  "(world \<times> string \<times> string \<times> raw) list \<Rightarrow> 'm api_state_scheme \<Rightarrow> 'm api_state_scheme" where
  "run_requests [] fm = fm"
| "run_requests ((w, method, tid, params) # reqs) fm =
     run_requests reqs (case dispatch w method fm tid params of None \<Rightarrow> fm | Some (fm', res) \<Rightarrow> fm')"

text \<open>
  Property C2. Tenants are isolated: whatever requests other tenants'
  connections carry, with whatever tokens and bodies, a tenant's sprout keys and
  properties stay as they were.
\<close>

theorem tenants_isolated:
  assumes "tables_ok fm" "\<forall>(w, method, tid, params) \<in> set reqs. tid \<noteq> u"
  shows "nkeys_of (fm_pki (run_requests reqs fm)) (u, s) = nkeys_of (fm_pki fm) (u, s) \<and>
     tbl_get (fm_props (run_requests reqs fm)) (u, s, n) = tbl_get (fm_props fm) (u, s, n)"
  using assms
proof (induction reqs fm rule: run_requests.induct)
  case (1 fm)
  then show ?case by simp
next
  case (2 w meth tid params reqs fm)
  let ?fm = "case dispatch w meth fm tid params of None \<Rightarrow> fm | Some (fm', res) \<Rightarrow> fm'"
  have only: "only_tenant tid fm ?fm"
    using dispatch_only "2.prems"(1) by (auto split: option.splits)
  then have "tables_ok ?fm" by (simp add: only_tenant_def)
  with "2.IH" "2.prems" only show ?case by (auto simp: only_tenant_def)
qed

theorem tenants_isolated_witness:
  "nkeys_of (fm_pki (run_requests [(w_demo, MethodPKIDelete, ''acme'',
      RawDoc (VMap [(''token'', VStr ''Txx''), (''id'', VStr ''w1'')]))] fm_demo)) (''beta'', ''w1'') =
   Some \<lparr>nk_NKey = ''UB1'', nk_State = ''accepted''\<rparr>"
proof -
  have "nkeys_of (fm_pki fm_demo) (''beta'', ''w1'') = Some \<lparr>nk_NKey = ''UB1'', nk_State = ''accepted''\<rparr>"
    by code_simp
  then show ?thesis
    using tenants_isolated[OF fm_demo_ok(1), of "[(w_demo, MethodPKIDelete, ''acme'',
      RawDoc (VMap [(''token'', VStr ''Txx''), (''id'', VStr ''w1'')]))]" "''beta''" "''w1''"] by simp
qed

section \<open>Property writes stay in scope\<close>

text \<open>The rule of the caller's role that covers a sprout.\<close>

definition caller_covers :: "world \<Rightarrow> 'm farmer_scheme \<Rightarrow> string \<Rightarrow> string \<Rightarrow> action \<Rightarrow> string \<Rightarrow> bool" where
  "caller_covers w fm tid token action sid =
     (\<exists>role rule. token_role (w_lib w) (fm_auth fm) (w_now w) token = Some role \<and>
        rule \<in> set (role_Rules role) \<and> rule_applies rule action \<and>
        sid \<in> scope_covers (Scope rule)
          (CohortResolver (fm_auth fm) (fm_props fm) (w_now w) (allAcceptedSproutIDs fm tid)))"

lemma checkScopedAccess_covers:
  assumes "checkScopedAccess w fm tid token action sids" "\<not> DangerouslyAllowRoot (fm_auth fm)" "sid \<in> set sids"
  shows "caller_covers w fm tid token action sid"
  using assms
  by (auto simp: checkScopedAccess_def has_scoped_access_def TokenHasScopedAccess_def caller_covers_def
      HasScopedAccessMulti_iff HasScopedAccess_iff split: option.splits)

lemma props_writers:
  assumes "h = handlePropsSet w \<or> h = handlePropsDelete w" "tbl_ok (fm_props fm)"
    and "tbl_get (fm_props (fst (h fm tid params))) (t, s, n) \<noteq> tbl_get (fm_props fm) (t, s, n)"
  shows "t = tid \<and> s = fst (raw_str params ''sprout_id'') \<and> s \<noteq> [] \<and> \<not> snd (raw_str params ''sprout_id'')"
proof -
  let ?fs = "fst (raw_strs params [''sprout_id'', ''name'', ''value''])"
  have f0: "?fs ! 0 = fst (raw_str params ''sprout_id'')" by (simp add: raw_strs_def)
  have e0: "\<not> snd (raw_strs params [''sprout_id'', ''name'', ''value'']) \<Longrightarrow> \<not> snd (raw_str params ''sprout_id'')"
    by (simp add: raw_strs_def)
  show ?thesis
    using assms f0 e0 setProp_get[OF assms(2)] deleteProp_get[OF assms(2)]
    by (auto simp: handlePropsSet_def handlePropsDelete_def Let_def split: prod.splits if_splits) (metis fst_conv)+
qed

lemma props_methods:
  "map_of scopeExtractors MethodPropsSet = Some extractPropsSproutID"
  "map_of scopeExtractors MethodPropsDelete = Some extractPropsSproutID"
  "NATSMethodAction MethodPropsSet = ActionProps" "NATSMethodAction MethodPropsDelete = ActionProps"
  by (simp_all add: scopeExtractors_def method_defs NATSMethodAction_def natsActionMap_def)

text \<open>
  Property C4. A property write stays within the caller's scope: outside root
  access, a row that \<open>props.set\<close> or \<open>props.delete\<close> changes belongs to the
  connection's tenant and to a sprout that some rule of the caller's role for
  the props action covers.
\<close>

theorem props_write_within_scope:
  assumes "dispatch w method fm tid params = Some (fm', res)" "method \<in> {MethodPropsSet, MethodPropsDelete}"
    and "tables_ok fm" "\<not> DangerouslyAllowRoot (fm_auth fm)"
    and "tbl_get (fm_props fm') (t, s, n) \<noteq> tbl_get (fm_props fm) (t, s, n)"
  shows "t = tid \<and> caller_covers w fm tid (token_of params) ActionProps s"
proof -
  obtain h where h: "map_of (routes w) method = Some h"
    and run: "authMiddleware w method h fm tid params = (fm', res)"
    using assms(1) by (auto simp: dispatch_def)
  have hs: "h = handlePropsSet w \<or> h = handlePropsDelete w"
    using h assms(2) by (auto simp: routes_def method_defs)
  have np: "method \<notin> set publicMethods" using assms(2) by (auto simp: publicMethods_def method_defs)
  have ext: "map_of scopeExtractors method = Some extractPropsSproutID"
    "NATSMethodAction method = ActionProps"
    using assms(2) props_methods by auto
  have "(fm', res) \<noteq> (fm, Inl AccessDenied)" using assms(5) by auto
  note pass = authMiddleware_passes[OF run this np assms(4)]
  have "fm' = fst (h fm tid params)" using pass(1) by (metis fst_conv)
  then have row: "t = tid" "s = fst (raw_str params ''sprout_id'')" "s \<noteq> []" "\<not> snd (raw_str params ''sprout_id'')"
    using props_writers[OF hs, of fm tid params t s n] assms(3,5) unfolding tables_ok_def by blast+
  then have "extractPropsSproutID params = Some [s]"
    by (auto simp: extractPropsSproutID_def extract_sprout_id_def split: prod.splits)
  from pass(3)[OF ext(1) this] show ?thesis
    using checkScopedAccess_covers[OF _ assms(4)] row(1) by (simp add: ext(2))
qed

theorem props_write_within_scope_witness:
  "caller_covers w_demo fm_demo ''acme'' (token_of (set_req ''w1'')) ActionProps ''w1'' \<and>
   map_option snd (dispatch w_demo MethodPropsSet fm_demo ''acme'' (set_req ''d1'')) = Some (Inl AccessDenied)"
proof -
  let ?run = "dispatch w_demo MethodPropsSet fm_demo ''acme'' (set_req ''w1'')"
  have "map_option (\<lambda>r. tbl_get (fm_props (fst r)) (''acme'', ''w1'', ''env'') = None) ?run = Some False"
    by code_simp
  then obtain fm' res where run: "?run = Some (fm', res)" "tbl_get (fm_props fm') (''acme'', ''w1'', ''env'') \<noteq> None"
    by (cases ?run) auto
  have "tbl_get (fm_props fm_demo) (''acme'', ''w1'', ''env'') = None" by code_simp
  then have "caller_covers w_demo fm_demo ''acme'' (token_of (set_req ''w1'')) ActionProps ''w1''"
    using props_write_within_scope[OF run(1) _ fm_demo_ok, of "''acme''" "''w1''" "''env''"] run(2) by simp
  moreover have "map_option snd (dispatch w_demo MethodPropsSet fm_demo ''acme'' (set_req ''d1'')) = Some (Inl AccessDenied)"
    by code_simp
  ultimately show ?thesis by auto
qed

section \<open>Where the scope check does not reach\<close>

text \<open>The body a client sends for a targeted action: the targets carry their sprout in the field \<open>id\<close>.\<close>

definition targeted_body :: "string \<Rightarrow> string list \<Rightarrow> val \<Rightarrow> raw" where
  "targeted_body tok sids act = RawDoc (VMap
     [(''target'', VList (map (\<lambda>s. VMap [(''id'', VStr s)]) sids)), (''action'', act), (''token'', VStr tok)])"

lemma dec_elem_body:
  "dec_elem ''id'' (VMap [(''id'', VStr s)]) = (s, False)" "dec_elem ''sprout_id'' (VMap [(''id'', VStr s)]) = ([], False)"
  by (simp_all add: dec_elem_def dec_field_def dec_str_def ToLower_def lower_char_def)

lemma targeted_body_token: "token_of (targeted_body tok sids act) = tok"
  by (simp add: token_of_def targeted_body_def raw_len_pos_def raw_str_fields dec_field_def dec_str_def
      ToLower_def lower_char_def)

lemma targeted_body_targets:
  "target_ids name (targeted_body tok sids act) =
     (map (\<lambda>s. fst (dec_elem name (VMap [(''id'', VStr s)]))) sids,
      list_ex (\<lambda>s. snd (dec_elem name (VMap [(''id'', VStr s)]))) sids)"
  by (simp add: target_ids_def targeted_body_def raw_fields_def struct_fields_def dec_field_def dec_structs_def
      ToLower_def lower_char_def comp_def list_ex_iff)

lemma targeted_body_extract: "extractTargetedSproutIDs (targeted_body tok sids act) = None"
  by (cases sids) (simp_all add: extractTargetedSproutIDs_def targeted_body_targets dec_elem_body)

lemma targeted_methods:
  "map_of scopeExtractors MethodCook = Some extractTargetedSproutIDs"
  "map_of scopeExtractors MethodCmdRun = Some extractTargetedSproutIDs"
  "map_of scopeExtractors MethodTestPing = Some extractTargetedSproutIDs"
  "MethodCook \<notin> set publicMethods" "MethodCmdRun \<notin> set publicMethods" "MethodTestPing \<notin> set publicMethods"
  by (simp_all add: scopeExtractors_def method_defs publicMethods_def)

text \<open>
  Property C40. The scope of a role does not limit targeted actions: for the
  request body a client sends, whose targets carry the field \<open>id\<close> the handlers
  read and not the field \<open>sprout_id\<close> the extractor reads, the middleware runs
  the handler on exactly the named sprouts for every caller whose role has the
  action with any scope at all.
\<close>

theorem targeted_actions_bypass_scope:
  assumes "method \<in> {MethodCook, MethodCmdRun, MethodTestPing}" "map_of (routes w) method = Some h"
    and "tok \<noteq> []" "TokenHasAction (w_lib w) (fm_auth fm) (w_now w) tok (NATSMethodAction method)"
  shows "dispatch w method fm tid (targeted_body tok sids act) = Some (h fm tid (targeted_body tok sids act)) \<and>
     target_ids ''id'' (targeted_body tok sids act) = (sids, False)"
proof -
  have "map_of scopeExtractors method = Some extractTargetedSproutIDs" "method \<notin> set publicMethods"
    using assms(1) targeted_methods by auto
  then have "authMiddleware w method h fm tid (targeted_body tok sids act) = h fm tid (targeted_body tok sids act)"
    using assms(3,4) by (simp add: authMiddleware_def Let_def targeted_body_token targeted_body_extract)
  moreover have "target_ids ''id'' (targeted_body tok sids act) = (sids, False)"
    by (simp add: targeted_body_targets dec_elem_body list_ex_iff)
  ultimately show ?thesis using assms(2) by (simp add: dispatch_def)
qed

definition cmd_demo :: val where "cmd_demo = VMap [(''command'', VStr ''id'')]"

theorem targeted_actions_bypass_scope_witness:
  "\<not> has_scoped_access w_demo fm_demo ''acme'' ''Txx'' ActionCmd [''d1''] \<and>
   map_option (\<lambda>r. map sent_tenant (fm_sent (fst r))) (dispatch w_demo MethodCmdRun fm_demo ''acme''
     (targeted_body ''Txx'' [''d1''] cmd_demo)) = Some [''acme'']"
proof -
  have "map_of (routes w_demo) MethodCmdRun = Some (handleCmdRun w_demo :: (api_state, api_result) handler)" by (simp add: routes_def method_defs)
  moreover have "TokenHasAction (w_lib w_demo) (fm_auth fm_demo) (w_now w_demo) ''Txx'' (NATSMethodAction MethodCmdRun)"
    by code_simp
  ultimately have "dispatch w_demo MethodCmdRun fm_demo ''acme'' (targeted_body ''Txx'' [''d1''] cmd_demo) =
      Some (handleCmdRun w_demo fm_demo ''acme'' (targeted_body ''Txx'' [''d1''] cmd_demo))"
    using targeted_actions_bypass_scope[of MethodCmdRun w_demo "handleCmdRun w_demo" "''Txx''" fm_demo "''acme''"
        "[''d1'']" cmd_demo] by simp
  moreover have "map sent_tenant (fm_sent (fst (handleCmdRun w_demo fm_demo ''acme''
      (targeted_body ''Txx'' [''d1''] cmd_demo)))) = [''acme'']" by code_simp
  moreover have "\<not> has_scoped_access w_demo fm_demo ''acme'' ''Txx'' ActionCmd [''d1'']" by code_simp
  ultimately show ?thesis by simp
qed

text \<open>
  The sprout listing shows a caller with a role exactly the
  sprouts the role may view, except when it may view none of them: then the scope
  filter returns nil and the listing shows every sprout of the tenant.
\<close>

theorem sprouts_list_shows:
  assumes "\<not> DangerouslyAllowRoot (fm_auth fm)" "token_of params \<noteq> []"
    and "token_role (w_lib w) (fm_auth fm) (w_now w) (token_of params) = Some role"
  shows "\<exists>shown. handleSproutsList w fm tid params = (fm, Inr (RSprouts shown)) \<and>
     map spr_ID shown =
       (let all = map fst (sprout_entries fm tid);
            permitted = filter (\<lambda>s. HasScopedAccess role ActionView s
              (CohortResolver (fm_auth fm) (fm_props fm) (w_now w) (allAcceptedSproutIDs fm tid))) all
        in if permitted = [] then all else permitted)"
proof -
  let ?res = "CohortResolver (fm_auth fm) (fm_props fm) (w_now w) (allAcceptedSproutIDs fm tid)"
  let ?sprouts = "map (sprout_info w fm tid) (sprout_entries fm tid)"
  let ?ok = "\<lambda>s. HasScopedAccess role ActionView s ?res"
  have ids: "map spr_ID ?sprouts = map fst (sprout_entries fm tid)" by (simp add: sprout_info_def)
  have allowed: "filterSproutsByScope w fm tid (token_of params) ActionView (map spr_ID ?sprouts) =
      (let permitted = filter ?ok (map spr_ID ?sprouts) in if permitted = [] then None else Some permitted)"
    using assms(1,3) by (simp only: filterSproutsByScope_def TokenScopeFilter_def ScopeFilter_eq) simp
  have keep: "map spr_ID (filter (\<lambda>x. spr_ID x \<in> set (filter ?ok (map spr_ID ?sprouts))) ?sprouts) =
      filter ?ok (map spr_ID ?sprouts)"
    by (simp add: filter_map comp_def) (rule arg_cong[where f = "map _"], rule filter_cong, auto)
  let ?shown = "keep_allowed (filterSproutsByScope w fm tid (token_of params) ActionView (map spr_ID ?sprouts))
      (\<lambda>s. False) spr_ID ?sprouts"
  have "handleSproutsList w fm tid params = (fm, Inr (RSprouts ?shown))"
    using assms(1,2) by (simp add: handleSproutsList_def Let_def)
  moreover have "map spr_ID ?shown = (let permitted = filter ?ok (map spr_ID ?sprouts)
      in if permitted = [] then map spr_ID ?sprouts else permitted)"
    using keep unfolding allowed keep_allowed_def Let_def by (cases "filter ?ok (map spr_ID ?sprouts) = []") simp_all
  ultimately show ?thesis unfolding ids Let_def by blast
qed

theorem sprouts_list_shows_witness:
  "\<exists>shown. handleSproutsList w_demo fm_demo ''acme'' (RawDoc (VMap [(''token'', VStr ''Txx'')])) =
     (fm_demo, Inr (RSprouts shown)) \<and> map spr_ID shown = [''w1'', ''d1'']"
proof -
  let ?p = "RawDoc (VMap [(''token'', VStr ''Txx'')])"
  let ?res = "CohortResolver (fm_auth fm_demo) (fm_props fm_demo) (w_now w_demo) (allAcceptedSproutIDs fm_demo ''acme'')"
  have tok: "token_of ?p \<noteq> []" by code_simp
  have "token_role (w_lib w_demo) (fm_auth fm_demo) (w_now w_demo) (token_of ?p) \<noteq> None" by code_simp
  then obtain role where role: "token_role (w_lib w_demo) (fm_auth fm_demo) (w_now w_demo) (token_of ?p) = Some role" by auto
  have all: "map fst (sprout_entries fm_demo ''acme'') = [''w1'', ''d1'']" by code_simp
  have "(case token_role (w_lib w_demo) (fm_auth fm_demo) (w_now w_demo) (token_of ?p) of None \<Rightarrow> False
      | Some role \<Rightarrow> filter (\<lambda>s. HasScopedAccess role ActionView s ?res) [''w1'', ''d1''] = [])" by code_simp
  then have "filter (\<lambda>s. HasScopedAccess role ActionView s ?res) [''w1'', ''d1''] = []" using role by simp
  then show ?thesis
    using sprouts_list_shows[OF fm_demo_ok(2) tok role, of "''acme''"] unfolding all Let_def by simp
qed

text \<open>
  A job that has started cannot be cancelled: from its first
  event on, as long as no step has failed, a caller with access gets the answer
  that the job's status is partial, and no cancel message is published.
\<close>

theorem started_job_not_cancellable:
  assumes "subject_token s" "subject_token (env_JobID envelope)" "jb_obj st = Some obj" "tbl_ok obj"
    and "job_absent obj (s, env_JobID envelope)" "events_ok evs"
    and "env_Steps envelope \<noteq> []" "evs \<noteq> []" "\<forall>ev \<in> set evs. sc_Status (ev_step ev) = StepCompleted"
    and "fm_jobs fm = record_job tid st s clock envelope evs"
    and "runs_of (the (jb_obj (fm_jobs fm))) (env_JobID envelope) = [(s, env_JobID envelope)]"
    and "raw_str params ''jid'' = (env_JobID envelope, False)"
    and "\<forall>summary. js_SproutID summary = s \<longrightarrow> job_scope_ok w fm tid params summary"
  shows "handleJobsCancel w fm tid params = (fm, Inl (NotCancellable ''partial''))"
proof -
  let ?j = "env_JobID envelope"
  let ?sum = "(buildSummary ?j s (placeholders clock (env_Steps envelope) @ map ev_step (sort_key fst evs)))
      \<lparr>js_InvokedBy := env_InvokedBy envelope\<rparr>"
  obtain obj' where obj': "jb_obj (fm_jobs fm) = Some obj'" "recorded obj' s ?j clock envelope evs"
    using record_job_recorded[OF assms(1-6)] unfolding assms(10) by blast
  have v: "validKeySegment s" "validKeySegment ?j" using assms(1,2) subject_tokenD by blast+
  have ok: "tbl_ok obj'" using obj'(2) by (simp add: recorded_def)
  have runs: "runs_of obj' ?j = [(s, ?j)]" using assms(11) obj'(1) by simp
  then have "hasLog (job_objects obj' (s, ?j))" using runs_of_mem[OF tbl_okD(1)[OF ok], of s ?j ?j] by simp
  then have "loadJob obj' (s, ?j) (job_objects obj' (s, ?j)) = Inr ?sum"
    using recorded_load[OF obj'(2) v assms(6)] GetJob_eq[OF tbl_okD(1)[OF ok] v] by simp
  from FindJob_first[OF ok v(2) runs this] have find: "FindJob (jb_obj (fm_jobs fm)) ?j = Inr ?sum"
    by (simp add: obj'(1))
  have "js_Status ?sum = JobPartial" "js_SproutID ?sum = s"
    using placeholders_keep_partial[OF assms(7-9)] by (simp_all add: buildSummary_def split: prod.splits)
  moreover have "?j \<noteq> []" using v(2) by (auto simp: validKeySegment_def)
  ultimately show ?thesis
    using find assms(12,13) by (simp add: handleJobsCancel_def)
qed

definition start_demo :: "job_ev list" where
  "start_demo = [(unix_epoch + 10, ''aa'', completion_demo ''start-j1'' StepCompleted)]"

definition fm_started :: api_state where
  "fm_started = fm_demo\<lparr>fm_jobs := record_job ''acme'' jobs_demo ''w1'' (\<lambda>_. 5) envelope_demo start_demo\<rparr>"

definition cancel_req :: raw where
  "cancel_req = RawDoc (VMap [(''token'', VStr ''Txx''), (''jid'', VStr ''j1'')])"

lemma job_admin_demo: "HasScopedAccess \<lparr>role_Name = n, role_Rules = [r1, r2, r3,
    \<lparr>Action = ActionJobAdmin, Scope = ''*''\<rparr>], role_TenantID = t\<rparr> ActionJobAdmin s res"
  by (simp add: HasScopedAccess_iff rule_applies_def scope_covers_def)

lemma cancel_scope_demo: "job_scope_ok w_demo fm_started ''acme'' cancel_req summary"
proof -
  have "token_role (w_lib w_demo) (fm_auth fm_started) (w_now w_demo) (token_of cancel_req) =
      Some \<lparr>role_Name = ''ops'', role_Rules = [\<lparr>Action = ActionProps, Scope = ''sprout:w1''\<rparr>,
        \<lparr>Action = ActionCmd, Scope = ''sprout:w1''\<rparr>, \<lparr>Action = ActionView, Scope = ''sprout:x9''\<rparr>,
        \<lparr>Action = ActionJobAdmin, Scope = ''*''\<rparr>], role_TenantID = ''acme''\<rparr>" by code_simp
  then show ?thesis
    by (simp add: job_scope_ok_def checkScopedAccess_def has_scoped_access_def TokenHasScopedAccess_def
        job_admin_demo Let_def)
qed

theorem started_job_not_cancellable_witness:
  "handleJobsCancel w_demo fm_started ''acme'' cancel_req = (fm_started, Inl (NotCancellable ''partial''))"
proof (rule started_job_not_cancellable[OF job_demo_ok(1-5)])
  show "events_ok start_demo" by (simp add: events_ok_def start_demo_def)
  show "env_Steps envelope_demo \<noteq> []" by (simp add: envelope_demo_def)
  show "start_demo \<noteq> []" by (simp add: start_demo_def)
  show "\<forall>ev \<in> set start_demo. sc_Status (ev_step ev) = StepCompleted"
    by (simp add: start_demo_def ev_step_def completion_demo_def)
  show "fm_jobs fm_started = record_job ''acme'' jobs_demo ''w1'' (\<lambda>_. 5) envelope_demo start_demo"
    by (simp add: fm_started_def)
  show "runs_of (the (jb_obj (fm_jobs fm_started))) (env_JobID envelope_demo) = [(''w1'', env_JobID envelope_demo)]"
    by code_simp
  show "raw_str cancel_req ''jid'' = (env_JobID envelope_demo, False)" by code_simp
  show "\<forall>summary. js_SproutID summary = ''w1'' \<longrightarrow> job_scope_ok w_demo fm_started ''acme'' cancel_req summary"
    using cancel_scope_demo by blast
qed

end
