(* ===== verification/Heartbeat.thy ===== *)
theory Heartbeat
  imports Pki Go_Json
begin

text \<open>
  Sprout liveness (\<open>internal/heartbeat\<close>): the listener for the bus's CONNECT and
  DISCONNECT events, which keeps one Valkey key per connected sprout, and the
  read the sprout listings use.  The Valkey server is a parameter: its three
  commands, with the laws of \<open>EXISTS\<close>, \<open>SET ... EX\<close> and \<open>DEL\<close> as the named
  hypothesis \<open>valkey_laws\<close>.  Times are nanoseconds.
\<close>

record 's valkey =
  vk_exists :: "'s \<Rightarrow> int \<Rightarrow> string \<Rightarrow> int option"
  vk_set_ex :: "'s \<Rightarrow> int \<Rightarrow> string \<Rightarrow> int \<Rightarrow> 's"
  vk_del :: "'s \<Rightarrow> int \<Rightarrow> string \<Rightarrow> 's"

definition TTL :: int where "TTL = 5 * 60 * 1000000000"

definition keyPrefix :: string where "keyPrefix = ''grlx:heartbeat:''"

definition keyFor :: "string \<Rightarrow> string \<Rightarrow> string" where
  "keyFor tenant sproutID = keyPrefix @ tenant @ '':'' @ sproutID"

text \<open>A client that was never set is \<^term>\<open>None\<close>; a command that fails answers \<^term>\<open>None\<close>.\<close>

definition IsOnline :: "'s valkey option \<Rightarrow> 's \<Rightarrow> int \<Rightarrow> string \<Rightarrow> string \<Rightarrow> bool" where
  "IsOnline client s now tid sproutID =
     (case client of None \<Rightarrow> False
      | Some c \<Rightarrow> (case vk_exists c s now (keyFor tid sproutID) of None \<Rightarrow> False | Some n \<Rightarrow> n > 0))"

text \<open>The two fields of an event the listener reads, from the object in its \<open>client\<close> field.\<close>

definition event_client :: "raw \<Rightarrow> (string \<times> string) \<times> bool" where
  "event_client data =
     (let (kvs, e) = raw_fields data;
          (obj, e1) = dec_field dec_any ''client'' kvs VNull;
          (fields, e2) = struct_fields obj;
          (user, e3) = dec_field dec_str ''user'' fields [];
          (account, e4) = dec_field dec_str ''acc'' fields []
      in ((user, account), e \<or> e1 \<or> e2 \<or> e3 \<or> e4))"

definition sproutIDFromEvent :: "string option \<Rightarrow> pki_state \<Rightarrow> raw \<Rightarrow> (string \<times> string) option" where
  "sproutIDFromEvent legacyPub pki data =
     (let ((user, account), err) = event_client data in
      if err then None
      else case TenantIDForAccountPub legacyPub pki account of
             Inl _ \<Rightarrow> None
           | Inr tenant \<Rightarrow> (case SproutIDForNKey pki tenant user of
                              Inl _ \<Rightarrow> None | Inr sproutID \<Rightarrow> Some (tenant, sproutID)))"

definition handleConnect ::
  "'s valkey option \<Rightarrow> string option \<Rightarrow> pki_state \<Rightarrow> 's \<Rightarrow> int \<Rightarrow> raw \<Rightarrow> 's" where
  "handleConnect client legacyPub pki s now data =
     (case (sproutIDFromEvent legacyPub pki data, client) of
        (Some (tenant, sproutID), Some c) \<Rightarrow> vk_set_ex c s now (keyFor tenant sproutID) TTL
      | _ \<Rightarrow> s)"

definition handleDisconnect ::
  "'s valkey option \<Rightarrow> string option \<Rightarrow> pki_state \<Rightarrow> 's \<Rightarrow> int \<Rightarrow> raw \<Rightarrow> 's" where
  "handleDisconnect client legacyPub pki s now data =
     (case (sproutIDFromEvent legacyPub pki data, client) of
        (Some (tenant, sproutID), Some c) \<Rightarrow> vk_del c s now (keyFor tenant sproutID)
      | _ \<Rightarrow> s)"

text \<open>The two subscriptions of \<open>RegisterListener\<close>, as one dispatch on the subject's last token.\<close>

datatype bus_event = Connect int raw | Disconnect int raw

fun event_time :: "bus_event \<Rightarrow> int" where
  "event_time (Connect t d) = t"
| "event_time (Disconnect t d) = t"

fun on_event :: "'s valkey option \<Rightarrow> string option \<Rightarrow> pki_state \<Rightarrow> 's \<Rightarrow> bus_event \<Rightarrow> 's" where
  "on_event client legacyPub pki s (Connect t d) = handleConnect client legacyPub pki s t d"
| "on_event client legacyPub pki s (Disconnect t d) = handleDisconnect client legacyPub pki s t d"

definition run_events :: "'s valkey option \<Rightarrow> string option \<Rightarrow> pki_state \<Rightarrow> 's \<Rightarrow> bus_event list \<Rightarrow> 's" where
  "run_events client legacyPub pki s evs = foldl (on_event client legacyPub pki) s evs"

section \<open>What the server promises\<close>

definition valkey_laws :: "'s valkey \<Rightarrow> bool" where
  "valkey_laws c \<longleftrightarrow>
     (\<forall>s t k ttl now k'. t \<le> now \<longrightarrow> vk_exists c (vk_set_ex c s t k ttl) now k' =
        (if k' = k then Some (if now < t + ttl then 1 else 0) else vk_exists c s now k')) \<and>
     (\<forall>s t k now k'. t \<le> now \<longrightarrow> vk_exists c (vk_del c s t k) now k' =
        (if k' = k then Some 0 else vk_exists c s now k'))"

lemma valkey_set:
  "valkey_laws c \<Longrightarrow> t \<le> now \<Longrightarrow> vk_exists c (vk_set_ex c s t k ttl) now k' =
     (if k' = k then Some (if now < t + ttl then 1 else 0) else vk_exists c s now k')"
  unfolding valkey_laws_def by blast

lemma valkey_del:
  "valkey_laws c \<Longrightarrow> t \<le> now \<Longrightarrow> vk_exists c (vk_del c s t k) now k' =
     (if k' = k then Some 0 else vk_exists c s now k')"
  unfolding valkey_laws_def by blast

section \<open>Keys of different sprouts differ\<close>

text \<open>A valid tenant ID has no colon, so the key determines tenant and sprout.\<close>

lemma IsValidTenantID_no_colon: "IsValidTenantID t \<Longrightarrow> CHR '':'' \<notin> set t"
  by (auto simp: IsValidTenantID_def list_all_iff is_digit_def is_upper_def is_lower_def)

lemma keyFor_inj:
  assumes "IsValidTenantID t" "IsValidTenantID t'"
  shows "keyFor t s = keyFor t' s' \<longleftrightarrow> t = t' \<and> s = s'"
proof
  assume "keyFor t s = keyFor t' s'"
  then have eq: "t @ CHR '':'' # s = t' @ CHR '':'' # s'" by (simp add: keyFor_def)
  have "takeWhile (\<lambda>c. c \<noteq> CHR '':'') (u @ CHR '':'' # v) = u" if "CHR '':'' \<notin> set u" for u v
    using that by (subst takeWhile_append2) auto
  then have "t = t'" using eq IsValidTenantID_no_colon assms by metis
  then show "t = t' \<and> s = s'" using eq by simp
qed simp

section \<open>Online means: connected within the last five minutes\<close>

text \<open>
  The specification: the most recent event that concerns a sprout decides, and
  a CONNECT counts for the time to live only.
\<close>

fun event_data :: "bus_event \<Rightarrow> raw" where
  "event_data (Connect t d) = d"
| "event_data (Disconnect t d) = d"

definition concerns :: "string option \<Rightarrow> pki_state \<Rightarrow> string \<Rightarrow> string \<Rightarrow> bus_event \<Rightarrow> bool" where
  "concerns legacyPub pki tenant sproutID ev =
     (sproutIDFromEvent legacyPub pki (event_data ev) = Some (tenant, sproutID))"

fun live_after :: "int \<Rightarrow> bus_event \<Rightarrow> bool" where
  "live_after now (Connect t d) = (now < t + TTL)"
| "live_after now (Disconnect t d) = False"

definition live_spec ::
  "string option \<Rightarrow> pki_state \<Rightarrow> int \<Rightarrow> string \<Rightarrow> string \<Rightarrow> bus_event list \<Rightarrow> bool \<Rightarrow> bool" where
  "live_spec legacyPub pki now tenant sproutID evs initial =
     (case filter (concerns legacyPub pki tenant sproutID) evs of
        [] \<Rightarrow> initial | mine \<Rightarrow> live_after now (last mine))"

definition tenants_valid :: "string option \<Rightarrow> pki_state \<Rightarrow> bool" where
  "tenants_valid legacyPub pki \<longleftrightarrow> IsValidTenantID (currentTenantID pki) \<and>
     list_all (\<lambda>(tid, row). IsValidTenantID tid) (tbl_rows (pki_tenants pki))"

lemma TenantIDForAccountPub_valid:
  assumes "tenants_valid lp pki" "TenantIDForAccountPub lp pki pub = Inr t"
  shows "IsValidTenantID t"
proof -
  have "IsValidTenantID tid" if "(tid, row) \<in> set (tbl_find (pki_tenants pki) P)" for tid row P
    using that assms(1) by (auto simp: tbl_find_def tenants_valid_def list_all_iff split: if_splits)
  then show ?thesis
    using assms by (auto simp: TenantIDForAccountPub_def tenants_valid_def split: if_splits list.splits)
       (metis list.set_intros(1))
qed

lemma event_tenant_valid:
  assumes "tenants_valid lp pki" "sproutIDFromEvent lp pki d = Some (t, s)"
  shows "IsValidTenantID t"
  using assms TenantIDForAccountPub_valid[OF assms(1)]
  by (auto simp: sproutIDFromEvent_def Let_def split: prod.splits if_splits sum.splits)

lemma IsOnline_on_event:
  assumes laws: "valkey_laws c" and tv: "tenants_valid lp pki" and t: "IsValidTenantID t"
    and "event_time ev \<le> now"
  shows "IsOnline (Some c) (on_event (Some c) lp pki s ev) now t sid =
     (if concerns lp pki t sid ev then live_after now ev else IsOnline (Some c) s now t sid)"
proof (cases "sproutIDFromEvent lp pki (event_data ev)")
  case None
  then show ?thesis
    by (cases ev) (simp_all add: concerns_def handleConnect_def handleDisconnect_def)
next
  case (Some ts)
  obtain t' s' where ts: "ts = (t', s')" by (cases ts)
  have key: "keyFor t sid = keyFor t' s' \<longleftrightarrow> t = t' \<and> sid = s'"
    using keyFor_inj[OF t] event_tenant_valid[OF tv] Some ts by blast
  show ?thesis
    using Some ts key assms(4)
    by (cases ev)
       (auto simp: concerns_def handleConnect_def handleDisconnect_def IsOnline_def
          valkey_set[OF laws] valkey_del[OF laws])
qed

lemma live_spec_snoc:
  "live_spec lp pki now t sid (evs @ [ev]) initial =
     (if concerns lp pki t sid ev then live_after now ev else live_spec lp pki now t sid evs initial)"
  by (cases "filter (concerns lp pki t sid) evs") (simp_all add: live_spec_def)

lemma IsOnline_run_events:
  assumes laws: "valkey_laws c" and tv: "tenants_valid lp pki" and t: "IsValidTenantID t"
    and "\<forall>ev \<in> set evs. event_time ev \<le> now"
  shows "IsOnline (Some c) (run_events (Some c) lp pki s evs) now t sid =
     live_spec lp pki now t sid evs (IsOnline (Some c) s now t sid)"
  using assms(4)
proof (induction evs rule: rev_induct)
  case Nil
  then show ?case by (simp add: run_events_def live_spec_def)
next
  case (snoc ev evs)
  have "IsOnline (Some c) (run_events (Some c) lp pki s (evs @ [ev])) now t sid =
      (if concerns lp pki t sid ev then live_after now ev
       else IsOnline (Some c) (run_events (Some c) lp pki s evs) now t sid)"
    using IsOnline_on_event[OF laws tv t] snoc.prems by (simp add: run_events_def)
  then show ?case
    using snoc by (simp add: live_spec_snoc)
qed

section \<open>Properties\<close>

text \<open>
  Liveness is exact up to the time to live: after any sequence of
  bus events, a sprout of a valid tenant reads online exactly when the last
  event that concerns it is a CONNECT less than five minutes old (with no such
  event, what the server held before).  Events of other tenants and other
  sprouts, and events that resolve to no accepted sprout, change nothing.
\<close>

theorem liveness_follows_last_event:
  assumes "valkey_laws c" "tenants_valid legacyPub pki" "IsValidTenantID tenant"
    and "\<forall>ev \<in> set evs. event_time ev \<le> now"
  shows "IsOnline (Some c) (run_events (Some c) legacyPub pki s evs) now tenant sproutID =
     live_spec legacyPub pki now tenant sproutID evs (IsOnline (Some c) s now tenant sproutID)"
  using assms by (rule IsOnline_run_events)

text \<open>A Valkey server as a list of keys with their expiry times.\<close>

definition valkey_demo :: "(string \<times> int) list valkey" where
  "valkey_demo = \<lparr>
     vk_exists = (\<lambda>s now k. Some (case map_of s k of None \<Rightarrow> 0 | Some e \<Rightarrow> if now < e then 1 else 0)),
     vk_set_ex = (\<lambda>s t k ttl. AList.update k (t + ttl) s),
     vk_del = (\<lambda>s t k. AList.delete k s)\<rparr>"

lemma valkey_demo_laws: "valkey_laws valkey_demo"
  by (simp add: valkey_laws_def valkey_demo_def update_conv' delete_conv')

definition pki_hb_demo :: pki_state where
  "pki_hb_demo = \<lparr>pki_org = ''acme'',
     pki_nkeys = \<lparr>tbl_rows = [((''acme'', ''w1''), \<lparr>nk_NKey = ''UW1'', nk_State = ''accepted''\<rparr>)], tbl_up = True\<rparr>,
     pki_tenants = \<lparr>tbl_rows = [], tbl_up = True\<rparr>, pki_reloads = []\<rparr>"

definition ev_hb_demo :: raw where
  "ev_hb_demo = RawDoc (VMap [(''client'', VMap [(''user'', VStr ''UW1''), (''acc'', VStr ''AACME'')])])"

lemma pki_hb_demo_valid: "tenants_valid (Some ''AACME'') pki_hb_demo" "IsValidTenantID ''acme''"
  by code_simp+

theorem liveness_follows_last_event_witness:
  "IsOnline (Some valkey_demo)
     (run_events (Some valkey_demo) (Some ''AACME'') pki_hb_demo [] [Disconnect 5 ev_hb_demo, Connect 10 ev_hb_demo])
     20 ''acme'' ''w1'' \<and>
   \<not> IsOnline (Some valkey_demo)
     (run_events (Some valkey_demo) (Some ''AACME'') pki_hb_demo [] [Connect 10 ev_hb_demo, Disconnect 15 ev_hb_demo])
     20 ''acme'' ''w1''"
proof -
  let ?live = "live_spec (Some ''AACME'') pki_hb_demo 20 ''acme'' ''w1''"
  have "?live [Disconnect 5 ev_hb_demo, Connect 10 ev_hb_demo] False"
    "\<not> ?live [Connect 10 ev_hb_demo, Disconnect 15 ev_hb_demo] False" by code_simp+
  moreover have "IsOnline (Some valkey_demo) [] 20 ''acme'' ''w1'' = False" by code_simp
  ultimately show ?thesis
    using liveness_follows_last_event[OF valkey_demo_laws pki_hb_demo_valid, of
        "[Disconnect 5 ev_hb_demo, Connect 10 ev_hb_demo]" 20 "[]" "''w1''"]
      liveness_follows_last_event[OF valkey_demo_laws pki_hb_demo_valid, of
        "[Connect 10 ev_hb_demo, Disconnect 15 ev_hb_demo]" 20 "[]" "''w1''"]
    by simp
qed

text \<open>
  The time to live is not renewed while a connection stays up: a
  sprout whose last event is a CONNECT, with no DISCONNECT after it, reads
  offline from five minutes after that CONNECT on.
\<close>

theorem connected_sprout_reads_offline_after_TTL:
  assumes "valkey_laws c" "tenants_valid legacyPub pki" "IsValidTenantID tenant"
    and "\<forall>ev \<in> set evs. event_time ev \<le> t"
    and "sproutIDFromEvent legacyPub pki data = Some (tenant, sproutID)"
    and "t + TTL \<le> now"
  shows "\<not> IsOnline (Some c) (run_events (Some c) legacyPub pki s (evs @ [Connect t data])) now tenant sproutID"
proof -
  have "t \<le> now" using assms(6) by (simp add: TTL_def)
  then have "\<forall>ev \<in> set (evs @ [Connect t data]). event_time ev \<le> now" using assms(4) by auto
  note run = IsOnline_run_events[OF assms(1,2,3) this]
  show ?thesis
    unfolding run using assms(5,6) by (simp add: live_spec_snoc concerns_def)
qed

theorem connected_sprout_reads_offline_after_TTL_witness:
  "\<not> IsOnline (Some valkey_demo)
     (run_events (Some valkey_demo) (Some ''AACME'') pki_hb_demo [] ([] @ [Connect 10 ev_hb_demo]))
     300000000010 ''acme'' ''w1''"
proof (rule connected_sprout_reads_offline_after_TTL[OF valkey_demo_laws pki_hb_demo_valid])
  show "\<forall>ev \<in> set []. event_time ev \<le> 10" by simp
  show "sproutIDFromEvent (Some ''AACME'') pki_hb_demo ev_hb_demo = Some (''acme'', ''w1'')" by code_simp
  show "10 + TTL \<le> 300000000010" by (simp add: TTL_def)
qed

end
