(* ===== verification/Cook_Dag.thy ===== *)
theory Cook_Dag
  imports Cook_Types
begin

text \<open>
  The step graph of a recipe (\<open>internal/cook/rootball.go\<close>, and \<open>PruneToTarget\<close> of
  \<open>helpers.go\<close>): duplicate and missing identifiers, the depth-first search for a
  dependency cycle, and the selection of one step with everything it depends on.
  A nil dereference is a value of the result.  \<open>findCycle\<close> need not return, so it has
  fuel, which its callers pass on; \<open>dfs\<close> returns on every input.
\<close>

section \<open>Definitions\<close>

type_synonym recipe_map = "(StepID \<times> Step) list"

definition recipeMap :: "Step list \<Rightarrow> recipe_map" where
  "recipeMap steps = rev (map (\<lambda>s. (st_ID s, s)) steps)"

definition reqs_of :: "Step \<Rightarrow> StepID list" where
  "reqs_of s = AllIDs (st_Requisites s)"

datatype cycle_result = NoCycle | Cycle "StepID list" | NilStep

fun findCycle :: "nat \<Rightarrow> recipe_map \<Rightarrow> StepID \<Rightarrow> StepID \<Rightarrow> StepID list \<Rightarrow> cycle_result option"
  and findCycle_loop :: "nat \<Rightarrow> recipe_map \<Rightarrow> StepID \<Rightarrow> StepID list \<Rightarrow> StepID list \<Rightarrow> cycle_result option" where
  "findCycle 0 m topID current chain = None"
| "findCycle (Suc n) m topID current chain =
     (if current = topID then Some (Cycle (chain @ [current]))
      else let current' = (if current = [] then topID else current); chain' = chain @ [current'] in
           case map_of m current' of
             None \<Rightarrow> Some NilStep
           | Some s \<Rightarrow> findCycle_loop n m topID chain' (reqs_of s))"
| "findCycle_loop n m topID chain [] = Some NoCycle"
| "findCycle_loop n m topID chain (w # ws) =
     (if w = topID then Some (Cycle (chain @ [w]))
      else case findCycle n m topID w chain of
             None \<Rightarrow> None
           | Some NoCycle \<Rightarrow> findCycle_loop n m topID chain ws
           | Some r \<Rightarrow> Some r)"

text \<open>
  \<open>dfs\<close> marks a step as visited while its requisites are examined and unmarks it on
  its normal return, so a call sees the marks of its ancestors; the marks are
  passed down.  The validated steps accumulate and are returned.
\<close>

function (sequential) dfs ::
    "nat \<Rightarrow> recipe_map \<Rightarrow> StepID \<Rightarrow> StepID set \<Rightarrow> StepID list \<Rightarrow> cycle_result option \<times> StepID list"
  and dfs_loop ::
    "nat \<Rightarrow> recipe_map \<Rightarrow> StepID list \<Rightarrow> StepID set \<Rightarrow> StepID list \<Rightarrow> cycle_result option \<times> StepID list" where
  "dfs n m current visited validated =
     (if current \<in> visited then (findCycle n m current [] [], validated)
      else case map_of m current of
             None \<Rightarrow> (Some NilStep, validated)
           | Some s \<Rightarrow>
               (case dfs_loop n m (reqs_of s) (insert current visited) validated of
                  (Some NoCycle, validated') \<Rightarrow> (Some NoCycle, current # validated')
                | other \<Rightarrow> other))"
| "dfs_loop n m [] visited validated = (Some NoCycle, validated)"
| "dfs_loop n m (w # ws) visited validated =
     (case dfs n m w visited validated of
        (Some NoCycle, validated') \<Rightarrow> dfs_loop n m ws visited validated'
      | other \<Rightarrow> other)"
  by pat_completeness auto

termination dfs
proof (relation "measures [\<lambda>x. case x of
          Inl (n, m, current, visited, vs) \<Rightarrow> card (fst ` set m - visited)
        | Inr (n, m, ws, visited, vs) \<Rightarrow> card (fst ` set m - visited),
      \<lambda>x. case x of Inl _ \<Rightarrow> 0 | Inr (n, m, ws, visited, vs) \<Rightarrow> Suc (length ws)]", goal_cases)
  case (2 n m current visited validated s)
  then have "current \<in> fst ` set m" by (force dest: map_of_SomeD)
  with 2 have "card (fst ` set m - insert current visited) < card (fst ` set m - visited)"
    by (intro psubset_card_mono) auto
  then show ?case by simp
qed auto

fun hasCycle_loop :: "nat \<Rightarrow> recipe_map \<Rightarrow> Step list \<Rightarrow> StepID list \<Rightarrow> cycle_result option" where
  "hasCycle_loop n m [] validated = Some NoCycle"
| "hasCycle_loop n m (s # ss) validated =
     (if st_ID s \<in> set validated then hasCycle_loop n m ss validated
      else case dfs n m (st_ID s) {} validated of
             (Some NoCycle, validated') \<Rightarrow> hasCycle_loop n m ss validated'
           | (r, validated') \<Rightarrow> r)"

definition HasCycle :: "nat \<Rightarrow> Step list \<Rightarrow> cycle_result option" where
  "HasCycle n steps = hasCycle_loop n (recipeMap steps) steps []"

text \<open>The IDs that were seen before, in order.\<close>

fun duplicates :: "Step list \<Rightarrow> StepID set \<Rightarrow> StepID list" where
  "duplicates [] seen = []"
| "duplicates (s # ss) seen =
     (if st_ID s \<notin> seen then duplicates ss (insert (st_ID s) seen) else st_ID s # duplicates ss seen)"

definition NoDuplicateIDs :: "Step list \<Rightarrow> bool \<times> StepID list" where
  "NoDuplicateIDs steps = (let ds = duplicates steps {} in (length ds = 0, ds))"

definition AllRequisitesDefined :: "Step list \<Rightarrow> bool \<times> StepID list" where
  "AllRequisitesDefined steps =
     (let unresolved = concat (map (\<lambda>s. filter (\<lambda>d. map_of (recipeMap steps) d = None) (reqs_of s)) steps)
      in (length unresolved = 0, unresolved))"

definition FindRoots :: "Step list \<Rightarrow> Step list" where
  "FindRoots steps = filter (\<lambda>s. \<not> st_IsRequisite s) steps"

datatype tree_error = NotUnique StepID | NotDefined StepID | DependencyCycle "StepID list"

datatype tree_result = TreeErrors "tree_error list" | TreeOk "Step list" "Step list" | TreePanic

text \<open>
  The marks the last loop leaves on the steps, reached through the map: every step
  some listed requisite names.
\<close>

definition mark_requisites :: "Step list \<Rightarrow> Step list" where
  "mark_requisites steps =
     (let named = concat (map (reqs_of \<circ> snd) (recipeMap steps)) in
      map (\<lambda>s. if st_ID s \<in> set named then s\<lparr>st_IsRequisite := True\<rparr> else s) steps)"

text \<open>The marked steps and the roots among them.\<close>

definition ValidateTrees :: "nat \<Rightarrow> Step list \<Rightarrow> tree_result option" where
  "ValidateTrees n steps =
     (case NoDuplicateIDs steps of
        (False, dups) \<Rightarrow> Some (TreeErrors (map NotUnique dups))
      | (True, _) \<Rightarrow>
          (case AllRequisitesDefined steps of
             (False, missing) \<Rightarrow> Some (TreeErrors (map NotDefined missing))
           | (True, _) \<Rightarrow>
               (case HasCycle n steps of
                  None \<Rightarrow> None
                | Some NilStep \<Rightarrow> Some TreePanic
                | Some (Cycle chain) \<Rightarrow> Some (TreeErrors [DependencyCycle chain])
                | Some NoCycle \<Rightarrow> (let marked = mark_requisites steps in Some (TreeOk marked (FindRoots marked))))))"

datatype prune_error = ErrTargetStepNotFound StepID | ErrDanglingRequisite StepID

text \<open>
  \<open>visit\<close> of \<open>PruneToTarget\<close>: the calls still to be made, in the order the recursion
  makes them.
\<close>

function (sequential) prune_visit :: "recipe_map \<Rightarrow> StepID list \<Rightarrow> StepID set \<Rightarrow> prune_error + StepID set" where
  "prune_visit m [] keep = Inr keep"
| "prune_visit m (i # ids) keep =
     (if i \<in> keep then prune_visit m ids keep
      else case map_of m i of
             None \<Rightarrow> Inl (ErrDanglingRequisite i)
           | Some s \<Rightarrow> prune_visit m (reqs_of s @ ids) (insert i keep))"
  by pat_completeness auto

termination prune_visit
proof (relation "measures [\<lambda>(m, ids, keep). card (fst ` set m - keep), \<lambda>(m, ids, keep). length ids]", goal_cases)
  case (3 m i ids keep s)
  then have "i \<in> fst ` set m" by (force dest: map_of_SomeD)
  with 3 have "card (fst ` set m - insert i keep) < card (fst ` set m - keep)"
    by (intro psubset_card_mono) auto
  then show ?case by simp
qed auto

definition PruneToTarget :: "Step list \<Rightarrow> StepID \<Rightarrow> prune_error + Step list" where
  "PruneToTarget steps target =
     (let byID = recipeMap steps in
      if map_of byID target = None then Inl (ErrTargetStepNotFound target)
      else case prune_visit byID [target] {} of
             Inl err \<Rightarrow> Inl err
           | Inr keep \<Rightarrow> Inr (filter (\<lambda>s. st_ID s \<in> keep) steps))"

section \<open>The graph\<close>

text \<open>\<open>(x, w)\<close> when the step \<open>x\<close> names \<open>w\<close> as a requisite.\<close>

definition depends :: "recipe_map \<Rightarrow> (StepID \<times> StepID) set" where
  "depends m = {(x, w). \<exists>s. map_of m x = Some s \<and> w \<in> set (reqs_of s)}"

fun walk :: "recipe_map \<Rightarrow> StepID list \<Rightarrow> bool" where
  "walk m (x # y # rest) = ((x, y) \<in> depends m \<and> walk m (y # rest))"
| "walk m _ = True"

definition is_cycle :: "recipe_map \<Rightarrow> StepID list \<Rightarrow> bool" where
  "is_cycle m chain \<longleftrightarrow> (\<exists>x p. chain = x # p @ [x] \<and> walk m chain)"

text \<open>All searches below a step succeed: none of them meets a step of \<open>P\<close> or itself again.\<close>

inductive dfs_ok :: "recipe_map \<Rightarrow> StepID set \<Rightarrow> StepID \<Rightarrow> bool" for m where
  "x \<notin> P \<Longrightarrow> map_of m x = Some s \<Longrightarrow> (\<And>w. w \<in> set (reqs_of s) \<Longrightarrow> dfs_ok m (insert x P) w) \<Longrightarrow> dfs_ok m P x"

inductive_cases dfs_okE: "dfs_ok m P x"

lemma dfs_ok_mono: "dfs_ok m P x \<Longrightarrow> Q \<subseteq> P \<Longrightarrow> dfs_ok m Q x"
proof (induction arbitrary: Q rule: dfs_ok.induct)
  case (1 x P s)
  show ?case
  proof (rule dfs_ok.intros)
    show "map_of m x = Some s" by fact
    show "x \<notin> Q" using 1 by blast
    show "dfs_ok m (insert x Q) w" if "w \<in> set (reqs_of s)" for w
      using "1.IH"[OF that, of "insert x Q"] "1.prems" by blast
  qed
qed

lemma dfs_ok_reach:
  assumes "(x, y) \<in> (depends m)\<^sup>*" "dfs_ok m P x"
  shows "dfs_ok m P y"
  using assms
proof (induction rule: rtrancl_induct)
  case (step y z)
  then have "dfs_ok m P y" by blast
  then obtain s where "map_of m y = Some s" "\<And>w. w \<in> set (reqs_of s) \<Longrightarrow> dfs_ok m (insert y P) w"
    by (auto elim: dfs_okE)
  then have "dfs_ok m (insert y P) z" using step(2) by (auto simp: depends_def)
  then show ?case by (rule dfs_ok_mono) blast
qed

lemma dfs_ok_new: "dfs_ok m P x \<Longrightarrow> x \<notin> P"
  by (auto elim: dfs_okE)

lemma all_ok_acyclic:
  assumes "\<forall>x \<in> fst ` set m. dfs_ok m {} x"
  shows "acyclic (depends m)"
proof (rule acyclicI, intro allI notI)
  fix x
  assume "(x, x) \<in> (depends m)\<^sup>+"
  then obtain w where w: "(x, w) \<in> depends m" "(w, x) \<in> (depends m)\<^sup>*" by (meson tranclD)
  then obtain s where s: "map_of m x = Some s" "w \<in> set (reqs_of s)" by (auto simp: depends_def)
  then have "x \<in> fst ` set m" by (force dest: map_of_SomeD)
  with assms have "dfs_ok m {} x" by blast
  with s have "dfs_ok m {x} w" by (auto elim: dfs_okE)
  then show False using dfs_ok_reach[OF w(2)] dfs_ok_new by blast
qed

lemma walk_trancl: "walk m (x # p @ [y]) \<Longrightarrow> (x, y) \<in> (depends m)\<^sup>+"
  by (induction p arbitrary: x) (auto intro: trancl_into_trancl2)

lemma is_cycle_not_acyclic: "is_cycle m chain \<Longrightarrow> \<not> acyclic (depends m)"
  by (auto simp: is_cycle_def acyclic_def dest: walk_trancl)

section \<open>The cycle that is reported\<close>

lemma findCycle_loop_skip:
  assumes "\<forall>y \<in> set ex. y \<noteq> t \<and> findCycle n m t y chain = Some NoCycle"
  shows "findCycle_loop n m t chain (ex @ ws) = findCycle_loop n m t chain ws"
  using assms by (induction ex) auto

lemma findCycle_ok:
  assumes "dfs_ok m P x" "t \<in> P" "[] \<notin> fst ` set m" "card (fst ` set m - P) < n"
  shows "findCycle n m t x chain = Some NoCycle"
  using assms
proof (induction arbitrary: n chain rule: dfs_ok.induct)
  case (1 x P s)
  have "x \<in> fst ` set m" using map_of_SomeD[OF "1.hyps"(2)] by force
  then have x: "x \<in> fst ` set m" "x \<noteq> t" "x \<noteq> []" using "1.hyps"(1) "1.prems"(1,2) by metis+
  have less: "card (fst ` set m - insert x P) < card (fst ` set m - P)"
    using x(1) "1.hyps"(1) by (intro psubset_card_mono) auto
  obtain n' where n: "n = Suc n'" using "1.prems" by (cases n) auto
  have "y \<noteq> t \<and> findCycle n' m t y (chain @ [x]) = Some NoCycle" if "y \<in> set (reqs_of s)" for y
    using "1.IH"[OF that, of n' "chain @ [x]"] "1.hyps"(3)[OF that] dfs_ok_new "1.prems" less n by fastforce
  then show ?case using findCycle_loop_skip[of "reqs_of s" t n' m "chain @ [x]" "[]"] x n "1.hyps"(2) by simp
qed

text \<open>
  The calls of \<open>dfs\<close> that are open when it reaches a step: each with the step it is
  for and the requisites it has already searched without finding anything.
\<close>

definition next_of :: "(StepID \<times> StepID list) list \<Rightarrow> StepID \<Rightarrow> StepID" where
  "next_of F x = (case F of [] \<Rightarrow> x | (b, _) # _ \<Rightarrow> b)"

fun frames_ok :: "recipe_map \<Rightarrow> StepID set \<Rightarrow> (StepID \<times> StepID list) list \<Rightarrow> StepID \<Rightarrow> bool" where
  "frames_ok m P [] x = True"
| "frames_ok m P ((a, ex) # F) x =
     (a \<notin> P \<and> (\<exists>s rest. map_of m a = Some s \<and> reqs_of s = ex @ next_of F x # rest) \<and>
      (\<forall>y \<in> set ex. dfs_ok m (insert a P) y) \<and> frames_ok m (insert a P) F x)"

lemma frames_ok_snoc:
  "frames_ok m P (F @ [(a, ex)]) x \<longleftrightarrow>
     frames_ok m P F a \<and> a \<notin> P \<union> fst ` set F \<and> (\<exists>s rest. map_of m a = Some s \<and> reqs_of s = ex @ x # rest) \<and>
     (\<forall>y \<in> set ex. dfs_ok m (insert a (P \<union> fst ` set F)) y)"
proof (induction F arbitrary: P)
  case Nil
  then show ?case by (auto simp: next_of_def)
next
  case (Cons f F)
  obtain b ex' where f: "f = (b, ex')" by (cases f)
  have "next_of (F @ [(a, ex)]) x = next_of F a" by (cases F) (auto simp: next_of_def)
  then show ?case by (auto simp: f Cons.IH insert_commute)
qed

lemma frames_ok_suffix: "frames_ok m P (F @ G) x \<Longrightarrow> frames_ok m (P \<union> fst ` set F) G x"
proof (induction F arbitrary: P)
  case (Cons f F)
  obtain a ex where f: "f = (a, ex)" by (cases f)
  then have "frames_ok m (insert a P) (F @ G) x" using Cons.prems by simp
  from Cons.IH[OF this] show ?case by (simp add: f)
qed simp

lemma frames_walk: "frames_ok m P F x \<Longrightarrow> walk m (map fst F @ [x])"
proof (induction F arbitrary: P)
  case (Cons f F)
  obtain a ex where f: "f = (a, ex)" by (cases f)
  have "(a, next_of F x) \<in> depends m" using Cons.prems by (auto simp: f depends_def)
  then show ?case using Cons by (cases F) (auto simp: f next_of_def)
qed simp

lemma findCycle_trail:
  assumes "frames_ok m P F t" "F = (b, ex) # F'" "t \<in> P" "[] \<notin> fst ` set m" "card (fst ` set m - P) < n"
  shows "findCycle n m t b chain = Some (Cycle (chain @ map fst F @ [t]))"
  using assms
proof (induction F arbitrary: P b ex F' n chain)
  case (Cons f F)
  obtain s rest where s: "map_of m b = Some s" "reqs_of s = ex @ next_of F t # rest" and b: "b \<notin> P"
    and ok: "\<forall>y \<in> set ex. dfs_ok m (insert b P) y" "frames_ok m (insert b P) F t"
    using Cons.prems(1,2) by auto
  have "b \<in> fst ` set m" using map_of_SomeD[OF s(1)] by force
  then have bs: "b \<noteq> t" "b \<noteq> []" "card (fst ` set m - insert b P) < card (fst ` set m - P)"
    using b Cons.prems(3,4) by (metis, metis, intro psubset_card_mono) auto
  obtain n' where n: "n = Suc n'" using Cons.prems(5) by (cases n) auto
  have n': "card (fst ` set m - insert b P) < n'" using bs(3) Cons.prems(5) n by linarith
  have "\<forall>y \<in> set ex. y \<noteq> t \<and> findCycle n' m t y (chain @ [b]) = Some NoCycle"
    using ok(1) findCycle_ok[OF _ _ Cons.prems(4) n'] Cons.prems(3) dfs_ok_new by blast
  then have loop: "findCycle n m t b chain = findCycle_loop n' m t (chain @ [b]) (next_of F t # rest)"
    using s bs(1,2) n by (simp add: findCycle_loop_skip)
  show ?case
  proof (cases F)
    case Nil
    then show ?thesis using loop Cons.prems(2) by (simp add: next_of_def)
  next
    case (Cons g G)
    obtain c exc where g: "g = (c, exc)" by (cases g)
    have "findCycle n' m t c (chain @ [b]) = Some (Cycle ((chain @ [b]) @ map fst F @ [t]))"
      using Cons.IH[OF ok(2), of c exc G n'] Cons g n' Cons.prems(3,4) by simp
    moreover have "c \<noteq> t" using ok(2) Cons g Cons.prems(3) by auto
    ultimately show ?thesis using loop Cons g Cons.prems(2) by (auto simp: next_of_def)
  qed
qed simp

lemma findCycle_open:
  assumes frames: "frames_ok m {} F x" and "x \<in> fst ` set F" "[] \<notin> fst ` set m" "card (fst ` set m) < n"
  shows "\<exists>chain. findCycle n m x [] [] = Some (Cycle chain) \<and> is_cycle m chain"
proof -
  obtain F1 ex F2 where F: "F = F1 @ (x, ex) # F2" using assms(2) by (auto dest: split_list)
  define P where "P = insert x (fst ` set F1)"
  have fr: "frames_ok m (fst ` set F1) ((x, ex) # F2) x" using frames_ok_suffix[OF frames[unfolded F]] by simp
  then obtain s rest where s: "map_of m x = Some s" "reqs_of s = ex @ next_of F2 x # rest"
    and ok: "\<forall>y \<in> set ex. dfs_ok m P y" "frames_ok m P F2 x"
    by (auto simp: P_def)
  have x: "x \<in> fst ` set m" using map_of_SomeD[OF s(1)] by force
  then have "card (fst ` set m - P) < card (fst ` set m)" by (intro psubset_card_mono) (auto simp: P_def)
  moreover obtain n' where n: "n = Suc n'" using assms(4) by (cases n) auto
  ultimately have n': "card (fst ` set m - P) < n'" using assms(4) by linarith
  have "\<forall>y \<in> set ex. y \<noteq> x \<and> findCycle n' m x y [x] = Some NoCycle"
    using ok(1) findCycle_ok[OF _ _ assms(3) n', of _ x] dfs_ok_new[of m P] by (fastforce simp: P_def)
  then have loop: "findCycle n m x [] [] = findCycle_loop n' m x [x] (next_of F2 x # rest)"
    using s x assms(3) n by (auto simp: findCycle_loop_skip)
  have "findCycle n m x [] [] = Some (Cycle (x # map fst F2 @ [x]))"
  proof (cases F2)
    case (Cons g G)
    obtain c exc where g: "g = (c, exc)" by (cases g)
    have "findCycle n' m x c [x] = Some (Cycle ([x] @ map fst F2 @ [x]))"
      by (rule findCycle_trail[OF ok(2) _ _ assms(3) n']) (simp_all add: Cons g P_def)
    moreover have "c \<noteq> x" using ok(2) Cons g by (auto simp: P_def)
    ultimately show ?thesis using loop Cons g by (simp add: next_of_def)
  qed (use loop in \<open>simp add: next_of_def\<close>)
  then show ?thesis using frames_walk[OF fr] by (auto simp: is_cycle_def)
qed

definition closed_map :: "recipe_map \<Rightarrow> bool" where
  "closed_map m \<longleftrightarrow> (\<forall>x s. map_of m x = Some s \<longrightarrow> set (reqs_of s) \<subseteq> fst ` set m)"

text \<open>What a call returns: no cycle and everything below searched, or a cycle of the graph.\<close>

definition good :: "recipe_map \<Rightarrow> bool \<Rightarrow> cycle_result option \<times> StepID list \<Rightarrow> StepID list \<Rightarrow> bool" where
  "good m ok res validated \<longleftrightarrow>
     (case fst res of Some NoCycle \<Rightarrow> ok | Some (Cycle chain) \<Rightarrow> is_cycle m chain | _ \<Rightarrow> False) \<and>
     (\<forall>v \<in> set (snd res). v \<in> set validated \<or> dfs_ok m {} v)"

lemma good_stop: "good m ok res validated \<Longrightarrow> fst res \<noteq> Some NoCycle \<Longrightarrow> good m ok' res validated"
  by (auto simp: good_def split: option.splits cycle_result.splits)

lemma dfs_good:
  fixes m :: recipe_map
  assumes m: "closed_map m" "[] \<notin> fst ` set m" "card (fst ` set m) < n"
  shows "visited = fst ` set F \<Longrightarrow> frames_ok m {} F current \<Longrightarrow> current \<in> fst ` set m \<Longrightarrow>
      good m (dfs_ok m visited current) (dfs n m current visited validated) validated"
    and "visited = fst ` set (F @ [(a, ex)]) \<Longrightarrow> frames_ok m {} F a \<Longrightarrow> a \<notin> fst ` set F \<Longrightarrow>
      map_of m a = Some s \<Longrightarrow> reqs_of s = ex @ ws \<Longrightarrow> \<forall>y \<in> set ex. dfs_ok m visited y \<Longrightarrow>
      good m (\<forall>w \<in> set ws. dfs_ok m visited w) (dfs_loop n m ws visited validated) validated"
  using m
proof (induction n m current visited validated and n m ws visited validated
    arbitrary: F and F a ex s rule: dfs_dfs_loop.induct)
  case (1 n m current visited validated)
  show ?case
  proof (cases "current \<in> visited")
    case True
    then show ?thesis using findCycle_open[OF 1(3) _ 1(6,7)] 1(2) by (auto simp: good_def)
  next
    case False
    obtain s where s: "map_of m current = Some s" using 1(4) by (meson map_of_eq_None_iff not_Some_eq)
    have "good m (\<forall>w \<in> set (reqs_of s). dfs_ok m (insert current visited) w)
        (dfs_loop n m (reqs_of s) (insert current visited) validated) validated"
      using 1(1)[OF False s, of F current "[]" s] 1(2-) False s by simp
    moreover have "dfs_ok m visited current" if "\<forall>w \<in> set (reqs_of s). dfs_ok m (insert current visited) w"
      using that s False by (auto intro: dfs_ok.intros)
    moreover have "dfs_ok m visited current \<Longrightarrow> dfs_ok m {} current" by (rule dfs_ok_mono) auto
    ultimately show ?thesis using False s
      by (auto simp: good_def split: prod.splits option.splits cycle_result.splits)
  qed
next
  case (2 n m visited validated)
  then show ?case by (simp add: good_def)
next
  case (3 n m w ws visited validated)
  have frames: "frames_ok m {} (F @ [(a, ex)]) w" using 3(3-8) by (simp add: frames_ok_snoc)
  have "w \<in> fst ` set m" using 3(6,7,9) by (force simp: closed_map_def)
  with 3(1)[OF 3(3) frames] 3(9-) have w: "good m (dfs_ok m visited w) (dfs n m w visited validated) validated" by blast
  show ?case
  proof (cases "fst (dfs n m w visited validated) = Some NoCycle")
    case True
    then obtain validated' where d: "dfs n m w visited validated = (Some NoCycle, validated')"
      by (metis prod.collapse)
    have ok: "dfs_ok m visited w" using w d by (simp add: good_def)
    have "good m (\<forall>w \<in> set ws. dfs_ok m visited w) (dfs_loop n m ws visited validated') validated'"
      using 3(2)[OF d[symmetric], of NoCycle F a "ex @ [w]" s] 3(3-) ok by auto
    then show ?thesis using w d ok by (auto simp: good_def split: option.splits cycle_result.splits)
  next
    case False
    then have "dfs_loop n m (w # ws) visited validated = dfs n m w visited validated"
      by (cases "dfs n m w visited validated" rule: prod.exhaust) (auto split: option.splits cycle_result.splits)
    then show ?thesis using w good_stop[OF w False] by simp
  qed
qed

lemma hasCycle_loop_good:
  assumes m: "closed_map m" "[] \<notin> fst ` set m" "card (fst ` set m) < n"
    and "\<forall>s \<in> set ss. st_ID s \<in> fst ` set m" "\<forall>v \<in> set validated. dfs_ok m {} v"
  shows "(hasCycle_loop n m ss validated = Some NoCycle \<and> (\<forall>s \<in> set ss. dfs_ok m {} (st_ID s))) \<or>
    (\<exists>chain. hasCycle_loop n m ss validated = Some (Cycle chain) \<and> is_cycle m chain)"
  using assms(4,5)
proof (induction ss arbitrary: validated)
  case (Cons s ss)
  show ?case
  proof (cases "st_ID s \<in> set validated")
    case True
    then show ?thesis using Cons.IH[of validated] Cons.prems by auto
  next
    case False
    obtain r validated' where d: "dfs n m (st_ID s) {} validated = (r, validated')" by fastforce
    have g: "good m (dfs_ok m {} (st_ID s)) (r, validated') validated"
      using dfs_good(1)[OF m, of "{}" "[]" "st_ID s" validated] Cons.prems(1) d by simp
    then have "\<forall>v \<in> set validated'. dfs_ok m {} v" using Cons.prems(2) by (auto simp: good_def)
    then show ?thesis using g d False Cons.IH[of validated'] Cons.prems(1)
      by (auto simp: good_def split: option.splits cycle_result.splits)
  qed
qed simp

lemma map_of_recipeMap:
  assumes "distinct (map st_ID steps)"
  shows "map_of (recipeMap steps) i = Some s \<longleftrightarrow> s \<in> set steps \<and> st_ID s = i"
proof -
  have "map fst (recipeMap steps) = rev (map st_ID steps)" by (simp add: recipeMap_def rev_map o_def)
  then have "distinct (map fst (recipeMap steps))" using assms by simp
  then have "map_of (recipeMap steps) i = Some s \<longleftrightarrow> (i, s) \<in> set (recipeMap steps)" by (rule map_of_eq_Some_iff)
  then show ?thesis by (auto simp: recipeMap_def)
qed

lemma recipeMap_ids: "fst ` set (recipeMap steps) = set (map st_ID steps)"
  by (force simp: recipeMap_def)

lemma depends_requires: "distinct (map st_ID steps) \<Longrightarrow> depends (recipeMap steps) = (requires steps)\<inverse>"
  by (auto simp: depends_def requires_def map_of_recipeMap reqs_of_def)

definition closed_steps :: "Step list \<Rightarrow> bool" where
  "closed_steps steps \<longleftrightarrow> (\<forall>s \<in> set steps. set (reqs_of s) \<subseteq> set (map st_ID steps))"

lemma closed_recipeMap: "distinct (map st_ID steps) \<Longrightarrow> closed_steps steps \<Longrightarrow> closed_map (recipeMap steps)"
  using recipeMap_ids[of steps] by (fastforce simp: closed_map_def closed_steps_def map_of_recipeMap)

lemma HasCycle_cases:
  assumes "distinct (map st_ID steps)" "closed_steps steps" "[] \<notin> set (map st_ID steps)" "length steps < n"
  shows "if acyclic (requires steps) then HasCycle n steps = Some NoCycle
    else \<exists>chain. HasCycle n steps = Some (Cycle chain) \<and> is_cycle (recipeMap steps) chain"
proof -
  let ?m = "recipeMap steps"
  have ids: "fst ` set ?m = set (map st_ID steps)" by (rule recipeMap_ids)
  have "card (fst ` set ?m) < n" using card_length[of "map st_ID steps"] assms(4) ids by simp
  then have "(HasCycle n steps = Some NoCycle \<and> (\<forall>s \<in> set steps. dfs_ok ?m {} (st_ID s))) \<or>
      (\<exists>chain. HasCycle n steps = Some (Cycle chain) \<and> is_cycle ?m chain)"
    unfolding HasCycle_def using assms(3) ids
    by (intro hasCycle_loop_good closed_recipeMap assms(1,2)) auto
  moreover have "acyclic (depends ?m)" if "\<forall>s \<in> set steps. dfs_ok ?m {} (st_ID s)"
    using that ids by (intro all_ok_acyclic) auto
  moreover have "acyclic (depends ?m) = acyclic (requires steps)"
    using depends_requires[OF assms(1)] acyclic_converse by simp
  ultimately show ?thesis using is_cycle_not_acyclic[of ?m] by metis
qed

lemma duplicates_Nil: "duplicates steps seen = [] \<longleftrightarrow> distinct (map st_ID steps) \<and> set (map st_ID steps) \<inter> seen = {}"
  by (induction steps arbitrary: seen) auto

lemma AllRequisitesDefined_iff: "fst (AllRequisitesDefined steps) \<longleftrightarrow> closed_steps steps"
proof -
  have "map_of (recipeMap steps) d = None \<longleftrightarrow> d \<notin> set (map st_ID steps)" for d
    by (simp add: map_of_eq_None_iff recipeMap_ids)
  then show ?thesis
    by (auto simp: AllRequisitesDefined_def Let_def closed_steps_def filter_empty_conv)
qed

lemma named_requires:
  "distinct (map st_ID steps) \<Longrightarrow>
   set (concat (map (reqs_of \<circ> snd) (recipeMap steps))) = {i. \<exists>j. (i, j) \<in> requires steps}"
  by (auto simp: recipeMap_def requires_def reqs_of_def)

lemma roots_of_marked:
  "\<forall>s \<in> set steps. \<not> st_IsRequisite s \<Longrightarrow>
   map st_ID (FindRoots (map (\<lambda>s. if R (st_ID s) then s\<lparr>st_IsRequisite := True\<rparr> else s) steps)) =
   filter (\<lambda>i. \<not> R i) (map st_ID steps)"
  by (induction steps) (auto simp: FindRoots_def)

lemma ValidateTrees_spec:
  assumes "[] \<notin> set (map st_ID steps)" "length steps < n" "\<forall>s \<in> set steps. \<not> st_IsRequisite s"
  shows "if distinct (map st_ID steps) \<and> closed_steps steps \<and> acyclic (requires steps)
    then \<exists>marked roots. ValidateTrees n steps = Some (TreeOk marked roots) \<and>
      map st_ID marked = map st_ID steps \<and> map st_Requisites marked = map st_Requisites steps \<and>
      map st_ID roots = filter (\<lambda>i. \<forall>j. (i, j) \<notin> requires steps) (map st_ID steps)
    else \<exists>errs. ValidateTrees n steps = Some (TreeErrors errs) \<and> errs \<noteq> [] \<and>
      (\<forall>chain. DependencyCycle chain \<in> set errs \<longrightarrow> is_cycle (recipeMap steps) chain)"
proof (cases "distinct (map st_ID steps) \<and> closed_steps steps")
  case False
  have "\<exists>errs. ValidateTrees n steps = Some (TreeErrors errs) \<and> errs \<noteq> [] \<and> (\<forall>chain. DependencyCycle chain \<notin> set errs)"
  proof (cases "distinct (map st_ID steps)")
    case True
    with False obtain missing where "AllRequisitesDefined steps = (False, missing)"
      using AllRequisitesDefined_iff[of steps] by (metis prod.collapse)
    moreover from this have "missing \<noteq> []" by (auto simp: AllRequisitesDefined_def Let_def)
    ultimately show ?thesis using True duplicates_Nil[of steps "{}"] by (auto simp: ValidateTrees_def NoDuplicateIDs_def Let_def)
  next
    case False
    then show ?thesis using duplicates_Nil[of steps "{}"] by (auto simp: ValidateTrees_def NoDuplicateIDs_def Let_def)
  qed
  then show ?thesis using False by auto
next
  case True
  then have pass: "ValidateTrees n steps = (case HasCycle n steps of None \<Rightarrow> None | Some NilStep \<Rightarrow> Some TreePanic
      | Some (Cycle chain) \<Rightarrow> Some (TreeErrors [DependencyCycle chain])
      | Some NoCycle \<Rightarrow> (let marked = mark_requisites steps in Some (TreeOk marked (FindRoots marked))))"
    using duplicates_Nil[of steps "{}"] AllRequisitesDefined_iff[of steps]
    by (auto simp: ValidateTrees_def NoDuplicateIDs_def Let_def split: prod.splits)
  have marks: "map st_ID (mark_requisites steps) = map st_ID steps"
      "map st_Requisites (mark_requisites steps) = map st_Requisites steps"
    by (simp_all add: mark_requisites_def Let_def)
  have "map st_ID (FindRoots (mark_requisites steps)) = filter (\<lambda>i. \<forall>j. (i, j) \<notin> requires steps) (map st_ID steps)"
    unfolding mark_requisites_def Let_def named_requires[OF conjunct1[OF True]]
    using roots_of_marked[OF assms(3), of "\<lambda>i. \<exists>j. (i, j) \<in> requires steps"] by simp
  with marks show ?thesis using HasCycle_cases[OF _ _ assms(1,2)] True pass by (auto simp: Let_def split: if_splits)
qed

text \<open>
  A recipe passes validation exactly when its identifiers are unique, every
  requisite is defined and no step depends on itself through its requisites; then the
  steps keep their identifiers and requisites and the roots are the steps nothing
  requires.  Otherwise there are errors, and a reported dependency cycle is one.  The
  search returns for every recipe without an empty identifier.
\<close>

theorem ValidateTrees_exact:
  assumes "[] \<notin> set (map st_ID steps)" "length steps < n" "\<forall>s \<in> set steps. \<not> st_IsRequisite s"
  shows "if distinct (map st_ID steps) \<and> closed_steps steps \<and> acyclic (requires steps)
    then \<exists>marked roots. ValidateTrees n steps = Some (TreeOk marked roots) \<and>
      map st_ID marked = map st_ID steps \<and> map st_Requisites marked = map st_Requisites steps \<and>
      map st_ID roots = filter (\<lambda>i. \<forall>j. (i, j) \<notin> requires steps) (map st_ID steps)
    else \<exists>errs. ValidateTrees n steps = Some (TreeErrors errs) \<and> errs \<noteq> [] \<and>
      (\<forall>chain. DependencyCycle chain \<in> set errs \<longrightarrow> is_cycle (recipeMap steps) chain)"
  using assms by (rule ValidateTrees_spec)

definition dag_step :: "StepID \<Rightarrow> StepID list \<Rightarrow> Step" where
  "dag_step i reqs = \<lparr>st_Ingredient = ''cmd'', st_Method = ''run'', st_ID = i, st_Properties = [],
     st_Register = None, st_Secrets = [], st_Requisites = [\<lparr>Condition = ''require'', StepIDs = reqs\<rparr>],
     st_IsRequisite = False, st_Cond = None, st_OnExit = []\<rparr>"

theorem ValidateTrees_exact_witness:
  "\<exists>errs. ValidateTrees 4 [dag_step ''a'' [''b''], dag_step ''b'' [''c''], dag_step ''c'' [''b'']] = Some (TreeErrors errs) \<and>
     (\<forall>chain. DependencyCycle chain \<in> set errs \<longrightarrow>
        is_cycle (recipeMap [dag_step ''a'' [''b''], dag_step ''b'' [''c''], dag_step ''c'' [''b'']]) chain)"
proof -
  let ?steps = "[dag_step ''a'' [''b''], dag_step ''b'' [''c''], dag_step ''c'' [''b'']]"
  have "(''b'', ''c'') \<in> requires ?steps" "(''c'', ''b'') \<in> requires ?steps"
    by (force simp: requires_def AllIDs_def dag_step_def)+
  then have "(''b'', ''b'') \<in> (requires ?steps)\<^sup>+" by (meson trancl.r_into_trancl trancl.trancl_into_trancl)
  then have "\<not> acyclic (requires ?steps)" by (auto simp: acyclic_def)
  with ValidateTrees_exact[of ?steps 4] show ?thesis by (auto simp: dag_step_def split: if_splits)
qed

text \<open>
  An empty identifier can send the search for the reported cycle into
  endless recursion: the marker of its first call is the empty string, so meeting a
  step with that identifier on the way starts the search over.  For the two steps
  below no amount of fuel gives a result.
\<close>

theorem empty_id_search_diverges: "HasCycle n [dag_step ''a'' [[]], dag_step [] [''a'']] = None"
proof -
  let ?m = "recipeMap [dag_step ''a'' [[]], dag_step [] [''a'']]"
  have m: "map_of ?m ''a'' = Some (dag_step ''a'' [[]])" "map_of ?m [] = Some (dag_step [] [''a''])"
    by (simp_all add: recipeMap_def dag_step_def)
  have r: "reqs_of (dag_step i ids) = ids" "st_ID (dag_step i ids) = i" for i ids
    by (simp_all add: reqs_of_def AllIDs_def dag_step_def)
  have "findCycle n ?m ''a'' [] chain = None" for n chain
  proof (induction n arbitrary: chain)
    case (Suc n)
    show ?case using Suc[of "chain @ [''a'']"] by (simp add: m r)
  qed simp
  then show ?thesis by (simp add: HasCycle_def m r)
qed

section \<open>Selecting a target\<close>

lemma prune_visit_spec:
  assumes "prune_visit m ids keep = Inr keep'"
  shows "keep \<union> set ids \<subseteq> keep' \<and> keep' \<subseteq> keep \<union> (depends m)\<^sup>* `` set ids \<and>
    (\<forall>x \<in> keep' - keep. \<forall>w. (x, w) \<in> depends m \<longrightarrow> w \<in> keep')"
  using assms
proof (induction m ids keep rule: prune_visit.induct)
  case (2 m i ids keep)
  show ?case
  proof (cases "i \<in> keep")
    case True
    then show ?thesis using 2 by auto
  next
    case False
    then obtain s where s: "map_of m i = Some s" using "2.prems" by (auto split: option.splits)
    have IH: "insert i keep \<union> set (reqs_of s @ ids) \<subseteq> keep'"
      "keep' \<subseteq> insert i keep \<union> (depends m)\<^sup>* `` set (reqs_of s @ ids)"
      "\<forall>x \<in> keep' - insert i keep. \<forall>w. (x, w) \<in> depends m \<longrightarrow> w \<in> keep'"
      using "2.IH"(2)[OF False s] "2.prems" False s by simp_all
    have edge: "(i, w) \<in> depends m \<longleftrightarrow> w \<in> set (reqs_of s)" for w using s by (auto simp: depends_def)
    have "(depends m)\<^sup>* `` set (reqs_of s @ ids) \<subseteq> (depends m)\<^sup>* `` set (i # ids)"
    proof
      fix y
      assume "y \<in> (depends m)\<^sup>* `` set (reqs_of s @ ids)"
      then obtain w where "w \<in> set (reqs_of s) \<or> w \<in> set ids" "(w, y) \<in> (depends m)\<^sup>*" by auto
      then show "y \<in> (depends m)\<^sup>* `` set (i # ids)" using edge[of w] by (auto intro: converse_rtrancl_into_rtrancl)
    qed
    moreover have "i \<in> (depends m)\<^sup>* `` set (i # ids)" by auto
    ultimately have "keep' \<subseteq> keep \<union> (depends m)\<^sup>* `` set (i # ids)" using IH(2) by blast
    moreover have "w \<in> keep'" if "x \<in> keep' - keep" "(x, w) \<in> depends m" for x w
    proof (cases "x = i")
      case True
      then show ?thesis using that(2) edge[of w] IH(1) by auto
    next
      case False
      then show ?thesis using that IH(3) by blast
    qed
    ultimately show ?thesis using IH(1) by simp
  qed
qed simp

lemma prune_visit_total:
  assumes "closed_map m" "set ids \<subseteq> fst ` set m"
  shows "\<exists>keep'. prune_visit m ids keep = Inr keep'"
  using assms
proof (induction m ids keep rule: prune_visit.induct)
  case (2 m i ids keep)
  obtain s where s: "map_of m i = Some s" using 2(4) by (cases "map_of m i") (auto simp: map_of_eq_None_iff)
  then have "set (reqs_of s @ ids) \<subseteq> fst ` set m" using 2(3,4) by (auto simp: closed_map_def)
  then show ?case using 2 s by auto
qed simp

lemma PruneToTarget_spec:
  assumes "distinct (map st_ID steps)" "closed_steps steps"
  shows "case PruneToTarget steps target of
      Inl err \<Rightarrow> err = ErrTargetStepNotFound target \<and> target \<notin> set (map st_ID steps)
    | Inr pruned \<Rightarrow> target \<in> set (map st_ID steps) \<and> closed_steps pruned \<and>
        pruned = filter (\<lambda>s. (st_ID s, target) \<in> (requires steps)\<^sup>*) steps"
proof (cases "target \<in> set (map st_ID steps)")
  case False
  then show ?thesis by (simp add: PruneToTarget_def map_of_eq_None_iff recipeMap_ids)
next
  case True
  let ?m = "recipeMap steps"
  have dep: "(depends ?m)\<^sup>* = ((requires steps)\<^sup>*)\<inverse>" by (simp add: depends_requires[OF assms(1)] rtrancl_converse)
  obtain keep where keep: "prune_visit ?m [target] {} = Inr keep"
    using prune_visit_total[OF closed_recipeMap[OF assms], of "[target]" "{}"] True
    unfolding recipeMap_ids by fastforce
  note spec = prune_visit_spec[OF keep]
  have "y \<in> keep" if "(target, y) \<in> (depends ?m)\<^sup>*" for y
    using that by (induction rule: rtrancl_induct) (use spec in auto)
  with spec have eq: "keep = {y. (y, target) \<in> (requires steps)\<^sup>*}" by (auto simp: dep)
  have res: "PruneToTarget steps target = Inr (filter (\<lambda>s. (st_ID s, target) \<in> (requires steps)\<^sup>*) steps)"
    using True keep by (simp add: PruneToTarget_def map_of_eq_None_iff recipeMap_ids eq)
  have "w \<in> st_ID ` {s \<in> set steps. (st_ID s, target) \<in> (requires steps)\<^sup>*}"
    if "s \<in> set steps" "(st_ID s, target) \<in> (requires steps)\<^sup>*" "w \<in> set (reqs_of s)" for s w
  proof -
    have "(w, st_ID s) \<in> requires steps" using that by (auto simp: requires_def reqs_of_def)
    then have "(w, target) \<in> (requires steps)\<^sup>*" using that(2) by (rule converse_rtrancl_into_rtrancl)
    then show ?thesis using assms(2) that by (auto simp: closed_steps_def)
  qed
  then show ?thesis using res True by (auto simp: closed_steps_def)
qed

text \<open>
  Cooking a single step runs that step and exactly the steps it depends on,
  directly or through others, in the order of the recipe; it is refused only when the
  step is unknown, and what is left needs nothing that was dropped.
\<close>

theorem PruneToTarget_exact:
  assumes "distinct (map st_ID steps)" "closed_steps steps"
  shows "case PruneToTarget steps target of
      Inl err \<Rightarrow> err = ErrTargetStepNotFound target \<and> target \<notin> set (map st_ID steps)
    | Inr pruned \<Rightarrow> target \<in> set (map st_ID steps) \<and> closed_steps pruned \<and>
        pruned = filter (\<lambda>s. (st_ID s, target) \<in> (requires steps)\<^sup>*) steps"
  using assms by (rule PruneToTarget_spec)

theorem PruneToTarget_exact_witness:
  "case PruneToTarget [dag_step ''a'' [''b''], dag_step ''b'' [], dag_step ''c'' [''b'']] ''c'' of
     Inl err \<Rightarrow> False | Inr pruned \<Rightarrow> map st_ID pruned = [''b'', ''c''] \<and> closed_steps pruned"
proof -
  let ?steps = "[dag_step ''a'' [''b''], dag_step ''b'' [], dag_step ''c'' [''b'']]"
  have "map_sum (\<lambda>e. e) (map st_ID) (PruneToTarget ?steps ''c'') = Inr [''b'', ''c'']" by code_simp
  moreover have "distinct (map st_ID ?steps)" "closed_steps ?steps"
    by (auto simp: closed_steps_def reqs_of_def AllIDs_def dag_step_def)
  ultimately show ?thesis using PruneToTarget_exact[of ?steps "''c''"] by (auto split: sum.splits)
qed

end
