(* ===== verification/Cook_Recipe.thy ===== *)
theory Cook_Recipe
  imports Cook_Dag Go_Path Props
begin

text \<open>
  From a recipe name to the envelope a sprout receives (\<open>internal/cook/farmercook.go\<close>,
  \<open>helpers.go\<close>, \<open>store.go\<close>): resolving a name to an object of the recipe store, collecting
  the includes, extracting steps from the documents, validation, pruning and sending.
  The object store is a keyed table, absent when it is not configured.  Template
  rendering and the YAML reader are parameters, and so is the order in which Go
  iterates a map.
\<close>

section \<open>Names and objects\<close>

type_synonym RecipeName = string

datatype recipe_error =
    ErrRecipeStoreNotConfigured | ErrNoRecipe | StoreError | IncludeMissing recipe_error
  | RenderError string | YamlError string
  | StepsNotMap | IncludeNotStrings | ErrDuplicateKey string | ErrInvalidFormat string
  | RecipeNotMap string | RecipeOneKey | RecipeKeyForm | PropertiesNotList string | UnknownRequisite string
  | ErrInvalidCond | ErrInvalidRegister | ErrInvalidSecrets | ErrInvalidOnExit
  | TreeInvalid "tree_error list" | NilDereference | PruneFailed prune_error

record recipe_env =
  re_store :: "(string, string) table option"
  re_envDir :: string
  re_RecipeDir :: string
  re_render :: "string \<Rightarrow> string \<Rightarrow> string \<Rightarrow> string \<Rightarrow> string + string"
  re_yaml :: "string \<Rightarrow> string + (string \<times> val) list"
  re_entries :: "(string \<times> val) list \<Rightarrow> (string \<times> val) list"
  re_names :: "RecipeName list \<Rightarrow> RecipeName list"

definition GrlxExt :: string where "GrlxExt = ''grlx''"

definition dotExt :: string where "dotExt = ''.'' @ GrlxExt"

definition getBasePath :: "recipe_env \<Rightarrow> string" where
  "getBasePath E = (if re_envDir E \<noteq> [] then re_envDir E else re_RecipeDir E)"

definition readRecipe :: "recipe_env \<Rightarrow> string \<Rightarrow> recipe_error + string" where
  "readRecipe E key =
     (case re_store E of
        None \<Rightarrow> Inl ErrRecipeStoreNotConfigured
      | Some t \<Rightarrow> (case tbl_first t key of Found d \<Rightarrow> Inr d | NotFound \<Rightarrow> Inl ErrNoRecipe | DbErr \<Rightarrow> Inl StoreError))"

definition recipeExists :: "recipe_env \<Rightarrow> string \<Rightarrow> recipe_error + bool" where
  "recipeExists E key =
     (case re_store E of
        None \<Rightarrow> Inl ErrRecipeStoreNotConfigured
      | Some t \<Rightarrow> (case tbl_first t key of Found d \<Rightarrow> Inr True | NotFound \<Rightarrow> Inr False | DbErr \<Rightarrow> Inl StoreError))"

text \<open>The key of a name, when the object is there.\<close>

definition existing :: "recipe_env \<Rightarrow> string \<Rightarrow> recipe_error + string" where
  "existing E key =
     (case recipeExists E key of Inl err \<Rightarrow> Inl err | Inr ok \<Rightarrow> if ok then Inr key else Inl ErrNoRecipe)"

definition ResolveRecipeFilePath :: "recipe_env \<Rightarrow> string \<Rightarrow> RecipeName \<Rightarrow> recipe_error + string" where
  "ResolveRecipeFilePath E basepath recipeID =
     (if re_store E = None then Inl ErrRecipeStoreNotConfigured
      else
        let base = Clean basepath;
            path = FJoin [base, TrimPrefix (Clean recipeID) base]
        in if HasSuffix path dotExt
           then existing E (ReplaceAll (TrimSuffix path dotExt) ''.'' ''/'' @ dotExt)
           else
             let path = ReplaceAll path ''.'' ''/'';
                 initFile = FJoin [path, ''init'' @ dotExt]
             in case recipeExists E initFile of
                  Inl err \<Rightarrow> Inl err
                | Inr ok \<Rightarrow> if ok then Inr initFile else existing E (path @ dotExt))"

definition pathToRecipeName :: "recipe_env \<Rightarrow> string \<Rightarrow> RecipeName" where
  "pathToRecipeName E path = TrimPrefix (TrimSuffix path dotExt) (getBasePath E @ ''/'')"

definition relativeRecipeToAbsolute ::
  "recipe_env \<Rightarrow> string \<Rightarrow> string \<Rightarrow> RecipeName \<Rightarrow> recipe_error + RecipeName" where
  "relativeRecipeToAbsolute E basepath related recipeID =
     (if \<not> HasPrefix recipeID ''.'' then
        (case ResolveRecipeFilePath E basepath recipeID of
           Inl err \<Rightarrow> Inl err
         | Inr path \<Rightarrow> Inr (pathToRecipeName E path))
      else Inr (pathToRecipeName E (FJoin [Dir related, TrimPrefix recipeID ''.''])))"

section \<open>Documents\<close>

fun strings_of :: "val list \<Rightarrow> string list option" where
  "strings_of [] = Some []"
| "strings_of (VStr s # vs) = (case strings_of vs of None \<Rightarrow> None | Some ss \<Rightarrow> Some (s # ss))"
| "strings_of _ = None"

definition includesFromMap :: "(string \<times> val) list \<Rightarrow> recipe_error + RecipeName list" where
  "includesFromMap recipe =
     (case map_of recipe ''include'' of
        None \<Rightarrow> Inr []
      | Some (VList vs) \<Rightarrow> (case strings_of vs of None \<Rightarrow> Inl IncludeNotStrings | Some ss \<Rightarrow> Inr ss)
      | Some _ \<Rightarrow> Inl IncludeNotStrings)"

definition stepsFromMap :: "(string \<times> val) list \<Rightarrow> recipe_error + (string \<times> val) list" where
  "stepsFromMap recipe =
     (case map_of recipe ''steps'' of
        None \<Rightarrow> Inr []
      | Some (VMap s) \<Rightarrow> Inr s
      | Some _ \<Rightarrow> Inl StepsNotMap)"

definition renderRecipe ::
  "recipe_env \<Rightarrow> string \<Rightarrow> string \<Rightarrow> string \<Rightarrow> string \<Rightarrow> recipe_error + (string \<times> val) list" where
  "renderRecipe E tid sid name content =
     (case re_render E tid sid name content of
        Inl err \<Rightarrow> Inl (RenderError err)
      | Inr b \<Rightarrow> (case re_yaml E b of Inl err \<Rightarrow> Inl (YamlError err) | Inr m \<Rightarrow> Inr m))"

fun absolute_includes :: "recipe_env \<Rightarrow> string \<Rightarrow> string \<Rightarrow> RecipeName list \<Rightarrow> recipe_error + RecipeName list" where
  "absolute_includes E basepath recipePath [] = Inr []"
| "absolute_includes E basepath recipePath (inc # incs) =
     (case (if HasPrefix inc ''.'' then relativeRecipeToAbsolute E basepath recipePath inc else Inr inc) of
        Inl err \<Rightarrow> Inl err
      | Inr name \<Rightarrow>
          (case absolute_includes E basepath recipePath incs of Inl err \<Rightarrow> Inl err | Inr names \<Rightarrow> Inr (name # names)))"

definition extractIncludes ::
  "recipe_env \<Rightarrow> string \<Rightarrow> string \<Rightarrow> string \<Rightarrow> string \<Rightarrow> string \<Rightarrow> recipe_error + RecipeName list" where
  "extractIncludes E tid sid basepath recipePath content =
     (case renderRecipe E tid sid recipePath content of
        Inl err \<Rightarrow> Inl err
      | Inr recipe \<Rightarrow>
          (case includesFromMap recipe of
             Inl err \<Rightarrow> Inl err
           | Inr includeList \<Rightarrow> absolute_includes E basepath recipePath includeList))"

text \<open>Reading one recipe and extracting what it includes, as both collectors do.\<close>

definition includes_of :: "recipe_env \<Rightarrow> string \<Rightarrow> string \<Rightarrow> string \<Rightarrow> RecipeName \<Rightarrow> recipe_error + RecipeName list" where
  "includes_of E tid sid basepath inc =
     (case ResolveRecipeFilePath E basepath inc of
        Inl err \<Rightarrow> Inl err
      | Inr path \<Rightarrow>
          (case readRecipe E path of
             Inl err \<Rightarrow> Inl err
           | Inr content \<Rightarrow> extractIncludes E tid sid basepath inc content))"

section \<open>Includes\<close>

type_synonym include_set = "(RecipeName \<times> bool) list"

definition undone :: "include_set \<Rightarrow> RecipeName list" where
  "undone starter = map fst (filter (\<lambda>(inc, ok). \<not> ok) starter)"

definition add_includes :: "RecipeName list \<Rightarrow> include_set \<Rightarrow> include_set" where
  "add_includes incs starter = fold (\<lambda>inc m. if map_of m inc = None then m @ [(inc, False)] else m) incs starter"

text \<open>
  \<open>collectIncludesRecurse\<close> works on one map, which its recursive calls share: it takes
  some entry that is not done, marks it, adds what it includes, recurses, and goes on
  with the map the recursion leaves behind.
\<close>

fun collectIncludesRecurse ::
  "nat \<Rightarrow> recipe_env \<Rightarrow> string \<Rightarrow> string \<Rightarrow> string \<Rightarrow> include_set \<Rightarrow> (recipe_error + include_set) option" where
  "collectIncludesRecurse 0 E tid sid basepath starter = None"
| "collectIncludesRecurse (Suc n) E tid sid basepath starter =
     (case re_names E (undone starter) of
        [] \<Rightarrow> Some (Inr starter)
      | inc # _ \<Rightarrow>
          (case includes_of E tid sid basepath inc of
             Inl err \<Rightarrow> Some (Inl err)
           | Inr eIncludes \<Rightarrow>
               (case collectIncludesRecurse n E tid sid basepath (add_includes eIncludes (AList.update inc True starter)) of
                  Some (Inr newIncludes) \<Rightarrow> collectIncludesRecurse n E tid sid basepath newIncludes
                | other \<Rightarrow> other)))"

definition collectAllIncludes ::
  "nat \<Rightarrow> recipe_env \<Rightarrow> string \<Rightarrow> string \<Rightarrow> string \<Rightarrow> RecipeName \<Rightarrow> (recipe_error + RecipeName list) option" where
  "collectAllIncludes n E tid sid basepath recipeID =
     (case includes_of E tid sid basepath recipeID of
        Inl err \<Rightarrow> Some (Inl err)
      | Inr starterIncludes \<Rightarrow>
          (case collectIncludesRecurse n E tid sid basepath (add_includes (starterIncludes @ [recipeID]) []) of
             None \<Rightarrow> None
           | Some (Inl err) \<Rightarrow> Some (Inl err)
           | Some (Inr includeSet) \<Rightarrow> Some (Inr (re_names E (map fst includeSet)))))"

section \<open>Steps\<close>

definition reqTypes :: "ReqType list" where
  "reqTypes = [OnChanges, OnFail, Require, OnChangesAny, OnFailAny, RequireAny]"

definition deInterfaceRequisites :: "ReqType \<Rightarrow> val \<Rightarrow> recipe_error + Requisite list" where
  "deInterfaceRequisites req v =
     (case v of
        VStr s \<Rightarrow> Inr [\<lparr>Condition = req, StepIDs = [s]\<rparr>]
      | VList vs \<Rightarrow>
          (case strings_of vs of
             None \<Rightarrow> Inl (ErrInvalidFormat req)
           | Some ids \<Rightarrow> Inr [\<lparr>Condition = req, StepIDs = ids\<rparr>])
      | _ \<Rightarrow> Inl (ErrInvalidFormat req))"

fun requisite_entries :: "(string \<times> val) list \<Rightarrow> recipe_error + Requisite list" where
  "requisite_entries [] = Inr []"
| "requisite_entries ((k, v) # kvs) =
     (if k \<in> set reqTypes then
        (case deInterfaceRequisites k v of
           Inl err \<Rightarrow> Inl err
         | Inr reqs \<Rightarrow> (case requisite_entries kvs of Inl err \<Rightarrow> Inl err | Inr reqs2 \<Rightarrow> Inr (reqs @ reqs2)))
      else Inl (UnknownRequisite k))"

fun requisite_maps :: "recipe_env \<Rightarrow> val list \<Rightarrow> recipe_error + Requisite list" where
  "requisite_maps E [] = Inr []"
| "requisite_maps E (VMap mm # ms) =
     (case requisite_entries (re_entries E mm) of
        Inl err \<Rightarrow> Inl err
      | Inr reqs \<Rightarrow> (case requisite_maps E ms of Inl err \<Rightarrow> Inl err | Inr reqs2 \<Rightarrow> Inr (reqs @ reqs2)))"
| "requisite_maps E _ = Inl (ErrInvalidFormat ''requirements'')"

definition extractRequisites :: "recipe_env \<Rightarrow> (string \<times> val) list \<Rightarrow> recipe_error + Requisite list" where
  "extractRequisites E step =
     (case map_of step ''requisites'' of
        None \<Rightarrow> Inr []
      | Some (VList ms) \<Rightarrow> requisite_maps E ms
      | Some _ \<Rightarrow> Inl (ErrInvalidFormat ''requirements''))"

definition extractCond :: "(string \<times> val) list \<Rightarrow> recipe_error + Cond option" where
  "extractCond step =
     (case map_of step ''cond'' of
        None \<Rightarrow> Inr None
      | Some (VStr test) \<Rightarrow>
          if test = [] then Inl ErrInvalidCond
          else (case map_of step ''cond_negate'' of
                  None \<Rightarrow> Inr (Some \<lparr>cond_Test = test, cond_Negate = False\<rparr>)
                | Some (VBool negate) \<Rightarrow> Inr (Some \<lparr>cond_Test = test, cond_Negate = negate\<rparr>)
                | Some _ \<Rightarrow> Inl ErrInvalidCond)
      | Some _ \<Rightarrow> Inl ErrInvalidCond)"

definition extractRegister :: "(string \<times> val) list \<Rightarrow> recipe_error + Register option" where
  "extractRegister step =
     (case map_of step ''register'' of
        None \<Rightarrow> Inr None
      | Some (VStr name) \<Rightarrow>
          if name = [] then Inl ErrInvalidRegister else Inr (Some \<lparr>reg_Name = name, reg_Sensitive = False\<rparr>)
      | Some (VMap v) \<Rightarrow>
          let name = as_string (map_of v ''name'') in
          if name = [] then Inl ErrInvalidRegister
          else (case map_of v ''sensitive'' of
                  None \<Rightarrow> Inr (Some \<lparr>reg_Name = name, reg_Sensitive = False\<rparr>)
                | Some (VBool sensitive) \<Rightarrow> Inr (Some \<lparr>reg_Name = name, reg_Sensitive = sensitive\<rparr>)
                | Some _ \<Rightarrow> Inl ErrInvalidRegister)
      | Some _ \<Rightarrow> Inl ErrInvalidRegister)"

fun secret_entries :: "(string \<times> val) list \<Rightarrow> recipe_error + (string \<times> string) list" where
  "secret_entries [] = Inr []"
| "secret_entries ((k, v) # kvs) =
     (if as_string (Some v) = [] then Inl ErrInvalidSecrets
      else case secret_entries kvs of
             Inl err \<Rightarrow> Inl err
           | Inr rest \<Rightarrow> Inr ((k, as_string (Some v)) # rest))"

definition extractSecrets :: "recipe_env \<Rightarrow> (string \<times> val) list \<Rightarrow> recipe_error + (string \<times> string) list" where
  "extractSecrets E step =
     (case map_of step ''secrets'' of
        None \<Rightarrow> Inr []
      | Some (VMap sm) \<Rightarrow> secret_entries (re_entries E sm)
      | Some _ \<Rightarrow> Inl ErrInvalidSecrets)"

text \<open>A list of property maps as one map; a later entry overwrites an earlier one.\<close>

fun merge_props :: "val list \<Rightarrow> (string \<times> val) list \<Rightarrow> (string \<times> val) list option" where
  "merge_props [] m = Some m"
| "merge_props (VMap kvs # vs) m = merge_props vs (fold (\<lambda>(k, v) m. AList.update k v m) kvs m)"
| "merge_props _ m = None"

text \<open>\<open>ingredient.method\<close> with its property list.\<close>

fun directive :: "string \<Rightarrow> val \<Rightarrow> recipe_error + string \<times> string \<times> (string \<times> val) list" where
  "directive k v =
     (case Split (CHR ''.'') k of
        [ingredient, meth] \<Rightarrow>
          (case v of
             VList mi \<Rightarrow>
               (case merge_props mi [] of
                  None \<Rightarrow> Inl (PropertiesNotList k)
                | Some m \<Rightarrow> Inr (ingredient, meth, m))
           | _ \<Rightarrow> Inl (PropertiesNotList k))
      | _ \<Rightarrow> Inl RecipeKeyForm)"

fun on_exit_steps :: "string \<Rightarrow> nat \<Rightarrow> val list \<Rightarrow> recipe_error + exit_step list" where
  "on_exit_steps parentID i [] = Inr []"
| "on_exit_steps parentID i (item # items) =
     (case item of
        VMap [(k, v)] \<Rightarrow>
          (case directive k v of
             Inl _ \<Rightarrow> Inl ErrInvalidOnExit
           | Inr (ingredient, meth, props) \<Rightarrow>
               (case on_exit_steps parentID (Suc i) items of
                  Inl err \<Rightarrow> Inl err
                | Inr steps \<Rightarrow>
                    Inr (\<lparr>st_Ingredient = ingredient, st_Method = meth,
                          st_ID = parentID @ ''-on_exit-'' @ show_int (int i), st_Properties = props,
                          st_Register = None, st_Secrets = []\<rparr> # steps)))
      | _ \<Rightarrow> Inl ErrInvalidOnExit)"

definition extractOnExit :: "string \<Rightarrow> (string \<times> val) list \<Rightarrow> recipe_error + exit_step list" where
  "extractOnExit parentID step =
     (case map_of step ''on_exit'' of
        None \<Rightarrow> Inr []
      | Some (VList items) \<Rightarrow> on_exit_steps parentID 0 items
      | Some _ \<Rightarrow> Inl ErrInvalidOnExit)"

definition recipeToStep :: "recipe_env \<Rightarrow> string \<Rightarrow> (string \<times> val) list \<Rightarrow> recipe_error + Step" where
  "recipeToStep E i recipe =
     (case recipe of
        [(k, v)] \<Rightarrow>
          (case directive k v of
             Inl err \<Rightarrow> Inl err
           | Inr (ingredient, meth, m) \<Rightarrow>
               (case extractRequisites E m of Inl err \<Rightarrow> Inl err | Inr reqs \<Rightarrow>
               (case extractCond m of Inl err \<Rightarrow> Inl err | Inr cond \<Rightarrow>
               (case extractRegister m of Inl err \<Rightarrow> Inl err | Inr register \<Rightarrow>
               (case extractSecrets E m of Inl err \<Rightarrow> Inl err | Inr secrets \<Rightarrow>
               (case extractOnExit i m of Inl err \<Rightarrow> Inl err | Inr onExit \<Rightarrow>
                  Inr \<lparr>st_Ingredient = ingredient, st_Method = meth, st_ID = i, st_Properties = m,
                       st_Register = register, st_Secrets = secrets, st_Requisites = reqs,
                       st_IsRequisite = False, st_Cond = cond, st_OnExit = onExit\<rparr>))))))
      | _ \<Rightarrow> Inl RecipeOneKey)"

fun makeRecipeSteps :: "recipe_env \<Rightarrow> (string \<times> val) list \<Rightarrow> recipe_error + Step list" where
  "makeRecipeSteps E [] = Inr []"
| "makeRecipeSteps E ((name, recipe) # rest) =
     (case recipe of
        VMap m \<Rightarrow>
          (case recipeToStep E name m of
             Inl err \<Rightarrow> Inl err
           | Inr step \<Rightarrow> (case makeRecipeSteps E rest of Inl err \<Rightarrow> Inl err | Inr steps \<Rightarrow> Inr (step # steps)))
      | _ \<Rightarrow> Inl (RecipeNotMap name))"

section \<open>A whole recipe\<close>

fun join_entries :: "(string \<times> val) list \<Rightarrow> (string \<times> val) list \<Rightarrow> recipe_error + (string \<times> val) list" where
  "join_entries [] c = Inr c"
| "join_entries ((k, v) # b) c =
     (if map_of c k \<noteq> None then Inl (ErrDuplicateKey k) else join_entries b (c @ [(k, v)]))"

definition joinMaps :: "recipe_env \<Rightarrow> (string \<times> val) list \<Rightarrow> (string \<times> val) list \<Rightarrow> recipe_error + (string \<times> val) list" where
  "joinMaps E a b = join_entries (re_entries E b) a"

definition load_steps :: "recipe_env \<Rightarrow> string \<Rightarrow> string \<Rightarrow> string \<Rightarrow> RecipeName \<Rightarrow> recipe_error + (string \<times> val) list" where
  "load_steps E tid sid basepath inc =
     (case ResolveRecipeFilePath E basepath inc of
        Inl err \<Rightarrow> Inl (if err = ErrRecipeStoreNotConfigured then err else IncludeMissing err)
      | Inr fp \<Rightarrow>
          (case readRecipe E fp of
             Inl err \<Rightarrow> Inl err
           | Inr f \<Rightarrow>
               (case renderRecipe E tid sid fp f of
                  Inl err \<Rightarrow> Inl err
                | Inr recipe \<Rightarrow> stepsFromMap recipe)))"

fun join_includes ::
  "recipe_env \<Rightarrow> string \<Rightarrow> string \<Rightarrow> string \<Rightarrow> RecipeName list \<Rightarrow> (string \<times> val) list \<Rightarrow> recipe_error + (string \<times> val) list" where
  "join_includes E tid sid basepath [] recipesteps = Inr recipesteps"
| "join_includes E tid sid basepath (inc # incs) recipesteps =
     (case load_steps E tid sid basepath inc of
        Inl err \<Rightarrow> Inl err
      | Inr m \<Rightarrow>
          (case joinMaps E recipesteps m of
             Inl err \<Rightarrow> Inl err
           | Inr joined \<Rightarrow> join_includes E tid sid basepath incs joined))"

fun check_directives :: "(string \<times> val) list \<Rightarrow> recipe_error option" where
  "check_directives [] = None"
| "check_directives ((i, step) # rest) =
     (case step of
        VMap s \<Rightarrow> if length s \<noteq> 1 then Some (ErrInvalidFormat i) else check_directives rest
      | _ \<Rightarrow> Some (ErrInvalidFormat i))"

text \<open>
  \<open>validateRecipeTree\<close> returns the steps it was given, which the validation has marked
  through the pointers.
\<close>

definition validateRecipeTree :: "nat \<Rightarrow> Step list \<Rightarrow> (recipe_error + Step list) option" where
  "validateRecipeTree n steps =
     (case ValidateTrees n steps of
        None \<Rightarrow> None
      | Some (TreeErrors errs) \<Rightarrow> Some (Inl (TreeInvalid errs))
      | Some TreePanic \<Rightarrow> Some (Inl NilDereference)
      | Some (TreeOk marked roots) \<Rightarrow> Some (Inr marked))"

definition resolveRecipeSteps ::
  "nat \<Rightarrow> recipe_env \<Rightarrow> string \<Rightarrow> string \<Rightarrow> RecipeName \<Rightarrow> (recipe_error + Step list) option" where
  "resolveRecipeSteps n E tid sid recipeID =
     (let basepath = getBasePath E in
      case collectAllIncludes n E tid sid basepath recipeID of
        None \<Rightarrow> None
      | Some (Inl err) \<Rightarrow> Some (Inl err)
      | Some (Inr includes) \<Rightarrow>
          (case join_includes E tid sid basepath includes [] of
             Inl err \<Rightarrow> Some (Inl err)
           | Inr recipesteps \<Rightarrow>
               (case check_directives (re_entries E recipesteps) of
                  Some err \<Rightarrow> Some (Inl err)
                | None \<Rightarrow>
                    (case makeRecipeSteps E (re_entries E recipesteps) of
                       Inl err \<Rightarrow> Some (Inl err)
                     | Inr steps \<Rightarrow> validateRecipeTree n steps))))"

section \<open>Sending\<close>

datatype cook_error =
    RecipeFailed recipe_error | NoConnection string | RequestFailed | AckInvalid | NotAcknowledged | WrongJobID

text \<open>
  The farmer's connections by tenant, and what the sprout answers to a request on one:
  nothing in time, something that does not decode, or an acknowledgement.
\<close>

datatype ack_reply = NoReply | BadReply | Ack bool string

record 'c cook_bus =
  farmerConns :: "(string \<times> 'c) list"
  cb_request :: "'c \<Rightarrow> string \<Rightarrow> RecipeEnvelope \<Rightarrow> ack_reply"

definition RegisterFarmerNatsConn :: "'c cook_bus \<Rightarrow> string \<Rightarrow> 'c \<Rightarrow> 'c cook_bus" where
  "RegisterFarmerNatsConn bus tid c = bus\<lparr>farmerConns := AList.update tid c (farmerConns bus)\<rparr>"

definition UnregisterFarmerNatsConn :: "'c cook_bus \<Rightarrow> string \<Rightarrow> 'c cook_bus" where
  "UnregisterFarmerNatsConn bus tid = bus\<lparr>farmerConns := AList.delete tid (farmerConns bus)\<rparr>"

definition farmerConnFor :: "'c cook_bus \<Rightarrow> string \<Rightarrow> 'c option" where
  "farmerConnFor bus tid = map_of (farmerConns bus) tid"

text \<open>The request a call sends, if it sends one, and its error.\<close>

definition sendEnvelope ::
  "'c cook_bus \<Rightarrow> string \<Rightarrow> string \<Rightarrow> RecipeEnvelope \<Rightarrow> ('c \<times> string \<times> RecipeEnvelope) option \<times> cook_error option" where
  "sendEnvelope bus tid sid envelope =
     (case farmerConnFor bus tid of
        None \<Rightarrow> (None, Some (NoConnection tid))
      | Some c \<Rightarrow>
          (let subject = ''grlx.sprouts.'' @ sid @ ''.cook'' in
           (Some (c, subject, envelope),
            case cb_request bus c subject envelope of
              NoReply \<Rightarrow> Some RequestFailed
            | BadReply \<Rightarrow> Some AckInvalid
            | Ack acknowledged jid \<Rightarrow>
                if \<not> acknowledged then Some NotAcknowledged
                else if jid \<noteq> env_JobID envelope then Some WrongJobID else None)))"

definition SendCookEvent ::
  "nat \<Rightarrow> recipe_env \<Rightarrow> 'c cook_bus \<Rightarrow> string \<Rightarrow> string \<Rightarrow> RecipeName \<Rightarrow> string \<Rightarrow> bool \<Rightarrow> string \<Rightarrow> StepID \<Rightarrow>
   (('c \<times> string \<times> RecipeEnvelope) option \<times> cook_error option) option" where
  "SendCookEvent n E bus tid sid recipeID JID test invokedBy targetStep =
     (case resolveRecipeSteps n E tid sid recipeID of
        None \<Rightarrow> None
      | Some (Inl err) \<Rightarrow> Some (None, Some (RecipeFailed err))
      | Some (Inr validSteps) \<Rightarrow>
          (case (if targetStep \<noteq> [] then PruneToTarget validSteps targetStep else Inr validSteps) of
             Inl pruneErr \<Rightarrow> Some (None, Some (RecipeFailed (PruneFailed pruneErr)))
           | Inr steps \<Rightarrow>
               Some (sendEnvelope bus tid sid
                 \<lparr>env_JobID = JID, env_Steps = steps, env_Test = test, env_InvokedBy = invokedBy\<rparr>)))"

definition SendStepsEvent ::
  "'c cook_bus \<Rightarrow> string \<Rightarrow> string \<Rightarrow> string \<Rightarrow> Step list \<Rightarrow> ('c \<times> string \<times> RecipeEnvelope) option \<times> cook_error option" where
  "SendStepsEvent bus tid sid JID steps =
     sendEnvelope bus tid sid \<lparr>env_JobID = JID, env_Steps = steps, env_Test = False, env_InvokedBy = []\<rparr>"

section \<open>What is included\<close>

text \<open>Go iterates a map in some order: an arbitrary permutation of its entries.\<close>

definition shuffles :: "('a list \<Rightarrow> 'a list) \<Rightarrow> bool" where
  "shuffles f = (\<forall>xs. mset (f xs) = mset xs)"

lemma shuffles_set: "shuffles f \<Longrightarrow> set (f xs) = set xs"
  unfolding shuffles_def by (metis set_mset_mset)

lemma shuffles_distinct: "shuffles f \<Longrightarrow> distinct (map g (f xs)) = distinct (map g xs)"
  unfolding shuffles_def by (metis mset_map mset_eq_imp_distinct_iff)

lemma shuffles_Nil: "shuffles f \<Longrightarrow> f xs = [] \<longleftrightarrow> xs = []"
  using shuffles_set[of f xs] by auto

definition include_rel :: "recipe_env \<Rightarrow> string \<Rightarrow> string \<Rightarrow> string \<Rightarrow> (RecipeName \<times> RecipeName) set" where
  "include_rel E tid sid basepath =
     {(a, b). \<exists>incs. includes_of E tid sid basepath a = Inr incs \<and> b \<in> set incs}"

definition included :: "recipe_env \<Rightarrow> string \<Rightarrow> string \<Rightarrow> string \<Rightarrow> RecipeName \<Rightarrow> RecipeName set" where
  "included E tid sid basepath recipeID = (include_rel E tid sid basepath)\<^sup>* `` {recipeID}"

lemma add_includes_spec:
  assumes "distinct (map fst m)"
  shows "distinct (map fst (add_includes incs m)) \<and> fst ` set (add_includes incs m) = fst ` set m \<union> set incs \<and>
    (\<forall>a. map_of (add_includes incs m) a =
       (if map_of m a = None \<and> a \<in> set incs then Some False else map_of m a))"
  using assms
proof (induction incs arbitrary: m)
  case (Cons i incs)
  let ?m = "if map_of m i = None then m @ [(i, False)] else m"
  have "distinct (map fst ?m)" "fst ` set ?m = insert i (fst ` set m)"
    using Cons.prems by (auto simp: map_of_eq_None_iff)
  moreover have "map_of ?m a = (if map_of m a = None \<and> a = i then Some False else map_of m a)" for a
    by (auto simp: map_add_def split: option.splits)
  moreover have "add_includes (i # incs) m = add_includes incs ?m" by (simp add: add_includes_def)
  ultimately show ?case using Cons.IH[of ?m] by auto
qed (simp add: add_includes_def)

lemma undone_set: "distinct (map fst m) \<Longrightarrow> set (undone m) = {a. map_of m a = Some False}"
  by (force simp: undone_def map_of_eq_Some_iff)

text \<open>The entries marked done have been read, and what they include is in the map.\<close>

definition include_inv :: "recipe_env \<Rightarrow> string \<Rightarrow> string \<Rightarrow> string \<Rightarrow> RecipeName set \<Rightarrow> include_set \<Rightarrow> bool" where
  "include_inv E tid sid basepath R m =
     (distinct (map fst m) \<and> fst ` set m \<subseteq> R \<and>
      (\<forall>a. map_of m a = Some True \<longrightarrow> (\<exists>incs. includes_of E tid sid basepath a = Inr incs \<and> set incs \<subseteq> fst ` set m)))"

lemma include_inv_step:
  assumes inv: "include_inv E tid sid basepath R m" and closed: "include_rel E tid sid basepath `` R \<subseteq> R"
    and inc: "map_of m inc = Some False" "includes_of E tid sid basepath inc = Inr incs"
  shows "include_inv E tid sid basepath R (add_includes incs (AList.update inc True m))"
    and "{a. map_of (add_includes incs (AList.update inc True m)) a = Some True} = insert inc {a. map_of m a = Some True}"
    and "fst ` set m \<subseteq> fst ` set (add_includes incs (AList.update inc True m))"
proof -
  let ?m = "AList.update inc True m"
  have m: "distinct (map fst ?m)" "fst ` set ?m = fst ` set m" "map_of ?m = (map_of m)(inc \<mapsto> True)"
    using inv inc(1) by (auto simp: include_inv_def distinct_update update_conv' dom_update
        dest: map_of_SomeD intro: rev_image_eqI)
  note add = add_includes_spec[OF m(1), of incs]
  have "inc \<in> R" using inv inc(1) by (force simp: include_inv_def dest: map_of_SomeD)
  then have sub: "set incs \<subseteq> R" using closed inc(2) by (force simp: include_rel_def)
  have keys: "fst ` set (add_includes incs ?m) = fst ` set m \<union> set incs" using add m(2) by simp
  show marked: "{a. map_of (add_includes incs ?m) a = Some True} = insert inc {a. map_of m a = Some True}"
    using add m(3) by auto
  have "\<exists>js. includes_of E tid sid basepath a = Inr js \<and> set js \<subseteq> fst ` set (add_includes incs ?m)"
    if "map_of (add_includes incs ?m) a = Some True" for a
  proof (cases "a = inc")
    case True
    then show ?thesis using inc(2) add by simp
  next
    case False
    with that marked have "map_of m a = Some True" by blast
    then obtain js where "includes_of E tid sid basepath a = Inr js" "set js \<subseteq> fst ` set m"
      using inv unfolding include_inv_def by blast
    then show ?thesis using keys by blast
  qed
  moreover have "fst ` set (add_includes incs ?m) \<subseteq> R"
    using keys sub inv unfolding include_inv_def by blast
  ultimately show "include_inv E tid sid basepath R (add_includes incs ?m)"
    using add by (simp add: include_inv_def)
  show "fst ` set m \<subseteq> fst ` set (add_includes incs ?m)" using keys by blast
qed

definition include_done :: "include_set \<Rightarrow> RecipeName set" where
  "include_done m = {a. map_of m a = Some True}"

lemma collectIncludesRecurse_spec:
  assumes "shuffles (re_names E)" "finite R" "include_rel E tid sid basepath `` R \<subseteq> R"
    and "include_inv E tid sid basepath R m" "card (R - include_done m) < n"
  shows "(\<exists>a \<in> R. \<exists>err. includes_of E tid sid basepath a = Inl err \<and> collectIncludesRecurse n E tid sid basepath m = Some (Inl err)) \<or>
    (\<exists>m'. collectIncludesRecurse n E tid sid basepath m = Some (Inr m') \<and> include_inv E tid sid basepath R m' \<and>
       undone m' = [] \<and> fst ` set m \<subseteq> fst ` set m')"
  using assms(4,5)
proof (induction n arbitrary: m)
  case (Suc n)
  show ?case
  proof (cases "re_names E (undone m)")
    case Nil
    moreover have "undone m = []" using Nil by (simp add: shuffles_Nil[OF assms(1)])
    ultimately have "collectIncludesRecurse (Suc n) E tid sid basepath m = Some (Inr m)" by simp
    then show ?thesis using Suc.prems(1) \<open>undone m = []\<close> by blast
  next
    case (Cons inc rest)
    then have inc: "map_of m inc = Some False"
      using shuffles_set[OF assms(1), of "undone m"] undone_set[of m] Suc.prems(1) by (auto simp: include_inv_def)
    then have incR: "inc \<in> R" using Suc.prems(1) map_of_SomeD[OF inc] by (force simp: include_inv_def)
    show ?thesis
    proof (cases "includes_of E tid sid basepath inc")
      case (Inl err)
      then show ?thesis using Cons incR by auto
    next
      case (Inr incs)
      let ?m = "add_includes incs (AList.update inc True m)"
      note step = include_inv_step[OF Suc.prems(1) assms(3) inc Inr]
      have "include_done ?m = insert inc (include_done m)" "inc \<notin> include_done m"
        using step(2) inc by (simp_all add: include_done_def)
      then have "R - include_done ?m \<subset> R - include_done m" using incR by blast
      then have "card (R - include_done ?m) < card (R - include_done m)"
        using assms(2) by (intro psubset_card_mono) simp
      then have "card (R - include_done ?m) < n" using Suc.prems(2) by linarith
      from Suc.IH[OF step(1) this] show ?thesis
      proof (elim disjE exE conjE bexE)
        fix m' assume m': "collectIncludesRecurse n E tid sid basepath ?m = Some (Inr m')"
          "include_inv E tid sid basepath R m'" "undone m' = []" "fst ` set ?m \<subseteq> fst ` set m'"
        then have "n \<noteq> 0" by (cases n) auto
        then have "collectIncludesRecurse n E tid sid basepath m' = Some (Inr m')"
          using m'(3) shuffles_Nil[OF assms(1), of "[]"] by (cases n) auto
        then show ?thesis using m' step(3) Cons Inr by auto
      qed (use Cons Inr in auto)
    qed
  qed
qed simp

lemma included_closed: "include_rel E tid sid basepath `` included E tid sid basepath r \<subseteq> included E tid sid basepath r"
  by (auto simp: included_def intro: rtrancl.rtrancl_into_rtrancl)

lemma included_least:
  assumes "recipeID \<in> S" "\<And>a incs. a \<in> S \<Longrightarrow> includes_of E tid sid basepath a = Inr incs \<Longrightarrow> set incs \<subseteq> S"
  shows "included E tid sid basepath recipeID \<subseteq> S"
proof
  fix x assume "x \<in> included E tid sid basepath recipeID"
  then have "(recipeID, x) \<in> (include_rel E tid sid basepath)\<^sup>*" by (simp add: included_def)
  then show "x \<in> S"
    by (induction rule: rtrancl_induct) (use assms in \<open>auto simp: include_rel_def\<close>)
qed

lemma collectAllIncludes_spec:
  assumes "shuffles (re_names E)" "finite (included E tid sid basepath recipeID)"
    and "card (included E tid sid basepath recipeID) < n"
  shows "(\<exists>a \<in> included E tid sid basepath recipeID. \<exists>err. includes_of E tid sid basepath a = Inl err \<and>
      collectAllIncludes n E tid sid basepath recipeID = Some (Inl err)) \<or>
    (\<exists>names. collectAllIncludes n E tid sid basepath recipeID = Some (Inr names) \<and> distinct names \<and>
      set names = included E tid sid basepath recipeID \<and>
      (\<forall>a \<in> set names. \<exists>incs. includes_of E tid sid basepath a = Inr incs))"
proof -
  let ?R = "included E tid sid basepath recipeID"
  have self: "recipeID \<in> ?R" by (simp add: included_def)
  show ?thesis
  proof (cases "includes_of E tid sid basepath recipeID")
    case (Inl err)
    then show ?thesis using self by (auto simp: collectAllIncludes_def)
  next
    case (Inr incs)
    let ?m = "add_includes (incs @ [recipeID]) []"
    have m: "distinct (map fst ?m)" "fst ` set ?m = insert recipeID (set incs)" "\<And>a. map_of ?m a \<noteq> Some True"
      using add_includes_spec[of "[]" "incs @ [recipeID]"] by auto
    have "set incs \<subseteq> ?R" using included_closed[of E tid sid basepath recipeID] self Inr by (force simp: include_rel_def)
    then have inv: "include_inv E tid sid basepath ?R ?m" using m self by (simp add: include_inv_def)
    have "card (?R - include_done ?m) < n"
      using assms(2,3) m(3) by (simp add: include_done_def)
    from collectIncludesRecurse_spec[OF assms(1,2) included_closed inv this] show ?thesis
    proof (elim disjE exE conjE bexE)
      fix m' assume m': "collectIncludesRecurse n E tid sid basepath ?m = Some (Inr m')"
        "include_inv E tid sid basepath ?R m'" "undone m' = []" "fst ` set ?m \<subseteq> fst ` set m'"
      have all: "\<exists>js. includes_of E tid sid basepath a = Inr js \<and> set js \<subseteq> fst ` set m'" if "a \<in> fst ` set m'" for a
      proof -
        have "map_of m' a \<noteq> None" using that by (simp add: map_of_eq_None_iff)
        moreover have "map_of m' a \<noteq> Some False"
          using undone_set[of m'] m'(2,3) by (force simp: include_inv_def simp del: map_of_eq_Some_iff)
        ultimately have "map_of m' a = Some True" by (metis (full_types) not_None_eq)
        then show ?thesis using m'(2) unfolding include_inv_def by blast
      qed
      have "recipeID \<in> fst ` set m'" using m(2) m'(4) by blast
      then have "?R \<subseteq> fst ` set m'"
      proof (rule included_least)
        fix a incs assume "a \<in> fst ` set m'" "includes_of E tid sid basepath a = Inr incs"
        then show "set incs \<subseteq> fst ` set m'" using all[of a] by (metis sum.inject(2))
      qed
      then have "fst ` set m' = ?R" using m'(2) by (auto simp: include_inv_def)
      moreover have "distinct (re_names E (map fst m'))"
        using shuffles_distinct[OF assms(1), of "\<lambda>x. x"] m'(2) by (simp add: include_inv_def)
      ultimately show ?thesis
        using m'(1) Inr all shuffles_set[OF assms(1), of "map fst m'"] by (force simp: collectAllIncludes_def)
    qed (use Inr in \<open>auto simp: collectAllIncludes_def\<close>)
  qed
qed

section \<open>What a recipe resolves to\<close>

definition parse_entry :: "recipe_env \<Rightarrow> string \<times> val \<Rightarrow> Step option" where
  "parse_entry E e =
     (case snd e of VMap m \<Rightarrow> (case recipeToStep E (fst e) m of Inl _ \<Rightarrow> None | Inr s \<Rightarrow> Some s) | _ \<Rightarrow> None)"

definition steps_doc :: "recipe_env \<Rightarrow> string \<Rightarrow> string \<Rightarrow> string \<Rightarrow> RecipeName \<Rightarrow> (string \<times> val) list" where
  "steps_doc E tid sid basepath a = (case load_steps E tid sid basepath a of Inl _ \<Rightarrow> [] | Inr es \<Rightarrow> es)"

text \<open>
  The meaning of a recipe whose includes are the names of \<open>R\<close>: every file can be read,
  the steps are the entries of all files, each read as a step, in some order, and they
  form a well-founded graph.
\<close>

definition recipe_meaning ::
  "recipe_env \<Rightarrow> string \<Rightarrow> string \<Rightarrow> string \<Rightarrow> RecipeName set \<Rightarrow> Step list \<Rightarrow> bool" where
  "recipe_meaning E tid sid basepath R steps =
     (\<exists>L unmarked. (\<forall>a \<in> R. (\<exists>incs. includes_of E tid sid basepath a = Inr incs) \<and>
          (\<exists>es. load_steps E tid sid basepath a = Inr es)) \<and>
        mset L = (\<Sum>a \<in> R. mset (steps_doc E tid sid basepath a)) \<and>
        map (parse_entry E) L = map Some unmarked \<and> steps = mark_requisites unmarked \<and>
        distinct (map st_ID steps) \<and> closed_steps steps \<and> acyclic (requires steps))"

lemma recipeToStep_fields:
  "recipeToStep E i m = Inr s \<Longrightarrow> st_ID s = i \<and> \<not> st_IsRequisite s \<and> length m = 1"
  by (auto simp: recipeToStep_def split: list.splits sum.splits)

lemma parse_entry_fields: "parse_entry E e = Some s \<Longrightarrow> st_ID s = fst e \<and> \<not> st_IsRequisite s"
  by (auto simp: parse_entry_def recipeToStep_fields split: val.splits sum.splits)

lemma parsed_ids: "map (parse_entry E) L = map Some steps \<Longrightarrow> map st_ID steps = map fst L"
proof (induction L arbitrary: steps)
  case (Cons e L)
  then show ?case by (cases steps) (auto dest: parse_entry_fields)
qed simp

lemma makeRecipeSteps_Cons:
  "makeRecipeSteps E (e # L) = Inr steps \<longleftrightarrow>
   (\<exists>s ss. parse_entry E e = Some s \<and> makeRecipeSteps E L = Inr ss \<and> steps = s # ss)"
  by (cases e; cases "snd e") (auto simp: parse_entry_def split: sum.splits)

lemma makeRecipeSteps_Inr: "makeRecipeSteps E L = Inr steps \<longleftrightarrow> map (parse_entry E) L = map Some steps"
proof (induction L arbitrary: steps)
  case (Cons e L)
  show ?case by (cases steps) (auto simp: makeRecipeSteps_Cons Cons.IH simp del: makeRecipeSteps.simps)
qed auto

lemma check_directives_None: "map (parse_entry E) L = map Some steps \<Longrightarrow> check_directives L = None"
proof (induction L arbitrary: steps)
  case (Cons e L)
  obtain k v where e: "e = (k, v)" by (cases e)
  from Cons.prems obtain s steps' where *: "parse_entry E e = Some s" "map (parse_entry E) L = map Some steps'"
    by (cases steps) auto
  then obtain m where "v = VMap m" "length m = 1"
    by (auto simp: e parse_entry_def dest: recipeToStep_fields split: val.splits sum.splits)
  with Cons.IH[OF *(2)] show ?case by (simp add: e)
qed simp

lemma join_entries_spec:
  "distinct (map fst c) \<Longrightarrow>
   if distinct (map fst (c @ b)) then join_entries b c = Inr (c @ b) else \<exists>err. join_entries b c = Inl err"
proof (induction b arbitrary: c)
  case (Cons e b)
  obtain k v where e: "e = (k, v)" by (cases e)
  show ?case
  proof (cases "map_of c k")
    case None
    then have "distinct (map fst (c @ [(k, v)]))" using Cons.prems by (simp add: map_of_eq_None_iff)
    from Cons.IH[OF this] None show ?thesis by (auto simp: e)
  next
    case (Some w)
    then have "k \<in> set (map fst c)" by (metis map_of_eq_None_iff option.distinct(1) set_map)
    then show ?thesis using Some by (auto simp: e)
  qed
qed simp

lemma joinMaps_spec:
  assumes "shuffles (re_entries E)" "distinct (map fst c)"
  shows "if distinct (map fst (c @ b)) then joinMaps E c b = Inr (c @ re_entries E b) else \<exists>err. joinMaps E c b = Inl err"
proof -
  have "mset (c @ re_entries E b) = mset (c @ b)" using assms(1) by (simp add: shuffles_def)
  then have "distinct (map fst (c @ re_entries E b)) = distinct (map fst (c @ b))"
    by (metis mset_map mset_eq_imp_distinct_iff)
  then show ?thesis using join_entries_spec[OF assms(2), of "re_entries E b"] by (simp add: joinMaps_def)
qed

lemma join_includes_spec:
  assumes "shuffles (re_entries E)"
  shows "distinct (map fst acc) \<Longrightarrow>
    if (\<forall>a \<in> set incs. \<exists>es. load_steps E tid sid basepath a = Inr es) \<and>
       distinct (map fst (acc @ concat (map (steps_doc E tid sid basepath) incs)))
    then \<exists>r. join_includes E tid sid basepath incs acc = Inr r \<and>
      mset r = mset (acc @ concat (map (steps_doc E tid sid basepath) incs))
    else \<exists>err. join_includes E tid sid basepath incs acc = Inl err"
proof (induction incs arbitrary: acc)
  case (Cons a incs)
  show ?case
  proof (cases "load_steps E tid sid basepath a")
    case (Inr es)
    then have doc: "steps_doc E tid sid basepath a = es" by (simp add: steps_doc_def)
    let ?acc = "acc @ re_entries E es"
    have ms: "mset (acc @ re_entries E es @ ys) = mset (acc @ es @ ys)" for ys
      using assms by (simp add: shuffles_def)
    then have ds: "distinct (map fst (acc @ re_entries E es @ ys)) = distinct (map fst (acc @ es @ ys))" for ys
      by (metis mset_map mset_eq_imp_distinct_iff)
    show ?thesis
    proof (cases "distinct (map fst (acc @ es))")
      case True
      then have "joinMaps E acc es = Inr ?acc" using joinMaps_spec[OF assms Cons.prems, of es] by simp
      moreover have "distinct (map fst ?acc)" using ds[of "[]"] True by simp
      note Cons.IH[OF this]
      ultimately show ?thesis
        by (simp add: Inr doc ds ms del: map_append distinct_append mset_append cong: if_cong)
    next
      case False
      then obtain err where "joinMaps E acc es = Inl err"
        using joinMaps_spec[OF assms Cons.prems, of es] by (auto simp del: map_append distinct_append)
      moreover have "\<not> distinct (map fst (acc @ concat (map (steps_doc E tid sid basepath) (a # incs))))"
        using False doc by auto
      ultimately show ?thesis using Inr by (simp del: map_append distinct_append)
    qed
  qed simp
qed simp

lemma mark_requisites_fields:
  "map st_ID (mark_requisites steps) = map st_ID steps"
  "map st_Requisites (mark_requisites steps) = map st_Requisites steps"
  by (auto simp: mark_requisites_def Let_def)

lemma marked_graph:
  "closed_steps (mark_requisites steps) = closed_steps steps"
  "requires (mark_requisites steps) = requires steps"
proof -
  have "map (\<lambda>s. (st_ID s, st_Requisites s)) (mark_requisites steps) = map (\<lambda>s. (st_ID s, st_Requisites s)) steps"
    by (auto simp: mark_requisites_def Let_def)
  from arg_cong[OF this, of set]
  have same: "(\<lambda>s. (st_ID s, st_Requisites s)) ` set (mark_requisites steps) = (\<lambda>s. (st_ID s, st_Requisites s)) ` set steps"
    by simp
  have closed: "closed_steps xs = (\<forall>(i, q) \<in> (\<lambda>s. (st_ID s, st_Requisites s)) ` set xs.
      set (AllIDs q) \<subseteq> fst ` (\<lambda>s. (st_ID s, st_Requisites s)) ` set xs)" for xs
    by (auto simp: closed_steps_def reqs_of_def image_image)
  have "requires xs = {(r, i). \<exists>q. (i, q) \<in> (\<lambda>s. (st_ID s, st_Requisites s)) ` set xs \<and> r \<in> set (AllIDs q)}" for xs
    by (auto simp: requires_def)
  then show "requires (mark_requisites steps) = requires steps" by (simp add: same)
  show "closed_steps (mark_requisites steps) = closed_steps steps" by (simp add: closed same)
qed

lemma validateRecipeTree_spec:
  assumes "[] \<notin> set (map st_ID steps)" "length steps < n" "\<forall>s \<in> set steps. \<not> st_IsRequisite s"
  shows "if distinct (map st_ID steps) \<and> closed_steps steps \<and> acyclic (requires steps)
    then validateRecipeTree n steps = Some (Inr (mark_requisites steps))
    else \<exists>err. validateRecipeTree n steps = Some (Inl err)"
proof (cases "distinct (map st_ID steps) \<and> closed_steps steps \<and> acyclic (requires steps)")
  case True
  with ValidateTrees_spec[OF assms] obtain marked roots where ok: "ValidateTrees n steps = Some (TreeOk marked roots)" by auto
  then have "marked = mark_requisites steps"
    by (auto simp: ValidateTrees_def Let_def split: prod.splits bool.splits option.splits cycle_result.splits)
  with True ok show ?thesis by (simp add: validateRecipeTree_def)
next
  case False
  with ValidateTrees_spec[OF assms] show ?thesis by (auto simp: validateRecipeTree_def)
qed

lemma concat_docs_mset:
  "distinct names \<Longrightarrow> mset (concat (map f names)) = (\<Sum>a \<in> set names. mset (f a))"
  by (induction names) auto

lemma parsed_perm:
  assumes "map (parse_entry E) L = map Some steps" "mset L = mset L'"
  shows "\<exists>steps'. map (parse_entry E) L' = map Some steps' \<and> set steps' = set steps \<and>
    mset (map st_ID steps') = mset (map st_ID steps)"
proof -
  have some: "\<forall>e \<in> set L'. parse_entry E e = Some (the (parse_entry E e))"
    using assms by (metis (no_types, opaque_lifting) image_iff image_set mset_eq_setD option.sel)
  let ?steps = "map (the \<circ> parse_entry E) L'"
  have "map (parse_entry E) L' = map Some ?steps" using some by simp
  moreover have "map (the \<circ> parse_entry E) L = steps"
    using arg_cong[OF assms(1), of "map the"] by (simp add: comp_def)
  then have "mset ?steps = mset steps" using assms(2) by (metis mset_map)
  ultimately show ?thesis by (metis mset_eq_setD mset_map)
qed

lemma graph_of_set:
  "set steps = set steps' \<Longrightarrow> closed_steps steps = closed_steps steps' \<and> requires steps = requires steps'"
  by (simp add: closed_steps_def requires_def)

lemma meaning_perm:
  assumes "recipe_meaning E tid sid basepath R steps" "mset L = (\<Sum>a \<in> R. mset (steps_doc E tid sid basepath a))"
  shows "distinct (map fst L) \<and> (\<exists>unmarked. map (parse_entry E) L = map Some unmarked \<and>
    distinct (map st_ID unmarked) \<and> closed_steps unmarked \<and> acyclic (requires unmarked))"
proof -
  from assms(1) obtain L0 un where L0: "mset L0 = (\<Sum>a \<in> R. mset (steps_doc E tid sid basepath a))"
    "map (parse_entry E) L0 = map Some un" "distinct (map st_ID un)" "closed_steps un" "acyclic (requires un)"
    by (auto simp: recipe_meaning_def mark_requisites_fields marked_graph)
  obtain un' where un': "map (parse_entry E) L = map Some un'" "set un' = set un" "mset (map st_ID un') = mset (map st_ID un)"
    using parsed_perm[OF L0(2), of L] L0(1) assms(2) by auto
  have "distinct (map st_ID un')" using un'(3) L0(3) by (metis mset_eq_imp_distinct_iff)
  then show ?thesis using un' L0(4,5) graph_of_set[OF un'(2)] parsed_ids[OF un'(1)] by auto
qed

lemma parsed_steps_valid:
  assumes parsed: "map (parse_entry E) L = map Some steps"
    and L: "mset L = (\<Sum>a \<in> R. mset (steps_doc E tid sid basepath a))"
    and R: "\<forall>a \<in> R. (\<exists>incs. includes_of E tid sid basepath a = Inr incs) \<and> (\<exists>es. load_steps E tid sid basepath a = Inr es)"
    and n: "[] \<notin> fst ` set L" "length L < n"
  shows "\<exists>r. validateRecipeTree n steps = Some r \<and>
    (case r of Inl _ \<Rightarrow> \<not> (\<exists>s. recipe_meaning E tid sid basepath R s) | Inr s \<Rightarrow> recipe_meaning E tid sid basepath R s)"
proof -
  have ids: "map st_ID steps = map fst L" by (rule parsed_ids[OF parsed])
  have len: "length steps = length L" using arg_cong[OF ids, of length] by simp
  have fresh: "\<forall>s \<in> set steps. \<not> st_IsRequisite s"
  proof
    fix s assume "s \<in> set steps"
    then obtain e where "parse_entry E e = Some s" using parsed by (metis (no_types, lifting) image_iff image_set)
    then show "\<not> st_IsRequisite s" by (simp add: parse_entry_fields)
  qed
  have "[] \<notin> set (map st_ID steps)" using n(1) by (simp add: ids)
  note valid = validateRecipeTree_spec[OF this _ fresh, of n]
  show ?thesis
  proof (cases "distinct (map st_ID steps) \<and> closed_steps steps \<and> acyclic (requires steps)")
    case True
    then have "recipe_meaning E tid sid basepath R (mark_requisites steps)"
      using parsed L R by (auto simp: recipe_meaning_def mark_requisites_fields marked_graph)
    then show ?thesis using valid True len n(2) by auto
  next
    case False
    have "\<not> recipe_meaning E tid sid basepath R s" for s
    proof
      assume "recipe_meaning E tid sid basepath R s"
      from meaning_perm[OF this L] obtain un where un: "map Some steps = map Some un"
        "distinct (map st_ID un)" "closed_steps un" "acyclic (requires un)" using parsed by auto
      from un(1) have "steps = un" by (metis list.inj_map_strong option.inject)
      with un False show False by simp
    qed
    then show ?thesis using valid False len n(2) by auto
  qed
qed

lemma entries_resolve:
  assumes L: "mset L = (\<Sum>a \<in> R. mset (steps_doc E tid sid basepath a))"
    and R: "\<forall>a \<in> R. (\<exists>incs. includes_of E tid sid basepath a = Inr incs) \<and> (\<exists>es. load_steps E tid sid basepath a = Inr es)"
    and n: "[] \<notin> fst ` set L" "length L < n"
  shows "\<exists>r. (case check_directives L of
        Some err \<Rightarrow> Some (Inl err)
      | None \<Rightarrow> (case makeRecipeSteps E L of Inl err \<Rightarrow> Some (Inl err) | Inr steps \<Rightarrow> validateRecipeTree n steps)) = Some r \<and>
    (case r of Inl _ \<Rightarrow> \<not> (\<exists>s. recipe_meaning E tid sid basepath R s) | Inr s \<Rightarrow> recipe_meaning E tid sid basepath R s)"
proof (cases "makeRecipeSteps E L")
  case (Inr steps)
  then have parsed: "map (parse_entry E) L = map Some steps" by (simp add: makeRecipeSteps_Inr)
  with parsed_steps_valid[OF parsed L R n] check_directives_None[OF parsed] Inr show ?thesis by simp
next
  case (Inl err)
  have "\<not> recipe_meaning E tid sid basepath R s" for s
  proof
    assume "recipe_meaning E tid sid basepath R s"
    from meaning_perm[OF this L] obtain un where "map (parse_entry E) L = map Some un" by blast
    then show False using Inl makeRecipeSteps_Inr[of E L un] by simp
  qed
  then show ?thesis using Inl by (cases "check_directives L") auto
qed

lemma resolveRecipeSteps_spec:
  fixes E tid sid recipeID
  defines "basepath \<equiv> getBasePath E"
  defines "R \<equiv> included E tid sid basepath recipeID"
  assumes order: "shuffles (re_names E)" "shuffles (re_entries E)"
    and fuel: "finite R" "card R < n" "(\<Sum>a \<in> R. length (steps_doc E tid sid basepath a)) < n"
    and ids: "\<forall>a \<in> R. [] \<notin> fst ` set (steps_doc E tid sid basepath a)"
  shows "\<exists>r. resolveRecipeSteps n E tid sid recipeID = Some r \<and>
    (case r of Inl _ \<Rightarrow> \<not> (\<exists>s. recipe_meaning E tid sid basepath R s) | Inr s \<Rightarrow> recipe_meaning E tid sid basepath R s)"
proof -
  note collect = collectAllIncludes_spec[OF order(1), of tid sid basepath recipeID n, folded R_def, OF fuel(1,2)]
  from collect show ?thesis
  proof (elim disjE exE conjE bexE)
    fix a err assume a: "a \<in> R" "includes_of E tid sid basepath a = Inl err"
      "collectAllIncludes n E tid sid basepath recipeID = Some (Inl err)"
    then have "\<not> recipe_meaning E tid sid basepath R s" for s
      unfolding recipe_meaning_def by (metis sum.distinct(1))
    with a(3) show ?thesis by (simp add: resolveRecipeSteps_def basepath_def)
  next
    fix names assume names: "collectAllIncludes n E tid sid basepath recipeID = Some (Inr names)"
      "distinct names" "set names = R" "\<forall>a \<in> set names. \<exists>incs. includes_of E tid sid basepath a = Inr incs"
    let ?D = "concat (map (steps_doc E tid sid basepath) names)"
    have D: "mset ?D = (\<Sum>a \<in> R. mset (steps_doc E tid sid basepath a))"
      using concat_docs_mset[OF names(2)] names(3) by simp
    have join: "if (\<forall>a \<in> R. \<exists>es. load_steps E tid sid basepath a = Inr es) \<and> distinct (map fst ?D)
      then \<exists>r. join_includes E tid sid basepath names [] = Inr r \<and> mset r = mset ?D
      else \<exists>err. join_includes E tid sid basepath names [] = Inl err"
      using join_includes_spec[OF order(2), of "[]" names tid sid basepath] names(3) by (simp cong: if_cong)
    show ?thesis
    proof (cases "(\<forall>a \<in> R. \<exists>es. load_steps E tid sid basepath a = Inr es) \<and> distinct (map fst ?D)")
      case False
      then obtain err where "join_includes E tid sid basepath names [] = Inl err" using join unfolding if_not_P[OF False] by blast
      moreover have "\<not> recipe_meaning E tid sid basepath R s" for s
        using False meaning_perm[of E tid sid basepath R s, OF _ D] by (auto simp: recipe_meaning_def)
      ultimately show ?thesis using names(1) by (simp add: resolveRecipeSteps_def basepath_def)
    next
      case True
      then obtain r where r: "join_includes E tid sid basepath names [] = Inr r" "mset r = mset ?D"
        using join unfolding if_P[OF True] by blast
      let ?L = "re_entries E r"
      have L: "mset ?L = (\<Sum>a \<in> R. mset (steps_doc E tid sid basepath a))"
        using order(2) r(2) D by (simp add: shuffles_def)
      have R: "\<forall>a \<in> R. (\<exists>incs. includes_of E tid sid basepath a = Inr incs) \<and> (\<exists>es. load_steps E tid sid basepath a = Inr es)"
        using True names(3,4) by blast
      have "set ?L = set ?D" using L D by (metis mset_eq_setD)
      then have empty: "[] \<notin> fst ` set ?L" using ids names(3) by auto
      have "length ?L = size (\<Sum>a \<in> R. mset (steps_doc E tid sid basepath a))" by (metis L size_mset)
      then have len: "length ?L < n" using fuel(3) by (simp add: size_multiset_sum)
      from entries_resolve[OF L R empty len] show ?thesis
        using names(1) r(1) by (simp add: resolveRecipeSteps_def basepath_def)
    qed
  qed
qed

section \<open>A recipe of two files\<close>

definition demo_cmd :: "(string \<times> val) list \<Rightarrow> val" where
  "demo_cmd props = VMap [(''cmd.run'', VList (map (\<lambda>p. VMap [p]) props))]"

definition demo_env :: recipe_env where
  "demo_env = \<lparr>re_store = Some \<lparr>tbl_rows = [(''r/web.grlx'', ''W''), (''r/base/init.grlx'', ''B'')], tbl_up = True\<rparr>,
     re_envDir = [], re_RecipeDir = ''r'', re_render = (\<lambda>tid sid name content. Inr content),
     re_yaml = (\<lambda>b. if b = ''W''
       then Inr [(''include'', VList [VStr ''.base'']), (''steps'', VMap [(''site'',
         demo_cmd [(''name'', VStr ''true''), (''requisites'', VList [VMap [(''require'', VStr ''pkg'')]])])])]
       else Inr [(''steps'', VMap [(''pkg'', demo_cmd [(''cond'', VStr ''test -e x'')])])]),
     re_entries = rev, re_names = rev\<rparr>"

lemma demo_base: "getBasePath demo_env = ''r''"
  by (simp add: getBasePath_def demo_env_def)

lemma demo_orders: "shuffles (re_names demo_env)" "shuffles (re_entries demo_env)"
  by (simp_all add: shuffles_def demo_env_def)

lemma demo_includes:
  "includes_of demo_env tid sid ''r'' ''web'' = Inr [''base'']"
  "includes_of demo_env tid sid ''r'' ''base'' = Inr []"
  by code_simp+

lemma demo_included: "included demo_env tid sid ''r'' ''web'' = {''web'', ''base''}"
proof
  show "included demo_env tid sid ''r'' ''web'' \<subseteq> {''web'', ''base''}"
    by (rule included_least) (auto simp: demo_includes)
  have "(''web'', ''base'') \<in> include_rel demo_env tid sid ''r''" by (simp add: include_rel_def demo_includes)
  then show "{''web'', ''base''} \<subseteq> included demo_env tid sid ''r'' ''web''" by (auto simp: included_def)
qed

lemma demo_docs:
  "map fst (steps_doc demo_env tid sid ''r'' ''web'') = [''site'']"
  "map fst (steps_doc demo_env tid sid ''r'' ''base'') = [''pkg'']"
  by code_simp+

lemma demo_doc_keys:
  "length (steps_doc demo_env tid sid ''r'' ''web'') = 1" "fst ` set (steps_doc demo_env tid sid ''r'' ''web'') = {''site''}"
  "length (steps_doc demo_env tid sid ''r'' ''base'') = 1" "fst ` set (steps_doc demo_env tid sid ''r'' ''base'') = {''pkg''}"
  using arg_cong[OF demo_docs(1)[of tid sid], of length] arg_cong[OF demo_docs(1)[of tid sid], of set]
    arg_cong[OF demo_docs(2)[of tid sid], of length] arg_cong[OF demo_docs(2)[of tid sid], of set]
  by simp_all

section \<open>The properties\<close>

text \<open>
  The includes of a recipe are its transitive closure: with more fuel than
  there are recipes to reach, the collection returns, in whatever order Go visits the
  map; it lists every recipe reachable through includes once, or fails with the error
  of one of them.  It fails only when a reachable recipe cannot be read.
\<close>

theorem collectAllIncludes_exact:
  assumes "shuffles (re_names E)" "finite (included E tid sid basepath recipeID)"
    and "card (included E tid sid basepath recipeID) < n"
  shows "case collectAllIncludes n E tid sid basepath recipeID of
      None \<Rightarrow> False
    | Some (Inl err) \<Rightarrow> \<exists>a \<in> included E tid sid basepath recipeID. includes_of E tid sid basepath a = Inl err
    | Some (Inr names) \<Rightarrow> distinct names \<and> set names = included E tid sid basepath recipeID \<and>
        (\<forall>a \<in> set names. \<exists>incs. includes_of E tid sid basepath a = Inr incs)"
  using collectAllIncludes_spec[OF assms] by (elim disjE exE conjE bexE) auto

theorem collectAllIncludes_exact_witness:
  "\<exists>names. collectAllIncludes 3 demo_env ''t'' ''s'' ''r'' ''web'' = Some (Inr names) \<and> set names = {''web'', ''base''}"
proof -
  have "collectAllIncludes 3 demo_env ''t'' ''s'' ''r'' ''web'' = Some (Inr [''web'', ''base''])" by code_simp
  then show ?thesis
    using collectAllIncludes_exact[OF demo_orders(1), of "''t''" "''s''" "''r''" "''web''" 3] by (simp add: demo_included)
qed

text \<open>
  Property C12. Resolving a recipe whose includes reach finitely many files, none of which
  defines a step with an empty ID, returns: it either gives the recipe's meaning or fails
  because it has none.  (The fuel is larger than the number of files and of steps; with an
  empty step ID the search for a cycle need not end, see \<open>empty_id_search_diverges\<close>, and a
  rendered file may include ever new names.)
  The meaning is: every included file can be read, the steps are exactly the entries of
  all files, each read as a step, no two entries share an ID, every requisite names a
  step, and the requisites have no cycle.
\<close>

theorem resolveRecipeSteps_exact:
  assumes "shuffles (re_names E)" "shuffles (re_entries E)"
    and "finite (included E tid sid (getBasePath E) recipeID)" "card (included E tid sid (getBasePath E) recipeID) < n"
    and "(\<Sum>a \<in> included E tid sid (getBasePath E) recipeID. length (steps_doc E tid sid (getBasePath E) a)) < n"
    and "\<forall>a \<in> included E tid sid (getBasePath E) recipeID. [] \<notin> fst ` set (steps_doc E tid sid (getBasePath E) a)"
  shows "case resolveRecipeSteps n E tid sid recipeID of
      None \<Rightarrow> False
    | Some (Inl err) \<Rightarrow> \<not> (\<exists>steps. recipe_meaning E tid sid (getBasePath E) (included E tid sid (getBasePath E) recipeID) steps)
    | Some (Inr steps) \<Rightarrow> recipe_meaning E tid sid (getBasePath E) (included E tid sid (getBasePath E) recipeID) steps"
proof -
  obtain r where r: "resolveRecipeSteps n E tid sid recipeID = Some r"
    "case r of Inl _ \<Rightarrow> \<not> (\<exists>s. recipe_meaning E tid sid (getBasePath E) (included E tid sid (getBasePath E) recipeID) s)
     | Inr s \<Rightarrow> recipe_meaning E tid sid (getBasePath E) (included E tid sid (getBasePath E) recipeID) s"
    using resolveRecipeSteps_spec[OF assms] by blast
  then show ?thesis by (cases r) simp_all
qed

theorem resolveRecipeSteps_exact_witness:
  "\<exists>steps. resolveRecipeSteps 3 demo_env ''t'' ''s'' ''web'' = Some (Inr steps) \<and> map st_ID steps = [''pkg'', ''site''] \<and>
     recipe_meaning demo_env ''t'' ''s'' ''r'' {''web'', ''base''} steps"
proof -
  have fuel: "finite {''web'', ''base''}" "card {''web'', ''base''} < 3"
    "(\<Sum>a \<in> {''web'', ''base''}. length (steps_doc demo_env ''t'' ''s'' ''r'' a)) < 3"
    "\<forall>a \<in> {''web'', ''base''}. [] \<notin> fst ` set (steps_doc demo_env ''t'' ''s'' ''r'' a)"
    by (simp_all add: demo_doc_keys)
  have "case resolveRecipeSteps 3 demo_env ''t'' ''s'' ''web'' of
      Some (Inr steps) \<Rightarrow> map st_ID steps = [''pkg'', ''site''] | _ \<Rightarrow> False"
    by code_simp
  then obtain steps where steps: "resolveRecipeSteps 3 demo_env ''t'' ''s'' ''web'' = Some (Inr steps)" "map st_ID steps = [''pkg'', ''site'']"
    by (auto split: option.splits sum.splits)
  have "recipe_meaning demo_env ''t'' ''s'' ''r'' {''web'', ''base''} steps"
    using resolveRecipeSteps_exact[OF demo_orders, of "''t''" "''s''" "''web''" 3,
        unfolded demo_base demo_included steps(1) option.case sum.case, OF fuel] .
  with steps show ?thesis by (intro exI[of _ steps] conjI)
qed

section \<open>Writing a step down and reading it back\<close>

text \<open>A step as a recipe file lists it: one property per entry, the special keys after the others.\<close>

definition print_props :: "(string \<times> val) list \<Rightarrow> val" where
  "print_props ps = VList (map (\<lambda>p. VMap [p]) ps)"

definition print_directive :: "string \<times> string \<times> (string \<times> val) list \<Rightarrow> string \<times> val" where
  "print_directive = (\<lambda>(ingredient, meth, ps). (ingredient @ ''.'' @ meth, print_props ps))"

definition print_requisites :: "Requisite list \<Rightarrow> val" where
  "print_requisites reqs = VList (map (\<lambda>q. VMap [(Condition q, VList (map VStr (StepIDs q)))]) reqs)"

definition special_props ::
  "Requisite list \<Rightarrow> Cond option \<Rightarrow> Register option \<Rightarrow> (string \<times> string) list \<Rightarrow>
   (string \<times> string \<times> (string \<times> val) list) list \<Rightarrow> (string \<times> val) list" where
  "special_props reqs cond register secrets exits =
     [(''requisites'', print_requisites reqs)] @
     (case cond of None \<Rightarrow> [] | Some c \<Rightarrow> [(''cond'', VStr (cond_Test c)), (''cond_negate'', VBool (cond_Negate c))]) @
     (case register of None \<Rightarrow> []
      | Some r \<Rightarrow> [(''register'', VMap [(''name'', VStr (reg_Name r)), (''sensitive'', VBool (reg_Sensitive r))])]) @
     [(''secrets'', VMap (map (\<lambda>(k, v). (k, VStr v)) secrets)),
      (''on_exit'', VList (map (\<lambda>x. VMap [print_directive x]) exits))]"

definition special_keys :: "string set" where
  "special_keys = {''requisites'', ''cond'', ''cond_negate'', ''register'', ''secrets'', ''on_exit''}"

definition directive_ok :: "string \<times> string \<times> (string \<times> val) list \<Rightarrow> bool" where
  "directive_ok = (\<lambda>(ingredient, meth, ps).
     CHR ''.'' \<notin> set ingredient \<and> CHR ''.'' \<notin> set meth \<and> distinct (map fst ps))"

fun number_exits :: "string \<Rightarrow> nat \<Rightarrow> (string \<times> string \<times> (string \<times> val) list) list \<Rightarrow> exit_step list" where
  "number_exits i j [] = []"
| "number_exits i j ((ingredient, meth, ps) # xs) =
     \<lparr>st_Ingredient = ingredient, st_Method = meth, st_ID = i @ ''-on_exit-'' @ show_int (int j),
      st_Properties = ps, st_Register = None, st_Secrets = []\<rparr> # number_exits i (Suc j) xs"

lemma update_new: "k \<notin> fst ` set m \<Longrightarrow> AList.update k v m = m @ [(k, v)]"
  by (induction m) auto

lemma merge_print_props:
  "distinct (map fst (m @ ps)) \<Longrightarrow> merge_props (map (\<lambda>p. VMap [p]) ps) m = Some (m @ ps)"
proof (induction ps arbitrary: m)
  case (Cons p ps)
  obtain k v where p: "p = (k, v)" by (cases p)
  then have "AList.update k v m = m @ [(k, v)]" using Cons.prems by (intro update_new) auto
  then show ?case using Cons.IH[of "m @ [(k, v)]"] Cons.prems by (simp add: p)
qed simp

lemma directive_print:
  assumes "directive_ok (ingredient, meth, ps)"
  shows "directive (ingredient @ ''.'' @ meth) (print_props ps) = Inr (ingredient, meth, ps)"
  using assms merge_print_props[of "[]" ps]
  by (simp add: directive_ok_def print_props_def Split_append_sep Split_no_sep)

lemma on_exit_print:
  "\<forall>x \<in> set xs. directive_ok x \<Longrightarrow>
   on_exit_steps i j (map (\<lambda>x. VMap [print_directive x]) xs) = Inr (number_exits i j xs)"
proof (induction xs arbitrary: j)
  case (Cons x xs)
  obtain ing meth ps where x: "x = (ing, meth, ps)" by (cases x)
  have "directive (ing @ ''.'' @ meth) (print_props ps) = Inr (ing, meth, ps)"
    using Cons.prems by (intro directive_print) (simp add: x)
  then show ?case using Cons.IH[of "Suc j"] Cons.prems by (simp add: x print_directive_def del: directive.simps)
qed simp

lemma strings_of_VStr [simp]: "strings_of (map VStr ss) = Some ss"
  by (induction ss) auto

lemma shuffles_single: "shuffles f \<Longrightarrow> f [x] = [x]"
  unfolding shuffles_def by (metis mset_single_iff_right mset.simps add_mset_add_single empty_neutral(1))

lemma requisites_print:
  assumes "shuffles (re_entries E)"
  shows "\<forall>q \<in> set reqs. Condition q \<in> set reqTypes \<Longrightarrow>
    requisite_maps E (map (\<lambda>q. VMap [(Condition q, VList (map VStr (StepIDs q)))]) reqs) = Inr reqs"
  by (induction reqs) (simp_all add: shuffles_single[OF assms] deInterfaceRequisites_def)

lemma secret_entries_Inr:
  "\<forall>(k, v) \<in> set kvs. \<exists>s. v = VStr s \<and> s \<noteq> [] \<Longrightarrow> secret_entries kvs = Inr (map (\<lambda>(k, v). (k, as_string (Some v))) kvs)"
  by (induction kvs) (auto simp: split_beta)

lemma secrets_print:
  assumes "shuffles (re_entries E)" "\<forall>(k, v) \<in> set secrets. v \<noteq> []"
  shows "\<exists>out. secret_entries (re_entries E (map (\<lambda>(k, v). (k, VStr v)) secrets)) = Inr out \<and> mset out = mset secrets"
proof -
  let ?kvs = "re_entries E (map (\<lambda>(k, v). (k, VStr v)) secrets)"
  have ms: "mset ?kvs = mset (map (\<lambda>(k, v). (k, VStr v)) secrets)" using assms(1) by (simp add: shuffles_def)
  have ok: "\<forall>(k, v) \<in> set ?kvs. \<exists>s. v = VStr s \<and> s \<noteq> []" using mset_eq_setD[OF ms] assms(2) by fastforce
  have "image_mset (\<lambda>(k, v). (k, as_string (Some v))) (mset ?kvs) = mset secrets"
    unfolding ms by (simp add: image_mset.compositionality comp_def split_def)
  then show ?thesis
    by (intro exI[of _ "map (\<lambda>(k, v). (k, as_string (Some v))) ?kvs"] conjI secret_entries_Inr[OF ok]) simp
qed

lemma special_props_lookup:
  "map_of (special_props reqs cond register secrets exits) ''requisites'' = Some (print_requisites reqs)"
  "map_of (special_props reqs cond register secrets exits) ''cond'' = map_option (VStr \<circ> cond_Test) cond"
  "map_of (special_props reqs cond register secrets exits) ''cond_negate'' = map_option (VBool \<circ> cond_Negate) cond"
  "map_of (special_props reqs cond register secrets exits) ''register'' =
     map_option (\<lambda>r. VMap [(''name'', VStr (reg_Name r)), (''sensitive'', VBool (reg_Sensitive r))]) register"
  "map_of (special_props reqs cond register secrets exits) ''secrets'' = Some (VMap (map (\<lambda>(k, v). (k, VStr v)) secrets))"
  "map_of (special_props reqs cond register secrets exits) ''on_exit'' = Some (VList (map (\<lambda>x. VMap [print_directive x]) exits))"
  by (auto simp: special_props_def split: option.splits)

lemma special_props_keys:
  "fst ` set (special_props reqs cond register secrets exits) \<subseteq> special_keys"
  "distinct (map fst (special_props reqs cond register secrets exits))"
  by (auto simp: special_props_def special_keys_def split: option.splits)

text \<open>
  Property C34. A step written down as a recipe entry reads back as that step: its
  ingredient and function, properties, requisites, condition, register, secrets and
  \<open>on_exit\<close> steps, the latter numbered under the step's ID.  The properties keep the
  special keys too, since the code does not take them out.
\<close>

theorem recipe_entry_reads_back:
  assumes order: "shuffles (re_entries E)"
    and ok: "directive_ok (ingredient, meth, ps)" "\<forall>x \<in> set exits. directive_ok x" "fst ` set ps \<inter> special_keys = {}"
    and fields: "\<forall>q \<in> set reqs. Condition q \<in> set reqTypes" "\<forall>c. cond = Some c \<longrightarrow> cond_Test c \<noteq> []"
      "\<forall>r. register = Some r \<longrightarrow> reg_Name r \<noteq> []" "\<forall>(k, v) \<in> set secrets. v \<noteq> []"
  shows "\<exists>secrets'. mset secrets' = mset secrets \<and>
    recipeToStep E i [print_directive (ingredient, meth, ps @ special_props reqs cond register secrets exits)] =
      Inr \<lparr>st_Ingredient = ingredient, st_Method = meth, st_ID = i,
        st_Properties = ps @ special_props reqs cond register secrets exits, st_Register = register,
        st_Secrets = secrets', st_Requisites = reqs, st_IsRequisite = False, st_Cond = cond,
        st_OnExit = number_exits i 0 exits\<rparr>"
proof -
  let ?sp = "special_props reqs cond register secrets exits"
  let ?m = "ps @ ?sp"
  have look: "map_of ?m k = map_of ?sp k" if "k \<in> special_keys" for k
    using that ok(3) by (auto simp: map_add_def split: option.splits dest!: map_of_SomeD)
  have keys: "''requisites'' \<in> special_keys" "''cond'' \<in> special_keys" "''cond_negate'' \<in> special_keys"
    "''register'' \<in> special_keys" "''secrets'' \<in> special_keys" "''on_exit'' \<in> special_keys"
    by (simp_all add: special_keys_def)
  note look = keys[THEN look] special_props_lookup
  have "directive_ok (ingredient, meth, ?m)"
    using ok(1,3) special_props_keys[of reqs cond register secrets exits] by (auto simp: directive_ok_def)
  note dir = directive_print[OF this, unfolded append_Cons append_Nil]
  have "extractRequisites E ?m = Inr reqs"
    using requisites_print[OF order fields(1)] by (simp only: extractRequisites_def look print_requisites_def option.case val.case)
  moreover have "extractCond ?m = Inr cond"
    unfolding extractCond_def look using fields(2) by (cases cond) simp_all
  moreover have "extractRegister ?m = Inr register"
    unfolding extractRegister_def look using fields(3) by (cases register) simp_all
  moreover obtain out where "extractSecrets E ?m = Inr out" "mset out = mset secrets"
    using secrets_print[OF order fields(4)] by (auto simp: extractSecrets_def look simp del: map_of_append)
  moreover have "extractOnExit i ?m = Inr (number_exits i 0 exits)"
    using on_exit_print[OF ok(2)] by (simp add: extractOnExit_def look del: map_of_append)
  ultimately show ?thesis
    by (intro exI[of _ out]) (simp add: recipeToStep_def print_directive_def dir del: directive.simps)
qed

theorem recipe_entry_reads_back_witness:
  "\<exists>secrets'. mset secrets' = {#(''PW'', ''sdb://pw'')#} \<and>
    recipeToStep demo_env ''web'' [print_directive (''file'', ''managed'', [(''name'', VStr ''/etc/x'')] @
      special_props [\<lparr>Condition = Require, StepIDs = [''a'', ''b'']\<rparr>] None (Some \<lparr>reg_Name = ''OUT'', reg_Sensitive = True\<rparr>)
        [(''PW'', ''sdb://pw'')] [(''cmd'', ''run'', [(''name'', VStr ''true'')])])] =
      Inr \<lparr>st_Ingredient = ''file'', st_Method = ''managed'', st_ID = ''web'',
        st_Properties = [(''name'', VStr ''/etc/x'')] @
          special_props [\<lparr>Condition = Require, StepIDs = [''a'', ''b'']\<rparr>] None (Some \<lparr>reg_Name = ''OUT'', reg_Sensitive = True\<rparr>)
            [(''PW'', ''sdb://pw'')] [(''cmd'', ''run'', [(''name'', VStr ''true'')])],
        st_Register = Some \<lparr>reg_Name = ''OUT'', reg_Sensitive = True\<rparr>, st_Secrets = secrets',
        st_Requisites = [\<lparr>Condition = Require, StepIDs = [''a'', ''b'']\<rparr>], st_IsRequisite = False, st_Cond = None,
        st_OnExit = number_exits ''web'' 0 [(''cmd'', ''run'', [(''name'', VStr ''true'')])]\<rparr>"
  using recipe_entry_reads_back[OF demo_orders(2), of "''file''" "''managed''" "[(''name'', VStr ''/etc/x'')]"
      "[(''cmd'', ''run'', [(''name'', VStr ''true'')])]" "[\<lparr>Condition = Require, StepIDs = [''a'', ''b'']\<rparr>]" None
      "Some \<lparr>reg_Name = ''OUT'', reg_Sensitive = True\<rparr>" "[(''PW'', ''sdb://pw'')]" "''web''"]
  by (simp add: directive_ok_def special_keys_def reqTypes_def)

section \<open>Where a name leads\<close>

lemma ReplaceAll_dot_free: "CHR ''.'' \<notin> set (ReplaceAll s ''.'' ''/'')"
  by (induction s "''.''" "''/''" rule: ReplaceAll.induct) (auto simp: prefix_def)

lemma existing_Inr: "existing E key = Inr k \<Longrightarrow> k = key"
  by (auto simp: existing_def split: sum.splits if_splits)

lemma resolved_key:
  assumes "ResolveRecipeFilePath E basepath recipeID = Inr key"
  shows "\<exists>d. CHR ''.'' \<notin> set d \<and> (key = d @ ''.grlx'' \<or> key = d @ ''init.grlx'')"
proof -
  let ?path = "FJoin [Clean basepath, TrimPrefix (Clean recipeID) (Clean basepath)]"
  let ?dir = "ReplaceAll ?path ''.'' ''/''"
  have "(\<exists>s. key = ReplaceAll s ''.'' ''/'' @ ''.grlx'') \<or> key = FJoin [?dir, ''init.grlx'']"
    using assms by (auto simp: ResolveRecipeFilePath_def Let_def dotExt_def GrlxExt_def dest!: existing_Inr
        split: if_splits sum.splits)
  then show ?thesis
  proof
    assume key: "key = FJoin [?dir, ''init.grlx'']"
    show ?thesis
    proof (cases "?dir = []")
      case True
      then have "key = Clean ''init.grlx''" by (simp add: key FJoin_def)
      also have "\<dots> = ''init.grlx''" by code_simp
      finally show ?thesis by (intro exI[of _ "[]"]) simp
    next
      case False
      then have "key = Clean (?dir @ CHR ''/'' # ''init.grlx'')" by (simp add: key FJoin_def)
      with Clean_append_file[of ?dir "''init.grlx''"] ReplaceAll_dot_free[of ?path] show ?thesis by auto
    qed
  qed (use ReplaceAll_dot_free in blast)
qed

text \<open>
  A base path with a dot in it hides every recipe under it: the dots of the
  whole path become separators, so no name leads to an object stored there.
\<close>

theorem dotted_base_path_unreachable:
  assumes "CHR ''.'' \<in> set (Clean basepath)" "HasPrefix key (Clean basepath @ ''/'')"
  shows "ResolveRecipeFilePath E basepath recipeID \<noteq> Inr key"
proof
  assume "ResolveRecipeFilePath E basepath recipeID = Inr key"
  from resolved_key[OF this] obtain d e where d: "CHR ''.'' \<notin> set d" "key = d @ e" "CHR ''/'' \<notin> set e"
    by (elim exE conjE disjE) (force+)
  obtain u v where "Clean basepath = u @ CHR ''.'' # v" using assms(1) by (meson split_list)
  with assms(2) obtain w where w: "key = u @ CHR ''.'' # v @ CHR ''/'' # w"
    by (auto simp: HasPrefix_def prefix_def)
  have "length u \<ge> length d"
  proof (rule ccontr)
    assume "\<not> ?thesis"
    then have "d ! length u = key ! length u" by (simp add: d(2) nth_append)
    also have "\<dots> = CHR ''.''" by (simp add: w)
    finally show False using d(1) \<open>\<not> length u \<ge> length d\<close> by (metis not_le nth_mem)
  qed
  then have "drop (length d) key = drop (length d) u @ CHR ''.'' # v @ CHR ''/'' # w" by (simp add: w)
  then have "CHR ''/'' \<in> set (drop (length d) key)" by simp
  then show False using d by simp
qed

definition tagged_env :: recipe_env where
  "tagged_env = demo_env\<lparr>re_store := Some \<lparr>tbl_rows = [(''v1.2/web.grlx'', ''W'')], tbl_up = True\<rparr>, re_envDir := ''v1.2''\<rparr>"

theorem dotted_base_path_unreachable_witness:
  "recipeExists tagged_env ''v1.2/web.grlx'' = Inr True \<and>
   ResolveRecipeFilePath tagged_env (getBasePath tagged_env) ''web'' \<noteq> Inr ''v1.2/web.grlx''"
proof -
  have "recipeExists tagged_env ''v1.2/web.grlx'' = Inr True" "CHR ''.'' \<in> set (Clean (getBasePath tagged_env))"
    "HasPrefix ''v1.2/web.grlx'' (Clean (getBasePath tagged_env) @ ''/'')"
    by code_simp+
  then show ?thesis using dotted_base_path_unreachable by simp
qed

text \<open>
  The base path is cut off a name as a string, not as a path: a name that starts with
  the base path's letters is taken for the rest of it.
\<close>

lemma base_path_letters_cut_off:
  assumes "Clean basepath = basepath" "Clean name = name" "Clean (basepath @ name) = basepath @ name" "\<not> prefix basepath name"
  shows "ResolveRecipeFilePath E basepath (basepath @ name) = ResolveRecipeFilePath E basepath name"
  using assms by (simp add: ResolveRecipeFilePath_def TrimPrefix_def)

lemma base_path_letters_cut_off_demo: "ResolveRecipeFilePath demo_env ''r'' ''rweb'' = Inr ''r/web.grlx''"
  by code_simp

section \<open>What is sent\<close>

lemma pruned_graph:
  assumes "distinct (map st_ID steps)" "closed_steps steps" "acyclic (requires steps)" "PruneToTarget steps target = Inr pruned"
  shows "distinct (map st_ID pruned) \<and> closed_steps pruned \<and> acyclic (requires pruned)"
proof -
  from PruneToTarget_spec[OF assms(1,2), of target] assms(4)
  have pruned: "closed_steps pruned" "pruned = filter (\<lambda>s. (st_ID s, target) \<in> (requires steps)\<^sup>*) steps" by auto
  then have "requires pruned \<subseteq> requires steps" by (auto simp: requires_def)
  then have "acyclic (requires pruned)" using assms(3) acyclic_subset by blast
  then show ?thesis using pruned assms(1) by (simp add: distinct_map_filter)
qed

lemma SendCookEvent_envelope:
  assumes "shuffles (re_names E)" "shuffles (re_entries E)"
    and "finite (included E tid sid (getBasePath E) recipeID)" "card (included E tid sid (getBasePath E) recipeID) < n"
    and "(\<Sum>a \<in> included E tid sid (getBasePath E) recipeID. length (steps_doc E tid sid (getBasePath E) a)) < n"
    and "\<forall>a \<in> included E tid sid (getBasePath E) recipeID. [] \<notin> fst ` set (steps_doc E tid sid (getBasePath E) a)"
    and sent: "SendCookEvent n E bus tid sid recipeID JID test invokedBy target = Some (Some (c, subject, e), err)"
  shows "distinct (map st_ID (env_Steps e)) \<and> closed_steps (env_Steps e) \<and> acyclic (requires (env_Steps e)) \<and> env_JobID e = JID"
proof -
  from sent obtain steps where steps: "resolveRecipeSteps n E tid sid recipeID = Some (Inr steps)"
      "(if target \<noteq> [] then PruneToTarget steps target else Inr steps) = Inr (env_Steps e)" "env_JobID e = JID"
    by (auto simp: SendCookEvent_def sendEnvelope_def Let_def split: option.splits sum.splits if_splits)
  from resolveRecipeSteps_spec[OF assms(1-6)] steps(1)
  have "recipe_meaning E tid sid (getBasePath E) (included E tid sid (getBasePath E) recipeID) steps" by auto
  then have "distinct (map st_ID steps)" "closed_steps steps" "acyclic (requires steps)" by (auto simp: recipe_meaning_def)
  then show ?thesis using pruned_graph[of steps target "env_Steps e"] steps(2,3) by (auto split: if_splits)
qed

end
