(* ===== verification/Cook_Engine.thy ===== *)
theory Cook_Engine
  imports Cook_Types
begin

text \<open>
  The sprout's cook engine (\<open>internal/cook/sproutcook.go\<close>): the evaluation of a
  step's requisites, and the loop of \<open>CookRecipeEnvelope\<close> as a transition system.
  A step's goroutine is a token in flight that delivers one completion, whose
  content (what the condition, the ingredient and the clean-up did) is chosen by
  the environment; the loop receives completions from the channel, publishes
  them, and starts every step whose requisites are met, visiting the completion
  map in an arbitrary order as Go does.
\<close>

section \<open>Requisites\<close>

datatype req_result = Met | Unmet | ReqError string

type_synonym completion_map = "StepID \<Rightarrow> StepCompletion option"

text \<open>An absent key reads as the zero completion.\<close>

definition status_of :: "completion_map \<Rightarrow> StepID \<Rightarrow> CompletionStatus" where
  "status_of m i = (case m i of None \<Rightarrow> StepNotStarted | Some c \<Rightarrow> sc_Status c)"

definition changes_of :: "completion_map \<Rightarrow> StepID \<Rightarrow> bool" where
  "changes_of m i = (case m i of None \<Rightarrow> False | Some c \<Rightarrow> sc_ChangesMade c)"

definition ended :: "completion_map \<Rightarrow> StepID \<Rightarrow> bool" where
  "ended m i = (status_of m i = StepCompleted \<or> status_of m i = StepFailed)"

text \<open>The message of an impossible requisite: two joined errors, one per line.\<close>

definition not_met :: "string \<Rightarrow> string" where
  "not_met detail = ''requisite not met'' @ [CHR 0x0A] @ detail"

definition requirement_of :: "ReqType \<Rightarrow> string \<Rightarrow> string" where
  "requirement_of cond req = cond @ '' requirement of '' @ req @ '' not met''"

text \<open>The three loops whose requisites must all hold: an impossible one is an error at once.\<close>

fun all_loop ::
  "ReqType \<Rightarrow> (StepID \<Rightarrow> bool) \<Rightarrow> (StepID \<Rightarrow> bool) \<Rightarrow> StepID list \<Rightarrow> bool \<Rightarrow> req_result" where
  "all_loop cond impossible pending [] unmet = (if unmet then Unmet else Met)"
| "all_loop cond impossible pending (req # reqs) unmet =
     (if impossible req then ReqError (not_met (requirement_of cond req))
      else all_loop cond impossible pending reqs (unmet \<or> pending req))"

text \<open>The three loops of which one requisite is enough.\<close>

definition any_loop ::
  "ReqType \<Rightarrow> (StepID \<Rightarrow> bool) \<Rightarrow> (StepID \<Rightarrow> bool) \<Rightarrow> StepID list \<Rightarrow> req_result" where
  "any_loop cond satisfied pending reqs =
     (let met = list_ex satisfied reqs; pendingRemaining = list_ex (\<lambda>r. \<not> satisfied r \<and> pending r) reqs in
      if \<not> pendingRemaining \<and> \<not> met then ReqError (not_met (requirement_of cond ''any''))
      else if \<not> met then Unmet else Met)"

definition check_requisite :: "completion_map \<Rightarrow> Requisite \<Rightarrow> req_result" where
  "check_requisite m q =
     (if Condition q = OnChanges then
        all_loop OnChanges (\<lambda>r. ended m r \<and> \<not> changes_of m r) (\<lambda>r. \<not> ended m r) (StepIDs q) False
      else if Condition q = OnFail then
        all_loop OnFail (\<lambda>r. status_of m r = StepCompleted)
          (\<lambda>r. status_of m r \<noteq> StepCompleted \<and> status_of m r \<noteq> StepFailed) (StepIDs q) False
      else if Condition q = Require then
        all_loop Require (\<lambda>r. status_of m r = StepFailed)
          (\<lambda>r. status_of m r \<noteq> StepFailed \<and> status_of m r \<noteq> StepCompleted) (StepIDs q) False
      else if Condition q = OnChangesAny then
        any_loop OnChangesAny (\<lambda>r. ended m r \<and> changes_of m r) (\<lambda>r. \<not> ended m r) (StepIDs q)
      else if Condition q = OnFailAny then
        any_loop OnFailAny (\<lambda>r. status_of m r = StepFailed) (\<lambda>r. status_of m r \<noteq> StepCompleted) (StepIDs q)
      else if Condition q = RequireAny then
        any_loop RequireAny (\<lambda>r. status_of m r = StepCompleted) (\<lambda>r. status_of m r \<noteq> StepFailed) (StepIDs q)
      else ReqError (not_met (''unknown requisite condition '' @ Condition q)))"

text \<open>The loop over the requisite sets: the first impossible one ends it, an unmet one is remembered.\<close>

fun requisites_loop :: "completion_map \<Rightarrow> Requisite list \<Rightarrow> bool \<Rightarrow> req_result" where
  "requisites_loop m [] unmet = (if unmet then Unmet else Met)"
| "requisites_loop m (q # qs) unmet =
     (case check_requisite m q of
        ReqError err \<Rightarrow> ReqError err
      | Unmet \<Rightarrow> requisites_loop m qs True
      | Met \<Rightarrow> requisites_loop m qs unmet)"

definition RequisitesAreMet :: "Step \<Rightarrow> completion_map \<Rightarrow> req_result" where
  "RequisitesAreMet step m =
     (if st_Requisites step = [] then Met else requisites_loop m (st_Requisites step) False)"

section \<open>The engine\<close>

datatype run_result = RunOk | RunTimeout

text \<open>
  \<open>es_running\<close> are the steps whose goroutine runs, \<open>es_failing\<close> those whose
  goroutine only delivers a requisite error, \<open>es_chan\<close> the buffered completion channel.
  \<open>es_received\<close> is every completion taken from the channel, in order, each of which is
  published on the bus and appended to the job log; \<open>es_final\<close> the message published on
  return.  \<open>es_started\<close> remembers the steps that were started.
\<close>

record engine =
  es_map :: completion_map
  es_chan :: "StepCompletion list"
  es_running :: "StepID list"
  es_failing :: "(StepID \<times> string) list"
  es_received :: "StepCompletion list"
  es_started :: "StepID list"
  es_final :: "StepCompletion option"
  es_result :: "run_result option"

definition zero_completion :: "StepID \<Rightarrow> CompletionStatus \<Rightarrow> StepCompletion" where
  "zero_completion i s = \<lparr>sc_ID = i, sc_Status = s, sc_ChangesMade = False, sc_Changes = [], sc_Started = 0,
     sc_Duration = 0, sc_Error = None\<rparr>"

definition start_id :: "RecipeEnvelope \<Rightarrow> StepID" where "start_id e = ''start-'' @ env_JobID e"

definition step_ids :: "RecipeEnvelope \<Rightarrow> StepID list" where "step_ids e = map st_ID (env_Steps e)"

text \<open>\<open>stepMap\<close>: a later step with the same ID replaces an earlier one.\<close>

definition stepMap :: "RecipeEnvelope \<Rightarrow> StepID \<Rightarrow> Step option" where
  "stepMap e = map_of (rev (map (\<lambda>s. (st_ID s, s)) (env_Steps e)))"

definition initial :: "RecipeEnvelope \<Rightarrow> engine" where
  "initial e = \<lparr>
     es_map = (\<lambda>i. if i \<in> set (step_ids e) then Some (zero_completion i StepNotStarted) else None),
     es_chan = [zero_completion (start_id e) StepCompleted], es_running = [], es_failing = [],
     es_received = [], es_started = [], es_final = None, es_result = None\<rparr>"

text \<open>
  One iteration over the completion map.  An entry that has not started is always a
  step's, so the second case is never one.
\<close>

definition visit :: "RecipeEnvelope \<Rightarrow> engine \<Rightarrow> StepID \<Rightarrow> engine" where
  "visit e st i =
     (case (es_map st i, stepMap e i) of
        (Some entry, Some step) \<Rightarrow>
          if sc_Status entry \<noteq> StepNotStarted then st
          else (case RequisitesAreMet step (es_map st) of
                  ReqError err \<Rightarrow> st\<lparr>es_map := (es_map st)(i \<mapsto> entry\<lparr>sc_Status := StepFailed\<rparr>),
                                    es_failing := es_failing st @ [(i, err)]\<rparr>
                | Unmet \<Rightarrow> st
                | Met \<Rightarrow> st\<lparr>es_map := (es_map st)(i \<mapsto> entry\<lparr>sc_Status := StepInProgress\<rparr>),
                           es_running := es_running st @ [i], es_started := es_started st @ [i]\<rparr>)
      | _ \<Rightarrow> st)"

definition scan :: "RecipeEnvelope \<Rightarrow> StepID list \<Rightarrow> engine \<Rightarrow> engine" where
  "scan e order st = foldl (visit e) st order"

definition expected :: "RecipeEnvelope \<Rightarrow> nat" where "expected e = length (env_Steps e) + 1"

text \<open>Taking a completion from the channel: it is published, counted, logged and recorded.\<close>

definition take_completion :: "StepCompletion \<Rightarrow> engine \<Rightarrow> engine" where
  "take_completion c st = st\<lparr>es_received := es_received st @ [c], es_map := (es_map st)(sc_ID c \<mapsto> c)\<rparr>"

text \<open>The end of the receive case: return once every step and the seeded start have reported.\<close>

definition finish :: "RecipeEnvelope \<Rightarrow> engine \<Rightarrow> engine" where
  "finish e st =
     (if length (es_received st) \<ge> expected e
      then st\<lparr>es_final := Some (zero_completion (''completed-'' @ env_JobID e) StepCompleted), es_result := Some RunOk\<rparr>
      else st)"

definition receive :: "RecipeEnvelope \<Rightarrow> StepID list \<Rightarrow> StepCompletion \<Rightarrow> engine \<Rightarrow> engine" where
  "receive e order c st = finish e (scan e order (take_completion c st))"

definition time_out :: "RecipeEnvelope \<Rightarrow> engine \<Rightarrow> engine" where
  "time_out e st = st\<lparr>es_final := Some ((zero_completion (''timeout-'' @ env_JobID e) StepFailed)
       \<lparr>sc_Error := Some ''recipe cooking timed out''\<rparr>), es_result := Some RunTimeout\<rparr>"

text \<open>A step goroutine reports completed, failed or skipped, under its own ID.\<close>

definition step_outcome :: "StepID \<Rightarrow> StepCompletion \<Rightarrow> bool" where
  "step_outcome i c = (sc_ID c = i \<and> sc_Status c \<in> {StepCompleted, StepFailed, StepSkipped})"

definition failed_completion :: "StepID \<Rightarrow> string \<Rightarrow> StepCompletion" where
  "failed_completion i err = (zero_completion i StepFailed)\<lparr>sc_Error := Some err\<rparr>"

text \<open>The goroutines deliver, the loop receives or times out.\<close>

inductive engine_step :: "RecipeEnvelope \<Rightarrow> engine \<Rightarrow> engine \<Rightarrow> bool" for e where
  deliver: "es_result st = None \<Longrightarrow> i \<in> set (es_running st) \<Longrightarrow> step_outcome i c \<Longrightarrow>
    engine_step e st (st\<lparr>es_running := remove1 i (es_running st), es_chan := es_chan st @ [c]\<rparr>)"
| deliver_failed: "es_result st = None \<Longrightarrow> (i, err) \<in> set (es_failing st) \<Longrightarrow>
    engine_step e st (st\<lparr>es_failing := remove1 (i, err) (es_failing st),
      es_chan := es_chan st @ [failed_completion i err]\<rparr>)"
| receive: "es_result st = None \<Longrightarrow> es_chan st = c # cs \<Longrightarrow>
    set order = insert (sc_ID c) (dom (es_map st)) \<Longrightarrow> distinct order \<Longrightarrow>
    engine_step e st (receive e order c (st\<lparr>es_chan := cs\<rparr>))"
| timeout: "es_result st = None \<Longrightarrow> engine_step e st (time_out e st)"

inductive_cases engine_stepE: "engine_step e st st'"

abbreviation reachable :: "RecipeEnvelope \<Rightarrow> engine \<Rightarrow> bool" where
  "reachable e \<equiv> (engine_step e)\<^sup>*\<^sup>* (initial e)"

section \<open>What it means that requisites are met\<close>

definition req_holds :: "completion_map \<Rightarrow> Requisite \<Rightarrow> bool" where
  "req_holds m q \<longleftrightarrow>
     (Condition q = OnChanges \<and> (\<forall>r \<in> set (StepIDs q). ended m r \<and> changes_of m r)) \<or>
     (Condition q = OnFail \<and> (\<forall>r \<in> set (StepIDs q). status_of m r = StepFailed)) \<or>
     (Condition q = Require \<and> (\<forall>r \<in> set (StepIDs q). status_of m r = StepCompleted)) \<or>
     (Condition q = OnChangesAny \<and> (\<exists>r \<in> set (StepIDs q). ended m r \<and> changes_of m r)) \<or>
     (Condition q = OnFailAny \<and> (\<exists>r \<in> set (StepIDs q). status_of m r = StepFailed)) \<or>
     (Condition q = RequireAny \<and> (\<exists>r \<in> set (StepIDs q). status_of m r = StepCompleted))"

lemma all_loop_eq:
  "all_loop cond impossible pending reqs unmet =
     (case find impossible reqs of Some r \<Rightarrow> ReqError (not_met (requirement_of cond r))
      | None \<Rightarrow> if unmet \<or> list_ex pending reqs then Unmet else Met)"
  by (induction reqs arbitrary: unmet) auto

lemma any_loop_Met: "any_loop cond satisfied pending reqs = Met \<longleftrightarrow> list_ex satisfied reqs"
  by (simp add: any_loop_def Let_def)

lemma reqtypes_distinct [simp]:
  "OnFail \<noteq> OnChanges" "Require \<noteq> OnChanges" "Require \<noteq> OnFail"
  "OnChangesAny \<noteq> OnChanges" "OnChangesAny \<noteq> OnFail" "OnChangesAny \<noteq> Require"
  "OnFailAny \<noteq> OnChanges" "OnFailAny \<noteq> OnFail" "OnFailAny \<noteq> Require" "OnFailAny \<noteq> OnChangesAny"
  "RequireAny \<noteq> OnChanges" "RequireAny \<noteq> OnFail" "RequireAny \<noteq> Require" "RequireAny \<noteq> OnChangesAny"
  "RequireAny \<noteq> OnFailAny"
  by (simp_all add: reqtype_defs)

lemmas reqtypes_distinct_sym [simp] = reqtypes_distinct[symmetric]

text \<open>One case per kind of requisite.\<close>

lemma reqtype_cases:
  obtains "Condition q = OnChanges" | "Condition q = OnFail" | "Condition q = Require"
    | "Condition q = OnChangesAny" | "Condition q = OnFailAny" | "Condition q = RequireAny"
    | "Condition q \<notin> {OnChanges, OnFail, Require, OnChangesAny, OnFailAny, RequireAny}"
  by blast

lemma all_loop_Met:
  "all_loop cond impossible pending reqs False = Met \<longleftrightarrow> (\<forall>r \<in> set reqs. \<not> impossible r \<and> \<not> pending r)"
  by (auto simp: all_loop_eq list_ex_iff find_None_iff find_Some_iff split: option.split)

lemma check_requisite_Met: "check_requisite m q = Met \<longleftrightarrow> req_holds m q"
  by (cases rule: reqtype_cases[of q])
    (auto simp: check_requisite_def req_holds_def all_loop_Met any_loop_Met list_ex_iff)

lemma requisites_loop_Met:
  "requisites_loop m qs unmet = Met \<longleftrightarrow> \<not> unmet \<and> (\<forall>q \<in> set qs. req_holds m q)"
  by (induction qs arbitrary: unmet) (auto simp: check_requisite_Met[symmetric] split: req_result.splits)

lemma RequisitesAreMet_Met:
  "RequisitesAreMet step m = Met \<longleftrightarrow> (\<forall>q \<in> set (st_Requisites step). req_holds m q)"
  by (simp add: RequisitesAreMet_def requisites_loop_Met)

text \<open>Requisites that hold keep holding while ended steps keep their outcome.\<close>

definition keeps_ended :: "completion_map \<Rightarrow> completion_map \<Rightarrow> bool" where
  "keeps_ended m m' \<longleftrightarrow> (\<forall>i. ended m i \<longrightarrow> status_of m' i = status_of m i \<and> changes_of m' i = changes_of m i)"

lemma req_holds_mono: "req_holds m q \<Longrightarrow> keeps_ended m m' \<Longrightarrow> req_holds m' q"
  unfolding req_holds_def keeps_ended_def ended_def by metis

lemma RequisitesAreMet_mono:
  "RequisitesAreMet step m = Met \<Longrightarrow> keeps_ended m m' \<Longrightarrow> RequisitesAreMet step m' = Met"
  using req_holds_mono by (auto simp: RequisitesAreMet_Met)

text \<open>A requisite whose steps have all ended, none of them skipped, is decided.\<close>

lemma any_loop_decided: "\<forall>r \<in> set reqs. satisfied r \<or> \<not> pending r \<Longrightarrow> any_loop cond satisfied pending reqs \<noteq> Unmet"
  by (auto simp: any_loop_def Let_def list_ex_iff)

lemma all_loop_decided: "\<forall>r \<in> set reqs. \<not> pending r \<Longrightarrow> all_loop cond impossible pending reqs False \<noteq> Unmet"
  by (auto simp: all_loop_eq list_ex_iff split: option.split)

lemma check_requisite_decided:
  assumes "\<forall>r \<in> set (StepIDs q). ended m r"
  shows "check_requisite m q \<noteq> Unmet"
  using assms
  by (cases rule: reqtype_cases[of q])
    (auto simp: check_requisite_def ended_def intro!: all_loop_decided[rule_format] any_loop_decided[rule_format])

lemma requisites_loop_Unmet:
  "requisites_loop m qs unmet = Unmet \<Longrightarrow> unmet \<or> (\<exists>q \<in> set qs. check_requisite m q = Unmet)"
  by (induction qs arbitrary: unmet) (auto split: if_splits req_result.splits)

lemma RequisitesAreMet_Unmet:
  assumes "RequisitesAreMet step m = Unmet"
  shows "\<exists>r \<in> set (AllIDs (st_Requisites step)). \<not> ended m r"
proof -
  obtain q where q: "q \<in> set (st_Requisites step)" "check_requisite m q = Unmet"
    using assms requisites_loop_Unmet by (fastforce simp: RequisitesAreMet_def split: if_splits)
  then obtain r where "r \<in> set (StepIDs q)" "\<not> ended m r" using check_requisite_decided by blast
  then show ?thesis using q(1) by (auto simp: AllIDs_def)
qed

section \<open>The engine's invariant\<close>

text \<open>
  The IDs on their way: received, in the channel, running, or about to fail.  Each
  appears once, and exactly the steps that have left \<^term>\<open>StepNotStarted\<close> do.
\<close>

definition flight :: "engine \<Rightarrow> StepID list" where
  "flight st = map sc_ID (es_received st @ es_chan st) @ es_running st @ map fst (es_failing st)"

definition reported :: "engine \<Rightarrow> StepID \<Rightarrow> bool" where
  "reported st r = (\<exists>c \<in> set (es_received st). sc_ID c = r \<and> sc_Status c \<in> {StepCompleted, StepFailed})"

text \<open>A completion on its way agrees with what the map already says about an ended step.\<close>

definition agrees :: "completion_map \<Rightarrow> StepCompletion \<Rightarrow> bool" where
  "agrees m c \<longleftrightarrow> (ended m (sc_ID c) \<longrightarrow>
     status_of m (sc_ID c) = sc_Status c \<and> changes_of m (sc_ID c) = sc_ChangesMade c)"

definition received_ok :: "completion_map \<Rightarrow> StepCompletion list \<Rightarrow> bool" where
  "received_ok m cs \<longleftrightarrow> (\<forall>c \<in> set cs. m (sc_ID c) = Some c \<and> step_outcome (sc_ID c) c)"

definition waiting_ok :: "completion_map \<Rightarrow> StepCompletion list \<Rightarrow> bool" where
  "waiting_ok m cs \<longleftrightarrow> (\<forall>c \<in> set cs. agrees m c \<and> step_outcome (sc_ID c) c)"

definition running_ok :: "completion_map \<Rightarrow> StepID list \<Rightarrow> bool" where
  "running_ok m ids \<longleftrightarrow> (\<forall>i \<in> set ids. status_of m i = StepInProgress)"

definition failing_ok :: "completion_map \<Rightarrow> StepID set \<Rightarrow> bool" where
  "failing_ok m ids \<longleftrightarrow> (\<forall>i \<in> ids. status_of m i = StepFailed \<and> \<not> changes_of m i)"

definition entries_ok :: "completion_map \<Rightarrow> StepID set \<Rightarrow> bool" where
  "entries_ok m ids \<longleftrightarrow> (\<forall>i c. m i = Some c \<and> sc_Status c = StepNotStarted \<longrightarrow> \<not> sc_ChangesMade c) \<and>
     (\<forall>i. status_of m i = StepCompleted \<longrightarrow> i \<in> ids)"

definition under_way :: "RecipeEnvelope \<Rightarrow> completion_map \<Rightarrow> StepID set \<Rightarrow> bool" where
  "under_way e m ids \<longleftrightarrow> set (step_ids e) \<subseteq> dom m \<and> dom m \<subseteq> insert (start_id e) (set (step_ids e)) \<and>
     (\<forall>i \<in> dom m - {start_id e}. status_of m i = StepNotStarted \<longleftrightarrow> i \<notin> ids)"

definition engine_inv :: "RecipeEnvelope \<Rightarrow> engine \<Rightarrow> bool" where
  "engine_inv e st \<longleftrightarrow>
     distinct (flight st) \<and> set (flight st) \<subseteq> insert (start_id e) (set (step_ids e)) \<and>
     (if es_received st = [] then es_chan st = [zero_completion (start_id e) StepCompleted] \<and>
        es_running st = [] \<and> es_failing st = [] else start_id e \<in> sc_ID ` set (es_received st)) \<and>
     under_way e (es_map st) (set (flight st)) \<and> running_ok (es_map st) (es_running st) \<and>
     failing_ok (es_map st) (fst ` set (es_failing st)) \<and> waiting_ok (es_map st) (es_chan st) \<and>
     received_ok (es_map st) (es_received st) \<and> entries_ok (es_map st) (sc_ID ` set (es_received st))"

lemma status_of_upd: "status_of (m(i \<mapsto> c)) j = (if j = i then sc_Status c else status_of m j)"
  "changes_of (m(i \<mapsto> c)) j = (if j = i then sc_ChangesMade c else changes_of m j)"
  by (simp_all add: status_of_def changes_of_def)

text \<open>How each part fares when one entry of the map changes.\<close>

lemma received_ok_upd: "received_ok m cs \<Longrightarrow> i \<notin> sc_ID ` set cs \<Longrightarrow> received_ok (m(i \<mapsto> x)) cs"
  by (auto simp: received_ok_def)

lemma waiting_ok_upd: "waiting_ok m cs \<Longrightarrow> i \<notin> sc_ID ` set cs \<Longrightarrow> waiting_ok (m(i \<mapsto> x)) cs"
  by (auto simp: waiting_ok_def agrees_def ended_def status_of_upd)

lemma running_ok_upd: "running_ok m ids \<Longrightarrow> i \<notin> set ids \<Longrightarrow> running_ok (m(i \<mapsto> x)) ids"
  by (auto simp: running_ok_def status_of_upd)

lemma failing_ok_upd: "failing_ok m ids \<Longrightarrow> i \<notin> ids \<Longrightarrow> failing_ok (m(i \<mapsto> x)) ids"
  by (auto simp: failing_ok_def status_of_upd)

lemma entries_ok_upd:
  "entries_ok m ids \<Longrightarrow> sc_Status x \<noteq> StepNotStarted \<Longrightarrow> sc_Status x = StepCompleted \<longrightarrow> i \<in> ids' \<Longrightarrow> ids \<subseteq> ids' \<Longrightarrow>
   entries_ok (m(i \<mapsto> x)) ids'"
  by (auto simp: entries_ok_def status_of_upd)

lemma under_way_upd:
  "under_way e m ids \<Longrightarrow> i \<in> insert (start_id e) (set (step_ids e)) \<Longrightarrow> sc_Status x \<noteq> StepNotStarted \<Longrightarrow>
   under_way e (m(i \<mapsto> x)) (insert i ids)"
  by (auto simp: under_way_def status_of_upd)

lemma nothing_ok [simp]: "running_ok m []" "failing_ok m {}"
  by (simp_all add: running_ok_def failing_ok_def)

lemmas inv_upds = received_ok_upd waiting_ok_upd running_ok_upd failing_ok_upd

lemma engine_inv_initial: "engine_inv e (initial e)"
  by (auto simp: engine_inv_def flight_def initial_def status_of_def changes_of_def ended_def zero_completion_def
      agrees_def received_ok_def waiting_ok_def running_ok_def failing_ok_def entries_ok_def under_way_def
      step_outcome_def split: if_splits)

lemma visit_cases:
  obtains "visit e st i = st"
  | entry step where "es_map st i = Some entry" "sc_Status entry = StepNotStarted" "stepMap e i = Some step"
      "RequisitesAreMet step (es_map st) = Met"
      "visit e st i = st\<lparr>es_map := (es_map st)(i \<mapsto> entry\<lparr>sc_Status := StepInProgress\<rparr>),
         es_running := es_running st @ [i], es_started := es_started st @ [i]\<rparr>"
  | entry step err where "es_map st i = Some entry" "sc_Status entry = StepNotStarted" "stepMap e i = Some step"
      "RequisitesAreMet step (es_map st) = ReqError err"
      "visit e st i = st\<lparr>es_map := (es_map st)(i \<mapsto> entry\<lparr>sc_Status := StepFailed\<rparr>),
         es_failing := es_failing st @ [(i, err)]\<rparr>"
proof (cases "\<exists>entry step. es_map st i = Some entry \<and> stepMap e i = Some step \<and> sc_Status entry = StepNotStarted")
  case False
  then have "visit e st i = st" by (auto simp: visit_def split: option.splits)
  then show thesis by (rule that(1))
next
  case True
  then obtain entry step where *: "es_map st i = Some entry" "stepMap e i = Some step" "sc_Status entry = StepNotStarted"
    by blast
  show thesis
  proof (cases "RequisitesAreMet step (es_map st)")
    case Met
    with * show thesis by (intro that(2)) (auto simp: visit_def)
  next
    case Unmet
    with * show thesis by (intro that(1)) (auto simp: visit_def)
  next
    case (ReqError err)
    with * show thesis by (intro that(3)) (auto simp: visit_def)
  qed
qed

text \<open>An entry that has not started belongs to a step that is not under way.\<close>

lemma not_started_fresh:
  assumes "engine_inv e st" "es_received st \<noteq> []" "es_map st i = Some entry" "sc_Status entry = StepNotStarted"
  shows "i \<notin> set (flight st)" "i \<in> set (step_ids e)" "\<not> sc_ChangesMade entry"
proof -
  have ne: "i \<noteq> start_id e" using assms by (force simp: engine_inv_def received_ok_def step_outcome_def)
  with assms show "i \<notin> set (flight st)" by (auto simp: engine_inv_def status_of_def under_way_def)
  from ne assms show "i \<in> set (step_ids e)" by (auto simp: engine_inv_def under_way_def)
  from assms show "\<not> sc_ChangesMade entry" by (auto simp: engine_inv_def entries_ok_def)
qed

lemma visit_fields:
  "es_received (visit e st i) = es_received st" "es_chan (visit e st i) = es_chan st"
  "es_result (visit e st i) = es_result st"
  by (cases rule: visit_cases[of e st i]; simp)+

lemma visit_inv:
  assumes inv: "engine_inv e st" and "es_received st \<noteq> []"
  shows "engine_inv e (visit e st i)"
proof (cases rule: visit_cases[of e st i])
  case 1
  with inv show ?thesis by simp
next
  case (2 entry step)
  note fresh = not_started_fresh[OF assms 2(1,2)]
  let ?m = "(es_map st)(i \<mapsto> entry\<lparr>sc_Status := StepInProgress\<rparr>)"
  have "under_way e ?m (insert i (set (flight st)))" "entries_ok ?m (sc_ID ` set (es_received st))"
    using inv fresh(2) by (auto simp: engine_inv_def intro!: under_way_upd entries_ok_upd)
  moreover have "running_ok ?m (es_running st @ [i])"
    using inv fresh(1) running_ok_upd by (auto simp: engine_inv_def running_ok_def status_of_upd flight_def)
  ultimately show ?thesis
    using inv assms(2) fresh unfolding 2(5) engine_inv_def by (auto simp: flight_def intro!: inv_upds)
next
  case (3 entry step err)
  note fresh = not_started_fresh[OF assms 3(1,2)]
  let ?m = "(es_map st)(i \<mapsto> entry\<lparr>sc_Status := StepFailed\<rparr>)"
  have "under_way e ?m (insert i (set (flight st)))" "entries_ok ?m (sc_ID ` set (es_received st))"
    using inv fresh(2) by (auto simp: engine_inv_def intro!: under_way_upd entries_ok_upd)
  moreover have "failing_ok ?m (insert i (fst ` set (es_failing st)))"
    using inv fresh(1,3) by (auto simp: engine_inv_def failing_ok_def status_of_upd flight_def)
  ultimately show ?thesis
    using inv assms(2) fresh unfolding 3(5) engine_inv_def by (auto simp: flight_def intro!: inv_upds)
qed

lemma scan_inv:
  assumes "engine_inv e st" "es_received st \<noteq> []"
  shows "engine_inv e (scan e order st) \<and> es_received (scan e order st) = es_received st \<and>
    es_chan (scan e order st) = es_chan st \<and> es_result (scan e order st) = es_result st"
  using assms
proof (induction order arbitrary: st)
  case Nil
  then show ?case by (simp add: scan_def)
next
  case (Cons i order)
  from Cons.IH[OF visit_inv[OF Cons.prems, of i]] Cons.prems(2) show ?case by (simp add: scan_def visit_fields)
qed

lemma flight_take: "es_chan st = c # cs \<Longrightarrow> flight (take_completion c (st\<lparr>es_chan := cs\<rparr>)) = flight st"
  by (simp add: flight_def take_completion_def)

lemma take_inv:
  assumes inv: "engine_inv e st" and chan: "es_chan st = c # cs"
  shows "engine_inv e (take_completion c (st\<lparr>es_chan := cs\<rparr>))"
proof -
  let ?m = "(es_map st)(sc_ID c \<mapsto> c)" and ?ids = "sc_ID ` set (es_received st @ [c])"
  have new: "sc_ID c \<notin> sc_ID ` set (es_received st)" "sc_ID c \<notin> sc_ID ` set cs" "sc_ID c \<notin> set (es_running st)"
      "sc_ID c \<notin> fst ` set (es_failing st)"
    and known: "sc_ID c \<in> insert (start_id e) (set (step_ids e))" "insert (sc_ID c) (set (flight st)) = set (flight st)"
    using inv chan by (auto simp: engine_inv_def flight_def)
  have out: "step_outcome (sc_ID c) c" using inv chan by (simp add: engine_inv_def waiting_ok_def)
  have "under_way e ?m (set (flight st))" "entries_ok ?m ?ids"
    using inv known out under_way_upd[of e "es_map st" "set (flight st)" "sc_ID c" c]
    by (auto simp: engine_inv_def step_outcome_def intro!: entries_ok_upd)
  moreover have "received_ok ?m (es_received st @ [c])"
    using received_ok_upd[OF _ new(1), of "es_map st" c] inv out by (simp add: engine_inv_def received_ok_def)
  moreover have "waiting_ok (es_map st) cs" using inv chan by (simp add: engine_inv_def waiting_ok_def)
  moreover have "es_received st = [] \<Longrightarrow> sc_ID c = start_id e"
    using inv chan by (simp add: engine_inv_def zero_completion_def)
  ultimately show ?thesis using inv new unfolding engine_inv_def flight_take[OF chan]
    by (cases "es_received st = []") (simp_all add: take_completion_def inv_upds)
qed

lemma finish_fields [simp]:
  "es_map (finish e st) = es_map st" "es_chan (finish e st) = es_chan st" "es_running (finish e st) = es_running st"
  "es_failing (finish e st) = es_failing st" "es_received (finish e st) = es_received st"
  "es_started (finish e st) = es_started st"
  "es_map (time_out e st) = es_map st" "es_chan (time_out e st) = es_chan st"
  "es_running (time_out e st) = es_running st" "es_failing (time_out e st) = es_failing st"
  "es_received (time_out e st) = es_received st" "es_started (time_out e st) = es_started st"
  by (simp_all add: finish_def time_out_def)

lemma engine_inv_cong [simp]: "engine_inv e (finish e st) = engine_inv e st"
  "engine_inv e (time_out e st) = engine_inv e st"
  by (simp_all add: engine_inv_def flight_def)

text \<open>A delivery moves an ID from one place in flight to another.\<close>

lemma move_inv:
  assumes inv: "engine_inv e st" and perm: "mset (flight st') = mset (flight st)" and "es_received st \<noteq> []"
    and same: "es_map st' = es_map st" "es_received st' = es_received st" "es_chan st' = es_chan st @ [c]"
    and sub: "set (es_running st') \<subseteq> set (es_running st)" "set (es_failing st') \<subseteq> set (es_failing st)"
    and c: "agrees (es_map st) c" "step_outcome (sc_ID c) c"
  shows "engine_inv e st'"
proof -
  have "distinct (flight st')" "set (flight st') = set (flight st)"
    using perm inv mset_eq_imp_distinct_iff[OF perm] mset_eq_setD[OF perm] by (auto simp: engine_inv_def)
  moreover have "running_ok (es_map st) (es_running st')" "failing_ok (es_map st) (fst ` set (es_failing st'))"
    "waiting_ok (es_map st) (es_chan st @ [c])"
    using inv sub c by (auto simp: engine_inv_def running_ok_def failing_ok_def waiting_ok_def)
  ultimately show ?thesis using inv assms(3) by (simp add: engine_inv_def same)
qed

lemma under_way_received:
  "engine_inv e st \<Longrightarrow> es_running st \<noteq> [] \<or> es_failing st \<noteq> [] \<Longrightarrow> es_received st \<noteq> []"
  by (auto simp: engine_inv_def)

lemma deliver_inv:
  assumes inv: "engine_inv e st" and i: "i \<in> set (es_running st)" "step_outcome i c"
  shows "engine_inv e (st\<lparr>es_running := remove1 i (es_running st), es_chan := es_chan st @ [c]\<rparr>)"
proof (rule move_inv[OF inv])
  show "agrees (es_map st) c" using inv i by (simp add: engine_inv_def running_ok_def agrees_def ended_def step_outcome_def)
  show "es_received st \<noteq> []" using under_way_received[OF inv] i(1) by force
qed (use i in \<open>auto simp: flight_def step_outcome_def dest: set_remove1_subset[THEN subsetD]\<close>)

lemma deliver_failed_inv:
  assumes inv: "engine_inv e st" and i: "(i, err) \<in> set (es_failing st)"
  shows "engine_inv e (st\<lparr>es_failing := remove1 (i, err) (es_failing st),
    es_chan := es_chan st @ [failed_completion i err]\<rparr>)"
proof (rule move_inv[OF inv])
  have "i \<in># image_mset fst (mset (es_failing st))" using i by force
  with i show "mset (flight (st\<lparr>es_failing := remove1 (i, err) (es_failing st),
      es_chan := es_chan st @ [failed_completion i err]\<rparr>)) = mset (flight st)"
    by (simp add: flight_def failed_completion_def zero_completion_def image_mset_Diff)
  show "agrees (es_map st) (failed_completion i err)" using inv i
    by (force simp: engine_inv_def failing_ok_def agrees_def failed_completion_def zero_completion_def)
  show "es_received st \<noteq> []" using under_way_received[OF inv] i by force
qed (use i in \<open>auto simp: failed_completion_def zero_completion_def step_outcome_def dest: set_remove1_subset[THEN subsetD]\<close>)

lemma engine_step_inv:
  assumes "engine_inv e st" "engine_step e st st'"
  shows "engine_inv e st'"
  using assms(2,1)
proof cases
  case (receive c cs order)
  have "engine_inv e (take_completion c (st\<lparr>es_chan := cs\<rparr>))" by (rule take_inv[OF assms(1) receive(3)])
  then show ?thesis unfolding receive(1) receive_def
    using scan_inv[of e "take_completion c (st\<lparr>es_chan := cs\<rparr>)" order] by (simp add: take_completion_def)
qed (auto intro: deliver_inv deliver_failed_inv)

interpretation engine_run: preserved "engine_step e" "engine_inv e" for e
  by unfold_locales (rule engine_step_inv)

lemma reachable_inv: "reachable e st \<Longrightarrow> engine_inv e st"
  using engine_run.run_keeps engine_inv_initial by blast

section \<open>Started steps and waiting steps\<close>

text \<open>Every started step's requisites hold, and keep holding.\<close>

definition started_ok :: "RecipeEnvelope \<Rightarrow> engine \<Rightarrow> bool" where
  "started_ok e st \<longleftrightarrow> (\<forall>i \<in> set (es_started st). \<exists>step. stepMap e i = Some step \<and>
     RequisitesAreMet step (es_map st) = Met)"

text \<open>A step that has not started waits for a requisite that has not reported an end.\<close>

definition blocked :: "RecipeEnvelope \<Rightarrow> StepCompletion list \<Rightarrow> StepID \<Rightarrow> bool" where
  "blocked e received i \<longleftrightarrow> (\<exists>step. stepMap e i = Some step \<and> (\<exists>r \<in> set (AllIDs (st_Requisites step)).
     \<not> (\<exists>c \<in> set received. sc_ID c = r \<and> sc_Status c \<in> {StepCompleted, StepFailed})))"

definition waits :: "RecipeEnvelope \<Rightarrow> engine \<Rightarrow> StepID \<Rightarrow> bool" where
  "waits e st i \<longleftrightarrow> (i \<in> set (step_ids e) \<and> status_of (es_map st) i = StepNotStarted \<longrightarrow> blocked e (es_received st) i)"

lemma keeps_ended_refl: "keeps_ended m m"
  by (simp add: keeps_ended_def)

lemma keeps_ended_fresh: "m i = Some entry \<Longrightarrow> sc_Status entry = StepNotStarted \<Longrightarrow> keeps_ended m (m(i \<mapsto> x))"
  by (auto simp: keeps_ended_def ended_def status_of_upd) (simp_all add: status_of_def)

lemma keeps_ended_take: "agrees m c \<Longrightarrow> keeps_ended m (m(sc_ID c \<mapsto> c))"
  by (auto simp: keeps_ended_def agrees_def status_of_upd)

lemma started_ok_mono:
  "started_ok e st \<Longrightarrow> keeps_ended (es_map st) (es_map st') \<Longrightarrow> es_started st' = es_started st \<Longrightarrow> started_ok e st'"
  unfolding started_ok_def using RequisitesAreMet_mono by fastforce

lemma visit_started: "started_ok e st \<Longrightarrow> started_ok e (visit e st i)"
proof (cases rule: visit_cases[of e st i])
  case (2 entry step)
  assume ok: "started_ok e st"
  have "keeps_ended (es_map st) (es_map (visit e st i))"
    unfolding 2(5) using keeps_ended_fresh[of "es_map st" i entry] 2(1,2) by simp
  then show ?thesis using ok 2 RequisitesAreMet_mono unfolding started_ok_def by fastforce
next
  case (3 entry step err)
  assume "started_ok e st"
  then show ?thesis
    by (rule started_ok_mono) (use keeps_ended_fresh[of "es_map st" i entry] 3(1,2,5) in \<open>simp_all\<close>)
qed simp

lemma step_known: "i \<in> set (step_ids e) \<Longrightarrow> \<exists>step. stepMap e i = Some step"
  by (cases "stepMap e i") (auto simp: stepMap_def step_ids_def map_of_eq_None_iff image_image)

lemma visit_idle:
  assumes "es_map st i = Some entry" "sc_Status entry = StepNotStarted" "stepMap e i = Some step" "visit e st i = st"
  shows "RequisitesAreMet step (es_map st) = Unmet"
proof -
  have "map_option sc_Status (es_map (visit e st i) i) = Some StepNotStarted" using assms by simp
  with assms(1-3) show ?thesis by (cases "RequisitesAreMet step (es_map st)") (simp_all add: visit_def)
qed

lemma not_started_entry:
  assumes "engine_inv e st" "i \<in> set (step_ids e)" "status_of (es_map st) i = StepNotStarted"
  obtains entry where "es_map st i = Some entry" "sc_Status entry = StepNotStarted"
proof -
  have "i \<in> dom (es_map st)" using assms(1,2) unfolding engine_inv_def under_way_def by blast
  then show thesis using assms(3) that by (auto simp: status_of_def)
qed

lemma visit_waits:
  assumes inv: "engine_inv e st"
  shows "waits e (visit e st i) i" "waits e st j \<Longrightarrow> waits e (visit e st i) j"
proof -
  show "waits e st j \<Longrightarrow> waits e (visit e st i) j"
    by (cases rule: visit_cases[of e st i]) (auto simp: waits_def status_of_upd split: if_splits)
  show "waits e (visit e st i) i"
  proof (cases rule: visit_cases[of e st i])
    case 1
    show ?thesis unfolding 1 waits_def
    proof
      assume i: "i \<in> set (step_ids e) \<and> status_of (es_map st) i = StepNotStarted"
      obtain step where step: "stepMap e i = Some step" using step_known i by blast
      obtain entry where entry: "es_map st i = Some entry" "sc_Status entry = StepNotStarted"
        using not_started_entry[OF inv] i by blast
      have "RequisitesAreMet step (es_map st) = Unmet" by (rule visit_idle[OF entry step 1])
      then obtain r where "r \<in> set (AllIDs (st_Requisites step))" "\<not> ended (es_map st) r"
        using RequisitesAreMet_Unmet by blast
      moreover from this inv have "\<not> (\<exists>c \<in> set (es_received st). sc_ID c = r \<and> sc_Status c \<in> {StepCompleted, StepFailed})"
        by (auto simp: engine_inv_def received_ok_def ended_def status_of_def)
      ultimately show "blocked e (es_received st) i" using step by (auto simp: blocked_def)
    qed
  qed (auto simp: waits_def status_of_upd)
qed

lemma scan_started: "started_ok e st \<Longrightarrow> started_ok e (scan e order st)"
  by (induction order arbitrary: st) (simp_all add: scan_def visit_started)

lemma scan_keeps_waits:
  assumes "engine_inv e st" "es_received st \<noteq> []" "waits e st j"
  shows "waits e (scan e order st) j"
  using assms
proof (induction order arbitrary: st)
  case (Cons i order)
  from Cons.IH[OF visit_inv[OF Cons.prems(1,2), of i]] Cons.prems visit_waits(2)[OF Cons.prems(1,3), of i]
  show ?case by (simp add: scan_def visit_fields)
qed (simp add: scan_def)

lemma scan_waits:
  assumes "engine_inv e st" "es_received st \<noteq> []" "j \<in> set order"
  shows "waits e (scan e order st) j"
  using assms
proof (induction order arbitrary: st)
  case (Cons i order)
  have v: "engine_inv e (visit e st i)" "es_received (visit e st i) \<noteq> []"
    using visit_inv[OF Cons.prems(1,2)] Cons.prems(2) by (simp_all add: visit_fields)
  show ?case
  proof (cases "j = i")
    case True
    then show ?thesis
      using scan_keeps_waits[OF v, of j order] visit_waits(1)[OF Cons.prems(1), of i] by (simp add: scan_def)
  next
    case False
    then show ?thesis using Cons.IH[OF v] Cons.prems(3) by (simp add: scan_def)
  qed
qed simp

definition result_ok :: "RecipeEnvelope \<Rightarrow> engine \<Rightarrow> bool" where
  "result_ok e st \<longleftrightarrow> (case es_result st of
       None \<Rightarrow> length (es_received st) < expected e
     | Some RunOk \<Rightarrow> length (es_received st) \<ge> expected e
     | Some RunTimeout \<Rightarrow> True)"

definition run_inv :: "RecipeEnvelope \<Rightarrow> engine \<Rightarrow> bool" where
  "run_inv e st \<longleftrightarrow> engine_inv e st \<and> started_ok e st \<and> result_ok e st \<and>
     (es_received st \<noteq> [] \<longrightarrow> (\<forall>i. waits e st i))"

lemma run_inv_initial: "run_inv e (initial e)"
  unfolding run_inv_def
  by (intro conjI engine_inv_initial) (simp_all add: started_ok_def result_ok_def initial_def expected_def)

lemma finish_result: "es_result st = None \<Longrightarrow> result_ok e (finish e st)"
  by (simp add: result_ok_def finish_def)

lemma receive_run_inv:
  assumes inv: "run_inv e st" and chan: "es_chan st = c # cs" and "es_result st = None"
    and order: "set order = insert (sc_ID c) (dom (es_map st))"
  shows "run_inv e (receive e order c (st\<lparr>es_chan := cs\<rparr>))"
proof -
  let ?t = "take_completion c (st\<lparr>es_chan := cs\<rparr>)"
  have t: "engine_inv e ?t" "es_received ?t \<noteq> []" "es_result ?t = None"
    using take_inv[OF _ chan] inv assms(3) by (simp_all add: run_inv_def take_completion_def)
  have "agrees (es_map st) c" "started_ok e st"
    using inv chan by (simp_all add: run_inv_def engine_inv_def waiting_ok_def)
  then have "started_ok e ?t" using keeps_ended_take started_ok_mono[of e st ?t] by (simp add: take_completion_def)
  then have "started_ok e (scan e order ?t)" by (rule scan_started)
  moreover have "waits e (scan e order ?t) i" for i
  proof (cases "i \<in> set (step_ids e)")
    case True
    then have "i \<in> set order" using order inv by (auto simp: run_inv_def engine_inv_def under_way_def)
    then show ?thesis by (rule scan_waits[OF t(1,2)])
  qed (simp add: waits_def)
  ultimately show ?thesis using scan_inv[OF t(1,2), of order] t(3)
    by (auto simp: run_inv_def receive_def started_ok_def waits_def finish_result)
qed

lemma engine_step_run_inv:
  assumes "run_inv e st" "engine_step e st st'"
  shows "run_inv e st'"
  using assms(2,1)
proof cases
  case (receive c cs order)
  then show ?thesis using receive_run_inv[OF assms(1)] by simp
next
  case timeout
  then show ?thesis using assms(1) by (simp add: run_inv_def started_ok_def waits_def result_ok_def time_out_def)
      (simp add: engine_inv_def flight_def)
qed (use assms(1) engine_step_inv[OF _ assms(2)] in
    \<open>auto simp: run_inv_def started_ok_def waits_def result_ok_def\<close>)

interpretation cook_run: preserved "engine_step e" "run_inv e" for e
  by unfold_locales (rule engine_step_run_inv)

lemma reachable_run_inv: "reachable e st \<Longrightarrow> run_inv e st"
  using cook_run.run_keeps run_inv_initial by blast

section \<open>Executing a schedule\<close>

text \<open>An executable run of the engine along a given schedule, and that it is one of its runs.\<close>

datatype engine_event = Deliver StepCompletion | DeliverFailed StepID string | Receive "StepID list"

definition fire :: "RecipeEnvelope \<Rightarrow> engine_event \<Rightarrow> engine \<Rightarrow> engine option" where
  "fire e ev st =
     (if es_result st \<noteq> None then None
      else case ev of
        Deliver c \<Rightarrow> if sc_ID c \<in> set (es_running st) \<and> step_outcome (sc_ID c) c
          then Some (st\<lparr>es_running := remove1 (sc_ID c) (es_running st), es_chan := es_chan st @ [c]\<rparr>) else None
      | DeliverFailed i err \<Rightarrow> if (i, err) \<in> set (es_failing st)
          then Some (st\<lparr>es_failing := remove1 (i, err) (es_failing st),
            es_chan := es_chan st @ [failed_completion i err]\<rparr>) else None
      | Receive order \<Rightarrow>
          (case es_chan st of
             [] \<Rightarrow> None
           | c # cs \<Rightarrow> if set order = insert (start_id e) (set (step_ids e)) \<and> distinct order
               then Some (receive e order c (st\<lparr>es_chan := cs\<rparr>)) else None))"

fun run_schedule :: "RecipeEnvelope \<Rightarrow> engine_event list \<Rightarrow> engine \<Rightarrow> engine option" where
  "run_schedule e [] st = Some st"
| "run_schedule e (ev # evs) st = (case fire e ev st of None \<Rightarrow> None | Some st' \<Rightarrow> run_schedule e evs st')"

lemma receive_dom:
  assumes "engine_inv e st" "es_chan st = c # cs"
  shows "insert (sc_ID c) (dom (es_map st)) = insert (start_id e) (set (step_ids e))"
proof -
  have "start_id e \<in> insert (sc_ID c) (dom (es_map st))"
    using assms by (auto simp: engine_inv_def received_ok_def zero_completion_def split: if_splits)
  moreover have "sc_ID c \<in> insert (start_id e) (set (step_ids e))"
    using assms by (auto simp: engine_inv_def flight_def)
  ultimately show ?thesis using assms(1) by (auto simp: engine_inv_def under_way_def)
qed

lemma fire_step:
  assumes "engine_inv e st" "fire e ev st = Some st'"
  shows "engine_step e st st'"
proof (cases ev)
  case (Deliver c)
  with assms(2) show ?thesis
    by (auto simp: fire_def split: if_splits intro: engine_step.deliver)
next
  case (DeliverFailed i err)
  with assms(2) show ?thesis
    by (auto simp: fire_def split: if_splits intro: engine_step.deliver_failed)
next
  case (Receive order)
  with assms obtain c cs where *: "es_result st = None" "es_chan st = c # cs" "distinct order"
      "set order = insert (start_id e) (set (step_ids e))" "st' = receive e order c (st\<lparr>es_chan := cs\<rparr>)"
    by (auto simp: fire_def split: if_splits list.splits)
  then have "set order = insert (sc_ID c) (dom (es_map st))" using receive_dom[OF assms(1)] by simp
  then show ?thesis using engine_step.receive[OF *(1,2) _ *(3)] *(5) by simp
qed

lemma run_schedule_reachable:
  "reachable e st \<Longrightarrow> run_schedule e evs st = Some st' \<Longrightarrow> reachable e st'"
proof (induction evs arbitrary: st)
  case (Cons ev evs)
  then show ?case
    by (auto split: option.splits dest: fire_step[OF reachable_inv] intro: rtranclp.rtrancl_into_rtrancl)
qed simp

lemma run_schedule_relpow:
  "reachable e st \<Longrightarrow> run_schedule e evs st = Some st' \<Longrightarrow> (engine_step e ^^ length evs) st st'"
proof (induction evs arbitrary: st)
  case (Cons ev evs)
  then obtain s where s: "engine_step e st s" "run_schedule e evs s = Some st'"
    by (auto split: option.splits dest: fire_step[OF reachable_inv])
  then have "(engine_step e ^^ length evs) s st'" using Cons.IH[of s] Cons.prems(1) by (meson rtranclp.rtrancl_into_rtrancl)
  with s(1) have "(engine_step e ^^ Suc (length evs)) st st'" by (rule relpowp_Suc_I2)
  then show ?case by simp
qed simp

definition run_demo :: "engine_event list \<Rightarrow> RecipeEnvelope \<Rightarrow> engine" where
  "run_demo evs e = the (run_schedule e evs (initial e))"

lemma run_demo_reachable: "run_schedule e evs (initial e) \<noteq> None \<Longrightarrow> reachable e (run_demo evs e)"
  using run_schedule_reachable[of e "initial e" evs] by (auto simp: run_demo_def)

definition plain_step :: "StepID \<Rightarrow> Requisite list \<Rightarrow> Step" where
  "plain_step i reqs = \<lparr>st_Ingredient = ''cmd'', st_Method = ''run'', st_ID = i, st_Properties = [],
     st_Register = None, st_Secrets = [], st_Requisites = reqs, st_IsRequisite = False, st_Cond = None, st_OnExit = []\<rparr>"

definition two_steps :: RecipeEnvelope where
  "two_steps = \<lparr>env_JobID = ''j'', env_Steps = [plain_step ''a'' [],
     plain_step ''b'' [\<lparr>Condition = ''require'', StepIDs = [''a'']\<rparr>]], env_Test = False, env_InvokedBy = []\<rparr>"

abbreviation demo_order :: "StepID list" where "demo_order \<equiv> [''b'', ''start-j'', ''a'']"

definition half_way :: "engine_event list" where
  "half_way = [Receive demo_order, Deliver (zero_completion ''a'' StepCompleted), Receive demo_order]"

definition to_the_end :: "engine_event list" where
  "to_the_end = half_way @ [Deliver (zero_completion ''b'' StepCompleted), Receive demo_order]"

lemma demo_runs: "run_schedule two_steps half_way (initial two_steps) \<noteq> None"
  "run_schedule two_steps to_the_end (initial two_steps) \<noteq> None"
  by code_simp+

section \<open>The properties of a run\<close>

text \<open>
  Property C9. No step starts early: in every state a run can reach, each step that was
  started has requisites that hold, and every step it requires has already reported
  that it completed.
\<close>

theorem started_step_requisites:
  assumes "reachable e st" "i \<in> set (es_started st)"
  shows "\<exists>step. stepMap e i = Some step \<and> (\<forall>q \<in> set (st_Requisites step).
     req_holds (es_map st) q \<and>
     (Condition q = Require \<longrightarrow> (\<forall>r \<in> set (StepIDs q). \<exists>c \<in> set (es_received st). sc_ID c = r \<and> sc_Status c = StepCompleted)))"
proof -
  have inv: "run_inv e st" by (rule reachable_run_inv[OF assms(1)])
  then obtain step where step: "stepMap e i = Some step" "RequisitesAreMet step (es_map st) = Met"
    using assms(2) by (auto simp: run_inv_def started_ok_def)
  have "\<exists>c \<in> set (es_received st). sc_ID c = r \<and> sc_Status c = StepCompleted"
    if "q \<in> set (st_Requisites step)" "Condition q = Require" "r \<in> set (StepIDs q)" for q r
  proof -
    have "status_of (es_map st) r = StepCompleted"
      using step(2) that by (auto simp: RequisitesAreMet_Met req_holds_def)
    with inv show ?thesis by (force simp: run_inv_def engine_inv_def entries_ok_def received_ok_def status_of_def)
  qed
  with step show ?thesis by (auto simp: RequisitesAreMet_Met)
qed

theorem started_step_requisites_witness:
  "\<exists>c \<in> set (es_received (run_demo half_way two_steps)). sc_ID c = ''a'' \<and> sc_Status c = StepCompleted"
proof -
  have b: "''b'' \<in> set (es_started (run_demo half_way two_steps))" by code_simp
  have q: "map_option st_Requisites (stepMap two_steps ''b'') = Some [\<lparr>Condition = ''require'', StepIDs = [''a'']\<rparr>]"
    by code_simp
  from started_step_requisites[OF run_demo_reachable[OF demo_runs(1)] b] q
  show ?thesis by (auto simp: Require_def)
qed

lemma flight_length:
  assumes "engine_inv e st"
  shows "length (flight st) \<le> expected e"
proof -
  have "length (flight st) = card (set (flight st))" using assms by (simp add: engine_inv_def distinct_card)
  also have "\<dots> \<le> card (set (start_id e # step_ids e))"
    using assms by (intro card_mono) (auto simp: engine_inv_def)
  also have "\<dots> \<le> expected e" using card_length[of "start_id e # step_ids e"] by (simp add: expected_def step_ids_def)
  finally show ?thesis .
qed

text \<open>
  The completion channel never holds more than its buffer, one slot per
  step and one for the seeded start, so no goroutine blocks on delivery.
\<close>

theorem channel_within_buffer:
  assumes "reachable e st"
  shows "length (es_chan st) + length (es_running st) + length (es_failing st) \<le> length (env_Steps e) + 1"
  using flight_length[OF reachable_inv[OF assms]] by (simp add: flight_def expected_def)

theorem channel_within_buffer_witness: "length (es_chan (run_demo half_way two_steps)) \<le> 3"
  using channel_within_buffer[OF run_demo_reachable[OF demo_runs(1)]] by (simp add: two_steps_def)

text \<open>
  Property C10. A run that returns without an error has heard from every step exactly
  once, and from nobody else but the seeded start.
\<close>

theorem finished_run_reports_every_step:
  assumes "reachable e st" "es_result st = Some RunOk"
    and "distinct (step_ids e)" "start_id e \<notin> set (step_ids e)"
  shows "mset (map sc_ID (es_received st)) = mset (start_id e # step_ids e) \<and>
    es_chan st = [] \<and> es_running st = [] \<and> es_failing st = []"
proof -
  have inv: "run_inv e st" by (rule reachable_run_inv[OF assms(1)])
  then have len: "length (es_received st) \<ge> expected e" "engine_inv e st"
    using assms(2) by (simp_all add: run_inv_def result_ok_def)
  with flight_length[OF len(2)] have rest: "es_chan st = []" "es_running st = []" "es_failing st = []"
      "length (flight st) = expected e"
    by (simp_all add: flight_def flip: length_0_conv)
  have "card (set (start_id e # step_ids e)) = expected e"
    using distinct_card[of "start_id e # step_ids e"] assms(3,4) by (simp add: expected_def step_ids_def)
  then have "card (set (flight st)) = card (set (start_id e # step_ids e))"
    using len(2) rest(4) distinct_card by (metis engine_inv_def)
  moreover have "set (flight st) \<subseteq> set (start_id e # step_ids e)" using len(2) by (simp add: engine_inv_def)
  ultimately have "set (flight st) = set (start_id e # step_ids e)" by (simp add: card_subset_eq)
  then have "mset (flight st) = mset (start_id e # step_ids e)"
    using len(2) assms(3,4) set_eq_iff_mset_eq_distinct[of "flight st" "start_id e # step_ids e"]
    by (simp add: engine_inv_def)
  with rest show ?thesis by (simp add: flight_def)
qed

theorem finished_run_reports_every_step_witness:
  "mset (map sc_ID (es_received (run_demo to_the_end two_steps))) = {#''start-j'', ''a'', ''b''#}"
proof -
  have "es_result (run_demo to_the_end two_steps) = Some RunOk" "distinct (step_ids two_steps)"
    "start_id two_steps \<notin> set (step_ids two_steps)"
    by code_simp+
  from finished_run_reports_every_step[OF run_demo_reachable[OF demo_runs(2)] this]
  show ?thesis by (simp add: start_id_def step_ids_def two_steps_def plain_step_def)
qed

section \<open>Termination and progress\<close>

text \<open>What is left to do: three for a step not under way, two for a goroutine, one in the channel.\<close>

definition work :: "RecipeEnvelope \<Rightarrow> engine \<Rightarrow> nat" where
  "work e st = 3 * (expected e - length (flight st)) + 2 * (length (es_running st) + length (es_failing st)) +
     length (es_chan st) + (if es_result st = None then 1 else 0)"

lemma visit_work:
  assumes "engine_inv e st" "es_received st \<noteq> []"
  shows "work e (visit e st i) \<le> work e st"
proof -
  have "length (flight (visit e st i)) \<le> expected e" using flight_length visit_inv[OF assms] by blast
  then show ?thesis by (cases rule: visit_cases[of e st i]) (auto simp: work_def flight_def)
qed

lemma scan_work:
  assumes "engine_inv e st" "es_received st \<noteq> []"
  shows "work e (scan e order st) \<le> work e st"
  using assms
proof (induction order arbitrary: st)
  case (Cons i order)
  from Cons.IH[OF visit_inv[OF Cons.prems, of i]] visit_work[OF Cons.prems, of i] Cons.prems(2)
  show ?case by (simp add: scan_def visit_fields)
qed (simp add: scan_def)

lemma engine_step_work:
  assumes inv: "engine_inv e st" and step: "engine_step e st st'"
  shows "work e st' < work e st"
  using step
proof cases
  case (deliver i c)
  then obtain n where "length (es_running st) = Suc n" by (cases "es_running st") auto
  with deliver show ?thesis by (simp add: work_def flight_def length_remove1)
next
  case (deliver_failed i err)
  then obtain n where "length (es_failing st) = Suc n" by (cases "es_failing st") auto
  with deliver_failed show ?thesis by (simp add: work_def flight_def length_remove1)
next
  case (receive c cs order)
  let ?t = "take_completion c (st\<lparr>es_chan := cs\<rparr>)"
  have "work e ?t < work e st"
    using receive flight_take[OF receive(3)] by (simp add: work_def take_completion_def)
  moreover have "work e (scan e order ?t) \<le> work e ?t"
    using scan_work[OF take_inv[OF inv receive(3)]] by (simp add: take_completion_def)
  moreover have "work e (finish e s) \<le> work e s" for s by (simp add: work_def flight_def) (simp add: finish_def)
  ultimately show ?thesis unfolding receive(1) receive_def using le_trans less_le_trans by (meson le_less_trans)
next
  case timeout
  then show ?thesis by (simp add: work_def flight_def) (simp add: time_out_def)
qed

text \<open>
  Property C33. A run of the engine ends: from the start no run is longer than three
  steps per recipe step and two more, whatever order goroutines deliver in.
\<close>

theorem cook_run_bounded:
  assumes "(engine_step e ^^ k) (initial e) st"
  shows "k \<le> 3 * length (env_Steps e) + 2"
proof -
  have "engine_inv e st \<and> k + work e st \<le> work e (initial e)"
    using assms
  proof (induction k arbitrary: st)
    case (Suc k)
    then obtain s where s: "(engine_step e ^^ k) (initial e) s" "engine_step e s st" by auto
    from Suc.IH[OF s(1)] engine_step_work[OF _ s(2)] engine_step_inv[OF _ s(2)] show ?case by fastforce
  qed (simp add: engine_inv_initial)
  moreover have "work e (initial e) = 3 * length (env_Steps e) + 2"
    by (simp add: work_def initial_def flight_def expected_def)
  ultimately show ?thesis by simp
qed

theorem cook_run_bounded_witness:
  "(engine_step two_steps ^^ 5) (initial two_steps) (run_demo to_the_end two_steps) \<and> (5::nat) \<le> 3 * 2 + 2"
proof -
  have "(engine_step two_steps ^^ length to_the_end) (initial two_steps) (run_demo to_the_end two_steps)"
    using run_schedule_relpow[of two_steps "initial two_steps" to_the_end] demo_runs(2) by (simp add: run_demo_def)
  moreover have "length to_the_end = 5" "length (env_Steps two_steps) = 2"
    by (simp_all add: to_the_end_def half_way_def two_steps_def)
  ultimately show ?thesis using cook_run_bounded[of 5 two_steps "run_demo to_the_end two_steps"] by simp
qed

lemma stepMap_SomeD: "stepMap e i = Some step \<Longrightarrow> step \<in> set (env_Steps e) \<and> st_ID step = i"
  by (auto simp: stepMap_def dest: map_of_SomeD)

text \<open>With nothing in flight and no step skipped, every step of a well-formed recipe has reported.\<close>

lemma nothing_in_flight_all_reported:
  assumes inv: "run_inv e st" and idle: "es_chan st = []" "es_running st = []" "es_failing st = []"
    and acyc: "acyclic (requires (env_Steps e))"
    and closed: "\<forall>s \<in> set (env_Steps e). set (AllIDs (st_Requisites s)) \<subseteq> set (step_ids e)"
    and noskip: "\<forall>c \<in> set (es_received st). sc_Status c \<noteq> StepSkipped"
    and i: "i \<in> set (step_ids e)"
  shows "i \<in> sc_ID ` set (es_received st)"
proof -
  have wf: "wf (requires (env_Steps e))" by (rule finite_acyclic_wf[OF finite_requires acyc])
  have rec: "es_received st \<noteq> []" using inv idle by (auto simp: run_inv_def engine_inv_def)
  show ?thesis using i
  proof (induction i rule: wf_induct_rule[OF wf])
    case (1 i)
    show ?case
    proof (rule ccontr)
      assume new: "i \<notin> sc_ID ` set (es_received st)"
      then have ns: "status_of (es_map st) i = StepNotStarted"
        using inv idle rec 1(2) by (auto simp: run_inv_def engine_inv_def under_way_def flight_def)
      have "waits e st i" using inv rec by (simp add: run_inv_def)
      with ns 1(2) obtain step r where r: "stepMap e i = Some step" "r \<in> set (AllIDs (st_Requisites step))"
          "\<not> (\<exists>c \<in> set (es_received st). sc_ID c = r \<and> sc_Status c \<in> {StepCompleted, StepFailed})"
        by (auto simp: waits_def blocked_def)
      have "(r, i) \<in> requires (env_Steps e)" "r \<in> set (step_ids e)"
        using r(2) stepMap_SomeD[OF r(1)] closed by (auto simp: requires_def)
      with 1(1) obtain c where "c \<in> set (es_received st)" "sc_ID c = r" by auto
      moreover from this have "sc_Status c \<in> {StepCompleted, StepFailed}"
        using inv noskip by (auto simp: run_inv_def engine_inv_def received_ok_def step_outcome_def)
      ultimately show False using r(3) by blast
    qed
  qed
qed

text \<open>While something is in flight there is a step to take other than the timeout.\<close>

lemma receive_result: "es_result (receive e order c st) \<noteq> Some RunTimeout" if "es_result st = None"
proof -
  have "es_result (scan e order s) = es_result s" for s
    by (induction order arbitrary: s) (simp_all add: scan_def visit_fields)
  then show ?thesis using that by (simp add: receive_def finish_def take_completion_def)
qed

lemma busy_steps:
  assumes inv: "engine_inv e st" and none: "es_result st = None"
    and busy: "es_chan st \<noteq> [] \<or> es_running st \<noteq> [] \<or> es_failing st \<noteq> []"
  shows "\<exists>st'. engine_step e st st' \<and> es_result st' \<noteq> Some RunTimeout"
proof -
  consider c cs where "es_chan st = c # cs" | i js where "es_running st = i # js" | i err fs where "es_failing st = (i, err) # fs"
    using busy by (metis neq_Nil_conv surj_pair)
  then show ?thesis
  proof cases
    case 1
    let ?order = "start_id e # remdups (filter (\<lambda>i. i \<noteq> start_id e) (step_ids e))"
    have "engine_step e st (receive e ?order c (st\<lparr>es_chan := cs\<rparr>))"
      by (rule engine_step.receive[OF none 1]) (auto simp: receive_dom[OF inv 1])
    then show ?thesis using receive_result none by fastforce
  next
    case 2
    have "engine_step e st (st\<lparr>es_running := remove1 i (es_running st), es_chan := es_chan st @ [zero_completion i StepCompleted]\<rparr>)"
      using none 2 by (intro engine_step.deliver) (auto simp: step_outcome_def zero_completion_def)
    then show ?thesis using none by fastforce
  next
    case 3
    have "engine_step e st (st\<lparr>es_failing := remove1 (i, err) (es_failing st), es_chan := es_chan st @ [failed_completion i err]\<rparr>)"
      using none 3 by (intro engine_step.deliver_failed) auto
    then show ?thesis using none by fastforce
  qed
qed

text \<open>
  A step that is skipped leaves its dependents waiting: neither met nor impossible.
  In the run below, \<open>b\<close> requires \<open>a\<close>, whose condition does not pass.
\<close>

definition skipped_run :: "engine_event list" where
  "skipped_run = [Receive demo_order, Deliver (zero_completion ''a'' StepSkipped), Receive demo_order]"

lemma skipped_run_runs: "run_schedule two_steps skipped_run (initial two_steps) \<noteq> None"
  by code_simp

lemma idle_only_times_out:
  assumes "es_result st = None" "es_chan st = []" "es_running st = []" "es_failing st = []"
  shows "{st'. engine_step e st st'} = {time_out e st}"
  using assms by (auto elim!: engine_stepE intro: engine_step.timeout)

text \<open>
  A recipe with a step that requires a skipped one can get stuck: it
  reaches a state in which the dependent has not started, nothing is running and
  nothing is in the channel, and the only thing left to happen is the timeout of
  half an hour.
\<close>

theorem skipped_requisite_stalls:
  "\<exists>st. reachable two_steps st \<and> es_result st = None \<and> es_chan st = [] \<and> es_running st = [] \<and> es_failing st = [] \<and>
     status_of (es_map st) ''a'' = StepSkipped \<and> status_of (es_map st) ''b'' = StepNotStarted \<and>
     {st'. engine_step two_steps st st'} = {time_out two_steps st}"
proof -
  let ?st = "run_demo skipped_run two_steps"
  have *: "es_result ?st = None" "es_chan ?st = []" "es_running ?st = []" "es_failing ?st = []"
    "status_of (es_map ?st) ''a'' = StepSkipped" "status_of (es_map ?st) ''b'' = StepNotStarted"
    by code_simp+
  then show ?thesis using run_demo_reachable[OF skipped_run_runs] idle_only_times_out[OF *(1-4), of two_steps] by blast
qed

end
