(* ===== verification/Cook_Vars.thy ===== *)
theory Cook_Vars
  imports Cook_Engine
begin

text \<open>
  What one step of a recipe does on the sprout (\<open>internal/cook/variables.go\<close> and the
  goroutine of \<open>CookRecipeEnvelope\<close>): run variables and secrets, substitution into
  properties, conditions, \<open>on_exit\<close> steps and the redaction of what is reported.
  The shell, the secret store and the ingredients are parameters.
\<close>

section \<open>Run variables\<close>

definition RedactedPlaceholder :: string where "RedactedPlaceholder = ''**REDACTED**''"

record registeredValue =
  rv_value :: string
  rv_sensitive :: bool

type_synonym run_vars = "(string \<times> registeredValue) list"

definition vars_set :: "run_vars \<Rightarrow> string \<Rightarrow> string \<Rightarrow> bool \<Rightarrow> run_vars" where
  "vars_set r name v sensitive =
     (if name = [] then r else AList.update name \<lparr>rv_value = v, rv_sensitive = sensitive\<rparr> r)"

definition vars_get :: "run_vars \<Rightarrow> string \<Rightarrow> registeredValue option" where
  "vars_get r name = map_of r name"

text \<open>The snapshot has the order of the map's iteration, here that of the list.\<close>

definition sensitiveValues :: "run_vars \<Rightarrow> string list" where
  "sensitiveValues r = map (rv_value \<circ> snd) (filter (\<lambda>(_, v). rv_sensitive v \<and> rv_value v \<noteq> []) r)"

definition vars_lookup :: "run_vars \<Rightarrow> (string \<times> string) list \<Rightarrow> string \<Rightarrow> string option" where
  "vars_lookup r runtimeCtx name =
     (case map_of runtimeCtx name of
        Some v \<Rightarrow> Some v
      | None \<Rightarrow> map_option rv_value (vars_get r name))"

definition runtimeContextVars :: "string \<Rightarrow> string \<Rightarrow> (string \<times> string) list" where
  "runtimeContextVars sproutID organization = [(''GRLX_SPROUT_ID'', sproutID), (''GRLX_TENANT_ID'', organization)]"

section \<open>Substitution\<close>

definition name_first :: "char \<Rightarrow> bool" where
  "name_first c = (let n = of_char c :: nat in 65 \<le> n \<and> n \<le> 90 \<or> 97 \<le> n \<and> n \<le> 122 \<or> c = CHR ''_'')"

definition name_char :: "char \<Rightarrow> bool" where
  "name_char c = (name_first c \<or> (let n = of_char c :: nat in 48 \<le> n \<and> n \<le> 57))"

text \<open>\<open>varPattern\<close> at the start of a string: the name and what follows the match.\<close>

definition match_var :: "string \<Rightarrow> (string \<times> string) option" where
  "match_var s =
     (case s of
        [] \<Rightarrow> None
      | c # cs \<Rightarrow>
          if c \<noteq> CHR ''{'' then None
          else let name = takeWhile name_char cs; rest = dropWhile name_char cs in
               if name = [] \<or> \<not> name_first (hd name) then None
               else (case rest of [] \<Rightarrow> None | d # ds \<Rightarrow> if d = CHR ''}'' then Some (name, ds) else None))"

lemma match_var_shorter: "match_var s = Some (name, rest) \<Longrightarrow> length rest < length s"
  by (auto simp: match_var_def Let_def split: list.splits if_splits)
    (metis length_Cons length_dropWhile_le less_Suc_eq_le not_less_eq_eq order_trans le_SucI)

text \<open>Matches are found from left to right and do not overlap; an unknown name is left as it is.\<close>

function substituteString :: "string \<Rightarrow> (string \<Rightarrow> string option) \<Rightarrow> string" where
  "substituteString [] look = []"
| "substituteString (c # cs) look =
     (case match_var (c # cs) of
        None \<Rightarrow> c # substituteString cs look
      | Some (name, rest) \<Rightarrow>
          (case look name of Some v \<Rightarrow> v | None \<Rightarrow> ''{'' @ name @ ''}'') @ substituteString rest look)"
  by pat_completeness auto

termination substituteString
  by (relation "measure (length \<circ> fst)") (auto dest: match_var_shorter)

fun substituteValue :: "val \<Rightarrow> (string \<Rightarrow> string option) \<Rightarrow> val" where
  "substituteValue (VStr s) look = VStr (substituteString s look)"
| "substituteValue (VStrs ss) look = VStrs (map (\<lambda>s. substituteString s look) ss)"
| "substituteValue (VList vs) look = VList (map (\<lambda>v. substituteValue v look) vs)"
| "substituteValue v look = v"

definition substituteProperties ::
  "(string \<times> val) list \<Rightarrow> (string \<Rightarrow> string option) \<Rightarrow> (string \<times> val) list" where
  "substituteProperties props look = map (\<lambda>(k, v). (k, substituteValue v look)) props"

section \<open>Redaction\<close>

fun redact_loop :: "string \<Rightarrow> string list \<Rightarrow> string" where
  "redact_loop s [] = s"
| "redact_loop s (v # vs) =
     (if v = [] then redact_loop s vs else redact_loop (ReplaceAll s v RedactedPlaceholder) vs)"

definition redact :: "string \<Rightarrow> string list \<Rightarrow> string" where
  "redact s sensitive = (if s = [] \<or> sensitive = [] then s else redact_loop s sensitive)"

definition redactNotes :: "string list \<Rightarrow> string list \<Rightarrow> string list" where
  "redactNotes notes sensitive =
     (if sensitive = [] \<or> notes = [] then notes else map (\<lambda>n. redact n sensitive) notes)"

definition redactError :: "string option \<Rightarrow> string list \<Rightarrow> string option" where
  "redactError err sensitive =
     (case err of
        None \<Rightarrow> None
      | Some msg \<Rightarrow> if sensitive = [] then Some msg else Some (redact msg sensitive))"

section \<open>Running a step\<close>

record Result =
  res_Succeeded :: bool
  res_Changed :: bool
  res_Notes :: "string list"

datatype shell_exit = ShellOk | ShellNonzero | ShellError string

text \<open>
  The world a step runs in: the shell test, the secret store, and the ingredient that
  is constructed for a step, with the result and error of \<open>Test\<close> and of \<open>Apply\<close>.
\<close>

record step_world =
  sw_shell :: "string \<Rightarrow> shell_exit"
  sw_sdb :: "string \<Rightarrow> string + string"
  sw_cooker :: "StepID \<Rightarrow> string \<Rightarrow> string \<Rightarrow> (string \<times> val) list \<Rightarrow>
     string + (Result \<times> string option) \<times> (Result \<times> string option)"

text \<open>The error quotes the test as \<open>%q\<close> does a text without characters to escape.\<close>

definition evalCond :: "step_world \<Rightarrow> Cond option \<Rightarrow> string + bool" where
  "evalCond w cond =
     (case cond of
        None \<Rightarrow> Inr True
      | Some c \<Rightarrow>
          (case sw_shell w (cond_Test c) of
             ShellError msg \<Rightarrow> Inl (''evaluating cond '' @ [CHR 0x22] @ cond_Test c @ [CHR 0x22] @ '': '' @ msg)
           | out \<Rightarrow> Inr (if cond_Negate c then out \<noteq> ShellOk else out = ShellOk)))"

text \<open>
  The goroutines of a run share the variables; the map is locked for each access, and
  between two accesses of one goroutine the others may do anything to it.  What they do before
  the accesses of one goroutine is a parameter, one function for each access.

  Each secret is set in the order of the map's iteration; those before a failing one are kept.
\<close>

type_synonym interference = "nat \<Rightarrow> run_vars \<Rightarrow> run_vars"

fun resolveSecrets :: "step_world \<Rightarrow> interference \<Rightarrow> (string \<times> string) list \<Rightarrow> run_vars \<Rightarrow> run_vars \<times> string option" where
  "resolveSecrets w others [] vars = (vars, None)"
| "resolveSecrets w others ((name, ref) # rest) vars =
     (case sw_sdb w ref of
        Inl err \<Rightarrow> (vars, Some (''resolve secret '' @ name @ '' ('' @ ref @ ''): '' @ err))
      | Inr v \<Rightarrow> resolveSecrets w (\<lambda>i. others (Suc i)) rest (vars_set (others 0 vars) name v True))"

definition captureRegisterValue :: "Result \<Rightarrow> string" where
  "captureRegisterValue res = (if res_Notes res = [] then [] else Join (res_Notes res) [CHR 0x0A])"

definition register_result :: "('a exit_step_scheme) \<Rightarrow> bool \<Rightarrow> Result \<Rightarrow> run_vars \<Rightarrow> run_vars" where
  "register_result step testMode res vars =
     (case st_Register step of
        Some r \<Rightarrow> if \<not> testMode then vars_set vars (reg_Name r) (captureRegisterValue res) (reg_Sensitive r) else vars
      | None \<Rightarrow> vars)"

text \<open>\<open>runOnExit\<close>: failures are logged only; what is left is the variables.\<close>

fun runOnExit ::
  "step_world \<Rightarrow> (nat \<Rightarrow> interference) \<Rightarrow> exit_step list \<Rightarrow> run_vars \<Rightarrow> (string \<times> string) list \<Rightarrow> bool \<Rightarrow> run_vars" where
  "runOnExit w others [] vars ctx testMode = vars"
| "runOnExit w others (step # steps) vars ctx testMode =
     (case resolveSecrets w (others 0) (st_Secrets step) vars of
        (vars1, Some err) \<Rightarrow> runOnExit w (\<lambda>i. others (Suc (Suc i))) steps vars1 ctx testMode
      | (vars1, None) \<Rightarrow>
          (let vars2 = others 1 0 vars1; props = substituteProperties (st_Properties step) (vars_lookup vars2 ctx) in
           case sw_cooker w (st_ID step) (st_Ingredient step) (st_Method step) props of
             Inl err \<Rightarrow> runOnExit w (\<lambda>i. others (Suc (Suc i))) steps vars2 ctx testMode
           | Inr (test, apply) \<Rightarrow>
               runOnExit w (\<lambda>i. others (Suc (Suc i))) steps
                 (register_result step testMode (fst (if testMode then test else apply)) (others 1 1 vars2)) ctx testMode))"

text \<open>
  The goroutine of a step: the variables it leaves and the completion it sends.
  \<open>started\<close> and \<open>duration\<close> are its clock readings.
\<close>

definition run_step ::
  "step_world \<Rightarrow> (nat \<Rightarrow> interference) \<Rightarrow> (string \<times> string) list \<Rightarrow> bool \<Rightarrow> int \<Rightarrow> int \<Rightarrow> Step \<Rightarrow> run_vars \<Rightarrow>
   run_vars \<times> StepCompletion" where
  "run_step w others ctx testMode started duration step vars =
     (let report = (\<lambda>status changed notes err. \<lparr>sc_ID = st_ID step, sc_Status = status, sc_ChangesMade = changed,
            sc_Changes = notes, sc_Started = started, sc_Duration = duration, sc_Error = err\<rparr>) in
      case evalCond w (st_Cond step) of
        Inl err \<Rightarrow> (vars, report StepFailed False [] (Some err))
      | Inr False \<Rightarrow> (vars, report StepSkipped False [] None)
      | Inr True \<Rightarrow>
          (case resolveSecrets w (others 0) (st_Secrets step) vars of
             (vars1, Some err) \<Rightarrow> (vars1, report StepFailed False [] (Some err))
           | (vars1, None) \<Rightarrow>
               (let vars2 = others 1 0 vars1; props = substituteProperties (st_Properties step) (vars_lookup vars2 ctx) in
                case sw_cooker w (st_ID step) (st_Ingredient step) (st_Method step) props of
                  Inl err \<Rightarrow> (runOnExit w (\<lambda>i. others (Suc (Suc i))) (st_OnExit step) vars2 ctx testMode, report StepFailed False [] (Some err))
                | Inr (test, apply) \<Rightarrow>
                    (let (res, err) = (if testMode then test else apply);
                         vars3 = register_result step testMode res (others 1 1 vars2);
                         vars4 = runOnExit w (\<lambda>i. others (Suc (Suc i))) (st_OnExit step) vars3 ctx testMode;
                         vars5 = others 1 2 vars4;
                         changed = (\<not> testMode \<and> res_Changed res);
                         notes = (if testMode then [] else res_Notes res);
                         status = (if res_Succeeded res then StepCompleted else StepFailed);
                         sensitive = sensitiveValues vars5
                     in (vars5, report status changed (redactNotes notes sensitive) (redactError err sensitive))))))"

section \<open>What substitution does\<close>

text \<open>A text as its author sees it: literal parts and variable references.\<close>

datatype piece = Lit string | Ref string

fun piece_ok :: "piece \<Rightarrow> bool" where
  "piece_ok (Lit s) = (CHR ''{'' \<notin> set s)"
| "piece_ok (Ref name) = (name \<noteq> [] \<and> name_first (hd name) \<and> list_all name_char name)"

fun print_piece :: "piece \<Rightarrow> string" where
  "print_piece (Lit s) = s"
| "print_piece (Ref name) = ''{'' @ name @ ''}''"

fun value_of :: "(string \<Rightarrow> string option) \<Rightarrow> piece \<Rightarrow> string" where
  "value_of look (Lit s) = s"
| "value_of look (Ref name) = (case look name of Some v \<Rightarrow> v | None \<Rightarrow> ''{'' @ name @ ''}'')"

lemma substituteString_literal:
  "CHR ''{'' \<notin> set s \<Longrightarrow> substituteString (s @ rest) look = s @ substituteString rest look"
  by (induction s) (auto simp: match_var_def)

lemma match_var_ref:
  assumes "piece_ok (Ref name)"
  shows "match_var (''{'' @ name @ ''}'' @ rest) = Some (name, rest)"
proof -
  have "\<not> name_char CHR ''}''" by (simp add: name_char_def name_first_def)
  moreover have "takeWhile name_char (name @ CHR ''}'' # rest) = name"
    "dropWhile name_char (name @ CHR ''}'' # rest) = CHR ''}'' # rest"
    using assms calculation by (auto simp: list_all_iff takeWhile_append2 dropWhile_append2)
  ultimately show ?thesis using assms by (simp add: match_var_def)
qed

lemma substituteString_ref:
  "piece_ok (Ref name) \<Longrightarrow>
   substituteString (''{'' @ name @ ''}'' @ rest) look = value_of look (Ref name) @ substituteString rest look"
  using match_var_ref[of name rest] by (simp split: option.splits)

text \<open>
  Substitution replaces each reference of a text by the variable's value
  and nothing else: a reference to an unknown variable and every literal part stay,
  and braces inside a value are not looked at again.
\<close>

theorem substituteString_exact:
  assumes "list_all piece_ok pieces"
  shows "substituteString (concat (map print_piece pieces)) look = concat (map (value_of look) pieces)"
  using assms
proof (induction pieces)
  case (Cons p pieces)
  then show ?case
    using substituteString_literal[of _ "concat (map print_piece pieces)" look]
      substituteString_ref[of _ "concat (map print_piece pieces)" look]
    by (cases p) auto
qed simp

theorem substituteString_exact_witness:
  "substituteString ''x={A}{B}!'' (map_of [(''A'', ''{B}'')]) = ''x={B}{B}!''"
  using substituteString_exact[of "[Lit ''x='', Ref ''A'', Ref ''B'', Lit ''!'']" "map_of [(''A'', ''{B}'')]"]
  by (simp add: name_char_def name_first_def)

section \<open>What a report may contain\<close>

lemma run_step_outcome: "step_outcome (st_ID step) (snd (run_step w others ctx testMode started duration step vars))"
  by (auto simp: run_step_def step_outcome_def Let_def split: sum.split prod.split option.split bool.split)

text \<open>A value that cannot be confused with the placeholder.\<close>

definition plain_secret :: "string \<Rightarrow> bool" where
  "plain_secret v \<longleftrightarrow> v \<noteq> [] \<and> CHR ''*'' \<notin> set v \<and> \<not> sublist v ''REDACTED''"

lemma plain_secret_apart:
  assumes "plain_secret v"
  shows "apart v RedactedPlaceholder"
proof -
  have star: "CHR ''*'' \<notin> set v" and v: "v \<noteq> []" "\<not> sublist v ''REDACTED''" using assms by (auto simp: plain_secret_def)
  have "sublist v (RedactedPlaceholder @ r) \<longleftrightarrow> sublist v r" for r
    using sublist_sep[OF star, of "[]"] sublist_sep[OF star, of "''REDACTED''"] v by (simp add: RedactedPlaceholder_def)
  then show ?thesis using star v by (auto simp: apart_def RedactedPlaceholder_def)
qed

lemma redact_loop_keeps:
  "plain_secret v \<Longrightarrow> \<not> sublist v s \<Longrightarrow> \<not> sublist v (redact_loop s vs)"
  by (induction s vs rule: redact_loop.induct) (auto dest: sublist_ReplaceAll[OF plain_secret_apart])

lemma redact_loop_removes:
  "v \<in> set vs \<Longrightarrow> plain_secret v \<Longrightarrow> \<not> sublist v (redact_loop s vs)"
proof (induction s vs rule: redact_loop.induct)
  case (2 s u us)
  show ?case
  proof (cases "v = u")
    case True
    then have "\<not> sublist v (ReplaceAll s u RedactedPlaceholder)"
      using ReplaceAll_no_match[OF plain_secret_apart[OF "2.prems"(2)]] by simp
    then show ?thesis using True "2.prems"(2) redact_loop_keeps by (auto simp: plain_secret_def)
  qed (use 2 in auto)
qed simp

lemma redact_removes: "v \<in> set sensitive \<Longrightarrow> plain_secret v \<Longrightarrow> \<not> sublist v (redact s sensitive)"
  using redact_loop_removes[of v sensitive s] by (auto simp: redact_def plain_secret_def)

text \<open>The step got as far as its ingredient's \<open>Test\<close> or \<open>Apply\<close>.\<close>

definition attempted :: "step_world \<Rightarrow> (nat \<Rightarrow> interference) \<Rightarrow> (string \<times> string) list \<Rightarrow> Step \<Rightarrow> run_vars \<Rightarrow> bool" where
  "attempted w others ctx step vars =
     (evalCond w (st_Cond step) = Inr True \<and>
      (case resolveSecrets w (others 0) (st_Secrets step) vars of
         (vars1, Some err) \<Rightarrow> False
       | (vars1, None) \<Rightarrow> \<not> isl (sw_cooker w (st_ID step) (st_Ingredient step) (st_Method step)
            (substituteProperties (st_Properties step) (vars_lookup (others 1 0 vars1) ctx)))))"

text \<open>The names a step registers, and those its \<open>on_exit\<close> steps register or resolve; the other goroutines leave a name alone.\<close>

definition registers :: "'a exit_step_scheme \<Rightarrow> string \<Rightarrow> bool" where
  "registers step n = (\<exists>r. st_Register step = Some r \<and> reg_Name r = n)"

definition rebinds :: "Step \<Rightarrow> string \<Rightarrow> bool" where
  "rebinds step n = (registers step n \<or> (\<exists>x \<in> set (st_OnExit step). registers x n \<or> n \<in> fst ` set (st_Secrets x)))"

definition left_alone :: "interference \<Rightarrow> string \<Rightarrow> bool" where
  "left_alone others n = (\<forall>i vars. map_of (others i vars) n = map_of vars n)"

lemma left_alone_Suc: "left_alone others n \<Longrightarrow> left_alone (\<lambda>i. others (Suc i)) n"
  by (simp add: left_alone_def)

lemma vars_set_get: "map_of (vars_set vars m v s) n = (if n = m \<and> m \<noteq> [] then Some \<lparr>rv_value = v, rv_sensitive = s\<rparr> else map_of vars n)"
  by (simp add: vars_set_def update_conv')

lemma resolve_keeps:
  "left_alone others n \<Longrightarrow> n \<notin> fst ` set secrets \<Longrightarrow> map_of (fst (resolveSecrets w others secrets vars)) n = map_of vars n"
proof (induction w others secrets vars rule: resolveSecrets.induct)
  case (2 w others name ref rest vars)
  then show ?case using left_alone_Suc[OF "2.prems"(1)] by (auto simp: vars_set_get left_alone_def split: sum.splits)
qed simp

lemma resolve_sets:
  "left_alone others n \<Longrightarrow> distinct (map fst secrets) \<Longrightarrow> (n, ref) \<in> set secrets \<Longrightarrow> sw_sdb w ref = Inr v \<Longrightarrow> n \<noteq> [] \<Longrightarrow>
   snd (resolveSecrets w others secrets vars) = None \<Longrightarrow>
   map_of (fst (resolveSecrets w others secrets vars)) n = Some \<lparr>rv_value = v, rv_sensitive = True\<rparr>"
proof (induction w others secrets vars rule: resolveSecrets.induct)
  case (2 w others name r rest vars)
  obtain u where u: "sw_sdb w r = Inr u" using "2.prems"(6) by (cases "sw_sdb w r") auto
  show ?case
  proof (cases "name = n")
    case True
    then have "n \<notin> fst ` set rest" "u = v" using "2.prems"(2-4) u by (force simp: rev_image_eqI)+
    then show ?thesis
      using resolve_keeps[OF left_alone_Suc[OF "2.prems"(1)], of rest w] u True "2.prems"(5) by (simp add: vars_set_get)
  next
    case False
    then show ?thesis using 2 u left_alone_Suc[OF "2.prems"(1)] by auto
  qed
qed simp

lemma register_keeps: "\<not> registers step n \<Longrightarrow> map_of (register_result step testMode res vars) n = map_of vars n"
  by (auto simp: register_result_def registers_def vars_set_get split: option.splits)

lemma runOnExit_keeps:
  "\<forall>i. left_alone (others i) n \<Longrightarrow> \<forall>x \<in> set steps. \<not> registers x n \<and> n \<notin> fst ` set (st_Secrets x) \<Longrightarrow>
   map_of (runOnExit w others steps vars ctx testMode) n = map_of vars n"
proof (induction w others steps vars ctx testMode rule: runOnExit.induct)
  case (2 w others step steps vars ctx testMode)
  obtain vars1 e where r: "resolveSecrets w (others 0) (st_Secrets step) vars = (vars1, e)" by (meson surj_pair)
  have v1: "map_of vars1 n = map_of vars n"
    using resolve_keeps[of "others 0" n "st_Secrets step" w vars] "2.prems" r by simp
  have la: "\<forall>i. left_alone (others (Suc (Suc i))) n" "\<forall>i vars. map_of (others 1 i vars) n = map_of vars n"
    using "2.prems"(1) by (simp_all add: left_alone_def)
  then show ?case
    using 2 r v1 by (auto simp: register_keeps Let_def split: option.splits sum.splits)
qed simp

text \<open>A value a step holds as sensitive under a name it does not set again is sensitive when it reports.\<close>

lemma sensitive_at_report:
  assumes run: "run_step w others ctx testMode started duration step vars = (vars', c)" and at: "attempted w others ctx step vars"
    and alone: "\<forall>i. left_alone (others i) n" and once: "\<not> rebinds step n" "n \<noteq> []" "distinct (map fst (st_Secrets step))"
    and held: "(map_of vars n = Some \<lparr>rv_value = v, rv_sensitive = True\<rparr> \<and> n \<notin> fst ` set (st_Secrets step)) \<or>
      (\<exists>ref. (n, ref) \<in> set (st_Secrets step) \<and> sw_sdb w ref = Inr v)"
    and "v \<noteq> []"
  shows "v \<in> set (sensitiveValues vars')"
proof -
  obtain vars1 where r: "resolveSecrets w (others 0) (st_Secrets step) vars = (vars1, None)"
    using at by (auto simp: attempted_def split: prod.splits option.splits)
  have "map_of vars1 n = Some \<lparr>rv_value = v, rv_sensitive = True\<rparr>"
    using held alone once(2,3) resolve_keeps[of "others 0" n "st_Secrets step" w vars] resolve_sets[of "others 0" n "st_Secrets step" _ w v vars] r
    by auto
  moreover have "map_of vars' n = map_of vars1 n"
    using run at once(1) alone runOnExit_keeps[of "\<lambda>i. others (Suc (Suc i))" n "st_OnExit step"]
    by (auto simp: run_step_def attempted_def r Let_def rebinds_def register_keeps left_alone_def isl_def split: sum.splits prod.splits)
  ultimately have "(n, \<lparr>rv_value = v, rv_sensitive = True\<rparr>) \<in> set vars'" by (simp add: map_of_SomeD)
  then show ?thesis using assms(8) by (force simp: sensitiveValues_def)
qed

text \<open>
  Property C31. The notes a step reports, and its error once the step was attempted, contain
  no value that is marked sensitive when the report is made.  That covers every secret the
  step resolved and every sensitive variable it found, under a name that neither the step,
  nor its \<open>on_exit\<close> steps, nor another goroutine set again in between; a name set again protects
  its earlier value no longer (see \<open>register_over_secret_leaks\<close>).  The value must not itself look
  like part of the placeholder, and the secrets of a step have distinct names, as in a map.
\<close>

theorem step_report_redacted:
  assumes "run_step w others ctx testMode started duration step vars = (vars', c)"
    and "plain_secret v" "distinct (map fst (st_Secrets step))"
    and "v \<in> set (sensitiveValues vars') \<or>
      (\<exists>n. n \<noteq> [] \<and> (\<forall>i. left_alone (others i) n) \<and> \<not> rebinds step n \<and>
         (map_of vars n = Some \<lparr>rv_value = v, rv_sensitive = True\<rparr> \<and> n \<notin> fst ` set (st_Secrets step) \<or>
          (\<exists>ref. (n, ref) \<in> set (st_Secrets step) \<and> sw_sdb w ref = Inr v)))"
  shows "(\<forall>n \<in> set (sc_Changes c). \<not> sublist v n) \<and>
    (attempted w others ctx step vars \<longrightarrow> (\<forall>msg. sc_Error c = Some msg \<longrightarrow> \<not> sublist v msg))"
proof (cases "attempted w others ctx step vars")
  case True
  then have v: "v \<in> set (sensitiveValues vars')"
    using assms(2-4) sensitive_at_report[OF assms(1) True] by (auto simp: plain_secret_def)
  have clean: "\<forall>n \<in> set (redactNotes ns (sensitiveValues vars')). \<not> sublist v n" for ns
    using v assms(2) redact_removes by (auto simp: redactNotes_def split: if_splits)
  have err: "redactError e (sensitiveValues vars') = Some msg \<Longrightarrow> \<not> sublist v msg" for e msg
    using v assms(2) redact_removes by (auto simp: redactError_def split: option.splits if_splits)
  obtain vars1 where r: "resolveSecrets w (others 0) (st_Secrets step) vars = (vars1, None)"
    using True by (auto simp: attempted_def split: prod.splits option.splits)
  show ?thesis using assms(1) True clean err
    by (auto simp: run_step_def attempted_def r Let_def isl_def split: sum.splits prod.splits)
next
  case False
  then have "sc_Changes c = []"
    using assms(1) by (auto simp: run_step_def attempted_def Let_def split: sum.splits prod.splits option.splits bool.splits)
  then show ?thesis using False by simp
qed

definition secret_step :: Step where
  "secret_step = \<lparr>st_Ingredient = ''cmd'', st_Method = ''run'', st_ID = ''s'', st_Properties = [(''name'', VStr ''use {PW}'')],
     st_Register = None, st_Secrets = [(''PW'', ''sdb://pw'')], st_Requisites = [], st_IsRequisite = False,
     st_Cond = None, st_OnExit = []\<rparr>"

text \<open>An ingredient that notes its \<open>name\<close> property and fails with it.\<close>

definition echo_world :: step_world where
  "echo_world = \<lparr>sw_shell = (\<lambda>_. ShellOk), sw_sdb = (\<lambda>ref. if ref = ''sdb://pw'' then Inr ''s3cret'' else Inl ''no such key''),
     sw_cooker = (\<lambda>i ing meth props. let s = as_string (map_of props ''name''); r = \<lparr>res_Succeeded = False, res_Changed = True, res_Notes = [s]\<rparr>
        in Inr ((r, Some s), (r, Some s)))\<rparr>"

theorem step_report_redacted_witness:
  "\<not> sublist ''s3cret'' (hd (sc_Changes (snd (run_step echo_world (\<lambda>_ _. id) [] False 0 1 secret_step []))))"
proof -
  let ?r = "run_step echo_world (\<lambda>_ _. id) [] False 0 1 secret_step []"
  have "plain_secret ''s3cret''" and *: "sc_Changes (snd ?r) = [''use **REDACTED**'']" by code_simp+
  moreover have "(\<forall>i. left_alone ((\<lambda>_ _. id) i) ''PW'') \<and> \<not> rebinds secret_step ''PW'' \<and> distinct (map fst (st_Secrets secret_step)) \<and>
      (''PW'', ''sdb://pw'') \<in> set (st_Secrets secret_step) \<and> sw_sdb echo_world ''sdb://pw'' = Inr ''s3cret''"
    by (simp add: left_alone_def rebinds_def registers_def secret_step_def echo_world_def)
  ultimately show ?thesis
    using step_report_redacted[of echo_world "\<lambda>_ _. id" "[]" False 0 1 secret_step "[]" "fst ?r" "snd ?r" "''s3cret''"] by fastforce
qed

text \<open>
  Registering a plain variable under a secret's name takes the secret out
  of redaction: a step that resolves a secret and registers its own output under the
  same name reports the secret in clear.
\<close>

theorem register_over_secret_leaks:
  "sc_Changes (snd (run_step echo_world (\<lambda>_ _. id) [] False 0 1
     (secret_step\<lparr>st_Register := Some \<lparr>reg_Name = ''PW'', reg_Sensitive = False\<rparr>\<rparr>) [])) = [''use s3cret'']"
  by code_simp

text \<open>An ingredient whose constructor rejects its argument and names it.\<close>

definition reject_world :: step_world where
  "reject_world = echo_world\<lparr>sw_cooker := (\<lambda>i ing meth props. Inl (''invalid permission '' @ as_string (map_of props ''name'')))\<rparr>"

text \<open>
  An error of the ingredient's constructor is reported as it is: when it
  quotes a property into which a secret was substituted, the report contains the
  secret although the run knows it is sensitive.
\<close>

theorem constructor_error_not_redacted:
  "sensitiveValues (fst (run_step reject_world (\<lambda>_ _. id) [] False 0 1 secret_step [])) = [''s3cret''] \<and>
   sc_Error (snd (run_step reject_world (\<lambda>_ _. id) [] False 0 1 secret_step [])) = Some ''invalid permission use s3cret''"
  by code_simp

end
