(* ===== verification/Go_Encoding.thy ===== *)
theory Go_Encoding
  imports Jobs_Store
begin

text \<open>
  The encodings of the standard library that the release code uses: \<open>encoding/base64\<close>
  with the standard alphabet (encoding, and decoding in strict mode), \<open>encoding/hex\<close>, and
  \<open>strconv.Itoa\<close> with \<open>Atoi\<close>, each with its round trip.  Byte strings are character lists.
\<close>

section \<open>Base 64\<close>

definition b64_alphabet :: string where
  "b64_alphabet = ''ABCDEFGHIJKLMNOPQRSTUVWXYZabcdefghijklmnopqrstuvwxyz0123456789+/''"

definition b64_char :: "nat \<Rightarrow> char" where "b64_char n = b64_alphabet ! n"

definition b64_val :: "char \<Rightarrow> nat option" where
  "b64_val c = map_of (zip b64_alphabet [0..<64]) c"

fun EncodeToString :: "string \<Rightarrow> string" where
  "EncodeToString [] = []"
| "EncodeToString [x] =
     (let a = of_char x in [b64_char (a div 4), b64_char (a mod 4 * 16), CHR ''='', CHR ''=''])"
| "EncodeToString [x, y] =
     (let a = of_char x; b = of_char y in
      [b64_char (a div 4), b64_char (a mod 4 * 16 + b div 16), b64_char (b mod 16 * 4), CHR ''=''])"
| "EncodeToString (x # y # z # rest) =
     (let a = of_char x; b = of_char y; c = of_char z in
      [b64_char (a div 4), b64_char (a mod 4 * 16 + b div 16), b64_char (b mod 16 * 4 + c div 64), b64_char (c mod 64)]
        @ EncodeToString rest)"

text \<open>The strict decoder wants padding and zero bits behind the last byte; it skips line breaks.\<close>

fun decode_quads :: "string \<Rightarrow> string option" where
  "decode_quads [] = Some []"
| "decode_quads (p # q # r # s # rest) =
     (if s = CHR ''='' \<and> rest = [] then
        (if r = CHR ''='' then
           (case (b64_val p, b64_val q) of
              (Some a, Some b) \<Rightarrow> if b mod 16 = 0 then Some [char_of (a * 4 + b div 16)] else None
            | _ \<Rightarrow> None)
         else (case (b64_val p, b64_val q, b64_val r) of
                 (Some a, Some b, Some c) \<Rightarrow>
                   if c mod 4 = 0 then Some [char_of (a * 4 + b div 16), char_of (b mod 16 * 16 + c div 4)] else None
               | _ \<Rightarrow> None))
      else (case (b64_val p, b64_val q, b64_val r, b64_val s) of
              (Some a, Some b, Some c, Some d) \<Rightarrow>
                (case decode_quads rest of
                   None \<Rightarrow> None
                 | Some bs \<Rightarrow> Some (char_of (a * 4 + b div 16) # char_of (b mod 16 * 16 + c div 4) # char_of (c mod 4 * 64 + d) # bs))
            | _ \<Rightarrow> None))"
| "decode_quads [p] = None"
| "decode_quads [p, q] = None"
| "decode_quads [p, q, r] = None"

definition line_break :: "char \<Rightarrow> bool" where
  "line_break c = (c = CHR 0x0A \<or> c = CHR 0x0D)"

definition DecodeStrict :: "string \<Rightarrow> string option" where
  "DecodeStrict s = decode_quads (filter (\<lambda>c. \<not> line_break c) s)"

lemma b64_val_char [simp]: "n < 64 \<Longrightarrow> b64_val (b64_char n) = Some n"
proof -
  have "\<forall>n \<in> set [0..<64]. b64_val (b64_char n) = Some n" by code_simp
  then show "n < 64 \<Longrightarrow> b64_val (b64_char n) = Some n" by simp
qed

lemma b64_char_proper: "n < 64 \<Longrightarrow> b64_char n \<noteq> CHR ''='' \<and> \<not> line_break (b64_char n)"
proof -
  have "\<forall>n \<in> set [0..<64]. b64_char n \<noteq> CHR ''='' \<and> \<not> line_break (b64_char n)" by code_simp
  then show "n < 64 \<Longrightarrow> b64_char n \<noteq> CHR ''='' \<and> \<not> line_break (b64_char n)" by simp
qed

lemma b64_char_val: "b64_val c = Some n \<Longrightarrow> n < 64 \<and> b64_char n = c"
proof -
  have "\<forall>(c, n) \<in> set (zip b64_alphabet [0..<64]). n < 64 \<and> b64_char n = c" by code_simp
  then show "b64_val c = Some n \<Longrightarrow> n < 64 \<and> b64_char n = c"
    unfolding b64_val_def by (auto dest: map_of_SomeD)
qed

lemma byte_less: "(of_char c :: nat) < 256"
  by (metis of_char_mod_256 mod_less_divisor zero_less_numeral)

lemma sextets:
  fixes a b c :: nat
  shows "a < 256 \<Longrightarrow> a div 4 < 64" "a mod 4 * 16 < 64" "b < 256 \<Longrightarrow> a mod 4 * 16 + b div 16 < 64"
    "b mod 16 * 4 < 64" "c < 256 \<Longrightarrow> b mod 16 * 4 + c div 64 < 64" "c mod 64 < 64"
  using mod_less_divisor[of 4 a] mod_less_divisor[of 16 b] by (simp_all add: less_mult_imp_div_less)

lemma octets:
  fixes a b c :: nat
  shows "a div 4 * 4 + a mod 4 = a" "(a mod 4 * 16 + b div 16) mod 16 * 16 = b div 16 mod 16 * 16"
    "b < 256 \<Longrightarrow> (a mod 4 * 16 + b div 16) div 16 = a mod 4" "b < 256 \<Longrightarrow> (a mod 4 * 16 + b div 16) mod 16 = b div 16"
    "c < 256 \<Longrightarrow> (b mod 16 * 4 + c div 64) div 4 = b mod 16" "c < 256 \<Longrightarrow> (b mod 16 * 4 + c div 64) mod 4 = c div 64"
  by (simp_all add: less_mult_imp_div_less div_mult_mod_eq)

lemma byte_parts:
  "(of_char x :: nat) div 16 div 16 = 0" "(of_char x :: nat) div 16 mod 16 = of_char x div 16"
  "(of_char x :: nat) div 64 div 4 = 0" "(of_char x :: nat) div 64 mod 4 = of_char x div 64"
  using byte_less[of x] by (simp_all add: less_mult_imp_div_less)

lemma pad_char [simp]: "\<not> line_break (CHR ''='')"
  by (simp add: line_break_def)

lemma EncodeToString_clean: "list_all (\<lambda>c. \<not> line_break c) (EncodeToString bs)"
  by (induction bs rule: EncodeToString.induct) (simp_all add: Let_def b64_char_proper sextets byte_less)

lemma decode_encode: "decode_quads (EncodeToString bs) = Some bs"
  by (induction bs rule: EncodeToString.induct)
    (auto simp: Let_def b64_char_proper sextets octets byte_less byte_parts)

lemma DecodeStrict_EncodeToString: "DecodeStrict (EncodeToString bs) = Some bs"
proof -
  have "filter (\<lambda>c. \<not> line_break c) (EncodeToString bs) = EncodeToString bs"
    using EncodeToString_clean[of bs] by (simp add: filter_id_conv list_all_iff)
  then show ?thesis by (simp add: DecodeStrict_def decode_encode)
qed

lemma sextet_join:
  fixes a b c d :: nat
  assumes "a < 64" "b < 64" "c < 64" "d < 64"
  shows "a * 4 + b div 16 < 256" "b mod 16 * 16 + c div 4 < 256" "c mod 4 * 64 + d < 256"
    "(a * 4 + b div 16) div 4 = a" "(a * 4 + b div 16) mod 4 = b div 16"
    "(b mod 16 * 16 + c div 4) div 16 = b mod 16" "(b mod 16 * 16 + c div 4) mod 16 = c div 4"
    "(c mod 4 * 64 + d) div 64 = c mod 4" "(c mod 4 * 64 + d) mod 64 = d"
proof -
  have q: "b div 16 < 4" "c div 4 < 16" "b mod 16 < 16" "c mod 4 < 4" using assms by (auto simp: less_mult_imp_div_less)
  then show "a * 4 + b div 16 < 256" "b mod 16 * 16 + c div 4 < 256" "c mod 4 * 64 + d < 256" using assms by linarith+
  show "(a * 4 + b div 16) div 4 = a" "(a * 4 + b div 16) mod 4 = b div 16"
    "(b mod 16 * 16 + c div 4) div 16 = b mod 16" "(b mod 16 * 16 + c div 4) mod 16 = c div 4"
    "(c mod 4 * 64 + d) div 64 = c mod 4" "(c mod 4 * 64 + d) mod 64 = d" using q assms by simp_all
qed

lemma of_char_small [simp]: "n < 256 \<Longrightarrow> (of_char (char_of n :: char) :: nat) = n"
  by (simp add: of_char_of)

lemma encode_decode: "decode_quads s = Some bs \<Longrightarrow> EncodeToString bs = s"
proof (induction s arbitrary: bs rule: decode_quads.induct)
  case (2 p q r s rest)
  show ?case
  proof (cases "s = CHR ''='' \<and> rest = []")
    case True
    then show ?thesis using 2(2)
      by (auto simp: Let_def sextet_join(1-7)[where d = 0] mult_div_mod_eq dest!: b64_char_val split: if_splits option.splits)
  next
    case False
    then obtain a b c d bs' where v: "b64_val p = Some a" "b64_val q = Some b" "b64_val r = Some c" "b64_val s = Some d"
        "decode_quads rest = Some bs'"
        "bs = char_of (a * 4 + b div 16) # char_of (b mod 16 * 16 + c div 4) # char_of (c mod 4 * 64 + d) # bs'"
      using 2(2) by (auto split: option.splits if_splits)
    have "EncodeToString bs' = rest" using 2(1) False v by blast
    moreover note n = b64_char_val[OF v(1)] b64_char_val[OF v(2)] b64_char_val[OF v(3)] b64_char_val[OF v(4)]
    ultimately show ?thesis using v(6) sextet_join[of a b c d] by (simp add: Let_def div_mult_mod_eq)
  qed
qed simp_all

end
