(* ===== verification/Fleetsign.thy ===== *)
theory Fleetsign
  imports Go_Encoding Pki_Enroll
begin

text \<open>
  Release signing on the verifying side (\<open>internal/fleetsign\<close>, and the pinned key set of
  \<open>internal/pki/fleetkey.go\<close>): the message a release is signed over, the form of a
  signature, key sets with their JWKS document, the selection of key versions from the
  Transit server with its cache, and the write-once pin.  Ed25519, the URL parser, the
  JWK library and the Transit server are parameters.
\<close>

section \<open>Releases and signatures\<close>

record Release =
  rl_Version :: string
  rl_ArtifactURL :: string
  rl_ChecksumSHA256 :: string

record URL =
  url_Scheme :: string
  url_Host :: string
  url_User :: bool

datatype fleet_error =
    ErrInvalidRelease | ErrMissingSignature | ErrMalformedSignature | ErrUnknownKeyVersion | ErrInvalidSignature | ErrNoKeys
  | BadKeyVersion | DuplicateKeyVersion | BadKeySize | BadJWKS | ErrReadKeyFailed
  | ErrFleetKeyAlreadyPinned | ErrFleetKeyNotPinned | PinIO

text \<open>\<open>fl_verify key msg sig\<close> is \<open>ed25519.Verify\<close>; \<open>fl_parseURL\<close> is \<open>url.Parse\<close>.\<close>

record fleet_lib =
  fl_verify :: "string \<Rightarrow> string \<Rightarrow> string \<Rightarrow> bool"
  fl_parseURL :: "string \<Rightarrow> URL option"

definition maxVersionLen :: nat where "maxVersionLen = 64"
definition maxArtifactURLLen :: nat where "maxArtifactURLLen = 2048"
definition SignatureSize :: nat where "SignatureSize = 64"
definition PublicKeySize :: nat where "PublicKeySize = 32"

definition bad_field :: "string \<Rightarrow> bool" where
  "bad_field v = (v = [] \<or> CHR ''|'' \<in> set v \<or> list_ex (\<lambda>c. (of_char c :: nat) < 0x20 \<or> c = CHR 0x7F) v)"

definition hex_digit :: "char \<Rightarrow> bool" where
  "hex_digit c = (is_digit c \<or> (97 \<le> (of_char c :: nat) \<and> (of_char c :: nat) \<le> 102) \<or>
     (65 \<le> (of_char c :: nat) \<and> (of_char c :: nat) \<le> 70))"

text \<open>The number of bytes \<open>hex.DecodeString\<close> gives, or \<^term>\<open>None\<close> where it fails.\<close>

definition hex_len :: "string \<Rightarrow> nat option" where
  "hex_len s = (if even (length s) \<and> list_all hex_digit s then Some (length s div 2) else None)"

definition validate :: "fleet_lib \<Rightarrow> Release \<Rightarrow> bool" where
  "validate lib r =
     (if list_ex bad_field [rl_Version r, rl_ArtifactURL r, rl_ChecksumSHA256 r] then False
      else if length (rl_Version r) > maxVersionLen then False
      else if length (rl_ArtifactURL r) > maxArtifactURLLen then False
      else if (case fl_parseURL lib (rl_ArtifactURL r) of
                 None \<Rightarrow> True | Some u \<Rightarrow> url_Scheme u \<noteq> ''https'' \<or> url_Host u = [] \<or> url_User u) then False
      else if hex_len (rl_ChecksumSHA256 r) \<noteq> Some 32 \<or> rl_ChecksumSHA256 r \<noteq> ToLower (rl_ChecksumSHA256 r) then False
      else True)"

definition Message :: "fleet_lib \<Rightarrow> Release \<Rightarrow> fleet_error + string" where
  "Message lib r =
     (if \<not> validate lib r then Inl ErrInvalidRelease
      else Inr (rl_Version r @ ''|'' @ rl_ArtifactURL r @ ''|'' @ rl_ChecksumSHA256 r))"

definition EncodeSignature :: "int \<Rightarrow> string \<Rightarrow> string" where
  "EncodeSignature keyVersion sig = ''v'' @ show_int keyVersion @ '':'' @ EncodeToString sig"

definition DecodeSignature :: "string \<Rightarrow> fleet_error + (int \<times> string)" where
  "DecodeSignature s =
     (if s = [] then Inl ErrMissingSignature
      else case cut_at CHR '':'' s of
             None \<Rightarrow> Inl ErrMalformedSignature
           | Some (ver, b64) \<Rightarrow>
               if \<not> HasPrefix ver ''v'' then Inl ErrMalformedSignature
               else (case ParseInt (drop 1 ver) of
                       None \<Rightarrow> Inl ErrMalformedSignature
                     | Some keyVersion \<Rightarrow>
                         if keyVersion < 1 \<or> drop 1 ver \<noteq> show_int keyVersion then Inl ErrMalformedSignature
                         else (case DecodeStrict b64 of
                                 None \<Rightarrow> Inl ErrMalformedSignature
                               | Some sig \<Rightarrow>
                                   if length sig \<noteq> SignatureSize then Inl ErrMalformedSignature else Inr (keyVersion, sig))))"

section \<open>Key sets\<close>

record PublicKey =
  pk_Version :: int
  pk_Key :: string

type_synonym KeySet = "PublicKey list"

fun add_keys :: "int list \<Rightarrow> PublicKey list \<Rightarrow> fleet_error option" where
  "add_keys seen [] = None"
| "add_keys seen (k # ks) =
     (if pk_Version k < 1 then Some BadKeyVersion
      else if pk_Version k \<in> set seen then Some DuplicateKeyVersion
      else if length (pk_Key k) \<noteq> PublicKeySize then Some BadKeySize
      else add_keys (pk_Version k # seen) ks)"

definition NewKeySet :: "PublicKey list \<Rightarrow> fleet_error + KeySet" where
  "NewKeySet keys =
     (if keys = [] then Inl ErrNoKeys
      else case add_keys [] keys of Some err \<Rightarrow> Inl err | None \<Rightarrow> Inr (sort_key pk_Version keys))"

fun verify_with :: "fleet_lib \<Rightarrow> KeySet \<Rightarrow> int \<Rightarrow> string \<Rightarrow> string \<Rightarrow> fleet_error option" where
  "verify_with lib [] keyVersion msg sig = Some ErrUnknownKeyVersion"
| "verify_with lib (k # ks) keyVersion msg sig =
     (if pk_Version k \<noteq> keyVersion then verify_with lib ks keyVersion msg sig
      else if length (pk_Key k) \<noteq> PublicKeySize \<or> \<not> fl_verify lib (pk_Key k) msg sig then Some ErrInvalidSignature
      else None)"

definition Verify :: "fleet_lib \<Rightarrow> KeySet \<Rightarrow> Release \<Rightarrow> string \<Rightarrow> fleet_error option" where
  "Verify lib ks r signature =
     (if ks = [] then Some ErrNoKeys
      else case Message lib r of
             Inl err \<Rightarrow> Some err
           | Inr msg \<Rightarrow>
               (case DecodeSignature signature of
                  Inl err \<Rightarrow> Some err
                | Inr (keyVersion, sig) \<Rightarrow> verify_with lib ks keyVersion msg sig))"

section \<open>The JWKS document\<close>

text \<open>A JSON web key as the JWK library reads it; \<open>jwk_Raw\<close> is \<^term>\<open>None\<close> unless it holds an Ed25519 public key.\<close>

record JWK =
  jwk_KeyType :: string
  jwk_KeyUsage :: string
  jwk_Algorithm :: string
  jwk_Raw :: "string option"
  jwk_KeyID :: string

record jwk_lib =
  jw_marshal :: "JWK list \<Rightarrow> string option"
  jw_parse :: "string \<Rightarrow> JWK list option"

definition jwk_of :: "PublicKey \<Rightarrow> JWK" where
  "jwk_of k = \<lparr>jwk_KeyType = ''OKP'', jwk_KeyUsage = ''sig'', jwk_Algorithm = ''EdDSA'', jwk_Raw = Some (pk_Key k),
     jwk_KeyID = show_int (pk_Version k)\<rparr>"

definition MarshalJWKS :: "jwk_lib \<Rightarrow> KeySet \<Rightarrow> fleet_error + string" where
  "MarshalJWKS jl ks =
     (if ks = [] then Inl ErrNoKeys
      else case jw_marshal jl (map jwk_of ks) of None \<Rightarrow> Inl BadJWKS | Some doc \<Rightarrow> Inr doc)"

fun parse_keys :: "JWK list \<Rightarrow> fleet_error + PublicKey list" where
  "parse_keys [] = Inr []"
| "parse_keys (key # keys) =
     (if jwk_KeyType key \<noteq> ''OKP'' then Inl BadJWKS
      else if jwk_KeyUsage key \<noteq> [] \<and> jwk_KeyUsage key \<noteq> ''sig'' then Inl BadJWKS
      else if jwk_Algorithm key \<noteq> [] \<and> jwk_Algorithm key \<noteq> ''EdDSA'' then Inl BadJWKS
      else case jwk_Raw key of
             None \<Rightarrow> Inl BadJWKS
           | Some pub \<Rightarrow>
               (case ParseInt (jwk_KeyID key) of
                  None \<Rightarrow> Inl BadJWKS
                | Some version \<Rightarrow>
                    if version < 1 \<or> jwk_KeyID key \<noteq> show_int version then Inl BadJWKS
                    else (case parse_keys keys of
                            Inl err \<Rightarrow> Inl err
                          | Inr ks \<Rightarrow> Inr (\<lparr>pk_Version = version, pk_Key = pub\<rparr> # ks))))"

definition ParseJWKS :: "jwk_lib \<Rightarrow> string \<Rightarrow> fleet_error + KeySet" where
  "ParseJWKS jl data =
     (case jw_parse jl data of
        None \<Rightarrow> Inl BadJWKS
      | Some keyset \<Rightarrow> (case parse_keys keyset of Inl err \<Rightarrow> Inl err | Inr keys \<Rightarrow> NewKeySet keys))"

section \<open>The Transit key source\<close>

text \<open>
  What the server answers to a key read: its type, the versions with their PEM public
  keys in the order the map is visited (the PEM parser's result, \<^term>\<open>None\<close> where it
  fails), and the floor for verification.
\<close>

record transit_data =
  tk_Type :: string
  tk_Keys :: "(string \<times> string option) list"
  tk_MinDecryptionVersion :: int

fun transit_keys :: "int \<Rightarrow> (string \<times> string option) list \<Rightarrow> PublicKey list option" where
  "transit_keys minVersion [] = Some []"
| "transit_keys minVersion ((k, pem) # rest) =
     (case ParseInt k of
        None \<Rightarrow> None
      | Some version \<Rightarrow>
          if version < minVersion then transit_keys minVersion rest
          else (case pem of
                  None \<Rightarrow> None
                | Some pub \<Rightarrow> map_option (\<lambda>ks. \<lparr>pk_Version = version, pk_Key = pub\<rparr> # ks) (transit_keys minVersion rest)))"

definition readKeySet :: "transit_data option \<Rightarrow> fleet_error + KeySet" where
  "readKeySet resp =
     (case resp of
        None \<Rightarrow> Inl ErrReadKeyFailed
      | Some data \<Rightarrow>
          if tk_Type data \<noteq> ''ed25519'' then Inl ErrReadKeyFailed
          else let minVersion = (if tk_MinDecryptionVersion data < 1 then 1 else tk_MinDecryptionVersion data) in
               case transit_keys minVersion (tk_Keys data) of
                 None \<Rightarrow> Inl ErrReadKeyFailed
               | Some keys \<Rightarrow> NewKeySet keys)"

definition keySetCacheTTL :: int where "keySetCacheTTL = 60 * 1000000000"

record TransitKeySource =
  ts_at :: int
  ts_cache :: "KeySet option"

definition source_KeySet ::
  "TransitKeySource \<Rightarrow> int \<Rightarrow> transit_data option \<Rightarrow> TransitKeySource \<times> (fleet_error + KeySet)" where
  "source_KeySet s now resp =
     (case (if now - ts_at s < keySetCacheTTL then ts_cache s else None) of
        Some ks \<Rightarrow> (s, Inr ks)
      | None \<Rightarrow>
          (case readKeySet resp of
             Inl err \<Rightarrow> (s, Inl err)
           | Inr ks \<Rightarrow> (s\<lparr>ts_cache := Some ks, ts_at := now\<rparr>, Inr ks)))"

definition source_Verify ::
  "fleet_lib \<Rightarrow> TransitKeySource \<Rightarrow> int \<Rightarrow> transit_data option \<Rightarrow> Release \<Rightarrow> string \<Rightarrow> TransitKeySource \<times> fleet_error option" where
  "source_Verify lib s now resp r signature =
     (case source_KeySet s now resp of
        (s', Inl err) \<Rightarrow> (s', Some err)
      | (s', Inr ks) \<Rightarrow> (s', Verify lib ks r signature))"

section \<open>The pinned key set of a sprout\<close>

text \<open>
  The pin file, \<^term>\<open>None\<close> while it does not exist.  The environment says whether the
  configured path is set, whether reading and writing work, and what another process
  pins between the read and the link, in which case the call starts over and finds it.
\<close>

record pin_env =
  pe_path :: string
  pe_readable :: bool
  pe_writable :: bool
  pe_raced :: "string option"

definition pin_existing :: "string \<Rightarrow> string \<Rightarrow> fleet_error option" where
  "pin_existing existing jwks = (if TrimSpace existing = TrimSpace jwks then None else Some ErrFleetKeyAlreadyPinned)"

definition PinFleetSigningKeys ::
  "jwk_lib \<Rightarrow> pin_env \<Rightarrow> string \<Rightarrow> string option \<Rightarrow> string option \<times> fleet_error option" where
  "PinFleetSigningKeys jl env jwks pin =
     (case ParseJWKS jl jwks of
        Inl err \<Rightarrow> (pin, Some err)
      | Inr _ \<Rightarrow>
          if pe_path env = [] then (pin, Some PinIO)
          else if \<not> pe_readable env then (pin, Some PinIO)
          else (case pin of
                  Some existing \<Rightarrow> (pin, pin_existing existing jwks)
                | None \<Rightarrow>
                    if \<not> pe_writable env then (None, Some PinIO)
                    else (case pe_raced env of
                            Some other \<Rightarrow> (Some other, pin_existing other jwks)
                          | None \<Rightarrow> (Some jwks, None))))"

definition LoadPinnedFleetSigningKeys :: "jwk_lib \<Rightarrow> pin_env \<Rightarrow> string option \<Rightarrow> fleet_error + KeySet" where
  "LoadPinnedFleetSigningKeys jl env pin =
     (if pe_path env = [] then Inl ErrFleetKeyNotPinned
      else if \<not> pe_readable env then Inl PinIO
      else case pin of None \<Rightarrow> Inl ErrFleetKeyNotPinned | Some data \<Rightarrow> ParseJWKS jl data)"

section \<open>Round trips\<close>

lemma decimal_show:
  assumes "0 \<le> v" "v < 2 ^ 63"
  shows "ParseInt (show_int v) = Some v" "list_all is_digit (show_int v)" "show_int v \<noteq> []"
proof -
  have s: "show_int v = itoa (nat v)" using assms(1) by (simp add: show_int_def itoa_def)
  show d: "list_all is_digit (show_int v)" "show_int v \<noteq> []" unfolding s using itoa_digits by auto
  then obtain c cs where c: "show_int v = c # cs" "is_digit c" by (cases "show_int v") auto
  then have "c \<noteq> CHR ''-''" "c \<noteq> CHR ''+''" by (auto simp: is_digit_def)
  moreover have "int (decimal (show_int v)) = v"
    using assms(1) decimal_digits[of "nat v" "Suc (nat v)"] unfolding s itoa_def by simp
  ultimately show "ParseInt (show_int v) = Some v" using c d assms by (simp add: ParseInt_def)
qed

lemma cut_at_Some: "cut_at c s = Some (a, b) \<longleftrightarrow> s = a @ c # b \<and> c \<notin> set a"
proof
  assume "cut_at c s = Some (a, b)"
  then have "dropWhile (\<lambda>x. x \<noteq> c) s = c # b" "takeWhile (\<lambda>x. x \<noteq> c) s = a"
    using dropWhile_eq_Cons_conv[of "\<lambda>x. x \<noteq> c" s] by (auto simp: cut_at_def split: list.splits)
  then show "s = a @ c # b \<and> c \<notin> set a"
    using takeWhile_dropWhile_id[of "\<lambda>x. x \<noteq> c" s] set_takeWhileD by force
next
  assume "s = a @ c # b \<and> c \<notin> set a"
  then show "cut_at c s = Some (a, b)" by (auto simp: cut_at_append)
qed

lemma cut_at_None: "c \<notin> set s \<Longrightarrow> cut_at c s = None"
  by (cases "cut_at c s") (auto simp: cut_at_Some)

lemma encoded_signature:
  assumes "1 \<le> v" "v < 2 ^ 63" "length sig = SignatureSize"
  shows "DecodeSignature (EncodeSignature v sig) = Inr (v, sig)"
proof -
  have d: "CHR '':'' \<notin> set (''v'' @ show_int v)"
    using decimal_show(2)[of v] assms by (auto simp: list_all_iff is_digit_def)
  have "cut_at CHR '':'' (EncodeSignature v sig) = Some (''v'' @ show_int v, EncodeToString sig)"
    using d by (auto simp: cut_at_Some EncodeSignature_def)
  then show ?thesis using assms decimal_show(1)[of v] DecodeStrict_EncodeToString[of sig]
    by (simp add: DecodeSignature_def EncodeSignature_def HasPrefix_def)
qed

lemma decoded_signature:
  assumes "DecodeSignature s = Inr (v, sig)"
  shows "filter (\<lambda>c. \<not> line_break c) s = EncodeSignature v sig \<and> 1 \<le> v \<and> v < 2 ^ 63 \<and> length sig = SignatureSize"
proof -
  from assms obtain ver b64 where c: "cut_at CHR '':'' s = Some (ver, b64)" "HasPrefix ver ''v''"
      "ParseInt (drop 1 ver) = Some v" "1 \<le> v" "drop 1 ver = show_int v" "DecodeStrict b64 = Some sig" "length sig = SignatureSize"
    by (auto simp: DecodeSignature_def split: if_splits option.splits)
  have v: "v < 2 ^ 63" using c(3) by (auto simp: ParseInt_def Let_def split: if_splits prod.splits)
  have ver: "ver = ''v'' @ show_int v" using c(2,5) by (auto simp: HasPrefix_def prefix_def)
  have "filter (\<lambda>c. \<not> line_break c) b64 = EncodeToString sig"
    using encode_decode[of "filter (\<lambda>c. \<not> line_break c) b64" sig] c(6) by (simp add: DecodeStrict_def)
  moreover have "filter (\<lambda>c. \<not> line_break c) (show_int v) = show_int v"
    using decimal_show(2)[of v] c(4) v by (auto simp: filter_id_conv list_all_iff is_digit_def line_break_def)
  ultimately show ?thesis using c(1,4,7) v by (auto simp: cut_at_Some ver EncodeSignature_def line_break_def)
qed

text \<open>
  A signature written for a key version and 64 bytes reads back as them, and
  whatever reads as a version and a signature is, without line breaks, what would be
  written for them: no second spelling is accepted.
\<close>

theorem signature_roundtrip:
  "(1 \<le> v \<and> v < 2 ^ 63 \<and> length sig = SignatureSize \<longrightarrow> DecodeSignature (EncodeSignature v sig) = Inr (v, sig)) \<and>
   (DecodeSignature s = Inr (w, sig') \<longrightarrow>
     filter (\<lambda>c. \<not> line_break c) s = EncodeSignature w sig' \<and> 1 \<le> w \<and> length sig' = SignatureSize)"
  using encoded_signature decoded_signature by blast

theorem signature_roundtrip_witness:
  "DecodeSignature (EncodeSignature 7 (replicate 64 CHR ''x'')) = Inr (7, replicate 64 CHR ''x'')"
proof -
  have "length (replicate 64 CHR ''x'') = SignatureSize" by (simp add: SignatureSize_def)
  then show ?thesis using signature_roundtrip[of 7 "replicate 64 CHR ''x''"] by simp
qed

section \<open>What a signature binds\<close>

lemma Message_Inr:
  "Message lib r = Inr m \<longleftrightarrow> validate lib r \<and> m = rl_Version r @ CHR ''|'' # rl_ArtifactURL r @ CHR ''|'' # rl_ChecksumSHA256 r"
  by (auto simp: Message_def)

lemma valid_fields:
  "validate lib r \<Longrightarrow> CHR ''|'' \<notin> set (rl_Version r) \<and> CHR ''|'' \<notin> set (rl_ArtifactURL r)"
  by (auto simp: validate_def bad_field_def split: if_splits)

lemma bar_cut: "x \<notin> set a \<Longrightarrow> x \<notin> set a' \<Longrightarrow> a @ x # b = a' @ x # b' \<longleftrightarrow> a = a' \<and> b = b'"
  by (auto simp: append_eq_append_conv2 append_eq_Cons_conv Cons_eq_append_conv)

lemma Message_inj:
  assumes "Message lib r = Inr m" "Message lib r' = Inr m"
  shows "r = (r' :: Release)"
proof -
  have "rl_Version r @ CHR ''|'' # rl_ArtifactURL r @ CHR ''|'' # rl_ChecksumSHA256 r =
      rl_Version r' @ CHR ''|'' # rl_ArtifactURL r' @ CHR ''|'' # rl_ChecksumSHA256 r'"
    using assms by (simp add: Message_Inr)
  then show ?thesis using assms valid_fields[of lib r] valid_fields[of lib r']
    by (simp add: Message_Inr bar_cut)
qed

definition keyset_ok :: "KeySet \<Rightarrow> bool" where
  "keyset_ok ks = (ks \<noteq> [] \<and> sorted_wrt (<) (map pk_Version ks) \<and>
     list_all (\<lambda>k. 1 \<le> pk_Version k \<and> length (pk_Key k) = PublicKeySize) ks)"

lemma verify_with_spec:
  "sorted_wrt (<) (map pk_Version ks) \<Longrightarrow> list_all (\<lambda>k. length (pk_Key k) = PublicKeySize) ks \<Longrightarrow>
   verify_with lib ks v msg sig = None \<longleftrightarrow> (\<exists>k \<in> set ks. pk_Version k = v \<and> fl_verify lib (pk_Key k) msg sig)"
proof (induction ks)
  case (Cons k ks)
  then show ?case by (cases "pk_Version k = v") auto
qed simp

text \<open>
  Property C27. A release passes verification exactly when its fields are valid and the
  signature names a version of the key set whose key verifies it over these very fields;
  the signature binds version, location and checksum, since no other release has the same
  message.
\<close>

theorem Verify_exact:
  assumes "keyset_ok ks"
  shows "(Verify lib ks r signature = None \<longleftrightarrow>
      (\<exists>msg v sig. Message lib r = Inr msg \<and> DecodeSignature signature = Inr (v, sig) \<and>
         (\<exists>k \<in> set ks. pk_Version k = v \<and> fl_verify lib (pk_Key k) msg sig))) \<and>
    (Message lib r = Inr m \<and> Message lib r' = Inr m \<longrightarrow> r = (r' :: Release))"
proof -
  have ks: "ks \<noteq> []" "sorted_wrt (<) (map pk_Version ks)" "list_all (\<lambda>k. length (pk_Key k) = PublicKeySize) ks"
    using assms by (auto simp: keyset_ok_def list_all_iff)
  show ?thesis
    using Message_inj verify_with_spec[OF ks(2,3), of lib] ks(1)
    by (auto simp: Verify_def split: sum.splits)
qed

section \<open>Every key set in use is well formed\<close>

lemma add_keys_None:
  "add_keys seen ks = None \<longleftrightarrow>
   (\<forall>k \<in> set ks. 1 \<le> pk_Version k \<and> pk_Version k \<notin> set seen \<and> length (pk_Key k) = PublicKeySize) \<and> distinct (map pk_Version ks)"
proof (induction ks arbitrary: seen)
  case (Cons k ks)
  have "(\<forall>k' \<in> set ks. pk_Version k' \<noteq> pk_Version k) \<longleftrightarrow> pk_Version k \<notin> pk_Version ` set ks" by (auto simp: image_iff)
  then show ?case using Cons.IH[of "pk_Version k # seen"] by auto
qed simp

lemma sorted_distinct: "sorted xs \<Longrightarrow> distinct xs \<Longrightarrow> sorted_wrt (<) (xs :: int list)"
  by (simp add: strict_sorted_iff)

lemma NewKeySet_Inr:
  "NewKeySet keys = Inr ks \<longleftrightarrow> keys \<noteq> [] \<and> distinct (map pk_Version keys) \<and>
     (\<forall>k \<in> set keys. 1 \<le> pk_Version k \<and> length (pk_Key k) = PublicKeySize) \<and> ks = sort_key pk_Version keys"
  using add_keys_None[of "[]" keys] by (cases "add_keys [] keys") (auto simp: NewKeySet_def)

lemma NewKeySet_ok: "NewKeySet keys = Inr ks \<Longrightarrow> keyset_ok ks \<and> set ks = set keys"
proof -
  assume new: "NewKeySet keys = Inr ks"
  then have ks: "ks = sort_key pk_Version keys" "distinct (map pk_Version keys)" by (auto simp: NewKeySet_Inr)
  have "mset (map pk_Version ks) = mset (map pk_Version keys)" by (simp add: ks(1))
  then have "distinct (map pk_Version ks)" using ks(2) by (metis mset_eq_imp_distinct_iff)
  then have "sorted_wrt (<) (map pk_Version ks)" by (rule sorted_distinct[rotated]) (simp add: ks(1))
  moreover have "ks \<noteq> []" using new set_sort[of pk_Version keys] unfolding NewKeySet_Inr by (metis empty_set set_empty)
  ultimately show ?thesis using new by (auto simp: NewKeySet_Inr keyset_ok_def list_all_iff)
qed

lemma NewKeySet_id: "keyset_ok ks \<Longrightarrow> NewKeySet ks = Inr ks"
  by (auto simp: NewKeySet_Inr keyset_ok_def list_all_iff strict_sorted_iff intro!: sort_key_id_if_sorted[symmetric])

lemma ParseJWKS_ok: "ParseJWKS jl data = Inr ks \<Longrightarrow> keyset_ok ks"
  by (auto simp: ParseJWKS_def dest!: NewKeySet_ok split: option.splits sum.splits)

lemma readKeySet_ok: "readKeySet resp = Inr ks \<Longrightarrow> keyset_ok ks"
  by (auto simp: readKeySet_def Let_def dest!: NewKeySet_ok split: option.splits if_splits)

definition source_ok :: "TransitKeySource \<Rightarrow> bool" where
  "source_ok s = (case ts_cache s of None \<Rightarrow> True | Some ks \<Rightarrow> keyset_ok ks)"

lemma source_KeySet_ok:
  assumes "source_ok s" "source_KeySet s now resp = (s', res)"
  shows "source_ok s' \<and> (\<forall>ks. res = Inr ks \<longrightarrow> keyset_ok ks)"
  using assms by (auto simp: source_KeySet_def source_ok_def dest: readKeySet_ok readKeySet_ok[OF sym] split: option.splits sum.splits if_splits)

text \<open>
  Property C30. Every key set a verifier works with, built from keys, parsed from a
  document, read from the server or its cache, or loaded from the pin, is non-empty, has
  strictly ascending positive versions and keys of 32 bytes.
\<close>

theorem key_sets_well_formed:
  assumes "source_ok s"
  shows "(NewKeySet keys = Inr ks \<longrightarrow> keyset_ok ks) \<and> (ParseJWKS jl data = Inr ks \<longrightarrow> keyset_ok ks) \<and>
    (LoadPinnedFleetSigningKeys jl env pin = Inr ks \<longrightarrow> keyset_ok ks) \<and>
    (snd (source_KeySet s now resp) = Inr ks \<longrightarrow> keyset_ok ks) \<and> source_ok (fst (source_KeySet s now resp))"
  using NewKeySet_ok[of keys ks] ParseJWKS_ok source_KeySet_ok[OF assms surjective_pairing]
  by (auto simp: LoadPinnedFleetSigningKeys_def split: if_splits option.splits)

theorem key_sets_well_formed_witness:
  "keyset_ok (case NewKeySet [\<lparr>pk_Version = 2, pk_Key = replicate 32 CHR ''b''\<rparr>, \<lparr>pk_Version = 1, pk_Key = replicate 32 CHR ''a''\<rparr>]
     of Inr ks \<Rightarrow> ks | Inl e \<Rightarrow> [])"
proof -
  let ?keys = "[\<lparr>pk_Version = 2, pk_Key = replicate 32 CHR ''b''\<rparr>, \<lparr>pk_Version = 1, pk_Key = replicate 32 CHR ''a''\<rparr>]"
  have "source_ok \<lparr>ts_at = 0, ts_cache = None\<rparr>" by (simp add: source_ok_def)
  moreover have "NewKeySet ?keys = Inr (sort_key pk_Version ?keys)" unfolding NewKeySet_Inr by (simp add: PublicKeySize_def)
  ultimately show ?thesis using key_sets_well_formed[of "\<lparr>ts_at = 0, ts_cache = None\<rparr>" ?keys] by simp
qed

section \<open>Which versions are trusted\<close>

lemma parse_marshalled: "list_all (\<lambda>k. 1 \<le> pk_Version k \<and> pk_Version k < 2 ^ 63) ks \<Longrightarrow> parse_keys (map jwk_of ks) = Inr ks"
proof (induction ks)
  case (Cons k ks)
  then show ?case using decimal_show(1)[of "pk_Version k"] by (simp add: jwk_of_def)
qed simp

lemma transit_keys_Some:
  "transit_keys floor entries = Some keys \<Longrightarrow>
   set keys = {\<lparr>pk_Version = v, pk_Key = pub\<rparr> | v pub k. (k, Some pub) \<in> set entries \<and> ParseInt k = Some v \<and> floor \<le> v}"
proof (induction entries arbitrary: keys)
  case (Cons e entries)
  obtain k pem where e: "e = (k, pem)" by (cases e)
  from Cons.prems obtain v where v: "ParseInt k = Some v" by (auto simp: e split: option.splits)
  show ?case
  proof (cases "v < floor")
    case True
    then show ?thesis using Cons v by (auto simp: e)
  next
    case False
    then obtain pub ks where p: "pem = Some pub" "transit_keys floor entries = Some ks" "keys = \<lparr>pk_Version = v, pk_Key = pub\<rparr> # ks"
      using Cons.prems v by (auto simp: e split: option.splits)
    then show ?thesis using Cons.IH[OF p(2)] v False by (auto simp: e)
  qed
qed simp

text \<open>
  The key set read from the server holds exactly the key versions at or
  above its verification floor (a floor below one counts as one), whatever order the
  server's map is visited in.
\<close>

theorem readKeySet_exact:
  assumes "readKeySet (Some d) = Inr ks"
  shows "set ks = {\<lparr>pk_Version = v, pk_Key = pub\<rparr> | v pub k. (k, Some pub) \<in> set (tk_Keys d) \<and> ParseInt k = Some v \<and>
      max 1 (tk_MinDecryptionVersion d) \<le> v}"
proof -
  let ?floor = "if tk_MinDecryptionVersion d < 1 then 1 else tk_MinDecryptionVersion d"
  have floor: "max 1 (tk_MinDecryptionVersion d) = ?floor" by simp
  from assms obtain keys where keys: "transit_keys ?floor (tk_Keys d) = Some keys" "NewKeySet keys = Inr ks"
    by (auto simp: readKeySet_def Let_def split: option.splits if_splits)
  have "set ks = set keys" using NewKeySet_ok[OF keys(2)] by simp
  then show ?thesis unfolding floor transit_keys_Some[OF keys(1)] .
qed

definition demo_transit :: transit_data where
  "demo_transit = \<lparr>tk_Type = ''ed25519'', tk_Keys = [(''2'', Some (replicate 32 CHR ''b'')), (''1'', None)], tk_MinDecryptionVersion = 2\<rparr>"

theorem readKeySet_exact_witness:
  "readKeySet (Some demo_transit) = Inr [\<lparr>pk_Version = 2, pk_Key = replicate 32 CHR ''b''\<rparr>] \<and>
   set [\<lparr>pk_Version = 2, pk_Key = replicate 32 CHR ''b''\<rparr>] =
     {\<lparr>pk_Version = v, pk_Key = pub\<rparr> | v pub k. (k, Some pub) \<in> set (tk_Keys demo_transit) \<and> ParseInt k = Some v \<and>
      max 1 (tk_MinDecryptionVersion demo_transit) \<le> v}"
proof -
  have p: "ParseInt ''2'' = Some 2" "ParseInt ''1'' = Some 1"
    by (simp_all add: ParseInt_def is_digit_def decimal_def digit_val_def)
  have "readKeySet (Some demo_transit) = Inr [\<lparr>pk_Version = 2, pk_Key = replicate 32 CHR ''b''\<rparr>]"
    unfolding readKeySet_def demo_transit_def by (simp add: p NewKeySet_def PublicKeySize_def)
  from this readKeySet_exact[OF this] show ?thesis by (rule conjI)
qed

text \<open>
  A well-formed key set survives the JWKS document: what is marshalled
  parses back as the same set, given that the JWK library reads what it writes.
\<close>

theorem jwks_roundtrip:
  assumes "\<forall>keys doc. jw_marshal jl keys = Some doc \<longrightarrow> jw_parse jl doc = Some keys"
    and "keyset_ok ks" "list_all (\<lambda>k. pk_Version k < 2 ^ 63) ks" "MarshalJWKS jl ks = Inr doc"
  shows "ParseJWKS jl doc = Inr ks"
proof -
  have "jw_parse jl doc = Some (map jwk_of ks)"
    using assms(1,4) by (auto simp: MarshalJWKS_def split: if_splits option.splits)
  moreover have "parse_keys (map jwk_of ks) = Inr ks"
    using assms(2,3) by (intro parse_marshalled) (auto simp: keyset_ok_def list_all_iff)
  ultimately show ?thesis using NewKeySet_id[OF assms(2)] by (simp add: ParseJWKS_def)
qed

section \<open>The pin is written once\<close>

text \<open>
  A pinned document stays the one pinned, whatever is offered later, and a call succeeds
  exactly when the document offered is, up to surrounding space, the pinned one.
\<close>

lemma pin_write_once:
  assumes "PinFleetSigningKeys jl env jwks pin = (pin', res)"
  shows "(pin = Some doc \<longrightarrow> pin' = Some doc) \<and>
    (res = None \<longrightarrow> (\<exists>doc. pin' = Some doc \<and> TrimSpace doc = TrimSpace jwks \<and> (\<exists>ks. ParseJWKS jl jwks = Inr ks)))"
  using assms by (auto simp: PinFleetSigningKeys_def pin_existing_def split: sum.splits if_splits option.splits) metis

section \<open>A concrete release\<close>

definition demo_fleet_lib :: fleet_lib where
  "demo_fleet_lib = \<lparr>fl_verify = (\<lambda>key msg sig. key = replicate 32 CHR ''k'' \<and> sig = replicate 64 CHR ''x''),
     fl_parseURL = (\<lambda>u. Some \<lparr>url_Scheme = ''https'', url_Host = ''h'', url_User = False\<rparr>)\<rparr>"

definition demo_release :: Release where
  "demo_release = \<lparr>rl_Version = ''1.0'', rl_ArtifactURL = ''https://h/a'', rl_ChecksumSHA256 = replicate 64 CHR ''a''\<rparr>"

definition demo_keys :: KeySet where
  "demo_keys = [\<lparr>pk_Version = 2, pk_Key = replicate 32 CHR ''k''\<rparr>]"

definition demo_signature :: string where
  "demo_signature = EncodeSignature 2 (replicate 64 CHR ''x'')"

lemma demo_keys_ok: "keyset_ok demo_keys"
  by (simp add: keyset_ok_def demo_keys_def PublicKeySize_def)

lemma demo_message: "validate demo_fleet_lib demo_release"
  by code_simp

lemma demo_decoded: "DecodeSignature demo_signature = Inr (2, replicate 64 CHR ''x'')"
  unfolding demo_signature_def by (rule encoded_signature) (simp_all add: SignatureSize_def)

lemma demo_verifies: "Verify demo_fleet_lib demo_keys demo_release demo_signature = None"
proof -
  obtain msg where "Message demo_fleet_lib demo_release = Inr msg" using demo_message by (simp add: Message_def)
  then show ?thesis using demo_decoded by (simp add: Verify_def demo_keys_def demo_fleet_lib_def PublicKeySize_def)
qed

theorem Verify_exact_witness:
  "\<exists>msg v sig. Message demo_fleet_lib demo_release = Inr msg \<and> DecodeSignature demo_signature = Inr (v, sig) \<and>
     (\<exists>k \<in> set demo_keys. pk_Version k = v \<and> fl_verify demo_fleet_lib (pk_Key k) msg sig)"
  using Verify_exact[OF demo_keys_ok, of demo_fleet_lib demo_release demo_signature] demo_verifies by blast

theorem jwks_roundtrip_witness:
  "ParseJWKS \<lparr>jw_marshal = (\<lambda>keys. if keys = map jwk_of demo_keys then Some ''doc'' else None),
      jw_parse = (\<lambda>d. Some (map jwk_of demo_keys))\<rparr> ''doc'' = Inr demo_keys"
proof -
  let ?jl = "\<lparr>jw_marshal = (\<lambda>keys. if keys = map jwk_of demo_keys then Some ''doc'' else None), jw_parse = (\<lambda>d. Some (map jwk_of demo_keys))\<rparr>"
  have "\<forall>keys doc. jw_marshal ?jl keys = Some doc \<longrightarrow> jw_parse ?jl doc = Some keys" by simp
  moreover have "list_all (\<lambda>k. pk_Version k < 2 ^ 63) demo_keys" "MarshalJWKS ?jl demo_keys = Inr ''doc''"
    by (simp_all add: demo_keys_def MarshalJWKS_def)
  ultimately show ?thesis using jwks_roundtrip demo_keys_ok by blast
qed

end
