(* ===== verification/Pki_Access.thy ===== *)
theory Pki_Access
  imports Pki Pki_Enroll
begin

text \<open>
  Who the bus lets in (\<open>internal/pki/tenant.go\<close>, \<open>jwtusers.go\<close>, \<open>nats.go\<close>,
  \<open>resolver.go\<close>, and the account part of \<open>jwtauth.go\<close>): one account per tenant, its
  signed claims on the farmer's disk with the revocation list, the user tokens minted
  under it, and the pushes that carry the claims to the bus.  The JWT library is a
  parameter with its documented laws (\<open>jwt_laws\<close>); a file that cannot be written, a seed
  that cannot be loaded and a push the bus does not take are outcomes of the
  environment.
\<close>

section \<open>Permissions\<close>

record Permissions =
  perm_Pub :: "string list"
  perm_Sub :: "string list"

definition allowAllPermissions :: Permissions where
  "allowAllPermissions = \<lparr>perm_Pub = [''grlx.>'', ''_INBOX.>''], perm_Sub = [''grlx.>'', ''_INBOX.>'']\<rparr>"

definition sproutPermissions :: "string \<Rightarrow> Permissions" where
  "sproutPermissions i =
     \<lparr>perm_Pub = [''grlx.sprouts.announce.'' @ i, ''_INBOX.>'', ''grlx.cook.'' @ i @ ''.>'',
        ''grlx.sprouts.'' @ i @ ''.facts'', ''grlx.sprouts.'' @ i @ ''.fleetsigningkeys''],
      perm_Sub = [''grlx.sprouts.'' @ i @ ''.>'']\<rparr>"

section \<open>The JWT library\<close>

text \<open>
  Account claims, with the fields the farmer assigns; the library's own fields extend the
  record.  \<open>jl_name\<close> stands for setting the name and adding a signing key.  A user token
  is minted from its public key, name, permissions, account and signing key.
\<close>

record AccountClaims =
  ac_Expires :: int
  ac_Conn :: int
  ac_LeafNodeConn :: int

record 'ac jwt_lib =
  jl_new :: "string \<Rightarrow> 'ac AccountClaims_scheme"
  jl_name :: "'ac AccountClaims_scheme \<Rightarrow> string \<Rightarrow> string \<Rightarrow> 'ac AccountClaims_scheme"
  jl_subject :: "'ac AccountClaims_scheme \<Rightarrow> string"
  jl_signing :: "'ac AccountClaims_scheme \<Rightarrow> string \<Rightarrow> bool"
  jl_revoked :: "'ac AccountClaims_scheme \<Rightarrow> string \<Rightarrow> bool"
  jl_clear :: "'ac AccountClaims_scheme \<Rightarrow> string \<Rightarrow> 'ac AccountClaims_scheme"
  jl_revoke :: "'ac AccountClaims_scheme \<Rightarrow> string \<Rightarrow> int \<Rightarrow> 'ac AccountClaims_scheme"
  jl_encode :: "'ac AccountClaims_scheme \<Rightarrow> string option"
  jl_decode :: "string \<Rightarrow> 'ac AccountClaims_scheme option"
  jl_user :: "string \<Rightarrow> string \<Rightarrow> Permissions \<Rightarrow> string \<Rightarrow> string \<Rightarrow> string option"
  jl_userSubject :: "string \<Rightarrow> string option"

definition allUsers :: string where "allUsers = ''*''"

text \<open>
  What the library documents: tokens decode to the claims they were made of, fresh claims
  revoke nobody, revoking and clearing change one entry of the revocation list and no other
  field, and the three limits are fields apart from subject and revocations.
\<close>

definition jwt_laws :: "'ac jwt_lib \<Rightarrow> bool" where
  "jwt_laws lib =
     ((\<forall>ac t. jl_encode lib ac = Some t \<longrightarrow> jl_decode lib t = Some ac) \<and>
      (\<forall>k n s k'. \<not> jl_revoked lib (jl_name lib (jl_new lib k) n s) k') \<and>
      (\<forall>k n s. jl_subject lib (jl_name lib (jl_new lib k) n s) = k \<and> jl_signing lib (jl_name lib (jl_new lib k) n s) s) \<and>
      (\<forall>ac k k'. jl_revoked lib (jl_clear lib ac k) k' = (k' \<noteq> k \<and> jl_revoked lib ac k')) \<and>
      (\<forall>ac k n k'. jl_revoked lib (jl_revoke lib ac k n) k' = (k' = k \<or> jl_revoked lib ac k')) \<and>
      (\<forall>ac k n. jl_subject lib (jl_clear lib ac k) = jl_subject lib ac \<and> jl_subject lib (jl_revoke lib ac k n) = jl_subject lib ac) \<and>
      (\<forall>ac k n s. jl_signing lib (jl_clear lib ac k) s = jl_signing lib ac s \<and> jl_signing lib (jl_revoke lib ac k n) s = jl_signing lib ac s) \<and>
      (\<forall>ac k n. ac_Expires (jl_revoke lib ac k n) = ac_Expires ac \<and> ac_Conn (jl_revoke lib ac k n) = ac_Conn ac \<and>
         ac_LeafNodeConn (jl_revoke lib ac k n) = ac_LeafNodeConn ac) \<and>
      (\<forall>ac x. jl_revoked lib (ac\<lparr>ac_Expires := x\<rparr>) = jl_revoked lib ac \<and> jl_revoked lib (ac\<lparr>ac_Conn := x\<rparr>) = jl_revoked lib ac \<and>
         jl_revoked lib (ac\<lparr>ac_LeafNodeConn := x\<rparr>) = jl_revoked lib ac) \<and>
      (\<forall>ac x. jl_subject lib (ac\<lparr>ac_Expires := x\<rparr>) = jl_subject lib ac \<and> jl_subject lib (ac\<lparr>ac_Conn := x\<rparr>) = jl_subject lib ac \<and>
         jl_subject lib (ac\<lparr>ac_LeafNodeConn := x\<rparr>) = jl_subject lib ac) \<and>
      (\<forall>k n p a s t. jl_user lib k n p a s = Some t \<longrightarrow> jl_userSubject lib t = Some k))"

section \<open>State\<close>

text \<open>The current tenant's account and those provisioned at run time; one constructor per file path.\<close>

datatype account = Legacy | Tenant string

datatype user_path = FarmerUser account | CliUser string | SproutUser account string

datatype hook = Provisioned string | Deprovisioned string

record access =
  acc_pki :: pki_state
  acc_jwts :: "(account \<times> string) list"
  acc_users :: "(user_path \<times> string) list"
  acc_pushed :: "string list"
  acc_hooks :: "hook list"

record 'ac access_env =
  ae_lib :: "'ac jwt_lib"
  ae_now :: int
  ae_natsAuth :: bool
  ae_seeds :: "account \<Rightarrow> (string \<times> string) option"
  ae_writable :: bool
  ae_push :: "string \<Rightarrow> bool"
  ae_farmerKey :: "string option"
  ae_adminKeys :: "string list"

datatype access_error =
    AccPki pki_error | NatsAuthFailed | MaterialFailed | BadClaims | EncodeFailed | WriteFailed | NoFarmerKey | PushFailed

record tenantAccountMaterial =
  tam_pub :: string
  tam_signing :: string
  tam_jwt :: string

section \<open>Users of an account\<close>

definition ensureUserGranted :: "'ac jwt_lib \<Rightarrow> 'ac AccountClaims_scheme \<Rightarrow> string \<Rightarrow> 'ac AccountClaims_scheme \<times> bool" where
  "ensureUserGranted lib ac pubkey =
     (if jl_revoked lib ac pubkey then (jl_clear lib ac pubkey, True) else (ac, False))"

definition ensureUserRevoked :: "'ac jwt_lib \<Rightarrow> int \<Rightarrow> 'ac AccountClaims_scheme \<Rightarrow> string \<Rightarrow> 'ac AccountClaims_scheme \<times> bool" where
  "ensureUserRevoked lib now ac pubkey =
     (if jl_revoked lib ac pubkey then (ac, False) else (jl_revoke lib ac pubkey now, True))"

text \<open>A failure to mint is only logged by the callers.\<close>

definition mintOrReuseUserJWT ::
  "'ac access_env \<Rightarrow> access \<Rightarrow> user_path \<Rightarrow> string \<Rightarrow> string \<Rightarrow> Permissions \<Rightarrow> string \<Rightarrow> string \<Rightarrow> access" where
  "mintOrReuseUserJWT env st path pubkey name perms issuer signing =
     (if (case map_of (acc_users st) path of None \<Rightarrow> False | Some b \<Rightarrow> jl_userSubject (ae_lib env) b = Some pubkey) then st
      else case jl_user (ae_lib env) pubkey name perms issuer signing of
             None \<Rightarrow> st
           | Some signed \<Rightarrow>
               if ae_writable env then st\<lparr>acc_users := AList.update path signed (acc_users st)\<rparr> else st)"

fun sync_accepted ::
  "'ac access_env \<Rightarrow> account \<Rightarrow> string \<Rightarrow> tenantAccountMaterial \<Rightarrow> string list \<Rightarrow> access \<Rightarrow> 'ac AccountClaims_scheme \<Rightarrow> bool \<Rightarrow> access \<times> 'ac AccountClaims_scheme \<times> bool" where
  "sync_accepted env acct tid tam [] st ac changed = (st, ac, changed)"
| "sync_accepted env acct tid tam (s # ss) st ac changed =
     (case findNKeyRowInTenant (acc_pki st) tid s of
        Inl _ \<Rightarrow> sync_accepted env acct tid tam ss st ac changed
      | Inr row \<Rightarrow>
          (let (ac', c) = ensureUserGranted (ae_lib env) ac (nk_NKey row);
               st' = mintOrReuseUserJWT env st (SproutUser acct s) (nk_NKey row) s (sproutPermissions s)
                 (tam_pub tam) (tam_signing tam)
           in sync_accepted env acct tid tam ss st' ac' (changed \<or> c)))"

fun sync_refused :: "'ac access_env \<Rightarrow> string \<Rightarrow> string list \<Rightarrow> access \<Rightarrow> 'ac AccountClaims_scheme \<Rightarrow> bool \<Rightarrow> 'ac AccountClaims_scheme \<times> bool" where
  "sync_refused env tid [] st ac changed = (ac, changed)"
| "sync_refused env tid (s # ss) st ac changed =
     (case findNKeyRowInTenant (acc_pki st) tid s of
        Inl _ \<Rightarrow> sync_refused env tid ss st ac changed
      | Inr row \<Rightarrow>
          (let (ac', c) = ensureUserRevoked (ae_lib env) (ae_now env) ac (nk_NKey row)
           in sync_refused env tid ss st ac' (changed \<or> c)))"

text \<open>The keys of the command line administrators, which only the current tenant's account has.\<close>

fun sync_admins ::
  "'ac access_env \<Rightarrow> tenantAccountMaterial \<Rightarrow> string list \<Rightarrow> access \<Rightarrow> 'ac AccountClaims_scheme \<Rightarrow> bool \<Rightarrow> access \<times> 'ac AccountClaims_scheme \<times> bool" where
  "sync_admins env tam [] st ac changed = (st, ac, changed)"
| "sync_admins env tam (key # keys) st ac changed =
     (let (ac', c) = ensureUserGranted (ae_lib env) ac key;
          st' = mintOrReuseUserJWT env st (CliUser key) key ''grlx-cli'' allowAllPermissions (tam_pub tam) (tam_signing tam)
      in sync_admins env tam keys st' ac' (changed \<or> c))"

definition refused_ids :: "pki_state \<Rightarrow> string \<Rightarrow> string list" where
  "refused_ids pki tid = concat (map (getNKeysByTypeForTenant pki tid) [stateUnaccepted, stateDenied, stateRejected])"

text \<open>
  \<open>syncTenantSprouts\<close> and \<open>syncNatsAuth\<close> differ in the file names and in the
  administrators' keys; the farmer dies when the latter cannot load its own key.
\<close>

definition sync_account ::
  "'ac access_env \<Rightarrow> account \<Rightarrow> string \<Rightarrow> string list \<Rightarrow> tenantAccountMaterial \<Rightarrow> access \<Rightarrow>
   access \<times> (access_error + bool \<times> tenantAccountMaterial)" where
  "sync_account env acct tid admins tam st =
     (case jl_decode (ae_lib env) (tam_jwt tam) of
        None \<Rightarrow> (st, Inl BadClaims)
      | Some ac \<Rightarrow>
          (case ae_farmerKey env of
             None \<Rightarrow> (st, Inl NoFarmerKey)
           | Some farmerKey \<Rightarrow>
               (let (ac1, c1) = ensureUserGranted (ae_lib env) ac farmerKey;
                    st1 = mintOrReuseUserJWT env st (FarmerUser acct) farmerKey ''farmer'' allowAllPermissions
                      (tam_pub tam) (tam_signing tam);
                    (st2, ac2, c2) = sync_admins env tam admins st1 ac1 c1;
                    (st3, ac3, c3) = sync_accepted env acct tid tam (getNKeysByTypeForTenant (acc_pki st2) tid stateAccepted) st2 ac2 c2;
                    (ac4, changed) = sync_refused env tid (refused_ids (acc_pki st3) tid) st3 ac3 c3
                in if \<not> changed then (st3, Inr (False, tam))
                   else case jl_encode (ae_lib env) ac4 of
                          None \<Rightarrow> (st3, Inl EncodeFailed)
                        | Some signed \<Rightarrow>
                            if \<not> ae_writable env then (st3, Inl WriteFailed)
                            else (st3\<lparr>acc_jwts := AList.update acct signed (acc_jwts st3)\<rparr>,
                                  Inr (True, tam\<lparr>tam_jwt := signed\<rparr>)))))"

definition syncTenantSprouts ::
  "'ac access_env \<Rightarrow> tenantAccountMaterial \<Rightarrow> string \<Rightarrow> access \<Rightarrow> access \<times> (access_error + bool \<times> tenantAccountMaterial)" where
  "syncTenantSprouts env tam tid st = sync_account env (Tenant tid) tid [] tam st"

definition syncNatsAuth ::
  "'ac access_env \<Rightarrow> tenantAccountMaterial \<Rightarrow> access \<Rightarrow> access \<times> (access_error + bool \<times> tenantAccountMaterial)" where
  "syncNatsAuth env mat st = sync_account env Legacy (currentTenantID (acc_pki st)) (ae_adminKeys env) mat st"

section \<open>Account material\<close>

text \<open>
  The part \<open>ensureTenantAccountMaterial\<close> and \<open>ensureNatsAuth\<close> share: the claims on disk are
  kept when they are for this key and name its signing key, and minted anew otherwise.
\<close>

definition usable_claims :: "'ac jwt_lib \<Rightarrow> string option \<Rightarrow> string \<Rightarrow> string \<Rightarrow> bool" where
  "usable_claims lib file_content pub signingPub =
     (case file_content of
        None \<Rightarrow> False
      | Some b \<Rightarrow>
          (case jl_decode lib b of
             None \<Rightarrow> False
           | Some ac \<Rightarrow> jl_subject lib ac = pub \<and> jl_signing lib ac signingPub))"

definition ensure_account ::
  "'ac access_env \<Rightarrow> account \<Rightarrow> string \<Rightarrow> access \<Rightarrow> access \<times> (tenantAccountMaterial \<times> bool) option" where
  "ensure_account env acct name st =
     (case ae_seeds env acct of
        None \<Rightarrow> (st, None)
      | Some (pub, signingPub) \<Rightarrow>
          if usable_claims (ae_lib env) (map_of (acc_jwts st) acct) pub signingPub
          then (st, Some (\<lparr>tam_pub = pub, tam_signing = signingPub, tam_jwt = the (map_of (acc_jwts st) acct)\<rparr>, False))
          else case jl_encode (ae_lib env) (jl_name (ae_lib env) (jl_new (ae_lib env) pub) name signingPub) of
                 None \<Rightarrow> (st, None)
               | Some signed \<Rightarrow>
                   if \<not> ae_writable env then (st, None)
                   else (st\<lparr>acc_jwts := AList.update acct signed (acc_jwts st)\<rparr>,
                         Some (\<lparr>tam_pub = pub, tam_signing = signingPub, tam_jwt = signed\<rparr>, True)))"

definition ensureTenantAccountMaterial ::
  "'ac access_env \<Rightarrow> string \<Rightarrow> string \<Rightarrow> access \<Rightarrow> access \<times> (tenantAccountMaterial \<times> bool) option" where
  "ensureTenantAccountMaterial env tid name st = ensure_account env (Tenant tid) name st"

definition ensureNatsAuth :: "'ac access_env \<Rightarrow> access \<Rightarrow> access \<times> tenantAccountMaterial option" where
  "ensureNatsAuth env st =
     (if \<not> ae_natsAuth env then (st, None)
      else let name = (if pki_org (acc_pki st) = [] then ''grlx'' else pki_org (acc_pki st));
               (st', res) = ensure_account env Legacy name st
           in (st', map_option fst res))"

definition ensureTenantAccountLocked ::
  "'ac access_env \<Rightarrow> string \<Rightarrow> string \<Rightarrow> access \<Rightarrow> access \<times> (access_error + tenantAccountMaterial \<times> bool)" where
  "ensureTenantAccountLocked env tid nameHint st =
     (case (case getTenantRow (acc_pki st) tid of
              Inr row \<Rightarrow> if tn_Deleted row then (acc_pki st, Inl ErrTenantDeprovisioned) else (acc_pki st, Inr (tn_Name row, False))
            | Inl err \<Rightarrow>
                if err \<noteq> ErrTenantNotFound then (acc_pki st, Inl err)
                else let name = (if nameHint = [] then tid else nameHint);
                         (pki', uerr) = upsertTenantRow (acc_pki st) tid
                           \<lparr>tn_Name = name, tn_Deleted = False, tn_CreatedAt = ae_now env, tn_AccountPub = []\<rparr>
                     in (pki', case uerr of None \<Rightarrow> Inr (name, True) | Some e \<Rightarrow> Inl e)) of
        (pki1, Inl err) \<Rightarrow> (st\<lparr>acc_pki := pki1\<rparr>, Inl (AccPki err))
      | (pki1, Inr (name, provisioned)) \<Rightarrow>
          (case ensureTenantAccountMaterial env tid name (st\<lparr>acc_pki := pki1\<rparr>) of
             (st1, None) \<Rightarrow> (st1, Inl MaterialFailed)
           | (st1, Some (tam, minted)) \<Rightarrow>
               (case setTenantAccountPub (acc_pki st1) tid (tam_pub tam) of
                  (pki2, Some err) \<Rightarrow> (st1\<lparr>acc_pki := pki2\<rparr>, Inl (AccPki err))
                | (pki2, None) \<Rightarrow> (st1\<lparr>acc_pki := pki2\<rparr>, Inr (tam, provisioned \<or> minted)))))"

text \<open>The hook runs in a goroutine of its own; that it was started is recorded.\<close>

definition ensureTenantAccount ::
  "'ac access_env \<Rightarrow> string \<Rightarrow> string \<Rightarrow> access \<Rightarrow> access \<times> (access_error + tenantAccountMaterial \<times> bool)" where
  "ensureTenantAccount env tid nameHint st =
     (if \<not> IsValidTenantID tid then (st, Inl (AccPki ErrTenantIDInvalid))
      else case ensureNatsAuth env st of
             (st1, None) \<Rightarrow> (st1, Inl NatsAuthFailed)
           | (st1, Some _) \<Rightarrow>
               (case ensureTenantAccountLocked env tid nameHint st1 of
                  (st2, Inl err) \<Rightarrow> (st2, Inl err)
                | (st2, Inr (tam, provisioned)) \<Rightarrow>
                    (if provisioned then st2\<lparr>acc_hooks := acc_hooks st2 @ [Provisioned tid]\<rparr> else st2, Inr (tam, provisioned))))"

section \<open>Pushing\<close>

text \<open>What the bus has taken, in order; it keeps the last claims of each account.\<close>

definition pushAccountUpdate :: "'ac access_env \<Rightarrow> string \<Rightarrow> access \<Rightarrow> access \<times> access_error option" where
  "pushAccountUpdate env token st =
     (if ae_push env token then (st\<lparr>acc_pushed := acc_pushed st @ [token]\<rparr>, None) else (st, Some PushFailed))"

definition ReloadNKeys :: "'ac access_env \<Rightarrow> access \<Rightarrow> access \<times> access_error option" where
  "ReloadNKeys env st =
     (case ensureNatsAuth env st of
        (st1, None) \<Rightarrow> (st1, Some NatsAuthFailed)
      | (st1, Some mat) \<Rightarrow>
          (case syncNatsAuth env mat st1 of
             (st2, Inl err) \<Rightarrow> (st2, Some err)
           | (st2, Inr (changed, mat')) \<Rightarrow>
               if \<not> changed then (st2, None) else pushAccountUpdate env (tam_jwt mat') st2))"

definition ReloadNKeysForTenant :: "'ac access_env \<Rightarrow> string \<Rightarrow> access \<Rightarrow> access \<times> access_error option" where
  "ReloadNKeysForTenant env tid st =
     (case ensureTenantAccount env tid [] st of
        (st1, Inl err) \<Rightarrow> (st1, Some err)
      | (st1, Inr (tam, provisioned)) \<Rightarrow>
          (case syncTenantSprouts env tam tid st1 of
             (st2, Inl err) \<Rightarrow> (st2, Some err)
           | (st2, Inr (changed, tam')) \<Rightarrow>
               if \<not> provisioned \<and> \<not> changed then (st2, None) else pushAccountUpdate env (tam_jwt tam') st2))"

definition reload_for :: "'ac access_env \<Rightarrow> string \<Rightarrow> access \<Rightarrow> access \<times> access_error option" where
  "reload_for env tid st =
     (if tid = currentTenantID (acc_pki st) then ReloadNKeys env st else ReloadNKeysForTenant env tid st)"

definition ProvisionTenant :: "'ac access_env \<Rightarrow> string \<Rightarrow> string \<Rightarrow> access \<Rightarrow> access \<times> access_error option" where
  "ProvisionTenant env tid name st =
     (case ensureTenantAccount env tid name st of
        (st1, Inl err) \<Rightarrow> (st1, Some err)
      | (st1, Inr (tam, provisioned)) \<Rightarrow>
          (case syncTenantSprouts env tam tid st1 of
             (st2, Inl err) \<Rightarrow> (st2, Some err)
           | (st2, Inr (changed, tam')) \<Rightarrow> pushAccountUpdate env (tam_jwt tam') st2))"

definition lockOutAccount :: "'ac jwt_lib \<Rightarrow> int \<Rightarrow> 'ac AccountClaims_scheme \<Rightarrow> 'ac AccountClaims_scheme" where
  "lockOutAccount lib now ac =
     (let ac1 = ac\<lparr>ac_Expires := 0\<rparr>; ac2 = jl_revoke lib ac1 allUsers now; ac3 = ac2\<lparr>ac_Conn := 0\<rparr> in ac3\<lparr>ac_LeafNodeConn := 0\<rparr>)"

text \<open>The claims to push, or \<^term>\<open>None\<close> when the tenant was deleted before.\<close>

definition deprovisionTenantLocked ::
  "'ac access_env \<Rightarrow> string \<Rightarrow> access \<Rightarrow> access \<times> (access_error + string option)" where
  "deprovisionTenantLocked env tid st =
     (case getTenantRow (acc_pki st) tid of
        Inl err \<Rightarrow> (st, Inl (AccPki err))
      | Inr row \<Rightarrow>
          if tn_Deleted row then (st, Inr None)
          else (case ensureTenantAccountMaterial env tid (tn_Name row) st of
                  (st1, None) \<Rightarrow> (st1, Inl MaterialFailed)
                | (st1, Some (tam, _)) \<Rightarrow>
                    (case jl_decode (ae_lib env) (tam_jwt tam) of
                       None \<Rightarrow> (st1, Inl BadClaims)
                     | Some ac \<Rightarrow>
                         (case jl_encode (ae_lib env) (lockOutAccount (ae_lib env) (ae_now env) ac) of
                            None \<Rightarrow> (st1, Inl EncodeFailed)
                          | Some signed \<Rightarrow>
                              if \<not> ae_writable env then (st1, Inl WriteFailed)
                              else (let st2 = st1\<lparr>acc_jwts := AList.update (Tenant tid) signed (acc_jwts st1)\<rparr> in
                                    case markTenantDeleted (acc_pki st2) tid of
                                      (pki', Some err) \<Rightarrow> (st2\<lparr>acc_pki := pki'\<rparr>, Inl (AccPki err))
                                    | (pki', None) \<Rightarrow> (st2\<lparr>acc_pki := pki'\<rparr>, Inr (Some signed)))))))"

definition DeprovisionTenant :: "'ac access_env \<Rightarrow> string \<Rightarrow> access \<Rightarrow> access \<times> access_error option" where
  "DeprovisionTenant env tid st =
     (if \<not> IsValidTenantID tid then (st, Some (AccPki ErrTenantIDInvalid))
      else case ensureNatsAuth env st of
             (st1, None) \<Rightarrow> (st1, Some NatsAuthFailed)
           | (st1, Some _) \<Rightarrow>
               (case deprovisionTenantLocked env tid st1 of
                  (st2, Inl err) \<Rightarrow> (st2, Some err)
                | (st2, Inr None) \<Rightarrow> (st2, None)
                | (st2, Inr (Some signed)) \<Rightarrow>
                    (case pushAccountUpdate env signed st2 of
                       (st3, Some err) \<Rightarrow> (st3, Some err)
                     | (st3, None) \<Rightarrow> (st3\<lparr>acc_hooks := acc_hooks st3 @ [Deprovisioned tid]\<rparr>, None))))"

section \<open>Reading user tokens and seeding a bus node\<close>

definition GetSproutUserJWT :: "access \<Rightarrow> string \<Rightarrow> pki_error + string" where
  "GetSproutUserJWT st sid =
     (if \<not> IsValidSproutID sid then Inl ErrSproutIDInvalid
      else case map_of (acc_users st) (SproutUser Legacy sid) of None \<Rightarrow> Inl ErrSproutIDNotFound | Some t \<Rightarrow> Inr t)"

definition GetSproutUserJWTForTenant :: "access \<Rightarrow> string \<Rightarrow> string \<Rightarrow> pki_error + string" where
  "GetSproutUserJWTForTenant st tid sid =
     (if \<not> IsValidTenantID tid then Inl ErrTenantIDInvalid
      else if \<not> IsValidSproutID sid then Inl ErrSproutIDInvalid
      else case map_of (acc_users st) (SproutUser (Tenant tid) sid) of
             Some t \<Rightarrow> Inr t
           | None \<Rightarrow>
               (case (if tid = currentTenantID (acc_pki st) then map_of (acc_users st) (SproutUser Legacy sid) else None) of
                  Some t \<Rightarrow> Inr t | None \<Rightarrow> Inl ErrSproutIDNotFound))"

definition FarmerUserJWT :: "access \<Rightarrow> string option" where
  "FarmerUserJWT st = map_of (acc_users st) (FarmerUser Legacy)"

definition FarmerUserJWTForTenant :: "access \<Rightarrow> string \<Rightarrow> string option" where
  "FarmerUserJWTForTenant st tid =
     (if \<not> IsValidTenantID tid then None
      else if tid = currentTenantID (acc_pki st) then FarmerUserJWT st
      else map_of (acc_users st) (FarmerUser (Tenant tid)))"

definition tenantIDsProvisionedOnDisk :: "access \<Rightarrow> string list" where
  "tenantIDsProvisionedOnDisk st =
     concat (map (\<lambda>(acct, _). case acct of Legacy \<Rightarrow> [] | Tenant tid \<Rightarrow> if IsValidTenantID tid then [tid] else []) (acc_jwts st))"

definition loadTenantAccountMaterial :: "'ac access_env \<Rightarrow> string \<Rightarrow> access \<Rightarrow> access \<times> tenantAccountMaterial option" where
  "loadTenantAccountMaterial env tid st =
     (case ensureNatsAuth env st of
        (st1, None) \<Rightarrow> (st1, None)
      | (st1, Some _) \<Rightarrow>
          if map_of (acc_jwts st1) (Tenant tid) = None then (st1, None)
          else let (st2, res) = ensureTenantAccountMaterial env tid tid st1 in (st2, map_option fst res))"

fun seed_tenants :: "'ac access_env \<Rightarrow> string list \<Rightarrow> access \<Rightarrow> access" where
  "seed_tenants env [] st = st"
| "seed_tenants env (tid # tids) st =
     (case loadTenantAccountMaterial env tid st of
        (st1, None) \<Rightarrow> seed_tenants env tids st1
      | (st1, Some tam) \<Rightarrow> seed_tenants env tids (st1\<lparr>acc_pushed := acc_pushed st1 @ [tam_jwt tam]\<rparr>))"

text \<open>The account resolver a bus node starts with: the current tenant's claims and every tenant's on disk.\<close>

definition seed_resolver :: "'ac access_env \<Rightarrow> access \<Rightarrow> access option" where
  "seed_resolver env st =
     (case ensureNatsAuth env st of
        (st1, None) \<Rightarrow> None
      | (st1, Some mat) \<Rightarrow>
          (let st2 = st1\<lparr>acc_pushed := [tam_jwt mat]\<rparr> in
           Some (seed_tenants env (tenantIDsProvisionedOnDisk st2) st2)))"

section \<open>The revocation list after a sync\<close>

text \<open>The keys of a tenant's stored sprouts in the states of \<open>S\<close>.\<close>

definition keys_in :: "pki_state \<Rightarrow> string \<Rightarrow> string set \<Rightarrow> string set" where
  "keys_in pki tid S =
     {nk_NKey row | s row. tbl_get (pki_nkeys pki) (tid, s) = Some row \<and> IsValidSproutID s \<and> nk_State row \<in> S}"

abbreviation accepted_keys :: "pki_state \<Rightarrow> string \<Rightarrow> string set" where
  "accepted_keys pki tid \<equiv> keys_in pki tid {stateAccepted}"

abbreviation refused_keys :: "pki_state \<Rightarrow> string \<Rightarrow> string set" where
  "refused_keys pki tid \<equiv> keys_in pki tid {stateUnaccepted, stateDenied, stateRejected}"

definition keys_of_ids :: "pki_state \<Rightarrow> string \<Rightarrow> string list \<Rightarrow> string set" where
  "keys_of_ids pki tid ss = {nk_NKey row | s row. s \<in> set ss \<and> findNKeyRowInTenant pki tid s = Inr row}"

lemma find_Inr: "tbl_ok (pki_nkeys pki) \<Longrightarrow>
  findNKeyRowInTenant pki tid s = Inr row \<longleftrightarrow> IsValidSproutID s \<and> tbl_get (pki_nkeys pki) (tid, s) = Some row"
  by (auto simp: findNKeyRowInTenant_def tbl_first_def tbl_get_def tbl_ok_def split: option.splits)

lemma listed_ids:
  assumes "tbl_ok (pki_nkeys pki)" "ks \<in> {stateUnaccepted, stateAccepted, stateDenied, stateRejected}"
  shows "set (getNKeysByTypeForTenant pki tid ks) =
    {s. \<exists>row. tbl_get (pki_nkeys pki) (tid, s) = Some row \<and> nk_State row = ks}"
proof -
  have "(k, row) \<in> set (tbl_rows (pki_nkeys pki)) \<longleftrightarrow> tbl_get (pki_nkeys pki) k = Some row" for k row
    using assms(1) by (simp add: tbl_get_def tbl_ok_def tbl_wf_def)
  then show ?thesis using assms by (force simp: getNKeysByTypeForTenant_def tbl_find_def tbl_ok_def)
qed

lemma keys_of_listed:
  assumes "tbl_ok (pki_nkeys pki)"
  shows "keys_of_ids pki tid (getNKeysByTypeForTenant pki tid stateAccepted) = accepted_keys pki tid"
    "keys_of_ids pki tid (refused_ids pki tid) = refused_keys pki tid"
  using listed_ids[OF assms, of _ tid]
  by (fastforce simp: keys_of_ids_def keys_in_def find_Inr[OF assms] refused_ids_def)+

text \<open>What no part of a sync touches.\<close>

definition same_but_users :: "access \<Rightarrow> access \<Rightarrow> bool" where
  "same_but_users st st' = (acc_pki st' = acc_pki st \<and> acc_jwts st' = acc_jwts st \<and>
     acc_pushed st' = acc_pushed st \<and> acc_hooks st' = acc_hooks st)"

lemma same_but_users_refl [simp]: "same_but_users st st"
  by (simp add: same_but_users_def)

lemma same_but_users_trans: "same_but_users a b \<Longrightarrow> same_but_users b c \<Longrightarrow> same_but_users a c"
  by (simp add: same_but_users_def)

lemma mint_same [simp]: "same_but_users st (mintOrReuseUserJWT env st path pubkey name perms issuer signing)"
  by (simp add: mintOrReuseUserJWT_def same_but_users_def split: option.splits)

text \<open>Claims that differ in their revocations only, which are now \<open>R\<close>; \<open>c\<close> tells whether anything changed.\<close>

definition revocations_to :: "'ac jwt_lib \<Rightarrow> 'ac AccountClaims_scheme \<Rightarrow> 'ac AccountClaims_scheme \<Rightarrow> bool \<Rightarrow> (string \<Rightarrow> bool) \<Rightarrow> bool" where
  "revocations_to lib ac ac' c R =
     (jl_subject lib ac' = jl_subject lib ac \<and>
      (\<forall>s. jl_signing lib ac' s = jl_signing lib ac s) \<and> (\<forall>k. jl_revoked lib ac' k = R k) \<and> (\<not> c \<longrightarrow> ac' = ac))"

lemma granted:
  assumes "jwt_laws lib" "ensureUserGranted lib ac k = (ac', c)"
  shows "revocations_to lib ac ac' c (\<lambda>k'. jl_revoked lib ac k' \<and> k' \<noteq> k)"
  using assms by (auto simp: ensureUserGranted_def revocations_to_def jwt_laws_def split: if_splits)

lemma revoked:
  assumes "jwt_laws lib" "ensureUserRevoked lib now ac k = (ac', c)"
  shows "revocations_to lib ac ac' c (\<lambda>k'. jl_revoked lib ac k' \<or> k' = k)"
  using assms by (auto simp: ensureUserRevoked_def revocations_to_def jwt_laws_def split: if_splits)

lemma revocations_trans:
  assumes "revocations_to lib a b c R" "revocations_to lib b d c' R'"
  shows "revocations_to lib a d (c \<or> c') R'"
  using assms by (auto simp: revocations_to_def)

lemma revocations_refl: "revocations_to lib ac ac c (jl_revoked lib ac)"
  by (simp add: revocations_to_def)

lemma revocations_cong: "revocations_to lib a b c R \<Longrightarrow> (\<And>k. R k = R' k) \<Longrightarrow> revocations_to lib a b c R'"
  by (simp add: revocations_to_def)

lemma revocations_weaken: "revocations_to lib a b c R \<Longrightarrow> (c \<Longrightarrow> c') \<Longrightarrow> revocations_to lib a b c' R"
  by (auto simp: revocations_to_def)

lemma keys_of_ids_Cons:
  "keys_of_ids pki tid (s # ss) =
   (case findNKeyRowInTenant pki tid s of Inl _ \<Rightarrow> {} | Inr row \<Rightarrow> {nk_NKey row}) \<union> keys_of_ids pki tid ss"
  by (auto simp: keys_of_ids_def split: sum.splits)

lemma sync_accepted_spec:
  assumes "jwt_laws (ae_lib env)" "sync_accepted env acct tid tam ss st ac ch = (st', ac', ch')"
  shows "same_but_users st st' \<and> (ch \<longrightarrow> ch') \<and>
    revocations_to (ae_lib env) ac ac' ch' (\<lambda>k. jl_revoked (ae_lib env) ac k \<and> k \<notin> keys_of_ids (acc_pki st) tid ss)"
  using assms(2)
proof (induction ss arbitrary: st ac ch)
  case Nil
  then show ?case by (simp add: keys_of_ids_def revocations_to_def)
next
  case (Cons s ss)
  show ?case
  proof (cases "findNKeyRowInTenant (acc_pki st) tid s")
    case (Inl err)
    then show ?thesis using Cons.IH[of st ac ch] Cons.prems by (simp add: keys_of_ids_Cons)
  next
    case (Inr row)
    obtain ac1 c1 where g: "ensureUserGranted (ae_lib env) ac (nk_NKey row) = (ac1, c1)" by (cases rule: prod.exhaust)
    define st1 where "st1 = mintOrReuseUserJWT env st (SproutUser acct s) (nk_NKey row) s (sproutPermissions s) (tam_pub tam) (tam_signing tam)"
    have st1: "same_but_users st st1" by (simp add: st1_def)
    have rest: "sync_accepted env acct tid tam ss st1 ac1 (ch \<or> c1) = (st', ac', ch')"
      using Cons.prems by (simp add: Inr g Let_def st1_def)
    note ih = Cons.IH[OF rest]
    note gr = granted[OF assms(1) g]
    from gr ih have "revocations_to (ae_lib env) ac ac' ch' (\<lambda>k. jl_revoked (ae_lib env) ac1 k \<and> k \<notin> keys_of_ids (acc_pki st1) tid ss)"
      by (auto intro: revocations_weaken[OF revocations_trans])
    then show ?thesis
      using ih st1 gr by (auto simp: keys_of_ids_Cons Inr revocations_to_def same_but_users_def)
  qed
qed

lemma sync_admins_spec:
  assumes "jwt_laws (ae_lib env)" "sync_admins env tam keys st ac ch = (st', ac', ch')"
  shows "same_but_users st st' \<and> (ch \<longrightarrow> ch') \<and>
    revocations_to (ae_lib env) ac ac' ch' (\<lambda>k. jl_revoked (ae_lib env) ac k \<and> k \<notin> set keys)"
  using assms(2)
proof (induction keys arbitrary: st ac ch)
  case Nil
  then show ?case by (simp add: revocations_to_def)
next
  case (Cons key keys)
  obtain ac1 c1 where g: "ensureUserGranted (ae_lib env) ac key = (ac1, c1)" by (cases rule: prod.exhaust)
  define st1 where "st1 = mintOrReuseUserJWT env st (CliUser key) key ''grlx-cli'' allowAllPermissions (tam_pub tam) (tam_signing tam)"
  have st1: "same_but_users st st1" by (simp add: st1_def)
  have rest: "sync_admins env tam keys st1 ac1 (ch \<or> c1) = (st', ac', ch')"
    using Cons.prems by (simp add: g Let_def st1_def)
  note ih = Cons.IH[OF rest]
  note gr = granted[OF assms(1) g]
  from gr ih have "revocations_to (ae_lib env) ac ac' ch' (\<lambda>k. jl_revoked (ae_lib env) ac1 k \<and> k \<notin> set keys)"
    by (auto intro: revocations_weaken[OF revocations_trans])
  then show ?case using ih st1 gr by (auto simp: revocations_to_def same_but_users_def)
qed

lemma sync_refused_spec:
  assumes "jwt_laws (ae_lib env)" "sync_refused env tid ss st ac ch = (ac', ch')"
  shows "(ch \<longrightarrow> ch') \<and>
    revocations_to (ae_lib env) ac ac' ch' (\<lambda>k. jl_revoked (ae_lib env) ac k \<or> k \<in> keys_of_ids (acc_pki st) tid ss)"
  using assms(2)
proof (induction ss arbitrary: ac ch)
  case Nil
  then show ?case by (simp add: keys_of_ids_def revocations_to_def)
next
  case (Cons s ss)
  show ?case
  proof (cases "findNKeyRowInTenant (acc_pki st) tid s")
    case (Inl err)
    then show ?thesis using Cons.IH[of ac ch] Cons.prems by (simp add: keys_of_ids_Cons)
  next
    case (Inr row)
    obtain ac1 c1 where g: "ensureUserRevoked (ae_lib env) (ae_now env) ac (nk_NKey row) = (ac1, c1)" by (cases rule: prod.exhaust)
    have rest: "sync_refused env tid ss st ac1 (ch \<or> c1) = (ac', ch')"
      using Cons.prems by (simp add: Inr g Let_def)
    note ih = Cons.IH[OF rest]
    note gr = revoked[OF assms(1) g]
    from gr ih have "revocations_to (ae_lib env) ac ac' ch' (\<lambda>k. jl_revoked (ae_lib env) ac1 k \<or> k \<in> keys_of_ids (acc_pki st) tid ss)"
      by (auto intro: revocations_weaken[OF revocations_trans])
    then show ?thesis using ih gr by (auto simp: keys_of_ids_Cons Inr revocations_to_def)
  qed
qed

definition sync_target :: "'ac access_env \<Rightarrow> pki_state \<Rightarrow> string \<Rightarrow> string list \<Rightarrow> 'ac AccountClaims_scheme \<Rightarrow> string \<Rightarrow> bool" where
  "sync_target env pki tid admins ac k =
     (k \<in> refused_keys pki tid \<or>
      (jl_revoked (ae_lib env) ac k \<and> ae_farmerKey env \<noteq> Some k \<and> k \<notin> set admins \<and> k \<notin> accepted_keys pki tid))"

lemma sync_account_spec:
  assumes laws: "jwt_laws (ae_lib env)" and up: "tbl_ok (pki_nkeys (acc_pki st))"
    and sync: "sync_account env acct tid admins tam st = (st', Inr (changed, tam'))"
    and ac: "jl_decode (ae_lib env) (tam_jwt tam) = Some ac"
  shows "\<exists>ac'. jl_decode (ae_lib env) (tam_jwt tam') = Some ac' \<and>
    revocations_to (ae_lib env) ac ac' changed (sync_target env (acc_pki st) tid admins ac) \<and>
    acc_pki st' = acc_pki st \<and> acc_pushed st' = acc_pushed st \<and> acc_hooks st' = acc_hooks st \<and>
    acc_jwts st' = (if changed then AList.update acct (tam_jwt tam') (acc_jwts st) else acc_jwts st) \<and>
    tam_pub tam' = tam_pub tam \<and> tam_signing tam' = tam_signing tam \<and> (\<not> changed \<longrightarrow> tam' = tam)"
proof -
  from sync ac obtain farmerKey where fk: "ae_farmerKey env = Some farmerKey"
    by (auto simp: sync_account_def split: option.splits)
  obtain ac1 c1 where g: "ensureUserGranted (ae_lib env) ac farmerKey = (ac1, c1)" by (cases rule: prod.exhaust)
  define st1 where "st1 = mintOrReuseUserJWT env st (FarmerUser acct) farmerKey ''farmer'' allowAllPermissions (tam_pub tam) (tam_signing tam)"
  obtain st2 ac2 c2 where a: "sync_admins env tam admins st1 ac1 c1 = (st2, ac2, c2)" by (cases rule: prod_cases3)
  obtain st3 ac3 c3 where b: "sync_accepted env acct tid tam (getNKeysByTypeForTenant (acc_pki st2) tid stateAccepted) st2 ac2 c2 = (st3, ac3, c3)"
    by (cases rule: prod_cases3)
  obtain ac4 c4 where d: "sync_refused env tid (refused_ids (acc_pki st3) tid) st3 ac3 c3 = (ac4, c4)" by (cases rule: prod.exhaust)
  have st1: "same_but_users st st1" by (simp add: st1_def)
  note A = sync_admins_spec[OF laws a] and B = sync_accepted_spec[OF laws b] and D = sync_refused_spec[OF laws d] and G = granted[OF laws g]
  have pki: "acc_pki st2 = acc_pki st" "acc_pki st3 = acc_pki st" and same: "same_but_users st st3"
    using st1 A B same_but_users_trans by (auto simp: same_but_users_def)
  have "revocations_to (ae_lib env) ac ac4 c4
      (\<lambda>k. jl_revoked (ae_lib env) ac3 k \<or> k \<in> keys_of_ids (acc_pki st3) tid (refused_ids (acc_pki st3) tid))"
    using G A B D by (auto simp: revocations_to_def)
  then have "revocations_to (ae_lib env) ac ac4 c4 (sync_target env (acc_pki st) tid admins ac)"
    by (rule revocations_cong)
      (use G A B in \<open>auto simp: pki keys_of_listed[OF up] sync_target_def fk revocations_to_def\<close>)
  moreover have "(if \<not> c4 then (st3, Inr (False, tam))
     else case jl_encode (ae_lib env) ac4 of
            None \<Rightarrow> (st3, Inl EncodeFailed)
          | Some signed \<Rightarrow>
              if \<not> ae_writable env then (st3, Inl WriteFailed)
              else (st3\<lparr>acc_jwts := AList.update acct signed (acc_jwts st3)\<rparr>, Inr (True, tam\<lparr>tam_jwt := signed\<rparr>))) = (st', Inr (changed, tam'))"
    using sync by (simp add: sync_account_def ac fk g a b d Let_def flip: st1_def)
  ultimately show ?thesis
    using same ac laws by (auto simp: same_but_users_def revocations_to_def jwt_laws_def split: if_splits option.splits)
qed

section \<open>What the bus enforces\<close>

text \<open>The claims the bus holds for an account: the last ones it took.  The claims on disk.\<close>

definition of_account :: "'ac jwt_lib \<Rightarrow> string \<Rightarrow> string \<Rightarrow> bool" where
  "of_account lib pub t = (case jl_decode lib t of None \<Rightarrow> False | Some ac \<Rightarrow> jl_subject lib ac = pub)"

definition bus_claims :: "'ac jwt_lib \<Rightarrow> string list \<Rightarrow> string \<Rightarrow> 'ac AccountClaims_scheme option" where
  "bus_claims lib pushed pub =
     (case filter (of_account lib pub) (rev pushed) of [] \<Rightarrow> None | t # ts \<Rightarrow> jl_decode lib t)"

definition disk_claims :: "'ac jwt_lib \<Rightarrow> access \<Rightarrow> account \<Rightarrow> 'ac AccountClaims_scheme option" where
  "disk_claims lib st acct = (case map_of (acc_jwts st) acct of None \<Rightarrow> None | Some t \<Rightarrow> jl_decode lib t)"

lemma bus_claims_push:
  assumes "jl_decode lib t = Some ac"
  shows "bus_claims lib (pushed @ [t]) pub = (if jl_subject lib ac = pub then Some ac else bus_claims lib pushed pub)"
  using assms by (simp add: bus_claims_def of_account_def)

lemma push_cases:
  assumes "pushAccountUpdate env t st = (st', err)"
  shows "(err = None \<and> st' = st\<lparr>acc_pushed := acc_pushed st @ [t]\<rparr> \<and> ae_push env t) \<or> (err = Some PushFailed \<and> st' = st \<and> \<not> ae_push env t)"
  using assms by (auto simp: pushAccountUpdate_def split: if_splits)

definition same_but_jwts :: "access \<Rightarrow> access \<Rightarrow> bool" where
  "same_but_jwts st st' = (acc_pki st' = acc_pki st \<and> acc_users st' = acc_users st \<and>
     acc_pushed st' = acc_pushed st \<and> acc_hooks st' = acc_hooks st)"

text \<open>Account material, once there, is for the account's key and is what the disk holds.\<close>

lemma ensure_account_spec:
  assumes laws: "jwt_laws (ae_lib env)" and ok: "ensure_account env acct name st = (st', Some (tam, minted))"
  shows "ae_seeds env acct = Some (tam_pub tam, tam_signing tam) \<and> map_of (acc_jwts st') acct = Some (tam_jwt tam) \<and>
    (\<exists>ac. jl_decode (ae_lib env) (tam_jwt tam) = Some ac \<and> jl_subject (ae_lib env) ac = tam_pub tam \<and>
       jl_signing (ae_lib env) ac (tam_signing tam) \<and> (minted \<longrightarrow> (\<forall>k. \<not> jl_revoked (ae_lib env) ac k))) \<and>
    same_but_jwts st st' \<and> (\<forall>a. a \<noteq> acct \<longrightarrow> map_of (acc_jwts st') a = map_of (acc_jwts st) a) \<and>
    minted = (\<not> usable_claims (ae_lib env) (map_of (acc_jwts st) acct) (tam_pub tam) (tam_signing tam)) \<and>
    (\<not> minted \<longrightarrow> st' = st)"
proof -
  from ok obtain pub sig where seeds: "ae_seeds env acct = Some (pub, sig)"
    by (auto simp: ensure_account_def split: option.splits)
  show ?thesis
  proof (cases "usable_claims (ae_lib env) (map_of (acc_jwts st) acct) pub sig")
    case True
    then show ?thesis
      using ok by (auto simp: ensure_account_def seeds usable_claims_def same_but_jwts_def split: option.splits)
  next
    case False
    then obtain signed where s: "jl_encode (ae_lib env) (jl_name (ae_lib env) (jl_new (ae_lib env) pub) name sig) = Some signed"
        "st' = st\<lparr>acc_jwts := AList.update acct signed (acc_jwts st)\<rparr>" "minted" "tam = \<lparr>tam_pub = pub, tam_signing = sig, tam_jwt = signed\<rparr>"
      using ok by (auto simp: ensure_account_def seeds split: option.splits if_splits)
    then have "jl_decode (ae_lib env) signed = Some (jl_name (ae_lib env) (jl_new (ae_lib env) pub) name sig)"
      using laws by (auto simp: jwt_laws_def)
    then show ?thesis using s False laws by (auto simp: seeds update_conv' jwt_laws_def same_but_jwts_def)
  qed
qed

lemma ensureNatsAuth_spec:
  assumes "jwt_laws (ae_lib env)" "ensureNatsAuth env st = (st', Some mat)"
  shows "ae_seeds env Legacy = Some (tam_pub mat, tam_signing mat) \<and> map_of (acc_jwts st') Legacy = Some (tam_jwt mat) \<and>
    same_but_jwts st st' \<and> (\<forall>a. a \<noteq> Legacy \<longrightarrow> map_of (acc_jwts st') a = map_of (acc_jwts st) a) \<and>
    (\<exists>ac. jl_decode (ae_lib env) (tam_jwt mat) = Some ac \<and> jl_subject (ae_lib env) ac = tam_pub mat \<and>
       (\<forall>k. jl_revoked (ae_lib env) ac k \<longrightarrow> map_of (acc_jwts st) Legacy = Some (tam_jwt mat))) \<and> ae_natsAuth env \<and>
    (usable_claims (ae_lib env) (map_of (acc_jwts st) Legacy) (tam_pub mat) (tam_signing mat) \<longrightarrow> st' = st)"
proof -
  from assms(2) obtain minted where ok: "ae_natsAuth env"
    "ensure_account env Legacy (if pki_org (acc_pki st) = [] then ''grlx'' else pki_org (acc_pki st)) st = (st', Some (mat, minted))"
    by (auto simp: ensureNatsAuth_def Let_def split: if_splits prod.splits)
  from ensure_account_spec[OF assms(1) ok(2)] ok(1) show ?thesis by (cases minted) auto
qed

lemma ensureTenantAccountLocked_spec:
  assumes laws: "jwt_laws (ae_lib env)" and ok: "ensureTenantAccountLocked env tid nh st = (st', Inr (tam, prov))"
  shows "\<exists>name st1 minted. ensure_account env (Tenant tid) name st1 = (st'\<lparr>acc_pki := acc_pki st1\<rparr>, Some (tam, minted)) \<and>
    acc_jwts st1 = acc_jwts st \<and> acc_users st1 = acc_users st \<and> acc_pushed st1 = acc_pushed st \<and> (minted \<longrightarrow> prov) \<and>
    pki_nkeys (acc_pki st1) = pki_nkeys (acc_pki st) \<and> pki_org (acc_pki st1) = pki_org (acc_pki st) \<and>
    pki_nkeys (acc_pki st') = pki_nkeys (acc_pki st) \<and> pki_org (acc_pki st') = pki_org (acc_pki st)"
proof -
  have up: "pki_nkeys (fst (upsertTenantRow p t r)) = pki_nkeys p \<and> pki_org (fst (upsertTenantRow p t r)) = pki_org p" for p t r
    by (simp add: upsertTenantRow_def Let_def)
  have pub: "pki_nkeys (fst (setTenantAccountPub p t k)) = pki_nkeys p \<and> pki_org (fst (setTenantAccountPub p t k)) = pki_org p" for p t k
    by (simp add: setTenantAccountPub_def update_tenant_def split: option.splits)
  from ok obtain pki1 name p1 where row: "(case getTenantRow (acc_pki st) tid of
              Inr row \<Rightarrow> if tn_Deleted row then (acc_pki st, Inl ErrTenantDeprovisioned) else (acc_pki st, Inr (tn_Name row, False))
            | Inl err \<Rightarrow>
                if err \<noteq> ErrTenantNotFound then (acc_pki st, Inl err)
                else let name = (if nh = [] then tid else nh);
                         (pki', uerr) = upsertTenantRow (acc_pki st) tid
                           \<lparr>tn_Name = name, tn_Deleted = False, tn_CreatedAt = ae_now env, tn_AccountPub = []\<rparr>
                     in (pki', case uerr of None \<Rightarrow> Inr (name, True) | Some e \<Rightarrow> Inl e)) = (pki1, Inr (name, p1))"
    by (auto simp: ensureTenantAccountLocked_def split: prod.splits sum.splits)
  then have pki1: "pki_nkeys pki1 = pki_nkeys (acc_pki st)" "pki_org pki1 = pki_org (acc_pki st)"
    using up[of "acc_pki st" tid] by (auto simp: Let_def split: sum.splits if_splits prod.splits option.splits) (metis fst_conv)+
  let ?st1 = "st\<lparr>acc_pki := pki1\<rparr>"
  from ok row obtain st2 minted pki2 where st2: "ensure_account env (Tenant tid) name ?st1 = (st2, Some (tam, minted))"
      "setTenantAccountPub (acc_pki st2) tid (tam_pub tam) = (pki2, None)" "st' = st2\<lparr>acc_pki := pki2\<rparr>" "prov = (p1 \<or> minted)"
    by (auto simp: ensureTenantAccountLocked_def ensureTenantAccountMaterial_def split: prod.splits option.splits)
  have "acc_pki st2 = pki1" using ensure_account_spec[OF laws st2(1)] by (simp add: same_but_jwts_def)
  then show ?thesis
    using st2 pki1 pub[of pki1 tid "tam_pub tam"] by (intro exI[of _ name] exI[of _ ?st1] exI[of _ minted]) auto
qed

lemma ensureTenantAccount_spec:
  assumes laws: "jwt_laws (ae_lib env)" and ok: "ensureTenantAccount env tid nh st = (st', Inr (tam, prov))"
  shows "ae_seeds env (Tenant tid) = Some (tam_pub tam, tam_signing tam) \<and> map_of (acc_jwts st') (Tenant tid) = Some (tam_jwt tam) \<and>
    (\<exists>ac. jl_decode (ae_lib env) (tam_jwt tam) = Some ac \<and> jl_subject (ae_lib env) ac = tam_pub tam \<and>
       jl_signing (ae_lib env) ac (tam_signing tam) \<and>
       (\<not> usable_claims (ae_lib env) (map_of (acc_jwts st) (Tenant tid)) (tam_pub tam) (tam_signing tam) \<longrightarrow> prov \<and> (\<forall>k. \<not> jl_revoked (ae_lib env) ac k))) \<and>
    (usable_claims (ae_lib env) (map_of (acc_jwts st) (Tenant tid)) (tam_pub tam) (tam_signing tam) \<longrightarrow>
       map_of (acc_jwts st) (Tenant tid) = Some (tam_jwt tam)) \<and>
    pki_nkeys (acc_pki st') = pki_nkeys (acc_pki st) \<and> pki_org (acc_pki st') = pki_org (acc_pki st) \<and>
    acc_pushed st' = acc_pushed st \<and> acc_users st' = acc_users st \<and> IsValidTenantID tid"
proof -
  from ok obtain st1 mat st2 where st1: "ensureNatsAuth env st = (st1, Some mat)"
      "ensureTenantAccountLocked env tid nh st1 = (st2, Inr (tam, prov))" "IsValidTenantID tid"
      "st' = (if prov then st2\<lparr>acc_hooks := acc_hooks st2 @ [Provisioned tid]\<rparr> else st2)"
    by (auto simp: ensureTenantAccount_def split: if_splits prod.splits option.splits sum.splits)
  note N = ensureNatsAuth_spec[OF laws st1(1)]
  from ensureTenantAccountLocked_spec[OF laws st1(2)] obtain name st0 minted where L:
    "ensure_account env (Tenant tid) name st0 = (st2\<lparr>acc_pki := acc_pki st0\<rparr>, Some (tam, minted))"
    "acc_jwts st0 = acc_jwts st1" "acc_users st0 = acc_users st1" "acc_pushed st0 = acc_pushed st1" "minted \<longrightarrow> prov" "pki_nkeys (acc_pki st2) = pki_nkeys (acc_pki st1)"
    "pki_org (acc_pki st2) = pki_org (acc_pki st1)" by blast
  note E = ensure_account_spec[OF laws L(1)]
  have jwts: "map_of (acc_jwts st0) (Tenant tid) = map_of (acc_jwts st) (Tenant tid)" using N L(2) by simp
  have rest: "acc_pushed st2 = acc_pushed st" "acc_users st2 = acc_users st" "acc_pki st1 = acc_pki st"
    using N E L(3,4) by (simp_all add: same_but_jwts_def)
  obtain ac where ac: "jl_decode (ae_lib env) (tam_jwt tam) = Some ac" "jl_subject (ae_lib env) ac = tam_pub tam"
    "jl_signing (ae_lib env) ac (tam_signing tam)" "minted \<longrightarrow> (\<forall>k. \<not> jl_revoked (ae_lib env) ac k)" using E by blast
  have jw: "map_of (acc_jwts st2) (Tenant tid) = Some (tam_jwt tam)" "ae_seeds env (Tenant tid) = Some (tam_pub tam, tam_signing tam)"
    "minted = (\<not> usable_claims (ae_lib env) (map_of (acc_jwts st) (Tenant tid)) (tam_pub tam) (tam_signing tam))"
    using E jwts by auto
  have "\<not> minted \<longrightarrow> acc_jwts st2 = acc_jwts st0" using E by (metis access.simps(2) access.select_convs(2) access.surjective access.update_convs(1))
  then have "\<not> minted \<longrightarrow> map_of (acc_jwts st) (Tenant tid) = Some (tam_jwt tam)" using jw(1) jwts by metis
  then show ?thesis using ac jw rest L(5-7) st1(3,4) by auto
qed

text \<open>The revocations a reload starts from: those of the claims on disk, or none when fresh claims have to be minted.\<close>

definition revoked_before :: "'ac access_env \<Rightarrow> access \<Rightarrow> account \<Rightarrow> string \<Rightarrow> bool" where
  "revoked_before env st acct k =
     (case ae_seeds env acct of
        None \<Rightarrow> False
      | Some (pub, sig) \<Rightarrow>
          usable_claims (ae_lib env) (map_of (acc_jwts st) acct) pub sig \<and>
          (case disk_claims (ae_lib env) st acct of None \<Rightarrow> False | Some ac \<Rightarrow> jl_revoked (ae_lib env) ac k))"

lemma reload_tenant_general:
  assumes laws: "jwt_laws (ae_lib env)" and up: "tbl_ok (pki_nkeys (acc_pki st))"
    and reload: "ReloadNKeysForTenant env tid st = (st', None)"
    and seeds: "ae_seeds env (Tenant tid) = Some (pub, sig)"
  shows "\<exists>ac. disk_claims (ae_lib env) st' (Tenant tid) = Some ac \<and>
    (bus_claims (ae_lib env) (acc_pushed st') pub = Some ac \<or>
     acc_pushed st' = acc_pushed st \<and> disk_claims (ae_lib env) st (Tenant tid) = Some ac) \<and>
    (\<forall>k. jl_revoked (ae_lib env) ac k =
      (k \<in> refused_keys (acc_pki st) tid \<or>
       (revoked_before env st (Tenant tid) k \<and> ae_farmerKey env \<noteq> Some k \<and> k \<notin> accepted_keys (acc_pki st) tid)))"
proof -
  from reload obtain st1 tam prov st2 changed tam' where r: "ensureTenantAccount env tid [] st = (st1, Inr (tam, prov))"
      "sync_account env (Tenant tid) tid [] tam st1 = (st2, Inr (changed, tam'))"
      "if \<not> prov \<and> \<not> changed then st' = st2 else pushAccountUpdate env (tam_jwt tam') st2 = (st', None)"
    by (auto simp: ReloadNKeysForTenant_def syncTenantSprouts_def split: prod.splits sum.splits if_splits)
  note E = ensureTenantAccount_spec[OF laws r(1)]
  then have pub: "tam_pub tam = pub" "tam_signing tam = sig" using seeds by auto
  from E obtain ac where ac: "jl_decode (ae_lib env) (tam_jwt tam) = Some ac" "jl_subject (ae_lib env) ac = pub"
    "\<not> usable_claims (ae_lib env) (map_of (acc_jwts st) (Tenant tid)) pub sig \<longrightarrow> prov \<and> (\<forall>k. \<not> jl_revoked (ae_lib env) ac k)"
    using pub by blast
  have keep: "usable_claims (ae_lib env) (map_of (acc_jwts st) (Tenant tid)) pub sig \<longrightarrow> map_of (acc_jwts st) (Tenant tid) = Some (tam_jwt tam)"
    using E pub by simp
  have "tbl_ok (pki_nkeys (acc_pki st1))" using E up by simp
  from sync_account_spec[OF laws this r(2) ac(1)] obtain ac' where ac':
    "jl_decode (ae_lib env) (tam_jwt tam') = Some ac'"
    "revocations_to (ae_lib env) ac ac' changed (sync_target env (acc_pki st1) tid [] ac)"
    "acc_pushed st2 = acc_pushed st1" "\<not> changed \<longrightarrow> tam' = tam"
    "acc_jwts st2 = (if changed then AList.update (Tenant tid) (tam_jwt tam') (acc_jwts st1) else acc_jwts st1)" by blast
  have disk2: "map_of (acc_jwts st2) (Tenant tid) = Some (tam_jwt tam')" using ac'(4,5) E by (auto simp: update_conv')
  have sub: "jl_subject (ae_lib env) ac' = pub" using ac'(2) ac(2) by (simp add: revocations_to_def)
  have before: "jl_revoked (ae_lib env) ac k = revoked_before env st (Tenant tid) k" for k
    using keep ac(1,3) by (auto simp: revoked_before_def seeds disk_claims_def)
  have keys: "keys_in (acc_pki st1) tid S = keys_in (acc_pki st) tid S" for S using E by (simp add: keys_in_def)
  have "(bus_claims (ae_lib env) (acc_pushed st') pub = Some ac' \<or>
      acc_pushed st' = acc_pushed st \<and> disk_claims (ae_lib env) st (Tenant tid) = Some ac') \<and>
    map_of (acc_jwts st') (Tenant tid) = Some (tam_jwt tam')"
  proof (cases "\<not> prov \<and> \<not> changed")
    case True
    then have "disk_claims (ae_lib env) st (Tenant tid) = Some ac" "tam' = tam"
      using ac(1,3) keep ac'(4) by (auto simp: disk_claims_def)
    then show ?thesis using r(3) True ac' E disk2 ac(1) by simp
  next
    case False
    then have "pushAccountUpdate env (tam_jwt tam') st2 = (st', None)" using r(3) by presburger
    from push_cases[OF this] show ?thesis using bus_claims_push[OF ac'(1)] sub disk2 by auto
  qed
  moreover have "jl_revoked (ae_lib env) ac' k = (k \<in> refused_keys (acc_pki st) tid \<or>
      (revoked_before env st (Tenant tid) k \<and> ae_farmerKey env \<noteq> Some k \<and> k \<notin> accepted_keys (acc_pki st) tid))" for k
    using ac'(2) by (simp add: revocations_to_def sync_target_def keys before)
  ultimately show ?thesis using ac'(1) by (intro exI[of _ ac']) (simp add: disk_claims_def)
qed

lemma reload_tenant_spec:
  assumes "jwt_laws (ae_lib env)" "tbl_ok (pki_nkeys (acc_pki st))" "ReloadNKeysForTenant env tid st = (st', None)"
    and "ae_seeds env (Tenant tid) = Some (pub, sig)"
    and "disk_claims (ae_lib env) st (Tenant tid) \<noteq> None \<longrightarrow>
      bus_claims (ae_lib env) (acc_pushed st) pub = disk_claims (ae_lib env) st (Tenant tid)"
  shows "\<exists>ac. bus_claims (ae_lib env) (acc_pushed st') pub = Some ac \<and> disk_claims (ae_lib env) st' (Tenant tid) = Some ac \<and>
    (\<forall>k. jl_revoked (ae_lib env) ac k =
      (k \<in> refused_keys (acc_pki st) tid \<or>
       (revoked_before env st (Tenant tid) k \<and> ae_farmerKey env \<noteq> Some k \<and> k \<notin> accepted_keys (acc_pki st) tid)))"
  using reload_tenant_general[OF assms(1-4)] assms(5) by force

text \<open>
  Property C26. A reload that succeeds leaves on the farmer's disk exactly the access the
  database calls for: the revocation list holds every key of an unaccepted, denied or
  rejected sprout of the tenant, no key of an accepted sprout that is not also refused, not
  the farmer's own, and of all other keys those it held before.  The bus holds the same
  claims, with one exception: when the disk already had them, nothing is pushed, and a bus
  that was behind stays behind (see \<open>failed_push_is_never_repeated\<close>).
\<close>

theorem reload_enforces_database:
  assumes "jwt_laws (ae_lib env)" "tbl_ok (pki_nkeys (acc_pki st))" "ReloadNKeysForTenant env tid st = (st', None)"
    and "ae_seeds env (Tenant tid) = Some (pub, sig)"
  shows "\<exists>ac. disk_claims (ae_lib env) st' (Tenant tid) = Some ac \<and>
    (\<forall>k. jl_revoked (ae_lib env) ac k =
      (k \<in> refused_keys (acc_pki st) tid \<or>
       (revoked_before env st (Tenant tid) k \<and> ae_farmerKey env \<noteq> Some k \<and> k \<notin> accepted_keys (acc_pki st) tid))) \<and>
    (bus_claims (ae_lib env) (acc_pushed st') pub = Some ac \<or>
     acc_pushed st' = acc_pushed st \<and> disk_claims (ae_lib env) st (Tenant tid) = Some ac \<and>
     bus_claims (ae_lib env) (acc_pushed st) pub \<noteq> Some ac)"
  using reload_tenant_general[OF assms] by force

section \<open>A concrete library\<close>

text \<open>Claims as their fields, a token as the fields joined by a bar.\<close>

record demo_claims = AccountClaims +
  dc_subject :: string
  dc_signing :: string
  dc_revoked :: "string list"

definition demo_flag :: "int \<Rightarrow> string" where
  "demo_flag x = (if x = 0 then ''0'' else ''1'')"

definition demo_limit :: "string \<Rightarrow> int" where
  "demo_limit b = (if b = ''0'' then 0 else - 1)"

definition demo_fields :: "demo_claims \<Rightarrow> string list" where
  "demo_fields c = [dc_subject c, dc_signing c, demo_flag (ac_Expires c), demo_flag (ac_Conn c), demo_flag (ac_LeafNodeConn c)] @ dc_revoked c"

definition demo_jwt :: "unit demo_claims_ext jwt_lib" where
  "demo_jwt = \<lparr>jl_new = (\<lambda>k. \<lparr>ac_Expires = 0, ac_Conn = - 1, ac_LeafNodeConn = - 1, dc_subject = k, dc_signing = [], dc_revoked = []\<rparr>),
     jl_name = (\<lambda>c n s. c\<lparr>dc_signing := s\<rparr>), jl_subject = dc_subject, jl_signing = (\<lambda>c s. dc_signing c = s),
     jl_revoked = (\<lambda>c k. k \<in> set (dc_revoked c)), jl_clear = (\<lambda>c k. c\<lparr>dc_revoked := filter (\<lambda>x. x \<noteq> k) (dc_revoked c)\<rparr>),
     jl_revoke = (\<lambda>c k n. c\<lparr>dc_revoked := dc_revoked c @ [k]\<rparr>),
     jl_encode = (\<lambda>c. if list_all (\<lambda>f. CHR ''|'' \<notin> set f) (demo_fields c) \<and> {ac_Expires c, ac_Conn c, ac_LeafNodeConn c} \<subseteq> {0, - 1}
       then Some (Join (demo_fields c) ''|'') else None),
     jl_decode = (\<lambda>t. case Split (CHR ''|'') t of
       s # g # b1 # b2 # b3 # rs \<Rightarrow> Some \<lparr>ac_Expires = demo_limit b1, ac_Conn = demo_limit b2, ac_LeafNodeConn = demo_limit b3,
         dc_subject = s, dc_signing = g, dc_revoked = rs\<rparr> | _ \<Rightarrow> None),
     jl_user = (\<lambda>k n p a s. if CHR ''|'' \<in> set k then None else Some (k @ ''|'' @ a)),
     jl_userSubject = (\<lambda>t. Some (takeWhile (\<lambda>c. c \<noteq> CHR ''|'') t))\<rparr>"

lemma Split_Join: "ws \<noteq> [] \<Longrightarrow> \<forall>w \<in> set ws. sep \<notin> set w \<Longrightarrow> Split sep (Join ws [sep]) = ws"
proof (induction ws rule: induct_list012)
  case (3 x y zs)
  then show ?case by (simp add: Split_append_sep)
qed (simp_all add: Split_no_sep)

lemma demo_jwt_laws: "jwt_laws demo_jwt"
proof -
  have "jl_encode demo_jwt c = Some t \<longrightarrow> jl_decode demo_jwt t = Some c" for c t
  proof
    assume enc: "jl_encode demo_jwt c = Some t"
    then have t: "t = Join (demo_fields c) ''|''" "list_all (\<lambda>f. CHR ''|'' \<notin> set f) (demo_fields c)"
      "demo_limit (demo_flag (ac_Expires c)) = ac_Expires c" "demo_limit (demo_flag (ac_Conn c)) = ac_Conn c"
      "demo_limit (demo_flag (ac_LeafNodeConn c)) = ac_LeafNodeConn c"
      by (auto simp: demo_jwt_def demo_limit_def demo_flag_def split: if_splits)
    then have "Split (CHR ''|'') t = demo_fields c"
      by (simp only: t(1), intro Split_Join) (auto simp: demo_fields_def list_all_iff)
    then show "jl_decode demo_jwt t = Some c" using t(3-5) by (simp add: demo_jwt_def) (simp add: demo_fields_def)
  qed
  moreover have "takeWhile (\<lambda>c. c \<noteq> CHR ''|'') (k @ CHR ''|'' # a) = k" if "CHR ''|'' \<notin> set k" for k a :: string
    using that by (subst takeWhile_append2) auto
  then have "jl_user demo_jwt k n p a s = Some t \<longrightarrow> jl_userSubject demo_jwt t = Some k" for k n p a s t
    by (auto simp: demo_jwt_def)
  ultimately show ?thesis unfolding jwt_laws_def by (auto simp: demo_jwt_def)
qed

definition demo_access_env :: "unit demo_claims_ext access_env" where
  "demo_access_env = \<lparr>ae_lib = demo_jwt, ae_now = 7, ae_natsAuth = True,
     ae_seeds = (\<lambda>a. case a of Legacy \<Rightarrow> Some (''LP'', ''LS'') | Tenant t \<Rightarrow> Some (''P'' @ t, ''S'' @ t)),
     ae_writable = True, ae_push = (\<lambda>t. True), ae_farmerKey = Some ''F'', ae_adminKeys = [''A'']\<rparr>"

definition demo_access :: access where
  "demo_access = \<lparr>acc_pki = \<lparr>pki_org = ''acme'',
     pki_nkeys = \<lparr>tbl_rows = [((''t1'', ''web''), \<lparr>nk_NKey = ''K1'', nk_State = ''accepted''\<rparr>),
       ((''t1'', ''db''), \<lparr>nk_NKey = ''K2'', nk_State = ''denied''\<rparr>),
       ((''acme'', ''app''), \<lparr>nk_NKey = ''K3'', nk_State = ''accepted''\<rparr>)], tbl_up = True\<rparr>,
     pki_tenants = \<lparr>tbl_rows = [], tbl_up = True\<rparr>, pki_reloads = []\<rparr>,
     acc_jwts = [], acc_users = [], acc_pushed = [], acc_hooks = []\<rparr>"

lemma demo_access_ok: "tbl_ok (pki_nkeys (acc_pki demo_access))" "tbl_ok (pki_tenants (acc_pki demo_access))"
  by (simp_all add: demo_access_def tbl_ok_def tbl_wf_def)

theorem reload_enforces_database_witness:
  "\<exists>st'. ReloadNKeysForTenant demo_access_env ''t1'' demo_access = (st', None) \<and>
     (\<exists>ac. bus_claims demo_jwt (acc_pushed st') ''Pt1'' = Some ac \<and> jl_revoked demo_jwt ac ''K2'' \<and> \<not> jl_revoked demo_jwt ac ''K1'')"
proof -
  have "snd (ReloadNKeysForTenant demo_access_env ''t1'' demo_access) = None" by code_simp
  then obtain st' where st': "ReloadNKeysForTenant demo_access_env ''t1'' demo_access = (st', None)" by (metis prod.collapse)
  have lib: "ae_lib demo_access_env = demo_jwt" and seeds: "ae_seeds demo_access_env (Tenant ''t1'') = Some (''Pt1'', ''St1'')"
    by (simp_all add: demo_access_env_def)
  have none: "disk_claims demo_jwt demo_access (Tenant ''t1'') = None" by (simp add: disk_claims_def demo_access_def)
  note reload_enforces_database[of demo_access_env, unfolded lib, OF demo_jwt_laws demo_access_ok(1) st' seeds]
  moreover have "''K2'' \<in> refused_keys (acc_pki demo_access) ''t1''"
  proof -
    have "tbl_get (pki_nkeys (acc_pki demo_access)) (''t1'', ''db'') = Some \<lparr>nk_NKey = ''K2'', nk_State = ''denied''\<rparr>"
      "IsValidSproutID ''db''" by code_simp+
    then show ?thesis by (force simp: keys_in_def pki_states)
  qed
  moreover have "''K1'' \<notin> refused_keys (acc_pki demo_access) ''t1''"
    by (auto simp: keys_in_def demo_access_def tbl_get_def pki_states split: if_splits)
  moreover have "\<not> revoked_before demo_access_env demo_access (Tenant ''t1'') ''K1''"
    by (simp add: revoked_before_def disk_claims_def demo_access_def demo_access_env_def)
  ultimately show ?thesis using st' none by auto
qed

section \<open>Deprovisioning\<close>

lemma getTenantRow_Inr: "getTenantRow pki tid = Inr row \<longleftrightarrow> tbl_up (pki_tenants pki) \<and> tbl_get (pki_tenants pki) tid = Some row"
  by (auto simp: getTenantRow_def tbl_first_def tbl_get_def split: option.splits)

lemma getTenantRow_deleted:
  "tbl_ok (pki_tenants pki) \<Longrightarrow> markTenantDeleted pki tid = (pki', None) \<Longrightarrow> getTenantRow pki tid = Inr row \<Longrightarrow>
   \<exists>row'. getTenantRow pki' tid = Inr row' \<and> tn_Deleted row'"
  by (auto simp: markTenantDeleted_def update_tenant_def getTenantRow_Inr tbl_get_put tbl_okD(1)[OF tbl_ok_put]
      split: if_splits option.splits)

lemma deleted_refused:
  assumes "getTenantRow (acc_pki st) tid = Inr row" "tn_Deleted row"
  shows "ensureTenantAccountLocked env tid nh st = (st, Inl (AccPki ErrTenantDeprovisioned))"
  using assms by (simp add: ensureTenantAccountLocked_def)

lemma ensureNatsAuth_keeps: "ensureNatsAuth env st = (st', res) \<Longrightarrow> acc_pki st' = acc_pki st \<and> acc_pushed st' = acc_pushed st"
  by (auto simp: ensureNatsAuth_def ensure_account_def Let_def split: if_splits option.splits prod.splits)

text \<open>A deleted tenant stays deleted, and no reload or provisioning pushes anything for it.\<close>

lemma deleted_tenant_inert:
  assumes "getTenantRow (acc_pki st) tid = Inr row" "tn_Deleted row"
  shows "acc_pki (fst (ReloadNKeysForTenant env tid st)) = acc_pki st \<and> acc_pushed (fst (ReloadNKeysForTenant env tid st)) = acc_pushed st \<and>
      snd (ReloadNKeysForTenant env tid st) \<noteq> None"
    "acc_pki (fst (ProvisionTenant env tid name st)) = acc_pki st \<and> acc_pushed (fst (ProvisionTenant env tid name st)) = acc_pushed st \<and>
      snd (ProvisionTenant env tid name st) \<noteq> None"
proof -
  have "\<exists>st1 err. ensureTenantAccount env tid nh st = (st1, Inl err) \<and> acc_pki st1 = acc_pki st \<and> acc_pushed st1 = acc_pushed st" for nh
  proof (cases "ensureNatsAuth env st")
    case (Pair st1 res)
    then have keep: "acc_pki st1 = acc_pki st" "acc_pushed st1 = acc_pushed st" using ensureNatsAuth_keeps by blast+
    then have "ensureTenantAccountLocked env tid nh st1 = (st1, Inl (AccPki ErrTenantDeprovisioned))"
      using assms deleted_refused[of st1 tid row env nh] by simp
    then show ?thesis using Pair keep by (cases res) (auto simp: ensureTenantAccount_def)
  qed
  then show "acc_pki (fst (ReloadNKeysForTenant env tid st)) = acc_pki st \<and> acc_pushed (fst (ReloadNKeysForTenant env tid st)) = acc_pushed st \<and>
      snd (ReloadNKeysForTenant env tid st) \<noteq> None"
    "acc_pki (fst (ProvisionTenant env tid name st)) = acc_pki st \<and> acc_pushed (fst (ProvisionTenant env tid name st)) = acc_pushed st \<and>
      snd (ProvisionTenant env tid name st) \<noteq> None"
    unfolding ReloadNKeysForTenant_def ProvisionTenant_def by (metis (no_types, lifting) case_prod_conv fst_conv old.sum.simps(5) option.distinct(1) snd_conv)+
qed

definition locked_out :: "'ac jwt_lib \<Rightarrow> 'ac AccountClaims_scheme \<Rightarrow> bool" where
  "locked_out lib ac = (ac_Conn ac = 0 \<and> ac_LeafNodeConn ac = 0 \<and> ac_Expires ac = 0 \<and> jl_revoked lib ac allUsers)"

lemma lockOutAccount_locks:
  assumes "jwt_laws lib"
  shows "locked_out lib (lockOutAccount lib now ac) \<and> jl_subject lib (lockOutAccount lib now ac) = jl_subject lib ac"
proof -
  have keep: "jl_revoked lib (c\<lparr>ac_Conn := x\<rparr>) = jl_revoked lib c" "jl_revoked lib (c\<lparr>ac_LeafNodeConn := x\<rparr>) = jl_revoked lib c"
    "jl_subject lib (c\<lparr>ac_Expires := x\<rparr>) = jl_subject lib c" "jl_subject lib (c\<lparr>ac_Conn := x\<rparr>) = jl_subject lib c"
    "jl_subject lib (c\<lparr>ac_LeafNodeConn := x\<rparr>) = jl_subject lib c" "jl_subject lib (jl_revoke lib c k n) = jl_subject lib c"
    "ac_Expires (jl_revoke lib c k n) = ac_Expires c" "jl_revoked lib (jl_revoke lib c k n) k" for c x k n
    using assms by (simp_all add: jwt_laws_def)
  show ?thesis by (simp add: lockOutAccount_def locked_out_def Let_def keep)
qed

lemma deprovisionTenantLocked_spec:
  assumes laws: "jwt_laws (ae_lib env)" and ok: "deprovisionTenantLocked env tid st = (st', Inr (Some signed))"
    and tenants: "tbl_ok (pki_tenants (acc_pki st))"
  shows "(\<exists>ac. jl_decode (ae_lib env) signed = Some ac \<and> ae_seeds env (Tenant tid) \<noteq> None \<and>
      jl_subject (ae_lib env) ac = fst (the (ae_seeds env (Tenant tid))) \<and> locked_out (ae_lib env) ac) \<and>
    (\<exists>row. getTenantRow (acc_pki st') tid = Inr row \<and> tn_Deleted row) \<and> acc_pushed st' = acc_pushed st"
proof -
  from ok obtain row st1 tam minted ac pki' where *: "getTenantRow (acc_pki st) tid = Inr row"
      "ensure_account env (Tenant tid) (tn_Name row) st = (st1, Some (tam, minted))" "jl_decode (ae_lib env) (tam_jwt tam) = Some ac"
      "jl_encode (ae_lib env) (lockOutAccount (ae_lib env) (ae_now env) ac) = Some signed"
      "markTenantDeleted (acc_pki st1) tid = (pki', None)" "acc_pki st' = pki'" "acc_pushed st' = acc_pushed st1"
    by (auto simp: deprovisionTenantLocked_def ensureTenantAccountMaterial_def Let_def
        split: sum.splits if_splits prod.splits option.splits)
  note E = ensure_account_spec[OF laws *(2)]
  have "jl_decode (ae_lib env) signed = Some (lockOutAccount (ae_lib env) (ae_now env) ac)" using laws *(4) by (auto simp: jwt_laws_def)
  moreover have "jl_subject (ae_lib env) ac = tam_pub tam" "acc_pki st1 = acc_pki st" "acc_pushed st1 = acc_pushed st"
    using E *(3) by (auto simp: same_but_jwts_def)
  moreover have "\<exists>row'. getTenantRow pki' tid = Inr row' \<and> tn_Deleted row'"
    using getTenantRow_deleted[of "acc_pki st1" tid pki' row] * tenants calculation by simp
  ultimately show ?thesis using E * lockOutAccount_locks[OF laws] by auto
qed

text \<open>Later calls for a tenant, with the same library and any outcome of files, seeds and pushes.\<close>

inductive tenant_call :: "'ac jwt_lib \<Rightarrow> string \<Rightarrow> access \<Rightarrow> access \<Rightarrow> bool" for lib tid where
  reload: "ae_lib env = lib \<Longrightarrow> tenant_call lib tid st (fst (ReloadNKeysForTenant env tid st))"
| provision: "ae_lib env = lib \<Longrightarrow> tenant_call lib tid st (fst (ProvisionTenant env tid name st))"

lemma tenant_calls_inert:
  assumes "(tenant_call lib tid)\<^sup>*\<^sup>* st st'" "getTenantRow (acc_pki st) tid = Inr row" "tn_Deleted row"
  shows "acc_pki st' = acc_pki st \<and> acc_pushed st' = acc_pushed st"
  using assms(1)
proof (induction rule: rtranclp_induct)
  case (step s s')
  then have row: "getTenantRow (acc_pki s) tid = Inr row" using assms(2) by simp
  from step(2) have "acc_pki s' = acc_pki s \<and> acc_pushed s' = acc_pushed s"
    by cases (use deleted_tenant_inert[OF row assms(3)] in auto)
  with step show ?case by simp
qed simp

text \<open>
  Property C25. Deprovisioning a tenant whose row is not deleted yet, once it reports success,
  locks the tenant out for good: the claims the bus holds allow no client and no leaf
  connection, never expire and revoke every user, and no later reload or provisioning of that
  tenant, with any library outcome, changes them.  (Of a tenant already marked deleted a success
  says nothing: see \<open>deprovision_retry_pushes_nothing\<close>.)
\<close>

theorem DeprovisionTenant_locks_out:
  assumes laws: "jwt_laws (ae_lib env)" and tenants: "tbl_ok (pki_tenants (acc_pki st))"
    and live: "getTenantRow (acc_pki st) tid = Inr row" "\<not> tn_Deleted row"
    and call: "DeprovisionTenant env tid st = (st', None)" and later: "(tenant_call (ae_lib env) tid)\<^sup>*\<^sup>* st' st''"
  shows "\<exists>pub sig ac. ae_seeds env (Tenant tid) = Some (pub, sig) \<and> bus_claims (ae_lib env) (acc_pushed st'') pub = Some ac \<and>
    ac_Conn ac = 0 \<and> ac_LeafNodeConn ac = 0 \<and> ac_Expires ac = 0 \<and> jl_revoked (ae_lib env) ac allUsers"
proof -
  from call obtain st1 mat st2 res where 1: "ensureNatsAuth env st = (st1, Some mat)"
    "deprovisionTenantLocked env tid st1 = (st2, Inr res)"
    by (auto simp: DeprovisionTenant_def split: if_splits prod.splits option.splits sum.splits)
  have keep: "acc_pki st1 = acc_pki st" using ensureNatsAuth_keeps[OF 1(1)] by simp
  then have "res \<noteq> None" using 1(2) live
    by (auto simp: deprovisionTenantLocked_def Let_def split: option.splits prod.splits if_splits) (metis option.distinct(1))+
  then obtain signed where 2: "deprovisionTenantLocked env tid st1 = (st2, Inr (Some signed))" using 1(2) by blast
  then have "pushAccountUpdate env signed st2 = (st2\<lparr>acc_pushed := acc_pushed st2 @ [signed]\<rparr>, None)"
      "acc_pki st' = acc_pki st2" "acc_pushed st' = acc_pushed st2 @ [signed]"
    using call 1(1) by (auto simp: DeprovisionTenant_def pushAccountUpdate_def split: if_splits prod.splits option.splits)
  note L = deprovisionTenantLocked_spec[OF laws 2] and push = this
  from L tenants keep obtain ac row' where *: "jl_decode (ae_lib env) signed = Some ac" "ae_seeds env (Tenant tid) \<noteq> None"
    "jl_subject (ae_lib env) ac = fst (the (ae_seeds env (Tenant tid)))" "locked_out (ae_lib env) ac"
    "getTenantRow (acc_pki st2) tid = Inr row'" "tn_Deleted row'" by auto
  have "acc_pushed st'' = acc_pushed st2 @ [signed]"
    using tenant_calls_inert[OF later] * push by simp
  then show ?thesis using * bus_claims_push[OF *(1)] by (auto simp: locked_out_def)
qed

text \<open>
  Property C37. A failed push leaves a deprovisioned tenant connected while every retry
  reports success: the row is marked deleted before the push, so the next call returns
  at once without pushing anything.
\<close>

theorem deprovision_retry_pushes_nothing:
  assumes "jwt_laws (ae_lib env)" "tbl_ok (pki_tenants (acc_pki st))"
    and "DeprovisionTenant env tid st = (st1, Some PushFailed)"
    and "ae_natsAuth env'" "jwt_laws (ae_lib env')" "snd (ensureNatsAuth env' st1) \<noteq> None"
  shows "snd (DeprovisionTenant env' tid st1) = None \<and>
    acc_pushed (fst (DeprovisionTenant env' tid st1)) = acc_pushed st"
proof -
  from assms(3) obtain s0 mat s2 signed where 1: "ensureNatsAuth env st = (s0, Some mat)" "IsValidTenantID tid"
    "deprovisionTenantLocked env tid s0 = (s2, Inr (Some signed))" "pushAccountUpdate env signed s2 = (st1, Some PushFailed)"
    by (auto simp: DeprovisionTenant_def deprovisionTenantLocked_def Let_def split: if_splits prod.splits option.splits sum.splits)
  have keep: "acc_pki s0 = acc_pki st" "acc_pushed s0 = acc_pushed st" using ensureNatsAuth_keeps[OF 1(1)] by auto
  have "st1 = s2" using push_cases[OF 1(4)] by simp
  with deprovisionTenantLocked_spec[OF assms(1) 1(3)] assms(2) keep obtain row where
    row: "getTenantRow (acc_pki st1) tid = Inr row" "tn_Deleted row" "acc_pushed st1 = acc_pushed st" by auto
  obtain s3 mat' where 3: "ensureNatsAuth env' st1 = (s3, Some mat')" using assms(6) by (cases "ensureNatsAuth env' st1") auto
  then have "acc_pki s3 = acc_pki st1" "acc_pushed s3 = acc_pushed st1" using ensureNatsAuth_keeps by blast+
  then show ?thesis using row 3 1(2) by (simp add: DeprovisionTenant_def deprovisionTenantLocked_def)
qed

definition demo_provisioned :: access where
  "demo_provisioned = fst (ProvisionTenant demo_access_env ''t1'' ''one'' demo_access)"

lemma demo_provisioned_facts:
  "tbl_ok (pki_tenants (acc_pki demo_provisioned))" "tbl_ok (pki_nkeys (acc_pki demo_provisioned))"
  "case getTenantRow (acc_pki demo_provisioned) ''t1'' of Inl e \<Rightarrow> False | Inr row \<Rightarrow> \<not> tn_Deleted row"
  "snd (DeprovisionTenant demo_access_env ''t1'' demo_provisioned) = None"
  by code_simp+

lemma demo_env_lib: "ae_lib demo_access_env = demo_jwt"
  by (simp add: demo_access_env_def)

theorem DeprovisionTenant_locks_out_witness:
  "\<exists>ac. bus_claims demo_jwt (acc_pushed (fst (DeprovisionTenant demo_access_env ''t1'' demo_provisioned))) ''Pt1'' = Some ac \<and>
     ac_Conn ac = 0 \<and> ac_LeafNodeConn ac = 0 \<and> ac_Expires ac = 0 \<and> jl_revoked demo_jwt ac allUsers"
proof -
  obtain row where row: "getTenantRow (acc_pki demo_provisioned) ''t1'' = Inr row" "\<not> tn_Deleted row"
    using demo_provisioned_facts(3) by (auto split: sum.splits)
  have call: "DeprovisionTenant demo_access_env ''t1'' demo_provisioned =
      (fst (DeprovisionTenant demo_access_env ''t1'' demo_provisioned), None)"
    using demo_provisioned_facts(4) by (metis prod.collapse)
  have seeds: "ae_seeds demo_access_env (Tenant ''t1'') = Some (''Pt1'', ''St1'')" by (simp add: demo_access_env_def)
  from DeprovisionTenant_locks_out[of demo_access_env, unfolded demo_env_lib, OF demo_jwt_laws demo_provisioned_facts(1) row call rtranclp.rtrancl_refl]
  show ?thesis unfolding seeds by auto
qed

theorem deprovision_retry_pushes_nothing_witness:
  "snd (DeprovisionTenant demo_access_env ''t1''
      (fst (DeprovisionTenant (demo_access_env\<lparr>ae_push := \<lambda>t. False\<rparr>) ''t1'' demo_provisioned))) = None"
proof -
  let ?down = "demo_access_env\<lparr>ae_push := \<lambda>t. False\<rparr>"
  have "snd (DeprovisionTenant ?down ''t1'' demo_provisioned) = Some PushFailed" by code_simp
  then have call: "DeprovisionTenant ?down ''t1'' demo_provisioned = (fst (DeprovisionTenant ?down ''t1'' demo_provisioned), Some PushFailed)"
    by (metis prod.collapse)
  have "snd (ensureNatsAuth demo_access_env (fst (DeprovisionTenant ?down ''t1'' demo_provisioned))) \<noteq> None" by code_simp
  moreover have "jwt_laws (ae_lib ?down)" "jwt_laws (ae_lib demo_access_env)" "ae_natsAuth demo_access_env"
    using demo_jwt_laws by (simp_all add: demo_access_env_def)
  ultimately show ?thesis
    using deprovision_retry_pushes_nothing[OF _ demo_provisioned_facts(1) call] by blast
qed

section \<open>Keys that keep or lose access by mistake\<close>

lemma refused_after_delete:
  assumes "tbl_ok (pki_nkeys pki)" "DeleteNKey pki tid s = (pki', None)"
  shows "refused_keys pki' tid \<subseteq> refused_keys pki tid \<and> tbl_ok (pki_nkeys pki')"
proof -
  have "pki_nkeys pki' = tbl_del (pki_nkeys pki) (tid, s)"
    using assms(2) by (auto simp: DeleteNKey_def with_reload_def reloadNKeysFor_def split: if_splits)
  then show ?thesis using assms(1) by (auto simp: keys_in_def tbl_get_del split: if_splits)
qed

text \<open>
  Property C36. Deleting an accepted sprout does not take its access away: its row is
  gone before the reload looks at the rows, so no sync ever revokes its key, and the bus
  goes on admitting the token minted for it.
\<close>

theorem deleted_sprout_keeps_access:
  assumes "jwt_laws (ae_lib env)" "tbl_ok (pki_nkeys (acc_pki st))" "ae_seeds env (Tenant tid) = Some (pub, sig)"
    and "disk_claims (ae_lib env) st (Tenant tid) \<noteq> None \<longrightarrow>
      bus_claims (ae_lib env) (acc_pushed st) pub = disk_claims (ae_lib env) st (Tenant tid)"
    and "\<not> revoked_before env st (Tenant tid) key" "key \<notin> refused_keys (acc_pki st) tid"
    and del: "DeleteNKey (acc_pki st) tid s = (pki', None)"
    and reload: "ReloadNKeysForTenant env tid (st\<lparr>acc_pki := pki'\<rparr>) = (st', None)"
  shows "\<exists>ac. bus_claims (ae_lib env) (acc_pushed st') pub = Some ac \<and> \<not> jl_revoked (ae_lib env) ac key"
proof -
  have d: "refused_keys pki' tid \<subseteq> refused_keys (acc_pki st) tid" "tbl_ok (pki_nkeys pki')"
    using refused_after_delete[OF assms(2) del] by auto
  have same: "disk_claims (ae_lib env) (st\<lparr>acc_pki := pki'\<rparr>) a = disk_claims (ae_lib env) st a"
    "revoked_before env (st\<lparr>acc_pki := pki'\<rparr>) a = revoked_before env st a" for a
    by (auto simp: disk_claims_def revoked_before_def fun_eq_iff split: option.splits)
  from reload_tenant_spec[OF assms(1) _ reload assms(3)] d(2) assms(4)
  obtain ac where "bus_claims (ae_lib env) (acc_pushed st') pub = Some ac"
    "\<forall>k. jl_revoked (ae_lib env) ac k = (k \<in> refused_keys pki' tid \<or>
       (revoked_before env st (Tenant tid) k \<and> ae_farmerKey env \<noteq> Some k \<and> k \<notin> accepted_keys pki' tid))"
    by (auto simp: same)
  then show ?thesis using assms(5,6) d(1) by blast
qed

text \<open>
  A push that fails is not made up for: the claims on disk already say what the database
  asks, so the next reload finds nothing to change, reports success and pushes nothing, and the
  bus goes on admitting the denied sprout.
\<close>

definition demo_denied :: access where
  "demo_denied = demo_provisioned\<lparr>acc_pki := fst (DenyNKey (acc_pki demo_provisioned) ''t1'' ''web'')\<rparr>"

theorem failed_push_is_never_repeated:
  "let failed = ReloadNKeysForTenant (demo_access_env\<lparr>ae_push := \<lambda>t. False\<rparr>) ''t1'' demo_denied;
       again = ReloadNKeysForTenant demo_access_env ''t1'' (fst failed)
   in snd failed = Some PushFailed \<and> snd again = None \<and> acc_pushed (fst again) = acc_pushed demo_provisioned \<and>
      map_option (\<lambda>ac. jl_revoked demo_jwt ac ''K1'') (bus_claims demo_jwt (acc_pushed (fst again)) ''Pt1'') = Some False \<and>
      map_option (\<lambda>ac. jl_revoked demo_jwt ac ''K1'') (disk_claims demo_jwt (fst again) (Tenant ''t1'')) = Some True"
  by code_simp

definition demo_after_delete :: access where
  "demo_after_delete = demo_provisioned\<lparr>acc_pki := fst (DeleteNKey (acc_pki demo_provisioned) ''t1'' ''web'')\<rparr>"

theorem deleted_sprout_keeps_access_witness:
  "snd (DeleteNKey (acc_pki demo_provisioned) ''t1'' ''web'') = None \<and>
   (\<exists>ac. bus_claims demo_jwt (acc_pushed (fst (ReloadNKeysForTenant demo_access_env ''t1'' demo_after_delete))) ''Pt1'' = Some ac \<and>
     \<not> jl_revoked demo_jwt ac ''K1'')"
proof -
  have ok: "snd (DeleteNKey (acc_pki demo_provisioned) ''t1'' ''web'') = None"
    "snd (ReloadNKeysForTenant demo_access_env ''t1'' demo_after_delete) = None"
    "bus_claims demo_jwt (acc_pushed demo_provisioned) ''Pt1'' = disk_claims demo_jwt demo_provisioned (Tenant ''t1'')"
    "\<not> revoked_before demo_access_env demo_provisioned (Tenant ''t1'') ''K1''"
    "pki_nkeys (acc_pki demo_provisioned) = pki_nkeys (acc_pki demo_access)"
    by code_simp+
  have "''K1'' \<notin> refused_keys (acc_pki demo_access) ''t1''"
    by (auto simp: keys_in_def demo_access_def tbl_get_def pki_states split: if_splits)
  then have key: "''K1'' \<notin> refused_keys (acc_pki demo_provisioned) ''t1''" using ok(5) by (simp add: keys_in_def)
  have seeds: "ae_seeds demo_access_env (Tenant ''t1'') = Some (''Pt1'', ''St1'')" by (simp add: demo_access_env_def)
  show ?thesis
    using deleted_sprout_keeps_access[of demo_access_env, unfolded demo_env_lib, OF demo_jwt_laws demo_provisioned_facts(2) seeds _ ok(4) key,
        of "''web''"] ok(1-3)
    by (metis demo_after_delete_def prod.collapse)
qed

end
