(* ===== verification/Bus_Subjects.thy ===== *)
theory Bus_Subjects
  imports Pki_Access Natsapi_Scope
begin

text \<open>
  Subjects of the bus: what a sprout's permissions (\<open>internal/pki/jwtusers.go\<close>) let it
  hear, what the farmer's wildcard listeners hear, and the wire contract with the hosted
  service (\<open>internal/controlplane/controlplane.go\<close>).  The matching of a subscription
  against a subject is the NATS server's; its documented law is \<open>subject_law\<close>.
\<close>

section \<open>Matching\<close>

text \<open>
  Tokens are separated by dots; \<open>*\<close> stands for one token, and \<open>>\<close> as the last token of a
  subscription for one or more.
\<close>

fun tokens_match :: "string list \<Rightarrow> string list \<Rightarrow> bool" where
  "tokens_match [] ts = (ts = [])"
| "tokens_match (p # ps) ts =
     (if p = ''>'' \<and> ps = [] then ts \<noteq> []
      else case ts of [] \<Rightarrow> False | t # ts' \<Rightarrow> (p = ''*'' \<or> p = t) \<and> tokens_match ps ts')"

definition subject_law :: "(string \<Rightarrow> string \<Rightarrow> bool) \<Rightarrow> bool" where
  "subject_law m = (\<forall>p s. [] \<notin> set (Split CHR ''.'' s) \<longrightarrow>
     m p s = tokens_match (Split CHR ''.'' p) (Split CHR ''.'' s))"

lemma Split_dot: "Split sep (a @ sep # b) = Split sep a @ Split sep b"
  by (induction a) (auto split: list.splits)

lemma Split_dot2: "Split sep (a @ sep # b @ sep # c) = Split sep a @ Split sep b @ Split sep c"
  by (simp add: Split_dot)

lemma literal_then_all:
  "\<forall>x \<in> set xs. x \<noteq> ''*'' \<and> x \<noteq> ''>'' \<Longrightarrow>
   tokens_match (xs @ [''>'']) ts = (\<exists>r. r \<noteq> [] \<and> ts = xs @ r)"
  by (induction xs arbitrary: ts) (auto split: list.splits)

lemma tokens_match_length: "''>'' \<notin> set ps \<Longrightarrow> tokens_match ps ts \<Longrightarrow> length ts = length ps"
  by (induction ps arbitrary: ts) (auto split: list.splits if_splits)

lemma Split_tokens: "t \<in> set (Split sep s) \<Longrightarrow> set t \<subseteq> set s"
  by (induction s arbitrary: t) (fastforce split: if_splits list.splits)+

lemma Split_token_no_sep: "t \<in> set (Split sep s) \<Longrightarrow> sep \<notin> set t"
  by (induction s arbitrary: t) (fastforce split: if_splits list.splits)+

lemma IsValid_chars: "IsValidSproutID i \<Longrightarrow> c \<in> set i \<Longrightarrow> sprout_char c"
  by (cases i) (auto simp: IsValidSproutID_def sprout_char_def sprout_first_def list_all_iff split: if_splits)

lemma valid_literal:
  assumes "IsValidSproutID i" "t \<in> set (Split CHR ''.'' i)"
  shows "t \<noteq> ''*'' \<and> t \<noteq> ''>''"
proof -
  have "CHR ''*'' \<notin> set i" "CHR ''>'' \<notin> set i"
    using IsValid_chars[OF assms(1), of "CHR ''*''"] IsValid_chars[OF assms(1), of "CHR ''>''"]
    by (auto simp: sprout_char_def is_digit_def is_lower_def)
  then show ?thesis using Split_tokens[OF assms(2)] by auto
qed

section \<open>What a sprout hears\<close>

definition hears :: "(string \<Rightarrow> string \<Rightarrow> bool) \<Rightarrow> string \<Rightarrow> string \<Rightarrow> bool" where
  "hears m i subject = list_ex (\<lambda>p. m p subject) (perm_Sub (sproutPermissions i))"

lemma hears_iff:
  assumes "subject_law m" "IsValidSproutID i" "[] \<notin> set (Split CHR ''.'' j)" "[] \<notin> set (Split CHR ''.'' verb)"
  shows "hears m i (SproutSubject j verb) =
    (\<exists>r. r \<noteq> [] \<and> Split CHR ''.'' j @ Split CHR ''.'' verb = Split CHR ''.'' i @ r)"
proof -
  have head: "Split CHR ''.'' (''grlx.sprouts.'' @ x) = [''grlx'', ''sprouts''] @ Split CHR ''.'' x" for x
    by simp
  have pat: "Split CHR ''.'' (''grlx.sprouts.'' @ i @ ''.>'') = ([''grlx'', ''sprouts''] @ Split CHR ''.'' i) @ [''>'']"
    using head[of "i @ CHR ''.'' # ''>''"] Split_dot[of "CHR ''.''" i "''>''"] by simp
  have sub: "Split CHR ''.'' (SproutSubject j verb) = [''grlx'', ''sprouts''] @ Split CHR ''.'' j @ Split CHR ''.'' verb"
    using head[of "j @ CHR ''.'' # verb"] Split_dot[of "CHR ''.''" j verb]
    by (simp add: SproutSubject_def SproutSubjectPrefix_def)
  have "[] \<notin> set (Split CHR ''.'' (SproutSubject j verb))" using assms(3,4) unfolding sub by simp
  then have "hears m i (SproutSubject j verb) =
      tokens_match (([''grlx'', ''sprouts''] @ Split CHR ''.'' i) @ [''>'']) ([''grlx'', ''sprouts''] @ Split CHR ''.'' j @ Split CHR ''.'' verb)"
    using assms(1) unfolding subject_law_def hears_def sproutPermissions_def sub[symmetric] pat[symmetric] by simp
  also have "\<dots> = (\<exists>r. r \<noteq> [] \<and> [''grlx'', ''sprouts''] @ Split CHR ''.'' j @ Split CHR ''.'' verb =
      ([''grlx'', ''sprouts''] @ Split CHR ''.'' i) @ r)"
    by (rule literal_then_all) (use valid_literal[OF assms(2)] in auto)
  finally show ?thesis by simp
qed


definition sprout_verbs :: "string list" where
  "sprout_verbs = [''cook'', ''cmd.run'', ''test.ping'', ''facts.request'', ''shell.start'']"

lemma Split_prefix: "(\<exists>r. r \<noteq> [] \<and> Split sep s = Split sep i @ r) = HasPrefix s (i @ [sep])"
proof
  assume "\<exists>r. r \<noteq> [] \<and> Split sep s = Split sep i @ r"
  then obtain r where r: "r \<noteq> []" "Split sep s = Split sep i @ r" by blast
  have join: "Join (xs @ ys) [sep] = Join xs [sep] @ sep # Join ys [sep]" if "xs \<noteq> []" "ys \<noteq> []" for xs ys
    using that by (induction xs rule: induct_list012) (auto simp: neq_Nil_conv)
  have "s = Join (Split sep s) [sep]" by (simp add: Join_Split)
  also have "\<dots> = i @ sep # Join r [sep]" using join[OF Split_not_Nil r(1)] r(2) by (simp add: Join_Split)
  finally show "HasPrefix s (i @ [sep])" by (metis HasPrefix_def append.assoc append_Cons append_Nil prefixI)
next
  assume "HasPrefix s (i @ [sep])"
  then obtain t where "s = i @ sep # t" by (auto simp: HasPrefix_def prefix_def)
  then show "\<exists>r. r \<noteq> [] \<and> Split sep s = Split sep i @ r" using Split_not_Nil[of sep t] by (auto simp: Split_dot)
qed

lemma subject_prefix:
  "HasPrefix (j @ ''.'' @ verb) (i @ ''.'') \<longleftrightarrow>
     j = i \<or> HasPrefix j (i @ ''.'') \<or> (\<exists>v w. verb = v @ ''.'' @ w \<and> i = j @ ''.'' @ v)"
proof
  assume "HasPrefix (j @ ''.'' @ verb) (i @ ''.'')"
  then obtain t where t: "(i @ ''.'') @ t = j @ ''.'' @ verb" by (auto simp: HasPrefix_def prefix_def)
  then consider us where "i @ ''.'' = j @ us" "us @ t = ''.'' @ verb" | us where "j = (i @ ''.'') @ us"
    using iffD1[OF append_eq_append_conv2 t] by blast
  then show "j = i \<or> HasPrefix j (i @ ''.'') \<or> (\<exists>v w. verb = v @ ''.'' @ w \<and> i = j @ ''.'' @ v)"
  proof cases
    case 1
    show ?thesis
    proof (cases us)
      case Nil
      then show ?thesis using 1(1) by (auto simp: HasPrefix_def)
    next
      case (Cons c v')
      then have c: "c = CHR ''.''" "v' @ t = verb" using 1(2) by auto
      show ?thesis
      proof (cases v' rule: rev_cases)
        case Nil
        then show ?thesis using 1(1) Cons c by simp
      next
        case (snoc v d)
        then have "i = j @ ''.'' @ v" "d = CHR ''.''" using 1(1) Cons c(1) by (auto simp flip: append_assoc append_Cons)
        then show ?thesis using c(2) snoc by (intro disjI2 exI[of _ v] exI[of _ t]) simp
      qed
    qed
  next
    case 2
    then show ?thesis by (auto simp: HasPrefix_def)
  qed
next
  assume "j = i \<or> HasPrefix j (i @ ''.'') \<or> (\<exists>v w. verb = v @ ''.'' @ w \<and> i = j @ ''.'' @ v)"
  then show "HasPrefix (j @ ''.'' @ verb) (i @ ''.'')" by (auto simp: HasPrefix_def prefix_def)
qed

text \<open>
  Property C35. The subscription a sprout's token grants reaches exactly these requests: those
  sent to the sprout itself, whatever the verb; those of sprouts whose ID is its own followed
  by a dot and more; and, where its own ID is another sprout's followed by a dot and the first
  part of a verb, that sprout's requests with this verb.  The last case is a valid ID:
  \<open>web.cmd\<close> hears the \<open>cmd.run\<close> requests of \<open>web\<close>.  The subject must have no empty token, as the bus
  requires.
\<close>

theorem sprout_hears_exactly:
  assumes "subject_law m" "IsValidSproutID i" "[] \<notin> set (Split CHR ''.'' j)" "verb \<in> set sprout_verbs"
  shows "hears m i (SproutSubject j verb) =
    (j = i \<or> HasPrefix j (i @ ''.'') \<or> (\<exists>v w. verb = v @ ''.'' @ w \<and> i = j @ ''.'' @ v))"
proof -
  have verb: "[] \<notin> set (Split CHR ''.'' verb)" using assms(4) by (auto simp: sprout_verbs_def)
  have "hears m i (SproutSubject j verb) = HasPrefix (j @ ''.'' @ verb) (i @ ''.'')"
    using hears_iff[OF assms(1-3) verb] Split_prefix[of "CHR ''.''" "j @ ''.'' @ verb" i] by (simp add: Split_dot)
  then show ?thesis by (simp only: subject_prefix)
qed

theorem sprout_hears_exactly_witness:
  "hears (\<lambda>p s. tokens_match (Split CHR ''.'' p) (Split CHR ''.'' s)) ''web'' (SproutSubject ''web.prod'' ''cmd.run'') \<and>
   \<not> hears (\<lambda>p s. tokens_match (Split CHR ''.'' p) (Split CHR ''.'' s)) ''web'' (SproutSubject ''db'' ''cmd.run'') \<and>
   hears (\<lambda>p s. tokens_match (Split CHR ''.'' p) (Split CHR ''.'' s)) ''web.cmd'' (SproutSubject ''web'' ''cmd.run'')"
proof -
  let ?m = "\<lambda>p s. tokens_match (Split CHR ''.'' p) (Split CHR ''.'' s)"
  have law: "subject_law ?m" by (simp add: subject_law_def)
  have i: "IsValidSproutID ''web''" "IsValidSproutID ''web.cmd''" by code_simp+
  have j: "[] \<notin> set (Split CHR ''.'' ''web.prod'')" "[] \<notin> set (Split CHR ''.'' ''db'')" "[] \<notin> set (Split CHR ''.'' ''web'')"
    "''cmd.run'' \<in> set sprout_verbs" by code_simp+
  have "HasPrefix ''web.prod'' (''web'' @ ''.'')" "\<not> HasPrefix ''db'' (''web'' @ ''.'')" "''db'' \<noteq> ''web''" by code_simp+
  then show ?thesis
    using sprout_hears_exactly[OF law i(1) j(1,4)] sprout_hears_exactly[OF law i(1) j(2,4)] sprout_hears_exactly[OF law i(2) j(3,4)]
    by auto
qed

text \<open>A valid sprout ID that lets its holder read the commands of another sprout.\<close>

theorem verb_named_sprout_overhears:
  assumes "subject_law m"
  shows "IsValidSproutID ''web.cmd'' \<and> hears m ''web.cmd'' (SproutSubject ''web'' ''cmd.run'')"
proof -
  have i: "IsValidSproutID ''web.cmd''" by code_simp
  have "[] \<notin> set (Split CHR ''.'' ''web'')" "[] \<notin> set (Split CHR ''.'' ''cmd.run'')" by code_simp+
  from hears_iff[OF assms i this] i show ?thesis by simp
qed

section \<open>What the farmer hears\<close>

text \<open>The subscriptions of \<open>jobs.RegisterNatsConn\<close>, \<open>facts\<close> and \<open>fleetkeys\<close>, and the subjects sent to.\<close>

definition jobs_events :: string where "jobs_events = ''grlx.cook.*.*''"

definition jobs_created :: string where "jobs_created = ''grlx.sprouts.*.cook''"

definition facts_events :: string where "facts_events = ''grlx.sprouts.*.facts''"

definition farmerSubject :: string where "farmerSubject = ''grlx.sprouts.*.fleetsigningkeys''"

definition cook_event_subject :: "string \<Rightarrow> string \<Rightarrow> string" where
  "cook_event_subject i jid = ''grlx.cook.'' @ i @ ''.'' @ jid"

lemma Split_single: "(\<exists>t. Split sep s = [t]) = (sep \<notin> set s)"
proof (induction s)
  case (Cons c s)
  obtain x xs where "Split sep s = x # xs" by (meson Split_not_Nil neq_Nil_conv)
  then show ?case using Cons by (cases xs) auto
qed simp

lemma one_token_wildcard:
  "v \<noteq> ''>'' \<Longrightarrow> tokens_match ([a, b, ''*''] @ [v]) ([a, b] @ Split CHR ''.'' j @ [v]) = (CHR ''.'' \<notin> set j)"
proof -
  obtain x xs where sp: "Split CHR ''.'' j = x # xs" by (meson Split_not_Nil neq_Nil_conv)
  assume "v \<noteq> ''>''"
  then show ?thesis using Split_single[of "CHR ''.''" j] by (cases xs) (auto simp: sp split: list.splits)
qed

text \<open>
  The farmer's listeners for job events, new jobs, facts and key requests
  hear a sprout exactly when its ID has no dot: for a sprout named after a fully
  qualified host name no job is recorded, no facts are stored and no keys are answered.
\<close>

theorem dotted_sprout_unheard:
  assumes law: "subject_law m" and j: "[] \<notin> set (Split CHR ''.'' j)" and jid: "jid \<noteq> []" "CHR ''.'' \<notin> set jid"
  shows "m jobs_events (cook_event_subject j jid) = (CHR ''.'' \<notin> set j) \<and>
    m jobs_created (SproutSubject j ''cook'') = (CHR ''.'' \<notin> set j) \<and>
    m facts_events (SproutSubject j ''facts'') = (CHR ''.'' \<notin> set j) \<and>
    m farmerSubject (SproutSubject j ''fleetsigningkeys'') = (CHR ''.'' \<notin> set j)"
proof -
  have s: "Split CHR ''.'' (SproutSubject j v) = [''grlx'', ''sprouts''] @ Split CHR ''.'' j @ [v]"
    if "CHR ''.'' \<notin> set v" for v
    using Split_dot[of "CHR ''.''" j v] that by (simp add: SproutSubject_def SproutSubjectPrefix_def Split_no_sep)
  have c: "Split CHR ''.'' (cook_event_subject j jid) = [''grlx'', ''cook''] @ Split CHR ''.'' j @ [jid]"
    using Split_dot[of "CHR ''.''" j jid] jid(2) by (simp add: cook_event_subject_def Split_no_sep)
  obtain x xs where sp: "Split CHR ''.'' j = x # xs" by (meson Split_not_Nil neq_Nil_conv)
  have e: "m jobs_events (cook_event_subject j jid) = (CHR ''.'' \<notin> set j)"
    using law[unfolded subject_law_def, rule_format, of "cook_event_subject j jid" jobs_events] j jid(1) c
      Split_single[of "CHR ''.''" j]
    by (cases xs) (auto simp: jobs_events_def sp split: list.splits)
  have w: "m p (SproutSubject j v) = (CHR ''.'' \<notin> set j)"
    if "CHR ''.'' \<notin> set v" "v \<notin> {[], ''>''}" "Split CHR ''.'' p = [''grlx'', ''sprouts'', ''*''] @ [v]" for p v
    using law[unfolded subject_law_def, rule_format, of "SproutSubject j v" p] j that(2) s[OF that(1)]
      one_token_wildcard[of v "''grlx''" "''sprouts''" j] that(3) by auto
  show ?thesis using e w by (simp add: jobs_created_def facts_events_def farmerSubject_def)
qed

theorem dotted_sprout_unheard_witness:
  "\<not> tokens_match (Split CHR ''.'' jobs_created) (Split CHR ''.'' (SproutSubject ''web.example.com'' ''cook''))"
proof -
  let ?m = "\<lambda>p s. tokens_match (Split CHR ''.'' p) (Split CHR ''.'' s)"
  have law: "subject_law ?m" by (simp add: subject_law_def)
  have j: "[] \<notin> set (Split CHR ''.'' ''web.example.com'')" "CHR ''.'' \<in> set ''web.example.com''" by code_simp+
  have jid: "''J1'' \<noteq> []" "CHR ''.'' \<notin> set ''J1''" by code_simp+
  show ?thesis using dotted_sprout_unheard[OF law j(1) jid] j(2) by blast
qed

end
