(* ===== verification/Controlplane.thy ===== *)
theory Controlplane
  imports Bus_Subjects Go_Path
begin

text \<open>
  The wire contract between the hosted service and the farmer
  (\<open>internal/controlplane/controlplane.go\<close>) and the permissions of the hosted service's
  bus user (\<open>saasAPIUserPermissions\<close> of \<open>internal/pki/saasapi_user.go\<close>).
\<close>

section \<open>Subjects and codes\<close>

definition SubjectTenantProvision :: string where "SubjectTenantProvision = ''internal.tenant.provision''"
definition SubjectTenantDeprovision :: string where "SubjectTenantDeprovision = ''internal.tenant.deprovision''"
definition SubjectSproutAction :: string where "SubjectSproutAction = ''internal.sprout.action''"
definition SaaSAPIInboxPrefix :: string where "SaaSAPIInboxPrefix = ''_INBOX.saasapi''"
definition SaaSAPIInboxWildcard :: string where "SaaSAPIInboxWildcard = SaaSAPIInboxPrefix @ ''.>''"
definition SubjectTenantProvisionedPrefix :: string where "SubjectTenantProvisionedPrefix = ''internal.tenant.provisioned.''"
definition SubjectTenantDeprovisionedPrefix :: string where "SubjectTenantDeprovisionedPrefix = ''internal.tenant.deprovisioned.''"
definition SubjectTenantProvisionedWildcard :: string where
  "SubjectTenantProvisionedWildcard = SubjectTenantProvisionedPrefix @ ''*''"
definition SubjectTenantDeprovisionedWildcard :: string where
  "SubjectTenantDeprovisionedWildcard = SubjectTenantDeprovisionedPrefix @ ''*''"

definition StatusActive :: string where "StatusActive = ''active''"
definition StatusOffboarded :: string where "StatusOffboarded = ''offboarded''"
definition StatusFailed :: string where "StatusFailed = ''failed''"
definition StatusCompleted :: string where "StatusCompleted = ''completed''"
definition StatusDispatched :: string where "StatusDispatched = ''dispatched''"

definition ErrorInvalidTenantID :: string where "ErrorInvalidTenantID = ''invalid_tenant_id''"
definition ErrorTenantNotFound :: string where "ErrorTenantNotFound = ''tenant_not_found''"
definition ErrorInternal :: string where "ErrorInternal = ''internal_error''"
definition ErrorInvalidRequest :: string where "ErrorInvalidRequest = ''invalid_request''"
definition ErrorUnsupportedAction :: string where "ErrorUnsupportedAction = ''unsupported_action''"
definition ErrorSproutNotFound :: string where "ErrorSproutNotFound = ''sprout_not_found''"
definition ErrorSproutUnreachable :: string where "ErrorSproutUnreachable = ''sprout_unreachable''"

lemmas codes = StatusActive_def StatusOffboarded_def StatusFailed_def StatusCompleted_def StatusDispatched_def
  ErrorInvalidTenantID_def ErrorTenantNotFound_def ErrorInternal_def ErrorInvalidRequest_def ErrorUnsupportedAction_def
  ErrorSproutNotFound_def ErrorSproutUnreachable_def

definition publicErrorMessages :: "(string \<times> string) list" where
  "publicErrorMessages =
     [(ErrorInvalidTenantID, ''the tenant ID was rejected by the provisioning service''),
      (ErrorTenantNotFound, ''the tenant is not known to the provisioning service''),
      (ErrorInternal, ''an internal error occurred during provisioning; retry or contact support''),
      (ErrorInvalidRequest, ''the action request was rejected as malformed''),
      (ErrorUnsupportedAction, ''the action type is not supported''),
      (ErrorSproutNotFound, ''the sprout is not known to this tenant''),
      (ErrorSproutUnreachable, ''the sprout did not respond; it may be offline'')]"

definition PublicErrorMessage :: "string \<Rightarrow> string" where
  "PublicErrorMessage code =
     (case map_of publicErrorMessages code of Some msg \<Rightarrow> msg | None \<Rightarrow> the (map_of publicErrorMessages ErrorInternal))"

definition WarningTenantNotProvisioned :: string where "WarningTenantNotProvisioned = ''tenant_not_provisioned''"

definition publicWarningMessages :: "(string \<times> string) list" where
  "publicWarningMessages =
     [(WarningTenantNotProvisioned, ''the tenant was never provisioned on the provisioning service; there was nothing to tear down'')]"

definition PublicWarningMessage :: "string \<Rightarrow> string" where
  "PublicWarningMessage code =
     (if code = [] then []
      else case map_of publicWarningMessages code of
             Some msg \<Rightarrow> msg | None \<Rightarrow> ''the operation completed with a warning; contact support for details'')"

section \<open>Messages\<close>

record TenantProvisionRequest =
  tp_JobID :: string
  tp_TenantID :: string
  tp_Name :: string

record TenantDeprovisionRequest =
  td_JobID :: string
  td_TenantID :: string

record TenantResult =
  tr_JobID :: string
  tr_TenantID :: string
  tr_Status :: string
  tr_ErrorCode :: string
  tr_WarningCode :: string

definition ActionCmdRun :: string where "ActionCmdRun = ''cmd.run''"
definition ActionCookSprout :: string where "ActionCookSprout = ''cook''"
definition ActionSelfUpdate :: string where "ActionSelfUpdate = ''self_update''"

record SelfUpdateParams =
  su_Version :: string
  su_ArtifactURL :: string
  su_ChecksumSHA256 :: string
  su_Signature :: string

record SproutAction =
  sa_Type :: string
  sa_Params :: raw

record SproutActionRequest =
  sar_TenantID :: string
  sar_SproutID :: string
  sar_Action :: SproutAction

record CmdRunResult =
  crr_Stdout :: string
  crr_Stderr :: string
  crr_ExitCode :: int
  crr_Duration :: int

record SproutActionReply =
  rep_TenantID :: string
  rep_SproutID :: string
  rep_Status :: string
  rep_JID :: string
  rep_Result :: "CmdRunResult option"
  rep_ErrorCode :: string

section \<open>Reply subjects and job IDs\<close>

definition CutPrefix :: "string \<Rightarrow> string \<Rightarrow> string option" where
  "CutPrefix s pre = (if HasPrefix s pre then Some (drop (length pre) s) else None)"

definition ContainsAny :: "string \<Rightarrow> string \<Rightarrow> bool" where
  "ContainsAny s chars = list_ex (\<lambda>c. c \<in> set chars) s"

definition subject_breakers :: string where
  "subject_breakers = [CHR '' '', CHR 0x09, CHR 0x0D, CHR 0x0A, CHR ''*'', CHR ''>'']"

definition ValidSaaSAPIReplySubject :: "string \<Rightarrow> bool" where
  "ValidSaaSAPIReplySubject subject =
     (case CutPrefix subject (SaaSAPIInboxPrefix @ ''.'') of
        None \<Rightarrow> False
      | Some rest \<Rightarrow>
          if rest = [] \<or> length subject > 255 then False
          else list_all (\<lambda>tok. \<not> (tok = [] \<or> ContainsAny tok subject_breakers)) (Split CHR ''.'' rest))"

definition maxJobIDLen :: nat where "maxJobIDLen = 36"

definition job_id_char :: "char \<Rightarrow> bool" where
  "job_id_char c = (is_digit c \<or> is_lower c \<or> (65 \<le> (of_char c :: nat) \<and> (of_char c :: nat) \<le> 90) \<or> c = CHR ''_'' \<or> c = CHR ''-'')"

definition ValidJobID :: "string \<Rightarrow> bool" where
  "ValidJobID i = (if i = [] \<or> length i > maxJobIDLen then False else list_all job_id_char i)"

definition ProvisionedSubject :: "string \<Rightarrow> string" where
  "ProvisionedSubject jobID = SubjectTenantProvisionedPrefix @ jobID"

definition DeprovisionedSubject :: "string \<Rightarrow> string" where
  "DeprovisionedSubject jobID = SubjectTenantDeprovisionedPrefix @ jobID"

definition JobIDFromSubject :: "string \<Rightarrow> string \<Rightarrow> string option" where
  "JobIDFromSubject subject pre =
     (case CutPrefix subject pre of None \<Rightarrow> None | Some i \<Rightarrow> if \<not> ValidJobID i then None else Some i)"

definition saasAPIUserPermissions :: Permissions where
  "saasAPIUserPermissions =
     \<lparr>perm_Pub = [SubjectTenantProvision, SubjectTenantDeprovision, SubjectSproutAction],
      perm_Sub = [SubjectTenantProvisionedWildcard, SubjectTenantDeprovisionedWildcard, SaaSAPIInboxWildcard]\<rparr>"

section \<open>Where the farmer speaks\<close>

lemma CutPrefix_Some: "CutPrefix s pre = Some r \<longleftrightarrow> s = pre @ r"
  by (auto simp: CutPrefix_def HasPrefix_def prefix_def)

lemma ValidJobID_token:
  assumes "ValidJobID i"
  shows "i \<noteq> [] \<and> CHR ''.'' \<notin> set i \<and> CHR ''*'' \<notin> set i \<and> CHR ''>'' \<notin> set i \<and> CHR '' '' \<notin> set i"
  using assms by (auto simp: ValidJobID_def list_all_iff job_id_char_def is_digit_def is_lower_def split: if_splits)

lemma JobIDFromSubject_roundtrip:
  "JobIDFromSubject (ProvisionedSubject i) SubjectTenantProvisionedPrefix = (if ValidJobID i then Some i else None)"
  "JobIDFromSubject (DeprovisionedSubject i) SubjectTenantDeprovisionedPrefix = (if ValidJobID i then Some i else None)"
  "JobIDFromSubject (DeprovisionedSubject i) SubjectTenantProvisionedPrefix = None"
  "JobIDFromSubject (ProvisionedSubject i) SubjectTenantDeprovisionedPrefix = None"
  by (auto simp: JobIDFromSubject_def CutPrefix_def HasPrefix_def ProvisionedSubject_def DeprovisionedSubject_def
      SubjectTenantProvisionedPrefix_def SubjectTenantDeprovisionedPrefix_def)

lemma valid_reply_heard:
  assumes "subject_law m" "ValidSaaSAPIReplySubject s"
  shows "m SaaSAPIInboxWildcard s" "CHR ''*'' \<notin> set s" "CHR ''>'' \<notin> set s" "HasPrefix s ''_INBOX.''"
proof -
  from assms(2) obtain rest where s: "s = ''_INBOX.saasapi.'' @ rest" and toks:
      "\<And>t. t \<in> set (Split CHR ''.'' rest) \<Longrightarrow> t \<noteq> [] \<and> \<not> ContainsAny t subject_breakers"
    by (auto simp: ValidSaaSAPIReplySubject_def CutPrefix_Some SaaSAPIInboxPrefix_def list_all_iff split: option.splits if_splits)
  have sp: "Split CHR ''.'' s = [''_INBOX'', ''saasapi''] @ Split CHR ''.'' rest" by (simp add: s)
  then have "[] \<notin> set (Split CHR ''.'' s)" using toks by auto
  then have "m SaaSAPIInboxWildcard s = tokens_match ([''_INBOX'', ''saasapi''] @ [''>'']) (Split CHR ''.'' s)"
    using assms(1) by (simp add: subject_law_def SaaSAPIInboxWildcard_def SaaSAPIInboxPrefix_def)
  then show "m SaaSAPIInboxWildcard s" unfolding sp by simp
  have "c \<notin> set rest" if c: "c \<in> set subject_breakers" "c \<noteq> CHR ''.''" for c
  proof
    assume "c \<in> set rest"
    then obtain t where "t \<in> set (Split CHR ''.'' rest)" "c \<in> set t"
      using set_Join[of "Split CHR ''.'' rest" "[CHR ''.'']"] c(2) by (auto simp: Join_Split)
    then show False using toks c(1) by (auto simp: ContainsAny_def list_ex_iff)
  qed
  then show "CHR ''*'' \<notin> set s" "CHR ''>'' \<notin> set s" by (auto simp: s subject_breakers_def)
  show "HasPrefix s ''_INBOX.''" by (simp add: s HasPrefix_def)
qed

text \<open>
  Everything the farmer publishes for the hosted service, a reply to a
  request it answers or the result of a provisioning job, goes to a literal subject that
  the hosted service's bus user may subscribe to, and never to one of the request
  subjects.
\<close>

theorem farmer_speaks_to_saasapi:
  assumes "subject_law m"
    and "ValidSaaSAPIReplySubject s \<or> (\<exists>i. ValidJobID i \<and> (s = ProvisionedSubject i \<or> s = DeprovisionedSubject i))"
  shows "list_ex (\<lambda>p. m p s) (perm_Sub saasAPIUserPermissions) \<and> CHR ''*'' \<notin> set s \<and> CHR ''>'' \<notin> set s \<and>
    s \<notin> set (perm_Pub saasAPIUserPermissions)"
  using assms(2)
proof (elim disjE exE conjE)
  assume "ValidSaaSAPIReplySubject s"
  then show ?thesis using valid_reply_heard[OF assms(1), of s]
    by (auto simp: saasAPIUserPermissions_def HasPrefix_def SubjectTenantProvision_def SubjectTenantDeprovision_def SubjectSproutAction_def)
next
  fix i assume i: "ValidJobID i" and s: "s = ProvisionedSubject i"
  have "Split CHR ''.'' s = [''internal'', ''tenant'', ''provisioned'', i]"
    using ValidJobID_token[OF i] by (simp add: s ProvisionedSubject_def SubjectTenantProvisionedPrefix_def Split_no_sep)
  moreover from this have "[] \<notin> set (Split CHR ''.'' s)" using ValidJobID_token[OF i] by auto
  ultimately have "m SubjectTenantProvisionedWildcard s" using assms(1)
    by (simp add: subject_law_def SubjectTenantProvisionedWildcard_def SubjectTenantProvisionedPrefix_def)
  then show ?thesis using ValidJobID_token[OF i]
    by (auto simp: s saasAPIUserPermissions_def ProvisionedSubject_def SubjectTenantProvisionedPrefix_def
        SubjectTenantProvision_def SubjectTenantDeprovision_def SubjectSproutAction_def)
next
  fix i assume i: "ValidJobID i" and s: "s = DeprovisionedSubject i"
  have "Split CHR ''.'' s = [''internal'', ''tenant'', ''deprovisioned'', i]"
    using ValidJobID_token[OF i] by (simp add: s DeprovisionedSubject_def SubjectTenantDeprovisionedPrefix_def Split_no_sep)
  moreover from this have "[] \<notin> set (Split CHR ''.'' s)" using ValidJobID_token[OF i] by auto
  ultimately have "m SubjectTenantDeprovisionedWildcard s" using assms(1)
    by (simp add: subject_law_def SubjectTenantDeprovisionedWildcard_def SubjectTenantDeprovisionedPrefix_def)
  then show ?thesis using ValidJobID_token[OF i]
    by (auto simp: s saasAPIUserPermissions_def DeprovisionedSubject_def SubjectTenantDeprovisionedPrefix_def
        SubjectTenantProvision_def SubjectTenantDeprovision_def SubjectSproutAction_def)
qed

theorem farmer_speaks_to_saasapi_witness:
  "list_ex (\<lambda>p. tokens_match (Split CHR ''.'' p) (Split CHR ''.'' ''_INBOX.saasapi.a.b'')) (perm_Sub saasAPIUserPermissions)"
proof -
  let ?m = "\<lambda>p s. tokens_match (Split CHR ''.'' p) (Split CHR ''.'' s)"
  have law: "subject_law ?m" by (simp add: subject_law_def)
  have "ValidSaaSAPIReplySubject ''_INBOX.saasapi.a.b''" by code_simp
  then show ?thesis using farmer_speaks_to_saasapi[OF law] by blast
qed

end
