(* ===== verification/Fleetkeys.thy ===== *)
theory Fleetkeys
  imports Fleetsign Controlplane
begin

text \<open>
  How a sprout asks the farmer for the release keys over the bus
  (\<open>internal/fleetkeys/fleetkeys.go\<close>): the reply subject the farmer accepts, its handler,
  and the sprout's request.  The answer travels as JSON of the two lists below.
\<close>

definition SubjectToken :: string where "SubjectToken = ''fleetsigningkeys''"

definition replyToken :: string where "replyToken = ''reply''"

definition keys_SproutSubject :: "string \<Rightarrow> string" where
  "keys_SproutSubject sproutID = ''grlx.sprouts.'' @ sproutID @ ''.'' @ SubjectToken"

definition ReplyPrefix :: "string \<Rightarrow> string" where
  "ReplyPrefix sproutID = keys_SproutSubject sproutID @ ''.'' @ replyToken"

definition reply_breakers :: string where
  "reply_breakers = CHR ''.'' # subject_breakers"

definition validReplySubject :: "string \<Rightarrow> string \<Rightarrow> bool" where
  "validReplySubject sproutID reply =
     (case CutPrefix reply (ReplyPrefix sproutID @ ''.'') of
        None \<Rightarrow> False
      | Some tok \<Rightarrow> tok \<noteq> [] \<and> \<not> ContainsAny tok reply_breakers \<and> length reply \<le> 255)"

record Response =
  resp_Keys :: "PublicKey list"
  resp_Error :: string

definition errorUnavailable :: string where "errorUnavailable = ''unavailable''"

text \<open>The key source: \<^term>\<open>None\<close> while none is configured, else what it returns.  The answer, if any, and its subject.\<close>

definition keys_handle :: "(fleet_error + KeySet) option \<Rightarrow> string \<Rightarrow> string \<Rightarrow> (string \<times> Response) option" where
  "keys_handle keySource subject reply =
     (if reply = [] then None
      else let tokens = Split CHR ''.'' subject in
           if length tokens \<noteq> 4 \<or> tokens ! 2 = [] then None
           else let sproutID = tokens ! 2 in
                if \<not> validReplySubject sproutID reply then None
                else Some (reply,
                  case keySource of
                    Some (Inr ks) \<Rightarrow> \<lparr>resp_Keys = ks, resp_Error = []\<rparr>
                  | _ \<Rightarrow> \<lparr>resp_Keys = [], resp_Error = errorUnavailable\<rparr>))"

datatype fetch_error = NoConnection | NoNonce | BusError | DecodeError | ErrUnavailable | BadKeys fleet_error

text \<open>
  The sprout's request: a random reply subject below its own tree, what the bus gives back
  (\<^term>\<open>None\<close> when subscribing, publishing or waiting fails) and its decoding.
\<close>

definition fetch_reply :: "string \<Rightarrow> string \<Rightarrow> string" where
  "fetch_reply sproutID nonce = ReplyPrefix sproutID @ ''.'' @ nonce"

definition Fetch ::
  "bool \<Rightarrow> string option \<Rightarrow> string \<Rightarrow> (string \<Rightarrow> string \<Rightarrow> Response option option) \<Rightarrow> fetch_error + KeySet" where
  "Fetch connected nonce sproutID bus =
     (if \<not> connected then Inl NoConnection
      else case nonce of
             None \<Rightarrow> Inl NoNonce
           | Some n \<Rightarrow>
               (case bus (keys_SproutSubject sproutID) (fetch_reply sproutID n) of
                  None \<Rightarrow> Inl BusError
                | Some None \<Rightarrow> Inl DecodeError
                | Some (Some resp) \<Rightarrow>
                    if resp_Error resp \<noteq> [] then Inl ErrUnavailable
                    else (case NewKeySet (resp_Keys resp) of Inl err \<Rightarrow> Inl (BadKeys err) | Inr ks \<Rightarrow> Inr ks)))"

section \<open>Whom the farmer answers, and what arrives\<close>

lemma validReply_Some:
  assumes "validReplySubject i reply"
  obtains tok where "reply = SproutSubject i (''fleetsigningkeys.reply.'' @ tok)" "tok \<noteq> []" "CHR ''.'' \<notin> set tok"
proof -
  from assms obtain tok where t: "reply = ReplyPrefix i @ ''.'' @ tok" "tok \<noteq> []" "\<not> ContainsAny tok reply_breakers"
    by (auto simp: validReplySubject_def CutPrefix_Some split: option.splits)
  have "reply = SproutSubject i (''fleetsigningkeys.reply.'' @ tok)"
    by (simp add: t(1) ReplyPrefix_def keys_SproutSubject_def SubjectToken_def replyToken_def SproutSubject_def SproutSubjectPrefix_def)
  moreover have "CHR ''.'' \<notin> set tok" using t(3) by (auto simp: ContainsAny_def list_ex_iff reply_breakers_def)
  ultimately show ?thesis using t(2) that by blast
qed

lemma keys_handle_Some:
  assumes "keys_handle src subject reply = Some (to, resp)"
  shows "to = reply \<and> CHR ''.'' \<notin> set (Split CHR ''.'' subject ! 2) \<and> Split CHR ''.'' subject ! 2 \<noteq> [] \<and>
    validReplySubject (Split CHR ''.'' subject ! 2) reply"
proof -
  have len: "length (Split CHR ''.'' subject) = 4" and v: "to = reply" "Split CHR ''.'' subject ! 2 \<noteq> []"
      "validReplySubject (Split CHR ''.'' subject ! 2) reply"
    using assms by (auto simp: keys_handle_def Let_def split: if_splits)
  have "Split CHR ''.'' subject ! 2 \<in> set (Split CHR ''.'' subject)" by (rule nth_mem) (simp add: len)
  then show ?thesis using v Split_token_no_sep by blast
qed

text \<open>
  The farmer answers a key request only on a subject below the requesting
  sprout's own tree: among the sprouts without a dot in their ID, that sprout alone may
  subscribe to it.
\<close>

theorem key_reply_stays_with_sprout:
  assumes law: "subject_law m" and h: "keys_handle src subject reply = Some (to, resp)"
    and i: "IsValidSproutID i" "CHR ''.'' \<notin> set i"
  shows "hears m i to = (i = Split CHR ''.'' subject ! 2)"
proof -
  let ?j = "Split CHR ''.'' subject ! 2"
  note H = keys_handle_Some[OF h]
  then obtain tok where t: "to = SproutSubject ?j (''fleetsigningkeys.reply.'' @ tok)" "tok \<noteq> []" "CHR ''.'' \<notin> set tok"
    using validReply_Some by metis
  have sp: "Split CHR ''.'' ?j = [?j]" "Split CHR ''.'' i = [i]" using H i(2) by (simp_all add: Split_no_sep)
  have v: "Split CHR ''.'' (''fleetsigningkeys.reply.'' @ tok) = [''fleetsigningkeys'', ''reply'', tok]"
    using t(3) by (simp add: Split_no_sep)
  have ne: "[] \<notin> set (Split CHR ''.'' ?j)" "[] \<notin> set (Split CHR ''.'' (''fleetsigningkeys.reply.'' @ tok))"
    unfolding sp v using H t(2) by auto
  show ?thesis unfolding t(1) hears_iff[OF law i(1) ne] v sp(1) sp(2) by auto
qed

theorem key_reply_stays_with_sprout_witness:
  "keys_handle None ''grlx.sprouts.web.fleetsigningkeys'' ''grlx.sprouts.web.fleetsigningkeys.reply.0a'' \<noteq> None \<and>
   \<not> hears (\<lambda>p s. tokens_match (Split CHR ''.'' p) (Split CHR ''.'' s)) ''db'' ''grlx.sprouts.web.fleetsigningkeys.reply.0a''"
proof -
  let ?m = "\<lambda>p s. tokens_match (Split CHR ''.'' p) (Split CHR ''.'' s)"
  have law: "subject_law ?m" by (simp add: subject_law_def)
  have h: "keys_handle None ''grlx.sprouts.web.fleetsigningkeys'' ''grlx.sprouts.web.fleetsigningkeys.reply.0a'' =
      Some (''grlx.sprouts.web.fleetsigningkeys.reply.0a'', \<lparr>resp_Keys = [], resp_Error = errorUnavailable\<rparr>)" by code_simp
  have i: "IsValidSproutID ''db''" "CHR ''.'' \<notin> set ''db''" "Split CHR ''.'' ''grlx.sprouts.web.fleetsigningkeys'' ! 2 = ''web''"
    by code_simp+
  show ?thesis using key_reply_stays_with_sprout[OF law h i(1,2)] h i(3) by simp
qed

text \<open>
  A connected sprout that asks the farmer gets exactly the key set the
  farmer's source holds, if its ID is one token and the reply subject is not too long,
  and nothing otherwise.
\<close>

theorem Fetch_from_farmer:
  assumes "keyset_ok ks" "nonce \<noteq> []" "\<not> ContainsAny nonce reply_breakers"
  shows "Fetch True (Some nonce) i (\<lambda>subject reply. map_option (\<lambda>(to, resp). Some resp) (keys_handle (Some (Inr ks)) subject reply)) =
    (if i \<noteq> [] \<and> CHR ''.'' \<notin> set i \<and> length i + length nonce \<le> 218 then Inr ks else Inl BusError)"
proof -
  obtain x xs where sp: "Split CHR ''.'' i = x # xs" by (meson Split_not_Nil neq_Nil_conv)
  have "Split CHR ''.'' (''grlx.sprouts.'' @ i @ CHR ''.'' # SubjectToken) = [''grlx'', ''sprouts''] @ Split CHR ''.'' i @ [''fleetsigningkeys'']"
    using Split_dot[of "CHR ''.''" i "''fleetsigningkeys''"] by (simp add: SubjectToken_def)
  then have toks: "Split CHR ''.'' (keys_SproutSubject i) = [''grlx'', ''sprouts''] @ Split CHR ''.'' i @ [''fleetsigningkeys'']"
    by (simp add: keys_SproutSubject_def)
  have cut: "CutPrefix (fetch_reply i nonce) (ReplyPrefix i @ ''.'') = Some nonce" by (simp add: CutPrefix_Some fetch_reply_def)
  have len: "length (fetch_reply i nonce) = length i + length nonce + 37"
    by (simp add: fetch_reply_def ReplyPrefix_def keys_SproutSubject_def SubjectToken_def replyToken_def)
  have valid: "validReplySubject i (fetch_reply i nonce) = (length i + length nonce \<le> 218)"
    using assms(2,3) cut len by (auto simp: validReplySubject_def)
  have one: "xs = [] \<longleftrightarrow> CHR ''.'' \<notin> set i" "xs = [] \<Longrightarrow> x = i"
    using Split_single[of "CHR ''.''" i] sp Split_no_sep[of "CHR ''.''" i] by auto
  have ne: "fetch_reply i nonce \<noteq> []" by (simp add: fetch_reply_def)
  show ?thesis
  proof (cases "xs = []")
    case True
    then have "x = i" "CHR ''.'' \<notin> set i" using one by auto
    then show ?thesis using True sp toks valid ne NewKeySet_id[OF assms(1)]
      by (simp add: Fetch_def keys_handle_def Let_def)
  next
    case False
    then show ?thesis using one sp toks ne by (simp add: Fetch_def keys_handle_def Let_def)
  qed
qed

theorem Fetch_from_farmer_witness:
  "Fetch True (Some ''0a'') ''web'' (\<lambda>subject reply. map_option (\<lambda>(to, resp). Some resp) (keys_handle (Some (Inr demo_keys)) subject reply)) =
   Inr demo_keys"
proof -
  have n: "''0a'' \<noteq> []" "\<not> ContainsAny ''0a'' reply_breakers" "CHR ''.'' \<notin> set ''web''" by code_simp+
  show ?thesis unfolding Fetch_from_farmer[OF demo_keys_ok n(1,2)] using n(3) by simp
qed

end
