(* ===== verification/File_Http.thy ===== *)
theory File_Http
  imports Fleetsign "HOL-Library.AList"
begin

text \<open>
  Hash checks and the HTTP source of files (\<open>internal/ingredients/file/hashers\<close>,
  \<open>internal/ingredients/file/http/provider.go\<close>).  A file system is a list of paths with
  content and mode; the digests, one round trip of the HTTP transport and the certificate
  parser are parameters; the checks on redirects are those of the source.
\<close>

section \<open>Files\<close>

record node =
  nd_content :: string
  nd_mode :: nat

type_synonym files = "(string \<times> node) list"

section \<open>Hashes\<close>

text \<open>A registered hasher gives the hex digest of a file's bytes; it compares itself with the value it is given.\<close>

type_synonym hash_funcs = "(string \<times> (string \<Rightarrow> string)) list"

datatype hash_error = ErrHashFuncExists | ErrorHashFuncNotFound | ErrFileNotFound

definition builtin_hashers :: "(string \<Rightarrow> string \<Rightarrow> string) \<Rightarrow> hash_funcs" where
  "builtin_hashers digest = map (\<lambda>n. (n, digest n)) [''md5'', ''sha1'', ''sha256'', ''sha512'', ''crc'']"

definition hashers_Register :: "hash_funcs \<Rightarrow> string \<Rightarrow> (string \<Rightarrow> string) \<Rightarrow> hash_funcs \<times> hash_error option" where
  "hashers_Register hfs i f =
     (case map_of hfs i of Some _ \<Rightarrow> (hfs, Some ErrHashFuncExists) | None \<Rightarrow> ((i, f) # hfs, None))"

definition GetHashFunc :: "hash_funcs \<Rightarrow> string \<Rightarrow> hash_error + (string \<Rightarrow> string)" where
  "GetHashFunc hfs hashType = (case map_of hfs hashType of Some f \<Rightarrow> Inr f | None \<Rightarrow> Inl ErrorHashFuncNotFound)"

definition GuessHashType :: "string \<Rightarrow> string" where
  "GuessHashType hash =
     (case cut_at CHR '':'' hash of
        Some (a, _) \<Rightarrow> a
      | None \<Rightarrow>
          (let n = length hash in
           if n = 32 then ''md5'' else if n = 40 then ''sha1'' else if n = 64 then ''sha256''
           else if n = 128 then ''sha512'' else if n = 8 then ''crc'' else ''unknown''))"

record CacheFile =
  cf_Destination :: string
  cf_Hash :: string
  cf_HashType :: string

definition CacheFile_Verify :: "hash_funcs \<Rightarrow> files \<Rightarrow> CacheFile \<Rightarrow> hash_error + bool" where
  "CacheFile_Verify hfs fs cf =
     (case map_of fs (cf_Destination cf) of
        None \<Rightarrow> Inl ErrFileNotFound
      | Some f \<Rightarrow>
          (let hashType = (if cf_HashType cf = [] then GuessHashType (cf_Hash cf) else cf_HashType cf) in
           case GetHashFunc hfs hashType of
             Inl err \<Rightarrow> Inl err
           | Inr hf \<Rightarrow>
               (let hashValue = (case cut_at CHR '':'' (cf_Hash cf) of Some (_, b) \<Rightarrow> b | None \<Rightarrow> cf_Hash cf)
                in Inr (hf (nd_content f) = hashValue))))"

section \<open>The HTTP source\<close>

record HTTPFile =
  hf_Source :: string
  hf_Destination :: string
  hf_Hash :: string
  hf_Props :: "(string \<times> val) list"

datatype http_error =
    BadRequest | BadHeaders | ErrPinnedRootsRequireHTTPS | ErrPinnedRootsUnusable | RequestFailed | TooManyRedirects | UnexpectedStatus | DownloadIO

record http_request =
  rq_method :: string
  rq_url :: string
  rq_headers :: "(string \<times> string list) list"
  rq_roots :: "string option"

text \<open>
  One round trip: no answer, a status and a body (\<^term>\<open>None\<close> when it breaks off), or a
  redirect, with the request the library makes of it.
\<close>

datatype exchange = Broken | Answered int "string option" | Moved http_request

record http_world =
  hw_request :: "string \<Rightarrow> string \<Rightarrow> bool"
  hw_canon :: "string \<Rightarrow> string"
  hw_parseURL :: "string \<Rightarrow> URL option"
  hw_pem :: "string \<Rightarrow> bool"
  hw_exchange :: "http_request \<Rightarrow> exchange"
  hw_writable :: bool

definition PropRootCAFile :: string where "PropRootCAFile = ''rootCAFile''"

definition normalizeHeaderValues :: "val \<Rightarrow> string list option" where
  "normalizeHeaderValues v =
     (case v of
        VStr s \<Rightarrow> Some [s]
      | VStrs ss \<Rightarrow> Some ss
      | VList vs \<Rightarrow> if list_all is_VStr vs then Some (map (\<lambda>v. as_string (Some v)) vs) else None
      | _ \<Rightarrow> None)"

fun set_headers :: "http_world \<Rightarrow> (string \<times> val) list \<Rightarrow> (string \<times> string list) list \<Rightarrow> (string \<times> string list) list option" where
  "set_headers w [] hs = Some hs"
| "set_headers w ((name, v) # rest) hs =
     (case normalizeHeaderValues v of
        None \<Rightarrow> None
      | Some values \<Rightarrow>
          (let hs' = AList.delete (hw_canon w name) hs
           in set_headers w rest (if values = [] then hs' else (hw_canon w name, values) # hs')))"

definition applyRequestHeaders :: "http_world \<Rightarrow> val option \<Rightarrow> (string \<times> string list) list option" where
  "applyRequestHeaders w headers =
     (case headers of
        None \<Rightarrow> Some []
      | Some VNull \<Rightarrow> Some []
      | Some (VMap m) \<Rightarrow> set_headers w m []
      | Some _ \<Rightarrow> None)"

text \<open>The roots a download trusts: the system's (\<^term>\<open>Inr None\<close>) or the certificates of a file.\<close>

definition http_client :: "http_world \<Rightarrow> files \<Rightarrow> HTTPFile \<Rightarrow> http_error + string option" where
  "http_client w fs hf =
     (case map_of (hf_Props hf) PropRootCAFile of
        None \<Rightarrow> Inr None
      | Some VNull \<Rightarrow> Inr None
      | Some v \<Rightarrow>
          if as_string (Some v) = [] then Inl ErrPinnedRootsUnusable
          else if (case hw_parseURL w (hf_Source hf) of None \<Rightarrow> True | Some u \<Rightarrow> url_Scheme u \<noteq> ''https'') then Inl ErrPinnedRootsRequireHTTPS
          else (case map_of fs (as_string (Some v)) of
                  None \<Rightarrow> Inl ErrPinnedRootsUnusable
                | Some f \<Rightarrow> if \<not> hw_pem w (nd_content f) then Inl ErrPinnedRootsUnusable else Inr (Some (nd_content f))))"

text \<open>
  The redirect check of the client, given the next URL and the number of requests made: with
  pinned roots only https is followed, and no client makes more than ten requests (the check of
  the default client is this one without pinned roots).
\<close>

definition CheckRedirect :: "string option \<Rightarrow> URL \<Rightarrow> nat \<Rightarrow> http_error option" where
  "CheckRedirect roots u via =
     (if roots \<noteq> None \<and> url_Scheme u \<noteq> ''https'' then Some ErrPinnedRootsRequireHTTPS
      else if via \<ge> 10 then Some TooManyRedirects
      else None)"

function client_Do :: "http_world \<Rightarrow> string option \<Rightarrow> http_request \<Rightarrow> nat \<Rightarrow> http_error + (int \<times> string option)" where
  "client_Do w roots rq via =
     (case hw_exchange w (rq\<lparr>rq_roots := roots\<rparr>) of
        Broken \<Rightarrow> Inl RequestFailed
      | Answered code body \<Rightarrow> Inr (code, body)
      | Moved rq' \<Rightarrow>
          (case hw_parseURL w (rq_url rq') of
             None \<Rightarrow> Inl RequestFailed
           | Some u \<Rightarrow>
               (case CheckRedirect roots u (Suc via) of
                  Some err \<Rightarrow> Inl err
                | None \<Rightarrow> client_Do w roots rq' (Suc via))))"
  by pat_completeness auto
termination by (relation "measure (\<lambda>(w, roots, rq, via). 10 - via)") (auto simp: CheckRedirect_def split: if_splits)

declare client_Do.simps [simp del]

definition string_prop :: "HTTPFile \<Rightarrow> string \<Rightarrow> string \<Rightarrow> string" where
  "string_prop hf name dflt = (case map_of (hf_Props hf) name of Some (VStr s) \<Rightarrow> s | _ \<Rightarrow> dflt)"

definition Download :: "http_world \<Rightarrow> HTTPFile \<Rightarrow> files \<Rightarrow> files \<times> http_error option" where
  "Download w hf fs =
     (let meth = string_prop hf ''method'' ''GET'' in
      if \<not> hw_request w meth (hf_Source hf) then (fs, Some BadRequest)
      else case applyRequestHeaders w (map_of (hf_Props hf) ''headers'') of
             None \<Rightarrow> (fs, Some BadHeaders)
           | Some headers \<Rightarrow>
               (case http_client w fs hf of
                  Inl err \<Rightarrow> (fs, Some err)
                | Inr roots \<Rightarrow>
                    (case client_Do w roots \<lparr>rq_method = meth, rq_url = hf_Source hf, rq_headers = headers, rq_roots = None\<rparr> 0 of
                       Inl err \<Rightarrow> (fs, Some err)
                     | Inr (code, body) \<Rightarrow>
                         (let expectedCode = (case map_of (hf_Props hf) ''expectedCode'' of Some (VNum n) \<Rightarrow> n | _ \<Rightarrow> 200) in
                          if code \<noteq> expectedCode then (fs, Some UnexpectedStatus)
                          else if \<not> hw_writable w then (fs, Some DownloadIO)
                          else (case body of
                                  None \<Rightarrow> (fs, Some DownloadIO)
                                | Some bytes \<Rightarrow>
                                    (let mode = (case map_of fs (hf_Destination hf) of Some f \<Rightarrow> nd_mode f | None \<Rightarrow> 420)
                                     in (AList.update (hf_Destination hf) \<lparr>nd_content = bytes, nd_mode = mode\<rparr> fs, None)))))))"

definition HTTPFile_Verify :: "hash_funcs \<Rightarrow> files \<Rightarrow> HTTPFile \<Rightarrow> hash_error + bool" where
  "HTTPFile_Verify hfs fs hf =
     CacheFile_Verify hfs fs \<lparr>cf_Destination = hf_Destination hf, cf_Hash = hf_Hash hf,
       cf_HashType = string_prop hf ''hashType'' (GuessHashType (hf_Hash hf))\<rparr>"

section \<open>What a download and a check do\<close>

lemma Download_cases:
  assumes "Download w hf fs = (fs', res)"
  shows "(res \<noteq> None \<longrightarrow> fs' = fs) \<and> (\<forall>p. p \<noteq> hf_Destination hf \<longrightarrow> map_of fs' p = map_of fs p)"
  using assms by (auto simp: Download_def Let_def AList.update_conv' split: if_splits option.splits sum.splits prod.splits)

text \<open>
  What it means that a body came over pinned TLS: at most ten requests were made, the first for
  the URL, each later one the redirect the one before was answered with, all of them https on
  connections that trust only the given certificates, and the last was answered with the body.
\<close>

definition pinned_fetch :: "http_world \<Rightarrow> string \<Rightarrow> string \<Rightarrow> http_request list \<Rightarrow> string \<Rightarrow> bool" where
  "pinned_fetch w cert url rqs body \<longleftrightarrow>
     rqs \<noteq> [] \<and> length rqs \<le> 10 \<and> rq_url (hd rqs) = url \<and>
     (\<forall>r \<in> set rqs. rq_roots r = Some cert \<and> (\<exists>u. hw_parseURL w (rq_url r) = Some u \<and> url_Scheme u = ''https'')) \<and>
     successively (\<lambda>r r'. \<exists>m. hw_exchange w r = Moved m \<and> r' = m\<lparr>rq_roots := Some cert\<rparr>) rqs \<and>
     (\<exists>code. hw_exchange w (last rqs) = Answered code (Some body))"

lemma client_Do_pinned:
  assumes "client_Do w (Some cert) rq via = Inr (code, Some body)" "via < 10"
    and "hw_parseURL w (rq_url rq) = Some u" "url_Scheme u = ''https''"
  shows "\<exists>rqs. hd rqs = rq\<lparr>rq_roots := Some cert\<rparr> \<and> via + length rqs \<le> 10 \<and> pinned_fetch w cert (rq_url rq) rqs body"
  using assms
proof (induction w "Some cert" rq via arbitrary: u rule: client_Do.induct)
  case (1 w rq via)
  let ?rq = "rq\<lparr>rq_roots := Some cert\<rparr>"
  show ?case
  proof (cases "hw_exchange w ?rq")
    case Broken
    then show ?thesis using 1(2) by (simp add: client_Do.simps[of w _ rq])
  next
    case (Answered code' body')
    then have "body' = Some body" using 1(2) by (simp add: client_Do.simps[of w _ rq])
    then show ?thesis using 1(3-5) Answered by (intro exI[of _ "[?rq]"]) (simp add: pinned_fetch_def)
  next
    case (Moved m)
    obtain u' where u: "hw_parseURL w (rq_url m) = Some u'" "CheckRedirect (Some cert) u' (Suc via) = None"
        "client_Do w (Some cert) m (Suc via) = Inr (code, Some body)"
      using 1(2) Moved by (auto simp: client_Do.simps[of w _ rq] split: option.splits)
    then have "Suc via < 10" "url_Scheme u' = ''https''" by (auto simp: CheckRedirect_def split: if_splits)
    then obtain rqs where r: "hd rqs = m\<lparr>rq_roots := Some cert\<rparr>" "Suc via + length rqs \<le> 10" "pinned_fetch w cert (rq_url m) rqs body"
      using 1(1)[OF Moved u(1,2,3)] u(1) by blast
    then obtain rest where "rqs = m\<lparr>rq_roots := Some cert\<rparr> # rest" by (cases rqs) (auto simp: pinned_fetch_def)
    then show ?thesis using r 1(4,5) Moved by (intro exI[of _ "?rq # rqs"]) (auto simp: pinned_fetch_def)
  qed
qed

lemma Download_pinned:
  assumes "Download w hf fs = (fs', None)" "map_of (hf_Props hf) PropRootCAFile = Some (VStr ca)"
  shows "\<exists>cert body rqs. map_of fs ca = Some cert \<and> hw_pem w (nd_content cert) \<and> pinned_fetch w (nd_content cert) (hf_Source hf) rqs body \<and>
    map_option nd_content (map_of fs' (hf_Destination hf)) = Some body"
proof -
  from assms(1) obtain headers roots code body where d:
      "http_client w fs hf = Inr roots"
      "client_Do w roots \<lparr>rq_method = string_prop hf ''method'' ''GET'', rq_url = hf_Source hf, rq_headers = headers, rq_roots = None\<rparr> 0 =
         Inr (code, Some body)"
      "map_option nd_content (map_of fs' (hf_Destination hf)) = Some body"
    by (auto simp: Download_def Let_def AList.update_conv' split: if_splits option.splits sum.splits prod.splits)
  from d(1) assms(2) obtain cert u where "map_of fs ca = Some cert" "hw_pem w (nd_content cert)" "roots = Some (nd_content cert)"
      "hw_parseURL w (hf_Source hf) = Some u" "url_Scheme u = ''https''"
    by (auto simp: http_client_def split: if_splits option.splits)
  with d(2,3) show ?thesis using client_Do_pinned[of w "nd_content cert" _ 0 code body u] by fastforce
qed

lemma HTTPFile_Verify_sha256:
  assumes "HTTPFile_Verify hfs fs hf = Inr True" "map_of (hf_Props hf) ''hashType'' = Some (VStr t)" "t \<noteq> []" "CHR '':'' \<notin> set (hf_Hash hf)"
  shows "\<exists>f digest. map_of fs (hf_Destination hf) = Some f \<and> map_of hfs t = Some digest \<and> digest (nd_content f) = hf_Hash hf"
proof -
  have "cut_at CHR '':'' (hf_Hash hf) = None"
    using assms(4) by (rule cut_at_None)
  then show ?thesis using assms(1-3)
    by (auto simp: HTTPFile_Verify_def CacheFile_Verify_def string_prop_def GetHashFunc_def split: option.splits sum.splits)
qed

end
