(* ===== verification/Selfupdate.thy ===== *)
theory Selfupdate
  imports Fleetkeys File_Http
begin

text \<open>
  The sprout's self update (\<open>internal/ingredients/selfupdate\<close>): which keys a release is
  verified against (\<open>keys.go\<close>), and the one ingredient method, which verifies, downloads,
  checks the digest and hands the staged file to the installer (\<open>selfupdate.go\<close>).
\<close>

section \<open>State\<close>

datatype key_source = sourceLive | sourceCache | sourceBootstrap

datatype su_error =
    ErrMethodUndefined | ErrMissingProperty string | ErrChecksumMismatch | ErrInstallNotImplemented
  | ErrLiveKeysUnavailable | NoPinnedKeys fleet_error | Refused fleet_error | StageFailed | DownloadFailed http_error

text \<open>
  \<open>su_marker\<close> is the file next to the pin; \<open>su_live\<close>, \<open>su_fetchedAt\<close> and \<open>su_superseded\<close> are
  memory of the process.  \<open>su_installed\<close> records what the installer was handed.
\<close>

record su_state =
  su_pin :: "string option"
  su_marker :: bool
  su_live :: "KeySet option"
  su_fetchedAt :: int
  su_superseded :: bool
  su_files :: files
  su_installed :: "(Release \<times> string) list"

record su_env =
  ue_lib :: fleet_lib
  ue_jwk :: jwk_lib
  ue_pin :: pin_env
  ue_fetch :: "fetch_error + KeySet"
  ue_now :: int
  ue_markerWritable :: bool
  ue_http :: http_world
  ue_hashers :: hash_funcs
  ue_cacheDir :: string
  ue_rootCA :: string
  ue_stageable :: bool
  ue_chmod :: bool

definition liveKeyTTL :: int where "liveKeyTTL = 5 * 60 * 1000000000"

section \<open>Keys\<close>

definition bootstrapSuperseded :: "su_state \<Rightarrow> su_state \<times> bool" where
  "bootstrapSuperseded st =
     (if su_superseded st then (st, True)
      else let st' = (if su_marker st then st\<lparr>su_superseded := True\<rparr> else st) in (st', su_superseded st'))"

definition markBootstrapSuperseded :: "su_env \<Rightarrow> su_state \<Rightarrow> su_state" where
  "markBootstrapSuperseded env st =
     (if su_superseded st then st
      else let st' = st\<lparr>su_superseded := True\<rparr> in
           if ue_markerWritable env then st'\<lparr>su_marker := True\<rparr> else st')"

definition keysForVerify :: "su_env \<Rightarrow> bool \<Rightarrow> su_state \<Rightarrow> su_state \<times> (su_error + KeySet \<times> key_source)" where
  "keysForVerify env refresh st =
     (case (if \<not> refresh \<and> ue_now env - su_fetchedAt st < liveKeyTTL then su_live st else None) of
        Some ks \<Rightarrow> (st, Inr (ks, sourceCache))
      | None \<Rightarrow>
          (case ue_fetch env of
             Inr ks \<Rightarrow> (markBootstrapSuperseded env (st\<lparr>su_live := Some ks, su_fetchedAt := ue_now env\<rparr>), Inr (ks, sourceLive))
           | Inl _ \<Rightarrow>
               (let (st1, superseded) = bootstrapSuperseded (st\<lparr>su_live := None\<rparr>) in
                if superseded then (st1, Inl ErrLiveKeysUnavailable)
                else (case LoadPinnedFleetSigningKeys (ue_jwk env) (ue_pin env) (su_pin st1) of
                        Inl err \<Rightarrow> (st1, Inl (NoPinnedKeys err))
                      | Inr pinned \<Rightarrow> (st1, Inr (pinned, sourceBootstrap))))))"

definition verifyRelease :: "su_env \<Rightarrow> Release \<Rightarrow> string \<Rightarrow> su_state \<Rightarrow> su_state \<times> (su_error + key_source)" where
  "verifyRelease env rel sig st =
     (case keysForVerify env False st of
        (st1, Inl err) \<Rightarrow> (st1, Inl err)
      | (st1, Inr (ks, src)) \<Rightarrow>
          if Verify (ue_lib env) ks rel sig = Some ErrUnknownKeyVersion \<and> src = sourceCache
          then (case keysForVerify env True st1 of
                  (st2, Inl err) \<Rightarrow> (st2, Inl err)
                | (st2, Inr (ks2, src2)) \<Rightarrow>
                    (st2, case Verify (ue_lib env) ks2 rel sig of None \<Rightarrow> Inr src2 | Some err \<Rightarrow> Inl (Refused err)))
          else (st1, case Verify (ue_lib env) ks rel sig of None \<Rightarrow> Inr src | Some err \<Rightarrow> Inl (Refused err)))"

definition resetLiveKeys :: "su_state \<Rightarrow> su_state" where
  "resetLiveKeys st = st\<lparr>su_live := None, su_fetchedAt := 0, su_superseded := False\<rparr>"

section \<open>The ingredient\<close>

definition SelfUpdateMethod :: string where "SelfUpdateMethod = ''apply''"

record SelfUpdate =
  sf_method :: string
  sf_params :: "(string \<times> val) list"

definition PropertiesForMethod :: "string \<Rightarrow> su_error option" where
  "PropertiesForMethod m = (if m \<noteq> SelfUpdateMethod then Some ErrMethodUndefined else None)"

definition release_of :: "SelfUpdate \<Rightarrow> su_error + (Release \<times> string)" where
  "release_of s =
     (let get = (\<lambda>key. case map_of (sf_params s) key of Some (VStr v) \<Rightarrow> Some v | _ \<Rightarrow> None) in
      case get ''version'' of
        None \<Rightarrow> Inl (ErrMissingProperty ''version'')
      | Some version \<Rightarrow>
          (case get ''artifact_url'' of
             None \<Rightarrow> Inl (ErrMissingProperty ''artifact_url'')
           | Some url \<Rightarrow>
               (case get ''checksum_sha256'' of
                  None \<Rightarrow> Inl (ErrMissingProperty ''checksum_sha256'')
                | Some cksum \<Rightarrow>
                    Inr (\<lparr>rl_Version = version, rl_ArtifactURL = url, rl_ChecksumSHA256 = cksum\<rparr>,
                         as_string (map_of (sf_params s) ''signature'')))))"

definition SelfUpdate_Parse :: "string \<Rightarrow> (string \<times> val) list \<Rightarrow> su_error + SelfUpdate" where
  "SelfUpdate_Parse m params =
     (let parsed = \<lparr>sf_method = m, sf_params = params\<rparr> in
      case PropertiesForMethod m of
        Some err \<Rightarrow> Inl err
      | None \<Rightarrow> (case release_of parsed of Inl err \<Rightarrow> Inl err | Inr _ \<Rightarrow> Inr parsed))"

definition SelfUpdate_verify :: "su_env \<Rightarrow> SelfUpdate \<Rightarrow> su_state \<Rightarrow> su_state \<times> (su_error + Release \<times> key_source)" where
  "SelfUpdate_verify env s st =
     (case release_of s of
        Inl err \<Rightarrow> (st, Inl err)
      | Inr (rel, sig) \<Rightarrow>
          (case verifyRelease env rel sig st of
             (st', Inl err) \<Rightarrow> (st', Inl err)
           | (st', Inr src) \<Rightarrow> (st', Inr (rel, src))))"

definition stage_path :: "su_env \<Rightarrow> Release \<Rightarrow> string" where
  "stage_path env rel = FJoin [FJoin [ue_cacheDir env, ''selfupdate''], ''sprout-'' @ rl_ChecksumSHA256 rel]"

definition remove_file :: "string \<Rightarrow> su_state \<Rightarrow> su_state" where
  "remove_file path st = st\<lparr>su_files := AList.delete path (su_files st)\<rparr>"

text \<open>The installer is a variable of the package; the one shipped refuses.\<close>

definition install_shipped :: "Release \<Rightarrow> string \<Rightarrow> su_error option" where
  "install_shipped rel path = Some ErrInstallNotImplemented"

definition apply_update ::
  "(Release \<Rightarrow> string \<Rightarrow> su_error option) \<Rightarrow> su_env \<Rightarrow> SelfUpdate \<Rightarrow> su_state \<Rightarrow> su_state \<times> su_error option" where
  "apply_update install env s st =
     (case SelfUpdate_verify env s st of
        (st1, Inl err) \<Rightarrow> (st1, Some err)
      | (st1, Inr (rel, src)) \<Rightarrow>
          if \<not> ue_stageable env then (st1, Some StageFailed)
          else let staged = stage_path env rel;
                   provider = \<lparr>hf_Source = rl_ArtifactURL rel, hf_Destination = staged, hf_Hash = rl_ChecksumSHA256 rel,
                     hf_Props = [(PropRootCAFile, VStr (ue_rootCA env)), (''hashType'', VStr ''sha256'')]\<rparr>
               in case Download (ue_http env) provider (su_files st1) of
                    (fs, Some err) \<Rightarrow> (remove_file staged (st1\<lparr>su_files := fs\<rparr>), Some (DownloadFailed err))
                  | (fs, None) \<Rightarrow>
                      (let st2 = st1\<lparr>su_files := fs\<rparr> in
                       if HTTPFile_Verify (ue_hashers env) fs provider \<noteq> Inr True then (remove_file staged st2, Some ErrChecksumMismatch)
                       else if \<not> ue_chmod env then (remove_file staged st2, Some StageFailed)
                       else let st3 = st2\<lparr>su_files := AList.map_entry staged (\<lambda>f. f\<lparr>nd_mode := 448\<rparr>) fs,
                                         su_installed := su_installed st2 @ [(rel, staged)]\<rparr>
                            in (st3, install rel staged)))"

definition SelfUpdate_Apply ::
  "(Release \<Rightarrow> string \<Rightarrow> su_error option) \<Rightarrow> su_env \<Rightarrow> SelfUpdate \<Rightarrow> su_state \<Rightarrow> su_state \<times> su_error option" where
  "SelfUpdate_Apply install env s st =
     (if sf_method s \<noteq> SelfUpdateMethod then (st, Some ErrMethodUndefined) else apply_update install env s st)"

definition SelfUpdate_Test :: "su_env \<Rightarrow> SelfUpdate \<Rightarrow> su_state \<Rightarrow> su_state \<times> su_error option" where
  "SelfUpdate_Test env s st =
     (if sf_method s \<noteq> SelfUpdateMethod then (st, Some ErrMethodUndefined)
      else case SelfUpdate_verify env s st of
             (st', Inl err) \<Rightarrow> (st', Some err)
           | (st', Inr _) \<Rightarrow> (st', None))"

section \<open>Which keys are trusted\<close>

definition trusted :: "su_env \<Rightarrow> su_state \<Rightarrow> KeySet \<Rightarrow> key_source \<Rightarrow> bool" where
  "trusted env st ks src =
     (case src of
        sourceLive \<Rightarrow> ue_fetch env = Inr ks
      | sourceCache \<Rightarrow> su_live st = Some ks \<and> ue_now env - su_fetchedAt st < liveKeyTTL
      | sourceBootstrap \<Rightarrow> (\<exists>e. ue_fetch env = Inl e) \<and> \<not> su_superseded st \<and> \<not> su_marker st \<and>
          LoadPinnedFleetSigningKeys (ue_jwk env) (ue_pin env) (su_pin st) = Inr ks)"

lemma keysForVerify_trusted:
  "keysForVerify env refresh st = (st', Inr (ks, src)) \<Longrightarrow> trusted env st ks src \<and> (refresh \<longrightarrow> src \<noteq> sourceCache)"
  by (auto simp: keysForVerify_def trusted_def bootstrapSuperseded_def Let_def
      split: option.splits sum.splits if_splits prod.splits)

lemma keysForVerify_cache: "keysForVerify env refresh st = (st', Inr (ks, sourceCache)) \<Longrightarrow> st' = st"
  by (auto simp: keysForVerify_def Let_def split: option.splits sum.splits if_splits prod.splits)

lemma verifyRelease_trusted:
  assumes "verifyRelease env rel sig st = (st', Inr src)"
  shows "\<exists>ks. trusted env st ks src \<and> Verify (ue_lib env) ks rel sig = None"
proof -
  from assms obtain st1 ks1 src1 where 1: "keysForVerify env False st = (st1, Inr (ks1, src1))"
    by (auto simp: verifyRelease_def split: prod.splits sum.splits)
  show ?thesis
  proof (cases "Verify (ue_lib env) ks1 rel sig = Some ErrUnknownKeyVersion \<and> src1 = sourceCache")
    case True
    then have "st1 = st" using 1 keysForVerify_cache by blast
    then show ?thesis using assms 1 True
      by (auto simp: verifyRelease_def dest!: keysForVerify_trusted split: prod.splits sum.splits option.splits)
  next
    case False
    have "src1 = src \<and> Verify (ue_lib env) ks1 rel sig = None"
      using assms 1 False by (auto simp: verifyRelease_def split: option.splits if_splits)
    then show ?thesis using keysForVerify_trusted[OF 1] by blast
  qed
qed

lemma keysForVerify_keeps:
  "keysForVerify env refresh st = (st', res) \<Longrightarrow>
   su_files st' = su_files st \<and> su_installed st' = su_installed st \<and> su_pin st' = su_pin st \<and> (su_marker st \<longrightarrow> su_marker st')"
  by (auto simp: keysForVerify_def bootstrapSuperseded_def markBootstrapSuperseded_def Let_def
      split: option.splits sum.splits if_splits prod.splits)

lemma verifyRelease_keeps:
  "verifyRelease env rel sig st = (st', res) \<Longrightarrow> su_files st' = su_files st \<and> su_installed st' = su_installed st"
  by (auto simp: verifyRelease_def dest!: keysForVerify_keeps split: option.splits sum.splits if_splits prod.splits)

lemma SelfUpdate_verify_Inr:
  assumes "SelfUpdate_verify env s st = (st', Inr (rel, src))"
  obtains sig ks where "release_of s = Inr (rel, sig)" "trusted env st ks src" "Verify (ue_lib env) ks rel sig = None"
    "su_files st' = su_files st" "su_installed st' = su_installed st"
proof -
  from assms obtain sig where "release_of s = Inr (rel, sig)" "verifyRelease env rel sig st = (st', Inr src)"
    by (auto simp: SelfUpdate_verify_def split: sum.splits prod.splits)
  then show ?thesis using that verifyRelease_trusted verifyRelease_keeps by metis
qed

lemma verified_checksum: "Verify lib ks rel sig = None \<Longrightarrow> CHR '':'' \<notin> set (rl_ChecksumSHA256 rel)"
  by (auto simp: Verify_def Message_def validate_def hex_len_def list_all_iff hex_digit_def is_digit_def
      split: if_splits sum.splits)

text \<open>
  Property C24. The installer is handed a file only when the release's signature verified
  against a trusted key set (the farmer's current one, one fetched within five minutes,
  or, before any fetch ever succeeded, the one pinned at enrollment), the file was
  downloaded from the release's URL over TLS pinned to the sprout's root, every redirect
  included, in at most ten requests, and its SHA-256 digest is the signed checksum.
\<close>

theorem install_only_verified:
  assumes call: "SelfUpdate_Apply install env s st = (st', res)" and handed: "su_installed st' \<noteq> su_installed st"
  shows "\<exists>rel sig ks src f digest. release_of s = Inr (rel, sig) \<and> su_installed st' = su_installed st @ [(rel, stage_path env rel)] \<and>
    trusted env st ks src \<and> Verify (ue_lib env) ks rel sig = None \<and>
    map_of (su_files st') (stage_path env rel) = Some f \<and> map_of (ue_hashers env) ''sha256'' = Some digest \<and>
    digest (nd_content f) = rl_ChecksumSHA256 rel \<and>
    (\<exists>cert rqs. map_of (su_files st) (ue_rootCA env) = Some cert \<and>
       pinned_fetch (ue_http env) (nd_content cert) (rl_ArtifactURL rel) rqs (nd_content f))"
proof -
  let ?pr = "\<lambda>rel. \<lparr>hf_Source = rl_ArtifactURL rel, hf_Destination = stage_path env rel, hf_Hash = rl_ChecksumSHA256 rel,
    hf_Props = [(PropRootCAFile, VStr (ue_rootCA env)), (''hashType'', VStr ''sha256'')]\<rparr>"
  from call have app: "apply_update install env s st = (st', res)" using handed by (auto simp: SelfUpdate_Apply_def split: if_splits)
  have "\<exists>st1 rel src. SelfUpdate_verify env s st = (st1, Inr (rel, src))"
  proof (cases "SelfUpdate_verify env s st")
    case (Pair st1 r)
    then show ?thesis
    proof (cases r)
      case (Inl err)
      then have "su_installed st1 = su_installed st"
        using Pair by (auto simp: SelfUpdate_verify_def dest: verifyRelease_keeps split: sum.splits prod.splits)
      then show ?thesis using app Pair Inl handed by (simp add: apply_update_def)
    qed (auto simp: Pair)
  qed
  then obtain st1 rel src where v: "SelfUpdate_verify env s st = (st1, Inr (rel, src))" by blast
  then obtain sig ks where k: "release_of s = Inr (rel, sig)" "trusted env st ks src" "Verify (ue_lib env) ks rel sig = None"
    "su_files st1 = su_files st" "su_installed st1 = su_installed st" by (rule SelfUpdate_verify_Inr)
  from app v handed k(5) obtain fs where d: "Download (ue_http env) (?pr rel) (su_files st) = (fs, None)"
    "HTTPFile_Verify (ue_hashers env) fs (?pr rel) = Inr True"
    "su_files st' = AList.map_entry (stage_path env rel) (\<lambda>f. f\<lparr>nd_mode := 448\<rparr>) fs" "su_installed st' = su_installed st @ [(rel, stage_path env rel)]"
    unfolding apply_update_def Let_def by (auto simp: k(4) remove_file_def split: if_splits prod.splits option.splits)
  obtain f digest where h: "map_of fs (stage_path env rel) = Some f" "map_of (ue_hashers env) ''sha256'' = Some digest"
      "digest (nd_content f) = rl_ChecksumSHA256 rel"
    using HTTPFile_Verify_sha256[OF d(2), of "''sha256''"] verified_checksum[OF k(3)] by (auto simp: PropRootCAFile_def)
  obtain cert rqs where r: "map_of (su_files st) (ue_rootCA env) = Some cert"
      "pinned_fetch (ue_http env) (nd_content cert) (rl_ArtifactURL rel) rqs (nd_content f)"
    using Download_pinned[OF d(1), of "ue_rootCA env"] h(1) by auto
  have "map_of (su_files st') (stage_path env rel) = Some (f\<lparr>nd_mode := 448\<rparr>)" using d(3) h(1) by (simp add: map_of_map_entry)
  then show ?thesis using k(1-3) d(4) h(2,3) r by (intro exI conjI) (assumption | simp)+
qed

section \<open>A concrete update\<close>

definition demo_su_env :: su_env where
  "demo_su_env = \<lparr>ue_lib = demo_fleet_lib, ue_jwk = \<lparr>jw_marshal = (\<lambda>k. None), jw_parse = (\<lambda>d. Some (map jwk_of demo_keys))\<rparr>,
     ue_pin = \<lparr>pe_path = ''p'', pe_readable = True, pe_writable = True, pe_raced = None\<rparr>,
     ue_fetch = Inr demo_keys, ue_now = 10, ue_markerWritable = True,
     ue_http = \<lparr>hw_request = (\<lambda>m u. True), hw_canon = (\<lambda>n. n),
       hw_parseURL = (\<lambda>u. Some \<lparr>url_Scheme = ''https'', url_Host = ''h'', url_User = False\<rparr>), hw_pem = (\<lambda>c. True),
       hw_exchange = (\<lambda>r. Answered 200 (Some ''binary'')), hw_writable = True\<rparr>,
     ue_hashers = [(''sha256'', \<lambda>c. replicate 64 CHR ''a'')], ue_cacheDir = ''/c'', ue_rootCA = ''/ca'', ue_stageable = True, ue_chmod = True\<rparr>"

definition demo_su :: su_state where
  "demo_su = \<lparr>su_pin = Some ''doc'', su_marker = False, su_live = None, su_fetchedAt = 0, su_superseded = False,
     su_files = [(''/ca'', \<lparr>nd_content = ''pem'', nd_mode = 420\<rparr>)], su_installed = []\<rparr>"

definition demo_job :: SelfUpdate where
  "demo_job = \<lparr>sf_method = ''apply'', sf_params = [(''version'', VStr ''1.0''), (''artifact_url'', VStr ''https://h/a''),
     (''checksum_sha256'', VStr (replicate 64 CHR ''a'')), (''signature'', VStr demo_signature)]\<rparr>"

lemma demo_released: "release_of demo_job = Inr (demo_release, demo_signature)"
  by (simp add: release_of_def demo_job_def demo_release_def)

lemma demo_su_verified:
  "SelfUpdate_verify demo_su_env demo_job demo_su =
     (demo_su\<lparr>su_live := Some demo_keys, su_fetchedAt := 10, su_superseded := True, su_marker := True\<rparr>, Inr (demo_release, sourceLive))"
  using demo_verifies
  by (simp add: SelfUpdate_verify_def demo_released verifyRelease_def keysForVerify_def markBootstrapSuperseded_def demo_su_env_def demo_su_def)

lemma demo_installed: "su_installed (fst (SelfUpdate_Apply install_shipped demo_su_env demo_job demo_su)) \<noteq> su_installed demo_su"
proof -
  have "cut_at CHR '':'' (replicate 64 CHR ''a'') = None"
    by (rule cut_at_None) simp
  moreover have "sf_method demo_job = SelfUpdateMethod" by (simp add: demo_job_def SelfUpdateMethod_def)
  ultimately show ?thesis
    by (simp add: SelfUpdate_Apply_def apply_update_def demo_su_verified Let_def)
      (simp add: demo_su_env_def demo_su_def demo_release_def Download_def applyRequestHeaders_def http_client_def client_Do.simps PropRootCAFile_def
        HTTPFile_Verify_def CacheFile_Verify_def GetHashFunc_def string_prop_def Let_def)
qed

theorem install_only_verified_witness:
  "\<exists>rel sig ks src. release_of demo_job = Inr (rel, sig) \<and> trusted demo_su_env demo_su ks src \<and> Verify demo_fleet_lib ks rel sig = None"
proof -
  have "ue_lib demo_su_env = demo_fleet_lib" by (simp add: demo_su_env_def)
  then show ?thesis using install_only_verified[OF surjective_pairing demo_installed] by metis
qed

section \<open>The pinned key is used only before the first fetch\<close>

text \<open>A process asks for keys, with any outcome of the environment, or is restarted.\<close>

inductive su_step :: "su_state \<Rightarrow> su_state \<Rightarrow> bool" where
  asked: "keysForVerify env refresh st = (st', res) \<Longrightarrow> su_step st st'"
| restarted: "su_step st (resetLiveKeys st)"

lemma marker_stays: "su_step\<^sup>*\<^sup>* st st' \<Longrightarrow> su_marker st \<Longrightarrow> su_marker st'"
proof (induction rule: rtranclp_induct)
  case (step a b)
  from step(2) show ?case by cases (use step(3,4) keysForVerify_keeps in \<open>auto simp: resetLiveKeys_def\<close>)
qed

text \<open>
  Property C28. Once a fetch of the live keys has succeeded and left its mark on disk, the
  key set pinned at enrollment is never used again, through any later calls, failures
  and restarts.
\<close>

theorem pinned_key_never_returns:
  assumes first: "keysForVerify env refresh st = (st1, Inr (ks, sourceLive))" "\<not> su_superseded st" "ue_markerWritable env"
    and later: "su_step\<^sup>*\<^sup>* st1 st2" and asked: "keysForVerify env2 refresh2 st2 = (st3, Inr (ks2, src))"
  shows "src \<noteq> sourceBootstrap"
proof -
  have "su_marker st1" using first
    by (auto simp: keysForVerify_def markBootstrapSuperseded_def bootstrapSuperseded_def Let_def
        split: option.splits sum.splits if_splits prod.splits)
  then have "su_marker st2" using marker_stays[OF later] by blast
  then show ?thesis using keysForVerify_trusted[OF asked] by (cases src) (auto simp: trusted_def)
qed


text \<open>
  When the mark cannot be written at the first successful fetch, it is not
  written at any later one of the same process either, since the process already counts
  the pin as superseded: after a restart and a failing fetch the pinned keys are used
  again.
\<close>

theorem lost_mark_not_rewritten:
  assumes "\<not> su_superseded st" "\<not> su_marker st"
    and "ue_fetch env1 = Inr ks1" "\<not> ue_markerWritable env1" "ue_fetch env2 = Inr ks2"
    and "ue_fetch env3 = Inl e" "LoadPinnedFleetSigningKeys (ue_jwk env3) (ue_pin env3) (su_pin st) = Inr pinned"
  shows "snd (keysForVerify env3 refresh (resetLiveKeys (fst (keysForVerify env2 True (fst (keysForVerify env1 True st)))))) =
    Inr (pinned, sourceBootstrap)"
  using assms by (simp add: keysForVerify_def markBootstrapSuperseded_def bootstrapSuperseded_def resetLiveKeys_def)

theorem lost_mark_not_rewritten_witness:
  "snd (keysForVerify (demo_su_env\<lparr>ue_fetch := Inl BusError\<rparr>) False (resetLiveKeys (fst (keysForVerify demo_su_env True
     (fst (keysForVerify (demo_su_env\<lparr>ue_markerWritable := False\<rparr>) True demo_su)))))) = Inr (demo_keys, sourceBootstrap)"
proof -
  let ?e1 = "demo_su_env\<lparr>ue_markerWritable := False\<rparr>" and ?e3 = "demo_su_env\<lparr>ue_fetch := Inl BusError\<rparr>"
  have e: "ue_fetch ?e1 = Inr demo_keys" "\<not> ue_markerWritable ?e1" "ue_fetch demo_su_env = Inr demo_keys" "ue_fetch ?e3 = Inl BusError"
    "\<not> su_superseded demo_su" "\<not> su_marker demo_su"
    by (simp_all add: demo_su_env_def demo_su_def)
  have "LoadPinnedFleetSigningKeys (ue_jwk ?e3) (ue_pin ?e3) (su_pin demo_su) = Inr demo_keys"
    using parse_marshalled[of demo_keys] NewKeySet_id[OF demo_keys_ok]
    by (simp add: LoadPinnedFleetSigningKeys_def ParseJWKS_def demo_su_env_def demo_su_def demo_keys_def)
  then show ?thesis using lost_mark_not_rewritten[OF e(5,6,1,2,3,4)] by blast
qed

theorem pinned_key_never_returns_witness:
  "\<exists>st1 st3 ks2 src. keysForVerify demo_su_env True demo_su = (st1, Inr (demo_keys, sourceLive)) \<and>
     keysForVerify demo_su_env False (resetLiveKeys st1) = (st3, Inr (ks2, src)) \<and> src \<noteq> sourceBootstrap"
proof -
  have e: "\<not> su_superseded demo_su" "ue_markerWritable demo_su_env" by (simp_all add: demo_su_env_def demo_su_def)
  obtain st1 where 1: "keysForVerify demo_su_env True demo_su = (st1, Inr (demo_keys, sourceLive))"
    by (simp add: keysForVerify_def demo_su_env_def)
  obtain st3 where 3: "keysForVerify demo_su_env False (resetLiveKeys st1) = (st3, Inr (demo_keys, sourceLive))"
    by (simp add: keysForVerify_def demo_su_env_def resetLiveKeys_def)
  have "su_step\<^sup>*\<^sup>* st1 (resetLiveKeys st1)" by (simp add: r_into_rtranclp restarted)
  then show ?thesis using pinned_key_never_returns[OF 1 e _ 3] 1 3 by blast
qed

end
