(* ===== verification/Sprout_Action.thy ===== *)
theory Sprout_Action
  imports Natsapi_Props Cook_Recipe Selfupdate
begin

text \<open>
  The farmer's side of the hosted service's requests
  (\<open>internal/natsapi/sprout_action.go\<close>, \<open>tenant_provision.go\<close>): one action on one sprout
  with its checks, and provisioning of tenants.  A request arrives with the reply subject
  its sender chose.  What a sprout answers to a command, the answer to a cook trigger, the
  cook connections and the release keys are part of the environment.
\<close>

section \<open>Environment\<close>

datatype frun_result = FRunOut CmdRunResult | FRunErr bool

text \<open>\<open>FRunErr\<close> carries whether the error is a timeout or an absent responder.\<close>

record 'c action_env =
  av_world :: world
  av_frun :: "string \<Rightarrow> string \<Rightarrow> CmdRun \<Rightarrow> frun_result"
  av_trigger :: "string \<Rightarrow> bool"
  av_bus :: "'c cook_bus"
  av_lib :: fleet_lib
  av_keys :: "(fleet_error + KeySet) option"

text \<open>The envelopes sent for self updates, with their connection and subject.\<close>

record 'c action_state = api_state +
  fm_updates :: "('c \<times> string \<times> RecipeEnvelope) list"

section \<open>Decoding\<close>

definition dec_raw :: "raw dec" where
  "dec_raw v a = (RawDoc v, False)"

definition dec_action :: "SproutAction dec" where
  "dec_action v a =
     (case v of
        VMap kvs \<Rightarrow>
          (let (ty, e1) = dec_field dec_str ''type'' kvs (sa_Type a); (params, e2) = dec_field dec_raw ''params'' kvs (sa_Params a)
           in (\<lparr>sa_Type = ty, sa_Params = params\<rparr>, e1 \<or> e2))
      | VNull \<Rightarrow> (a, False)
      | _ \<Rightarrow> (a, True))"

definition decode_action_request :: "raw \<Rightarrow> SproutActionRequest \<times> bool" where
  "decode_action_request data =
     (let (kvs, e0) = raw_fields data; (tid, e1) = dec_field dec_str ''tenant_id'' kvs [];
          (sid, e2) = dec_field dec_str ''sprout_id'' kvs [];
          (action, e3) = dec_field dec_action ''action'' kvs \<lparr>sa_Type = [], sa_Params = RawEmpty\<rparr>
      in (\<lparr>sar_TenantID = tid, sar_SproutID = sid, sar_Action = action\<rparr>, e0 \<or> e1 \<or> e2 \<or> e3))"

definition decode_selfupdate :: "raw \<Rightarrow> SelfUpdateParams \<times> bool" where
  "decode_selfupdate params =
     (let (fs, err) = raw_strs params [''version'', ''artifact_url'', ''checksum_sha256'', ''signature''] in
      (\<lparr>su_Version = fs ! 0, su_ArtifactURL = fs ! 1, su_ChecksumSHA256 = fs ! 2, su_Signature = fs ! 3\<rparr>, err))"

text \<open>The documents \<open>json.Marshal\<close> makes of the sanitized commands; the output fields are zero.\<close>

definition encode_CmdRun :: "CmdRun \<Rightarrow> val" where
  "encode_CmdRun c =
     VMap [(''command'', VStr (cr_Command c)),
       (''args'', if cr_Args c = [] then VNull else VList (map VStr (cr_Args c))),
       (''path'', VStr (cr_Path c)), (''cwd'', VStr (cr_CWD c)), (''runas'', VStr (cr_RunAs c)),
       (''env'', if cr_Env c = [] then VNull else VMap (map (\<lambda>(k, v). (k, VStr v)) (cr_Env c))),
       (''timeout'', VNum (cr_Timeout c)), (''stdout'', VStr []), (''stderr'', VStr []), (''duration'', VNum 0),
       (''errcode'', VNum 0), (''error'', VNull)]"

definition encode_CmdCook :: "CmdCook \<Rightarrow> val" where
  "encode_CmdCook c =
     VMap ([(''async'', VBool (cc_Async c)), (''env'', VStr (cc_Env c)), (''recipe'', VStr (cc_Recipe c))] @
       (if cc_State c = [] then [] else [(''state'', VStr (cc_State c))]) @
       [(''test'', VBool (cc_Test c)), (''timeout'', VNum (cc_Timeout c)), (''errors'', VNull), (''jid'', VStr (cc_JID c))])"

definition singleTargetParams :: "string \<Rightarrow> val \<Rightarrow> raw" where
  "singleTargetParams sid action =
     RawDoc (VMap [(''target'', VList [VMap [(''id'', VStr sid)]]), (''action'', action)])"

section \<open>One action on one sprout\<close>

definition maxSproutActionCmdTimeout :: int where "maxSproutActionCmdTimeout = 600 * 1000000000"

definition fail_with :: "SproutActionReply \<Rightarrow> string \<Rightarrow> SproutActionReply" where
  "fail_with reply code = reply\<lparr>rep_ErrorCode := code\<rparr>"

text \<open>The results of \<open>handleCmdRun\<close>: what \<open>FRun\<close> gives for each call it made.\<close>

definition run_results :: "(string \<Rightarrow> string \<Rightarrow> CmdRun \<Rightarrow> frun_result) \<Rightarrow> sent list \<Rightarrow> (string \<times> frun_result) list" where
  "run_results frun calls = concat (map (\<lambda>c. case c of CallFRun t s command \<Rightarrow> [(s, frun t s command)] | _ \<Rightarrow> []) calls)"

definition runSproutCmd ::
  "('c, 'm) action_env_scheme \<Rightarrow> ('c, 'n) action_state_scheme \<Rightarrow> SproutActionRequest \<Rightarrow> SproutActionReply \<Rightarrow>
   ('c, 'n) action_state_scheme \<times> SproutActionReply" where
  "runSproutCmd env fm req reply =
     (let (kvs, e0) = raw_fields (sa_Params (sar_Action req)); (inp, e1) = decode_CmdRun kvs in
      if e0 \<or> e1 then (fm, fail_with reply ErrorInvalidRequest)
      else if cr_Command inp = [] then (fm, fail_with reply ErrorInvalidRequest)
      else if cr_StreamTopic inp \<noteq> [] then (fm, fail_with reply ErrorInvalidRequest)
      else if cr_Timeout inp < 0 \<or> cr_Timeout inp > maxSproutActionCmdTimeout then (fm, fail_with reply ErrorInvalidRequest)
      else (case handleCmdRun (av_world env) fm (sar_TenantID req) (singleTargetParams (sar_SproutID req) (encode_CmdRun inp)) of
              (fm', Inl _) \<Rightarrow> (fm', fail_with reply ErrorInternal)
            | (fm', Inr (RTargets ids)) \<Rightarrow>
                (case map_of (run_results (av_frun env) (drop (length (fm_sent fm)) (fm_sent fm'))) (sar_SproutID req) of
                   None \<Rightarrow> (fm', fail_with reply ErrorInternal)
                 | Some (FRunErr unreachable) \<Rightarrow>
                     (fm', fail_with reply (if unreachable then ErrorSproutUnreachable else ErrorInternal))
                 | Some (FRunOut out) \<Rightarrow> (fm', reply\<lparr>rep_Status := StatusCompleted, rep_Result := Some out\<rparr>))
            | (fm', Inr _) \<Rightarrow> (fm', fail_with reply ErrorInternal)))"

definition triggerCookOnTenantConn :: "('c, 'm) action_env_scheme \<Rightarrow> ('c, 'n) action_state_scheme \<Rightarrow> string \<Rightarrow> string \<Rightarrow> bool" where
  "triggerCookOnTenantConn env fm tid jid = (natsConnFor fm tid \<and> av_trigger env (''grlx.farmer.cook.trigger.'' @ jid))"

definition runSproutCook ::
  "('c, 'm) action_env_scheme \<Rightarrow> ('c, 'n) action_state_scheme \<Rightarrow> SproutActionRequest \<Rightarrow> SproutActionReply \<Rightarrow>
   ('c, 'n) action_state_scheme \<times> SproutActionReply" where
  "runSproutCook env fm req reply =
     (let (kvs, e0) = raw_fields (sa_Params (sar_Action req)); (inp, e1) = decode_CmdCook kvs in
      if e0 \<or> e1 then (fm, fail_with reply ErrorInvalidRequest)
      else if cc_Recipe inp = [] then (fm, fail_with reply ErrorInvalidRequest)
      else let action = \<lparr>cc_Async = False, cc_Env = cc_Env inp, cc_Recipe = cc_Recipe inp, cc_State = cc_State inp,
                 cc_Test = cc_Test inp, cc_Timeout = 0, cc_JID = []\<rparr>
           in case handleCook (av_world env) fm (sar_TenantID req) (singleTargetParams (sar_SproutID req) (encode_CmdCook action)) of
                (fm', Inl _) \<Rightarrow> (fm', fail_with reply ErrorInternal)
              | (fm', Inr (RCook cmd)) \<Rightarrow>
                  if cc_JID cmd = [] then (fm', fail_with reply ErrorInternal)
                  else if \<not> triggerCookOnTenantConn env fm' (sar_TenantID req) (cc_JID cmd) then (fm', fail_with reply ErrorInternal)
                  else (fm', reply\<lparr>rep_Status := StatusDispatched, rep_JID := cc_JID cmd\<rparr>)
              | (fm', Inr _) \<Rightarrow> (fm', fail_with reply ErrorInternal))"

definition selfupdate_step :: "SelfUpdateParams \<Rightarrow> Step" where
  "selfupdate_step p =
     \<lparr>st_Ingredient = ''selfupdate'', st_Method = SelfUpdateMethod, st_ID = ''selfupdate-'' @ su_Version p,
      st_Properties = [(''version'', VStr (su_Version p)), (''artifact_url'', VStr (su_ArtifactURL p)),
        (''checksum_sha256'', VStr (su_ChecksumSHA256 p)), (''signature'', VStr (su_Signature p))],
      st_Register = None, st_Secrets = [], st_Requisites = [], st_IsRequisite = False, st_Cond = None, st_OnExit = []\<rparr>"

definition sendSelfUpdate ::
  "('c, 'm) action_env_scheme \<Rightarrow> string \<Rightarrow> string \<Rightarrow> SelfUpdateParams \<Rightarrow>
   ('c \<times> string \<times> RecipeEnvelope) option \<times> (cook_error + string)" where
  "sendSelfUpdate env tid sid p =
     (let jid = w_jobID (av_world env); (sent, err) = SendStepsEvent (av_bus env) tid sid jid [selfupdate_step p]
      in (sent, case err of Some e \<Rightarrow> Inl e | None \<Rightarrow> Inr jid))"

definition runSproutSelfUpdate ::
  "('c, 'm) action_env_scheme \<Rightarrow> ('c, 'n) action_state_scheme \<Rightarrow> SproutActionRequest \<Rightarrow> SproutActionReply \<Rightarrow>
   ('c, 'n) action_state_scheme \<times> SproutActionReply" where
  "runSproutSelfUpdate env fm req reply =
     (let (inp, err) = decode_selfupdate (sa_Params (sar_Action req)) in
      if err then (fm, fail_with reply ErrorInvalidRequest)
      else let rel = \<lparr>rl_Version = su_Version inp, rl_ArtifactURL = su_ArtifactURL inp, rl_ChecksumSHA256 = su_ChecksumSHA256 inp\<rparr> in
      case Message (av_lib env) rel of
        Inl _ \<Rightarrow> (fm, fail_with reply ErrorInvalidRequest)
      | Inr _ \<Rightarrow>
          (case av_keys env of
             None \<Rightarrow> (fm, fail_with reply ErrorInternal)
           | Some (Inl _) \<Rightarrow> (fm, fail_with reply ErrorInternal)
           | Some (Inr ks) \<Rightarrow>
               if Verify (av_lib env) ks rel (su_Signature inp) \<noteq> None then (fm, fail_with reply ErrorInvalidRequest)
               else (let (sent, res) = sendSelfUpdate env (sar_TenantID req) (sar_SproutID req) inp;
                         fm' = fm\<lparr>fm_updates := fm_updates fm @ (case sent of None \<Rightarrow> [] | Some m \<Rightarrow> [m])\<rparr>
                     in case res of
                          Inl e \<Rightarrow> (fm', fail_with reply (if e = Cook_Recipe.RequestFailed then ErrorSproutUnreachable else ErrorInternal))
                        | Inr jid \<Rightarrow> (fm', reply\<lparr>rep_Status := StatusDispatched, rep_JID := jid\<rparr>))))"

definition verifySproutInTenant :: "'m farmer_scheme \<Rightarrow> string \<Rightarrow> string \<Rightarrow> pki_error option" where
  "verifySproutInTenant fm tid sid =
     VerifySproutInTenant (tenant_query (fm_pki fm)) (nkey_query (fm_pki fm)) (currentTenantID (fm_pki fm)) tid sid"

definition verify_code :: "pki_error \<Rightarrow> string" where
  "verify_code err =
     (if err = ErrTenantIDInvalid \<or> err = ErrSproutIDInvalid then ErrorInvalidRequest
      else if err = ErrSproutIDNotFound \<or> err = ErrTenantNotFound then ErrorSproutNotFound
      else ErrorInternal)"

definition runSproutAction ::
  "('c, 'm) action_env_scheme \<Rightarrow> ('c, 'n) action_state_scheme \<Rightarrow> SproutActionRequest \<Rightarrow>
   ('c, 'n) action_state_scheme \<times> SproutActionReply" where
  "runSproutAction env fm req =
     (let reply = \<lparr>rep_TenantID = sar_TenantID req, rep_SproutID = sar_SproutID req, rep_Status = StatusFailed, rep_JID = [],
            rep_Result = None, rep_ErrorCode = []\<rparr>;
          ty = sa_Type (sar_Action req)
      in if ty \<notin> {ActionCmdRun, ActionCookSprout, ActionSelfUpdate} then (fm, fail_with reply ErrorUnsupportedAction)
         else case verifySproutInTenant fm (sar_TenantID req) (sar_SproutID req) of
                Some err \<Rightarrow> (fm, fail_with reply (verify_code err))
              | None \<Rightarrow>
                  if Contains (sar_SproutID req) ''_'' then (fm, fail_with reply ErrorInvalidRequest)
                  else if ty = ActionCmdRun then runSproutCmd env fm req reply
                  else if ty = ActionSelfUpdate then runSproutSelfUpdate env fm req reply
                  else runSproutCook env fm req reply)"

definition handleSproutAction ::
  "('c, 'm) action_env_scheme \<Rightarrow> ('c, 'n) action_state_scheme \<Rightarrow> raw \<Rightarrow> ('c, 'n) action_state_scheme \<times> SproutActionReply" where
  "handleSproutAction env fm data =
     (let (req, err) = decode_action_request data in
      if err then (fm, \<lparr>rep_TenantID = [], rep_SproutID = [], rep_Status = StatusFailed, rep_JID = [], rep_Result = None,
                        rep_ErrorCode = ErrorInvalidRequest\<rparr>)
      else runSproutAction env fm req)"

text \<open>The subscription's callback: the reply and its subject, unless the request is dropped.\<close>

definition on_sprout_action ::
  "('c, 'm) action_env_scheme \<Rightarrow> ('c, 'n) action_state_scheme \<Rightarrow> string \<Rightarrow> raw \<Rightarrow>
   ('c, 'n) action_state_scheme \<times> (string \<times> SproutActionReply) option" where
  "on_sprout_action env fm replySubject data =
     (if \<not> ValidSaaSAPIReplySubject replySubject then (fm, None)
      else let (fm', reply) = handleSproutAction env fm data in (fm', Some (replySubject, reply)))"

definition defaultSproutActionConcurrency :: int where "defaultSproutActionConcurrency = 64"
definition maxSproutActionConcurrency :: int where "maxSproutActionConcurrency = 1024"

definition sproutActionConcurrency :: "string \<Rightarrow> int" where
  "sproutActionConcurrency setting =
     (let raw = TrimSpace setting in
      if raw = [] then defaultSproutActionConcurrency
      else case ParseInt raw of
             None \<Rightarrow> defaultSproutActionConcurrency
           | Some n \<Rightarrow>
               if n < 1 then defaultSproutActionConcurrency
               else if n > maxSproutActionConcurrency then maxSproutActionConcurrency else n)"

section \<open>Provisioning\<close>

definition tenantErrorCode :: "access_error \<Rightarrow> string" where
  "tenantErrorCode err =
     (if err = AccPki ErrTenantIDInvalid then ErrorInvalidTenantID
      else if err = AccPki ErrTenantNotFound then ErrorTenantNotFound
      else ErrorInternal)"

definition handleTenantProvision ::
  "'ac access_env \<Rightarrow> access \<Rightarrow> raw \<Rightarrow> access \<times> (string \<times> TenantResult) option" where
  "handleTenantProvision env st data =
     (let (fs, err) = raw_strs data [''job_id'', ''tenant_id'', ''name'']; jobID = fs ! 0; tid = fs ! 1; name = fs ! 2 in
      if err then (st, None)
      else if \<not> ValidJobID jobID then (st, None)
      else let (st', perr) = ProvisionTenant env tid name st;
               res = \<lparr>tr_JobID = jobID, tr_TenantID = tid, tr_Status = StatusActive, tr_ErrorCode = [], tr_WarningCode = []\<rparr>
           in (st', Some (ProvisionedSubject jobID,
                case perr of None \<Rightarrow> res
                | Some e \<Rightarrow> res\<lparr>tr_Status := StatusFailed, tr_ErrorCode := tenantErrorCode e\<rparr>)))"

definition handleTenantDeprovision ::
  "'ac access_env \<Rightarrow> access \<Rightarrow> raw \<Rightarrow> access \<times> (string \<times> TenantResult) option" where
  "handleTenantDeprovision env st data =
     (let (fs, err) = raw_strs data [''job_id'', ''tenant_id'']; jobID = fs ! 0; tid = fs ! 1 in
      if err then (st, None)
      else if \<not> ValidJobID jobID then (st, None)
      else let (st', derr) = DeprovisionTenant env tid st;
               res = \<lparr>tr_JobID = jobID, tr_TenantID = tid, tr_Status = StatusOffboarded, tr_ErrorCode = [], tr_WarningCode = []\<rparr>
           in (st', Some (DeprovisionedSubject jobID,
                case derr of None \<Rightarrow> res
                | Some e \<Rightarrow>
                    if e = AccPki ErrTenantNotFound then res\<lparr>tr_WarningCode := WarningTenantNotProvisioned\<rparr>
                    else res\<lparr>tr_Status := StatusFailed, tr_ErrorCode := tenantErrorCode e\<rparr>)))"

section \<open>What reaches the handlers\<close>

lemma single_target: "target_ids ''id'' (singleTargetParams sid a) = ([sid], False)"
  by (simp add: target_ids_def singleTargetParams_def raw_fields_def struct_fields_def dec_field_def dec_structs_def dec_elem_def
      dec_str_def ToLower_def lower_char_def)

lemma single_action: "action_fields (singleTargetParams sid (VMap kvs)) = (kvs, False)"
  by (simp add: action_fields_def singleTargetParams_def raw_fields_def struct_fields_def dec_field_def dec_any_def
      ToLower_def lower_char_def)

lemma single_token: "token_of (singleTargetParams sid a) = []"
  by (simp add: token_of_def singleTargetParams_def raw_str_def raw_fields_def struct_fields_def dec_field_def ToLower_def lower_char_def)

lemma decode_encoded_run:
  assumes "cr_StreamTopic c = []" "0 \<le> cr_Timeout c" "cr_Timeout c \<le> maxSproutActionCmdTimeout"
  obtains kvs where "encode_CmdRun c = VMap kvs" "decode_CmdRun kvs = (c, False)"
proof -
  have strs: "dec_strs (if xs = [] then VNull else VList (map VStr xs)) [] = (xs, False)" for xs
    by (auto simp: dec_strs_def dec_str_def comp_def list_ex_iff)
  have env: "dec_strmap (if xs = [] then VNull else VMap (map (\<lambda>(k, v). (k, VStr v)) xs)) [] = (xs, False)" for xs
    by (auto simp: dec_strmap_def dec_str_def comp_def list_ex_iff case_prod_beta)
  let ?kvs = "[(''command'', VStr (cr_Command c)),
       (''args'', if cr_Args c = [] then VNull else VList (map VStr (cr_Args c))),
       (''path'', VStr (cr_Path c)), (''cwd'', VStr (cr_CWD c)), (''runas'', VStr (cr_RunAs c)),
       (''env'', if cr_Env c = [] then VNull else VMap (map (\<lambda>(k, v). (k, VStr v)) (cr_Env c))),
       (''timeout'', VNum (cr_Timeout c)), (''stdout'', VStr []), (''stderr'', VStr []), (''duration'', VNum 0),
       (''errcode'', VNum 0), (''error'', VNull)]"
  have "decode_CmdRun ?kvs = (c, False)"
    using assms strs env unfolding decode_CmdRun_def dec_field_def
    by (simp add: dec_str_def dec_int_def dec_err_def ToLower_def lower_char_def maxSproutActionCmdTimeout_def)
  then show ?thesis using that by (simp add: encode_CmdRun_def)
qed

section \<open>Effects\<close>

definition params_release :: "SelfUpdateParams \<Rightarrow> Release" where
  "params_release p = \<lparr>rl_Version = su_Version p, rl_ArtifactURL = su_ArtifactURL p, rl_ChecksumSHA256 = su_ChecksumSHA256 p\<rparr>"

text \<open>An accepted sprout, by its own row, of a tenant that is the farmer's own or has a live row.\<close>

definition live_sprout :: "pki_state \<Rightarrow> string \<Rightarrow> string \<Rightarrow> bool" where
  "live_sprout st tid sid \<longleftrightarrow>
     (\<exists>row. tbl_get (pki_nkeys st) (tid, sid) = Some row \<and> nk_State row = ''accepted'') \<and>
     (tid = currentTenantID st \<or> (\<exists>trow. tbl_get (pki_tenants st) tid = Some trow \<and> \<not> tn_Deleted trow))"

lemma verified_live: "verifySproutInTenant fm tid sid = None \<Longrightarrow> live_sprout (fm_pki fm) tid sid"
  by (auto simp: verifySproutInTenant_def VerifySproutInTenant_def live_sprout_def tenant_query_def nkey_query_def tbl_first_def tbl_get_def
      stateAccepted_def split: if_splits qres.splits option.splits prod.splits)

text \<open>
  The three things an action may do, each what its parameters say, on the one sprout of the
  one tenant it names: run the command, leave the cook with its job, or send the release
  after its signature verified.
\<close>

definition action_effect ::
  "('c, 'm) action_env_scheme \<Rightarrow> ('c, 'n) action_state_scheme \<Rightarrow> SproutActionRequest \<Rightarrow> ('c, 'n) action_state_scheme \<Rightarrow> bool" where
  "action_effect env fm req fm' =
     (let tid = sar_TenantID req; sid = sar_SproutID req; ty = sa_Type (sar_Action req); params = sa_Params (sar_Action req) in
      (ty = ActionCmdRun \<and> (\<exists>kvs c. raw_fields params = (kvs, False) \<and> decode_CmdRun kvs = (c, False) \<and>
         fm' = add_sent [CallFRun tid sid c] fm \<and> cr_Command c \<noteq> [] \<and> cr_StreamTopic c = [] \<and>
         0 \<le> cr_Timeout c \<and> cr_Timeout c \<le> maxSproutActionCmdTimeout)) \<or>
      (ty = ActionCookSprout \<and> (\<exists>kvs c. raw_fields params = (kvs, False) \<and> decode_CmdCook kvs = (c, False) \<and> cc_Recipe c \<noteq> [] \<and>
         fm' = fm\<lparr>fm_cooks := fm_cooks fm @ [\<lparr>ck_tenant = tid, ck_targets = [sid],
           ck_command = c\<lparr>cc_Async := False, cc_Timeout := 0, cc_JID := []\<rparr>, ck_invoker = [], ck_jid = w_jobID (av_world env)\<rparr>]\<rparr>)) \<or>
      (ty = ActionSelfUpdate \<and> (\<exists>conn e p ks. decode_selfupdate params = (p, False) \<and>
         fm' = fm\<lparr>fm_updates := fm_updates fm @ [(conn, SproutSubject sid ''cook'', e)]\<rparr> \<and>
         farmerConnFor (av_bus env) tid = Some conn \<and> env_Steps e = [selfupdate_step p] \<and>
         av_keys env = Some (Inr ks) \<and> Verify (av_lib env) ks (params_release p) (su_Signature p) = None)))"

lemma decode_encoded_cook:
  assumes "cc_Timeout c = 0"
  obtains kvs where "encode_CmdCook c = VMap kvs" "decode_CmdCook kvs = (c, False)"
proof -
  have "decode_CmdCook ([(''async'', VBool (cc_Async c)), (''env'', VStr (cc_Env c)), (''recipe'', VStr (cc_Recipe c))] @
       (if cc_State c = [] then [] else [(''state'', VStr (cc_State c))]) @
       [(''test'', VBool (cc_Test c)), (''timeout'', VNum (cc_Timeout c)), (''errors'', VNull), (''jid'', VStr (cc_JID c))]) = (c, False)"
    using assms unfolding decode_CmdCook_def dec_field_def
    by (simp add: dec_str_def dec_int_def dec_bool_def dec_errs_def ToLower_def lower_char_def)
  then show ?thesis using that by (simp add: encode_CmdCook_def)
qed

lemma runSproutCmd_effect:
  assumes "runSproutCmd env fm req reply = (fm', r)" "fm' \<noteq> fm" "sa_Type (sar_Action req) = ActionCmdRun"
  shows "action_effect env fm req fm'"
proof -
  let ?tid = "sar_TenantID req" and ?sid = "sar_SproutID req"
  obtain kvs e0 inp e1 where d: "raw_fields (sa_Params (sar_Action req)) = (kvs, e0)" "decode_CmdRun kvs = (inp, e1)"
    by (meson surj_pair)
  have g: "\<not> (e0 \<or> e1)" "cr_Command inp \<noteq> []" "cr_StreamTopic inp = []" "\<not> (cr_Timeout inp < 0 \<or> cr_Timeout inp > maxSproutActionCmdTimeout)"
    using assms by (auto simp: runSproutCmd_def d Let_def split: if_splits)
  obtain kvs' where k: "encode_CmdRun inp = VMap kvs'" "decode_CmdRun kvs' = (inp, False)"
    using decode_encoded_run[of inp] g by force
  have hc: "handleCmdRun (av_world env) fm ?tid (singleTargetParams ?sid (encode_CmdRun inp)) =
      (case validate_targets fm ?tid [?sid] of Some e \<Rightarrow> (fm, Inl e) | None \<Rightarrow> (add_sent [CallFRun ?tid ?sid inp] fm, Inr (RTargets [?sid])))"
    by (simp add: handleCmdRun_def single_target k single_action del: validate_targets.simps split: option.split)
  have "fm' = add_sent [CallFRun ?tid ?sid inp] fm"
    using assms g by (auto simp: runSproutCmd_def d hc split: option.splits frun_result.splits if_splits simp del: validate_targets.simps)
  then show ?thesis using g d assms(3) unfolding action_effect_def Let_def by auto
qed

lemma runSproutCook_effect:
  assumes "runSproutCook env fm req reply = (fm', r)" "fm' \<noteq> fm" "sa_Type (sar_Action req) = ActionCookSprout"
  shows "action_effect env fm req fm'"
proof -
  let ?tid = "sar_TenantID req" and ?sid = "sar_SproutID req"
  obtain kvs e0 inp e1 where d: "raw_fields (sa_Params (sar_Action req)) = (kvs, e0)" "decode_CmdCook kvs = (inp, e1)"
    by (meson surj_pair)
  have g: "\<not> (e0 \<or> e1)" "cc_Recipe inp \<noteq> []" using assms by (auto simp: runSproutCook_def d Let_def split: if_splits)
  define c where "c = inp\<lparr>cc_Async := False, cc_Timeout := 0, cc_JID := []\<rparr>"
  have c: "\<lparr>cc_Async = False, cc_Env = cc_Env inp, cc_Recipe = cc_Recipe inp, cc_State = cc_State inp,
      cc_Test = cc_Test inp, cc_Timeout = 0, cc_JID = []\<rparr> = c" by (simp add: c_def)
  obtain kvs' where k: "encode_CmdCook c = VMap kvs'" "decode_CmdCook kvs' = (c, False)"
    using decode_encoded_cook[of c] by (auto simp: c_def)
  let ?done = "fm\<lparr>fm_cooks := fm_cooks fm @ [\<lparr>ck_tenant = ?tid, ck_targets = [?sid], ck_command = c, ck_invoker = [],
    ck_jid = w_jobID (av_world env)\<rparr>]\<rparr>"
  obtain hfm hres where hh: "handleCook (av_world env) fm ?tid (singleTargetParams ?sid (encode_CmdCook c)) = (hfm, hres)" by (meson surj_pair)
  then have "hfm \<in> {fm, ?done}"
    by (auto simp: handleCook_def single_target single_token k single_action Let_def simp del: validate_targets.simps
        split: option.splits if_splits)
  moreover have "fm' = hfm"
  proof (cases hres)
    case (Inl e)
    then show ?thesis using assms(1) g hh by (simp add: runSproutCook_def d c)
  next
    case (Inr r)
    then show ?thesis using assms(1) g hh by (cases r) (simp_all add: runSproutCook_def d c split: if_splits)
  qed
  ultimately show ?thesis using assms(2,3) g d unfolding action_effect_def Let_def c_def by auto
qed

lemma runSproutSelfUpdate_effect:
  assumes "runSproutSelfUpdate env fm req reply = (fm', r)" "fm' \<noteq> fm" "sa_Type (sar_Action req) = ActionSelfUpdate"
  shows "action_effect env fm req fm'"
proof -
  let ?tid = "sar_TenantID req" and ?sid = "sar_SproutID req"
  obtain p err where d: "decode_selfupdate (sa_Params (sar_Action req)) = (p, err)" by (meson surj_pair)
  obtain ks where k: "\<not> err" "av_keys env = Some (Inr ks)" "Verify (av_lib env) ks (params_release p) (su_Signature p) = None"
      "fm' = fm\<lparr>fm_updates := fm_updates fm @ (case fst (sendSelfUpdate env ?tid ?sid p) of None \<Rightarrow> [] | Some m \<Rightarrow> [m])\<rparr>"
    using assms unfolding runSproutSelfUpdate_def d Let_def params_release_def
    by (auto split: if_splits sum.splits option.splits prod.splits)
  then obtain m where m: "fst (sendSelfUpdate env ?tid ?sid p) = Some m" using assms(2) by (cases "fst (sendSelfUpdate env ?tid ?sid p)") auto
  then obtain conn e where "farmerConnFor (av_bus env) ?tid = Some conn" "m = (conn, SproutSubject ?sid ''cook'', e)" "env_Steps e = [selfupdate_step p]"
    by (auto simp: sendSelfUpdate_def SendStepsEvent_def sendEnvelope_def Let_def SproutSubject_def SproutSubjectPrefix_def
        split: option.splits prod.splits)
  then show ?thesis using k m d assms(3) unfolding action_effect_def Let_def by auto
qed

lemma on_sprout_action_does:
  assumes "on_sprout_action env fm replySubject data = (fm', answer)" "fm' \<noteq> fm"
  shows "ValidSaaSAPIReplySubject replySubject \<and> (\<exists>req. decode_action_request data = (req, False) \<and>
    live_sprout (fm_pki fm) (sar_TenantID req) (sar_SproutID req) \<and> action_effect env fm req fm')"
proof -
  obtain req err where d: "decode_action_request data = (req, err)" by (meson surj_pair)
  have v: "ValidSaaSAPIReplySubject replySubject" "\<not> err" "fst (runSproutAction env fm req) = fm'"
    using assms by (auto simp: on_sprout_action_def handleSproutAction_def d split: if_splits prod.splits)
  then have "verifySproutInTenant fm (sar_TenantID req) (sar_SproutID req) = None \<and> action_effect env fm req fm'"
    using assms(2) runSproutCmd_effect[of env fm req _ fm'] runSproutCook_effect[of env fm req _ fm'] runSproutSelfUpdate_effect[of env fm req _ fm']
    unfolding runSproutAction_def Let_def
    by (auto split: if_splits option.splits simp: prod_eq_iff)
  then show ?thesis using v d verified_live by auto
qed

text \<open>
  Property C13. An action request of the hosted service changes something only when the
  key table holds its sprout, in the asserted tenant, as accepted, and that tenant is the
  farmer's own or has a row that is not deleted; then it does the one thing its type and
  parameters say, to that sprout over that tenant's connection: run the command, bounded in
  time and without streaming; leave the cook of the named recipe under a fresh job and no
  caller's identity; or send the self update, after its signature verified.  A request with a
  foreign reply subject does nothing.
\<close>

theorem sprout_action_effect:
  assumes "on_sprout_action env fm replySubject data = (fm', answer)" "fm' \<noteq> fm"
  shows "ValidSaaSAPIReplySubject replySubject \<and> (\<exists>req. decode_action_request data = (req, False) \<and>
    live_sprout (fm_pki fm) (sar_TenantID req) (sar_SproutID req) \<and> action_effect env fm req fm')"
  by (rule on_sprout_action_does[OF assms])

section \<open>From the farmer's check to the sprout's\<close>

lemma selfupdate_step_parses:
  "SelfUpdate_Parse (st_Method (selfupdate_step p)) (st_Properties (selfupdate_step p)) =
     Inr \<lparr>sf_method = SelfUpdateMethod, sf_params = st_Properties (selfupdate_step p)\<rparr>"
  "release_of \<lparr>sf_method = m, sf_params = st_Properties (selfupdate_step p)\<rparr> = Inr (params_release p, su_Signature p)"
  by (simp_all add: SelfUpdate_Parse_def PropertiesForMethod_def release_of_def selfupdate_step_def params_release_def Let_def)

lemma verify_with_fetched:
  assumes "ue_fetch su = Inr ks" "su_live st = None" "release_of s = Inr (rel, sig)" "Verify (ue_lib su) ks rel sig = None"
  shows "snd (SelfUpdate_verify su s st) = Inr (rel, sourceLive)"
  using assms by (simp add: SelfUpdate_verify_def verifyRelease_def keysForVerify_def)

text \<open>
  Property C29. A self update the farmer sends goes to the sprout the request names, as one
  step, and the release and signature in it are the request's own, which the farmer verified:
  the sprout parses exactly these back, and a sprout that fetches the farmer's keys verifies
  that release too.
\<close>

theorem dispatched_update_verifies_on_sprout:
  assumes call: "on_sprout_action env fm replySubject data = (fm', answer)"
    and sent: "fm_updates fm' = fm_updates fm @ [(conn, subject, e)]"
    and sprout: "ue_lib su = av_lib env" "av_keys env = Some (Inr ks)" "ue_fetch su = Inr ks" "su_live st = None"
  shows "\<exists>req p step s. decode_action_request data = (req, False) \<and> decode_selfupdate (sa_Params (sar_Action req)) = (p, False) \<and>
    Verify (av_lib env) ks (params_release p) (su_Signature p) = None \<and>
    farmerConnFor (av_bus env) (sar_TenantID req) = Some conn \<and> subject = SproutSubject (sar_SproutID req) ''cook'' \<and>
    env_Steps e = [step] \<and> SelfUpdate_Parse (st_Method step) (st_Properties step) = Inr s \<and>
    release_of s = Inr (params_release p, su_Signature p) \<and>
    snd (SelfUpdate_verify su s st) = Inr (params_release p, sourceLive)"
proof -
  have "fm' \<noteq> fm" using sent by auto
  then obtain req :: SproutActionRequest where req: "decode_action_request data = (req, False)" and eff: "action_effect env fm req fm'"
    using on_sprout_action_does[OF call] by blast
  then obtain p where p: "decode_selfupdate (sa_Params (sar_Action req)) = (p, False)" "env_Steps e = [selfupdate_step p]"
    "Verify (av_lib env) ks (params_release p) (su_Signature p) = None"
    "farmerConnFor (av_bus env) (sar_TenantID req) = Some conn" "subject = SproutSubject (sar_SproutID req) ''cook''"
    using sent sprout(2) unfolding action_effect_def Let_def by (auto simp: add_sent_def)
  let ?s = "\<lparr>sf_method = SelfUpdateMethod, sf_params = st_Properties (selfupdate_step p)\<rparr>"
  have "snd (SelfUpdate_verify su ?s st) = Inr (params_release p, sourceLive)"
    using verify_with_fetched[OF sprout(3,4) selfupdate_step_parses(2)[of SelfUpdateMethod p]] p(3) sprout(1) by simp
  then show ?thesis using req p selfupdate_step_parses(1)[of p] selfupdate_step_parses(2)[of SelfUpdateMethod p]
    by (intro exI[of _ req] exI[of _ p]) auto
qed

section \<open>Replies\<close>

definition action_codes :: "string list" where
  "action_codes = [ErrorInvalidRequest, ErrorUnsupportedAction, ErrorSproutNotFound, ErrorSproutUnreachable, ErrorInternal]"

definition reply_ok :: "SproutActionReply \<Rightarrow> bool" where
  "reply_ok r = (if rep_Status r = StatusFailed then rep_ErrorCode r \<in> set action_codes \<and> rep_JID r = [] \<and> rep_Result r = None
     else rep_Status r \<in> {StatusCompleted, StatusDispatched} \<and> rep_ErrorCode r = [])"

definition fresh_reply :: "SproutActionReply \<Rightarrow> bool" where
  "fresh_reply r = (rep_Status r = StatusFailed \<and> rep_ErrorCode r = [] \<and> rep_JID r = [] \<and> rep_Result r = None)"

lemma fail_ok: "fresh_reply r \<Longrightarrow> code \<in> set action_codes \<Longrightarrow> reply_ok (fail_with r code)"
  by (simp add: reply_ok_def fresh_reply_def fail_with_def)

lemma codes_in: "ErrorInvalidRequest \<in> set action_codes" "ErrorInternal \<in> set action_codes" "ErrorSproutUnreachable \<in> set action_codes"
  "ErrorUnsupportedAction \<in> set action_codes" "verify_code err \<in> set action_codes"
  by (simp_all add: action_codes_def verify_code_def)

lemma done_ok:
  "fresh_reply r \<Longrightarrow> reply_ok (r\<lparr>rep_Status := StatusCompleted, rep_Result := x\<rparr>)"
  "fresh_reply r \<Longrightarrow> reply_ok (r\<lparr>rep_Status := StatusDispatched, rep_JID := j\<rparr>)"
  by (simp_all add: reply_ok_def fresh_reply_def codes)

lemmas reply_rules = fail_ok codes_in done_ok

lemma runSproutCmd_reply: "fresh_reply r \<Longrightarrow> reply_ok (snd (runSproutCmd env fm req r))"
  unfolding runSproutCmd_def Let_def
  by (auto simp: reply_rules split: prod.split sum.split api_result.split option.split frun_result.split)

lemma runSproutCook_reply: "fresh_reply r \<Longrightarrow> reply_ok (snd (runSproutCook env fm req r))"
  unfolding runSproutCook_def Let_def
  by (auto simp: reply_rules split: prod.split sum.split api_result.split)

lemma runSproutSelfUpdate_reply: "fresh_reply r \<Longrightarrow> reply_ok (snd (runSproutSelfUpdate env fm req r))"
  unfolding runSproutSelfUpdate_def Let_def
  by (auto simp: reply_rules split: prod.split sum.split option.split)

text \<open>
  Every reply to the hosted service either reports completion or dispatch
  without an error code, or a failure with one of five fixed codes and no result.
\<close>

theorem sprout_action_replies:
  "reply_ok (snd (handleSproutAction env fm data))"
proof -
  obtain req err where d: "decode_action_request data = (req, err)" by (meson surj_pair)
  let ?r = "\<lparr>rep_TenantID = sar_TenantID req, rep_SproutID = sar_SproutID req, rep_Status = StatusFailed, rep_JID = [],
            rep_Result = None, rep_ErrorCode = []\<rparr>"
  have fresh: "fresh_reply ?r" by (simp add: fresh_reply_def)
  have "reply_ok (snd (runSproutAction env fm req))"
    by (auto simp: runSproutAction_def Let_def split: option.split
        intro!: runSproutCmd_reply runSproutCook_reply runSproutSelfUpdate_reply fresh fail_ok[OF fresh] codes_in)
  then show ?thesis using codes_in(1) by (auto simp: handleSproutAction_def d reply_ok_def split: if_splits)
qed

lemma sproutActionConcurrency_bounds: "1 \<le> sproutActionConcurrency s \<and> sproutActionConcurrency s \<le> 1024"
  by (auto simp: sproutActionConcurrency_def defaultSproutActionConcurrency_def maxSproutActionConcurrency_def Let_def split: option.splits)

section \<open>A concrete request\<close>

definition demo_action_env :: "unit action_env" where
  "demo_action_env = \<lparr>av_world = w_demo, av_frun = (\<lambda>t s c. FRunErr True), av_trigger = (\<lambda>s. True),
     av_bus = \<lparr>farmerConns = [(''acme'', ())], cb_request = (\<lambda>c s e. Ack True (env_JobID e))\<rparr>,
     av_lib = demo_fleet_lib, av_keys = Some (Inr demo_keys)\<rparr>"

definition demo_action_state :: "unit action_state" where
  "demo_action_state = api_state.extend fm_demo (action_state.fields [])"

definition demo_update_request :: raw where
  "demo_update_request = RawDoc (VMap [(''tenant_id'', VStr ''acme''), (''sprout_id'', VStr ''w1''),
     (''action'', VMap [(''type'', VStr ''self_update''), (''params'', VMap [(''version'', VStr ''1.0''), (''artifact_url'', VStr ''https://h/a''),
       (''checksum_sha256'', VStr (replicate 64 CHR ''a'')), (''signature'', VStr demo_signature)])])])"

definition demo_update :: SelfUpdateParams where
  "demo_update = \<lparr>su_Version = ''1.0'', su_ArtifactURL = ''https://h/a'', su_ChecksumSHA256 = replicate 64 CHR ''a'', su_Signature = demo_signature\<rparr>"

lemma demo_action_decoded:
  "decode_action_request demo_update_request = (\<lparr>sar_TenantID = ''acme'', sar_SproutID = ''w1'', sar_Action = \<lparr>sa_Type = ''self_update'',
     sa_Params = RawDoc (VMap [(''version'', VStr ''1.0''), (''artifact_url'', VStr ''https://h/a''),
       (''checksum_sha256'', VStr (replicate 64 CHR ''a'')), (''signature'', VStr demo_signature)])\<rparr>\<rparr>, False)"
  by (simp add: decode_action_request_def demo_update_request_def raw_fields_def struct_fields_def dec_field_def dec_str_def dec_action_def
      dec_raw_def ToLower_def lower_char_def)

lemma demo_update_decoded:
  "decode_selfupdate (RawDoc (VMap [(''version'', VStr ''1.0''), (''artifact_url'', VStr ''https://h/a''),
     (''checksum_sha256'', VStr (replicate 64 CHR ''a'')), (''signature'', VStr demo_signature)])) = (demo_update, False)"
  by (simp add: decode_selfupdate_def raw_strs_def raw_str_def raw_fields_def struct_fields_def dec_field_def dec_str_def ToLower_def lower_char_def
      demo_update_def)

lemma demo_action_checks:
  "verifySproutInTenant demo_action_state ''acme'' ''w1'' = None" "\<not> Contains ''w1'' ''_''" "ValidSaaSAPIReplySubject ''_INBOX.saasapi.x''"
  by code_simp+

lemma demo_action_sent:
  "fm_updates (fst (on_sprout_action demo_action_env demo_action_state ''_INBOX.saasapi.x'' demo_update_request)) =
     fm_updates demo_action_state @ [((), ''grlx.sprouts.w1.cook'', \<lparr>env_JobID = ''j9'', env_Steps = [selfupdate_step demo_update],
       env_Test = False, env_InvokedBy = []\<rparr>)]"
proof -
  have rel: "\<lparr>rl_Version = su_Version demo_update, rl_ArtifactURL = su_ArtifactURL demo_update, rl_ChecksumSHA256 = su_ChecksumSHA256 demo_update\<rparr> = demo_release"
    "su_Signature demo_update = demo_signature"
    by (simp_all add: demo_update_def demo_release_def)
  have env: "av_lib demo_action_env = demo_fleet_lib" "av_keys demo_action_env = Some (Inr demo_keys)" "w_jobID (av_world demo_action_env) = ''j9''"
    "av_bus demo_action_env = \<lparr>farmerConns = [(''acme'', ())], cb_request = (\<lambda>c s e. Ack True (env_JobID e))\<rparr>"
    by (simp_all add: demo_action_env_def w_demo_def)
  obtain msg where msg: "Message demo_fleet_lib demo_release = Inr msg" using demo_message by (simp add: Message_def)
  have "sendSelfUpdate demo_action_env ''acme'' ''w1'' demo_update = (Some ((), ''grlx.sprouts.w1.cook'',
      \<lparr>env_JobID = ''j9'', env_Steps = [selfupdate_step demo_update], env_Test = False, env_InvokedBy = []\<rparr>), Inr ''j9'')"
    by (simp add: sendSelfUpdate_def env SendStepsEvent_def sendEnvelope_def farmerConnFor_def Let_def)
  then show ?thesis
    using demo_verifies
    by (simp add: on_sprout_action_def handleSproutAction_def demo_action_decoded runSproutAction_def ActionCmdRun_def ActionCookSprout_def
        ActionSelfUpdate_def demo_action_checks runSproutSelfUpdate_def demo_update_decoded rel env msg)
qed

theorem sprout_action_effect_witness:
  "\<exists>req. decode_action_request demo_update_request = (req, False) \<and>
     live_sprout (fm_pki demo_action_state) (sar_TenantID req) (sar_SproutID req) \<and>
     action_effect demo_action_env demo_action_state req
       (fst (on_sprout_action demo_action_env demo_action_state ''_INBOX.saasapi.x'' demo_update_request))"
proof -
  have "fst (on_sprout_action demo_action_env demo_action_state ''_INBOX.saasapi.x'' demo_update_request) \<noteq> demo_action_state"
    using demo_action_sent by force
  from sprout_action_effect[OF surjective_pairing this] show ?thesis by blast
qed

theorem dispatched_update_verifies_on_sprout_witness:
  "\<exists>(step :: Step) s. SelfUpdate_Parse (st_Method step) (st_Properties step) = Inr s \<and>
     release_of s = Inr (params_release demo_update, demo_signature) \<and>
     snd (SelfUpdate_verify demo_su_env s demo_su) = Inr (params_release demo_update, sourceLive)"
proof -
  have e: "ue_lib demo_su_env = av_lib demo_action_env" "av_keys demo_action_env = Some (Inr demo_keys)"
    "ue_fetch demo_su_env = Inr demo_keys" "su_live demo_su = None"
    by (simp_all add: demo_su_env_def demo_action_env_def demo_su_def)
  have sig: "su_Signature demo_update = demo_signature" by (simp add: demo_update_def)
  from dispatched_update_verifies_on_sprout[OF surjective_pairing demo_action_sent e] show ?thesis
    by (auto simp: demo_action_decoded demo_update_decoded sig)
qed

end
