(* ===== verification/Saas_Base.thy ===== *)
theory Saas_Base
  imports Controlplane Pki_Enroll
begin

text \<open>
  What the handlers of the hosted service share (\<open>internal/saasapi\<close>): the responses of
  \<open>errors.go\<close>, the random identifiers of \<open>idgen.go\<close>, and the inserts and guarded
  updates of its database tables.
\<close>

section \<open>Responses\<close>

record errorResponse =
  er_Error :: string
  er_Message :: string
  er_Details :: "(string \<times> val) list"

text \<open>What a handler writes: an error body or a result, with the HTTP status.\<close>

datatype 'a response = Failure nat errorResponse | Reply nat 'a

definition writeErrorDetails :: "nat \<Rightarrow> string \<Rightarrow> string \<Rightarrow> (string \<times> val) list \<Rightarrow> 'a response" where
  "writeErrorDetails status code message details =
     Failure status \<lparr>er_Error = code, er_Message = message, er_Details = details\<rparr>"

definition writeError :: "nat \<Rightarrow> string \<Rightarrow> string \<Rightarrow> 'a response" where
  "writeError status code message = writeErrorDetails status code message []"

definition writeJSON :: "nat \<Rightarrow> 'a \<Rightarrow> 'a response" where
  "writeJSON status v = Reply status v"

lemmas responses = writeErrorDetails_def writeError_def writeJSON_def

fun resp_code :: "'a response \<Rightarrow> string" where
  "resp_code (Failure _ e) = er_Error e"
| "resp_code (Reply _ _) = []"

section \<open>Random identifiers\<close>

text \<open>The bits of a byte string, most significant first, in groups of \<open>n\<close>; the last group is filled with zeros.\<close>

definition byte_bits :: "char \<Rightarrow> bool list" where
  "byte_bits c = [digit7 c, digit6 c, digit5 c, digit4 c, digit3 c, digit2 c, digit1 c, digit0 c]"

function bit_chunks :: "nat \<Rightarrow> bool list \<Rightarrow> bool list list" where
  "bit_chunks n bs =
     (if bs = [] \<or> n = 0 then [] else take n (bs @ replicate (n - 1) False) # bit_chunks n (drop n bs))"
  by pat_completeness auto
termination bit_chunks by (relation "measure (\<lambda>(n, bs). length bs)") auto

declare bit_chunks.simps [simp del]

definition bits_val :: "bool list \<Rightarrow> nat" where
  "bits_val bs = foldl (\<lambda>n b. 2 * n + of_bool b) 0 bs"

definition base32_alphabet :: string where "base32_alphabet = ''ABCDEFGHIJKLMNOPQRSTUVWXYZ234567''"

definition idEncoding :: "string \<Rightarrow> string" where
  "idEncoding b = map (\<lambda>g. base32_alphabet ! bits_val g) (bit_chunks 5 (concat (map byte_bits b)))"

definition idRandomBytes :: nat where "idRandomBytes = 10"
definition enrollmentSecretBytes :: nat where "enrollmentSecretBytes = 32"

definition toLower :: "string \<Rightarrow> string" where
  "toLower s = map (\<lambda>c. if is_upper c then char_of ((of_char c :: nat) - 65 + 97) else c) s"

text \<open>\<open>rand.Read\<close> either fails or fills the buffer; the bytes are an argument.\<close>

definition newID :: "string \<Rightarrow> string option \<Rightarrow> string option" where
  "newID pre rand = map_option (\<lambda>b. pre @ toLower (idEncoding (take idRandomBytes b))) rand"

definition url64_alphabet :: string where
  "url64_alphabet = ''ABCDEFGHIJKLMNOPQRSTUVWXYZabcdefghijklmnopqrstuvwxyz0123456789-_''"

definition newEnrollmentSecret :: "string option \<Rightarrow> string option" where
  "newEnrollmentSecret rand =
     map_option (\<lambda>b. map (\<lambda>g. url64_alphabet ! bits_val g)
       (bit_chunks 6 (concat (map byte_bits (take enrollmentSecretBytes b))))) rand"

lemma bit_chunks_props:
  "0 < n \<Longrightarrow> (\<forall>g \<in> set (bit_chunks n bs). length g = n) \<and> (\<exists>k. concat (bit_chunks n bs) = bs @ replicate k False) \<and>
     length (bit_chunks n bs) = (length bs + n - 1) div n"
proof (induction n bs rule: bit_chunks.induct)
  case (1 n bs)
  show ?case
  proof (cases "bs = []")
    case True
    then show ?thesis using 1(2) by (simp add: bit_chunks.simps)
  next
    case False
    note IH = 1(1)[OF _ 1(2)]
    have unf: "bit_chunks n bs = take n (bs @ replicate (n - 1) False) # bit_chunks n (drop n bs)"
      using False 1(2) by (subst bit_chunks.simps) simp
    have len: "length (take n (bs @ replicate (n - 1) False)) = n" using False 1(2) by (cases bs) auto
    have cc: "\<exists>k. concat (bit_chunks n bs) = bs @ replicate k False"
    proof (cases "n \<le> length bs")
      case True
      then have "take n (bs @ replicate (n - 1) False) = take n bs" by simp
      moreover obtain k where "concat (bit_chunks n (drop n bs)) = drop n bs @ replicate k False" using IH False 1(2) by blast
      ultimately have "concat (bit_chunks n bs) = bs @ replicate k False" using unf by (metis append_assoc append_take_drop_id concat.simps(2))
      then show ?thesis by blast
    next
      case short: False
      then have "drop n bs = []" by simp
      then have "bit_chunks n (drop n bs) = []" by (subst bit_chunks.simps) simp
      then show ?thesis using short unf by (auto simp: take_replicate min_def)
    qed
    have "length (bit_chunks n bs) = (length bs + n - 1) div n"
    proof (cases "n \<le> length bs")
      case True
      then obtain d where d: "length bs = n + d" by (metis le_iff_add)
      have "length (bit_chunks n (drop n bs)) = (d + n - 1) div n" using IH False 1(2) d by simp
      moreover have "(n + d + n - 1) div n = Suc ((d + n - 1) div n)"
      proof -
        have "n + d + n - 1 = n + (d + n - 1)" using 1(2) by simp
        then have "(n + d + n - 1) div n = (n + (d + n - 1)) div n" by simp
        also have "\<dots> = Suc ((d + n - 1) div n)" using 1(2) by (subst div_add_self1) auto
        finally show ?thesis .
      qed
      ultimately show ?thesis using unf d by simp
    next
      case short: False
      then have "bit_chunks n (drop n bs) = []" by (subst bit_chunks.simps) simp
      moreover have "(length bs + n - 1) div n = 1"
        using short False 1(2) by (cases bs) (auto intro!: div_nat_eqI)
      ultimately show ?thesis using unf by simp
    qed
    moreover have "\<forall>g \<in> set (bit_chunks n (drop n bs)). length g = n" using IH False 1(2) by blast
    then have "\<forall>g \<in> set (bit_chunks n bs). length g = n" unfolding unf using len by simp
    ultimately show ?thesis using cc by blast
  qed
qed


lemma bits_val_snoc: "bits_val (bs @ [b]) = 2 * bits_val bs + of_bool b"
  by (simp add: bits_val_def)

lemma bits_val_bound: "bits_val bs < 2 ^ length bs"
proof (induction bs rule: rev_induct)
  case (snoc b bs)
  then show ?case by (cases b) (simp_all add: bits_val_snoc)
qed (simp add: bits_val_def)

lemma bits_val_inj: "length xs = length ys \<Longrightarrow> bits_val xs = bits_val ys \<Longrightarrow> xs = ys"
proof (induction xs arbitrary: ys rule: rev_induct)
  case (snoc x xs)
  then obtain zs z where ys: "ys = zs @ [z]" by (cases ys rule: rev_cases) auto
  have e: "2 * bits_val xs + of_bool x = 2 * bits_val zs + of_bool z" using snoc(3) by (simp add: ys bits_val_snoc)
  then have "x = z" by (cases x; cases z) (auto, presburger+)
  then show ?case using snoc e by (simp add: ys)
qed simp

definition id_char :: "char \<Rightarrow> bool" where
  "id_char c = (is_lower c \<or> 50 \<le> (of_char c :: nat) \<and> (of_char c :: nat) \<le> 55)"

definition base32_lower :: string where "base32_lower = ''abcdefghijklmnopqrstuvwxyz234567''"

lemma base32_lowered: "toLower base32_alphabet = base32_lower"
  by (simp add: toLower_def base32_alphabet_def base32_lower_def is_upper_def char_of_def bit_0)

lemma base32_length: "length base32_alphabet = 32" "length base32_lower = 32"
  by (simp_all add: base32_alphabet_def base32_lower_def)

lemma base32_nth: "n < 32 \<Longrightarrow> hd (toLower [base32_alphabet ! n]) = base32_lower ! n"
proof -
  have "toLower base32_alphabet ! n = hd (toLower [base32_alphabet ! n])" if "n < 32"
    using that base32_length(1) by (simp add: toLower_def)
  then show "n < 32 \<Longrightarrow> ?thesis" by (simp add: base32_lowered)
qed

lemma base32_table: "n < 32 \<Longrightarrow> id_char (hd (toLower [base32_alphabet ! n]))"
proof -
  assume n: "n < 32"
  have "list_all id_char base32_lower" by (simp add: base32_lower_def id_char_def is_lower_def)
  then have "id_char (base32_lower ! n)" using n base32_length(2) by (simp add: list_all_length)
  then show ?thesis using n by (simp add: base32_nth)
qed

lemma base32_distinct: "distinct base32_lower"
  by (simp add: base32_lower_def)

lemma toLower_map: "toLower s = map (\<lambda>c. hd (toLower [c])) s"
  by (simp add: toLower_def)

lemma bits_length: "length (concat (map byte_bits b)) = 8 * length b"
  by (induction b) (simp_all add: byte_bits_def)

lemma byte_bits_inj: "byte_bits c = byte_bits d \<Longrightarrow> c = d"
  by (cases c; cases d) (simp add: byte_bits_def)

lemma bytes_bits_inj: "length a = length b \<Longrightarrow> concat (map byte_bits a) = concat (map byte_bits b) \<Longrightarrow> a = b"
proof (induction a b rule: list_induct2)
  case (Cons x xs y ys)
  have "length (byte_bits x) = length (byte_bits y)" by (simp add: byte_bits_def)
  then show ?case using Cons by (auto dest: byte_bits_inj)
qed simp

text \<open>An identifier is its prefix and sixteen characters the farmer takes in job and tenant IDs.\<close>

lemma newID_shape:
  assumes "length b = idRandomBytes"
  obtains s where "newID pre (Some b) = Some (pre @ s)" "length s = 16" "list_all id_char s"
proof
  let ?s = "toLower (idEncoding b)" and ?bits = "concat (map byte_bits b)"
  show "newID pre (Some b) = Some (pre @ ?s)" using assms by (simp add: newID_def)
  have c: "\<forall>g \<in> set (bit_chunks 5 ?bits). length g = 5" "length (bit_chunks 5 ?bits) = (length ?bits + 5 - 1) div 5"
    using bit_chunks_props[of 5 ?bits] by auto
  show "length ?s = 16" using c(2) assms by (simp add: toLower_def idEncoding_def bits_length idRandomBytes_def)
  have "id_char (hd (toLower [base32_alphabet ! bits_val g]))" if "g \<in> set (bit_chunks 5 ?bits)" for g
    using base32_table[of "bits_val g"] bits_val_bound[of g] c(1) that by auto
  then show "list_all id_char ?s" by (subst toLower_map) (simp add: idEncoding_def list_all_iff)
qed

text \<open>Different random bytes give different identifiers.\<close>

lemma newID_inj:
  assumes "length a = idRandomBytes" "length b = idRandomBytes" "newID pre (Some a) = newID pre (Some b)"
  shows "a = b"
proof -
  let ?f = "\<lambda>n. hd (toLower [base32_alphabet ! n])" and ?ch = "\<lambda>s. bit_chunks 5 (concat (map byte_bits s))"
  have low: "toLower (idEncoding s) = map (\<lambda>g. ?f (bits_val g)) (?ch s)" for s
    by (subst toLower_map) (simp add: idEncoding_def)
  have c: "\<forall>g \<in> set (?ch s). length g = 5" "\<exists>k. concat (?ch s) = concat (map byte_bits s) @ replicate k False" for s
    using bit_chunks_props[of 5 "concat (map byte_bits s)"] by auto
  have finj: "m = n" if "m < 32" "n < 32" "?f m = ?f n" for m n
  proof -
    have "base32_lower ! m = base32_lower ! n" using that by (simp add: base32_nth)
    then show ?thesis using base32_distinct base32_length(2) that by (simp add: nth_eq_iff_index_eq)
  qed
  have "map (\<lambda>g. ?f (bits_val g)) (?ch a) = map (\<lambda>g. ?f (bits_val g)) (?ch b)"
    using assms(3) low assms(1,2) by (simp add: newID_def)
  then have "?ch a = ?ch b"
  proof (rule map_inj_on)
    show "inj_on (\<lambda>g. ?f (bits_val g)) (set (?ch a) \<union> set (?ch b))"
    proof (rule inj_onI)
      fix x y assume xy: "x \<in> set (?ch a) \<union> set (?ch b)" "y \<in> set (?ch a) \<union> set (?ch b)" "?f (bits_val x) = ?f (bits_val y)"
      have l: "length x = 5" "length y = 5" using xy(1,2) c(1) by auto
      then show "x = y" using finj[of "bits_val x" "bits_val y"] bits_val_bound[of x] bits_val_bound[of y] xy(3)
        by (auto intro: bits_val_inj)
    qed
  qed
  then obtain k l where "concat (map byte_bits a) @ replicate k False = concat (map byte_bits b) @ replicate l False"
    using c(2)[of a] c(2)[of b] by metis
  moreover have "length (concat (map byte_bits a)) = length (concat (map byte_bits b))" using assms(1,2) by (simp add: bits_length)
  ultimately have "concat (map byte_bits a) = concat (map byte_bits b)" using append_eq_append_conv by blast
  then show ?thesis using assms(1,2) by (simp add: bytes_bits_inj)
qed

lemma id_char_ok: "id_char c \<Longrightarrow> job_id_char c" "id_char c \<Longrightarrow> is_digit c \<or> is_upper c \<or> is_lower c \<or> c = CHR ''_'' \<or> c = CHR ''-''"
  unfolding id_char_def job_id_char_def is_digit_def by auto

lemma newID_valid:
  assumes "length b = idRandomBytes"
  obtains t j where "newID ''t_'' (Some b) = Some t" "IsValidTenantID t" "length t \<le> 32"
    "newID ''pj_'' (Some b) = Some j" "ValidJobID j"
proof -
  obtain s where s: "newID ''t_'' (Some b) = Some (''t_'' @ s)" "length s = 16" "list_all id_char s"
    using newID_shape[OF assms] by blast
  obtain s' where s': "newID ''pj_'' (Some b) = Some (''pj_'' @ s')" "length s' = 16" "list_all id_char s'"
    using newID_shape[OF assms] by blast
  have "list_all job_id_char s'" using s'(3) id_char_ok(1) by (auto simp: list_all_iff)
  then have "ValidJobID (''pj_'' @ s')" using s'(2)
    by (simp add: ValidJobID_def maxJobIDLen_def) (simp add: job_id_char_def is_lower_def)
  moreover have "IsValidTenantID (''t_'' @ s)" using s(2,3) id_char_ok(2)
    by (auto simp: IsValidTenantID_def list_all_iff is_lower_def)
  ultimately show ?thesis using that s s' by auto
qed

section \<open>Inserts and guarded updates\<close>

text \<open>\<open>Create\<close>: an error when the key is taken.\<close>

definition tbl_create :: "('k, 'r) table \<Rightarrow> 'k \<Rightarrow> 'r \<Rightarrow> ('k, 'r) table option" where
  "tbl_create t k r =
     (if \<not> tbl_up t \<or> tbl_get t k \<noteq> None then None else Some (t\<lparr>tbl_rows := tbl_rows t @ [(k, r)]\<rparr>))"

text \<open>Whether a conditional \<open>UPDATE\<close> found a row: \<open>RowsAffected > 0\<close>.\<close>

definition tbl_affects :: "('k, 'r) table \<Rightarrow> ('k \<Rightarrow> 'r \<Rightarrow> bool) \<Rightarrow> bool" where
  "tbl_affects t P = list_ex (\<lambda>(k, r). P k r) (tbl_rows t)"

lemma tbl_create_get:
  "tbl_create t k r = Some t' \<Longrightarrow> tbl_get t' k' = (if k' = k then Some r else tbl_get t k')"
  "tbl_create t k r = Some t' \<Longrightarrow> tbl_get t k = None"
  "tbl_create t k r = Some t' \<Longrightarrow> tbl_up t' = tbl_up t"
  by (auto simp: tbl_create_def tbl_get_def map_add_def split: if_splits option.splits)

lemma tbl_create_wf: "tbl_create t k r = Some t' \<Longrightarrow> tbl_wf t \<Longrightarrow> tbl_wf t'"
  by (auto simp: tbl_create_def tbl_wf_def tbl_get_def map_of_eq_None_iff split: if_splits)

lemma tbl_update_where_get:
  "tbl_get (tbl_update_where t P f) k =
     (case tbl_get t k of None \<Rightarrow> None | Some r \<Rightarrow> Some (if tbl_up t \<and> P k r then f r else r))"
proof (cases "tbl_up t")
  case True
  then show ?thesis by (simp add: tbl_get_update_where split: option.splits)
next
  case False
  then show ?thesis by (simp add: tbl_update_where_def split: option.splits)
qed

lemma tbl_wf_update_where [simp]: "tbl_wf (tbl_update_where t P f) = tbl_wf t"
  by (simp add: tbl_wf_def tbl_update_where_def comp_def case_prod_unfold)

lemma tbl_affects_iff: "tbl_wf t \<Longrightarrow> tbl_affects t P \<longleftrightarrow> (\<exists>k r. tbl_get t k = Some r \<and> P k r)"
  by (force simp: tbl_affects_def list_ex_iff tbl_get_def tbl_wf_def dest: map_of_SomeD)

end
