(* ===== verification/Saas_Tenants.thy ===== *)
theory Saas_Tenants
  imports Saas_Base Sprout_Action
begin

text \<open>
  Tenants of the hosted service (\<open>internal/saasapi/tenants.go\<close>, \<open>provisioning.go\<close>):
  the tenant rows and the outbox of provisioning jobs, the handlers that write both in
  one transaction, the publication of a job to the farmer, and the application of the
  farmer's results.  A transaction that fails leaves the state as it was.  Deleting a
  tenant reads its row before the transaction starts; the state it read is an argument,
  so that other requests may come in between.
\<close>

section \<open>Rows\<close>

datatype TenantStatus =
  TenantStatusPending | TenantStatusActive | TenantStatusFailed | TenantStatusOffboarding | TenantStatusOffboarded

record TenantRow =
  te_Name :: string
  te_Status :: TenantStatus
  te_PlanID :: string
  te_CreatedAt :: int
  te_UpdatedAt :: int

datatype ProvisioningJobType = ProvisioningJobProvision | ProvisioningJobDeprovision

datatype ProvisioningJobStatus = ProvisioningJobPending | ProvisioningJobSucceeded | ProvisioningJobFailed

record ProvisioningJob =
  pj_TenantID :: string
  pj_Type :: ProvisioningJobType
  pj_Status :: ProvisioningJobStatus
  pj_Attempts :: int
  pj_LastError :: string
  pj_Warning :: string
  pj_CreatedAt :: int
  pj_UpdatedAt :: int

text \<open>The tables, and the messages published on the bus.\<close>

record saas =
  ss_tenants :: "(string, TenantRow) table"
  ss_jobs :: "(string, ProvisioningJob) table"
  ss_published :: "(string \<times> raw) list"

record saas_env =
  sv_now :: int
  sv_bus :: bool
  sv_publish :: bool

record tenantStatusResponse =
  ts_TenantID :: string
  ts_Status :: TenantStatus
  ts_LastError :: string
  ts_Warning :: string

section \<open>The outbox\<close>

definition enqueueProvisioningJob ::
  "int \<Rightarrow> string option \<Rightarrow> string \<Rightarrow> ProvisioningJobType \<Rightarrow> 'm saas_scheme \<Rightarrow> ('m saas_scheme \<times> string) option" where
  "enqueueProvisioningJob now rand tid ty st =
     (case newID ''pj_'' rand of
        None \<Rightarrow> None
      | Some i \<Rightarrow>
          (case tbl_create (ss_jobs st) i
                  \<lparr>pj_TenantID = tid, pj_Type = ty, pj_Status = ProvisioningJobPending, pj_Attempts = 0, pj_LastError = [],
                   pj_Warning = [], pj_CreatedAt = now, pj_UpdatedAt = now\<rparr> of
             None \<Rightarrow> None
           | Some jobs \<Rightarrow> Some (st\<lparr>ss_jobs := jobs\<rparr>, i)))"

definition encode_provision :: "TenantProvisionRequest \<Rightarrow> raw" where
  "encode_provision r =
     RawDoc (VMap [(''job_id'', VStr (tp_JobID r)), (''tenant_id'', VStr (tp_TenantID r)), (''name'', VStr (tp_Name r))])"

definition encode_deprovision :: "TenantDeprovisionRequest \<Rightarrow> raw" where
  "encode_deprovision r = RawDoc (VMap [(''job_id'', VStr (td_JobID r)), (''tenant_id'', VStr (td_TenantID r))])"

definition publishProvisioningJob :: "saas_env \<Rightarrow> string \<Rightarrow> string \<Rightarrow> raw \<Rightarrow> 'm saas_scheme \<Rightarrow> 'm saas_scheme" where
  "publishProvisioningJob env job subject data st =
     (if \<not> sv_bus env then st
      else let st1 = st\<lparr>ss_jobs := tbl_update_where (ss_jobs st) (\<lambda>i _. i = job) (\<lambda>j. j\<lparr>pj_Attempts := pj_Attempts j + 1\<rparr>)\<rparr>
           in if sv_publish env then st1\<lparr>ss_published := ss_published st1 @ [(subject, data)]\<rparr> else st1)"

definition dispatchProvisioning :: "saas_env \<Rightarrow> string \<Rightarrow> string \<Rightarrow> string \<Rightarrow> 'm saas_scheme \<Rightarrow> 'm saas_scheme" where
  "dispatchProvisioning env job tid name =
     publishProvisioningJob env job SubjectTenantProvision
       (encode_provision \<lparr>tp_JobID = job, tp_TenantID = tid, tp_Name = name\<rparr>)"

definition dispatchDeprovisioning :: "saas_env \<Rightarrow> string \<Rightarrow> string \<Rightarrow> 'm saas_scheme \<Rightarrow> 'm saas_scheme" where
  "dispatchDeprovisioning env job tid =
     publishProvisioningJob env job SubjectTenantDeprovision (encode_deprovision \<lparr>td_JobID = job, td_TenantID = tid\<rparr>)"

section \<open>Handlers\<close>

definition lookupTenant :: "'m saas_scheme \<Rightarrow> string \<Rightarrow> 'a response + TenantRow" where
  "lookupTenant st tid =
     (case tbl_first (ss_tenants st) tid of
        NotFound \<Rightarrow> Inl (writeError 404 ''tenant_not_found'' ''no such tenant'')
      | DbErr \<Rightarrow> Inl (writeError 500 ''internal_error'' ''failed to look up tenant'')
      | Found t \<Rightarrow> Inr t)"

definition CreateTenant ::
  "saas_env \<Rightarrow> string option \<Rightarrow> string option \<Rightarrow> raw \<Rightarrow> 'm saas_scheme \<Rightarrow> 'm saas_scheme \<times> tenantStatusResponse response" where
  "CreateTenant env rand1 rand2 body st =
     (let (fs, err) = raw_strs body [''name'', ''plan_id''] in
      if err then (st, writeError 400 ''invalid_request'' ''request body must be valid JSON'')
      else let name = TrimSpace (fs ! 0) in
      if name = [] then (st, writeError 400 ''invalid_request'' ''name is required'')
      else case newID ''t_'' rand1 of
        None \<Rightarrow> (st, writeError 500 ''internal_error'' ''failed to generate tenant id'')
      | Some tid \<Rightarrow>
          let failed = (st, writeError 500 ''internal_error'' ''failed to create tenant'') in
          (case tbl_create (ss_tenants st) tid
                  \<lparr>te_Name = name, te_Status = TenantStatusPending, te_PlanID = fs ! 1, te_CreatedAt = sv_now env,
                   te_UpdatedAt = sv_now env\<rparr> of
             None \<Rightarrow> failed
           | Some tenants \<Rightarrow>
               (case enqueueProvisioningJob (sv_now env) rand2 tid ProvisioningJobProvision (st\<lparr>ss_tenants := tenants\<rparr>) of
                  None \<Rightarrow> failed
                | Some (st1, job) \<Rightarrow>
                    (dispatchProvisioning env job tid name st1,
                     writeJSON 202 \<lparr>ts_TenantID = tid, ts_Status = TenantStatusPending, ts_LastError = [], ts_Warning = []\<rparr>))))"

definition GetTenant :: "'m saas_scheme \<Rightarrow> string \<Rightarrow> (string \<times> TenantRow) response" where
  "GetTenant st tid = (case lookupTenant st tid of Inl r \<Rightarrow> r | Inr t \<Rightarrow> writeJSON 200 (tid, t))"

text \<open>A field of pointer type: absent and null are \<open>None\<close>.\<close>

definition dec_ptr :: "'a dec \<Rightarrow> 'a \<Rightarrow> 'a option dec" where
  "dec_ptr d zero v a =
     (if v = VNull then (None, False)
      else let (x, e) = d v (case a of None \<Rightarrow> zero | Some y \<Rightarrow> y) in (Some x, e))"

definition PatchTenant ::
  "int \<Rightarrow> raw \<Rightarrow> string \<Rightarrow> 'm saas_scheme \<Rightarrow> 'm saas_scheme \<times> (string \<times> TenantRow) response" where
  "PatchTenant now body tid st =
     (case lookupTenant st tid of
        Inl r \<Rightarrow> (st, r)
      | Inr t \<Rightarrow>
          let (kvs, e0) = raw_fields body; (nm, e1) = dec_field (dec_ptr dec_str []) ''name'' kvs None;
              (plan, e2) = dec_field (dec_ptr dec_str []) ''plan_id'' kvs None in
          if e0 \<or> e1 \<or> e2 then (st, writeError 400 ''invalid_request'' ''request body must be valid JSON'')
          else if map_option TrimSpace nm = Some [] then (st, writeError 400 ''invalid_request'' ''name cannot be empty'')
          else if nm = None \<and> plan = None then (st, writeError 400 ''invalid_request'' ''no updatable fields provided'')
          else let upd = (\<lambda>t. t\<lparr>te_Name := case nm of None \<Rightarrow> te_Name t | Some n \<Rightarrow> TrimSpace n,
                                te_PlanID := case plan of None \<Rightarrow> te_PlanID t | Some p \<Rightarrow> p, te_UpdatedAt := now\<rparr>);
                   st1 = st\<lparr>ss_tenants := tbl_update_where (ss_tenants st) (\<lambda>i _. i = tid) upd\<rparr>
               in (st1, case (lookupTenant st1 tid :: (string \<times> TenantRow) response + TenantRow) of
                          Inl _ \<Rightarrow> writeError 500 ''internal_error'' ''failed to reload tenant''
                        | Inr t1 \<Rightarrow> writeJSON 200 (tid, t1)))"

definition delete_conflict :: "'a response" where
  "delete_conflict = writeError 409 ''provisioning_in_progress'' ''tenant provisioning is still in progress; retry once it has completed''"

definition DeleteTenant ::
  "saas_env \<Rightarrow> string option \<Rightarrow> 'm saas_scheme \<Rightarrow> string \<Rightarrow> 'm saas_scheme \<Rightarrow> 'm saas_scheme \<times> tenantStatusResponse response" where
  "DeleteTenant env rand seen tid st =
     (case lookupTenant seen tid of
        Inl r \<Rightarrow> (st, r)
      | Inr t \<Rightarrow>
          if te_Status t \<in> {TenantStatusOffboarding, TenantStatusOffboarded}
          then (st, writeError 409 ''offboarding_in_progress'' ''tenant is already offboarding or offboarded'')
          else if te_Status t = TenantStatusPending then (st, delete_conflict)
          else let failed = (st, writeError 500 ''internal_error'' ''failed to start tenant offboarding'');
                   movable = (\<lambda>i t. i = tid \<and> te_Status t \<in> {TenantStatusActive, TenantStatusFailed}) in
            if \<not> tbl_up (ss_jobs st) then failed
            else if tbl_affects (ss_jobs st) (\<lambda>_ j. pj_TenantID j = tid \<and> pj_Type j = ProvisioningJobProvision \<and>
                      pj_Status j = ProvisioningJobPending) then (st, delete_conflict)
            else if \<not> tbl_up (ss_tenants st) then failed
            else if \<not> tbl_affects (ss_tenants st) movable
            then (st, writeError 409 ''tenant_state_changed'' ''tenant status changed while offboarding was requested; retry'')
            else let st1 = st\<lparr>ss_tenants := tbl_update_where (ss_tenants st) movable
                       (\<lambda>t. t\<lparr>te_Status := TenantStatusOffboarding, te_UpdatedAt := sv_now env\<rparr>)\<rparr> in
              (case enqueueProvisioningJob (sv_now env) rand tid ProvisioningJobDeprovision st1 of
                 None \<Rightarrow> failed
               | Some (st2, job) \<Rightarrow>
                   (dispatchDeprovisioning env job tid st2,
                    writeJSON 202 \<lparr>ts_TenantID = tid, ts_Status = TenantStatusOffboarding, ts_LastError = [], ts_Warning = []\<rparr>)))"

text \<open>The most recent job: by creation time, then by ID.\<close>

fun id_less :: "string \<Rightarrow> string \<Rightarrow> bool" where
  "id_less [] ys = (ys \<noteq> [])"
| "id_less (x # xs) [] = False"
| "id_less (x # xs) (y # ys) = ((of_char x :: nat) < of_char y \<or> x = y \<and> id_less xs ys)"

fun latest_job :: "(string \<times> ProvisioningJob) list \<Rightarrow> (string \<times> ProvisioningJob) option" where
  "latest_job [] = None"
| "latest_job ((i, j) # rest) =
     (case latest_job rest of
        None \<Rightarrow> Some (i, j)
      | Some (i', j') \<Rightarrow>
          if pj_CreatedAt j > pj_CreatedAt j' \<or> pj_CreatedAt j = pj_CreatedAt j' \<and> id_less i i' then Some (i, j) else Some (i', j'))"

definition GetTenantStatus :: "'m saas_scheme \<Rightarrow> string \<Rightarrow> tenantStatusResponse response" where
  "GetTenantStatus st tid =
     (case lookupTenant st tid of
        Inl r \<Rightarrow> r
      | Inr t \<Rightarrow>
          let resp = \<lparr>ts_TenantID = tid, ts_Status = te_Status t, ts_LastError = [], ts_Warning = []\<rparr> in
          (case latest_job (tbl_find (ss_jobs st) (\<lambda>_ j. pj_TenantID j = tid)) of
             None \<Rightarrow> writeJSON 200 resp
           | Some (_, j) \<Rightarrow>
               if pj_Status j = ProvisioningJobFailed \<and> te_Status t \<in> {TenantStatusFailed, TenantStatusOffboarding}
               then writeJSON 200 (resp\<lparr>ts_LastError := pj_LastError j\<rparr>)
               else if pj_Status j = ProvisioningJobSucceeded then writeJSON 200 (resp\<lparr>ts_Warning := pj_Warning j\<rparr>)
               else writeJSON 200 resp))"

section \<open>Results\<close>

datatype result_error = UnexpectedResult | JobLookup | ResultDb

definition publicJobError :: "string \<Rightarrow> string \<Rightarrow> string" where
  "publicJobError job code = PublicErrorMessage code @ '' (reference '' @ job @ '')''"

text \<open>The columns a result sets on its job.\<close>

definition jobUpdate :: "int \<Rightarrow> TenantResult \<Rightarrow> ProvisioningJob \<Rightarrow> ProvisioningJob" where
  "jobUpdate now res j =
     (if tr_Status res \<noteq> StatusFailed
      then j\<lparr>pj_Status := ProvisioningJobSucceeded, pj_LastError := [],
             pj_Warning := PublicWarningMessage (tr_WarningCode res), pj_UpdatedAt := now\<rparr>
      else j\<lparr>pj_Status := ProvisioningJobFailed, pj_LastError := publicJobError (tr_JobID res) (tr_ErrorCode res),
             pj_Warning := [], pj_UpdatedAt := now\<rparr>)"

definition applyProvisioningResult ::
  "int \<Rightarrow> ProvisioningJobType \<Rightarrow> TenantResult \<Rightarrow> 'm saas_scheme \<Rightarrow> 'm saas_scheme \<times> result_error option" where
  "applyProvisioningResult now ty res st =
     (let ok = (ty = ProvisioningJobProvision \<and> tr_Status res = StatusActive \<or>
                ty = ProvisioningJobDeprovision \<and> tr_Status res = StatusOffboarded) in
      if tr_Status res \<noteq> StatusFailed \<and> \<not> ok then (st, Some UnexpectedResult)
      else let succeeded = (tr_Status res \<noteq> StatusFailed) in
      case tbl_first (ss_jobs st) (tr_JobID res) of
        NotFound \<Rightarrow> (st, Some JobLookup)
      | DbErr \<Rightarrow> (st, Some JobLookup)
      | Found job \<Rightarrow>
          if pj_Type job \<noteq> ty then (st, Some UnexpectedResult)
          else if pj_TenantID job \<noteq> tr_TenantID res then (st, Some UnexpectedResult)
          else let pending = (\<lambda>i j. i = tr_JobID res \<and> pj_Status j = ProvisioningJobPending) in
            if \<not> tbl_affects (ss_jobs st) pending then (st, None)
            else let st1 = st\<lparr>ss_jobs := tbl_update_where (ss_jobs st) pending (jobUpdate now res)\<rparr> in
              (case (if ty = ProvisioningJobProvision
                     then Some (TenantStatusPending, if succeeded then TenantStatusActive else TenantStatusFailed)
                     else if succeeded then Some (TenantStatusOffboarding, TenantStatusOffboarded) else None) of
                 None \<Rightarrow> (st1, None)
               | Some (from, to) \<Rightarrow>
                   if \<not> tbl_up (ss_tenants st) then (st, Some ResultDb)
                   else (st1\<lparr>ss_tenants := tbl_update_where (ss_tenants st)
                           (\<lambda>i t. i = pj_TenantID job \<and> te_Status t = from) (\<lambda>t. t\<lparr>te_Status := to, te_UpdatedAt := now\<rparr>)\<rparr>, None)))"

definition decode_TenantResult :: "raw \<Rightarrow> TenantResult \<times> bool" where
  "decode_TenantResult data =
     (let (fs, err) = raw_strs data [''job_id'', ''tenant_id'', ''status'', ''error_code'', ''warning_code''] in
      (\<lparr>tr_JobID = fs ! 0, tr_TenantID = fs ! 1, tr_Status = fs ! 2, tr_ErrorCode = fs ! 3, tr_WarningCode = fs ! 4\<rparr>, err))"

definition handleProvisioningResult ::
  "int \<Rightarrow> ProvisioningJobType \<Rightarrow> string \<Rightarrow> string \<Rightarrow> raw \<Rightarrow> 'm saas_scheme \<Rightarrow> 'm saas_scheme" where
  "handleProvisioningResult now ty pre subject data st =
     (case JobIDFromSubject subject pre of
        None \<Rightarrow> st
      | Some job \<Rightarrow>
          let (res, err) = decode_TenantResult data in
          if err then st
          else if tr_JobID res \<noteq> job then st
          else fst (applyProvisioningResult now ty res st))"

text \<open>The two subscriptions of \<open>StartProvisioningResultListener\<close>; a message goes to those whose subject it matches.\<close>

definition result_subscriptions :: "(string \<times> string \<times> ProvisioningJobType) list" where
  "result_subscriptions =
     [(SubjectTenantProvisionedWildcard, SubjectTenantProvisionedPrefix, ProvisioningJobProvision),
      (SubjectTenantDeprovisionedWildcard, SubjectTenantDeprovisionedPrefix, ProvisioningJobDeprovision)]"

definition on_provisioning_result ::
  "(string \<Rightarrow> string \<Rightarrow> bool) \<Rightarrow> int \<Rightarrow> string \<Rightarrow> raw \<Rightarrow> 'm saas_scheme \<Rightarrow> 'm saas_scheme" where
  "on_provisioning_result m now subject data st =
     foldl (\<lambda>st (w, pre, ty). if m w subject then handleProvisioningResult now ty pre subject data st else st) st result_subscriptions"


section \<open>The lifecycle of a tenant\<close>

text \<open>
  The abstract machine behind the two tables: the status of each tenant, and of each job
  its tenant, type and status.
\<close>

type_synonym life = "(string \<rightharpoonup> TenantStatus) \<times> (string \<rightharpoonup> string \<times> ProvisioningJobType \<times> ProvisioningJobStatus)"

definition life_of :: "'m saas_scheme \<Rightarrow> life" where
  "life_of st = (\<lambda>i. map_option te_Status (tbl_get (ss_tenants st) i),
                 \<lambda>i. map_option (\<lambda>j. (pj_TenantID j, pj_Type j, pj_Status j)) (tbl_get (ss_jobs st) i))"

fun tenant_move :: "ProvisioningJobType \<Rightarrow> ProvisioningJobStatus \<Rightarrow> (TenantStatus \<times> TenantStatus) option" where
  "tenant_move ProvisioningJobProvision ProvisioningJobSucceeded = Some (TenantStatusPending, TenantStatusActive)"
| "tenant_move ProvisioningJobProvision ProvisioningJobFailed = Some (TenantStatusPending, TenantStatusFailed)"
| "tenant_move ProvisioningJobDeprovision ProvisioningJobSucceeded = Some (TenantStatusOffboarding, TenantStatusOffboarded)"
| "tenant_move _ _ = None"

inductive life_step :: "life \<Rightarrow> life \<Rightarrow> bool" where
  stutter: "life_step a a"
| create: "tm tid = None \<Longrightarrow> jm i = None \<Longrightarrow>
    life_step (tm, jm) (tm(tid \<mapsto> TenantStatusPending), jm(i \<mapsto> (tid, ProvisioningJobProvision, ProvisioningJobPending)))"
| offboard: "tm tid = Some TenantStatusActive \<or> tm tid = Some TenantStatusFailed \<Longrightarrow> jm i = None \<Longrightarrow>
    \<forall>k. jm k \<noteq> Some (tid, ProvisioningJobProvision, ProvisioningJobPending) \<Longrightarrow>
    life_step (tm, jm) (tm(tid \<mapsto> TenantStatusOffboarding), jm(i \<mapsto> (tid, ProvisioningJobDeprovision, ProvisioningJobPending)))"
| settle: "jm i = Some (tid, ty, ProvisioningJobPending) \<Longrightarrow> tenant_move ty s = Some (fr, to) \<Longrightarrow>
    life_step (tm, jm) (if tm tid = Some fr then tm(tid \<mapsto> to) else tm, jm(i \<mapsto> (tid, ty, s)))"
| give_up: "jm i = Some (tid, ProvisioningJobDeprovision, ProvisioningJobPending) \<Longrightarrow>
    life_step (tm, jm) (tm, jm(i \<mapsto> (tid, ProvisioningJobDeprovision, ProvisioningJobFailed)))"

text \<open>The tenant's status that the jobs' statuses call for.\<close>

fun agrees :: "ProvisioningJobType \<Rightarrow> ProvisioningJobStatus \<Rightarrow> TenantStatus \<Rightarrow> bool" where
  "agrees ProvisioningJobProvision s x = ((s = ProvisioningJobPending) = (x = TenantStatusPending))"
| "agrees ProvisioningJobDeprovision ProvisioningJobSucceeded x = (x = TenantStatusOffboarded)"
| "agrees ProvisioningJobDeprovision _ x = (x = TenantStatusOffboarding)"

definition life_inv :: "life \<Rightarrow> bool" where
  "life_inv a =
     ((\<forall>i tid ty s. snd a i = Some (tid, ty, s) \<longrightarrow> (\<exists>x. fst a tid = Some x \<and> agrees ty s x)) \<and>
      (\<forall>tid x. fst a tid = Some x \<longrightarrow> (\<exists>i s. snd a i = Some (tid, ProvisioningJobProvision, s))) \<and>
      (\<forall>tid x. fst a tid = Some x \<longrightarrow> x \<in> {TenantStatusOffboarding, TenantStatusOffboarded} \<longrightarrow>
         (\<exists>i s. snd a i = Some (tid, ProvisioningJobDeprovision, s))) \<and>
      (\<forall>i k tid ty s s'. snd a i = Some (tid, ty, s) \<longrightarrow> snd a k = Some (tid, ty, s') \<longrightarrow> i = k))"

lemma life_invI:
  assumes "\<And>i tid ty s. jm i = Some (tid, ty, s) \<Longrightarrow> \<exists>x. tm tid = Some x \<and> agrees ty s x"
    "\<And>tid x. tm tid = Some x \<Longrightarrow> \<exists>i s. jm i = Some (tid, ProvisioningJobProvision, s)"
    "\<And>tid x. tm tid = Some x \<Longrightarrow> x \<in> {TenantStatusOffboarding, TenantStatusOffboarded} \<Longrightarrow>
       \<exists>i s. jm i = Some (tid, ProvisioningJobDeprovision, s)"
    "\<And>i k tid ty s s'. jm i = Some (tid, ty, s) \<Longrightarrow> jm k = Some (tid, ty, s') \<Longrightarrow> i = k"
  shows "life_inv (tm, jm)"
  unfolding life_inv_def fst_conv snd_conv using assms by blast

lemma life_invD:
  assumes "life_inv (tm, jm)"
  shows "jm i = Some (tid, ty, s) \<Longrightarrow> \<exists>x. tm tid = Some x \<and> agrees ty s x"
    "tm tid = Some x \<Longrightarrow> \<exists>i s. jm i = Some (tid, ProvisioningJobProvision, s)"
    "tm tid = Some x \<Longrightarrow> x \<in> {TenantStatusOffboarding, TenantStatusOffboarded} \<Longrightarrow>
       \<exists>i s. jm i = Some (tid, ProvisioningJobDeprovision, s)"
    "jm i = Some (tid, ty, s) \<Longrightarrow> jm k = Some (tid, ty, s') \<Longrightarrow> i = k"
  using assms unfolding life_inv_def fst_conv snd_conv by blast+

lemma settled_unique:
  assumes "life_inv (tm, jm)" "jm i = Some (tid, ty, s0)" "(jm(i \<mapsto> (tid, ty, s))) k = Some (t, y, r)"
  shows "k = i \<and> t = tid \<and> y = ty \<and> r = s \<or> k \<noteq> i \<and> jm k = Some (t, y, r) \<and> (t, y) \<noteq> (tid, ty)"
  using assms(2,3) life_invD(4)[OF assms(1)] by (auto split: if_splits)

lemma settle_inv:
  assumes inv: "life_inv (tm, jm)" and job: "jm i = Some (tid, ty, s0)"
    and tm': "\<exists>y. tm' = tm(tid \<mapsto> y) \<and> (\<forall>x. tm tid = Some x \<longrightarrow> agrees ty s y \<and>
      (\<forall>k ty' s'. k \<noteq> i \<longrightarrow> ty' \<noteq> ty \<longrightarrow> jm k = Some (tid, ty', s') \<longrightarrow> agrees ty' s' y) \<and>
      (y \<in> {TenantStatusOffboarding, TenantStatusOffboarded} \<longrightarrow> x \<in> {TenantStatusOffboarding, TenantStatusOffboarded} \<or>
         ty = ProvisioningJobDeprovision))"
  shows "life_inv (tm', jm(i \<mapsto> (tid, ty, s)))"
proof -
  obtain x where x: "tm tid = Some x" using life_invD(1)[OF inv job] by blast
  obtain y where y: "tm' = tm(tid \<mapsto> y)" "agrees ty s y"
      "\<And>k ty' s'. k \<noteq> i \<Longrightarrow> ty' \<noteq> ty \<Longrightarrow> jm k = Some (tid, ty', s') \<Longrightarrow> agrees ty' s' y"
      "y \<in> {TenantStatusOffboarding, TenantStatusOffboarded} \<Longrightarrow> x \<in> {TenantStatusOffboarding, TenantStatusOffboarded} \<or>
         ty = ProvisioningJobDeprovision"
    using tm' x by blast
  show ?thesis
  proof (rule life_invI)
    fix k t ty' s' assume "(jm(i \<mapsto> (tid, ty, s))) k = Some (t, ty', s')"
    from settled_unique[OF inv job this]
    show "\<exists>x. tm' t = Some x \<and> agrees ty' s' x"
      using y life_invD(1)[OF inv, of k t ty' s'] by (cases "t = tid") auto
  next
    fix t z assume "tm' t = Some z"
    then have "\<exists>z. tm t = Some z" using x y(1) by (auto split: if_splits)
    then obtain k s' where "jm k = Some (t, ProvisioningJobProvision, s')" using life_invD(2)[OF inv] by blast
    then show "\<exists>k s'. (jm(i \<mapsto> (tid, ty, s))) k = Some (t, ProvisioningJobProvision, s')"
      using job by (cases "k = i") auto
  next
    fix t z assume z: "tm' t = Some z" "z \<in> {TenantStatusOffboarding, TenantStatusOffboarded}"
    show "\<exists>k s'. (jm(i \<mapsto> (tid, ty, s))) k = Some (t, ProvisioningJobDeprovision, s')"
    proof (cases "t = tid \<and> ty = ProvisioningJobDeprovision")
      case False
      then have "\<exists>z. tm t = Some z \<and> z \<in> {TenantStatusOffboarding, TenantStatusOffboarded}"
        using z x y(1,4) by (auto split: if_splits)
      then obtain k s' where "jm k = Some (t, ProvisioningJobDeprovision, s')" using life_invD(3)[OF inv] by blast
      then show ?thesis using job False by (cases "k = i") auto
    qed auto
  next
    fix k l t ty' s1 s2
    assume "(jm(i \<mapsto> (tid, ty, s))) k = Some (t, ty', s1)" "(jm(i \<mapsto> (tid, ty, s))) l = Some (t, ty', s2)"
    from settled_unique[OF inv job this(1)] settled_unique[OF inv job this(2)] show "k = l"
      using life_invD(4)[OF inv] by auto
  qed
qed

lemma new_job_inv:
  assumes inv: "life_inv (tm, jm)" and i: "jm i = None"
    and other: "\<And>k s'. jm k \<noteq> Some (tid, ty, s')"
    and y: "agrees ty s y" "\<And>k ty' s'. jm k = Some (tid, ty', s') \<Longrightarrow> agrees ty' s' y"
    and dom: "tm tid = None \<Longrightarrow> ty = ProvisioningJobProvision"
    and off: "y \<in> {TenantStatusOffboarding, TenantStatusOffboarded} \<Longrightarrow> ty = ProvisioningJobDeprovision"
  shows "life_inv (tm(tid \<mapsto> y), jm(i \<mapsto> (tid, ty, s)))"
proof (rule life_invI)
  fix k t ty' s' assume "(jm(i \<mapsto> (tid, ty, s))) k = Some (t, ty', s')"
  then show "\<exists>x. (tm(tid \<mapsto> y)) t = Some x \<and> agrees ty' s' x"
    using y life_invD(1)[OF inv, of k t ty' s'] by (auto split: if_splits)
next
  fix t z assume z: "(tm(tid \<mapsto> y)) t = Some z"
  show "\<exists>k s'. (jm(i \<mapsto> (tid, ty, s))) k = Some (t, ProvisioningJobProvision, s')"
  proof (cases "tm t")
    case None
    then show ?thesis using z dom by (auto split: if_splits)
  next
    case (Some a)
    then obtain k s' where k: "jm k = Some (t, ProvisioningJobProvision, s')" using life_invD(2)[OF inv] by blast
    then have "k \<noteq> i" using i by auto
    then show ?thesis using k by auto
  qed
next
  fix t z assume z: "(tm(tid \<mapsto> y)) t = Some z" "z \<in> {TenantStatusOffboarding, TenantStatusOffboarded}"
  show "\<exists>k s'. (jm(i \<mapsto> (tid, ty, s))) k = Some (t, ProvisioningJobDeprovision, s')"
  proof (cases "t = tid")
    case True
    then show ?thesis using z off by auto
  next
    case False
    then obtain k s' where k: "jm k = Some (t, ProvisioningJobDeprovision, s')" using z life_invD(3)[OF inv, of t z] by auto
    then have "k \<noteq> i" using i by auto
    then show ?thesis using k by auto
  qed
next
  fix k l t ty' s1 s2
  assume "(jm(i \<mapsto> (tid, ty, s))) k = Some (t, ty', s1)" "(jm(i \<mapsto> (tid, ty, s))) l = Some (t, ty', s2)"
  then show "k = l" using other life_invD(4)[OF inv] by (auto split: if_splits)
qed

lemma life_step_inv:
  assumes inv: "life_inv a" and step: "life_step a b"
  shows "life_inv b"
  using step
proof cases
  case stutter
  then show ?thesis using inv by simp
next
  case (create tm tid jm i)
  note inv' = inv[unfolded create(1)]
  have "jm k \<noteq> Some (tid, ty, s)" for k ty s using life_invD(1)[OF inv', of k tid ty s] create(3) by auto
  then show ?thesis unfolding create(2) using create(4) by (intro new_job_inv[OF inv']) auto
next
  case (offboard tm tid jm i)
  note inv' = inv[unfolded offboard(1)]
  have job: "ty = ProvisioningJobProvision \<and> s \<noteq> ProvisioningJobPending" if "jm k = Some (tid, ty, s)" for k ty s
    using life_invD(1)[OF inv' that] offboard(3,5) that by (cases ty; cases s) auto
  then show ?thesis unfolding offboard(2) using offboard(3,4) by (intro new_job_inv[OF inv']) force+
next
  case (settle jm i tid ty s fr to tm)
  note inv' = inv[unfolded settle(1)]
  have x: "tm tid = Some fr" "agrees ty ProvisioningJobPending fr"
    using life_invD(1)[OF inv' settle(3)] settle(4) by (cases ty; cases s; auto)+
  have "agrees ty' s' to" if "k \<noteq> i" "ty' \<noteq> ty" "jm k = Some (tid, ty', s')" for k ty' s'
    using life_invD(1)[OF inv' that(3)] x(1) settle(4) that(2) by (cases ty; cases s; cases ty'; cases s'; auto)
  moreover have "agrees ty s to" using settle(4) by (cases ty; cases s; auto)
  moreover have "to \<in> {TenantStatusOffboarding, TenantStatusOffboarded} \<Longrightarrow> ty = ProvisioningJobDeprovision"
    using settle(4) by (cases ty; cases s; auto)
  ultimately show ?thesis unfolding settle(2) using x(1) by (intro settle_inv[OF inv' settle(3)]) auto
next
  case (give_up jm i tid tm)
  note inv' = inv[unfolded give_up(1)]
  have x: "tm tid = Some TenantStatusOffboarding" using life_invD(1)[OF inv' give_up(3)] by auto
  have "agrees ty' s' TenantStatusOffboarding" if "jm k = Some (tid, ty', s')" for k ty' s'
    using life_invD(1)[OF inv' that] x by auto
  then show ?thesis unfolding give_up(2) using x
    by (intro settle_inv[OF inv' give_up(3)] exI[of _ TenantStatusOffboarding]) (auto simp: fun_upd_idem)
qed

interpretation lifecycle: preserved life_step life_inv
  by unfold_locales (rule life_step_inv)

section \<open>Every request is a step of the lifecycle\<close>

text \<open>
  What may happen to the service's tables: a request, a result on any subject with any
  content, and the database becoming unavailable or available.  A deletion may have read
  the tenant in any earlier state.
\<close>

inductive tenant_step :: "saas \<Rightarrow> saas \<Rightarrow> bool" where
  "CreateTenant env r1 r2 body st = (st', resp) \<Longrightarrow> tenant_step st st'"
| "PatchTenant now body tid st = (st', resp') \<Longrightarrow> tenant_step st st'"
| "DeleteTenant env r seen tid st = (st', resp) \<Longrightarrow> tenant_step st st'"
| "(w, pre, ty) \<in> set result_subscriptions \<Longrightarrow> tenant_step st (handleProvisioningResult now ty pre subject data st)"
| "tenant_step st (st\<lparr>ss_tenants := (ss_tenants st)\<lparr>tbl_up := b\<rparr>, ss_jobs := (ss_jobs st)\<lparr>tbl_up := c\<rparr>\<rparr>)"

definition saas_wf :: "'m saas_scheme \<Rightarrow> bool" where
  "saas_wf st = (tbl_wf (ss_tenants st) \<and> tbl_wf (ss_jobs st))"

lemma publish_keeps:
  "life_of (publishProvisioningJob env job subject data st) = life_of st"
  "saas_wf (publishProvisioningJob env job subject data st) = saas_wf st"
  by (auto simp: publishProvisioningJob_def life_of_def saas_wf_def Let_def tbl_update_where_get fun_eq_iff split: option.splits)

lemma enqueue_effect:
  assumes "enqueueProvisioningJob now rand tid ty st = Some (st', i)"
  shows "life_of st' = (fst (life_of st), (snd (life_of st))(i \<mapsto> (tid, ty, ProvisioningJobPending))) \<and> snd (life_of st) i = None \<and>
    ss_tenants st' = ss_tenants st \<and> (saas_wf st \<longrightarrow> saas_wf st')"
  using assms by (auto simp: enqueueProvisioningJob_def life_of_def saas_wf_def fun_eq_iff tbl_create_get tbl_create_wf
      split: option.splits)

lemma CreateTenant_life:
  assumes "CreateTenant env r1 r2 body st = (st', resp)" "saas_wf st"
  shows "life_step (life_of st) (life_of st') \<and> saas_wf st'"
proof (cases "st' = st")
  case True
  then show ?thesis using assms(2) by (auto intro: stutter)
next
  case False
  obtain fs err where fs: "raw_strs body [''name'', ''plan_id''] = (fs, err)" by (meson surj_pair)
  obtain tid row tenants st1 i where e: "tbl_create (ss_tenants st) tid row = Some tenants" "te_Status row = TenantStatusPending"
      "enqueueProvisioningJob (sv_now env) r2 tid ProvisioningJobProvision (st\<lparr>ss_tenants := tenants\<rparr>) = Some (st1, i)"
      "st' = dispatchProvisioning env i tid (TrimSpace (fs ! 0)) st1"
    using assms(1) False unfolding CreateTenant_def fs by (auto simp: Let_def split: if_splits option.splits)
  let ?st0 = "st\<lparr>ss_tenants := tenants\<rparr>"
  have "life_of ?st0 = ((fst (life_of st))(tid \<mapsto> TenantStatusPending), snd (life_of st))" "fst (life_of st) tid = None"
    using e(1,2) by (auto simp: life_of_def fun_eq_iff tbl_create_get)
  moreover have "saas_wf ?st0" using assms(2) e(1) by (auto simp: saas_wf_def tbl_create_wf)
  moreover have "life_of st' = life_of st1" "saas_wf st' = saas_wf st1" by (simp_all add: e(4) dispatchProvisioning_def publish_keeps)
  ultimately show ?thesis using enqueue_effect[OF e(3)] life_step.create[of "fst (life_of st)" tid "snd (life_of st)" i] by auto
qed

lemma PatchTenant_life:
  assumes "PatchTenant now body tid st = (st', resp)" "saas_wf st"
  shows "life_of st' = life_of st \<and> saas_wf st'"
  using assms by (auto simp: PatchTenant_def Let_def life_of_def saas_wf_def tbl_update_where_get fun_eq_iff
      split: sum.splits if_splits prod.splits option.splits)

lemma DeleteTenant_life:
  assumes "DeleteTenant env r seen tid st = (st', resp)" "saas_wf st"
  shows "life_step (life_of st) (life_of st') \<and> saas_wf st'"
proof (cases "st' = st")
  case True
  then show ?thesis using assms(2) by (auto intro: stutter)
next
  case False
  let ?mv = "\<lambda>i t. i = tid \<and> te_Status t \<in> {TenantStatusActive, TenantStatusFailed}"
  let ?st1 = "st\<lparr>ss_tenants := tbl_update_where (ss_tenants st) ?mv (\<lambda>t. t\<lparr>te_Status := TenantStatusOffboarding, te_UpdatedAt := sv_now env\<rparr>)\<rparr>"
  obtain st2 i where e: "tbl_up (ss_tenants st)" "tbl_affects (ss_tenants st) ?mv"
      "\<not> tbl_affects (ss_jobs st) (\<lambda>_ j. pj_TenantID j = tid \<and> pj_Type j = ProvisioningJobProvision \<and> pj_Status j = ProvisioningJobPending)"
      "enqueueProvisioningJob (sv_now env) r tid ProvisioningJobDeprovision ?st1 = Some (st2, i)"
      "st' = dispatchDeprovisioning env i tid st2"
    using assms(1) False unfolding DeleteTenant_def Let_def by (auto split: sum.splits if_splits option.splits)
  have wf: "tbl_wf (ss_tenants st)" "tbl_wf (ss_jobs st)" using assms(2) by (auto simp: saas_wf_def)
  obtain t where t: "tbl_get (ss_tenants st) tid = Some t" "te_Status t \<in> {TenantStatusActive, TenantStatusFailed}"
    using e(2) wf(1) by (auto simp: tbl_affects_iff)
  have "life_of ?st1 = ((fst (life_of st))(tid \<mapsto> TenantStatusOffboarding), snd (life_of st))"
    using t e(1) by (auto simp: life_of_def fun_eq_iff tbl_update_where_get split: option.splits)
  moreover have "saas_wf ?st1" using wf by (simp add: saas_wf_def)
  moreover have "life_of st' = life_of st2" "saas_wf st' = saas_wf st2" by (simp_all add: e(5) dispatchDeprovisioning_def publish_keeps)
  moreover have "\<forall>k. snd (life_of st) k \<noteq> Some (tid, ProvisioningJobProvision, ProvisioningJobPending)"
    using e(3) wf(2) by (auto simp: tbl_affects_iff life_of_def)
  moreover have "fst (life_of st) tid = Some TenantStatusActive \<or> fst (life_of st) tid = Some TenantStatusFailed"
    using t by (auto simp: life_of_def)
  ultimately show ?thesis using enqueue_effect[OF e(4)] life_step.offboard[of "fst (life_of st)" tid "snd (life_of st)" i] by auto
qed


lemma apply_life:
  assumes "applyProvisioningResult now ty res st = (st', err)" "saas_wf st"
  shows "life_step (life_of st) (life_of st') \<and> saas_wf st'"
proof (cases "st' = st")
  case True
  then show ?thesis using assms(2) by (auto intro: stutter)
next
  case False
  let ?i = "tr_JobID res" and ?s = "if tr_Status res = StatusFailed then ProvisioningJobFailed else ProvisioningJobSucceeded"
  let ?pend = "\<lambda>i j. i = ?i \<and> pj_Status j = ProvisioningJobPending"
  obtain job where j: "tbl_get (ss_jobs st) ?i = Some job" "tbl_up (ss_jobs st)" "pj_Type job = ty"
      "tbl_affects (ss_jobs st) ?pend" "ss_jobs st' = tbl_update_where (ss_jobs st) ?pend (jobUpdate now res)"
      "(case tenant_move ty ?s of None \<Rightarrow> ss_tenants st' = ss_tenants st
        | Some (fr, to) \<Rightarrow> tbl_up (ss_tenants st) \<and> ss_tenants st' = tbl_update_where (ss_tenants st)
            (\<lambda>i t. i = pj_TenantID job \<and> te_Status t = fr) (\<lambda>t. t\<lparr>te_Status := to, te_UpdatedAt := now\<rparr>))"
    using assms(1) False unfolding applyProvisioningResult_def Let_def
    by (cases ty) (auto simp: tbl_first_def tbl_get_def split: if_splits option.splits qres.splits)
  have upd: "pj_TenantID (jobUpdate now res k) = pj_TenantID k \<and> pj_Type (jobUpdate now res k) = pj_Type k \<and>
      pj_Status (jobUpdate now res k) = ?s" for k by (simp add: jobUpdate_def)
  have wf: "tbl_wf (ss_tenants st)" "tbl_wf (ss_jobs st)" using assms(2) by (auto simp: saas_wf_def)
  have pend: "pj_Status job = ProvisioningJobPending" using j(1,4) wf(2) by (auto simp: tbl_affects_iff)
  let ?tid = "pj_TenantID job" and ?tm = "fst (life_of st)" and ?jm = "snd (life_of st)"
  have jm: "?jm ?i = Some (?tid, ty, ProvisioningJobPending)" using j(1,3) pend by (simp add: life_of_def)
  have jobs: "snd (life_of st') = ?jm(?i \<mapsto> (?tid, ty, ?s))"
    using j(1,2,3,5) upd pend by (auto simp: life_of_def fun_eq_iff tbl_update_where_get split: option.splits)
  have wf': "saas_wf st'" using j(5,6) wf by (auto simp: saas_wf_def split: option.splits)
  show ?thesis
  proof (cases "tenant_move ty ?s")
    case None
    then have ty: "ty = ProvisioningJobDeprovision" "?s = ProvisioningJobFailed" by (cases ty; auto split: if_splits)+
    have tm': "fst (life_of st') = ?tm" using j(6) None by (simp add: life_of_def)
    have "life_step (?tm, ?jm) (fst (life_of st'), snd (life_of st'))"
      unfolding tm' jobs ty using jm unfolding ty by (rule life_step.give_up)
    then show ?thesis using wf' by simp
  next
    case (Some mv)
    obtain fr to where mv: "tenant_move ty ?s = Some (fr, to)" using Some by (cases mv) auto
    then have t: "tbl_up (ss_tenants st)" "ss_tenants st' = tbl_update_where (ss_tenants st)
            (\<lambda>i t. i = ?tid \<and> te_Status t = fr) (\<lambda>t. t\<lparr>te_Status := to, te_UpdatedAt := now\<rparr>)" using j(6) by auto
    then have tm': "fst (life_of st') = (if ?tm ?tid = Some fr then ?tm(?tid \<mapsto> to) else ?tm)"
      by (auto simp: life_of_def fun_eq_iff tbl_update_where_get split: option.splits)
    have "life_step (?tm, ?jm) (fst (life_of st'), snd (life_of st'))"
      unfolding tm' jobs using jm mv by (rule life_step.settle)
    then show ?thesis using wf' by simp
  qed
qed

lemma result_life:
  "saas_wf st \<Longrightarrow> life_step (life_of st) (life_of (handleProvisioningResult now ty pre subject data st)) \<and>
     saas_wf (handleProvisioningResult now ty pre subject data st)"
  using apply_life[OF surjective_pairing, of st now ty]
  by (auto simp: handleProvisioningResult_def Let_def stutter split: option.splits prod.splits)

lemma tenant_step_life: "tenant_step st st' \<Longrightarrow> saas_wf st \<Longrightarrow> life_step (life_of st) (life_of st') \<and> saas_wf st'"
proof (induction rule: tenant_step.induct)
  case (2 now body tid st st' resp')
  then show ?case using PatchTenant_life[OF 2(1,2)] stutter by metis
next
  case (5 st b c)
  then show ?case by (simp add: life_of_def saas_wf_def tbl_wf_def tbl_get_def stutter)
qed (simp_all add: CreateTenant_life DeleteTenant_life result_life)

text \<open>A service that starts with empty tables.\<close>

definition saas_new :: saas where
  "saas_new = \<lparr>ss_tenants = \<lparr>tbl_rows = [], tbl_up = True\<rparr>, ss_jobs = \<lparr>tbl_rows = [], tbl_up = True\<rparr>, ss_published = []\<rparr>"

definition tenant_ok :: "'m saas_scheme \<Rightarrow> bool" where
  "tenant_ok st = (saas_wf st \<and> life_inv (life_of st))"

interpretation tenants: preserved tenant_step tenant_ok
  by unfold_locales (meson tenant_ok_def tenant_step_life life_step_inv)

lemma saas_new_ok: "tenant_ok saas_new"
  by (simp add: tenant_ok_def saas_new_def saas_wf_def tbl_wf_def life_of_def tbl_get_def life_inv_def)

lemma tenant_ok_job:
  assumes "tenant_ok st" "tbl_get (ss_jobs st) i = Some j"
  shows "\<exists>t. tbl_get (ss_tenants st) (pj_TenantID j) = Some t \<and> agrees (pj_Type j) (pj_Status j) (te_Status t)"
proof -
  obtain tm jm where l: "life_of st = (tm, jm)" by (cases "life_of st")
  have "jm i = Some (pj_TenantID j, pj_Type j, pj_Status j)" using l assms(2) by (auto simp: life_of_def)
  then obtain x where "tm (pj_TenantID j) = Some x" "agrees (pj_Type j) (pj_Status j) x"
    using life_invD(1) assms(1) l unfolding tenant_ok_def by metis
  then show ?thesis using l by (auto simp: life_of_def)
qed

lemma tenant_ok_jobs:
  assumes "tenant_ok st" "tbl_get (ss_tenants st) tid = Some t"
  shows "\<exists>i j. tbl_get (ss_jobs st) i = Some j \<and> pj_TenantID j = tid \<and> pj_Type j = ProvisioningJobProvision"
    "te_Status t \<in> {TenantStatusOffboarding, TenantStatusOffboarded} \<Longrightarrow>
       \<exists>i j. tbl_get (ss_jobs st) i = Some j \<and> pj_TenantID j = tid \<and> pj_Type j = ProvisioningJobDeprovision"
proof -
  obtain tm jm where l: "life_of st = (tm, jm)" by (cases "life_of st")
  have inv: "life_inv (tm, jm)" and tm: "tm tid = Some (te_Status t)" using assms l by (auto simp: tenant_ok_def life_of_def)
  show "\<exists>i j. tbl_get (ss_jobs st) i = Some j \<and> pj_TenantID j = tid \<and> pj_Type j = ProvisioningJobProvision"
    using life_invD(2)[OF inv tm] l by (auto simp: life_of_def)
  show "te_Status t \<in> {TenantStatusOffboarding, TenantStatusOffboarded} \<Longrightarrow>
       \<exists>i j. tbl_get (ss_jobs st) i = Some j \<and> pj_TenantID j = tid \<and> pj_Type j = ProvisioningJobDeprovision"
    using life_invD(3)[OF inv tm] l by (auto simp: life_of_def)
qed

text \<open>
  Property C18. In every state the hosted service can reach, through any interleaving of
  tenant requests, of provisioning results with any content on any subject and of
  database outages, a tenant's status and its outbox agree: it is pending exactly while
  a provision job of it is pending, a deprovision job of it exists exactly when it is
  offboarding or offboarded, it is offboarded exactly when that job succeeded, and
  a provision and a deprovision job of one tenant are never pending at once.
\<close>

theorem tenant_lifecycle:
  assumes "tenant_step\<^sup>*\<^sup>* saas_new st" "tbl_get (ss_tenants st) tid = Some t"
  defines "job ty s \<equiv> \<exists>i j. tbl_get (ss_jobs st) i = Some j \<and> pj_TenantID j = tid \<and> pj_Type j = ty \<and> pj_Status j = s"
  shows "(te_Status t = TenantStatusPending \<longleftrightarrow> job ProvisioningJobProvision ProvisioningJobPending) \<and>
    (te_Status t \<in> {TenantStatusOffboarding, TenantStatusOffboarded} \<longleftrightarrow> (\<exists>s. job ProvisioningJobDeprovision s)) \<and>
    (te_Status t = TenantStatusOffboarded \<longleftrightarrow> job ProvisioningJobDeprovision ProvisioningJobSucceeded) \<and>
    \<not> (job ProvisioningJobProvision ProvisioningJobPending \<and> job ProvisioningJobDeprovision ProvisioningJobPending)"
proof -
  have ok: "tenant_ok st" using tenants.run_keeps[OF assms(1) saas_new_ok] .
  have ag: "agrees ty s (te_Status t)" if "job ty s" for ty s
    using that tenant_ok_job[OF ok] assms(2) unfolding job_def by force
  note pr = tenant_ok_jobs[OF ok assms(2)]
  have p: "\<exists>s. job ProvisioningJobProvision s" using pr(1) unfolding job_def by blast
  have d: "te_Status t \<in> {TenantStatusOffboarding, TenantStatusOffboarded} \<Longrightarrow> \<exists>s. job ProvisioningJobDeprovision s"
    using pr(2) unfolding job_def by blast
  have da: "te_Status t \<in> {TenantStatusOffboarding, TenantStatusOffboarded} \<and> (te_Status t = TenantStatusOffboarded \<longleftrightarrow> s = ProvisioningJobSucceeded)"
    if "job ProvisioningJobDeprovision s" for s using ag[OF that] by (cases s) auto
  show ?thesis using ag[of ProvisioningJobProvision] p d da by (metis TenantStatus.distinct agrees.simps(1) insert_iff singletonD)
qed

text \<open>
  Property C38. A failed deprovision job is the end of a tenant: in every later state
  the tenant is still offboarding, no deprovision job of it is pending, and every
  further deletion is answered 409 \<open>offboarding_in_progress\<close> and changes nothing.
\<close>

theorem failed_offboarding_is_final:
  assumes "tenant_step\<^sup>*\<^sup>* saas_new st" "tbl_get (ss_jobs st) i = Some j"
    and "pj_Type j = ProvisioningJobDeprovision" "pj_Status j = ProvisioningJobFailed" "tenant_step\<^sup>*\<^sup>* st st'"
  shows "\<exists>t. tbl_get (ss_tenants st') (pj_TenantID j) = Some t \<and> te_Status t = TenantStatusOffboarding \<and>
    (\<forall>k j'. tbl_get (ss_jobs st') k = Some j' \<longrightarrow> pj_TenantID j' = pj_TenantID j \<longrightarrow> pj_Type j' = ProvisioningJobDeprovision \<longrightarrow>
       pj_Status j' = ProvisioningJobFailed) \<and>
    (tbl_up (ss_tenants st') \<longrightarrow> DeleteTenant env rand st' (pj_TenantID j) st' =
       (st', writeError 409 ''offboarding_in_progress'' ''tenant is already offboarding or offboarded''))"
proof -
  let ?dead = "\<lambda>st. tenant_ok st \<and> snd (life_of st) i = Some (pj_TenantID j, ProvisioningJobDeprovision, ProvisioningJobFailed)"
  have "life_step a b \<Longrightarrow> snd a i = Some (x, ProvisioningJobDeprovision, ProvisioningJobFailed) \<Longrightarrow>
      snd b i = Some (x, ProvisioningJobDeprovision, ProvisioningJobFailed)" for a b x
    by (induction rule: life_step.induct) auto
  then have step: "?dead a \<Longrightarrow> tenant_step a b \<Longrightarrow> ?dead b" for a b
    using tenants.keeps tenant_step_life tenant_ok_def by metis
  have "?dead st" using tenants.run_keeps[OF assms(1) saas_new_ok] assms(2-4) by (simp add: life_of_def)
  with assms(5) have dead: "?dead st'" by (induction rule: rtranclp_induct) (use step in blast)+
  obtain j' where j': "tbl_get (ss_jobs st') i = Some j'" "pj_TenantID j' = pj_TenantID j" "pj_Type j' = ProvisioningJobDeprovision"
      "pj_Status j' = ProvisioningJobFailed" using dead by (auto simp: life_of_def)
  obtain t where t: "tbl_get (ss_tenants st') (pj_TenantID j) = Some t" "te_Status t = TenantStatusOffboarding"
    using tenant_ok_job[OF conjunct1[OF dead] j'(1)] j' by auto
  have "k = i" if "tbl_get (ss_jobs st') k = Some j''" "pj_TenantID j'' = pj_TenantID j" "pj_Type j'' = ProvisioningJobDeprovision" for k j''
    using dead that life_invD(4)[of "fst (life_of st')" "snd (life_of st')" k] by (auto simp: tenant_ok_def life_of_def)
  then show ?thesis using t j' by (auto simp: DeleteTenant_def lookupTenant_def)
qed


section \<open>A run\<close>

definition demo_saas_env :: saas_env where
  "demo_saas_env = \<lparr>sv_now = 1, sv_bus = True, sv_publish = True\<rparr>"

definition demo_rand :: "string option" where "demo_rand = Some (replicate 10 CHR 0x00)"

definition demo_body :: raw where "demo_body = RawDoc (VMap [(''name'', VStr '' Acme '')])"

definition demo_created :: saas where "demo_created = fst (CreateTenant demo_saas_env demo_rand demo_rand demo_body saas_new)"

lemma demo_ids: "newID ''t_'' demo_rand = Some ''t_aaaaaaaaaaaaaaaa''" "newID ''pj_'' demo_rand = Some ''pj_aaaaaaaaaaaaaaaa''"
  by code_simp+


definition demo_rand' :: "string option" where "demo_rand' = Some (replicate 9 CHR 0x00 @ [CHR 0x01])"

definition demo_tid :: string where "demo_tid = ''t_aaaaaaaaaaaaaaaa''"
definition demo_pj :: string where "demo_pj = ''pj_aaaaaaaaaaaaaaaa''"
definition demo_pj' :: string where "demo_pj' = ''pj_aaaaaaaaaaaaaaab''"

lemma demo_id': "newID ''pj_'' demo_rand' = Some demo_pj'"
  by code_simp

definition demo_result :: "string \<Rightarrow> string \<Rightarrow> raw" where
  "demo_result job status = RawDoc (VMap [(''job_id'', VStr job), (''tenant_id'', VStr demo_tid), (''status'', VStr status)])"

definition demo_active :: saas where
  "demo_active = handleProvisioningResult 2 ProvisioningJobProvision SubjectTenantProvisionedPrefix (ProvisionedSubject demo_pj)
     (demo_result demo_pj StatusActive) demo_created"

definition demo_deleted :: saas where
  "demo_deleted = fst (DeleteTenant demo_saas_env demo_rand' demo_active demo_tid demo_active)"

definition demo_refused :: saas where
  "demo_refused = handleProvisioningResult 3 ProvisioningJobDeprovision SubjectTenantDeprovisionedPrefix (DeprovisionedSubject demo_pj')
     (demo_result demo_pj' StatusFailed) demo_deleted"

lemma demo_run: "tenant_step\<^sup>*\<^sup>* saas_new demo_created" "tenant_step\<^sup>*\<^sup>* saas_new demo_refused"
proof -
  show c: "tenant_step\<^sup>*\<^sup>* saas_new demo_created"
    unfolding demo_created_def by (rule r_into_rtranclp, rule tenant_step.intros(1), rule surjective_pairing)
  have "tenant_step demo_created demo_active" unfolding demo_active_def
    by (rule tenant_step.intros(4)) (simp add: result_subscriptions_def)
  moreover have "tenant_step demo_active demo_deleted" unfolding demo_deleted_def
    by (rule tenant_step.intros(3), rule surjective_pairing)
  moreover have "tenant_step demo_deleted demo_refused" unfolding demo_refused_def
    by (rule tenant_step.intros(4)) (simp add: result_subscriptions_def)
  ultimately show "tenant_step\<^sup>*\<^sup>* saas_new demo_refused" using c by (meson rtranclp.rtrancl_into_rtrancl)
qed


lemma demo_saas_decoded:
  "raw_strs demo_body [''name'', ''plan_id''] = ([[CHR '' ''] @ ''Acme'' @ [CHR '' ''], []], False)" "TrimSpace ([CHR '' ''] @ ''Acme'' @ [CHR '' '']) = ''Acme''"
  by code_simp+

lemma demo_result_decoded:
  "decode_TenantResult (demo_result i s) = (\<lparr>tr_JobID = i, tr_TenantID = demo_tid, tr_Status = s, tr_ErrorCode = [], tr_WarningCode = []\<rparr>, False)"
  by (simp add: decode_TenantResult_def demo_result_def raw_strs_def raw_str_fields dec_field_def dec_str_def ToLower_def lower_char_def)

lemma demo_jobs: "ValidJobID demo_pj" "ValidJobID demo_pj'" "demo_pj' \<noteq> demo_pj" "newID ''t_'' demo_rand = Some demo_tid"
  "newID ''pj_'' demo_rand = Some demo_pj"
  using demo_ids by (simp_all add: demo_pj_def demo_pj'_def demo_tid_def ValidJobID_def maxJobIDLen_def job_id_char_def is_lower_def)

lemma demo_created_rows:
  "ss_tenants demo_created = \<lparr>tbl_rows = [(demo_tid, \<lparr>te_Name = ''Acme'', te_Status = TenantStatusPending, te_PlanID = [],
     te_CreatedAt = 1, te_UpdatedAt = 1\<rparr>)], tbl_up = True\<rparr>"
  "ss_jobs demo_created = \<lparr>tbl_rows = [(demo_pj, \<lparr>pj_TenantID = demo_tid, pj_Type = ProvisioningJobProvision,
     pj_Status = ProvisioningJobPending, pj_Attempts = 1, pj_LastError = [], pj_Warning = [], pj_CreatedAt = 1, pj_UpdatedAt = 1\<rparr>)], tbl_up = True\<rparr>"
  using demo_saas_decoded demo_jobs
  by (simp_all add: demo_created_def CreateTenant_def saas_new_def tbl_create_def tbl_get_def enqueueProvisioningJob_def
      dispatchProvisioning_def publishProvisioningJob_def demo_saas_env_def tbl_update_where_def responses Let_def)

lemma demo_active_rows:
  "ss_tenants demo_active = \<lparr>tbl_rows = [(demo_tid, \<lparr>te_Name = ''Acme'', te_Status = TenantStatusActive, te_PlanID = [],
     te_CreatedAt = 1, te_UpdatedAt = 2\<rparr>)], tbl_up = True\<rparr>"
  "ss_jobs demo_active = \<lparr>tbl_rows = [(demo_pj, \<lparr>pj_TenantID = demo_tid, pj_Type = ProvisioningJobProvision,
     pj_Status = ProvisioningJobSucceeded, pj_Attempts = 1, pj_LastError = [], pj_Warning = [], pj_CreatedAt = 1, pj_UpdatedAt = 2\<rparr>)], tbl_up = True\<rparr>"
  by (simp_all add: demo_active_def handleProvisioningResult_def JobIDFromSubject_roundtrip demo_jobs demo_result_decoded
      applyProvisioningResult_def demo_created_rows tbl_get_def tbl_affects_def tbl_update_where_def jobUpdate_def codes PublicWarningMessage_def Let_def)

lemma demo_deleted_rows:
  "ss_tenants demo_deleted = \<lparr>tbl_rows = [(demo_tid, \<lparr>te_Name = ''Acme'', te_Status = TenantStatusOffboarding, te_PlanID = [],
     te_CreatedAt = 1, te_UpdatedAt = 1\<rparr>)], tbl_up = True\<rparr>"
  "ss_jobs demo_deleted = \<lparr>tbl_rows = tbl_rows (ss_jobs demo_active) @ [(demo_pj', \<lparr>pj_TenantID = demo_tid, pj_Type = ProvisioningJobDeprovision,
     pj_Status = ProvisioningJobPending, pj_Attempts = 1, pj_LastError = [], pj_Warning = [], pj_CreatedAt = 1, pj_UpdatedAt = 1\<rparr>)], tbl_up = True\<rparr>"
  using demo_jobs(3) demo_id'
  by (simp_all add: demo_deleted_def DeleteTenant_def lookupTenant_def demo_active_rows tbl_create_def tbl_get_def tbl_affects_def
      enqueueProvisioningJob_def dispatchDeprovisioning_def publishProvisioningJob_def demo_saas_env_def tbl_update_where_def responses Let_def)

lemma demo_refused_job: "tbl_get (ss_jobs demo_refused) demo_pj' = Some \<lparr>pj_TenantID = demo_tid, pj_Type = ProvisioningJobDeprovision,
   pj_Status = ProvisioningJobFailed, pj_Attempts = 1, pj_LastError = publicJobError demo_pj' [], pj_Warning = [], pj_CreatedAt = 1,
   pj_UpdatedAt = 3\<rparr>"
  using demo_jobs(3)
  by (simp add: demo_refused_def handleProvisioningResult_def JobIDFromSubject_roundtrip demo_jobs demo_result_decoded
      applyProvisioningResult_def demo_deleted_rows demo_active_rows tbl_get_def tbl_affects_def tbl_update_where_def jobUpdate_def Let_def)

theorem tenant_lifecycle_witness:
  "\<exists>t. tbl_get (ss_tenants demo_created) demo_tid = Some t \<and> te_Status t = TenantStatusPending \<and>
     (\<exists>i j. tbl_get (ss_jobs demo_created) i = Some j \<and> pj_TenantID j = demo_tid \<and> pj_Type j = ProvisioningJobProvision \<and>
        pj_Status j = ProvisioningJobPending)"
proof -
  obtain t where t: "tbl_get (ss_tenants demo_created) demo_tid = Some t" "te_Status t = TenantStatusPending"
    by (simp add: demo_created_rows tbl_get_def)
  then show ?thesis using tenant_lifecycle[OF demo_run(1) t(1)] by blast
qed

theorem failed_offboarding_is_final_witness:
  "\<exists>t. tbl_get (ss_tenants demo_refused) demo_tid = Some t \<and> te_Status t = TenantStatusOffboarding"
  using failed_offboarding_is_final[OF demo_run(2) demo_refused_job _ _ rtranclp.rtrancl_refl, of demo_saas_env None] by auto

section \<open>With the farmer\<close>

text \<open>The document the farmer makes of a result; empty codes are left out.\<close>

definition encode_TenantResult :: "TenantResult \<Rightarrow> raw" where
  "encode_TenantResult r =
     RawDoc (VMap ([(''job_id'', VStr (tr_JobID r)), (''tenant_id'', VStr (tr_TenantID r)), (''status'', VStr (tr_Status r))] @
       (if tr_ErrorCode r = [] then [] else [(''error_code'', VStr (tr_ErrorCode r))]) @
       (if tr_WarningCode r = [] then [] else [(''warning_code'', VStr (tr_WarningCode r))])))"

lemma decode_encoded_tenant_result: "decode_TenantResult (encode_TenantResult r) = (r, False)"
  by (cases r) (simp add: decode_TenantResult_def encode_TenantResult_def raw_strs_def raw_str_fields dec_field_def dec_str_def
      ToLower_def lower_char_def)

lemma decode_encoded_provision:
  "raw_strs (encode_provision \<lparr>tp_JobID = i, tp_TenantID = t, tp_Name = n\<rparr>) [''job_id'', ''tenant_id'', ''name''] = ([i, t, n], False)"
  by (simp add: encode_provision_def raw_strs_def raw_str_fields dec_field_def dec_str_def ToLower_def lower_char_def)

lemma provisioned_matches: "subject_law m \<Longrightarrow> ValidJobID i \<Longrightarrow> m SubjectTenantProvisionedWildcard (ProvisionedSubject i)"
proof -
  assume m: "subject_law m" and i: "ValidJobID i"
  have "Split CHR ''.'' (ProvisionedSubject i) = [''internal'', ''tenant'', ''provisioned'', i]"
    using ValidJobID_token[OF i] by (simp add: ProvisionedSubject_def SubjectTenantProvisionedPrefix_def Split_no_sep)
  moreover from this have "[] \<notin> set (Split CHR ''.'' (ProvisionedSubject i))" using ValidJobID_token[OF i] by auto
  ultimately show ?thesis using m
    by (simp add: subject_law_def SubjectTenantProvisionedWildcard_def SubjectTenantProvisionedPrefix_def)
qed

lemma CreateTenant_accepted:
  assumes "CreateTenant env (Some r1) (Some r2) body st = (st', Reply code resp)" "length r1 = idRandomBytes" "length r2 = idRandomBytes"
    and "sv_bus env" "sv_publish env"
  obtains tid i name row job where "code = 202" "ts_TenantID resp = tid" "IsValidTenantID tid" "ValidJobID i"
    "tbl_get (ss_tenants st') tid = Some row" "te_Status row = TenantStatusPending"
    "tbl_get (ss_jobs st') i = Some job" "pj_TenantID job = tid" "pj_Type job = ProvisioningJobProvision" "pj_Status job = ProvisioningJobPending"
    "ss_published st' = ss_published st @ [(SubjectTenantProvision, encode_provision \<lparr>tp_JobID = i, tp_TenantID = tid, tp_Name = name\<rparr>)]"
    "tbl_up (ss_tenants st')" "tbl_up (ss_jobs st')" "name \<noteq> []"
proof -
  obtain fs err where fs: "raw_strs body [''name'', ''plan_id''] = (fs, err)" by (meson surj_pair)
  obtain t0 j0 where t0: "newID ''t_'' (Some r1) = Some t0" "IsValidTenantID t0" using newID_valid[OF assms(2)] by metis
  obtain j0 where j0: "newID ''pj_'' (Some r2) = Some j0" "ValidJobID j0" using newID_valid[OF assms(3)] by metis
  from assms(1) obtain tenants st1 i where
      e: "tbl_create (ss_tenants st) t0 \<lparr>te_Name = TrimSpace (fs ! 0), te_Status = TenantStatusPending, te_PlanID = fs ! 1,
          te_CreatedAt = sv_now env, te_UpdatedAt = sv_now env\<rparr> = Some tenants"
      "enqueueProvisioningJob (sv_now env) (Some r2) t0 ProvisioningJobProvision (st\<lparr>ss_tenants := tenants\<rparr>) = Some (st1, i)"
      "st' = dispatchProvisioning env i t0 (TrimSpace (fs ! 0)) st1" "code = 202" "ts_TenantID resp = t0" "TrimSpace (fs ! 0) \<noteq> []"
    unfolding CreateTenant_def fs by (auto simp: Let_def t0 responses split: if_splits option.splits)
  obtain jobs where q: "tbl_create (ss_jobs st) j0 \<lparr>pj_TenantID = t0, pj_Type = ProvisioningJobProvision, pj_Status = ProvisioningJobPending,
      pj_Attempts = 0, pj_LastError = [], pj_Warning = [], pj_CreatedAt = sv_now env, pj_UpdatedAt = sv_now env\<rparr> = Some jobs"
      "st1 = st\<lparr>ss_tenants := tenants, ss_jobs := jobs\<rparr>" "i = j0"
    using e(2) by (auto simp: enqueueProvisioningJob_def j0 split: option.splits)
  have up: "tbl_up tenants" "tbl_up jobs" using e(1) q(1) by (auto simp: tbl_create_def split: if_splits)
  define row where "row = \<lparr>te_Name = TrimSpace (fs ! 0), te_Status = TenantStatusPending, te_PlanID = fs ! 1,
          te_CreatedAt = sv_now env, te_UpdatedAt = sv_now env\<rparr>"
  show ?thesis
  proof (rule that)
    show "te_Status row = TenantStatusPending" by (simp add: row_def)
    show "tbl_get (ss_tenants st') t0 = Some row" using assms(4,5) q(2)
      by (simp add: e(3) dispatchProvisioning_def publishProvisioningJob_def tbl_create_get(1)[OF e(1)] row_def)
    show "tbl_get (ss_jobs st') i = Some \<lparr>pj_TenantID = t0, pj_Type = ProvisioningJobProvision, pj_Status = ProvisioningJobPending,
      pj_Attempts = 1, pj_LastError = [], pj_Warning = [], pj_CreatedAt = sv_now env, pj_UpdatedAt = sv_now env\<rparr>"
      using up q assms(4,5) by (simp add: e(3) dispatchProvisioning_def publishProvisioningJob_def tbl_update_where_get tbl_create_get(1)[OF q(1)])
  qed (use e(4,5,6) t0(2) j0(2) q up assms(4,5) in \<open>simp_all add: e(3) dispatchProvisioning_def publishProvisioningJob_def tbl_create_get(1)[OF e(1)]\<close>)
qed

text \<open>
  Property C20. A tenant request that the hosted service accepts carries through: the message it
  publishes is one the farmer answers, and when the farmer's answer arrives on the subject it was
  sent to, the tenant is active if the farmer provisioned it, and otherwise failed with a
  message that names the job.
\<close>

theorem provisioning_end_to_end:
  fixes st :: saas
  assumes "CreateTenant env (Some r1) (Some r2) body st = (st1, Reply code resp)"
    and "length r1 = idRandomBytes" "length r2 = idRandomBytes" "sv_bus env" "sv_publish env" "subject_law m"
  shows "\<exists>data i name acc' perr res. last (ss_published st1) = (SubjectTenantProvision, data) \<and>
    ProvisionTenant fenv (ts_TenantID resp) name acc = (acc', perr) \<and>
    handleTenantProvision fenv acc data = (acc', Some (ProvisionedSubject i, res)) \<and>
    (\<exists>t. tbl_get (ss_tenants (on_provisioning_result m now (ProvisionedSubject i) (encode_TenantResult res) st1)) (ts_TenantID resp) = Some t \<and>
       te_Status t = (if perr = None then TenantStatusActive else TenantStatusFailed)) \<and>
    (\<exists>j. tbl_get (ss_jobs (on_provisioning_result m now (ProvisionedSubject i) (encode_TenantResult res) st1)) i = Some j \<and>
       pj_LastError j = (case perr of None \<Rightarrow> [] | Some e \<Rightarrow> publicJobError i (tenantErrorCode e)))"
proof -
  obtain tid i name row job where c: "ts_TenantID resp = tid" "IsValidTenantID tid" "ValidJobID i"
    "tbl_get (ss_tenants st1) tid = Some row" "te_Status row = TenantStatusPending"
    "tbl_get (ss_jobs st1) i = Some job" "pj_TenantID job = tid" "pj_Type job = ProvisioningJobProvision" "pj_Status job = ProvisioningJobPending"
    "ss_published st1 = ss_published st @ [(SubjectTenantProvision, encode_provision \<lparr>tp_JobID = i, tp_TenantID = tid, tp_Name = name\<rparr>)]"
    "tbl_up (ss_tenants st1)" "tbl_up (ss_jobs st1)"
    using CreateTenant_accepted[OF assms(1-5)] by metis
  obtain acc' perr where p: "ProvisionTenant fenv tid name acc = (acc', perr)" by (meson surj_pair)
  define res where "res = (let r = \<lparr>tr_JobID = i, tr_TenantID = tid, tr_Status = StatusActive, tr_ErrorCode = [], tr_WarningCode = []\<rparr> in
    case perr of None \<Rightarrow> r | Some e \<Rightarrow> r\<lparr>tr_Status := StatusFailed, tr_ErrorCode := tenantErrorCode e\<rparr>)"
  have h: "handleTenantProvision fenv acc (encode_provision \<lparr>tp_JobID = i, tp_TenantID = tid, tp_Name = name\<rparr>) = (acc', Some (ProvisionedSubject i, res))"
    by (simp add: handleTenantProvision_def decode_encoded_provision c(3) p res_def Let_def)
  have res: "tr_JobID res = i" "tr_TenantID res = tid" "tr_Status res = (if perr = None then StatusActive else StatusFailed)"
      "tr_ErrorCode res = (case perr of None \<Rightarrow> [] | Some e \<Rightarrow> tenantErrorCode e)"
    by (auto simp: res_def Let_def split: option.splits)
  have aff: "tbl_affects (ss_jobs st1) (\<lambda>k j. k = i \<and> pj_Status j = ProvisioningJobPending)"
    using c(6,9) by (force simp: tbl_affects_def list_ex_iff tbl_get_def dest: map_of_SomeD)
  let ?st2 = "on_provisioning_result m now (ProvisionedSubject i) (encode_TenantResult res) st1"
  have "?st2 = fst (applyProvisioningResult now ProvisioningJobProvision res st1)"
    using provisioned_matches[OF assms(6) c(3)] c(3) res(1)
    by (simp add: on_provisioning_result_def result_subscriptions_def handleProvisioningResult_def JobIDFromSubject_roundtrip decode_encoded_tenant_result)
  also have "\<dots> = st1\<lparr>ss_jobs := tbl_update_where (ss_jobs st1) (\<lambda>k j. k = i \<and> pj_Status j = ProvisioningJobPending) (jobUpdate now res),
      ss_tenants := tbl_update_where (ss_tenants st1) (\<lambda>k t. k = tid \<and> te_Status t = TenantStatusPending)
        (\<lambda>t. t\<lparr>te_Status := if perr = None then TenantStatusActive else TenantStatusFailed, te_UpdatedAt := now\<rparr>)\<rparr>"
    using c aff res by (auto simp: applyProvisioningResult_def Let_def codes split: option.splits)
  finally have st2: "?st2 = \<dots>" .
  have "\<exists>t. tbl_get (ss_tenants ?st2) tid = Some t \<and> te_Status t = (if perr = None then TenantStatusActive else TenantStatusFailed)"
    using c by (simp add: st2 tbl_update_where_get)
  moreover have "\<exists>j. tbl_get (ss_jobs ?st2) i = Some j \<and> pj_LastError j = (case perr of None \<Rightarrow> [] | Some e \<Rightarrow> publicJobError i (tenantErrorCode e))"
    using c res by (auto simp: st2 tbl_update_where_get jobUpdate_def codes split: option.splits)
  moreover have "last (ss_published st1) = (SubjectTenantProvision, encode_provision \<lparr>tp_JobID = i, tp_TenantID = tid, tp_Name = name\<rparr>)"
    by (simp add: c(10))
  ultimately show ?thesis using c(1) p h by blast
qed

theorem provisioning_end_to_end_witness:
  "\<exists>data i acc' res. last (ss_published demo_created) = (SubjectTenantProvision, data) \<and>
     handleTenantProvision demo_access_env demo_access data = (acc', Some (ProvisionedSubject i, res))"
proof -
  have law: "subject_law (\<lambda>p s. tokens_match (Split CHR ''.'' p) (Split CHR ''.'' s))" by (simp add: subject_law_def)
  obtain resp where r: "CreateTenant demo_saas_env demo_rand demo_rand demo_body saas_new = (demo_created, resp)"
    using prod.collapse unfolding demo_created_def by metis
  have "ss_tenants demo_created \<noteq> ss_tenants saas_new" unfolding demo_created_rows by (simp add: saas_new_def)
  then have "demo_created \<noteq> saas_new" by auto
  then obtain code b where "resp = Reply code b" using r unfolding CreateTenant_def Let_def
    by (auto simp: responses split: if_splits option.splits prod.splits)
  then show ?thesis using provisioning_end_to_end[OF _ _ _ _ _ law, of demo_saas_env "replicate 10 CHR 0x00" "replicate 10 CHR 0x00" demo_body saas_new] r
    by (fastforce simp: demo_rand_def idRandomBytes_def demo_saas_env_def)
qed

end
