(* ===== verification/Saas_Assets.thy ===== *)
theory Saas_Assets
  imports Saas_Tenants Heartbeat
begin

text \<open>
  Enrollment keys and asset links of the hosted service
  (\<open>internal/saasapi/enrollment_keys.go\<close>, \<open>asset_links.go\<close>): issuing, listing and
  revoking the keys that the farmer redeems, linking an asset to a sprout, and resolving
  asset IDs by the join of the links with the farmer's key table.  The table of keys is the
  one the farmer reads.
\<close>

section \<open>State\<close>

record EnrollmentKey = enrollmentKeyRow +
  ek_CreatedAt :: int

record AssetLink =
  al_TenantID :: string
  al_SproutID :: string
  al_AssetID :: string
  al_LinkedAt :: int

record saas_assets = saas +
  ss_keys :: "(string, EnrollmentKey) table"
  ss_links :: "(string, AssetLink) table"

text \<open>\<open>tenantExists\<close> answers with the response of a refusal.\<close>

definition tenantExists :: "'m saas_scheme \<Rightarrow> string \<Rightarrow> 'a response option" where
  "tenantExists st tid =
     (if \<not> tbl_up (ss_tenants st) then Some (writeError 500 ''internal_error'' ''failed to look up tenant'')
      else if tbl_get (ss_tenants st) tid = None then Some (writeError 404 ''tenant_not_found'' ''no such tenant'')
      else None)"

section \<open>Enrollment keys\<close>

definition minExpiresInHours :: int where "minExpiresInHours = 1"
definition maxExpiresInHours :: int where "maxExpiresInHours = 24 * 30"
definition minMaxUses :: int where "minMaxUses = 1"
definition maxMaxUses :: int where "maxMaxUses = 10000"
definition hour :: int where "hour = 3600 * 1000000000"

record createEnrollmentKeyResponse =
  ke_KeyID :: string
  ke_RegistrationKey :: string
  ke_ExpiresAt :: int
  ke_MaxUses :: int

definition CreateEnrollmentKey ::
  "(string \<Rightarrow> string) \<Rightarrow> int \<Rightarrow> string option \<Rightarrow> string option \<Rightarrow> raw \<Rightarrow> string \<Rightarrow> 'm saas_assets_scheme \<Rightarrow>
   'm saas_assets_scheme \<times> createEnrollmentKeyResponse response" where
  "CreateEnrollmentKey hashSecret now rand1 rand2 body tid st =
     (case tenantExists st tid of
        Some r \<Rightarrow> (st, r)
      | None \<Rightarrow>
          let (hours, e1) = raw_int body ''expires_in_hours''; (uses, e2) = raw_int body ''max_uses'' in
          if e1 \<or> e2 then (st, writeError 400 ''invalid_request'' ''request body must be valid JSON'')
          else if hours < minExpiresInHours \<or> hours > maxExpiresInHours
          then (st, writeError 400 ''invalid_request'' ''expires_in_hours out of range'')
          else if uses < minMaxUses \<or> uses > maxMaxUses then (st, writeError 400 ''invalid_request'' ''max_uses out of range'')
          else (case newID ''ek_'' rand1 of
                  None \<Rightarrow> (st, writeError 500 ''internal_error'' ''failed to generate key id'')
                | Some keyID \<Rightarrow>
                    (case newEnrollmentSecret rand2 of
                       None \<Rightarrow> (st, writeError 500 ''internal_error'' ''failed to generate enrollment secret'')
                     | Some secret \<Rightarrow>
                         let expiry = now + hours * hour in
                         (case tbl_create (ss_keys st) keyID
                                 \<lparr>ek_TenantID = tid, ek_KeyHash = hashSecret secret, ek_Expiry = expiry, ek_MaxUses = uses,
                                  ek_UsedCount = 0, ek_Revoked = False, ek_CreatedAt = now\<rparr> of
                            None \<Rightarrow> (st, writeError 500 ''internal_error'' ''failed to store enrollment key'')
                          | Some keys \<Rightarrow>
                              (st\<lparr>ss_keys := keys\<rparr>,
                               writeJSON 200 \<lparr>ke_KeyID = keyID, ke_RegistrationKey = keyID @ ''.'' @ secret, ke_ExpiresAt = expiry,
                                 ke_MaxUses = uses\<rparr>)))))"

definition enrollmentKeyState :: "EnrollmentKey \<Rightarrow> int \<Rightarrow> string" where
  "enrollmentKeyState k now =
     (if ek_Revoked k then ''revoked''
      else if now > ek_Expiry k then ''expired''
      else if ek_UsedCount k \<ge> ek_MaxUses k then ''exhausted''
      else ''active'')"

record enrollmentKeyListItem =
  kl_KeyID :: string
  kl_State :: string
  kl_ExpiresAt :: int
  kl_MaxUses :: int
  kl_UsedCount :: int
  kl_CreatedAt :: int

text \<open>\<open>ORDER BY created_at DESC\<close>; rows of one time stay in storage order.\<close>

definition ListEnrollmentKeys :: "int \<Rightarrow> string \<Rightarrow> 'm saas_assets_scheme \<Rightarrow> enrollmentKeyListItem list response" where
  "ListEnrollmentKeys now tid st =
     (case tenantExists st tid of
        Some r \<Rightarrow> r
      | None \<Rightarrow>
          if \<not> tbl_up (ss_keys st) then writeError 500 ''internal_error'' ''failed to list enrollment keys''
          else writeJSON 200 (map (\<lambda>(i, k). \<lparr>kl_KeyID = i, kl_State = enrollmentKeyState k now, kl_ExpiresAt = ek_Expiry k,
                 kl_MaxUses = ek_MaxUses k, kl_UsedCount = ek_UsedCount k, kl_CreatedAt = ek_CreatedAt k\<rparr>)
               (sort_key (\<lambda>(i, k). - ek_CreatedAt k) (tbl_find (ss_keys st) (\<lambda>_ k. ek_TenantID k = tid)))))"

definition DeleteEnrollmentKey :: "string \<Rightarrow> string \<Rightarrow> 'm saas_assets_scheme \<Rightarrow> 'm saas_assets_scheme \<times> (string \<times> bool) response" where
  "DeleteEnrollmentKey tid keyID st =
     (let mine = (\<lambda>i k. i = keyID \<and> ek_TenantID k = tid) in
      if \<not> tbl_up (ss_keys st) then (st, writeError 500 ''internal_error'' ''failed to look up enrollment key'')
      else if \<not> tbl_affects (ss_keys st) mine then (st, writeError 404 ''enrollment_key_not_found'' ''no such enrollment key'')
      else (st\<lparr>ss_keys := tbl_update_where (ss_keys st) (\<lambda>i _. i = keyID) (\<lambda>k. k\<lparr>ek_Revoked := True\<rparr>)\<rparr>, writeJSON 200 (keyID, True)))"

section \<open>Asset links\<close>

definition maxAssetIDsPerLookup :: nat where "maxAssetIDsPerLookup = 100"
definition maxAssetIDLen :: nat where "maxAssetIDLen = 191"
definition keyStateAccepted :: string where "keyStateAccepted = ''accepted''"

record sproutByAssetItem =
  sb_SproutID :: string
  sb_AssetID :: string
  sb_KeyState :: string
  sb_Connected :: bool

record sproutsByAssetResponse =
  sr_Results :: "sproutByAssetItem list"
  sr_Unresolved :: "string list"

text \<open>The insert fails on a taken key, a linked sprout of the tenant, or an asset linked anywhere.\<close>

definition links_collide :: "AssetLink \<Rightarrow> AssetLink \<Rightarrow> bool" where
  "links_collide a b = (al_TenantID a = al_TenantID b \<and> al_SproutID a = al_SproutID b \<or> al_AssetID a = al_AssetID b)"

definition create_link :: "(string, AssetLink) table \<Rightarrow> string \<Rightarrow> AssetLink \<Rightarrow> (string, AssetLink) table option" where
  "create_link t i link = (if tbl_affects t (\<lambda>_ l. links_collide l link) then None else tbl_create t i link)"

definition sproutOwnedByTenant :: "nkey_db \<Rightarrow> string \<Rightarrow> string \<Rightarrow> bool option" where
  "sproutOwnedByTenant nkeys tid sid =
     (if \<not> IsValidSproutID sid then Some False
      else if \<not> tbl_up nkeys then None
      else Some (tbl_get nkeys (tid, sid) \<noteq> None))"

definition assetLinkConflictExists :: "(string, AssetLink) table \<Rightarrow> string \<Rightarrow> string \<Rightarrow> string \<Rightarrow> bool" where
  "assetLinkConflictExists t tid sid asset =
     tbl_affects t (\<lambda>_ l. al_TenantID l = tid \<and> al_SproutID l = sid \<or> al_AssetID l = asset)"

definition link_failed :: "'a response" where
  "link_failed = writeError 500 ''internal_error'' ''failed to link asset''"

definition LinkAsset ::
  "nkey_db \<Rightarrow> int \<Rightarrow> string option \<Rightarrow> raw \<Rightarrow> string \<Rightarrow> string \<Rightarrow> 'm saas_assets_scheme \<Rightarrow>
   'm saas_assets_scheme \<times> AssetLink response" where
  "LinkAsset nkeys now rand body tid sid st =
     (case tenantExists st tid of
        Some r \<Rightarrow> (st, r)
      | None \<Rightarrow>
          let (a, err) = raw_str body ''asset_id''; asset = TrimSpace a in
          if err then (st, writeError 400 ''invalid_request'' ''request body must be valid JSON'')
          else if asset = [] then (st, writeError 400 ''invalid_request'' ''asset_id is required'')
          else if length asset > maxAssetIDLen then (st, writeError 400 ''invalid_request'' ''asset_id is too long'')
          else (case sproutOwnedByTenant nkeys tid sid of
                  None \<Rightarrow> (st, writeError 500 ''internal_error'' ''failed to look up sprout'')
                | Some False \<Rightarrow> (st, writeError 404 ''sprout_not_found'' ''no such sprout'')
                | Some True \<Rightarrow>
                    (case newID ''al_'' rand of
                       None \<Rightarrow> (st, writeError 500 ''internal_error'' ''failed to generate asset link id'')
                     | Some i \<Rightarrow>
                         let link = \<lparr>al_TenantID = tid, al_SproutID = sid, al_AssetID = asset, al_LinkedAt = now\<rparr> in
                         (case create_link (ss_links st) i link of
                            Some links \<Rightarrow> (st\<lparr>ss_links := links\<rparr>, writeJSON 201 link)
                          | None \<Rightarrow>
                              (st, if \<not> tbl_up (ss_links st) then link_failed
                                   else case tbl_find (ss_links st) (\<lambda>_ l. al_TenantID l = tid \<and> al_SproutID l = sid \<and> al_AssetID l = asset) of
                                          (_, l) # _ \<Rightarrow> writeJSON 200 l
                                        | [] \<Rightarrow>
                                            if \<not> assetLinkConflictExists (ss_links st) tid sid asset then link_failed
                                            else writeError 409 ''asset_link_conflict'' ''this sprout or asset_id is already linked; unlink it first'')))))"

definition UnlinkAsset :: "string \<Rightarrow> string \<Rightarrow> 'm saas_assets_scheme \<Rightarrow> 'm saas_assets_scheme \<times> (string \<times> bool) response" where
  "UnlinkAsset tid sid st =
     (case tenantExists st tid of
        Some r \<Rightarrow> (st, r)
      | None \<Rightarrow>
          let mine = (\<lambda>_ l. al_TenantID l = tid \<and> al_SproutID l = sid) in
          if \<not> tbl_up (ss_links st) then (st, writeError 500 ''internal_error'' ''failed to unlink asset'')
          else if \<not> tbl_affects (ss_links st) mine then (st, writeError 404 ''asset_link_not_found'' ''no asset link for this sprout'')
          else (st\<lparr>ss_links := tbl_delete (ss_links st) mine\<rparr>, writeJSON 200 (sid, True)))"

text \<open>The IDs of all query values in order, with those seen and their number before removing duplicates.\<close>

fun parse_ids :: "string list \<Rightarrow> string list \<Rightarrow> nat \<Rightarrow> 'a response + string list" where
  "parse_ids [] ids n = (if ids = [] then Inl (writeError 400 ''invalid_request'' ''asset_ids is required'') else Inr ids)"
| "parse_ids (p # ps) ids n =
     (let i = TrimSpace p in
      if i = [] then parse_ids ps ids n
      else if n + 1 > maxAssetIDsPerLookup
      then Inl (writeErrorDetails 400 ''too_many_asset_ids'' ''at most 100 asset_ids per request'' [(''max'', VNum 100)])
      else if length i > maxAssetIDLen then Inl (writeError 400 ''invalid_request'' ''asset_id is too long'')
      else parse_ids ps (if i \<in> set ids then ids else ids @ [i]) (n + 1))"

definition parseAssetIDs :: "string list \<Rightarrow> 'a response + string list" where
  "parseAssetIDs values = parse_ids (concat (map (Split CHR '','') values)) [] 0"

definition resolveAssetIDs :: "nkey_db \<Rightarrow> string \<Rightarrow> string list \<Rightarrow> 'm saas_assets_scheme \<Rightarrow> sproutByAssetItem list option" where
  "resolveAssetIDs nkeys tid ids st =
     (if \<not> tbl_up (ss_links st) \<or> \<not> tbl_up nkeys then None
      else Some (concat (map (\<lambda>(_, l). case tbl_get nkeys (al_TenantID l, al_SproutID l) of
               None \<Rightarrow> []
             | Some k \<Rightarrow> [\<lparr>sb_SproutID = al_SproutID l, sb_AssetID = al_AssetID l, sb_KeyState = nk_State k, sb_Connected = False\<rparr>])
           (tbl_find (ss_links st) (\<lambda>_ l. al_TenantID l = tid \<and> al_AssetID l \<in> set ids)))))"

definition fillConnected :: "(string \<Rightarrow> string \<Rightarrow> bool) \<Rightarrow> string \<Rightarrow> sproutByAssetItem list \<Rightarrow> sproutByAssetItem list" where
  "fillConnected online tid rows =
     map (\<lambda>r. if sb_KeyState r = keyStateAccepted then r\<lparr>sb_Connected := online tid (sb_SproutID r)\<rparr> else r) rows"

text \<open>A Go map filled in order: the last row of an asset counts.\<close>

definition byAsset :: "sproutByAssetItem list \<Rightarrow> string \<rightharpoonup> sproutByAssetItem" where
  "byAsset rows = map_of (rev (map (\<lambda>r. (sb_AssetID r, r)) rows))"

definition ListSproutsByAssetIDs ::
  "nkey_db \<Rightarrow> 's valkey option \<Rightarrow> 's \<Rightarrow> int \<Rightarrow> string list \<Rightarrow> string \<Rightarrow> 'm saas_assets_scheme \<Rightarrow> sproutsByAssetResponse response" where
  "ListSproutsByAssetIDs nkeys client vs now values tid st =
     (case tenantExists st tid of
        Some r \<Rightarrow> r
      | None \<Rightarrow>
          (case parseAssetIDs values of
             Inl r \<Rightarrow> r
           | Inr ids \<Rightarrow>
               (case resolveAssetIDs nkeys tid ids st of
                  None \<Rightarrow> writeError 500 ''internal_error'' ''failed to resolve asset ids''
                | Some rows \<Rightarrow>
                    let m = byAsset (fillConnected (IsOnline client vs now) tid rows) in
                    writeJSON 200 \<lparr>sr_Results = concat (map (\<lambda>i. case m i of None \<Rightarrow> [] | Some r \<Rightarrow> [r]) ids),
                      sr_Unresolved = filter (\<lambda>i. m i = None) ids\<rparr>)))"


section \<open>Asset IDs of a request\<close>

definition asset_id_ok :: "string \<Rightarrow> bool" where
  "asset_id_ok i = (i \<noteq> [] \<and> length i \<le> maxAssetIDLen)"

lemma parse_ids_sound:
  "parse_ids ps ids n = (Inr out :: 'a response + string list) \<Longrightarrow> distinct ids \<Longrightarrow> length ids \<le> n \<Longrightarrow> n \<le> maxAssetIDsPerLookup \<Longrightarrow> list_all asset_id_ok ids \<Longrightarrow>
   distinct out \<and> length out \<le> maxAssetIDsPerLookup \<and> out \<noteq> [] \<and> list_all asset_id_ok out \<and>
   set out = set ids \<union> (TrimSpace ` set ps - {[]})"
proof (induction ps ids n rule: parse_ids.induct)
  case (1 ids n)
  then show ?case by (simp add: split: if_splits)
next
  case (2 p ps ids n)
  show ?case
  proof (cases "TrimSpace p = []")
    case True
    then show ?thesis using 2(1)[OF refl] 2(3-) by auto
  next
    case False
    then have ok: "\<not> n + 1 > maxAssetIDsPerLookup" "\<not> length (TrimSpace p) > maxAssetIDLen"
        "parse_ids ps (if TrimSpace p \<in> set ids then ids else ids @ [TrimSpace p]) (n + 1) = (Inr out :: 'a response + string list)"
      using 2(3) by (auto simp: Let_def split: if_splits)
    show ?thesis using 2(2)[OF refl False ok] ok(1,2) 2(4-) False by (auto simp: asset_id_ok_def split: if_splits)
  qed
qed

lemma parseAssetIDs_sound:
  assumes "parseAssetIDs values = Inr ids"
  shows "distinct ids" "length ids \<le> 100" "ids \<noteq> []" "list_all asset_id_ok ids"
    "set ids = TrimSpace ` (\<Union>v \<in> set values. set (Split CHR '','' v)) - {[]}"
  using parse_ids_sound[OF assms[unfolded parseAssetIDs_def]] by (auto simp: maxAssetIDsPerLookup_def)

section \<open>A lookup shows nothing of other tenants\<close>

lemma resolve_isolated:
  assumes "tbl_up (ss_links st) = tbl_up (ss_links st')" "tbl_up nkeys = tbl_up nkeys'"
    and "filter (\<lambda>(_, l). al_TenantID l = tid) (tbl_rows (ss_links st)) = filter (\<lambda>(_, l). al_TenantID l = tid) (tbl_rows (ss_links st'))"
    and "\<And>sid. tbl_get nkeys (tid, sid) = tbl_get nkeys' (tid, sid)"
  shows "resolveAssetIDs nkeys tid ids st = resolveAssetIDs nkeys' tid ids st'"
proof -
  have f: "filter (\<lambda>(_, l). al_TenantID l = tid \<and> al_AssetID l \<in> set ids) xs =
      filter (\<lambda>(_, l). al_AssetID l \<in> set ids) (filter (\<lambda>(_, l). al_TenantID l = tid) xs)" for xs :: "(string \<times> AssetLink) list"
    by (induction xs) auto
  show ?thesis
    using assms(1,2) unfolding resolveAssetIDs_def tbl_find_def f assms(3)
    by (auto simp: assms(4) intro!: arg_cong[where f = concat] map_cong split: option.splits)
qed

text \<open>
  What a tenant's lookup by asset IDs answers is determined by that tenant's own
  links, keys and heartbeats.  Whatever other tenants have linked, enrolled or online, the
  response is the same: an asset that another tenant holds is not told apart from one that
  was never linked.
\<close>

theorem lookup_isolated:
  assumes "tbl_up (ss_tenants st) = tbl_up (ss_tenants st')" "tbl_get (ss_tenants st) tid = tbl_get (ss_tenants st') tid"
    and "tbl_up (ss_links st) = tbl_up (ss_links st')" "tbl_up nkeys = tbl_up nkeys'"
    and "filter (\<lambda>(_, l). al_TenantID l = tid) (tbl_rows (ss_links st)) = filter (\<lambda>(_, l). al_TenantID l = tid) (tbl_rows (ss_links st'))"
    and "\<And>sid. tbl_get nkeys (tid, sid) = tbl_get nkeys' (tid, sid)"
    and "\<And>sid. IsOnline client vs now tid sid = IsOnline client vs' now tid sid"
  shows "ListSproutsByAssetIDs nkeys client vs now values tid st = ListSproutsByAssetIDs nkeys' client vs' now values tid st'"
proof -
  have "fillConnected (IsOnline client vs now) tid rows = fillConnected (IsOnline client vs' now) tid rows" for rows
    using assms(7) by (simp add: fillConnected_def)
  then show ?thesis using assms(1,2) resolve_isolated[OF assms(3-6)]
    by (simp add: ListSproutsByAssetIDs_def tenantExists_def Let_def split: sum.splits option.splits)
qed

section \<open>Links\<close>

inductive link_step :: "saas_assets \<Rightarrow> saas_assets \<Rightarrow> bool" where
  "LinkAsset nkeys now rand body tid sid st = (st', resp) \<Longrightarrow> link_step st st'"
| "UnlinkAsset tid sid st = (st', resp') \<Longrightarrow> link_step st st'"
| "link_step st (st\<lparr>ss_links := (ss_links st)\<lparr>tbl_up := b\<rparr>\<rparr>)"

definition links_ok :: "'m saas_assets_scheme \<Rightarrow> bool" where
  "links_ok st = (tbl_wf (ss_links st) \<and>
     (\<forall>i k l l'. tbl_get (ss_links st) i = Some l \<longrightarrow> tbl_get (ss_links st) k = Some l' \<longrightarrow> i \<noteq> k \<longrightarrow> \<not> links_collide l l'))"

lemma links_collide_sym: "links_collide a b = links_collide b a"
  by (auto simp: links_collide_def)

lemma create_link_ok:
  assumes "create_link t i link = Some t'" "tbl_wf t"
  shows "tbl_wf t'" "tbl_get t' k = (if k = i then Some link else tbl_get t k)"
    "tbl_get t k = Some l \<Longrightarrow> \<not> links_collide l link" "tbl_up t" "tbl_up t'"
proof -
  have c: "tbl_create t i link = Some t'" and n: "\<not> tbl_affects t (\<lambda>_ l. links_collide l link)"
    using assms(1) by (auto simp: create_link_def split: if_splits)
  show "tbl_wf t'" "tbl_get t' k = (if k = i then Some link else tbl_get t k)" using c assms(2) by (simp_all add: tbl_create_wf tbl_create_get)
  show "tbl_get t k = Some l \<Longrightarrow> \<not> links_collide l link" using n assms(2) by (auto simp: tbl_affects_iff)
  show "tbl_up t" "tbl_up t'" using c by (auto simp: tbl_create_def split: if_splits)
qed

lemma LinkAsset_cases:
  assumes "LinkAsset nkeys now rand body tid sid st = (st', resp)"
  obtains (same) "st' = st" | (linked) i asset links where
    "create_link (ss_links st) i \<lparr>al_TenantID = tid, al_SproutID = sid, al_AssetID = asset, al_LinkedAt = now\<rparr> = Some links"
    "st' = st\<lparr>ss_links := links\<rparr>"
proof (cases "st' = st")
  case False
  obtain a err where a: "raw_str body ''asset_id'' = (a, err)" by (meson surj_pair)
  from False assms obtain i where i: "newID ''al_'' rand = Some i"
    unfolding LinkAsset_def a Let_def by (auto split: option.splits if_splits bool.splits)
  show ?thesis
  proof (cases "create_link (ss_links st) i \<lparr>al_TenantID = tid, al_SproutID = sid, al_AssetID = TrimSpace a, al_LinkedAt = now\<rparr>")
    case None
    then show ?thesis using False assms unfolding LinkAsset_def a Let_def by (simp add: i split: option.splits if_splits bool.splits)
  next
    case (Some links)
    then have "st' = st\<lparr>ss_links := links\<rparr>"
      using False assms unfolding LinkAsset_def a Let_def by (simp add: i split: option.splits if_splits bool.splits)
    then show ?thesis using Some linked by blast
  qed
qed (simp add: same)

lemma LinkAsset_links_ok:
  assumes "LinkAsset nkeys now rand body tid sid st = (st', resp)" "links_ok st"
  shows "links_ok st'"
  using assms(1)
proof (cases rule: LinkAsset_cases)
  case same
  then show ?thesis using assms(2) by simp
next
  case (linked i asset links)
  have wf: "tbl_wf (ss_links st)" using assms(2) by (simp add: links_ok_def)
  note c = create_link_ok[OF linked(1) wf]
  show ?thesis using assms(2) c(1,3) unfolding links_ok_def linked(2)
    by (auto simp: c(2) links_collide_sym split: if_splits)
qed

lemma tbl_get_delete_where: "tbl_wf t \<Longrightarrow> tbl_get (tbl_delete t P) k = Some r \<Longrightarrow> tbl_get t k = Some r \<and> (tbl_up t \<longrightarrow> \<not> P k r)"
proof (cases "tbl_up t")
  case True
  then show "tbl_wf t \<Longrightarrow> tbl_get (tbl_delete t P) k = Some r \<Longrightarrow> ?thesis" by (simp add: tbl_get_delete split: option.splits if_splits)
next
  case False
  then show "tbl_get (tbl_delete t P) k = Some r \<Longrightarrow> ?thesis" by (simp add: tbl_delete_def)
qed

interpretation links: preserved link_step links_ok
proof
  fix st st' assume "links_ok st" "link_step st st'"
  from this(2,1) show "links_ok st'"
  proof (induction rule: link_step.induct)
    case (2 tid sid st st' resp')
    have "st' = st \<or> (\<exists>P. st' = st\<lparr>ss_links := tbl_delete (ss_links st) P\<rparr>)"
      using 2(1) by (auto simp: UnlinkAsset_def Let_def split: option.splits if_splits)
    then show ?case
    proof
      assume "\<exists>P. st' = st\<lparr>ss_links := tbl_delete (ss_links st) P\<rparr>"
      then obtain P where st': "st' = st\<lparr>ss_links := tbl_delete (ss_links st) P\<rparr>" by blast
      have wf: "tbl_wf (ss_links st)" using 2(2) by (simp add: links_ok_def)
      show ?thesis using 2(2) tbl_get_delete_where[OF wf] wf unfolding links_ok_def st' by simp blast
    qed (use 2(2) in simp)
  next
    case (3 st b)
    then show ?case by (simp add: links_ok_def tbl_wf_def tbl_get_def)
  qed (blast intro: LinkAsset_links_ok)
qed


lemma LinkAsset_reply:
  assumes "LinkAsset nkeys now rand body tid sid st = (st', Reply c link)" "links_ok st"
  shows "tenantExists st tid = (None :: AssetLink response option) \<and> tbl_up nkeys \<and> tbl_up (ss_links st') \<and> IsValidSproutID sid \<and>
    (\<exists>k. tbl_get nkeys (tid, sid) = Some k) \<and> (\<exists>i. tbl_get (ss_links st') i = Some link) \<and>
    al_TenantID link = tid \<and> al_SproutID link = sid \<and> ss_tenants st' = ss_tenants st \<and> c \<in> {200, 201} \<and>
    (\<exists>a. raw_str body ''asset_id'' = (a, False) \<and> TrimSpace a = al_AssetID link \<and> asset_id_ok (al_AssetID link))"
proof -
  obtain a err where a: "raw_str body ''asset_id'' = (a, err)" by (meson surj_pair)
  let ?new = "\<lparr>al_TenantID = tid, al_SproutID = sid, al_AssetID = TrimSpace a, al_LinkedAt = now\<rparr>"
  have pre: "tenantExists st tid = (None :: AssetLink response option)" "\<not> err" "TrimSpace a \<noteq> []" "length (TrimSpace a) \<le> maxAssetIDLen"
      "sproutOwnedByTenant nkeys tid sid = Some True"
    using assms(1) unfolding LinkAsset_def a Let_def
    by (auto simp: responses tenantExists_def split: option.splits if_splits bool.splits)
  then have own: "tbl_up nkeys" "IsValidSproutID sid" "\<exists>k. tbl_get nkeys (tid, sid) = Some k"
    by (auto simp: sproutOwnedByTenant_def split: if_splits)
  obtain i where i: "newID ''al_'' rand = Some i" using assms(1) pre unfolding LinkAsset_def a Let_def
    by (auto simp: responses split: option.splits)
  have wf: "tbl_wf (ss_links st)" using assms(2) by (simp add: links_ok_def)
  show ?thesis
  proof (cases "create_link (ss_links st) i ?new")
    case (Some links)
    note cl = create_link_ok[OF Some wf]
    have st': "st' = st\<lparr>ss_links := links\<rparr>" "link = ?new" "c = 201"
      using assms(1) pre i Some unfolding LinkAsset_def a Let_def by (auto simp: responses)
    then show ?thesis using pre own a cl(2)[of i] cl(5) by (auto simp: asset_id_ok_def)
  next
    case None
    have r: "st' = st" "tbl_up (ss_links st)" "c = 200" "\<exists>k. (k, link) \<in> set (tbl_find (ss_links st) (\<lambda>_ l. al_TenantID l = tid \<and> al_SproutID l = sid \<and> al_AssetID l = TrimSpace a))"
      using assms(1) pre i None unfolding LinkAsset_def a Let_def
      by (auto simp: responses link_failed_def split: if_splits list.splits)
    then obtain k where "tbl_get (ss_links st) k = Some link" "al_TenantID link = tid" "al_SproutID link = sid" "al_AssetID link = TrimSpace a"
      by (auto simp: tbl_find_get wf)
    then show ?thesis using r pre own a by (auto simp: asset_id_ok_def)
  qed
qed

lemma only_value:
  assumes "(i, x) \<in> set xs" "\<And>j y. (j, y) \<in> set xs \<Longrightarrow> y = x"
  shows "\<exists>j rest. xs = (j, x) # rest"
proof (cases xs)
  case Nil
  then show ?thesis using assms(1) by simp
next
  case (Cons p rest)
  obtain j y where p: "p = (j, y)" by (cases p)
  have "y = x" by (rule assms(2)[of j]) (simp add: Cons p)
  then show ?thesis by (simp add: Cons p)
qed

lemma byAsset_unique:
  assumes "r \<in> set rows" "\<And>r'. r' \<in> set rows \<Longrightarrow> sb_AssetID r' = sb_AssetID r \<Longrightarrow> r' = r"
  shows "byAsset rows (sb_AssetID r) = Some r"
proof -
  have "map_of (rev (map (\<lambda>r. (sb_AssetID r, r)) rows)) (sb_AssetID r) \<noteq> None" using assms(1) unfolding map_of_eq_None_iff by force
  then obtain r' where r': "map_of (rev (map (\<lambda>r. (sb_AssetID r, r)) rows)) (sb_AssetID r) = Some r'" by blast
  then have "r' \<in> set rows" "sb_AssetID r' = sb_AssetID r" using map_of_SomeD[OF r'] by auto
  then show ?thesis using assms(2) r' by (simp add: byAsset_def)
qed

lemma resolve_rows:
  assumes "resolveAssetIDs nkeys tid ids st = Some rows" "tbl_wf (ss_links st)"
  shows "r \<in> set rows \<longleftrightarrow> (\<exists>i l k. tbl_get (ss_links st) i = Some l \<and> al_TenantID l = tid \<and> al_AssetID l \<in> set ids \<and>
    tbl_get nkeys (tid, al_SproutID l) = Some k \<and>
    r = \<lparr>sb_SproutID = al_SproutID l, sb_AssetID = al_AssetID l, sb_KeyState = nk_State k, sb_Connected = False\<rparr>)"
proof -
  have up: "tbl_up (ss_links st)" and rows: "rows = concat (map (\<lambda>(_, l). case tbl_get nkeys (al_TenantID l, al_SproutID l) of
               None \<Rightarrow> []
             | Some k \<Rightarrow> [\<lparr>sb_SproutID = al_SproutID l, sb_AssetID = al_AssetID l, sb_KeyState = nk_State k, sb_Connected = False\<rparr>])
           (tbl_find (ss_links st) (\<lambda>_ l. al_TenantID l = tid \<and> al_AssetID l \<in> set ids)))"
    using assms(1) by (auto simp: resolveAssetIDs_def split: if_splits)
  have "r \<in> set rows \<longleftrightarrow> (\<exists>i l. (i, l) \<in> set (tbl_find (ss_links st) (\<lambda>_ l. al_TenantID l = tid \<and> al_AssetID l \<in> set ids)) \<and>
      (\<exists>k. tbl_get nkeys (al_TenantID l, al_SproutID l) = Some k \<and>
         r = \<lparr>sb_SproutID = al_SproutID l, sb_AssetID = al_AssetID l, sb_KeyState = nk_State k, sb_Connected = False\<rparr>))"
    unfolding rows by (force split: option.splits)
  then show ?thesis using up assms(2) by (auto simp: tbl_find_get)
qed

text \<open>
  In every state reached by linking and unlinking, a link the service confirms
  holds: the tenant resolves the asset to that sprout of its own with the key state
  the farmer has, every other tenant finds it unresolved, and asking for
  the same link again answers 200 with the same link and changes nothing.
\<close>

theorem linked_asset_resolves:
  fixes st0 :: saas_assets
  assumes "links_ok st0" "link_step\<^sup>*\<^sup>* st0 st" "LinkAsset nkeys now rand body tid sid st = (st', Reply c link)"
    and "al_AssetID link \<in> set ids" "tid' \<noteq> tid"
  shows "(\<exists>rows k. resolveAssetIDs nkeys tid ids st' = Some rows \<and> tbl_get nkeys (tid, sid) = Some k \<and>
      byAsset rows (al_AssetID link) =
        Some \<lparr>sb_SproutID = sid, sb_AssetID = al_AssetID link, sb_KeyState = nk_State k, sb_Connected = False\<rparr>) \<and>
    (\<exists>rows. resolveAssetIDs nkeys tid' ids st' = Some rows \<and> byAsset rows (al_AssetID link) = None) \<and>
    LinkAsset nkeys now' (Some bytes) body tid sid st' = (st', Reply 200 link)"
proof -
  have ok: "links_ok st" using links.run_keeps[OF assms(2,1)] .
  have ok': "links_ok st'" using LinkAsset_links_ok[OF assms(3) ok] .
  then have wf: "tbl_wf (ss_links st')" by (simp add: links_ok_def)
  have f: "tenantExists st tid = (None :: AssetLink response option)" "tbl_up nkeys" "tbl_up (ss_links st')" "IsValidSproutID sid"
      "al_TenantID link = tid" "al_SproutID link = sid" "ss_tenants st' = ss_tenants st"
    using LinkAsset_reply[OF assms(3) ok] by blast+
  obtain k i a where g: "tbl_get nkeys (tid, sid) = Some k" "tbl_get (ss_links st') i = Some link"
      "raw_str body ''asset_id'' = (a, False)" "TrimSpace a = al_AssetID link" "asset_id_ok (al_AssetID link)"
    using LinkAsset_reply[OF assms(3) ok] by blast
  have uniq: "l = link" if "tbl_get (ss_links st') j = Some l" "links_collide l link" for j l
    using that g(2) ok' unfolding links_ok_def by fastforce
  let ?r = "\<lparr>sb_SproutID = sid, sb_AssetID = al_AssetID link, sb_KeyState = nk_State k, sb_Connected = False\<rparr>"
  obtain rows where rows: "resolveAssetIDs nkeys tid ids st' = Some rows" using f by (simp add: resolveAssetIDs_def)
  obtain rows' where rows': "resolveAssetIDs nkeys tid' ids st' = Some rows'" using f by (simp add: resolveAssetIDs_def)
  have mem: "?r \<in> set rows" using g(1,2) f assms(4) by (auto simp: resolve_rows[OF rows wf])
  have un: "r' = ?r" if r': "r' \<in> set rows" "sb_AssetID r' = sb_AssetID ?r" for r'
  proof -
    obtain j l q where l: "tbl_get (ss_links st') j = Some l" "tbl_get nkeys (tid, al_SproutID l) = Some q"
        "r' = \<lparr>sb_SproutID = al_SproutID l, sb_AssetID = al_AssetID l, sb_KeyState = nk_State q, sb_Connected = False\<rparr>"
      using r'(1) unfolding resolve_rows[OF rows wf] by blast
    then have "l = link" using uniq[OF l(1)] r'(2) by (simp add: links_collide_def)
    then show ?thesis using l g f by simp
  qed
  have "byAsset rows (sb_AssetID ?r) = Some ?r" using mem un by (rule byAsset_unique)
  then have "byAsset rows (al_AssetID link) = Some ?r" by simp
  moreover have "byAsset rows' (al_AssetID link) = None"
  proof -
    have "r \<notin> set rows' \<or> sb_AssetID r \<noteq> al_AssetID link" for r
    proof (rule ccontr)
      assume c: "\<not> ?thesis"
      then have "r \<in> set rows'" by simp
      then obtain j l and k' :: nkeyRow where l: "tbl_get (ss_links st') j = Some l" "al_TenantID l = tid'"
          "r = \<lparr>sb_SproutID = al_SproutID l, sb_AssetID = al_AssetID l, sb_KeyState = nk_State k', sb_Connected = False\<rparr>"
        unfolding resolve_rows[OF rows' wf] by blast
      then have "al_AssetID l = al_AssetID link" using c by simp
      then have "l = link" using uniq[OF l(1)] by (simp add: links_collide_def)
      then show False using l(2) f(5) assms(5) by simp
    qed
    then show ?thesis unfolding byAsset_def map_of_eq_None_iff by force
  qed
  moreover have "LinkAsset nkeys now' (Some bytes) body tid sid st' = (st', Reply 200 link)"
  proof -
    let ?P = "\<lambda>_ l. al_TenantID l = tid \<and> al_SproutID l = sid \<and> al_AssetID l = TrimSpace a"
    have te: "tenantExists st' tid = (None :: AssetLink response option)" using f(1,7) by (simp add: tenantExists_def split: if_splits)
    have own: "sproutOwnedByTenant nkeys tid sid = Some True" using f g(1) by (simp add: sproutOwnedByTenant_def)
    have none: "create_link (ss_links st') q \<lparr>al_TenantID = tid, al_SproutID = sid, al_AssetID = TrimSpace a, al_LinkedAt = now'\<rparr> = None" for q
      using g(2,4) f(5,6) wf by (auto simp: create_link_def tbl_affects_iff links_collide_def)
    have mem: "(i, link) \<in> set (tbl_find (ss_links st') ?P)" using g f wf by (simp add: tbl_find_get)
    have only: "l = link" if "(j, l) \<in> set (tbl_find (ss_links st') ?P)" for j l
      using that uniq[of j l] wf f(3) g(4) by (simp add: tbl_find_get links_collide_def)
    obtain j rest where "tbl_find (ss_links st') ?P = (j, link) # rest" using only_value[of i link, OF mem] only by blast
    then show ?thesis using te own none g(3,4,5) f(3)
      by (simp add: LinkAsset_def newID_def asset_id_ok_def responses)
  qed
  ultimately show ?thesis using rows rows' g(1) by blast
qed


section \<open>Issued keys at the farmer\<close>

text \<open>The farmer's view of the key table.\<close>

definition farmer_keys :: "'m saas_assets_scheme \<Rightarrow> enroll_db" where
  "farmer_keys st = \<lparr>tbl_rows = map (\<lambda>(i, k). (i, enrollmentKeyRow.truncate k)) (tbl_rows (ss_keys st)), tbl_up = tbl_up (ss_keys st)\<rparr>"

lemma farmer_keys_get: "tbl_get (farmer_keys st) i = map_option enrollmentKeyRow.truncate (tbl_get (ss_keys st) i)"
proof -
  have "map_of (map (\<lambda>(i, k). (i, enrollmentKeyRow.truncate k)) xs) i = map_option enrollmentKeyRow.truncate (map_of xs i)" for xs
    by (induction xs) auto
  then show ?thesis by (simp add: farmer_keys_def tbl_get_def)
qed

lemma farmer_keys_up [simp]: "tbl_up (farmer_keys st) = tbl_up (ss_keys st)"
  by (simp add: farmer_keys_def)

lemma farmer_keys_ok: "tbl_ok (ss_keys st) \<Longrightarrow> tbl_ok (farmer_keys st)"
  by (simp add: tbl_ok_def tbl_wf_def farmer_keys_def comp_def case_prod_unfold)

lemma farmer_row [simp]:
  "ek_TenantID (enrollmentKeyRow.truncate k) = ek_TenantID k" "ek_KeyHash (enrollmentKeyRow.truncate k) = ek_KeyHash k"
  "ek_Expiry (enrollmentKeyRow.truncate k) = ek_Expiry k" "ek_MaxUses (enrollmentKeyRow.truncate k) = ek_MaxUses k"
  "ek_UsedCount (enrollmentKeyRow.truncate k) = ek_UsedCount k" "ek_Revoked (enrollmentKeyRow.truncate k) = ek_Revoked k"
  by (simp_all add: enrollmentKeyRow.truncate_def)

lemma key_token:
  assumes "length b = idRandomBytes" "length s = enrollmentSecretBytes" "newID ''ek_'' (Some b) = Some keyID" "newEnrollmentSecret (Some s) = Some secret"
  shows "splitJoinToken (keyID @ ''.'' @ secret) = Some (keyID, secret)"
proof -
  obtain t where t: "keyID = ''ek_'' @ t" "list_all id_char t" using newID_shape[OF assms(1), of "''ek_''"] assms(3) by force
  have "CHR ''.'' \<notin> set t" using t(2) by (auto simp: list_all_iff id_char_def is_lower_def)
  then have nd: "CHR ''.'' \<notin> set keyID" by (simp add: t(1))
  have "length (bit_chunks 6 (concat (map byte_bits s))) = (length (concat (map byte_bits s)) + 6 - 1) div 6"
    using bit_chunks_props[of 6 "concat (map byte_bits s)"] by simp
  moreover have "length secret = length (bit_chunks 6 (concat (map byte_bits s)))"
    using assms(2,4) by (auto simp: newEnrollmentSecret_def)
  ultimately have ne: "secret \<noteq> []" using assms(2) by (auto simp: bits_length enrollmentSecretBytes_def)
  have tw: "takeWhile (\<lambda>c. c \<noteq> CHR ''.'') (keyID @ ''.'' @ secret) = keyID"
    using nd by (subst takeWhile_append2) auto
  have "keyID \<noteq> []" by (simp add: t(1))
  then show ?thesis using ne unfolding splitJoinToken_def Let_def tw by simp
qed

lemma CreateEnrollmentKey_reply:
  assumes "CreateEnrollmentKey h now (Some b) (Some s) body tid st = (st', Reply c resp)" "tbl_wf (ss_keys st)"
  obtains keyID secret where "newID ''ek_'' (Some b) = Some keyID" "newEnrollmentSecret (Some s) = Some secret" "ke_KeyID resp = keyID"
    "ke_RegistrationKey resp = keyID @ ''.'' @ secret" "1 \<le> ke_MaxUses resp" "ke_MaxUses resp \<le> maxMaxUses"
    "now < ke_ExpiresAt resp" "ke_ExpiresAt resp \<le> now + maxExpiresInHours * hour" "tbl_ok (ss_keys st')"
    "tbl_get (ss_keys st') keyID = Some \<lparr>ek_TenantID = tid, ek_KeyHash = h secret, ek_Expiry = ke_ExpiresAt resp, ek_MaxUses = ke_MaxUses resp,
       ek_UsedCount = 0, ek_Revoked = False, ek_CreatedAt = now\<rparr>" "tenantExists st tid = (None :: createEnrollmentKeyResponse response option)"
proof -
  obtain hours e1 uses e2 where r: "raw_int body ''expires_in_hours'' = (hours, e1)" "raw_int body ''max_uses'' = (uses, e2)" by (meson surj_pair)
  have te: "tenantExists st tid = (None :: createEnrollmentKeyResponse response option)"
    using assms(1) by (auto simp: CreateEnrollmentKey_def tenantExists_def responses split: if_splits)
  obtain keyID secret where n: "newID ''ek_'' (Some b) = Some keyID" "newEnrollmentSecret (Some s) = Some secret"
    by (simp add: newID_def newEnrollmentSecret_def)
  let ?row = "\<lparr>ek_TenantID = tid, ek_KeyHash = h secret, ek_Expiry = now + hours * hour, ek_MaxUses = uses,
       ek_UsedCount = 0, ek_Revoked = False, ek_CreatedAt = now\<rparr>"
  have g: "\<not> e1" "\<not> e2" "minExpiresInHours \<le> hours" "hours \<le> maxExpiresInHours" "minMaxUses \<le> uses" "uses \<le> maxMaxUses"
    using assms(1) te by (auto simp: CreateEnrollmentKey_def r Let_def responses split: if_splits)
  obtain keys where k: "tbl_create (ss_keys st) keyID ?row = Some keys"
    using assms(1) te g n by (auto simp: CreateEnrollmentKey_def r Let_def responses split: if_splits option.splits)
  have e: "st' = st\<lparr>ss_keys := keys\<rparr>" "resp = \<lparr>ke_KeyID = keyID, ke_RegistrationKey = keyID @ ''.'' @ secret, ke_ExpiresAt = now + hours * hour, ke_MaxUses = uses\<rparr>"
    using assms(1) te g n k by (auto simp: CreateEnrollmentKey_def r Let_def responses split: if_splits)
  have pos: "0 < hours * hour" "hours * hour \<le> maxExpiresInHours * hour" using g by (simp_all add: minExpiresInHours_def hour_def)
  have ok: "tbl_ok keys" using k assms(2) tbl_create_wf[OF k] tbl_create_get(3)[OF k] by (auto simp: tbl_ok_def tbl_create_def split: if_splits)
  show ?thesis
    by (rule that[OF n]) (use e g pos te ok in \<open>simp_all add: tbl_create_get(1)[OF k] minMaxUses_def\<close>)
qed

text \<open>
  Property C21. The registration key a tenant is given is the one the farmer takes: its two
  halves are the stored key and the secret whose hash is stored, for that tenant.  It
  can be redeemed until it expires, at most thirty days later; however many machines
  race for it, at most the granted number of uses, never above 10000, succeed; at or after
  its expiry, or once it is revoked by its tenant, none does; and another tenant cannot
  revoke it.
\<close>

theorem issued_key_redeems:
  assumes "CreateEnrollmentKey h now (Some b) (Some s) body tid st = (st', Reply c resp)"
    and "length b = idRandomBytes" "length s = enrollmentSecretBytes" "tbl_wf (ss_keys st)"
  shows "\<exists>secret row. splitJoinToken (ke_RegistrationKey resp) = Some (ke_KeyID resp, secret) \<and>
      tbl_get (farmer_keys st') (ke_KeyID resp) = Some row \<and> ek_KeyHash row = h secret \<and> ek_TenantID row = tid \<and>
    (snd (redeem (farmer_keys st') t (ke_KeyID resp)) = Some True \<longleftrightarrow> t < ke_ExpiresAt resp) \<and>
    ke_ExpiresAt resp \<le> now + 30 * 24 * hour \<and>
    int (length (filter (\<lambda>ok. ok) (redemptions (farmer_keys st') (ke_KeyID resp) attempts))) \<le> ke_MaxUses resp \<and> ke_MaxUses resp \<le> 10000 \<and>
    snd (redeem (farmer_keys (fst (DeleteEnrollmentKey tid (ke_KeyID resp) st'))) t (ke_KeyID resp)) = Some False \<and>
    (tid' \<noteq> tid \<longrightarrow> DeleteEnrollmentKey tid' (ke_KeyID resp) st' = (st', writeError 404 ''enrollment_key_not_found'' ''no such enrollment key''))"
proof -
  obtain keyID secret where k: "newID ''ek_'' (Some b) = Some keyID" "newEnrollmentSecret (Some s) = Some secret" "ke_KeyID resp = keyID"
    "ke_RegistrationKey resp = keyID @ ''.'' @ secret" "1 \<le> ke_MaxUses resp" "ke_MaxUses resp \<le> maxMaxUses"
    "now < ke_ExpiresAt resp" "ke_ExpiresAt resp \<le> now + maxExpiresInHours * hour" "tbl_ok (ss_keys st')"
    "tbl_get (ss_keys st') keyID = Some \<lparr>ek_TenantID = tid, ek_KeyHash = h secret, ek_Expiry = ke_ExpiresAt resp, ek_MaxUses = ke_MaxUses resp,
       ek_UsedCount = 0, ek_Revoked = False, ek_CreatedAt = now\<rparr>"
    using CreateEnrollmentKey_reply[OF assms(1,4)] by metis
  define row where "row = enrollmentKeyRow.truncate \<lparr>ek_TenantID = tid, ek_KeyHash = h secret, ek_Expiry = ke_ExpiresAt resp, ek_MaxUses = ke_MaxUses resp,
       ek_UsedCount = 0, ek_Revoked = False, ek_CreatedAt = now\<rparr>"
  have row: "tbl_get (farmer_keys st') keyID = Some row" using k(10) by (simp add: farmer_keys_get row_def)
  have f: "ek_KeyHash row = h secret" "ek_TenantID row = tid" "ek_MaxUses row = ke_MaxUses resp" "ek_UsedCount row = 0" "\<not> ek_Revoked row"
      "ek_Expiry row = ke_ExpiresAt resp" by (simp_all add: row_def)
  have up: "tbl_up (ss_keys st')" "tbl_wf (ss_keys st')" using k(9) by (auto simp: tbl_ok_def)
  have "snd (redeem (farmer_keys st') t keyID) = Some True \<longleftrightarrow> t < ke_ExpiresAt resp"
    using row f up k(5) by (auto simp: redeem_def)
  moreover have "int (length (filter (\<lambda>ok. ok) (redemptions (farmer_keys st') keyID attempts))) \<le> ke_MaxUses resp"
    using redemptions_bounded[OF farmer_keys_ok[OF k(9)] row, of attempts] f k(5) by simp
  moreover have "snd (redeem (farmer_keys (fst (DeleteEnrollmentKey tid keyID st'))) t keyID) = Some False"
  proof -
    have "tbl_affects (ss_keys st') (\<lambda>i k. i = keyID \<and> ek_TenantID k = tid)" using k(10) up(2) by (auto simp: tbl_affects_iff)
    then show ?thesis using up k(10) by (simp add: DeleteEnrollmentKey_def redeem_def farmer_keys_get tbl_update_where_get)
  qed
  moreover have "tid' \<noteq> tid \<Longrightarrow> \<not> tbl_affects (ss_keys st') (\<lambda>i k. i = keyID \<and> ek_TenantID k = tid')"
    using k(10) up(2) by (auto simp: tbl_affects_iff)
  then have "tid' \<noteq> tid \<longrightarrow> DeleteEnrollmentKey tid' keyID st' = (st', writeError 404 ''enrollment_key_not_found'' ''no such enrollment key'')"
    using up(1) by (simp add: DeleteEnrollmentKey_def)
  ultimately show ?thesis
    using key_token[OF assms(2,3) k(1,2)] row f(1,2) k(3,4,6,8) by (auto simp: maxExpiresInHours_def maxMaxUses_def)
qed

text \<open>
  The state a key is listed with: \<open>active\<close> says it can be redeemed, except at the
  very instant of its expiry, when it is listed active and refused.
\<close>

theorem listed_active_redeemable:
  assumes "tbl_ok (ss_keys st)" "tbl_get (ss_keys st) i = Some k"
  shows "enrollmentKeyState k now = ''active'' \<longleftrightarrow>
    snd (redeem (farmer_keys st) now i) = Some True \<or> (now = ek_Expiry k \<and> \<not> ek_Revoked k \<and> ek_UsedCount k < ek_MaxUses k)"
  using assms by (auto simp: enrollmentKeyState_def redeem_def farmer_keys_get tbl_okD)


section \<open>Examples\<close>

definition demo_tenants :: "(string, TenantRow) table" where
  "demo_tenants = \<lparr>tbl_rows = [(''t_1'', \<lparr>te_Name = ''One'', te_Status = TenantStatusActive, te_PlanID = [], te_CreatedAt = 0, te_UpdatedAt = 0\<rparr>)],
     tbl_up = True\<rparr>"

definition demo_assets :: "(string \<times> AssetLink) list \<Rightarrow> saas_assets" where
  "demo_assets links = \<lparr>ss_tenants = demo_tenants, ss_jobs = \<lparr>tbl_rows = [], tbl_up = True\<rparr>, ss_published = [],
     ss_keys = \<lparr>tbl_rows = [], tbl_up = True\<rparr>, ss_links = \<lparr>tbl_rows = links, tbl_up = True\<rparr>\<rparr>"

definition demo_other_link :: AssetLink where
  "demo_other_link = \<lparr>al_TenantID = ''t_2'', al_SproutID = ''web'', al_AssetID = ''a1'', al_LinkedAt = 0\<rparr>"

definition demo_nkeys :: "(string \<times> string) list \<Rightarrow> nkey_db" where
  "demo_nkeys ids = \<lparr>tbl_rows = map (\<lambda>i. (i, \<lparr>nk_NKey = ''U'', nk_State = ''accepted''\<rparr>)) ids, tbl_up = True\<rparr>"

theorem lookup_isolated_witness:
  "ListSproutsByAssetIDs (demo_nkeys [(''t_2'', ''web'')]) (None :: unit valkey option) () 0 [''a1''] ''t_1'' (demo_assets [(''al_1'', demo_other_link)]) =
   ListSproutsByAssetIDs (demo_nkeys []) None () 0 [''a1''] ''t_1'' (demo_assets [])"
  by (rule lookup_isolated) (simp_all add: demo_assets_def demo_other_link_def demo_nkeys_def tbl_get_def)

definition demo_link_body :: raw where "demo_link_body = RawDoc (VMap [(''asset_id'', VStr ''a1'')])"

definition demo_linked :: AssetLink where
  "demo_linked = \<lparr>al_TenantID = ''t_1'', al_SproutID = ''web'', al_AssetID = ''a1'', al_LinkedAt = 5\<rparr>"

lemma demo_link_request: "raw_str demo_link_body ''asset_id'' = (''a1'', False)" "TrimSpace ''a1'' = ''a1''" "IsValidSproutID ''web''"
  by code_simp+

lemma demo_links_ok: "links_ok (demo_assets [])"
  by (simp add: links_ok_def demo_assets_def tbl_wf_def tbl_get_def)

lemma demo_LinkAsset:
  "\<exists>st'. LinkAsset (demo_nkeys [(''t_1'', ''web'')]) 5 demo_rand demo_link_body ''t_1'' ''web'' (demo_assets []) = (st', Reply 201 demo_linked)"
  by (simp add: LinkAsset_def demo_link_request tenantExists_def demo_assets_def demo_tenants_def tbl_get_def maxAssetIDLen_def
      sproutOwnedByTenant_def demo_nkeys_def newID_def demo_rand_def create_link_def tbl_affects_def tbl_create_def responses demo_linked_def Let_def)

theorem linked_asset_resolves_witness:
  "\<exists>st' rows. LinkAsset (demo_nkeys [(''t_1'', ''web'')]) 5 demo_rand demo_link_body ''t_1'' ''web'' (demo_assets []) = (st', Reply 201 demo_linked) \<and>
     resolveAssetIDs (demo_nkeys [(''t_1'', ''web'')]) ''t_2'' [''a1''] st' = Some rows \<and> byAsset rows ''a1'' = None"
proof -
  obtain st' where st': "LinkAsset (demo_nkeys [(''t_1'', ''web'')]) 5 demo_rand demo_link_body ''t_1'' ''web'' (demo_assets []) = (st', Reply 201 demo_linked)"
    using demo_LinkAsset by blast
  have "al_AssetID demo_linked = ''a1''" by (simp add: demo_linked_def)
  then show ?thesis using st' linked_asset_resolves[OF demo_links_ok rtranclp.rtrancl_refl st', of "[''a1'']" "''t_2''"] by auto
qed

definition demo_key_body :: raw where "demo_key_body = RawDoc (VMap [(''expires_in_hours'', VNum 24), (''max_uses'', VNum 3)])"

definition demo_secret_bytes :: string where "demo_secret_bytes = replicate 32 CHR 0x00"

lemma demo_key_request: "raw_int demo_key_body ''expires_in_hours'' = (24, False)" "raw_int demo_key_body ''max_uses'' = (3, False)"
  by code_simp+

lemma demo_CreateKey:
  "\<exists>st' resp. CreateEnrollmentKey (\<lambda>s. s) 0 demo_rand (Some demo_secret_bytes) demo_key_body ''t_1'' (demo_assets []) = (st', Reply 200 resp) \<and> ke_MaxUses resp = 3"
  by (simp add: CreateEnrollmentKey_def demo_key_request tenantExists_def demo_assets_def demo_tenants_def tbl_get_def minExpiresInHours_def
      maxExpiresInHours_def minMaxUses_def maxMaxUses_def newID_def demo_rand_def newEnrollmentSecret_def tbl_create_def responses Let_def)

theorem issued_key_redeems_witness:
  "\<exists>st' resp. CreateEnrollmentKey (\<lambda>s. s) 0 demo_rand (Some demo_secret_bytes) demo_key_body ''t_1'' (demo_assets []) = (st', Reply 200 resp) \<and>
     length (filter (\<lambda>ok. ok) (redemptions (farmer_keys st') (ke_KeyID resp) [1, 2, 3, 4])) \<le> 3"
proof -
  obtain st' resp where e: "CreateEnrollmentKey (\<lambda>s. s) 0 demo_rand (Some demo_secret_bytes) demo_key_body ''t_1'' (demo_assets []) = (st', Reply 200 resp)"
      "ke_MaxUses resp = 3" using demo_CreateKey by blast
  have hyps: "length (replicate 10 CHR 0x00) = idRandomBytes" "length demo_secret_bytes = enrollmentSecretBytes" "tbl_wf (ss_keys (demo_assets []))"
    by (simp_all add: idRandomBytes_def demo_secret_bytes_def enrollmentSecretBytes_def demo_assets_def tbl_wf_def)
  have "int (length (filter (\<lambda>ok. ok) (redemptions (farmer_keys st') (ke_KeyID resp) [1, 2, 3, 4]))) \<le> ke_MaxUses resp"
    using issued_key_redeems[OF e(1)[unfolded demo_rand_def] hyps, of 0 "[1, 2, 3, 4]" "''t_2''"] by blast
  then have "length (filter (\<lambda>ok. ok) (redemptions (farmer_keys st') (ke_KeyID resp) [1, 2, 3, 4])) \<le> 3" unfolding e(2) by linarith
  then show ?thesis using e(1) by blast
qed

end
