(* ===== verification/Saas_Actions.thy ===== *)
theory Saas_Actions
  imports Saas_Assets Jobs_Index
begin

text \<open>
  Batch actions of the hosted service (\<open>internal/saasapi/sprout_actions.go\<close>,
  \<open>job_status.go\<close>): validation and translation of a caller's action, the batch and its items,
  the dispatch of each item to the farmer and the reading of its reply, and the status of
  a batch.  Sending an item is a claim, the request, and the recording of its outcome; other
  work comes in between, so claim and recording are separate operations.  Every
  request and answer is kept in a log.  Durations are nanoseconds of a signed 64-bit integer.
\<close>

section \<open>Rows\<close>

datatype AssetActionItemStatus =
    ActionItemUnresolved | ActionItemQueued | ActionItemDispatching | ActionItemRunning
  | ActionItemSucceeded | ActionItemFailed | ActionItemUnresponsiveAfterUpdate

fun terminal :: "AssetActionItemStatus \<Rightarrow> bool" where
  "terminal ActionItemUnresolved = True"
| "terminal ActionItemSucceeded = True"
| "terminal ActionItemFailed = True"
| "terminal ActionItemUnresponsiveAfterUpdate = True"
| "terminal _ = False"

record AssetActionBatch =
  ab_TenantID :: string
  ab_ActionType :: string
  ab_ActionParams :: raw
  ab_Requested :: "string list"
  ab_RolloutBatchSize :: int
  ab_RolloutGate :: string
  ab_CreatedAt :: int

record AssetActionItem =
  ai_TenantID :: string
  ai_Position :: nat
  ai_SproutID :: string
  ai_JID :: string
  ai_Status :: AssetActionItemStatus
  ai_ErrorCode :: string
  ai_ExitCode :: "int option"
  ai_Attempts :: int

type_synonym item_key = "string \<times> string"

datatype dispatch_outcome = NoResponders | NoReply | GotReply raw

datatype bus_entry = SentItem item_key SproutActionRequest | AnswerItem item_key dispatch_outcome

record saas_actions = saas_assets +
  ss_batches :: "(string, AssetActionBatch) table"
  ss_items :: "(item_key, AssetActionItem) table"
  ss_log :: "bus_entry list"
  ss_inflight :: "item_key list"

section \<open>Codes\<close>

definition errCodeSproutNotAccepted :: string where "errCodeSproutNotAccepted = ''sprout_not_accepted''"
definition errCodeCommandFailed :: string where "errCodeCommandFailed = ''command_failed''"
definition errCodeJobFailed :: string where "errCodeJobFailed = ''job_failed''"
definition errCodeDispatchOutcomeUnknown :: string where "errCodeDispatchOutcomeUnknown = ''dispatch_outcome_unknown''"
definition errCodeRolloutHalted :: string where "errCodeRolloutHalted = ''rollout_halted''"
definition errCodeRolloutWindowClosed :: string where "errCodeRolloutWindowClosed = ''rollout_window_closed''"
definition errCodeApprovalWithdrawn :: string where "errCodeApprovalWithdrawn = ''version_approval_withdrawn''"
definition errCodeUpdateInProgress :: string where "errCodeUpdateInProgress = ''update_already_in_progress''"
definition errCodeUnresponsiveAfterUpdate :: string where "errCodeUnresponsiveAfterUpdate = ''unresponsive_after_update''"

lemmas item_codes = errCodeSproutNotAccepted_def errCodeCommandFailed_def errCodeJobFailed_def errCodeDispatchOutcomeUnknown_def
  errCodeRolloutHalted_def errCodeRolloutWindowClosed_def errCodeApprovalWithdrawn_def errCodeUpdateInProgress_def
  errCodeUnresponsiveAfterUpdate_def

definition actionErrorMessages :: "(string \<times> string) list" where
  "actionErrorMessages =
     [(ErrorInvalidRequest, PublicErrorMessage ErrorInvalidRequest),
      (ErrorUnsupportedAction, PublicErrorMessage ErrorUnsupportedAction),
      (ErrorSproutNotFound, PublicErrorMessage ErrorSproutNotFound),
      (ErrorSproutUnreachable, PublicErrorMessage ErrorSproutUnreachable),
      (ErrorInternal, ''an internal error occurred while running the action; contact support''),
      (errCodeSproutNotAccepted, ''the sprout's key is not accepted, so the action was not sent''),
      (errCodeCommandFailed, ''the command exited with a non-zero status''),
      (errCodeJobFailed, ''the job finished unsuccessfully''),
      (errCodeDispatchOutcomeUnknown, ''no reply was received for the action; it may or may not have run''),
      (errCodeRolloutHalted, ''an earlier wave of this rollout did not fully succeed, so the update was not sent to this sprout''),
      (errCodeRolloutWindowClosed, ''the tenant's rollout window closed before the update was sent to this sprout''),
      (errCodeApprovalWithdrawn, ''the tenant's approved version changed before the update was sent to this sprout''),
      (errCodeUpdateInProgress, ''the sprout already has an update in progress, so this update was not sent''),
      (errCodeUnresponsiveAfterUpdate,
       ''the sprout did not report the update's outcome in time; it may be unreachable, or may have restored its previous version'')]"

definition actionErrorMessage :: "string \<Rightarrow> string" where
  "actionErrorMessage code =
     (case map_of actionErrorMessages code of Some msg \<Rightarrow> msg | None \<Rightarrow> the (map_of actionErrorMessages ErrorInternal))"

definition farmerErrorCode :: "string \<Rightarrow> string" where
  "farmerErrorCode code =
     (if code \<in> {ErrorInvalidRequest, ErrorUnsupportedAction, ErrorSproutNotFound, ErrorSproutUnreachable} then code else ErrorInternal)"

section \<open>Validation and translation\<close>

definition second :: int where "second = 1000000000"
definition maxCmdLen :: nat where "maxCmdLen = 4096"
definition maxCmdArgs :: nat where "maxCmdArgs = 256"
definition maxRecipeLen :: nat where "maxRecipeLen = 255"
definition maxActionBatchIDLen :: nat where "maxActionBatchIDLen = 32"
definition defaultCmdTimeout :: int where "defaultCmdTimeout = 60 * second"
definition maxCmdTimeout :: int where "maxCmdTimeout = 600 * second"
definition farmerSproutWait :: int where "farmerSproutWait = 15 * second"
definition dispatchReplyMargin :: int where "dispatchReplyMargin = 30 * second"

text \<open>Signed 64-bit arithmetic wraps around.\<close>

definition wrap64 :: "int \<Rightarrow> int" where
  "wrap64 n = (n + 2 ^ 63) mod 2 ^ 64 - 2 ^ 63"

definition tenantActive :: "'m saas_scheme \<Rightarrow> string \<Rightarrow> 'a response option" where
  "tenantActive st tid =
     (case tbl_first (ss_tenants st) tid of
        NotFound \<Rightarrow> Some (writeError 404 ''tenant_not_found'' ''no such tenant'')
      | DbErr \<Rightarrow> Some (writeError 500 ''internal_error'' ''failed to look up tenant'')
      | Found t \<Rightarrow>
          if te_Status t \<noteq> TenantStatusActive then Some (writeError 409 ''tenant_not_active'' ''the tenant is not active'') else None)"

fun parse_action_ids :: "string list \<Rightarrow> string list \<Rightarrow> 'a response + string list" where
  "parse_action_ids [] ids = (if ids = [] then Inl (writeError 400 ''invalid_request'' ''asset_ids is required'') else Inr ids)"
| "parse_action_ids (p # ps) ids =
     (let i = TrimSpace p in
      if i = [] then Inl (writeError 400 ''invalid_request'' ''asset_ids must not contain empty values'')
      else if length i > maxAssetIDLen then Inl (writeError 400 ''invalid_request'' ''asset_id is too long'')
      else parse_action_ids ps (if i \<in> set ids then ids else ids @ [i]))"

definition parseActionAssetIDs :: "string list \<Rightarrow> 'a response + string list" where
  "parseActionAssetIDs raw =
     (if length raw > maxAssetIDsPerLookup
      then Inl (writeErrorDetails 400 ''too_many_asset_ids'' ''at most 100 asset_ids per request'' [(''max'', VNum 100)])
      else parse_action_ids raw [])"

record cmdRunInput =
  ci_Cmd :: string
  ci_Args :: "string list option"
  ci_CWD :: string
  ci_RunAs :: string
  ci_TimeoutSeconds :: int

record cookInput =
  ki_Recipe :: string
  ki_Test :: bool

record farmerCmdRun =
  fr_Command :: string
  fr_Args :: "string list"
  fr_CWD :: string
  fr_RunAs :: string
  fr_Timeout :: int

record farmerCook =
  fc_Recipe :: string
  fc_Test :: bool

definition shellSyntax :: string where
  "shellSyntax = [CHR 0x22, CHR 0x27, CHR 0x5C, CHR 0x60] @ ''$|&;<>(){}*?[]~'' @ [CHR 0x0A, CHR 0x0D]"

text \<open>\<open>strings.Fields\<close>: the maximal runs of other characters than spaces.\<close>

function Fields :: "string \<Rightarrow> string list" where
  "Fields s =
     (let r = dropWhile is_space s in
      if r = [] then [] else takeWhile (\<lambda>c. \<not> is_space c) r # Fields (dropWhile (\<lambda>c. \<not> is_space c) r))"
  by pat_completeness auto
termination Fields
proof (relation "measure length")
  fix s r :: string assume r: "r = dropWhile is_space s" "r \<noteq> []"
  have "\<not> is_space (hd r)" using r hd_dropWhile by metis
  then have "length (dropWhile (\<lambda>c. \<not> is_space c) r) \<le> length (tl r)" using r(2)
    by (cases r) (auto simp: length_dropWhile_le)
  also have "\<dots> < length r" using r(2) by simp
  also have "\<dots> \<le> length s" unfolding r(1) by (rule length_dropWhile_le)
  finally show "(dropWhile (\<lambda>c. \<not> is_space c) r, s) \<in> measure length" by simp
qed simp

declare Fields.simps [simp del]

text \<open>A validation message, or the params for the farmer.\<close>

definition translateCmdRun :: "cmdRunInput \<Rightarrow> string + farmerCmdRun" where
  "translateCmdRun p =
     (let cmd = TrimSpace (ci_Cmd p);
          args = (case ci_Args p of None \<Rightarrow> [] | Some xs \<Rightarrow> xs);
          timeout = wrap64 (ci_TimeoutSeconds p * second) in
      if cmd = [] then Inl ''cmd.run requires cmd''
      else if length (ci_Cmd p) > maxCmdLen then Inl ''cmd is too long''
      else if CHR 0x00 \<in> set (ci_Cmd p) then Inl ''cmd must not contain NUL bytes''
      else if length args > maxCmdArgs then Inl ''too many args''
      else if ci_TimeoutSeconds p < 0 \<or> timeout > maxCmdTimeout then Inl ''timeout_seconds must be between 1 and 600''
      else if ci_Args p = None \<and> ContainsAny cmd shellSyntax
      then Inl ''cmd is not run through a shell: quoting, escapes and shell operators aren't supported; pass the executable in cmd and each argument in args''
      else if ci_Args p \<noteq> None \<and> list_ex (\<lambda>a. length a > maxCmdLen \<or> CHR 0x00 \<in> set a) args
      then Inl ''each arg must be at most 4096 bytes and contain no NUL bytes''
      else if length (ci_CWD p) > maxCmdLen \<or> length (ci_RunAs p) > maxRecipeLen then Inl ''cwd or run_as is too long''
      else Inr \<lparr>fr_Command = (if ci_Args p = None then hd (Fields cmd) else cmd),
                fr_Args = (if ci_Args p = None then tl (Fields cmd) else args),
                fr_CWD = ci_CWD p, fr_RunAs = ci_RunAs p,
                fr_Timeout = (if ci_TimeoutSeconds p > 0 then timeout else defaultCmdTimeout)\<rparr>)"

definition translateCook :: "cookInput \<Rightarrow> string + farmerCook" where
  "translateCook p =
     (let recipe = TrimSpace (ki_Recipe p) in
      if recipe = [] then Inl ''cook requires recipe''
      else if length recipe > maxRecipeLen then Inl ''recipe is too long''
      else if ContainsAny recipe [CHR '' '', CHR 0x09, CHR 0x0D, CHR 0x0A, CHR 0x00]
      then Inl ''recipe must not contain whitespace or NUL bytes''
      else Inr \<lparr>fc_Recipe = recipe, fc_Test = ki_Test p\<rparr>)"

text \<open>Strict decoding: an object with no other fields than the struct's.\<close>

definition unknown_field :: "string list \<Rightarrow> (string \<times> val) list \<Rightarrow> bool" where
  "unknown_field names kvs = list_ex (\<lambda>(k, _). ToLower k \<notin> set names) kvs"

definition dec_strs_opt :: "string list option dec" where
  "dec_strs_opt v a = (case v of
       VList vs \<Rightarrow> (Some (map (\<lambda>x. fst (dec_str x [])) vs), list_ex (\<lambda>x. snd (dec_str x [])) vs)
     | VNull \<Rightarrow> (None, False) | _ \<Rightarrow> (a, True))"

definition strict_fields :: "string list \<Rightarrow> raw \<Rightarrow> (string \<times> val) list \<times> bool" where
  "strict_fields names params = (let (kvs, e) = raw_fields params in (kvs, e \<or> unknown_field names kvs))"

text \<open>\<open>decodeParams\<close> refuses missing and null params.\<close>

definition decodeParams :: "string list \<Rightarrow> raw \<Rightarrow> (string \<times> val) list \<times> bool" where
  "decodeParams names params = (if params = RawEmpty \<or> params = RawDoc VNull then ([], True) else strict_fields names params)"

definition decode_cmdRunInput :: "raw \<Rightarrow> cmdRunInput \<times> bool" where
  "decode_cmdRunInput params =
     (let (kvs, e0) = decodeParams [''cmd'', ''args'', ''cwd'', ''run_as'', ''timeout_seconds''] params;
          (cmd, e1) = dec_field dec_str ''cmd'' kvs []; (args, e2) = dec_field dec_strs_opt ''args'' kvs None;
          (cwd, e3) = dec_field dec_str ''cwd'' kvs []; (runas, e4) = dec_field dec_str ''run_as'' kvs [];
          (timeout, e5) = dec_field dec_int ''timeout_seconds'' kvs 0
      in (\<lparr>ci_Cmd = cmd, ci_Args = args, ci_CWD = cwd, ci_RunAs = runas, ci_TimeoutSeconds = timeout\<rparr>, e0 \<or> e1 \<or> e2 \<or> e3 \<or> e4 \<or> e5))"

definition decode_cookInput :: "raw \<Rightarrow> cookInput \<times> bool" where
  "decode_cookInput params =
     (let (kvs, e0) = decodeParams [''recipe'', ''test''] params;
          (recipe, e1) = dec_field dec_str ''recipe'' kvs []; (test, e2) = dec_field dec_bool ''test'' kvs False
      in (\<lparr>ki_Recipe = recipe, ki_Test = test\<rparr>, e0 \<or> e1 \<or> e2))"

definition encode_farmerCmdRun :: "farmerCmdRun \<Rightarrow> val" where
  "encode_farmerCmdRun c =
     VMap ([(''command'', VStr (fr_Command c))] @
       (if fr_Args c = [] then [] else [(''args'', VList (map VStr (fr_Args c)))]) @
       (if fr_CWD c = [] then [] else [(''cwd'', VStr (fr_CWD c))]) @
       (if fr_RunAs c = [] then [] else [(''runas'', VStr (fr_RunAs c))]) @
       [(''timeout'', VNum (fr_Timeout c))])"

definition encode_farmerCook :: "farmerCook \<Rightarrow> val" where
  "encode_farmerCook c = VMap ([(''recipe'', VStr (fc_Recipe c))] @ (if fc_Test c then [(''test'', VBool True)] else []))"

definition invalid :: "string \<Rightarrow> 'a response + 'b" where
  "invalid msg = Inl (writeError 400 ''invalid_request'' msg)"

definition translateAction :: "SproutAction \<Rightarrow> 'a response + SproutAction" where
  "translateAction inp =
     (if sa_Type inp = ActionCmdRun then
        (let (p, err) = decode_cmdRunInput (sa_Params inp) in
         if err then invalid ''cmd.run params must be an object with cmd and optionally args, cwd, run_as, timeout_seconds''
         else case translateCmdRun p of
                Inl msg \<Rightarrow> invalid msg
              | Inr out \<Rightarrow> Inr \<lparr>sa_Type = sa_Type inp, sa_Params = RawDoc (encode_farmerCmdRun out)\<rparr>)
      else if sa_Type inp = ActionCookSprout then
        (let (p, err) = decode_cookInput (sa_Params inp) in
         if err then invalid ''cook params must be an object with recipe and optionally test''
         else case translateCook p of
                Inl msg \<Rightarrow> invalid msg
              | Inr out \<Rightarrow> Inr \<lparr>sa_Type = sa_Type inp, sa_Params = RawDoc (encode_farmerCook out)\<rparr>)
      else if sa_Type inp = [] then invalid ''action.type is required''
      else Inl (writeError 400 ''unsupported_action'' ''action.type must be cmd.run or cook''))"


section \<open>Creating a batch\<close>

definition new_item :: "(string \<rightharpoonup> sproutByAssetItem) \<Rightarrow> (string \<rightharpoonup> string) \<Rightarrow> string \<Rightarrow> nat \<Rightarrow> string \<Rightarrow> AssetActionItem" where
  "new_item rows blocked tid pos asset =
     (let item = \<lparr>ai_TenantID = tid, ai_Position = pos, ai_SproutID = [], ai_JID = [], ai_Status = ActionItemUnresolved, ai_ErrorCode = [],
            ai_ExitCode = None, ai_Attempts = 0\<rparr> in
      case rows asset of
        None \<Rightarrow> item
      | Some row \<Rightarrow>
          let item = item\<lparr>ai_SproutID := sb_SproutID row\<rparr> in
          if sb_KeyState row \<noteq> keyStateAccepted then item\<lparr>ai_Status := ActionItemFailed, ai_ErrorCode := errCodeSproutNotAccepted\<rparr>
          else (case blocked (sb_SproutID row) of
                  Some code \<Rightarrow> if code \<noteq> [] then item\<lparr>ai_Status := ActionItemFailed, ai_ErrorCode := code\<rparr>
                               else item\<lparr>ai_Status := ActionItemQueued\<rparr>
                | None \<Rightarrow> item\<lparr>ai_Status := ActionItemQueued\<rparr>))"

fun create_items :: "(item_key, AssetActionItem) table \<Rightarrow> (item_key \<times> AssetActionItem) list \<Rightarrow> (item_key, AssetActionItem) table option" where
  "create_items t [] = Some t"
| "create_items t ((k, item) # rest) = (case tbl_create t k item of None \<Rightarrow> None | Some t' \<Rightarrow> create_items t' rest)"

definition batch_items ::
  "string \<Rightarrow> string \<Rightarrow> string list \<Rightarrow> (string \<rightharpoonup> sproutByAssetItem) \<Rightarrow> (string \<rightharpoonup> string) \<Rightarrow> (item_key \<times> AssetActionItem) list" where
  "batch_items b tid assets rows blocked =
     map (\<lambda>(pos, asset). ((b, asset), new_item rows blocked tid pos asset)) (zip [0..<length assets] assets)"

text \<open>The batch and the items to dispatch; both tables are written or none.\<close>

definition createBatch ::
  "string option \<Rightarrow> AssetActionBatch \<Rightarrow> string list \<Rightarrow> sproutByAssetItem list \<Rightarrow> (string \<rightharpoonup> string) \<Rightarrow> 'm saas_actions_scheme \<Rightarrow>
   ('m saas_actions_scheme \<times> string \<times> (item_key \<times> AssetActionItem) list) option" where
  "createBatch rand batch assets resolved blocked st =
     (case newID ''b_'' rand of
        None \<Rightarrow> None
      | Some b \<Rightarrow>
          let items = batch_items b (ab_TenantID batch) assets (byAsset resolved) blocked in
          (case tbl_create (ss_batches st) b (batch\<lparr>ab_Requested := assets\<rparr>) of
             None \<Rightarrow> None
           | Some batches \<Rightarrow>
               (case create_items (ss_items st) items of
                  None \<Rightarrow> None
                | Some rows \<Rightarrow>
                    Some (st\<lparr>ss_batches := batches, ss_items := rows\<rparr>, b,
                          filter (\<lambda>(_, i). ai_Status i = ActionItemQueued) items))))"

definition createActionBatch ::
  "int \<Rightarrow> string option \<Rightarrow> string \<Rightarrow> string list \<Rightarrow> SproutAction \<Rightarrow> sproutByAssetItem list \<Rightarrow> 'm saas_actions_scheme \<Rightarrow>
   ('m saas_actions_scheme \<times> string \<times> (item_key \<times> AssetActionItem) list) option" where
  "createActionBatch now rand tid assets action resolved =
     createBatch rand \<lparr>ab_TenantID = tid, ab_ActionType = sa_Type action, ab_ActionParams = sa_Params action, ab_Requested = [],
       ab_RolloutBatchSize = 0, ab_RolloutGate = [], ab_CreatedAt = now\<rparr> assets resolved Map.empty"

definition decode_sproutActionRequest :: "raw \<Rightarrow> (string list \<times> SproutAction) \<times> bool" where
  "decode_sproutActionRequest body =
     (let (kvs, e0) = strict_fields [''asset_ids'', ''action''] body;
          (ids, e1) = dec_field dec_strs ''asset_ids'' kvs [];
          (av, e2) = dec_field dec_any ''action'' kvs VNull;
          (action, e3) = dec_field dec_action ''action'' kvs \<lparr>sa_Type = [], sa_Params = RawEmpty\<rparr>
      in ((ids, action), e0 \<or> e1 \<or> e2 \<or> e3 \<or> snd (strict_fields [''type'', ''params''] (RawDoc av))))"

text \<open>
  The response, and the batch with the items handed to \<open>startBatchDispatch\<close>.  A body longer than
  \<open>maxActionRequestBytes\<close> fails to decode like a malformed one, with the same answer: both are
  \<^term>\<open>RawBad\<close>.
\<close>

definition CreateSproutActionBatch ::
  "int \<Rightarrow> nkey_db \<Rightarrow> string option \<Rightarrow> raw \<Rightarrow> string \<Rightarrow> 'm saas_actions_scheme \<Rightarrow>
   'm saas_actions_scheme \<times> string response \<times> (item_key \<times> AssetActionItem) list" where
  "CreateSproutActionBatch now nkeys rand body tid st =
     (case tenantActive st tid of
        Some r \<Rightarrow> (st, r, [])
      | None \<Rightarrow>
          let ((ids, inp), err) = decode_sproutActionRequest body in
          if err then (st, writeError 400 ''invalid_request'' ''request body must be valid JSON with asset_ids and action'', [])
          else (case parseActionAssetIDs ids of
                  Inl r \<Rightarrow> (st, r, [])
                | Inr assets \<Rightarrow>
                    (case translateAction inp of
                       Inl r \<Rightarrow> (st, r, [])
                     | Inr action \<Rightarrow>
                         (case resolveAssetIDs nkeys tid assets st of
                            None \<Rightarrow> (st, writeError 500 ''internal_error'' ''failed to resolve asset ids'', [])
                          | Some rows \<Rightarrow>
                              (case createActionBatch now rand tid assets action rows st of
                                 None \<Rightarrow> (st, writeError 500 ''internal_error'' ''failed to create action batch'', [])
                               | Some (st', b, queued) \<Rightarrow> (st', writeJSON 202 b, queued))))))"

section \<open>Dispatch\<close>

record itemUpdate =
  iu_Status :: AssetActionItemStatus
  iu_ErrorCode :: "string option"
  iu_ExitCode :: "int option"
  iu_JID :: "string option"

definition set_status :: "AssetActionItemStatus \<Rightarrow> itemUpdate" where
  "set_status s = \<lparr>iu_Status = s, iu_ErrorCode = None, iu_ExitCode = None, iu_JID = None\<rparr>"

definition failedUpdate :: "string \<Rightarrow> itemUpdate" where
  "failedUpdate code = (set_status ActionItemFailed)\<lparr>iu_ErrorCode := Some code\<rparr>"

definition apply_itemUpdate :: "itemUpdate \<Rightarrow> AssetActionItem \<Rightarrow> AssetActionItem" where
  "apply_itemUpdate u i =
     i\<lparr>ai_Status := iu_Status u,
       ai_ErrorCode := case iu_ErrorCode u of None \<Rightarrow> ai_ErrorCode i | Some c \<Rightarrow> c,
       ai_ExitCode := case iu_ExitCode u of None \<Rightarrow> ai_ExitCode i | Some c \<Rightarrow> Some c,
       ai_JID := case iu_JID u of None \<Rightarrow> ai_JID i | Some j \<Rightarrow> j\<rparr>"

text \<open>\<open>itemScope\<close>: the full key, the tenant, and the status the update expects to find.\<close>

definition itemScope :: "item_key \<Rightarrow> string \<Rightarrow> AssetActionItemStatus \<Rightarrow> item_key \<Rightarrow> AssetActionItem \<Rightarrow> bool" where
  "itemScope k tid from k' i = (k' = k \<and> ai_TenantID i = tid \<and> ai_Status i = from)"

definition updateItem ::
  "item_key \<Rightarrow> string \<Rightarrow> AssetActionItemStatus \<Rightarrow> (AssetActionItem \<Rightarrow> AssetActionItem) \<Rightarrow> 'm saas_actions_scheme \<Rightarrow>
   'm saas_actions_scheme \<times> bool" where
  "updateItem k tid from upd st =
     (st\<lparr>ss_items := tbl_update_where (ss_items st) (itemScope k tid from) upd\<rparr>,
      tbl_up (ss_items st) \<and> tbl_affects (ss_items st) (itemScope k tid from))"

definition dispatchReplyTimeout :: "string \<Rightarrow> raw \<Rightarrow> int" where
  "dispatchReplyTimeout ty params =
     (let wait = farmerSproutWait + dispatchReplyMargin; (t, e) = raw_int params ''timeout'' in
      if ty = ActionCmdRun then wait + (if \<not> e \<and> 0 < t \<and> t \<le> maxCmdTimeout then t else maxCmdTimeout) else wait)"

definition item_request :: "AssetActionBatch \<Rightarrow> AssetActionItem \<Rightarrow> SproutActionRequest" where
  "item_request batch item =
     \<lparr>sar_TenantID = ab_TenantID batch, sar_SproutID = ai_SproutID item,
      sar_Action = \<lparr>sa_Type = ab_ActionType batch, sa_Params = ab_ActionParams batch\<rparr>\<rparr>"

definition claimed :: "AssetActionItem \<Rightarrow> AssetActionItem" where
  "claimed i = i\<lparr>ai_Status := ActionItemDispatching, ai_Attempts := ai_Attempts i + 1\<rparr>"

text \<open>
  The first half of \<open>dispatchItem\<close>: claim the item, then send the request.  The item is the
  copy the dispatcher was given, the batch its own.
\<close>

definition dispatch_claim :: "AssetActionBatch \<Rightarrow> item_key \<times> AssetActionItem \<Rightarrow> 'm saas_actions_scheme \<Rightarrow> 'm saas_actions_scheme \<times> bool" where
  "dispatch_claim batch ki st =
     (let (k, item) = ki; (st1, ok) = updateItem k (ai_TenantID item) ActionItemQueued claimed st in
      if ok then (st1\<lparr>ss_log := ss_log st1 @ [SentItem k (item_request batch item)], ss_inflight := k # ss_inflight st1\<rparr>, True)
      else (st1, False))"

definition jobTracked :: "string \<Rightarrow> bool" where
  "jobTracked ty = (ty = ActionCookSprout \<or> ty = ActionSelfUpdate)"

definition dec_result :: "CmdRunResult option dec" where
  "dec_result v a =
     (case v of
        VMap kvs \<Rightarrow>
          (let z = (case a of None \<Rightarrow> \<lparr>crr_Stdout = [], crr_Stderr = [], crr_ExitCode = 0, crr_Duration = 0\<rparr> | Some r \<Rightarrow> r);
               (out, e1) = dec_field dec_str ''stdout'' kvs (crr_Stdout z); (er, e2) = dec_field dec_str ''stderr'' kvs (crr_Stderr z);
               (code, e3) = dec_field dec_int ''exit_code'' kvs (crr_ExitCode z); (dur, e4) = dec_field dec_int ''duration'' kvs (crr_Duration z)
           in (Some \<lparr>crr_Stdout = out, crr_Stderr = er, crr_ExitCode = code, crr_Duration = dur\<rparr>, e1 \<or> e2 \<or> e3 \<or> e4))
      | VNull \<Rightarrow> (None, False)
      | _ \<Rightarrow> (a, True))"

definition decode_reply :: "raw \<Rightarrow> SproutActionReply \<times> bool" where
  "decode_reply data =
     (let (kvs, e0) = raw_fields data; (tid, e1) = dec_field dec_str ''tenant_id'' kvs []; (sid, e2) = dec_field dec_str ''sprout_id'' kvs [];
          (s, e3) = dec_field dec_str ''status'' kvs []; (jid, e4) = dec_field dec_str ''jid'' kvs [];
          (res, e5) = dec_field dec_result ''result'' kvs None; (code, e6) = dec_field dec_str ''error_code'' kvs []
      in (\<lparr>rep_TenantID = tid, rep_SproutID = sid, rep_Status = s, rep_JID = jid, rep_Result = res, rep_ErrorCode = code\<rparr>,
          e0 \<or> e1 \<or> e2 \<or> e3 \<or> e4 \<or> e5 \<or> e6))"

definition replyUpdate :: "AssetActionBatch \<Rightarrow> AssetActionItem \<Rightarrow> raw \<Rightarrow> itemUpdate" where
  "replyUpdate batch item data =
     (let (reply, err) = decode_reply data in
      if err then failedUpdate errCodeDispatchOutcomeUnknown
      else if rep_TenantID reply \<noteq> ab_TenantID batch \<or> rep_SproutID reply \<noteq> ai_SproutID item
      then failedUpdate errCodeDispatchOutcomeUnknown
      else if rep_Status reply = StatusFailed then failedUpdate (farmerErrorCode (rep_ErrorCode reply))
      else case (if rep_Status reply = StatusCompleted \<and> ab_ActionType batch = ActionCmdRun then rep_Result reply else None) of
             Some res \<Rightarrow>
               if crr_ExitCode res = 0 then (set_status ActionItemSucceeded)\<lparr>iu_ExitCode := Some 0\<rparr>
               else (failedUpdate errCodeCommandFailed)\<lparr>iu_ExitCode := Some (crr_ExitCode res)\<rparr>
           | None \<Rightarrow>
               if rep_Status reply = StatusDispatched \<and> jobTracked (ab_ActionType batch) \<and> ValidJobID (rep_JID reply)
               then (set_status ActionItemRunning)\<lparr>iu_JID := Some (rep_JID reply)\<rparr>
               else failedUpdate ErrorInternal)"

fun outcome_update :: "AssetActionBatch \<Rightarrow> AssetActionItem \<Rightarrow> dispatch_outcome \<Rightarrow> itemUpdate" where
  "outcome_update batch item NoResponders = set_status ActionItemQueued"
| "outcome_update batch item NoReply = failedUpdate errCodeDispatchOutcomeUnknown"
| "outcome_update batch item (GotReply data) = replyUpdate batch item data"

text \<open>The second half: the answer arrives and is recorded.\<close>

definition dispatch_record ::
  "AssetActionBatch \<Rightarrow> item_key \<times> AssetActionItem \<Rightarrow> dispatch_outcome \<Rightarrow> 'm saas_actions_scheme \<Rightarrow> 'm saas_actions_scheme" where
  "dispatch_record batch ki res st =
     (let (k, item) = ki;
          st1 = st\<lparr>ss_log := ss_log st @ [AnswerItem k res], ss_inflight := remove1 k (ss_inflight st)\<rparr>
      in fst (updateItem k (ai_TenantID item) ActionItemDispatching (apply_itemUpdate (outcome_update batch item res)) st1))"

text \<open>\<open>dispatchItem\<close> with nothing in between, and \<open>dispatchBatch\<close> over the answers the bus gives.\<close>

definition dispatchItem ::
  "(SproutActionRequest \<Rightarrow> dispatch_outcome) \<Rightarrow> AssetActionBatch \<Rightarrow> item_key \<times> AssetActionItem \<Rightarrow> 'm saas_actions_scheme \<Rightarrow> 'm saas_actions_scheme" where
  "dispatchItem bus batch ki st =
     (let (st1, ok) = dispatch_claim batch ki st in
      if ok then dispatch_record batch ki (bus (item_request batch (snd ki))) st1 else st1)"

definition dispatchBatch ::
  "(SproutActionRequest \<Rightarrow> dispatch_outcome) option \<Rightarrow> AssetActionBatch \<Rightarrow> (item_key \<times> AssetActionItem) list \<Rightarrow>
   'm saas_actions_scheme \<Rightarrow> 'm saas_actions_scheme" where
  "dispatchBatch nc batch items st = (case nc of None \<Rightarrow> st | Some bus \<Rightarrow> foldl (\<lambda>st ki. dispatchItem bus batch ki st) st items)"

section \<open>Following jobs\<close>

type_synonym JobRef = "string \<times> string"

datatype JobOutcome = JobOutcomeRunning | JobOutcomeSucceeded | JobOutcomeFailed

type_synonym job_reader = "string \<Rightarrow> JobRef list \<Rightarrow> (JobRef \<rightharpoonup> JobOutcome) option"

definition job_outcome :: "string \<Rightarrow> JobOutcome" where
  "job_outcome s = (if s = ''succeeded'' then JobOutcomeSucceeded else if s = ''failed'' then JobOutcomeFailed else JobOutcomeRunning)"

text \<open>The production reader, over the farmer's index.\<close>

definition JobOutcomes :: "index_db option \<Rightarrow> job_reader" where
  "JobOutcomes d tid jobs =
     (case d of
        None \<Rightarrow> None
      | Some idx \<Rightarrow>
          if jobs = [] then Some Map.empty
          else if \<not> tbl_up idx then None
          else Some (map_of (map (\<lambda>((t, r), row). (r, job_outcome (jr_Status row))) (tbl_find idx (\<lambda>(t, r) _. t = tid \<and> r \<in> set jobs)))))"

definition job_refs :: "(item_key \<times> AssetActionItem) list \<Rightarrow> JobRef list" where
  "job_refs items = map (\<lambda>(_, i). (ai_SproutID i, ai_JID i)) (filter (\<lambda>(_, i). ai_Status i = ActionItemRunning \<and> ai_JID i \<noteq> []) items)"

definition refresh_update :: "(JobRef \<rightharpoonup> JobOutcome) \<Rightarrow> AssetActionItem \<Rightarrow> itemUpdate option" where
  "refresh_update outcomes i =
     (if ai_Status i \<noteq> ActionItemRunning \<or> ai_JID i = [] then None
      else case outcomes (ai_SproutID i, ai_JID i) of
             Some JobOutcomeSucceeded \<Rightarrow> Some (set_status ActionItemSucceeded)
           | Some JobOutcomeFailed \<Rightarrow> Some (failedUpdate errCodeJobFailed)
           | _ \<Rightarrow> None)"

text \<open>An item whose row cannot be written keeps its status; one whose row moved on is shown as the reader has it.\<close>

fun refresh_rows ::
  "(JobRef \<rightharpoonup> JobOutcome) \<Rightarrow> (item_key \<times> AssetActionItem) list \<Rightarrow> 'm saas_actions_scheme \<Rightarrow>
   'm saas_actions_scheme \<times> (item_key \<times> AssetActionItem) list" where
  "refresh_rows outcomes [] st = (st, [])"
| "refresh_rows outcomes ((k, i) # rest) st =
     (let (st1, i1) = (case refresh_update outcomes i of
            None \<Rightarrow> (st, i)
          | Some u \<Rightarrow> (fst (updateItem k (ai_TenantID i) ActionItemRunning (apply_itemUpdate u) st),
                       if tbl_up (ss_items st) then apply_itemUpdate u i else i));
          (st2, rest') = refresh_rows outcomes rest st1
      in (st2, (k, i1) # rest'))"

definition refreshItems ::
  "job_reader option \<Rightarrow> string \<Rightarrow> (item_key \<times> AssetActionItem) list \<Rightarrow> 'm saas_actions_scheme \<Rightarrow>
   'm saas_actions_scheme \<times> (item_key \<times> AssetActionItem) list" where
  "refreshItems reader tid items st =
     (case reader of
        None \<Rightarrow> (st, items)
      | Some r \<Rightarrow>
          if job_refs items = [] then (st, items)
          else (case r tid (job_refs items) of None \<Rightarrow> (st, items) | Some outcomes \<Rightarrow> refresh_rows outcomes items st))"

section \<open>The status of a batch\<close>

record rolloutResponse =
  ro_TargetVersion :: string
  ro_BatchSize :: int
  ro_Gate :: string

record actionItemResponse =
  ir_AssetID :: string
  ir_SproutID :: string
  ir_Status :: AssetActionItemStatus
  ir_JID :: string
  ir_ExitCode :: "int option"
  ir_Error :: string
  ir_Message :: string

record actionBatchResponse =
  br_BatchID :: string
  br_Status :: string
  br_ActionType :: string
  br_CreatedAt :: int
  br_Rollout :: "rolloutResponse option"
  br_Items :: "actionItemResponse list"

definition actionBatchInProgress :: string where "actionBatchInProgress = ''in_progress''"
definition actionBatchCompleted :: string where "actionBatchCompleted = ''completed''"

definition rolloutOf :: "AssetActionBatch \<Rightarrow> rolloutResponse option" where
  "rolloutOf batch =
     (if ab_ActionType batch \<noteq> ActionSelfUpdate then None
      else Some \<lparr>ro_TargetVersion = su_Version (fst (decode_selfupdate (ab_ActionParams batch))), ro_BatchSize = ab_RolloutBatchSize batch,
                 ro_Gate = ab_RolloutGate batch\<rparr>)"

definition item_response :: "item_key \<times> AssetActionItem \<Rightarrow> actionItemResponse" where
  "item_response ki =
     (let (k, i) = ki in
      \<lparr>ir_AssetID = snd k, ir_SproutID = ai_SproutID i, ir_Status = ai_Status i, ir_JID = ai_JID i, ir_ExitCode = ai_ExitCode i,
       ir_Error = ai_ErrorCode i, ir_Message = if ai_ErrorCode i = [] then [] else actionErrorMessage (ai_ErrorCode i)\<rparr>)"

definition batch_rows :: "string \<Rightarrow> string \<Rightarrow> 'm saas_actions_scheme \<Rightarrow> (item_key \<times> AssetActionItem) list" where
  "batch_rows b tid st =
     sort_key (\<lambda>(_, i). ai_Position i) (tbl_find (ss_items st) (\<lambda>k i. fst k = b \<and> ai_TenantID i = tid))"

definition writeBatchStatus ::
  "job_reader option \<Rightarrow> string \<Rightarrow> string \<Rightarrow> string \<Rightarrow> 'm saas_actions_scheme \<Rightarrow> 'm saas_actions_scheme \<times> actionBatchResponse response" where
  "writeBatchStatus reader ty b tid st =
     (case tenantExists st tid of
        Some r \<Rightarrow> (st, r)
      | None \<Rightarrow>
          let missing = writeError 404 ''batch_not_found'' ''no such action batch'' in
          if b = [] \<or> length b > maxActionBatchIDLen then (st, missing)
          else (case tbl_first (ss_batches st) b of
                  DbErr \<Rightarrow> (st, writeError 500 ''internal_error'' ''failed to look up action batch'')
                | NotFound \<Rightarrow> (st, missing)
                | Found batch \<Rightarrow>
                    if ab_TenantID batch \<noteq> tid \<or> (ty \<noteq> [] \<and> ab_ActionType batch \<noteq> ty) then (st, missing)
                    else if \<not> tbl_up (ss_items st) then (st, writeError 500 ''internal_error'' ''failed to look up action batch items'')
                    else let (st', items) = refreshItems reader tid (batch_rows b tid st) st in
                      (st', writeJSON 200
                         \<lparr>br_BatchID = b,
                          br_Status = if list_all (\<lambda>(_, i). terminal (ai_Status i)) items then actionBatchCompleted else actionBatchInProgress,
                          br_ActionType = ab_ActionType batch, br_CreatedAt = ab_CreatedAt batch, br_Rollout = rolloutOf batch,
                          br_Items = map item_response items\<rparr>)))"

definition GetSproutActionBatch ::
  "job_reader option \<Rightarrow> string \<Rightarrow> string \<Rightarrow> 'm saas_actions_scheme \<Rightarrow> 'm saas_actions_scheme \<times> actionBatchResponse response" where
  "GetSproutActionBatch reader b tid st = writeBatchStatus reader [] b tid st"


section \<open>What the service sends, the farmer takes\<close>

lemma wrap64_small: "0 \<le> n \<Longrightarrow> n < 2 ^ 63 \<Longrightarrow> wrap64 n = n"
  by (simp add: wrap64_def)

lemma TrimSpace_Fields:
  assumes "TrimSpace s = t" "t \<noteq> []"
  shows "Fields t \<noteq> [] \<and> hd (Fields t) \<noteq> []"
proof -
  have "\<exists>x. t = rev (dropWhile is_space (rev x))" using assms(1) unfolding TrimSpace_def by blast
  have last: "\<not> is_space (last t)"
    using assms unfolding TrimSpace_def by (metis hd_dropWhile last_rev rev_is_Nil_conv)
  then have d: "dropWhile is_space t \<noteq> []" using assms(2) by (auto simp: dropWhile_eq_Nil_conv)
  have "takeWhile (\<lambda>c. \<not> is_space c) (dropWhile is_space t) \<noteq> []"
    using d hd_dropWhile[OF d] by (cases "dropWhile is_space t") auto
  then show ?thesis using d by (subst (1 2) Fields.simps) (simp add: Let_def)
qed

lemma translateCmdRun_ok:
  assumes "translateCmdRun p = Inr out"
  shows "fr_Command out \<noteq> [] \<and> 0 \<le> ci_TimeoutSeconds p \<and> fr_Timeout out \<le> maxCmdTimeout \<and>
    (ci_TimeoutSeconds p \<le> 9223372036 \<longrightarrow> 0 < fr_Timeout out \<and> ci_TimeoutSeconds p \<le> 600) \<and> - (2 ^ 63) \<le> fr_Timeout out"
proof -
  have g: "TrimSpace (ci_Cmd p) \<noteq> []" "0 \<le> ci_TimeoutSeconds p" "wrap64 (ci_TimeoutSeconds p * second) \<le> maxCmdTimeout"
    using assms by (auto simp: translateCmdRun_def Let_def split: if_splits)
  have cmd: "fr_Command out \<noteq> []"
    using assms g(1) TrimSpace_Fields[OF refl g(1)] by (auto simp: translateCmdRun_def Let_def split: if_splits)
  have t: "fr_Timeout out = (if ci_TimeoutSeconds p > 0 then wrap64 (ci_TimeoutSeconds p * second) else defaultCmdTimeout)"
    using assms by (auto simp: translateCmdRun_def Let_def split: if_splits)
  have "wrap64 (ci_TimeoutSeconds p * second) = ci_TimeoutSeconds p * second" if "ci_TimeoutSeconds p \<le> 9223372036"
    using that g(2) by (intro wrap64_small) (simp_all add: second_def)
  moreover have "- (2 ^ 63) \<le> wrap64 n" for n by (simp add: wrap64_def)
  ultimately show ?thesis using cmd g t by (auto simp: maxCmdTimeout_def second_def defaultCmdTimeout_def)
qed

lemma decode_translated_run:
  assumes "- (2 ^ 63) \<le> fr_Timeout c" "fr_Timeout c \<le> maxCmdTimeout"
  shows "\<exists>kvs. encode_farmerCmdRun c = VMap kvs \<and> decode_CmdRun kvs =
    (\<lparr>cr_Command = fr_Command c, cr_Args = fr_Args c, cr_Path = [], cr_CWD = fr_CWD c, cr_RunAs = fr_RunAs c, cr_Env = [],
      cr_Timeout = fr_Timeout c, cr_StreamTopic = []\<rparr>, False)"
proof -
  have strs: "dec_strs (VList (map VStr xs)) [] = (xs, False)" for xs
    by (auto simp: dec_strs_def dec_str_def comp_def list_ex_iff)
  have i: "dec_int (VNum (fr_Timeout c)) 0 = (fr_Timeout c, False)"
    using assms by (simp add: dec_int_def maxCmdTimeout_def second_def)
  show ?thesis unfolding encode_farmerCmdRun_def decode_CmdRun_def dec_field_def
    by (simp add: dec_str_def strs i ToLower_def lower_char_def)
qed

lemma decode_translated_cook:
  "\<exists>kvs. encode_farmerCook c = VMap kvs \<and> decode_CmdCook kvs =
    (\<lparr>cc_Async = False, cc_Env = [], cc_Recipe = fc_Recipe c, cc_State = [], cc_Test = fc_Test c, cc_Timeout = 0, cc_JID = []\<rparr>, False)"
  unfolding encode_farmerCook_def decode_CmdCook_def dec_field_def
  by (cases "fc_Test c") (simp_all add: dec_str_def dec_bool_def ToLower_def lower_char_def)

lemma translateAction_cases:
  assumes "translateAction inp = Inr action"
  obtains (run) p out where "sa_Type inp = ActionCmdRun" "decode_cmdRunInput (sa_Params inp) = (p, False)" "translateCmdRun p = Inr out"
      "action = \<lparr>sa_Type = ActionCmdRun, sa_Params = RawDoc (encode_farmerCmdRun out)\<rparr>"
  | (cook) p out where "sa_Type inp = ActionCookSprout" "translateCook p = Inr out"
      "action = \<lparr>sa_Type = ActionCookSprout, sa_Params = RawDoc (encode_farmerCook out)\<rparr>"
  using assms by (auto simp: translateAction_def invalid_def split: if_splits sum.splits prod.splits)

lemma cmd_reply_code:
  assumes "fresh_reply r" "raw_fields (sa_Params (sar_Action req)) = (kvs, False)" "decode_CmdRun kvs = (inp, False)"
    and "cr_Command inp \<noteq> []" "cr_StreamTopic inp = []" "0 \<le> cr_Timeout inp" "cr_Timeout inp \<le> maxSproutActionCmdTimeout"
  shows "rep_ErrorCode (snd (runSproutCmd env fm req r)) \<noteq> ErrorInvalidRequest"
  using assms by (auto simp: runSproutCmd_def fail_with_def fresh_reply_def codes split: prod.split sum.split api_result.split option.split frun_result.split)

lemma cook_reply_code:
  assumes "fresh_reply r" "raw_fields (sa_Params (sar_Action req)) = (kvs, False)" "decode_CmdCook kvs = (inp, False)" "cc_Recipe inp \<noteq> []"
  shows "rep_ErrorCode (snd (runSproutCook env fm req r)) \<noteq> ErrorInvalidRequest"
  using assms by (auto simp: runSproutCook_def Let_def fail_with_def fresh_reply_def codes split: prod.split sum.split api_result.split)

text \<open>
  The two halves of the validation agree: when the hosted service translates
  a caller's action (with a timeout whose nanoseconds fit the machine integer), the
  farmer takes what it is sent, a command or a cook, on any of the tenant's sprouts it
  acts on, and never answers that the request is invalid.
\<close>

theorem translated_action_accepted:
  assumes "translateAction inp = (Inr action :: 'a response + SproutAction)"
    and "\<And>p. decode_cmdRunInput (sa_Params inp) = (p, False) \<Longrightarrow> ci_TimeoutSeconds p \<le> 9223372036"
    and "sar_Action req = action" "verifySproutInTenant fm (sar_TenantID req) (sar_SproutID req) = None" "\<not> Contains (sar_SproutID req) ''_''"
  shows "rep_ErrorCode (snd (runSproutAction env fm req)) \<noteq> ErrorInvalidRequest"
  using assms(1)
proof (cases rule: translateAction_cases)
  case (run p out)
  note ok = translateCmdRun_ok[OF run(3)]
  have t: "0 < fr_Timeout out" "fr_Timeout out \<le> maxCmdTimeout" "- (2 ^ 63) \<le> fr_Timeout out" "fr_Command out \<noteq> []"
    using ok assms(2)[OF run(2)] by auto
  obtain kvs where k: "encode_farmerCmdRun out = VMap kvs" "decode_CmdRun kvs =
    (\<lparr>cr_Command = fr_Command out, cr_Args = fr_Args out, cr_Path = [], cr_CWD = fr_CWD out, cr_RunAs = fr_RunAs out, cr_Env = [],
      cr_Timeout = fr_Timeout out, cr_StreamTopic = []\<rparr>, False)" using decode_translated_run[OF t(3,2)] by blast
  have rf: "raw_fields (sa_Params (sar_Action req)) = (kvs, False)" by (simp add: assms(3) run(4) k(1) raw_fields_def struct_fields_def)
  have ty: "sa_Type (sar_Action req) = ActionCmdRun" by (simp add: assms(3) run(4))
  have fresh: "fresh_reply \<lparr>rep_TenantID = sar_TenantID req, rep_SproutID = sar_SproutID req, rep_Status = StatusFailed, rep_JID = [],
            rep_Result = None, rep_ErrorCode = []\<rparr>" by (simp add: fresh_reply_def)
  show ?thesis using cmd_reply_code[OF fresh rf k(2), of env fm] t assms(4,5) ty
    by (simp add: runSproutAction_def maxCmdTimeout_def second_def maxSproutActionCmdTimeout_def)
next
  case (cook p out)
  obtain kvs where k: "encode_farmerCook out = VMap kvs" "decode_CmdCook kvs =
    (\<lparr>cc_Async = False, cc_Env = [], cc_Recipe = fc_Recipe out, cc_State = [], cc_Test = fc_Test out, cc_Timeout = 0, cc_JID = []\<rparr>, False)"
    using decode_translated_cook by blast
  have rf: "raw_fields (sa_Params (sar_Action req)) = (kvs, False)" by (simp add: assms(3) cook(3) k(1) raw_fields_def struct_fields_def)
  have ne: "fc_Recipe out \<noteq> []" using cook(2) by (auto simp: translateCook_def Let_def split: if_splits)
  have ty: "sa_Type (sar_Action req) = ActionCookSprout" by (simp add: assms(3) cook(3))
  have fresh: "fresh_reply \<lparr>rep_TenantID = sar_TenantID req, rep_SproutID = sar_SproutID req, rep_Status = StatusFailed, rep_JID = [],
            rep_Result = None, rep_ErrorCode = []\<rparr>" by (simp add: fresh_reply_def)
  show ?thesis using cook_reply_code[OF fresh rf k(2), of env fm] ne assms(4,5) ty
    by (simp add: runSproutAction_def ActionCmdRun_def ActionCookSprout_def ActionSelfUpdate_def)
qed

text \<open>
  The multiplication by a second is not checked for overflow: a timeout of
  18446744074 seconds is accepted and becomes 290448384 nanoseconds, and one of
  9223372037 seconds becomes a negative duration, which the farmer refuses.
\<close>

definition overflow_input :: "int \<Rightarrow> cmdRunInput" where
  "overflow_input n = \<lparr>ci_Cmd = ''sleep'', ci_Args = Some [''9''], ci_CWD = [], ci_RunAs = [], ci_TimeoutSeconds = n\<rparr>"

theorem timeout_overflow:
  "map_sum id fr_Timeout (translateCmdRun (overflow_input 18446744074)) = Inr 290448384"
  "map_sum id fr_Timeout (translateCmdRun (overflow_input 9223372037)) = Inr (- 9223372036709551616)"
  "translateCmdRun (overflow_input 601) = Inl ''timeout_seconds must be between 1 and 600''"
proof -
  have "TrimSpace ''sleep'' = ''sleep''" by code_simp
  then show "map_sum id fr_Timeout (translateCmdRun (overflow_input 18446744074)) = Inr 290448384"
    "map_sum id fr_Timeout (translateCmdRun (overflow_input 9223372037)) = Inr (- 9223372036709551616)"
    "translateCmdRun (overflow_input 601) = Inl ''timeout_seconds must be between 1 and 600''"
    by (simp_all add: translateCmdRun_def overflow_input_def Let_def wrap64_def second_def maxCmdLen_def maxCmdArgs_def maxCmdTimeout_def maxRecipeLen_def)
qed


section \<open>What the farmer answers, the service understands\<close>

definition encode_action_request :: "SproutActionRequest \<Rightarrow> raw" where
  "encode_action_request r =
     RawDoc (VMap [(''tenant_id'', VStr (sar_TenantID r)), (''sprout_id'', VStr (sar_SproutID r)),
       (''action'', VMap ((''type'', VStr (sa_Type (sar_Action r))) #
          (case sa_Params (sar_Action r) of RawDoc v \<Rightarrow> [(''params'', v)] | _ \<Rightarrow> [])))])"

definition encode_result :: "CmdRunResult \<Rightarrow> val" where
  "encode_result r = VMap [(''stdout'', VStr (crr_Stdout r)), (''stderr'', VStr (crr_Stderr r)), (''exit_code'', VNum (crr_ExitCode r)),
     (''duration'', VNum (crr_Duration r))]"

definition encode_reply :: "SproutActionReply \<Rightarrow> raw" where
  "encode_reply r =
     RawDoc (VMap ([(''tenant_id'', VStr (rep_TenantID r)), (''sprout_id'', VStr (rep_SproutID r)), (''status'', VStr (rep_Status r))] @
       (if rep_JID r = [] then [] else [(''jid'', VStr (rep_JID r))]) @
       (case rep_Result r of None \<Rightarrow> [] | Some res \<Rightarrow> [(''result'', encode_result res)]) @
       (if rep_ErrorCode r = [] then [] else [(''error_code'', VStr (rep_ErrorCode r))])))"

text \<open>Exit codes and durations are machine integers.\<close>

definition int64 :: "int \<Rightarrow> bool" where
  "int64 n = (- (2 ^ 63) \<le> n \<and> n < 2 ^ 63)"

definition reply_fits :: "SproutActionReply \<Rightarrow> bool" where
  "reply_fits r = (case rep_Result r of None \<Rightarrow> True | Some res \<Rightarrow> int64 (crr_ExitCode res) \<and> int64 (crr_Duration res))"

lemma decode_encoded_action:
  assumes "sa_Params (sar_Action r) = RawDoc v"
  shows "decode_action_request (encode_action_request r) = (r, False)"
  using assms
  by (cases r; cases "sar_Action r")
    (simp add: decode_action_request_def encode_action_request_def raw_fields_def struct_fields_def dec_field_def dec_str_def dec_action_def
      dec_raw_def ToLower_def lower_char_def)

lemma decode_encoded_result:
  "int64 (crr_ExitCode res) \<Longrightarrow> int64 (crr_Duration res) \<Longrightarrow> dec_result (encode_result res) None = (Some res, False)"
  by (cases res) (simp add: dec_result_def encode_result_def dec_field_def dec_str_def dec_int_def int64_def ToLower_def lower_char_def)

lemma decode_encoded_reply: "reply_fits r \<Longrightarrow> decode_reply (encode_reply r) = (r, False)"
  using decode_encoded_result
  by (cases r)
    (auto simp: reply_fits_def decode_reply_def encode_reply_def raw_fields_def struct_fields_def dec_field_def dec_str_def
      ToLower_def lower_char_def split: option.splits)

text \<open>A reply per action type: a command completes with a result, the others are dispatched.\<close>

definition reply_for :: "string \<Rightarrow> SproutActionReply \<Rightarrow> bool" where
  "reply_for ty r = (rep_Status r = StatusFailed \<or>
     (if ty = ActionCmdRun then rep_Status r = StatusCompleted \<and> rep_Result r \<noteq> None else rep_Status r = StatusDispatched \<and> jobTracked ty))"

lemma reply_names:
  "rep_TenantID (snd (runSproutCmd env fm req r)) = rep_TenantID r \<and> rep_SproutID (snd (runSproutCmd env fm req r)) = rep_SproutID r"
  "rep_TenantID (snd (runSproutCook env fm req r)) = rep_TenantID r \<and> rep_SproutID (snd (runSproutCook env fm req r)) = rep_SproutID r"
  "rep_TenantID (snd (runSproutSelfUpdate env fm req r)) = rep_TenantID r \<and> rep_SproutID (snd (runSproutSelfUpdate env fm req r)) = rep_SproutID r"
  by (auto simp: runSproutCmd_def runSproutCook_def runSproutSelfUpdate_def Let_def fail_with_def
      split: prod.split sum.split api_result.split option.split frun_result.split)

lemma reply_types:
  "fresh_reply r \<Longrightarrow> reply_for ActionCmdRun (snd (runSproutCmd env fm req r))"
  "fresh_reply r \<Longrightarrow> reply_for ActionCookSprout (snd (runSproutCook env fm req r))"
  "fresh_reply r \<Longrightarrow> reply_for ActionSelfUpdate (snd (runSproutSelfUpdate env fm req r))"
  by (auto simp: runSproutCmd_def runSproutCook_def runSproutSelfUpdate_def Let_def fail_with_def reply_for_def fresh_reply_def jobTracked_def
      ActionCmdRun_def ActionCookSprout_def ActionSelfUpdate_def
      split: prod.split sum.split api_result.split option.split frun_result.split)

lemma runSproutAction_reply:
  "reply_for (sa_Type (sar_Action req)) (snd (runSproutAction env fm req)) \<and> reply_ok (snd (runSproutAction env fm req)) \<and>
   rep_TenantID (snd (runSproutAction env fm req)) = sar_TenantID req \<and> rep_SproutID (snd (runSproutAction env fm req)) = sar_SproutID req"
proof -
  let ?r = "\<lparr>rep_TenantID = sar_TenantID req, rep_SproutID = sar_SproutID req, rep_Status = StatusFailed, rep_JID = [],
            rep_Result = None, rep_ErrorCode = []\<rparr>"
  have fresh: "fresh_reply ?r" by (simp add: fresh_reply_def)
  have f: "reply_for ty (fail_with ?r code)" for ty code by (simp add: reply_for_def fail_with_def)
  have n: "rep_TenantID (fail_with ?r code) = sar_TenantID req \<and> rep_SproutID (fail_with ?r code) = sar_SproutID req" for code
    by (simp add: fail_with_def)
  have d: "ActionCmdRun \<noteq> ActionCookSprout" "ActionCmdRun \<noteq> ActionSelfUpdate" "ActionSelfUpdate \<noteq> ActionCookSprout"
    by (simp_all add: ActionCmdRun_def ActionCookSprout_def ActionSelfUpdate_def)
  show ?thesis
    by (auto simp: runSproutAction_def Let_def reply_names n f d d[symmetric] split: option.split
        intro!: reply_types[OF fresh] runSproutCmd_reply runSproutCook_reply runSproutSelfUpdate_reply fresh fail_ok[OF fresh] codes_in)
qed

lemma farmerErrorCode_keeps: "code \<in> set action_codes \<Longrightarrow> farmerErrorCode code = code"
  by (auto simp: farmerErrorCode_def action_codes_def)

text \<open>
  What the farmer answers to an item's request is recorded as it is: a
  failure with the farmer's own code, a command's exit status with success exactly at
  zero, and a dispatched job as running under its job ID.  No answer of the farmer is
  taken for an unknown outcome.
\<close>

theorem farmer_reply_understood:
  assumes "r = snd (handleSproutAction env fm (encode_action_request (item_request batch item)))" "ab_ActionParams batch = RawDoc v"
    and "reply_fits r" "rep_Status r = StatusDispatched \<Longrightarrow> ValidJobID (rep_JID r)"
  shows "replyUpdate batch item (encode_reply r) =
    (if rep_Status r = StatusFailed then failedUpdate (rep_ErrorCode r)
     else if ab_ActionType batch = ActionCmdRun then
       (let code = crr_ExitCode (the (rep_Result r)) in
        if code = 0 then (set_status ActionItemSucceeded)\<lparr>iu_ExitCode := Some 0\<rparr>
        else (failedUpdate errCodeCommandFailed)\<lparr>iu_ExitCode := Some code\<rparr>)
     else (set_status ActionItemRunning)\<lparr>iu_JID := Some (rep_JID r)\<rparr>)"
proof -
  have r: "r = snd (runSproutAction env fm (item_request batch item))"
    using assms(1,2) decode_encoded_action[of "item_request batch item" v] by (simp add: handleSproutAction_def item_request_def)
  note rr = runSproutAction_reply[of "item_request batch item" env fm, folded r]
  have names: "rep_TenantID r = ab_TenantID batch" "rep_SproutID r = ai_SproutID item" using rr by (simp_all add: item_request_def)
  have ty: "reply_for (ab_ActionType batch) r" using rr by (simp add: item_request_def)
  have ok: "rep_Status r = StatusFailed \<Longrightarrow> farmerErrorCode (rep_ErrorCode r) = rep_ErrorCode r"
    using rr by (auto simp: reply_ok_def intro: farmerErrorCode_keeps)
  show ?thesis using decode_encoded_reply[OF assms(3)] names ty ok assms(4)
    by (auto simp: replyUpdate_def reply_for_def Let_def codes split: option.splits if_splits)
qed

section \<open>A batch acts on the tenant's own sprouts\<close>

lemma parse_action_sound:
  "parse_action_ids ps ids = (Inr out :: 'a response + string list) \<Longrightarrow> distinct ids \<Longrightarrow> list_all asset_id_ok ids \<Longrightarrow>
   distinct out \<and> out \<noteq> [] \<and> list_all asset_id_ok out \<and> length out \<le> length ids + length ps \<and> set out = set ids \<union> TrimSpace ` set ps"
proof (induction ps ids rule: parse_action_ids.induct)
  case (1 ids)
  then show ?case by (simp split: if_splits)
next
  case (2 p ps ids)
  let ?ids = "if TrimSpace p \<in> set ids then ids else ids @ [TrimSpace p]"
  have ok: "TrimSpace p \<noteq> []" "\<not> length (TrimSpace p) > maxAssetIDLen" "parse_action_ids ps ?ids = (Inr out :: 'a response + string list)"
    using 2(2) by (auto simp: Let_def split: if_splits)
  have "distinct ?ids" "list_all asset_id_ok ?ids" using 2(3,4) ok(1,2) by (auto simp: list_all_iff asset_id_ok_def)
  then show ?case using 2(1)[OF refl ok(1,2,3)] by (auto split: if_splits)
qed

lemma parseActionAssetIDs_sound:
  assumes "parseActionAssetIDs raw = (Inr ids :: 'a response + string list)"
  shows "distinct ids" "length ids \<le> 100" "ids \<noteq> []" "list_all asset_id_ok ids" "set ids = TrimSpace ` set raw"
proof -
  have p: "parse_action_ids raw [] = (Inr ids :: 'a response + string list)" "length raw \<le> 100"
    using assms by (auto simp: parseActionAssetIDs_def maxAssetIDsPerLookup_def split: if_splits)
  show "distinct ids" "length ids \<le> 100" "ids \<noteq> []" "list_all asset_id_ok ids" "set ids = TrimSpace ` set raw"
    using parse_action_sound[OF p(1)] p(2) by auto
qed

lemma create_items_get:
  "create_items t items = Some t' \<Longrightarrow> tbl_get t' k = (case map_of items k of Some i \<Rightarrow> Some i | None \<Rightarrow> tbl_get t k) \<and>
   (map_of items k \<noteq> None \<longrightarrow> tbl_get t k = None) \<and> (tbl_wf t \<longrightarrow> tbl_wf t') \<and> tbl_up t' = tbl_up t"
proof (induction t items rule: create_items.induct)
  case (2 t q item rest)
  obtain t1 where t1: "tbl_create t q item = Some t1" "create_items t1 rest = Some t'" using 2(2) by (auto split: option.splits)
  note IH = 2(1)[OF t1]
  show ?case using IH tbl_create_get[OF t1(1)] tbl_create_wf[OF t1(1)] by (auto split: option.splits if_splits)
qed simp

lemma batch_items_mem:
  "(k, i) \<in> set (batch_items b tid assets rows blocked) \<Longrightarrow>
   fst k = b \<and> (\<exists>pos < length assets. assets ! pos = snd k \<and> i = new_item rows blocked tid pos (snd k))"
  by (auto simp: batch_items_def set_zip)

lemma new_item_queued:
  "ai_Status (new_item rows blocked tid pos asset) = ActionItemQueued \<Longrightarrow>
   \<exists>row. rows asset = Some row \<and> sb_KeyState row = keyStateAccepted \<and> ai_SproutID (new_item rows blocked tid pos asset) = sb_SproutID row \<and>
     (blocked (sb_SproutID row) = None \<or> blocked (sb_SproutID row) = Some [])"
  by (auto simp: new_item_def Let_def split: option.splits if_splits)

lemma new_item_tenant [simp]: "ai_TenantID (new_item rows blocked tid pos asset) = tid"
  by (auto simp: new_item_def Let_def split: option.splits)

lemma byAsset_Some: "byAsset rows asset = Some r \<Longrightarrow> r \<in> set rows \<and> sb_AssetID r = asset"
  by (auto simp: byAsset_def dest!: map_of_SomeD)

lemma parse_action_refuses: "parse_action_ids ps ids \<noteq> Inl (Reply c x)"
  by (induction ps ids rule: parse_action_ids.induct) (auto simp: responses Let_def)

lemma refusals:
  "parseActionAssetIDs raw \<noteq> Inl (Reply c x)"
  "translateAction inp \<noteq> Inl (Reply c x)"
  "tenantActive st tid \<noteq> Some (Reply c x)"
  by (auto simp: parseActionAssetIDs_def parse_action_refuses translateAction_def invalid_def tenantActive_def responses
      split: prod.splits sum.splits qres.splits)

lemma CreateSproutActionBatch_202:
  assumes "CreateSproutActionBatch now nkeys rand body tid st = (st', Reply code b, queued)"
  obtains ids inp assets action rows where "decode_sproutActionRequest body = ((ids, inp), False)"
    "parseActionAssetIDs ids = (Inr assets :: string response + string list)" "translateAction inp = (Inr action :: string response + SproutAction)"
    "resolveAssetIDs nkeys tid assets st = Some rows" "createActionBatch now rand tid assets action rows st = Some (st', b, queued)"
    "tenantActive st tid = (None :: string response option)" "code = 202"
proof -
  obtain ids inp err where d: "decode_sproutActionRequest body = ((ids, inp), err)" by (metis surj_pair)
  show ?thesis using assms that unfolding CreateSproutActionBatch_def d Let_def
    by (auto simp: responses refusals split: option.splits sum.splits if_splits)
qed

lemma createBatch_rows:
  assumes "createBatch rand batch assets resolved blocked st = Some (st', b, queued)" "distinct assets"
  defines "items \<equiv> batch_items b (ab_TenantID batch) assets (byAsset resolved) blocked"
  shows "queued = filter (\<lambda>(_, i). ai_Status i = ActionItemQueued) items"
    "tbl_get (ss_batches st') q = (if q = b then Some (batch\<lparr>ab_Requested := assets\<rparr>) else tbl_get (ss_batches st) q)"
    "tbl_get (ss_batches st) b = None"
    "tbl_get (ss_items st') k = (case map_of items k of Some i \<Rightarrow> Some i | None \<Rightarrow> tbl_get (ss_items st) k)"
    "map_of items k \<noteq> None \<Longrightarrow> tbl_get (ss_items st) k = None"
    "ss_log st' = ss_log st" "ss_inflight st' = ss_inflight st" "ss_tenants st' = ss_tenants st"
    "tbl_wf (ss_items st) \<Longrightarrow> tbl_wf (ss_items st')" "tbl_wf (ss_batches st) \<Longrightarrow> tbl_wf (ss_batches st')"
proof -
  from assms(1) obtain batches rows where c: "tbl_create (ss_batches st) b (batch\<lparr>ab_Requested := assets\<rparr>) = Some batches"
      "create_items (ss_items st) items = Some rows" "st' = st\<lparr>ss_batches := batches, ss_items := rows\<rparr>"
      "queued = filter (\<lambda>(_, i). ai_Status i = ActionItemQueued) items"
    unfolding createBatch_def items_def Let_def by (auto split: option.splits)
  note cg = create_items_get[OF c(2), of k]
  show "queued = filter (\<lambda>(_, i). ai_Status i = ActionItemQueued) items" by (rule c(4))
  show "tbl_get (ss_batches st') q = (if q = b then Some (batch\<lparr>ab_Requested := assets\<rparr>) else tbl_get (ss_batches st) q)"
    "tbl_get (ss_batches st) b = None" using tbl_create_get(1,2)[OF c(1)] by (simp_all add: c(3))
  show "tbl_get (ss_items st') k = (case map_of items k of Some i \<Rightarrow> Some i | None \<Rightarrow> tbl_get (ss_items st) k)"
    "map_of items k \<noteq> None \<Longrightarrow> tbl_get (ss_items st) k = None"
    "tbl_wf (ss_items st) \<Longrightarrow> tbl_wf (ss_items st')" using cg by (simp_all add: c(3))
  show "ss_log st' = ss_log st" "ss_inflight st' = ss_inflight st" "ss_tenants st' = ss_tenants st" by (simp_all add: c(3))
  show "tbl_wf (ss_batches st) \<Longrightarrow> tbl_wf (ss_batches st')" using tbl_create_wf[OF c(1)] by (simp add: c(3))
qed

text \<open>The tenant has linked the asset to the sprout, whose key the farmer holds in the given state.\<close>

definition linked :: "nkey_db \<Rightarrow> 'm saas_assets_scheme \<Rightarrow> string \<Rightarrow> string \<Rightarrow> string \<Rightarrow> string \<Rightarrow> bool" where
  "linked nkeys st tid asset sid state \<longleftrightarrow>
     (\<exists>q l key. tbl_get (ss_links st) q = Some l \<and> al_TenantID l = tid \<and> al_AssetID l = asset \<and> al_SproutID l = sid \<and>
        tbl_get nkeys (tid, sid) = Some key \<and> nk_State key = state)"

definition item_for :: "nkey_db \<Rightarrow> 'm saas_assets_scheme \<Rightarrow> string \<Rightarrow> string \<Rightarrow> AssetActionItem \<Rightarrow> bool" where
  "item_for nkeys st tid asset i \<longleftrightarrow> ai_TenantID i = tid \<and>
     (ai_Status i = ActionItemQueued \<and> linked nkeys st tid asset (ai_SproutID i) ''accepted'' \<or>
      ai_Status i = ActionItemFailed \<and> (\<exists>state. state \<noteq> ''accepted'' \<and> linked nkeys st tid asset (ai_SproutID i) state) \<or>
      ai_Status i = ActionItemUnresolved \<and> (\<forall>sid state. \<not> linked nkeys st tid asset sid state))"

lemma batch_items_assets:
  "map fst (batch_items b tid assets rows blocked) = map (Pair b) assets"
  by (rule nth_equalityI) (simp_all add: batch_items_def)

lemma map_of_batch_items:
  assumes "distinct assets"
  shows "map_of (batch_items b tid assets rows blocked) k = Some i \<longleftrightarrow> (k, i) \<in> set (batch_items b tid assets rows blocked)"
    and "asset \<in> set assets \<Longrightarrow> \<exists>pos. map_of (batch_items b tid assets rows blocked) (b, asset) = Some (new_item rows blocked tid pos asset)"
    and "asset \<notin> set assets \<Longrightarrow> map_of (batch_items b tid assets rows blocked) (b, asset) = None"
proof -
  have d: "distinct (map fst (batch_items b tid assets rows blocked))"
    unfolding batch_items_assets using assms by (simp add: distinct_map inj_on_def)
  show get: "map_of (batch_items b tid assets rows blocked) k = Some i \<longleftrightarrow> (k, i) \<in> set (batch_items b tid assets rows blocked)" for k i
    using d by simp
  show "\<exists>pos. map_of (batch_items b tid assets rows blocked) (b, asset) = Some (new_item rows blocked tid pos asset)" if in_set: "asset \<in> set assets"
  proof -
    obtain pos where "pos < length assets" "assets ! pos = asset" using in_set by (auto simp: in_set_conv_nth)
    then have "((b, asset), new_item rows blocked tid pos asset) \<in> set (batch_items b tid assets rows blocked)"
      by (force simp: batch_items_def set_zip)
    then show ?thesis using get by blast
  qed
  show "asset \<notin> set assets \<Longrightarrow> map_of (batch_items b tid assets rows blocked) (b, asset) = None"
    unfolding map_of_eq_None_iff set_map[symmetric] batch_items_assets by auto
qed

lemma byAsset_None: "byAsset rows asset = None \<Longrightarrow> r \<in> set rows \<Longrightarrow> sb_AssetID r \<noteq> asset"
  by (force simp: byAsset_def map_of_eq_None_iff)

lemma new_item_for:
  assumes "resolveAssetIDs nkeys tid assets st = Some rows" "tbl_wf (ss_links st)" "asset \<in> set assets"
  shows "item_for nkeys st tid asset (new_item (byAsset rows) Map.empty tid pos asset)"
proof (cases "byAsset rows asset")
  case None
  have "\<not> linked nkeys st tid asset sid state" for sid state
  proof
    assume "linked nkeys st tid asset sid state"
    then obtain q l key where l: "tbl_get (ss_links st) q = Some l" "al_TenantID l = tid" "al_AssetID l = asset" "al_SproutID l = sid"
      "tbl_get nkeys (tid, sid) = Some key" by (auto simp: linked_def)
    then have "\<lparr>sb_SproutID = al_SproutID l, sb_AssetID = al_AssetID l, sb_KeyState = nk_State key, sb_Connected = False\<rparr> \<in> set rows"
      using resolve_rows[OF assms(1,2)] assms(3) by blast
    from byAsset_None[OF None this] l(3) show False by simp
  qed
  then show ?thesis using None by (simp add: new_item_def item_for_def)
next
  case (Some row)
  then have "row \<in> set rows" "sb_AssetID row = asset" using byAsset_Some by auto
  then have "linked nkeys st tid asset (sb_SproutID row) (sb_KeyState row)"
    using resolve_rows[OF assms(1,2), of row] unfolding linked_def by (metis sproutByAssetItem.select_convs(1-3))
  then show ?thesis using Some by (auto simp: new_item_def item_for_def keyStateAccepted_def Let_def)
qed

text \<open>
  Property C22. An accepted batch is for an active tenant and has one item for each asset ID of the
  request, spaces trimmed, and no other; there are at most one hundred.  The item is queued, and
  only then handed to the dispatcher, when the caller's own tenant has linked the asset to a sprout
  whose key the farmer has accepted in that tenant, and names that sprout; it has failed when that
  key is in another state, and is unresolved when there is no such link.
\<close>

theorem batch_items_owned:
  assumes "CreateSproutActionBatch now nkeys rand body tid st = (st', Reply code b, queued)" "tbl_wf (ss_links st)"
  shows "(\<exists>t. tbl_get (ss_tenants st) tid = Some t \<and> te_Status t = TenantStatusActive) \<and>
    (\<exists>ids action. decode_sproutActionRequest body = ((ids, action), False) \<and> ids \<noteq> [] \<and> length ids \<le> 100 \<and>
       (\<forall>a. if a \<in> TrimSpace ` set ids then \<exists>i. tbl_get (ss_items st') (b, a) = Some i \<and> item_for nkeys st tid a i
            else tbl_get (ss_items st') (b, a) = tbl_get (ss_items st) (b, a)) \<and>
       (\<forall>k i. (k, i) \<in> set queued \<longleftrightarrow> fst k = b \<and> snd k \<in> TrimSpace ` set ids \<and>
          tbl_get (ss_items st') k = Some i \<and> ai_Status i = ActionItemQueued))"
proof -
  obtain ids inp assets action rows where c: "decode_sproutActionRequest body = ((ids, inp), False)"
    "parseActionAssetIDs ids = (Inr assets :: string response + string list)" "resolveAssetIDs nkeys tid assets st = Some rows"
    "createActionBatch now rand tid assets action rows st = Some (st', b, queued)" "tenantActive st tid = (None :: string response option)"
    using CreateSproutActionBatch_202[OF assms(1)] by metis
  note ids = parseActionAssetIDs_sound[OF c(2)]
  have raw: "ids \<noteq> []" "length ids \<le> 100" using c(2) ids(3,5) by (auto simp: parseActionAssetIDs_def maxAssetIDsPerLookup_def split: if_splits)
  let ?items = "batch_items b tid assets (byAsset rows) Map.empty"
  note cr = createBatch_rows[OF c(4)[unfolded createActionBatch_def] ids(1), unfolded AssetActionBatch.select_convs]
  note mo = map_of_batch_items[OF ids(1), where b = b and tid = tid and rows = "byAsset rows" and blocked = Map.empty]
  have act: "\<exists>t. tbl_get (ss_tenants st) tid = Some t \<and> te_Status t = TenantStatusActive"
    using c(5) by (auto simp: tenantActive_def tbl_first_def tbl_get_def split: option.splits qres.splits if_splits)
  have items: "if a \<in> TrimSpace ` set ids then \<exists>i. tbl_get (ss_items st') (b, a) = Some i \<and> item_for nkeys st tid a i
      else tbl_get (ss_items st') (b, a) = tbl_get (ss_items st) (b, a)" for a
    using cr(4)[of "(b, a)"] mo(2,3)[of a] new_item_for[OF c(3) assms(2), of a] ids(5) by auto
  have "(k, i) \<in> set queued \<longleftrightarrow> fst k = b \<and> snd k \<in> TrimSpace ` set ids \<and> tbl_get (ss_items st') k = Some i \<and> ai_Status i = ActionItemQueued" for k i
  proof -
    have "(k, i) \<in> set queued \<longleftrightarrow> map_of ?items k = Some i \<and> ai_Status i = ActionItemQueued" using mo(1)[of k i] cr(1) by auto
    also have "\<dots> \<longleftrightarrow> fst k = b \<and> snd k \<in> set assets \<and> tbl_get (ss_items st') k = Some i \<and> ai_Status i = ActionItemQueued"
      using cr(4)[of k] mo(2)[of "snd k"] batch_items_mem[of k i b tid assets "byAsset rows" Map.empty] mo(1)[of k i]
      by (cases k) (auto split: option.splits)
    finally show ?thesis using ids(5) by simp
  qed
  then show ?thesis using act c(1) raw items by blast
qed

section \<open>A batch of one\<close>

definition demo_action_input :: SproutAction where
  "demo_action_input = \<lparr>sa_Type = ''cmd.run'', sa_Params = RawDoc (VMap [(''cmd'', VStr ''uptime -p''), (''timeout_seconds'', VNum 5)])\<rparr>"

definition demo_action :: SproutAction where
  "demo_action = \<lparr>sa_Type = ''cmd.run'', sa_Params = RawDoc (VMap [(''command'', VStr ''uptime''), (''args'', VList [VStr ''-p'']),
     (''timeout'', VNum 5000000000)])\<rparr>"

lemma demo_translated: "translateAction demo_action_input = (Inr demo_action :: string response + SproutAction)"
  "fst (decode_cmdRunInput (sa_Params demo_action_input)) = \<lparr>ci_Cmd = ''uptime -p'', ci_Args = None, ci_CWD = [], ci_RunAs = [], ci_TimeoutSeconds = 5\<rparr>"
  by code_simp+

theorem translated_action_accepted_witness:
  "rep_ErrorCode (snd (runSproutAction demo_action_env demo_action_state \<lparr>sar_TenantID = ''acme'', sar_SproutID = ''w1'', sar_Action = demo_action\<rparr>))
     \<noteq> ErrorInvalidRequest"
  by (rule translated_action_accepted[OF demo_translated(1)])
    (use demo_translated(2) demo_action_checks in \<open>auto simp: prod_eq_iff\<close>)

definition demo_batch :: AssetActionBatch where
  "demo_batch = \<lparr>ab_TenantID = ''acme'', ab_ActionType = ''cmd.run'', ab_ActionParams = sa_Params demo_action, ab_Requested = [''a1''],
     ab_RolloutBatchSize = 0, ab_RolloutGate = [], ab_CreatedAt = 0\<rparr>"

definition demo_item :: AssetActionItem where
  "demo_item = \<lparr>ai_TenantID = ''acme'', ai_Position = 0, ai_SproutID = ''zz'', ai_JID = [], ai_Status = ActionItemQueued, ai_ErrorCode = [],
     ai_ExitCode = None, ai_Attempts = 0\<rparr>"

definition demo_reply :: SproutActionReply where
  "demo_reply = snd (handleSproutAction demo_action_env demo_action_state (encode_action_request (item_request demo_batch demo_item)))"

lemma demo_no_sprout: "verifySproutInTenant demo_action_state ''acme'' ''zz'' = Some ErrSproutIDNotFound"
  by code_simp

lemma demo_reply_value: "rep_Status demo_reply = StatusFailed" "rep_ErrorCode demo_reply = ErrorSproutNotFound"
proof -
  have "decode_action_request (encode_action_request (item_request demo_batch demo_item)) = (item_request demo_batch demo_item, False)"
    by (rule decode_encoded_action[of _ "VMap [(''command'', VStr ''uptime''), (''args'', VList [VStr ''-p'']), (''timeout'', VNum 5000000000)]"])
      (simp add: item_request_def demo_batch_def demo_action_def)
  then have r: "demo_reply = snd (runSproutAction demo_action_env demo_action_state (item_request demo_batch demo_item))"
    by (simp add: demo_reply_def handleSproutAction_def)
  show "rep_Status demo_reply = StatusFailed" "rep_ErrorCode demo_reply = ErrorSproutNotFound"
    by (simp_all add: r runSproutAction_def item_request_def demo_batch_def demo_item_def demo_no_sprout ActionCmdRun_def fail_with_def verify_code_def)
qed

theorem farmer_reply_understood_witness:
  "replyUpdate demo_batch demo_item (encode_reply demo_reply) = failedUpdate ErrorSproutNotFound"
proof -
  have d: "reply_ok demo_reply" unfolding demo_reply_def by (rule sprout_action_replies)
  then have fits: "reply_fits demo_reply" using demo_reply_value(1) by (simp add: reply_ok_def reply_fits_def)
  have p: "ab_ActionParams demo_batch = RawDoc (VMap [(''command'', VStr ''uptime''), (''args'', VList [VStr ''-p'']), (''timeout'', VNum 5000000000)])"
    by (simp add: demo_batch_def demo_action_def)
  show ?thesis using farmer_reply_understood[OF demo_reply_def p fits] demo_reply_value by (simp add: codes)
qed

definition demo_actions :: saas_actions where
  "demo_actions = \<lparr>ss_tenants = demo_tenants, ss_jobs = \<lparr>tbl_rows = [], tbl_up = True\<rparr>, ss_published = [],
     ss_keys = \<lparr>tbl_rows = [], tbl_up = True\<rparr>, ss_links = \<lparr>tbl_rows = [(''al_1'', demo_linked)], tbl_up = True\<rparr>,
     ss_batches = \<lparr>tbl_rows = [], tbl_up = True\<rparr>, ss_items = \<lparr>tbl_rows = [], tbl_up = True\<rparr>, ss_log = [], ss_inflight = []\<rparr>"

definition demo_batch_body :: raw where
  "demo_batch_body = RawDoc (VMap [(''asset_ids'', VList [VStr ''a1'', VStr '' a1'', VStr ''a2'']),
     (''action'', VMap [(''type'', VStr ''cmd.run''), (''params'', VMap [(''cmd'', VStr ''uptime -p''), (''timeout_seconds'', VNum 5)])])])"

lemma demo_batch_request:
  "decode_sproutActionRequest demo_batch_body = (([''a1'', [CHR '' ''] @ ''a1'', ''a2''], demo_action_input), False)"
  "parseActionAssetIDs [''a1'', [CHR '' ''] @ ''a1'', ''a2''] = (Inr [''a1'', ''a2''] :: string response + string list)"
  "tenantActive demo_actions ''t_1'' = (None :: string response option)"
  "resolveAssetIDs (demo_nkeys [(''t_1'', ''web'')]) ''t_1'' [''a1'', ''a2''] demo_actions =
     Some [\<lparr>sb_SproutID = ''web'', sb_AssetID = ''a1'', sb_KeyState = ''accepted'', sb_Connected = False\<rparr>]"
  by code_simp+

definition demo_web_item :: AssetActionItem where
  "demo_web_item = \<lparr>ai_TenantID = ''t_1'', ai_Position = 0, ai_SproutID = ''web'', ai_JID = [], ai_Status = ActionItemQueued, ai_ErrorCode = [],
     ai_ExitCode = None, ai_Attempts = 0\<rparr>"

lemma demo_batch_created:
  "\<exists>st' b. CreateSproutActionBatch 0 (demo_nkeys [(''t_1'', ''web'')]) demo_rand demo_batch_body ''t_1'' demo_actions =
     (st', Reply 202 b, [((b, ''a1''), demo_web_item)])"
proof -
  obtain b where b: "newID ''b_'' demo_rand = Some b" by (simp add: newID_def demo_rand_def)
  have "\<exists>st'. createActionBatch 0 demo_rand ''t_1'' [''a1'', ''a2''] demo_action
      [\<lparr>sb_SproutID = ''web'', sb_AssetID = ''a1'', sb_KeyState = ''accepted'', sb_Connected = False\<rparr>] demo_actions = Some (st', b, [((b, ''a1''), demo_web_item)])"
    by (simp add: createActionBatch_def createBatch_def b batch_items_def new_item_def byAsset_def keyStateAccepted_def tbl_create_def
        demo_actions_def tbl_get_def demo_web_item_def Let_def upt_rec)
  then show ?thesis using demo_batch_request demo_translated(1) by (auto simp: CreateSproutActionBatch_def responses)
qed

theorem batch_items_owned_witness:
  "\<exists>st' b i. CreateSproutActionBatch 0 (demo_nkeys [(''t_1'', ''web'')]) demo_rand demo_batch_body ''t_1'' demo_actions =
     (st', Reply 202 b, [((b, ''a1''), demo_web_item)]) \<and> tbl_get (ss_items st') (b, ''a1'') = Some i \<and>
     item_for (demo_nkeys [(''t_1'', ''web'')]) demo_actions ''t_1'' ''a1'' i \<and> ai_Status i = ActionItemQueued"
proof -
  obtain st' b where c: "CreateSproutActionBatch 0 (demo_nkeys [(''t_1'', ''web'')]) demo_rand demo_batch_body ''t_1'' demo_actions =
     (st', Reply 202 b, [((b, ''a1''), demo_web_item)])" using demo_batch_created by blast
  have "tbl_wf (ss_links demo_actions)" by (simp add: demo_actions_def tbl_wf_def)
  from batch_items_owned[OF c this, THEN conjunct2] obtain ids where
    ids: "if ''a1'' \<in> TrimSpace ` set ids then \<exists>i. tbl_get (ss_items st') (b, ''a1'') = Some i \<and> item_for (demo_nkeys [(''t_1'', ''web'')]) demo_actions ''t_1'' ''a1'' i
        else tbl_get (ss_items st') (b, ''a1'') = tbl_get (ss_items demo_actions) (b, ''a1'')"
      "((b, ''a1''), demo_web_item) \<in> set [((b, ''a1''), demo_web_item)] \<longleftrightarrow> fst (b, ''a1'') = b \<and> snd (b, ''a1'') \<in> TrimSpace ` set ids \<and>
        tbl_get (ss_items st') (b, ''a1'') = Some demo_web_item \<and> ai_Status demo_web_item = ActionItemQueued" by blast
  then show ?thesis using c by auto
qed

end
