(* ===== verification/Saas_Fleet.thy ===== *)
theory Saas_Fleet
  imports Saas_Actions
begin

text \<open>
  Fleet updates of the hosted service (\<open>internal/saasapi/fleet_updates.go\<close>,
  \<open>fleet_update_dispatch.go\<close>): the catalog of versions, each tenant's update policy,
  the admission of a rollout and its waves.  A rollout runs beside everything else the
  service does: what others did to the state, the clock and the job reader are given
  per tick, and every observation of the rollout is a tick.  The catalog is keyed
  by its unique version.  Parsing of timestamps is a parameter.
\<close>

section \<open>Catalog and policy\<close>

record FleetVersion =
  fv_ArtifactURL :: string
  fv_ChecksumSHA256 :: string
  fv_ReleasedAt :: int
  fv_Notes :: string
  fv_Signature :: string

record TenantUpdatePolicy =
  up_ApprovedVersion :: "string option"
  up_AutoUpdate :: bool
  up_WindowStart :: "int option"
  up_WindowEnd :: "int option"
  up_UpdatedAt :: int

record saas_fleet = saas_actions +
  ss_versions :: "(string, FleetVersion) table"
  ss_policies :: "(string, TenantUpdatePolicy) table"

definition maxFleetVersionLen :: nat where "maxFleetVersionLen = 64"

record fleetVersionItem =
  fi_Version :: string
  fi_ChecksumSHA256 :: string
  fi_ReleasedAt :: int
  fi_Notes :: string

text \<open>\<open>ORDER BY released_at DESC, version DESC\<close>.\<close>

fun newest_insert :: "string \<times> FleetVersion \<Rightarrow> (string \<times> FleetVersion) list \<Rightarrow> (string \<times> FleetVersion) list" where
  "newest_insert v [] = [v]"
| "newest_insert v (w # ws) =
     (if fv_ReleasedAt (snd v) > fv_ReleasedAt (snd w) \<or> fv_ReleasedAt (snd v) = fv_ReleasedAt (snd w) \<and> id_less (fst w) (fst v)
      then v # w # ws else w # newest_insert v ws)"

definition newest_first :: "(string \<times> FleetVersion) list \<Rightarrow> (string \<times> FleetVersion) list" where
  "newest_first vs = foldr newest_insert vs []"

definition ListFleetVersions :: "'m saas_fleet_scheme \<Rightarrow> fleetVersionItem list response" where
  "ListFleetVersions st =
     (if \<not> tbl_up (ss_versions st) then writeError 500 ''internal_error'' ''failed to list versions''
      else writeJSON 200 (map (\<lambda>(v, r). \<lparr>fi_Version = v, fi_ChecksumSHA256 = fv_ChecksumSHA256 r, fi_ReleasedAt = fv_ReleasedAt r,
             fi_Notes = fv_Notes r\<rparr>) (newest_first (tbl_rows (ss_versions st)))))"

definition default_policy :: TenantUpdatePolicy where
  "default_policy = \<lparr>up_ApprovedVersion = None, up_AutoUpdate = False, up_WindowStart = None, up_WindowEnd = None, up_UpdatedAt = 0\<rparr>"

text \<open>The policy, and when it was set unless it is the default one.\<close>

definition GetUpdatePolicy :: "string \<Rightarrow> 'm saas_fleet_scheme \<Rightarrow> (TenantUpdatePolicy \<times> int option) response" where
  "GetUpdatePolicy tid st =
     (case tenantExists st tid of
        Some r \<Rightarrow> r
      | None \<Rightarrow>
          (case tbl_first (ss_policies st) tid of
             DbErr \<Rightarrow> writeError 500 ''internal_error'' ''failed to look up update policy''
           | NotFound \<Rightarrow> writeJSON 200 (default_policy, None)
           | Found p \<Rightarrow> writeJSON 200 (p, Some (up_UpdatedAt p))))"

text \<open>A field of a PATCH body: absent, null, or a value.\<close>

datatype 'a patchField = Absent | IsNull | IsValue 'a

definition dec_patch :: "'a dec \<Rightarrow> 'a \<Rightarrow> 'a patchField dec" where
  "dec_patch d zero v a = (if v = VNull then (IsNull, False) else let (x, e) = d v zero in if e then (a, True) else (IsValue x, False))"

definition dec_time :: "(string \<Rightarrow> int option) \<Rightarrow> int dec" where
  "dec_time parse v a = (case v of VStr s \<Rightarrow> (case parse s of None \<Rightarrow> (a, True) | Some t \<Rightarrow> (t, False)) | VNull \<Rightarrow> (a, False) | _ \<Rightarrow> (a, True))"

record patchUpdatePolicyRequest =
  pu_ApprovedVersion :: "string patchField"
  pu_AutoUpdate :: "bool patchField"
  pu_WindowStart :: "int patchField"
  pu_WindowEnd :: "int patchField"

definition decode_patch :: "(string \<Rightarrow> int option) \<Rightarrow> raw \<Rightarrow> patchUpdatePolicyRequest \<times> bool" where
  "decode_patch parse body =
     (let (kvs, e0) = raw_fields body;
          (v, e1) = dec_field (dec_patch dec_str []) ''approved_version'' kvs Absent;
          (a, e2) = dec_field (dec_patch dec_bool False) ''auto_update'' kvs Absent;
          (s, e3) = dec_field (dec_patch (dec_time parse) 0) ''rollout_window_start'' kvs Absent;
          (e, e4) = dec_field (dec_patch (dec_time parse) 0) ''rollout_window_end'' kvs Absent
      in (\<lparr>pu_ApprovedVersion = v, pu_AutoUpdate = a, pu_WindowStart = s, pu_WindowEnd = e\<rparr>, e0 \<or> e1 \<or> e2 \<or> e3 \<or> e4))"

definition validateUpdatePolicy :: "TenantUpdatePolicy \<Rightarrow> string option" where
  "validateUpdatePolicy p =
     (if up_AutoUpdate p \<and> up_ApprovedVersion p = None then Some ''auto_update requires an approved_version''
      else if (up_WindowStart p = None) \<noteq> (up_WindowEnd p = None)
      then Some ''rollout_window_start and rollout_window_end must be set together''
      else case (up_WindowStart p, up_WindowEnd p) of
             (Some s, Some e) \<Rightarrow> if \<not> e > s then Some ''rollout_window_end must be after rollout_window_start'' else None
           | _ \<Rightarrow> None)"

definition patch_opt :: "'a patchField \<Rightarrow> 'a option \<Rightarrow> 'a option" where
  "patch_opt f old = (case f of Absent \<Rightarrow> old | IsNull \<Rightarrow> None | IsValue x \<Rightarrow> Some x)"

definition patched :: "patchUpdatePolicyRequest \<Rightarrow> TenantUpdatePolicy \<Rightarrow> TenantUpdatePolicy" where
  "patched req p =
     p\<lparr>up_ApprovedVersion := (case pu_ApprovedVersion req of Absent \<Rightarrow> up_ApprovedVersion p | IsNull \<Rightarrow> None | IsValue v \<Rightarrow> Some (TrimSpace v)),
       up_AutoUpdate := (case pu_AutoUpdate req of IsValue b \<Rightarrow> b | _ \<Rightarrow> up_AutoUpdate p),
       up_WindowStart := patch_opt (pu_WindowStart req) (up_WindowStart p),
       up_WindowEnd := patch_opt (pu_WindowEnd req) (up_WindowEnd p)\<rparr>"

definition fleetVersionExists :: "'m saas_fleet_scheme \<Rightarrow> string \<Rightarrow> bool option" where
  "fleetVersionExists st v = (if \<not> tbl_up (ss_versions st) then None else Some (tbl_get (ss_versions st) v \<noteq> None))"

text \<open>The checks on the version named in the body, before the transaction.\<close>

definition check_approved :: "patchUpdatePolicyRequest \<Rightarrow> 'm saas_fleet_scheme \<Rightarrow> 'a response option" where
  "check_approved req st =
     (case pu_ApprovedVersion req of
        IsValue v0 \<Rightarrow>
          (let v = TrimSpace v0 in
           if v = [] then Some (writeError 400 ''invalid_request'' ''approved_version cannot be empty; use null to clear it'')
           else if length v > maxFleetVersionLen then Some (writeError 400 ''invalid_request'' ''approved_version is too long'')
           else case fleetVersionExists st v of
                  None \<Rightarrow> Some (writeError 500 ''internal_error'' ''failed to look up version'')
                | Some False \<Rightarrow> Some (writeError 400 ''unknown_version'' ''approved_version is not in the version catalog'')
                | Some True \<Rightarrow> None)
      | _ \<Rightarrow> None)"

definition PatchUpdatePolicy ::
  "(string \<Rightarrow> int option) \<Rightarrow> int \<Rightarrow> raw \<Rightarrow> string \<Rightarrow> 'm saas_fleet_scheme \<Rightarrow> 'm saas_fleet_scheme \<times> TenantUpdatePolicy response" where
  "PatchUpdatePolicy parse now body tid st =
     (case tenantExists st tid of
        Some r \<Rightarrow> (st, r)
      | None \<Rightarrow>
          let (req, err) = decode_patch parse body in
          if err then (st, writeError 400 ''invalid_request'' ''request body must be valid JSON'')
          else if pu_ApprovedVersion req = Absent \<and> pu_AutoUpdate req = Absent \<and> pu_WindowStart req = Absent \<and> pu_WindowEnd req = Absent
          then (st, writeError 400 ''invalid_request'' ''no updatable fields provided'')
          else if pu_AutoUpdate req = IsNull then (st, writeError 400 ''invalid_request'' ''auto_update cannot be null'')
          else (case check_approved req st of
                  Some r \<Rightarrow> (st, r)
                | None \<Rightarrow>
                    if \<not> tbl_up (ss_policies st) then (st, writeError 500 ''internal_error'' ''failed to save update policy'')
                    else let old = (case tbl_get (ss_policies st) tid of None \<Rightarrow> default_policy\<lparr>up_UpdatedAt := now\<rparr> | Some p \<Rightarrow> p);
                             p = (patched req old)\<lparr>up_UpdatedAt := now\<rparr>
                         in (case validateUpdatePolicy p of
                               Some msg \<Rightarrow> (st, writeError 400 ''invalid_request'' msg)
                             | None \<Rightarrow> (st\<lparr>ss_policies := tbl_put (ss_policies st) tid p\<rparr>, writeJSON 200 p))))"


section \<open>Admission of a rollout\<close>

definition gateJobStatus :: string where "gateJobStatus = ''job_status''"
definition gateDispatch :: string where "gateDispatch = ''dispatch''"
definition gateProbe :: string where "gateProbe = ''probe''"
definition defaultUpdateBatchSize :: int where "defaultUpdateBatchSize = 5"
definition maxUpdateBatchSize :: int where "maxUpdateBatchSize = 25"
definition rolloutWaveTimeout :: int where "rolloutWaveTimeout = 30 * 60 * second"
definition rolloutPollInterval :: int where "rolloutPollInterval = 15 * second"

definition parseUpdateBatchSize :: "int option \<Rightarrow> 'a response + int" where
  "parseUpdateBatchSize n =
     (case n of
        None \<Rightarrow> Inr defaultUpdateBatchSize
      | Some k \<Rightarrow>
          if k < 1 \<or> k > maxUpdateBatchSize
          then Inl (writeErrorDetails 400 ''invalid_request'' ''batch_size must be between 1 and 25'' [(''min'', VNum 1), (''max'', VNum 25)])
          else Inr k)"

definition parseUpdateGate :: "string \<Rightarrow> 'a response + string" where
  "parseUpdateGate gate =
     (if gate = [] then Inr gateJobStatus
      else if gate = gateJobStatus \<or> gate = gateDispatch then Inr gate
      else if gate = gateProbe then Inl (writeError 400 ''unsupported_gate'' ''the probe gate is not available yet; use job_status or dispatch'')
      else Inl (writeError 400 ''unsupported_gate'' ''gate must be job_status or dispatch''))"

definition encode_selfupdate :: "SelfUpdateParams \<Rightarrow> raw" where
  "encode_selfupdate p =
     RawDoc (VMap [(''version'', VStr (su_Version p)), (''artifact_url'', VStr (su_ArtifactURL p)),
       (''checksum_sha256'', VStr (su_ChecksumSHA256 p)), (''signature'', VStr (su_Signature p))])"

definition version_params :: "string \<Rightarrow> FleetVersion \<Rightarrow> SelfUpdateParams" where
  "version_params version v = \<lparr>su_Version = version, su_ArtifactURL = fv_ArtifactURL v, su_ChecksumSHA256 = ToLower (fv_ChecksumSHA256 v),
     su_Signature = fv_Signature v\<rparr>"

text \<open>\<open>keys\<close> is \<^term>\<open>None\<close> while no key source is configured.\<close>

definition selfUpdateParams :: "fleet_lib \<Rightarrow> (fleet_error + KeySet) option \<Rightarrow> string \<Rightarrow> FleetVersion \<Rightarrow> raw option" where
  "selfUpdateParams lib keys version v =
     (if (case fl_parseURL lib (fv_ArtifactURL v) of None \<Rightarrow> True | Some u \<Rightarrow> url_Scheme u \<noteq> ''https'' \<or> url_Host u = [] \<or> url_User u) then None
      else if hex_len (fv_ChecksumSHA256 v) \<noteq> Some 32 then None
      else case keys of
             Some (Inr ks) \<Rightarrow>
               (let p = version_params version v in
                if Verify lib ks (params_release p) (su_Signature p) \<noteq> None then None else Some (encode_selfupdate p))
           | _ \<Rightarrow> None)"

text \<open>The empty code lets a rollout go ahead; \<^term>\<open>None\<close> is a failed query.\<close>

definition rolloutPolicyCheck :: "string \<Rightarrow> string \<Rightarrow> int \<Rightarrow> 'm saas_fleet_scheme \<Rightarrow> string option" where
  "rolloutPolicyCheck tid version now st =
     (case tbl_first (ss_policies st) tid of
        DbErr \<Rightarrow> None
      | NotFound \<Rightarrow> Some errCodeApprovalWithdrawn
      | Found p \<Rightarrow>
          if up_ApprovedVersion p \<noteq> Some version then Some errCodeApprovalWithdrawn
          else (case (up_WindowStart p, up_WindowEnd p) of
                  (Some s, Some e) \<Rightarrow> if now < s \<or> \<not> now < e then Some errCodeRolloutWindowClosed else Some []
                | _ \<Rightarrow> Some []))"

definition unfinished :: "AssetActionItemStatus \<Rightarrow> bool" where
  "unfinished s = (s \<in> {ActionItemQueued, ActionItemDispatching, ActionItemRunning})"

definition sproutsWithUpdateInProgress :: "string \<Rightarrow> sproutByAssetItem list \<Rightarrow> 'm saas_actions_scheme \<Rightarrow> string list option" where
  "sproutsWithUpdateInProgress tid rows st =
     (let ids = map sb_SproutID rows in
      if ids = [] then Some []
      else if \<not> tbl_up (ss_items st) \<or> \<not> tbl_up (ss_batches st) then None
      else Some (remdups (map (\<lambda>(_, i). ai_SproutID i)
             (tbl_find (ss_items st) (\<lambda>k i. ai_TenantID i = tid \<and> unfinished (ai_Status i) \<and> ai_SproutID i \<in> set ids \<and>
                (case tbl_get (ss_batches st) (fst k) of
                   None \<Rightarrow> False | Some b \<Rightarrow> ab_TenantID b = ai_TenantID i \<and> ab_ActionType b = ActionSelfUpdate))))))"

record fleetUpdateRequest =
  fu_AssetIDs :: "string list"
  fu_TargetVersion :: string
  fu_BatchSize :: "int option"
  fu_Gate :: string

definition decode_fleetUpdateRequest :: "raw \<Rightarrow> fleetUpdateRequest \<times> bool" where
  "decode_fleetUpdateRequest body =
     (let (kvs, e0) = strict_fields [''asset_ids'', ''target_version'', ''batch_size'', ''gate''] body;
          (ids, e1) = dec_field dec_strs ''asset_ids'' kvs []; (v, e2) = dec_field dec_str ''target_version'' kvs [];
          (n, e3) = dec_field (dec_ptr dec_int 0) ''batch_size'' kvs None; (g, e4) = dec_field dec_str ''gate'' kvs []
      in (\<lparr>fu_AssetIDs = ids, fu_TargetVersion = v, fu_BatchSize = n, fu_Gate = g\<rparr>, e0 \<or> e1 \<or> e2 \<or> e3 \<or> e4))"

text \<open>The refusal that a policy code stands for when the rollout is requested.\<close>

definition policy_refusal :: "string option \<Rightarrow> 'a response option" where
  "policy_refusal code =
     (case code of
        None \<Rightarrow> Some (writeError 500 ''internal_error'' ''failed to look up update policy'')
      | Some c \<Rightarrow>
          if c = errCodeApprovalWithdrawn
          then Some (writeError 409 ''version_not_approved''
                 ''target_version is not the tenant's approved version; approve it with PATCH .../update-policy first'')
          else if c = errCodeRolloutWindowClosed
          then Some (writeError 409 ''outside_rollout_window'' ''now is outside the tenant's rollout window'')
          else None)"

record fleet_env =
  fe_enabled :: bool
  fe_now :: int
  fe_lib :: fleet_lib
  fe_keys :: "(fleet_error + KeySet) option"
  fe_nkeys :: nkey_db

text \<open>
  The handler reads the database four times and then writes it, in five transactions; between
  them other requests and workers may change it.  \<open>others\<close> is what they do before each
  transaction after the first, and \<open>after others n st\<close> the state the transaction number \<open>n\<close> finds.
\<close>

primrec after :: "(nat \<Rightarrow> 's \<Rightarrow> 's) \<Rightarrow> nat \<Rightarrow> 's \<Rightarrow> 's" where
  "after others 0 st = st"
| "after others (Suc n) st = others n (after others n st)"

lemma after_id [simp]: "after (\<lambda>_. id) n st = st"
  by (induction n) simp_all

text \<open>
  The response, and what \<open>startRollout\<close> is given: the items and the version.  A body longer than
  \<open>maxUpdateRequestBytes\<close> fails to decode like a malformed one, with the same answer: both are
  \<^term>\<open>RawBad\<close>.
\<close>

definition CreateFleetUpdateBatch ::
  "fleet_env \<Rightarrow> string option \<Rightarrow> raw \<Rightarrow> string \<Rightarrow> (nat \<Rightarrow> 'm saas_fleet_scheme \<Rightarrow> 'm saas_fleet_scheme) \<Rightarrow>
   'm saas_fleet_scheme \<Rightarrow> 'm saas_fleet_scheme \<times> string response \<times> (item_key \<times> AssetActionItem) list \<times> string" where
  "CreateFleetUpdateBatch env rand body tid others st =
     (if \<not> fe_enabled env then (st, writeError 404 ''not_found'' ''not found'', [], [])
      else case tenantActive st tid of
        Some r \<Rightarrow> (st, r, [], [])
      | None \<Rightarrow>
          let (req, err) = decode_fleetUpdateRequest body in
          if err then (st, writeError 400 ''invalid_request''
                   ''request body must be valid JSON with asset_ids, target_version and optionally batch_size, gate'', [], [])
          else (case parseActionAssetIDs (fu_AssetIDs req) of
            Inl r \<Rightarrow> (st, r, [], [])
          | Inr assets \<Rightarrow>
          (case parseUpdateBatchSize (fu_BatchSize req) of
            Inl r \<Rightarrow> (st, r, [], [])
          | Inr width \<Rightarrow>
          (case parseUpdateGate (fu_Gate req) of
            Inl r \<Rightarrow> (st, r, [], [])
          | Inr gate \<Rightarrow>
            let version = TrimSpace (fu_TargetVersion req) in
            if version = [] then (st, writeError 400 ''invalid_request'' ''target_version is required'', [], [])
            else if length version > maxFleetVersionLen then (st, writeError 400 ''invalid_request'' ''target_version is too long'', [], [])
            else if \<not> tbl_up (ss_versions (after others 1 st)) then (after others 1 st, writeError 500 ''internal_error'' ''failed to look up version'', [], [])
            else (case tbl_get (ss_versions (after others 1 st)) version of
              None \<Rightarrow> (after others 1 st, writeError 400 ''unknown_version'' ''target_version is not in the version catalog'', [], [])
            | Some v \<Rightarrow>
            (case selfUpdateParams (fe_lib env) (fe_keys env) version v of
              None \<Rightarrow> (after others 1 st, writeError 500 ''internal_error'' ''the catalog entry for this version is invalid; contact support'', [], [])
            | Some params \<Rightarrow>
            (case policy_refusal (rolloutPolicyCheck tid version (fe_now env) (after others 2 st)) of
              Some r \<Rightarrow> (after others 2 st, r, [], [])
            | None \<Rightarrow>
            (case resolveAssetIDs (fe_nkeys env) tid assets (after others 3 st) of
              None \<Rightarrow> (after others 3 st, writeError 500 ''internal_error'' ''failed to resolve asset ids'', [], [])
            | Some rows \<Rightarrow>
            (case sproutsWithUpdateInProgress tid rows (after others 4 st) of
              None \<Rightarrow> (after others 4 st, writeError 500 ''internal_error'' ''failed to check for updates in progress'', [], [])
            | Some busy \<Rightarrow>
            (case createBatch rand \<lparr>ab_TenantID = tid, ab_ActionType = ActionSelfUpdate, ab_ActionParams = params, ab_Requested = [],
                    ab_RolloutBatchSize = width, ab_RolloutGate = gate, ab_CreatedAt = fe_now env\<rparr> assets rows
                    (\<lambda>sid. if sid \<in> set busy then Some errCodeUpdateInProgress else None) (after others 5 st) of
              None \<Rightarrow> (after others 5 st, writeError 500 ''internal_error'' ''failed to create update batch'', [], [])
            | Some (st', b, queued) \<Rightarrow> (st', writeJSON 202 b, queued, version)))))))))))"

definition GetFleetUpdateBatch ::
  "bool \<Rightarrow> job_reader option \<Rightarrow> string \<Rightarrow> string \<Rightarrow> 'm saas_actions_scheme \<Rightarrow> 'm saas_actions_scheme \<times> actionBatchResponse response" where
  "GetFleetUpdateBatch enabled reader b tid st =
     (if \<not> enabled then (st, writeError 404 ''not_found'' ''not found'') else writeBatchStatus reader ActionSelfUpdate b tid st)"

section \<open>The waves\<close>

definition haltRollout :: "string \<Rightarrow> string \<Rightarrow> string \<Rightarrow> 'm saas_actions_scheme \<Rightarrow> 'm saas_actions_scheme" where
  "haltRollout b tid code st =
     st\<lparr>ss_items := tbl_update_where (ss_items st) (\<lambda>k i. fst k = b \<and> ai_TenantID i = tid \<and> ai_Status i = ActionItemQueued)
          (apply_itemUpdate (failedUpdate code))\<rparr>"

definition unresponsive_update :: itemUpdate where
  "unresponsive_update = (set_status ActionItemUnresponsiveAfterUpdate)\<lparr>iu_ErrorCode := Some errCodeUnresponsiveAfterUpdate\<rparr>"

definition markUnresponsive :: "(item_key \<times> AssetActionItem) list \<Rightarrow> 'm saas_actions_scheme \<Rightarrow> 'm saas_actions_scheme" where
  "markUnresponsive items st =
     foldl (\<lambda>st (k, i). if ai_Status i \<noteq> ActionItemRunning then st
        else fst (updateItem k (ai_TenantID i) ActionItemRunning (apply_itemUpdate unresponsive_update) st)) st items"

definition loadWaveItems ::
  "string \<Rightarrow> string \<Rightarrow> (item_key \<times> AssetActionItem) list \<Rightarrow> 'm saas_actions_scheme \<Rightarrow> (item_key \<times> AssetActionItem) list option" where
  "loadWaveItems b tid wave st =
     (if \<not> tbl_up (ss_items st) then None
      else Some (sort_key (\<lambda>(_, i). ai_Position i)
        (tbl_find (ss_items st) (\<lambda>k i. fst k = b \<and> ai_TenantID i = tid \<and> snd k \<in> set (map (\<lambda>(k, _). snd k) wave)))))"

record rollout_env =
  re_world :: "nat \<Rightarrow> saas_fleet \<Rightarrow> saas_fleet"
  re_now :: "nat \<Rightarrow> int"
  re_bus :: "(SproutActionRequest \<Rightarrow> dispatch_outcome) option"
  re_reader :: "(nat \<Rightarrow> job_reader) option"

definition settled :: "(item_key \<times> AssetActionItem) list \<Rightarrow> bool" where
  "settled items = list_all (\<lambda>(_, i). ai_Status i \<notin> {ActionItemRunning, ActionItemDispatching}) items"

text \<open>The polling loop; \<^term>\<open>None\<close> when the fuel runs out.  Otherwise the state, the tick and whether the wave passed.\<close>

fun await_loop ::
  "nat \<Rightarrow> rollout_env \<Rightarrow> string \<Rightarrow> AssetActionBatch \<Rightarrow> (item_key \<times> AssetActionItem) list \<Rightarrow> int \<Rightarrow> nat \<Rightarrow> saas_fleet \<Rightarrow>
   (saas_fleet \<times> nat \<times> bool) option" where
  "await_loop 0 env b batch wave deadline n st = None"
| "await_loop (Suc fuel) env b batch wave deadline n st =
     (let st1 = re_world env n st in
      case loadWaveItems b (ab_TenantID batch) wave st1 of
        None \<Rightarrow> Some (st1, Suc n, False)
      | Some items \<Rightarrow>
          if ab_RolloutGate batch = gateDispatch
          then Some (st1, Suc n, list_all (\<lambda>(_, i). ai_Status i \<in> {ActionItemRunning, ActionItemSucceeded}) items)
          else let (st2, items') = refreshItems (map_option (\<lambda>r. r n) (re_reader env)) (ab_TenantID batch) items st1 in
            if settled items' then Some (st2, Suc n, list_all (\<lambda>(_, i). ai_Status i = ActionItemSucceeded) items')
            else if \<not> re_now env n < deadline then Some (markUnresponsive items' st2, Suc n, False)
            else await_loop fuel env b batch wave deadline (Suc n) st2)"

definition awaitWave ::
  "nat \<Rightarrow> rollout_env \<Rightarrow> string \<Rightarrow> AssetActionBatch \<Rightarrow> (item_key \<times> AssetActionItem) list \<Rightarrow> nat \<Rightarrow> saas_fleet \<Rightarrow>
   (saas_fleet \<times> nat \<times> bool) option" where
  "awaitWave fuel env b batch wave n st = await_loop fuel env b batch wave (re_now env n + rolloutWaveTimeout) (Suc n) st"

text \<open>The loop over the waves, from the items that are left.\<close>

function rollout_waves ::
  "nat \<Rightarrow> rollout_env \<Rightarrow> string \<Rightarrow> AssetActionBatch \<Rightarrow> string \<Rightarrow> nat \<Rightarrow> (item_key \<times> AssetActionItem) list \<Rightarrow> nat \<Rightarrow> saas_fleet \<Rightarrow> saas_fleet option" where
  "rollout_waves fuel env b batch version width queued n st =
     (if queued = [] then Some st
      else let st1 = re_world env n st;
               code = (case rolloutPolicyCheck (ab_TenantID batch) version (re_now env n) st1 of None \<Rightarrow> ErrorInternal | Some c \<Rightarrow> c)
           in if code \<noteq> [] then Some (haltRollout b (ab_TenantID batch) code st1)
              else let wave = take (max 1 width) queued; st2 = dispatchBatch (re_bus env) batch wave st1 in
                (case awaitWave fuel env b batch wave (Suc n) st2 of
                   None \<Rightarrow> None
                 | Some (st3, n', passed) \<Rightarrow>
                     if \<not> passed then Some (haltRollout b (ab_TenantID batch) errCodeRolloutHalted (re_world env n' st3))
                     else rollout_waves fuel env b batch version width (drop (max 1 width) queued) n' st3))"
  by pat_completeness auto
termination rollout_waves
  by (relation "measure (\<lambda>(fuel, env, b, batch, version, width, queued, n, st). length queued)") auto

declare rollout_waves.simps [simp del]

definition runRollout ::
  "nat \<Rightarrow> rollout_env \<Rightarrow> string \<Rightarrow> AssetActionBatch \<Rightarrow> (item_key \<times> AssetActionItem) list \<Rightarrow> string \<Rightarrow> saas_fleet \<Rightarrow> saas_fleet option" where
  "runRollout fuel env b batch queued version st =
     (if re_bus env = None then Some st
      else if ab_RolloutGate batch = gateJobStatus \<and> re_reader env = None then Some (haltRollout b (ab_TenantID batch) ErrorInternal st)
      else rollout_waves fuel env b batch version (nat (ab_RolloutBatchSize batch)) queued 0 st)"


section \<open>Stored policies are valid\<close>

text \<open>What may happen to policies and catalog: a PATCH, a release published, the database coming and going.\<close>

inductive policy_step :: "saas_fleet \<Rightarrow> saas_fleet \<Rightarrow> bool" where
  "PatchUpdatePolicy parse now body tid st = (st', resp) \<Longrightarrow> policy_step st st'"
| "tbl_create (ss_versions st) v row = Some vs \<Longrightarrow> policy_step st (st\<lparr>ss_versions := vs\<rparr>)"
| "policy_step st (st\<lparr>ss_policies := (ss_policies st)\<lparr>tbl_up := b\<rparr>, ss_versions := (ss_versions st)\<lparr>tbl_up := c\<rparr>\<rparr>)"

definition policy_ok :: "'m saas_fleet_scheme \<Rightarrow> bool" where
  "policy_ok st = (tbl_wf (ss_policies st) \<and> (\<forall>tid p. tbl_get (ss_policies st) tid = Some p \<longrightarrow>
     validateUpdatePolicy p = None \<and> (\<forall>v. up_ApprovedVersion p = Some v \<longrightarrow> tbl_get (ss_versions st) v \<noteq> None)))"

lemma PatchUpdatePolicy_cases:
  assumes "PatchUpdatePolicy parse now body tid st = (st', resp)"
  obtains (same) "st' = st" | (set) req old p where "tbl_up (ss_policies st)" "check_approved req st = (None :: TenantUpdatePolicy response option)"
    "old = (case tbl_get (ss_policies st) tid of None \<Rightarrow> default_policy\<lparr>up_UpdatedAt := now\<rparr> | Some p \<Rightarrow> p)"
    "p = (patched req old)\<lparr>up_UpdatedAt := now\<rparr>" "validateUpdatePolicy p = None" "st' = st\<lparr>ss_policies := tbl_put (ss_policies st) tid p\<rparr>"
proof (cases "tenantExists st tid :: TenantUpdatePolicy response option")
  case (Some r)
  then show ?thesis using assms same by (simp add: PatchUpdatePolicy_def)
next
  case None
  obtain req err where d: "decode_patch parse body = (req, err)" by (meson surj_pair)
  let ?old = "case tbl_get (ss_policies st) tid of None \<Rightarrow> default_policy\<lparr>up_UpdatedAt := now\<rparr> | Some p \<Rightarrow> p"
  let ?p = "(patched req ?old)\<lparr>up_UpdatedAt := now\<rparr>"
  consider (refused) "st' = st" | (passed) "\<not> err" "(check_approved req st :: TenantUpdatePolicy response option) = None" "tbl_up (ss_policies st)"
      "validateUpdatePolicy ?p = None"
    using assms None unfolding PatchUpdatePolicy_def d Let_def
    by (cases "check_approved req st :: TenantUpdatePolicy response option"; cases "validateUpdatePolicy ?p") (simp_all split: if_splits)
  then show ?thesis
  proof cases
    case passed
    have "st' = st \<or> st' = st\<lparr>ss_policies := tbl_put (ss_policies st) tid ?p\<rparr>"
      using assms None passed unfolding PatchUpdatePolicy_def d Let_def by (simp split: if_splits)
    then show ?thesis using same set[OF passed(3,2) refl refl passed(4)] by blast
  qed (rule same)
qed

lemma patch_keeps_ok:
  assumes "PatchUpdatePolicy parse now body tid st = (st', resp)" "policy_ok st"
  shows "policy_ok st'"
  using assms(1)
proof (cases rule: PatchUpdatePolicy_cases)
  case same
  then show ?thesis using assms(2) by simp
next
  case (set req old p)
  have wf: "tbl_ok (ss_policies st)" using assms(2) set(1) by (simp add: policy_ok_def tbl_ok_def)
  have ver: "tbl_get (ss_versions st) v \<noteq> None" if "up_ApprovedVersion p = Some v" for v
  proof (cases "pu_ApprovedVersion req")
    case Absent
    then have "up_ApprovedVersion old = Some v" using that set(4) by (simp add: patched_def)
    then show ?thesis using set(3) assms(2) by (auto simp: policy_ok_def default_policy_def split: option.splits)
  next
    case IsNull
    then show ?thesis using that set(4) by (simp add: patched_def)
  next
    case (IsValue w)
    then have "v = TrimSpace w" using that set(4) by (simp add: patched_def)
    then show ?thesis using set(2) IsValue by (auto simp: check_approved_def fleetVersionExists_def Let_def split: option.splits bool.splits if_splits)
  qed
  show ?thesis using assms(2) set(5) ver wf tbl_okD(2)[OF tbl_ok_put[OF wf, of tid p]]
    unfolding policy_ok_def set(6) by (auto simp: tbl_get_put[OF wf])
qed

interpretation policies: preserved policy_step policy_ok
proof
  fix st st' assume "policy_ok st" "policy_step st st'"
  from this(2,1) show "policy_ok st'"
  proof (induction rule: policy_step.induct)
    case (2 st v row vs)
    then show ?case by (auto simp: policy_ok_def tbl_create_get(1)[OF 2(1)])
  next
    case (3 st b c)
    then show ?case by (simp add: policy_ok_def tbl_wf_def tbl_get_def)
  qed (blast intro: patch_keeps_ok)
qed

text \<open>
  Through any sequence of policy changes, published releases and outages, every
  stored policy is valid: automatic updates only with an approved version, an
  approved version that is in the catalog, and a rollout window that is absent or
  ends after it starts.
\<close>

theorem policies_stay_valid:
  assumes "policy_ok st0" "policy_step\<^sup>*\<^sup>* st0 st" "tbl_get (ss_policies st) tid = Some p"
  shows "(up_AutoUpdate p \<longrightarrow> (\<exists>v. up_ApprovedVersion p = Some v)) \<and>
    (\<forall>v. up_ApprovedVersion p = Some v \<longrightarrow> tbl_get (ss_versions st) v \<noteq> None) \<and>
    (up_WindowStart p = None \<and> up_WindowEnd p = None \<or> (\<exists>s e. up_WindowStart p = Some s \<and> up_WindowEnd p = Some e \<and> s < e))"
proof -
  have "policy_ok st" using policies.run_keeps[OF assms(2,1)] .
  then have "validateUpdatePolicy p = None" "\<forall>v. up_ApprovedVersion p = Some v \<longrightarrow> tbl_get (ss_versions st) v \<noteq> None"
    using assms(3) by (auto simp: policy_ok_def)
  then show ?thesis by (auto simp: validateUpdatePolicy_def split: if_splits option.splits)
qed

section \<open>What an admitted rollout may send\<close>

lemma parse_size_ok: "parseUpdateBatchSize n = Inr w \<Longrightarrow> 1 \<le> w \<and> w \<le> 25"
  by (auto simp: parseUpdateBatchSize_def defaultUpdateBatchSize_def maxUpdateBatchSize_def split: option.splits if_splits)

lemma parse_gate_ok: "parseUpdateGate g = Inr gate \<Longrightarrow> gate = gateJobStatus \<or> gate = gateDispatch"
  by (auto simp: parseUpdateGate_def split: if_splits)

lemma rollout_refusals:
  "parseUpdateBatchSize n \<noteq> Inl (Reply c x)" "parseUpdateGate g \<noteq> Inl (Reply c x)" "policy_refusal code \<noteq> Some (Reply c x)"
  by (auto simp: parseUpdateBatchSize_def parseUpdateGate_def policy_refusal_def responses split: option.splits)

lemma decode_encoded_selfupdate: "decode_selfupdate (encode_selfupdate p) = (p, False)"
  by (cases p) (simp add: decode_selfupdate_def encode_selfupdate_def raw_strs_def raw_str_def raw_fields_def struct_fields_def dec_field_def dec_str_def
      ToLower_def lower_char_def)

lemma CreateFleetUpdateBatch_202:
  assumes "CreateFleetUpdateBatch env rand body tid others st = (st', Reply code b, queued, version)"
  obtains req assets width gate v params rows busy where
    "tenantActive st tid = (None :: string response option)" "decode_fleetUpdateRequest body = (req, False)"
    "parseActionAssetIDs (fu_AssetIDs req) = (Inr assets :: string response + string list)"
    "parseUpdateBatchSize (fu_BatchSize req) = (Inr width :: string response + int)" "parseUpdateGate (fu_Gate req) = (Inr gate :: string response + string)"
    "tbl_get (ss_versions (after others 1 st)) version = Some v" "selfUpdateParams (fe_lib env) (fe_keys env) version v = Some params"
    "policy_refusal (rolloutPolicyCheck tid version (fe_now env) (after others 2 st)) = (None :: string response option)"
    "resolveAssetIDs (fe_nkeys env) tid assets (after others 3 st) = Some rows" "sproutsWithUpdateInProgress tid rows (after others 4 st) = Some busy"
    "createBatch rand \<lparr>ab_TenantID = tid, ab_ActionType = ActionSelfUpdate, ab_ActionParams = params, ab_Requested = [],
        ab_RolloutBatchSize = width, ab_RolloutGate = gate, ab_CreatedAt = fe_now env\<rparr> assets rows
        (\<lambda>sid. if sid \<in> set busy then Some errCodeUpdateInProgress else None) (after others 5 st) = Some (st', b, queued)"
    "fe_enabled env" "version \<noteq> []" "version = TrimSpace (fu_TargetVersion req)"
proof -
  obtain req err where d: "decode_fleetUpdateRequest body = (req, err)" by (meson surj_pair)
  have en: "fe_enabled env" "tenantActive st tid = (None :: string response option)" "\<not> err"
    using assms unfolding CreateFleetUpdateBatch_def d Let_def by (auto simp: responses refusals split: if_splits option.splits)
  obtain assets where a: "parseActionAssetIDs (fu_AssetIDs req) = (Inr assets :: string response + string list)"
    using assms en unfolding CreateFleetUpdateBatch_def d Let_def by (auto simp: responses refusals split: sum.splits)
  obtain width where w: "parseUpdateBatchSize (fu_BatchSize req) = (Inr width :: string response + int)"
    using assms en a unfolding CreateFleetUpdateBatch_def d Let_def by (auto simp: responses rollout_refusals split: sum.splits)
  obtain gate where g: "parseUpdateGate (fu_Gate req) = (Inr gate :: string response + string)"
    using assms en a w unfolding CreateFleetUpdateBatch_def d Let_def by (auto simp: responses rollout_refusals split: sum.splits)
  let ?v = "TrimSpace (fu_TargetVersion req)"
  obtain v where v: "tbl_get (ss_versions (after others 1 st)) ?v = Some v" "?v \<noteq> []"
    using assms en a w g unfolding CreateFleetUpdateBatch_def d Let_def by (auto simp: responses split: if_splits option.splits)
  obtain params where p: "selfUpdateParams (fe_lib env) (fe_keys env) ?v v = Some params"
    using assms en a w g v unfolding CreateFleetUpdateBatch_def d Let_def by (auto simp: responses split: if_splits option.splits)
  have pol: "policy_refusal (rolloutPolicyCheck tid ?v (fe_now env) (after others 2 st)) = (None :: string response option)"
    using assms en a w g v p unfolding CreateFleetUpdateBatch_def d Let_def by (auto simp: responses rollout_refusals split: if_splits option.splits)
  obtain rows where r: "resolveAssetIDs (fe_nkeys env) tid assets (after others 3 st) = Some rows"
    using assms en a w g v p pol unfolding CreateFleetUpdateBatch_def d Let_def by (auto simp: responses split: if_splits option.splits)
  obtain busy where bz: "sproutsWithUpdateInProgress tid rows (after others 4 st) = Some busy"
    using assms en a w g v p pol r unfolding CreateFleetUpdateBatch_def d Let_def by (auto simp: responses split: if_splits option.splits)
  have cb: "createBatch rand \<lparr>ab_TenantID = tid, ab_ActionType = ActionSelfUpdate, ab_ActionParams = params, ab_Requested = [],
        ab_RolloutBatchSize = width, ab_RolloutGate = gate, ab_CreatedAt = fe_now env\<rparr> assets rows
        (\<lambda>sid. if sid \<in> set busy then Some errCodeUpdateInProgress else None) (after others 5 st) = Some (st', b, queued) \<and> version = ?v"
    using assms en a w g v p pol r bz unfolding CreateFleetUpdateBatch_def d Let_def by (auto simp: responses split: if_splits option.splits)
  show ?thesis by (rule that[of req assets width gate v params rows busy]) (use d en a w g v p pol r bz cb in auto)
qed

lemma selfUpdateParams_Some:
  assumes "selfUpdateParams lib keys version v = Some params"
  shows "\<exists>ks. keys = Some (Inr ks) \<and> params = encode_selfupdate (version_params version v) \<and>
    Verify lib ks (params_release (version_params version v)) (fv_Signature v) = None"
proof -
  from assms obtain ks where "keys = Some (Inr ks)" by (auto simp: selfUpdateParams_def split: if_splits option.splits sum.splits)
  then show ?thesis using assms by (auto simp: selfUpdateParams_def Let_def version_params_def split: if_splits)
qed

lemma admitted_not_busy:
  assumes "CreateFleetUpdateBatch env rand body tid others st = (st', Reply code b, queued, version)"
    and q: "(k, i) \<in> set queued" and i': "tbl_get (ss_items (after others 4 st)) k' = Some i'" "ai_TenantID i' = tid" "ai_SproutID i' = ai_SproutID i"
      "\<exists>ub. tbl_get (ss_batches (after others 4 st)) (fst k') = Some ub \<and> ab_TenantID ub = tid \<and> ab_ActionType ub = ActionSelfUpdate"
  shows "\<not> unfinished (ai_Status i')"
proof
  assume un: "unfinished (ai_Status i')"
  obtain req assets width gate v params rows busy where c:
    "parseActionAssetIDs (fu_AssetIDs req) = (Inr assets :: string response + string list)" "sproutsWithUpdateInProgress tid rows (after others 4 st) = Some busy"
    "createBatch rand \<lparr>ab_TenantID = tid, ab_ActionType = ActionSelfUpdate, ab_ActionParams = params, ab_Requested = [],
        ab_RolloutBatchSize = width, ab_RolloutGate = gate, ab_CreatedAt = fe_now env\<rparr> assets rows
        (\<lambda>sid. if sid \<in> set busy then Some errCodeUpdateInProgress else None) (after others 5 st) = Some (st', b, queued)"
    "decode_fleetUpdateRequest body = (req, False)"
    by (rule CreateFleetUpdateBatch_202[OF assms(1)]) (rule that)
  note cr = createBatch_rows[OF c(3) parseActionAssetIDs_sound(1)[OF c(1)], unfolded AssetActionBatch.select_convs]
  from q have m: "(k, i) \<in> set (batch_items b tid assets (byAsset rows) (\<lambda>sid. if sid \<in> set busy then Some errCodeUpdateInProgress else None))"
    "ai_Status i = ActionItemQueued" using cr(1) by auto
  then obtain pos where "i = new_item (byAsset rows) (\<lambda>sid. if sid \<in> set busy then Some errCodeUpdateInProgress else None) tid pos (snd k)"
    using batch_items_mem by blast
  then obtain row where row: "byAsset rows (snd k) = Some row" "ai_SproutID i = sb_SproutID row"
      "(if sb_SproutID row \<in> set busy then Some errCodeUpdateInProgress else None) = None \<or>
       (if sb_SproutID row \<in> set busy then Some errCodeUpdateInProgress else None) = Some []"
    using new_item_queued m(2) by blast
  then have nb: "ai_SproutID i' \<notin> set busy" using i'(3) by (auto simp: item_codes split: if_splits)
  have "row \<in> set rows" using row(1) byAsset_Some by blast
  then have mem: "ai_SproutID i' \<in> set (map sb_SproutID rows)" using row(2) i'(3) by auto
  then have "map sb_SproutID rows \<noteq> []" by auto
  then have bz: "busy = remdups (map (\<lambda>(_, i). ai_SproutID i)
           (tbl_find (ss_items (after others 4 st)) (\<lambda>k i. ai_TenantID i = tid \<and> unfinished (ai_Status i) \<and> ai_SproutID i \<in> set (map sb_SproutID rows) \<and>
              (case tbl_get (ss_batches (after others 4 st)) (fst k) of
                 None \<Rightarrow> False | Some b \<Rightarrow> ab_TenantID b = ai_TenantID i \<and> ab_ActionType b = ActionSelfUpdate))))" and up: "tbl_up (ss_items (after others 4 st))"
    using c(2) unfolding sproutsWithUpdateInProgress_def Let_def by (auto split: if_splits)
  have "(k', i') \<in> set (tbl_rows (ss_items (after others 4 st)))" using i'(1) by (auto simp: tbl_get_def dest: map_of_SomeD)
  then have "ai_SproutID i' \<in> set busy" unfolding bz using i' un mem up by (force simp: tbl_find_def)
  then show False using nb by blast
qed

lemma policy_admits:
  assumes "policy_refusal (rolloutPolicyCheck tid version now st) = (None :: string response option)"
  shows "\<exists>p. tbl_get (ss_policies st) tid = Some p \<and> up_ApprovedVersion p = Some version \<and>
    (\<forall>s e. up_WindowStart p = Some s \<longrightarrow> up_WindowEnd p = Some e \<longrightarrow> s \<le> now \<and> now < e)"
  using assms
  by (auto simp: rolloutPolicyCheck_def policy_refusal_def item_codes tbl_first_def tbl_get_def split: qres.splits option.splits if_splits)

text \<open>
  Property C17. A rollout the service admits is of the version the request names, and was
  checked against the database as it was at each of the handler's reads: the version is in the
  catalog; it is the version the tenant's policy approves, and the current time lies within the
  policy's window where it sets one; no item is queued for a sprout that has an unfinished
  update of the tenant at the time of that check (the batch is written later, and a racing
  request may add one in between).  The stored batch is for exactly the assets of the request, in waves
  of 1 to 25; its params, as the farmer decodes them, are the catalog's release with a signature
  that verifies, and the farmer, reading the same keys, verifies it again and never refuses it
  as invalid.
\<close>

theorem rollout_admission:
  assumes "CreateFleetUpdateBatch env rand body tid others st = (st', Reply code b, queued, version)"
  shows "\<exists>req v pol ks batch p. decode_fleetUpdateRequest body = (req, False) \<and> version = TrimSpace (fu_TargetVersion req) \<and>
    tbl_get (ss_versions (after others 1 st)) version = Some v \<and> fe_keys env = Some (Inr ks) \<and>
    tbl_get (ss_policies (after others 2 st)) tid = Some pol \<and> up_ApprovedVersion pol = Some version \<and>
    (\<forall>s e. up_WindowStart pol = Some s \<longrightarrow> up_WindowEnd pol = Some e \<longrightarrow> s \<le> fe_now env \<and> fe_now env < e) \<and>
    (\<forall>k i k' i'. (k, i) \<in> set queued \<longrightarrow> tbl_get (ss_items (after others 4 st)) k' = Some i' \<longrightarrow> ai_TenantID i' = tid \<longrightarrow>
       ai_SproutID i' = ai_SproutID i \<longrightarrow>
       (\<exists>ub. tbl_get (ss_batches (after others 4 st)) (fst k') = Some ub \<and> ab_TenantID ub = tid \<and> ab_ActionType ub = ActionSelfUpdate) \<longrightarrow>
       \<not> unfinished (ai_Status i')) \<and>
    tbl_get (ss_batches st') b = Some batch \<and> ab_TenantID batch = tid \<and> ab_ActionType batch = ActionSelfUpdate \<and>
    distinct (ab_Requested batch) \<and> set (ab_Requested batch) = TrimSpace ` set (fu_AssetIDs req) \<and>
    1 \<le> ab_RolloutBatchSize batch \<and> ab_RolloutBatchSize batch \<le> 25 \<and> ab_RolloutGate batch \<in> {gateJobStatus, gateDispatch} \<and>
    decode_selfupdate (ab_ActionParams batch) = (p, False) \<and> p = version_params version v \<and>
    Verify (fe_lib env) ks (params_release p) (su_Signature p) = None \<and>
    (av_lib fenv = fe_lib env \<longrightarrow> av_keys fenv = fe_keys env \<longrightarrow> fresh_reply r \<longrightarrow> sa_Params (sar_Action areq) = ab_ActionParams batch \<longrightarrow>
       rep_ErrorCode (snd (runSproutSelfUpdate fenv fm areq r)) \<noteq> ErrorInvalidRequest)"
proof -
  obtain req assets width gate v params rows busy where c:
    "decode_fleetUpdateRequest body = (req, False)" "parseActionAssetIDs (fu_AssetIDs req) = (Inr assets :: string response + string list)"
    "parseUpdateBatchSize (fu_BatchSize req) = (Inr width :: string response + int)" "parseUpdateGate (fu_Gate req) = (Inr gate :: string response + string)"
    "tbl_get (ss_versions (after others 1 st)) version = Some v" "selfUpdateParams (fe_lib env) (fe_keys env) version v = Some params"
    "policy_refusal (rolloutPolicyCheck tid version (fe_now env) (after others 2 st)) = (None :: string response option)"
    "createBatch rand \<lparr>ab_TenantID = tid, ab_ActionType = ActionSelfUpdate, ab_ActionParams = params, ab_Requested = [],
        ab_RolloutBatchSize = width, ab_RolloutGate = gate, ab_CreatedAt = fe_now env\<rparr> assets rows
        (\<lambda>sid. if sid \<in> set busy then Some errCodeUpdateInProgress else None) (after others 5 st) = Some (st', b, queued)"
    "version = TrimSpace (fu_TargetVersion req)"
    by (rule CreateFleetUpdateBatch_202[OF assms]) (rule that)
  obtain ks where ks: "fe_keys env = Some (Inr ks)" "params = encode_selfupdate (version_params version v)"
      "Verify (fe_lib env) ks (params_release (version_params version v)) (fv_Signature v) = None" using selfUpdateParams_Some[OF c(6)] by blast
  note ids = parseActionAssetIDs_sound[OF c(2)]
  note cr = createBatch_rows[OF c(8) ids(1), unfolded AssetActionBatch.select_convs]
  let ?batch = "\<lparr>ab_TenantID = tid, ab_ActionType = ActionSelfUpdate, ab_ActionParams = params, ab_Requested = assets,
        ab_RolloutBatchSize = width, ab_RolloutGate = gate, ab_CreatedAt = fe_now env\<rparr>"
  have batch: "tbl_get (ss_batches st') b = Some ?batch" using cr(2)[of b] by simp
  obtain pol where pol: "tbl_get (ss_policies (after others 2 st)) tid = Some pol" "up_ApprovedVersion pol = Some version"
    "\<forall>s e. up_WindowStart pol = Some s \<longrightarrow> up_WindowEnd pol = Some e \<longrightarrow> s \<le> fe_now env \<and> fe_now env < e" using policy_admits[OF c(7)] by blast
  let ?p = "version_params version v"
  have dec: "decode_selfupdate params = (?p, False)" by (simp add: ks(2) decode_encoded_selfupdate)
  have sig: "Verify (fe_lib env) ks (params_release ?p) (su_Signature ?p) = None" using ks(3) by (simp add: version_params_def)
  then obtain msg where msg: "Message (fe_lib env) (params_release ?p) = Inr msg"
    by (auto simp: Verify_def split: if_splits sum.splits)
  have far: "rep_ErrorCode (snd (runSproutSelfUpdate fenv fm areq r)) \<noteq> ErrorInvalidRequest"
    if "av_lib fenv = fe_lib env" "av_keys fenv = fe_keys env" "fresh_reply r" "sa_Params (sar_Action areq) = params"
    using that dec sig msg ks(1) unfolding params_release_def
    by (auto simp: runSproutSelfUpdate_def Let_def fail_with_def fresh_reply_def codes split: sum.split prod.split)
  have busy: "\<not> unfinished (ai_Status i')"
    if "(k, i) \<in> set queued" "tbl_get (ss_items (after others 4 st)) k' = Some i'" "ai_TenantID i' = tid" "ai_SproutID i' = ai_SproutID i"
      "\<exists>ub. tbl_get (ss_batches (after others 4 st)) (fst k') = Some ub \<and> ab_TenantID ub = tid \<and> ab_ActionType ub = ActionSelfUpdate" for k i k' i'
    using admitted_not_busy[OF assms] that by blast
  show ?thesis using c(1,5,9) ks(1) pol batch parse_size_ok[OF c(3)] parse_gate_ok[OF c(4)] dec sig far busy ids(1,5)
    by (intro exI[of _ req] exI[of _ v] exI[of _ pol] exI[of _ ks] exI[of _ ?batch] exI[of _ ?p]) (auto 0 0)
qed

section \<open>Witnesses\<close>

definition demo_version :: FleetVersion where
  "demo_version = \<lparr>fv_ArtifactURL = ''https://h/a'', fv_ChecksumSHA256 = replicate 64 CHR ''a'', fv_ReleasedAt = 0, fv_Notes = [], fv_Signature = demo_signature\<rparr>"

definition demo_fleet :: saas_fleet where
  "demo_fleet = saas_actions.extend demo_actions (saas_fleet.fields \<lparr>tbl_rows = [(''1.0'', demo_version)], tbl_up = True\<rparr> \<lparr>tbl_rows = [], tbl_up = True\<rparr>)"

definition demo_policy_body :: raw where "demo_policy_body = RawDoc (VMap [(''approved_version'', VStr ''1.0''), (''auto_update'', VBool True)])"

definition demo_policy :: TenantUpdatePolicy where
  "demo_policy = \<lparr>up_ApprovedVersion = Some ''1.0'', up_AutoUpdate = True, up_WindowStart = None, up_WindowEnd = None, up_UpdatedAt = 5\<rparr>"

definition demo_approved :: saas_fleet where
  "demo_approved = demo_fleet\<lparr>ss_policies := \<lparr>tbl_rows = [(''t_1'', demo_policy)], tbl_up = True\<rparr>\<rparr>"

lemma demo_patch_request:
  "decode_patch (\<lambda>s. None) demo_policy_body =
     (\<lparr>pu_ApprovedVersion = IsValue ''1.0'', pu_AutoUpdate = IsValue True, pu_WindowStart = Absent, pu_WindowEnd = Absent\<rparr>, False)"
  "TrimSpace ''1.0'' = ''1.0''"
  by code_simp+

lemma demo_patched: "PatchUpdatePolicy (\<lambda>s. None) 5 demo_policy_body ''t_1'' demo_fleet = (demo_approved, Reply 200 demo_policy)"
  by (simp add: PatchUpdatePolicy_def demo_patch_request tenantExists_def demo_fleet_def saas_actions.defs saas_fleet.defs demo_actions_def demo_tenants_def
      tbl_get_def check_approved_def maxFleetVersionLen_def fleetVersionExists_def patched_def patch_opt_def default_policy_def validateUpdatePolicy_def
      tbl_put_def tbl_upsert_def demo_approved_def demo_policy_def responses Let_def)

theorem policies_stay_valid_witness:
  "policy_step\<^sup>*\<^sup>* demo_fleet demo_approved \<and> tbl_get (ss_policies demo_approved) ''t_1'' = Some demo_policy \<and>
   tbl_get (ss_versions demo_approved) ''1.0'' \<noteq> None"
proof -
  have ok: "policy_ok demo_fleet" by (simp add: policy_ok_def demo_fleet_def saas_actions.defs saas_fleet.defs tbl_wf_def tbl_get_def)
  have run: "policy_step\<^sup>*\<^sup>* demo_fleet demo_approved" using policy_step.intros(1)[OF demo_patched] by blast
  have p: "tbl_get (ss_policies demo_approved) ''t_1'' = Some demo_policy" by (simp add: demo_approved_def tbl_get_def)
  show ?thesis using policies_stay_valid[OF ok run p] run p by (simp add: demo_policy_def)
qed

definition demo_fleet_env :: fleet_env where
  "demo_fleet_env = \<lparr>fe_enabled = True, fe_now = 10, fe_lib = demo_fleet_lib, fe_keys = Some (Inr demo_keys), fe_nkeys = demo_nkeys [(''t_1'', ''web'')]\<rparr>"

definition demo_fleet_body :: raw where
  "demo_fleet_body = RawDoc (VMap [(''asset_ids'', VList [VStr ''a1'', VStr ''a2'']), (''target_version'', VStr ''1.0'')])"

lemma demo_fleet_request:
  "decode_fleetUpdateRequest demo_fleet_body = (\<lparr>fu_AssetIDs = [''a1'', ''a2''], fu_TargetVersion = ''1.0'', fu_BatchSize = None, fu_Gate = []\<rparr>, False)"
  "parseActionAssetIDs [''a1'', ''a2''] = (Inr [''a1'', ''a2''] :: string response + string list)"
  "tenantActive demo_approved ''t_1'' = (None :: string response option)"
  "resolveAssetIDs (demo_nkeys [(''t_1'', ''web'')]) ''t_1'' [''a1'', ''a2''] demo_approved =
     Some [\<lparr>sb_SproutID = ''web'', sb_AssetID = ''a1'', sb_KeyState = ''accepted'', sb_Connected = False\<rparr>]"
  by code_simp+

lemma demo_params: "selfUpdateParams demo_fleet_lib (Some (Inr demo_keys)) ''1.0'' demo_version = Some (encode_selfupdate (version_params ''1.0'' demo_version))"
proof -
  have h: "hex_len (replicate 64 CHR ''a'') = Some 32" "ToLower (replicate 64 CHR ''a'') = replicate 64 CHR ''a''" by code_simp+
  then have "params_release (version_params ''1.0'' demo_version) = demo_release"
    by (simp add: params_release_def version_params_def demo_version_def demo_release_def)
  then show ?thesis using h demo_verifies by (simp add: selfUpdateParams_def demo_version_def version_params_def demo_fleet_lib_def)
qed

definition demo_update :: AssetActionBatch where
  "demo_update = \<lparr>ab_TenantID = ''t_1'', ab_ActionType = ActionSelfUpdate, ab_ActionParams = encode_selfupdate (version_params ''1.0'' demo_version),
     ab_Requested = [], ab_RolloutBatchSize = 5, ab_RolloutGate = gateJobStatus, ab_CreatedAt = 10\<rparr>"

definition demo_resolved :: "sproutByAssetItem list" where
  "demo_resolved = [\<lparr>sb_SproutID = ''web'', sb_AssetID = ''a1'', sb_KeyState = ''accepted'', sb_Connected = False\<rparr>]"

lemma demo_update_created:
  "\<exists>st' b. createBatch demo_rand demo_update [''a1'', ''a2''] demo_resolved Map.empty demo_approved = Some (st', b, [((b, ''a1''), demo_web_item)])"
proof -
  obtain b where "newID ''b_'' demo_rand = Some b" by (simp add: newID_def demo_rand_def)
  then show ?thesis
    by (simp add: createBatch_def batch_items_def new_item_def byAsset_def keyStateAccepted_def tbl_create_def demo_approved_def demo_fleet_def
        demo_update_def demo_resolved_def saas_actions.defs saas_fleet.defs demo_actions_def tbl_get_def demo_web_item_def Let_def upt_rec)
qed

lemma demo_rollout:
  "\<exists>st' b. CreateFleetUpdateBatch demo_fleet_env demo_rand demo_fleet_body ''t_1'' (\<lambda>_. id) demo_approved = (st', Reply 202 b, [((b, ''a1''), demo_web_item)], ''1.0'')"
proof -
  have v: "tbl_up (ss_versions demo_approved)" "tbl_get (ss_versions demo_approved) ''1.0'' = Some demo_version"
    by (simp_all add: demo_approved_def demo_fleet_def saas_actions.defs saas_fleet.defs tbl_get_def)
  have pol: "policy_refusal (rolloutPolicyCheck ''t_1'' ''1.0'' 10 demo_approved) = (None :: string response option)"
    by (simp add: rolloutPolicyCheck_def demo_approved_def tbl_first_def tbl_get_def demo_policy_def policy_refusal_def item_codes)
  have busy: "sproutsWithUpdateInProgress ''t_1'' demo_resolved demo_approved = Some []"
    by (simp add: sproutsWithUpdateInProgress_def demo_resolved_def demo_approved_def demo_fleet_def saas_actions.defs saas_fleet.defs demo_actions_def tbl_find_def)
  show ?thesis using demo_update_created
    by (auto simp: CreateFleetUpdateBatch_def demo_fleet_env_def demo_fleet_request[folded demo_resolved_def] demo_patch_request(2) parseUpdateBatchSize_def
        defaultUpdateBatchSize_def parseUpdateGate_def maxFleetVersionLen_def v demo_params pol busy responses demo_update_def)
qed

theorem rollout_admission_witness:
  "\<exists>st' b batch. CreateFleetUpdateBatch demo_fleet_env demo_rand demo_fleet_body ''t_1'' (\<lambda>_. id) demo_approved = (st', Reply 202 b, [((b, ''a1''), demo_web_item)], ''1.0'') \<and>
     tbl_get (ss_batches st') b = Some batch \<and> decode_selfupdate (ab_ActionParams batch) = (version_params ''1.0'' demo_version, False)"
proof -
  obtain st' b where c: "CreateFleetUpdateBatch demo_fleet_env demo_rand demo_fleet_body ''t_1'' (\<lambda>_. id) demo_approved = (st', Reply 202 b, [((b, ''a1''), demo_web_item)], ''1.0'')"
    using demo_rollout by blast
  have v: "tbl_get (ss_versions demo_approved) ''1.0'' = Some demo_version"
    by (simp add: demo_approved_def demo_fleet_def saas_actions.defs saas_fleet.defs tbl_get_def)
  obtain batch where "tbl_get (ss_batches st') b = Some batch" "decode_selfupdate (ab_ActionParams batch) = (version_params ''1.0'' demo_version, False)"
    using rollout_admission[OF c, where fenv = demo_action_env and fm = demo_action_state] v unfolding after_id by fastforce
  then show ?thesis using c by blast
qed

end
