(* ===== verification/Saas_Rollout.thy ===== *)
theory Saas_Rollout
  imports Saas_Fleet
begin

text \<open>
  Everything that acts on batches and items of the hosted service, together: batches
  created, items claimed and answered, jobs followed, rollouts halted, the service killed and its
  database lost.  The life of an item, the requests the farmer may be sent, and the waves
  of a rollout beside the rest.
\<close>

section \<open>Steps\<close>

text \<open>What of an item never changes, and the moves of its status.\<close>

definition same_item :: "AssetActionItem \<Rightarrow> AssetActionItem \<Rightarrow> bool" where
  "same_item i j = (ai_TenantID j = ai_TenantID i \<and> ai_SproutID j = ai_SproutID i \<and> ai_Position j = ai_Position i)"

fun item_move :: "AssetActionItemStatus \<Rightarrow> AssetActionItemStatus \<Rightarrow> bool" where
  "item_move ActionItemQueued s = (s \<in> {ActionItemDispatching, ActionItemFailed})"
| "item_move ActionItemDispatching s = (s \<in> {ActionItemQueued, ActionItemRunning, ActionItemSucceeded, ActionItemFailed})"
| "item_move ActionItemRunning s = (s \<in> {ActionItemSucceeded, ActionItemFailed, ActionItemUnresponsiveAfterUpdate})"
| "item_move _ s = False"

text \<open>
  A dispatcher works from its own copies of the batch and the item, which agree with the rows.
  A worker that is killed leaves its item as it is.  The last rule is all the rest of the
  service: tenants, links, keys, policies, releases.
\<close>

inductive action_step :: "saas_fleet \<Rightarrow> saas_fleet \<Rightarrow> bool" where
  create: "createBatch rand batch assets rows blocked st = Some (st', b, queued) \<Longrightarrow> distinct assets \<Longrightarrow> action_step st st'"
| claim: "tbl_get (ss_batches st) (fst k) = Some batch \<Longrightarrow> tbl_get (ss_items st) k = Some j \<Longrightarrow> same_item j i \<Longrightarrow>
    action_step st (fst (dispatch_claim batch (k, i) st))"
| answer: "k \<in> set (ss_inflight st) \<Longrightarrow> action_step st (dispatch_record batch (k, i) res st)"
| refresh: "action_step st (fst (refreshItems reader tid items st))"
| halt: "action_step st (haltRollout b tid code st)"
| mark: "action_step st (markUnresponsive items st)"
| killed: "action_step st (st\<lparr>ss_inflight := remove1 k (ss_inflight st)\<rparr>)"
| outage: "action_step st (st\<lparr>ss_items := (ss_items st)\<lparr>tbl_up := u\<rparr>, ss_batches := (ss_batches st)\<lparr>tbl_up := v\<rparr>\<rparr>)"
| other: "ss_items st' = ss_items st \<Longrightarrow> ss_batches st' = ss_batches st \<Longrightarrow> ss_log st' = ss_log st \<Longrightarrow> ss_inflight st' = ss_inflight st \<Longrightarrow>
    action_step st st'"

section \<open>What a step does to a row\<close>

lemma table_outage [simp]: "tbl_get (t\<lparr>tbl_up := u\<rparr>) = tbl_get t" "tbl_wf (t\<lparr>tbl_up := u\<rparr>) = tbl_wf t"
  by (simp_all add: tbl_get_def tbl_wf_def)

lemma updateItem_get:
  "tbl_get (ss_items (fst (updateItem k tid from f st))) k' =
     (case tbl_get (ss_items st) k' of None \<Rightarrow> None
      | Some i \<Rightarrow> Some (if tbl_up (ss_items st) \<and> k' = k \<and> ai_TenantID i = tid \<and> ai_Status i = from then f i else i))"
  by (simp add: updateItem_def tbl_update_where_get itemScope_def split: option.splits)

lemma updateItem_rest [simp]:
  "ss_log (fst (updateItem k tid from f st)) = ss_log st" "ss_inflight (fst (updateItem k tid from f st)) = ss_inflight st"
  "ss_batches (fst (updateItem k tid from f st)) = ss_batches st" "tbl_wf (ss_items (fst (updateItem k tid from f st))) = tbl_wf (ss_items st)"
  "tbl_up (ss_items (fst (updateItem k tid from f st))) = tbl_up (ss_items st)"
  by (simp_all add: updateItem_def)

text \<open>The operations that send nothing: a job's outcome, a halt, a deadline.\<close>

definition quiet_row :: "AssetActionItem \<Rightarrow> AssetActionItem \<Rightarrow> bool" where
  "quiet_row i j = (j = i \<or> same_item i j \<and> ai_Status i \<noteq> ActionItemDispatching \<and> item_move (ai_Status i) (ai_Status j) \<and> terminal (ai_Status j))"

definition quiet :: "'m saas_actions_scheme \<Rightarrow> 'm saas_actions_scheme \<Rightarrow> bool" where
  "quiet st st' = (ss_log st' = ss_log st \<and> ss_inflight st' = ss_inflight st \<and> ss_batches st' = ss_batches st \<and>
     tbl_wf (ss_items st') = tbl_wf (ss_items st) \<and> tbl_up (ss_items st') = tbl_up (ss_items st) \<and>
     (\<forall>k. rel_option quiet_row (tbl_get (ss_items st) k) (tbl_get (ss_items st') k)))"

lemma item_move_terminal: "terminal s \<Longrightarrow> \<not> item_move s t"
  by (cases s) auto

lemma quiet_row_trans: "quiet_row i j \<Longrightarrow> quiet_row j k \<Longrightarrow> quiet_row i k"
  using item_move_terminal by (auto simp: quiet_row_def same_item_def)

lemma quiet_refl [simp]: "quiet st st"
  by (simp add: quiet_def quiet_row_def option.rel_refl)

lemma quiet_trans: "quiet st st' \<Longrightarrow> quiet st' st'' \<Longrightarrow> quiet st st''"
  unfolding quiet_def by (metis (no_types, lifting) option.rel_transp quiet_row_trans transpD transpI)

lemma quiet_updateItem:
  assumes "\<And>i. ai_Status i = from \<Longrightarrow> same_item i (f i) \<and> item_move from (ai_Status (f i)) \<and> terminal (ai_Status (f i))"
    and "from \<noteq> ActionItemDispatching"
  shows "quiet st (fst (updateItem k tid from f st))"
  using assms by (auto simp: quiet_def updateItem_get quiet_row_def option_rel_Some1 split: option.splits)

lemma same_item_apply [simp]: "same_item i (apply_itemUpdate u i)" "ai_Status (apply_itemUpdate u i) = iu_Status u"
  by (simp_all add: same_item_def apply_itemUpdate_def)

lemma update_status [simp]: "iu_Status (set_status s) = s" "iu_Status (failedUpdate c) = ActionItemFailed"
    "iu_Status unresponsive_update = ActionItemUnresponsiveAfterUpdate"
  by (simp_all add: set_status_def failedUpdate_def unresponsive_update_def)

lemma refresh_update_status: "refresh_update outcomes i = Some u \<Longrightarrow> iu_Status u = ActionItemSucceeded \<or> iu_Status u = ActionItemFailed"
  by (auto simp: refresh_update_def split: if_splits option.splits JobOutcome.splits)

lemma quiet_refresh_rows: "quiet st (fst (refresh_rows outcomes items st))"
proof (induction items arbitrary: st)
  case (Cons ki rest)
  obtain k i where ki: "ki = (k, i)" by fastforce
  obtain st1 i1 where h: "(case refresh_update outcomes i of None \<Rightarrow> (st, i)
      | Some u \<Rightarrow> (fst (updateItem k (ai_TenantID i) ActionItemRunning (apply_itemUpdate u) st), if tbl_up (ss_items st) then apply_itemUpdate u i else i)) = (st1, i1)"
    by fastforce
  have "quiet st st1"
  proof (cases "refresh_update outcomes i")
    case (Some u)
    then show ?thesis using h refresh_update_status[OF Some] by (auto intro!: quiet_updateItem)
  qed (use h in simp)
  moreover have "fst (refresh_rows outcomes (ki # rest) st) = fst (refresh_rows outcomes rest st1)"
    by (simp add: ki h split: prod.split)
  ultimately show ?case using quiet_trans[OF _ Cons] by simp
qed simp

lemma quiet_refreshItems: "quiet st (fst (refreshItems reader tid items st))"
  using quiet_refresh_rows by (auto simp: refreshItems_def split: option.split)

lemma quiet_halt: "quiet st (haltRollout b tid code st)"
  by (auto simp: quiet_def haltRollout_def tbl_update_where_get quiet_row_def option_rel_Some1 split: option.splits)

lemma quiet_mark: "quiet st (markUnresponsive items st)"
proof (induction items arbitrary: st rule: rev_induct)
  case (snoc ki items)
  obtain k i where ki: "ki = (k, i)" by fastforce
  have "quiet s (fst (updateItem k (ai_TenantID i) ActionItemRunning (apply_itemUpdate unresponsive_update) s))" for s :: "'a saas_actions_scheme"
    by (rule quiet_updateItem) simp_all
  from quiet_trans[OF snoc this] snoc show ?case by (simp add: markUnresponsive_def ki)
qed (simp add: markUnresponsive_def)

lemma replyUpdate_status: "iu_Status (replyUpdate batch i data) \<in> {ActionItemFailed, ActionItemSucceeded, ActionItemRunning}"
  by (auto simp: replyUpdate_def Let_def split: prod.split option.split)

section \<open>No item is sent twice\<close>

text \<open>An item is owed after it was sent, until the answer that nobody was listening.\<close>

fun entry_owes :: "item_key \<Rightarrow> bool \<Rightarrow> bus_entry \<Rightarrow> bool" where
  "entry_owes k owed (SentItem q r) = (owed \<or> q = k)"
| "entry_owes k owed (AnswerItem q res) = (owed \<and> \<not> (q = k \<and> res = NoResponders))"

definition owes :: "item_key \<Rightarrow> bus_entry list \<Rightarrow> bool" where
  "owes k log = foldl (entry_owes k) False log"

lemma owes_simps [simp]: "\<not> owes k []" "owes k (log @ [e]) = entry_owes k (owes k log) e"
  by (simp_all add: owes_def)

lemma owes_sent: "AnswerItem k NoResponders \<notin> set l2 \<Longrightarrow> owes k (l1 @ SentItem k r # l2)"
proof (induction l2 rule: rev_induct)
  case Nil
  then show ?case using owes_simps(2)[of k l1 "SentItem k r"] by simp
next
  case (snoc e l2)
  then show ?case using owes_simps(2)[of k "l1 @ SentItem k r # l2" e] by (cases e) auto
qed

lemma snoc_split: "xs @ [e] = l1 @ x # l2 \<longleftrightarrow> l2 = [] \<and> e = x \<and> l1 = xs \<or> (\<exists>l. l2 = l @ [e] \<and> xs = l1 @ x # l)"
  by (cases l2 rule: rev_cases) auto

definition act_inv :: "'m saas_actions_scheme \<Rightarrow> bool" where
  "act_inv st = (tbl_wf (ss_items st) \<and> distinct (ss_inflight st) \<and>
     (\<forall>k \<in> set (ss_inflight st). \<exists>i. tbl_get (ss_items st) k = Some i \<and> ai_Status i = ActionItemDispatching) \<and>
     (\<forall>k. owes k (ss_log st) \<longrightarrow> (\<exists>i. tbl_get (ss_items st) k = Some i \<and> ai_Status i \<noteq> ActionItemQueued)) \<and>
     (\<forall>k l1 r l2. ss_log st = l1 @ SentItem k r # l2 \<longrightarrow> \<not> owes k l1) \<and>
     (\<forall>k r. SentItem k r \<in> set (ss_log st) \<longrightarrow> (\<exists>i batch. tbl_get (ss_items st) k = Some i \<and> tbl_get (ss_batches st) (fst k) = Some batch \<and>
        r = item_request batch i)) \<and>
     (\<forall>k i. tbl_get (ss_items st) k = Some i \<longrightarrow> (\<exists>batch. tbl_get (ss_batches st) (fst k) = Some batch \<and> ab_TenantID batch = ai_TenantID i)))"

lemma act_invD:
  assumes "act_inv st"
  shows "tbl_wf (ss_items st)" "distinct (ss_inflight st)"
    "k \<in> set (ss_inflight st) \<Longrightarrow> \<exists>i. tbl_get (ss_items st) k = Some i \<and> ai_Status i = ActionItemDispatching"
    "owes k (ss_log st) \<Longrightarrow> \<exists>i. tbl_get (ss_items st) k = Some i \<and> ai_Status i \<noteq> ActionItemQueued"
    "ss_log st = l1 @ SentItem k r # l2 \<Longrightarrow> \<not> owes k l1"
    "SentItem k r \<in> set (ss_log st) \<Longrightarrow>
       \<exists>i batch. tbl_get (ss_items st) k = Some i \<and> tbl_get (ss_batches st) (fst k) = Some batch \<and> r = item_request batch i"
    "tbl_get (ss_items st) k = Some i \<Longrightarrow> \<exists>batch. tbl_get (ss_batches st) (fst k) = Some batch \<and> ab_TenantID batch = ai_TenantID i"
  using assms unfolding act_inv_def by blast+

lemma act_invI:
  assumes "tbl_wf (ss_items st)" "distinct (ss_inflight st)"
    "\<And>k. k \<in> set (ss_inflight st) \<Longrightarrow> \<exists>i. tbl_get (ss_items st) k = Some i \<and> ai_Status i = ActionItemDispatching"
    "\<And>k. owes k (ss_log st) \<Longrightarrow> \<exists>i. tbl_get (ss_items st) k = Some i \<and> ai_Status i \<noteq> ActionItemQueued"
    "\<And>l1 k r l2. ss_log st = l1 @ SentItem k r # l2 \<Longrightarrow> \<not> owes k l1"
    "\<And>k r. SentItem k r \<in> set (ss_log st) \<Longrightarrow>
       \<exists>i batch. tbl_get (ss_items st) k = Some i \<and> tbl_get (ss_batches st) (fst k) = Some batch \<and> r = item_request batch i"
    "\<And>k i. tbl_get (ss_items st) k = Some i \<Longrightarrow> \<exists>batch. tbl_get (ss_batches st) (fst k) = Some batch \<and> ab_TenantID batch = ai_TenantID i"
  shows "act_inv st"
  using assms unfolding act_inv_def by blast

lemma same_item_request: "same_item i j \<Longrightarrow> item_request batch j = item_request batch i"
  by (simp add: same_item_def item_request_def)

lemma same_item_refl [simp]: "same_item i i"
  by (simp add: same_item_def)

lemma quiet_get:
  assumes "quiet st st'" "tbl_get (ss_items st) k = Some i"
  obtains j where "tbl_get (ss_items st') k = Some j" "quiet_row i j"
  using assms unfolding quiet_def by (metis option_rel_Some1)

lemma quiet_row_same: "quiet_row i j \<Longrightarrow> same_item i j"
  by (auto simp: quiet_row_def)

lemma act_inv_quiet:
  assumes q: "quiet st st'" and inv: "act_inv st"
  shows "act_inv st'"
proof (rule act_invI)
  have same: "ss_log st' = ss_log st" "ss_inflight st' = ss_inflight st" "ss_batches st' = ss_batches st" "tbl_wf (ss_items st') = tbl_wf (ss_items st)"
    using q by (simp_all add: quiet_def)
  note d = act_invD[OF inv]
  show "tbl_wf (ss_items st')" "distinct (ss_inflight st')" using d(1,2) same by simp_all
  fix k r l1 l2
  show "k \<in> set (ss_inflight st') \<Longrightarrow> \<exists>i. tbl_get (ss_items st') k = Some i \<and> ai_Status i = ActionItemDispatching"
    using d(3)[of k] same(2) quiet_get[OF q, of k] by (metis quiet_row_def)
  show "owes k (ss_log st') \<Longrightarrow> \<exists>i. tbl_get (ss_items st') k = Some i \<and> ai_Status i \<noteq> ActionItemQueued"
    using d(4)[of k] same(1) quiet_get[OF q, of k] by (metis quiet_row_def terminal.simps(5))
  show "ss_log st' = l1 @ SentItem k r # l2 \<Longrightarrow> \<not> owes k l1" using d(5) same(1) by simp
  show "SentItem k r \<in> set (ss_log st') \<Longrightarrow>
      \<exists>i batch. tbl_get (ss_items st') k = Some i \<and> tbl_get (ss_batches st') (fst k) = Some batch \<and> r = item_request batch i"
    using d(6)[of k r] same(1,3) quiet_get[OF q, of k] by (metis quiet_row_same same_item_request)
  show "\<exists>batch. tbl_get (ss_batches st') (fst k) = Some batch \<and> ab_TenantID batch = ai_TenantID j" if j: "tbl_get (ss_items st') k = Some j" for j
  proof -
    have rel: "rel_option quiet_row (tbl_get (ss_items st) k) (tbl_get (ss_items st') k)" using q unfolding quiet_def by blast
    then obtain i where "tbl_get (ss_items st) k = Some i" "quiet_row i j" using j by (metis option_rel_Some2)
    then show ?thesis using d(7)[of k i] same(3) quiet_row_same by (metis same_item_def)
  qed
qed

lemma act_inv_create:
  assumes c: "createBatch rand batch assets rows blocked st = Some (st', b, queued)" "distinct assets" and inv: "act_inv st"
  shows "act_inv st'"
proof (rule act_invI)
  note d = act_invD[OF inv] and cr = createBatch_rows[OF c]
  have old: "tbl_get (ss_items st') k = Some i" if "tbl_get (ss_items st) k = Some i" for k i
    using that cr(4)[of k] cr(5)[of k] by (auto split: option.splits)
  have oldb: "tbl_get (ss_batches st') q = Some x" if "tbl_get (ss_batches st) q = Some x" for q x
    using that cr(2)[of q] cr(3) by auto
  show "tbl_wf (ss_items st')" "distinct (ss_inflight st')" using d(1,2) cr(7,9) by simp_all
  fix k r l1 l2
  show "k \<in> set (ss_inflight st') \<Longrightarrow> \<exists>i. tbl_get (ss_items st') k = Some i \<and> ai_Status i = ActionItemDispatching"
    using d(3)[of k] cr(7) old by fastforce
  show "owes k (ss_log st') \<Longrightarrow> \<exists>i. tbl_get (ss_items st') k = Some i \<and> ai_Status i \<noteq> ActionItemQueued"
    using d(4)[of k] cr(6) old by fastforce
  show "ss_log st' = l1 @ SentItem k r # l2 \<Longrightarrow> \<not> owes k l1" using d(5) cr(6) by simp
  show "SentItem k r \<in> set (ss_log st') \<Longrightarrow>
      \<exists>i batch. tbl_get (ss_items st') k = Some i \<and> tbl_get (ss_batches st') (fst k) = Some batch \<and> r = item_request batch i"
    using d(6)[of k r] cr(6) old oldb by fastforce
  show "\<exists>batch. tbl_get (ss_batches st') (fst k) = Some batch \<and> ab_TenantID batch = ai_TenantID j" if j: "tbl_get (ss_items st') k = Some j" for j
  proof (cases "map_of (batch_items b (ab_TenantID batch) assets (byAsset rows) blocked) k")
    case None
    then show ?thesis using j cr(4)[of k] d(7)[of k j] oldb by fastforce
  next
    case (Some i)
    then have "(k, j) \<in> set (batch_items b (ab_TenantID batch) assets (byAsset rows) blocked)" using j cr(4)[of k] map_of_SomeD by fastforce
    then have "fst k = b" "ai_TenantID j = ab_TenantID batch" by (auto simp: batch_items_def new_item_def Let_def split: option.splits)
    then show ?thesis using cr(2)[of b] by simp
  qed
qed

text \<open>The two outcomes of a claim.\<close>

lemma claim_cases:
  assumes "tbl_wf (ss_items st)" "dispatch_claim batch (k, i) st = (st', ok)"
  obtains (taken) j where "ok" "tbl_up (ss_items st)" "tbl_get (ss_items st) k = Some j" "ai_TenantID j = ai_TenantID i" "ai_Status j = ActionItemQueued"
      "\<And>q. tbl_get (ss_items st') q = (if q = k then Some (claimed j) else tbl_get (ss_items st) q)"
      "ss_log st' = ss_log st @ [SentItem k (item_request batch i)]" "ss_inflight st' = k # ss_inflight st" "ss_batches st' = ss_batches st"
      "tbl_wf (ss_items st')" "tbl_up (ss_items st')"
  | (lost) "\<not> ok" "quiet st st'" "\<And>q. tbl_get (ss_items st') q = tbl_get (ss_items st) q"
proof (cases "tbl_up (ss_items st) \<and> tbl_affects (ss_items st) (itemScope k (ai_TenantID i) ActionItemQueued)")
  case True
  then obtain j where j: "tbl_get (ss_items st) k = Some j" "ai_TenantID j = ai_TenantID i" "ai_Status j = ActionItemQueued"
    using assms(1) by (auto simp: tbl_affects_iff itemScope_def)
  from True assms(2) have st': "ok" "st' = (let st1 = fst (updateItem k (ai_TenantID i) ActionItemQueued claimed st) in
      st1\<lparr>ss_log := ss_log st1 @ [SentItem k (item_request batch i)], ss_inflight := k # ss_inflight st1\<rparr>)"
    by (auto simp: dispatch_claim_def updateItem_def Let_def)
  show ?thesis
    by (rule taken[OF st'(1) _ j]) (use True j assms(1) in \<open>auto simp: st'(2) Let_def updateItem_get split: option.splits\<close>)
next
  case False
  let ?st1 = "fst (updateItem k (ai_TenantID i) ActionItemQueued claimed st)"
  have st': "\<not> ok" "st' = ?st1" using False assms(2) by (auto simp: dispatch_claim_def updateItem_def split: if_splits)
  have none: "\<not> (tbl_up (ss_items st) \<and> q = k \<and> ai_TenantID j = ai_TenantID i \<and> ai_Status j = ActionItemQueued)"
    if "tbl_get (ss_items st) q = Some j" for q j
    using False that assms(1) by (cases k) (auto simp: tbl_affects_iff itemScope_def)
  have same: "tbl_get (ss_items st') q = tbl_get (ss_items st) q" for q
    using none[of q] by (auto simp: st' updateItem_get split: option.splits)
  then have "quiet st st'" by (simp add: quiet_def st' option.rel_refl quiet_row_def)
  then show ?thesis using lost st'(1) same by blast
qed

lemma act_inv_claim:
  assumes inv: "act_inv st" and row: "tbl_get (ss_batches st) (fst k) = Some batch" "tbl_get (ss_items st) k = Some j" "same_item j i"
  shows "act_inv (fst (dispatch_claim batch (k, i) st))"
proof -
  note d = act_invD[OF inv]
  obtain st' ok where c: "dispatch_claim batch (k, i) st = (st', ok)" by fastforce
  have "act_inv st'" using d(1) c
  proof (cases rule: claim_cases)
    case lost
    then show ?thesis using act_inv_quiet inv by blast
  next
    case (taken j')
    have j: "j' = j" using row(2) taken(3) by simp
    have free: "\<not> owes k (ss_log st)" "k \<notin> set (ss_inflight st)" using taken(3,5) d(3,4)[of k] by auto
    have req: "item_request batch (claimed j) = item_request batch i" using row(3) by (simp add: same_item_def item_request_def claimed_def)
    show ?thesis
    proof (rule act_invI)
      show "tbl_wf (ss_items st')" "distinct (ss_inflight st')" using taken(8,10) d(2) free(2) by simp_all
      fix q r l1 l2
      show "q \<in> set (ss_inflight st') \<Longrightarrow> \<exists>i. tbl_get (ss_items st') q = Some i \<and> ai_Status i = ActionItemDispatching"
        using taken(6)[of q] taken(8) d(3)[of q] by (auto simp: claimed_def)
      show "owes q (ss_log st') \<Longrightarrow> \<exists>i. tbl_get (ss_items st') q = Some i \<and> ai_Status i \<noteq> ActionItemQueued"
        using taken(6)[of q] taken(7) d(4)[of q] by (auto simp: claimed_def split: if_splits)
      show "ss_log st' = l1 @ SentItem q r # l2 \<Longrightarrow> \<not> owes q l1"
        using taken(7) free(1) d(5)[of l1 q r] by (auto simp: snoc_split)
      show "\<exists>i batch. tbl_get (ss_items st') q = Some i \<and> tbl_get (ss_batches st') (fst q) = Some batch \<and> r = item_request batch i"
        if sent: "SentItem q r \<in> set (ss_log st')"
      proof (cases "q = k")
        case True
        then have "r = item_request batch i" using sent taken(3,7) d(6)[of k r] row req by (auto simp: same_item_request)
        then show ?thesis using True taken(6)[of k] taken(9) row(1) req j by auto
      next
        case False
        then show ?thesis using sent taken(6)[of q] taken(7,9) d(6)[of q r] by auto
      qed
      show "\<exists>ba. tbl_get (ss_batches st') (fst q) = Some ba \<and> ab_TenantID ba = ai_TenantID y" if "tbl_get (ss_items st') q = Some y" for y
        using that taken(3) taken(6)[of q] taken(9) d(7)[of k j'] d(7)[of q y] by (auto simp: claimed_def split: if_splits)
    qed
  qed
  then show ?thesis by (simp add: c)
qed

lemma outcome_status:
  "iu_Status (outcome_update batch i res) = ActionItemQueued \<longleftrightarrow> res = NoResponders"
  "item_move ActionItemDispatching (iu_Status (outcome_update batch i res))"
proof -
  show "iu_Status (outcome_update batch i res) = ActionItemQueued \<longleftrightarrow> res = NoResponders"
  proof (cases res)
    case (GotReply data)
    then show ?thesis using replyUpdate_status[of batch i data] by auto
  qed simp_all
  show "item_move ActionItemDispatching (iu_Status (outcome_update batch i res))"
  proof (cases res)
    case (GotReply data)
    then show ?thesis using replyUpdate_status[of batch i data] by auto
  qed simp_all
qed

text \<open>An answer moves no other row, and its own only from dispatching.\<close>

lemma answer_row:
  defines "st' batch k i res st \<equiv> dispatch_record batch (k, i) res st"
  shows "tbl_get (ss_items (st' batch k i res st)) q =
      (case tbl_get (ss_items st) q of None \<Rightarrow> None
       | Some j \<Rightarrow> Some (if tbl_up (ss_items st) \<and> q = k \<and> ai_TenantID j = ai_TenantID i \<and> ai_Status j = ActionItemDispatching
                         then apply_itemUpdate (outcome_update batch i res) j else j))"
    "ss_log (st' batch k i res st) = ss_log st @ [AnswerItem k res]" "ss_inflight (st' batch k i res st) = remove1 k (ss_inflight st)"
    "ss_batches (st' batch k i res st) = ss_batches st" "tbl_wf (ss_items (st' batch k i res st)) = tbl_wf (ss_items st)"
    "tbl_up (ss_items (st' batch k i res st)) = tbl_up (ss_items st)"
  by (simp_all add: st'_def dispatch_record_def Let_def updateItem_get split: option.split)

lemma act_inv_answer:
  assumes inv: "act_inv st" and k: "k \<in> set (ss_inflight st)"
  shows "act_inv (dispatch_record batch (k, i) res st)"
proof -
  note d = act_invD[OF inv] and a = answer_row[of batch k i res st]
  show ?thesis
  proof (rule act_invI)
    show "tbl_wf (ss_items (dispatch_record batch (k, i) res st))" "distinct (ss_inflight (dispatch_record batch (k, i) res st))"
      using d(1,2) by (simp_all add: a distinct_remove1)
    fix q r l1 l2
    show "\<exists>j. tbl_get (ss_items (dispatch_record batch (k, i) res st)) q = Some j \<and> ai_Status j = ActionItemDispatching"
      if "q \<in> set (ss_inflight (dispatch_record batch (k, i) res st))"
      using that d(2) d(3)[of q] by (auto simp: a)
    show "\<exists>j. tbl_get (ss_items (dispatch_record batch (k, i) res st)) q = Some j \<and> ai_Status j \<noteq> ActionItemQueued"
      if "owes q (ss_log (dispatch_record batch (k, i) res st))"
      using that d(4)[of q] outcome_status(1)[of batch i res] by (auto simp: a)
    show "\<not> owes q l1" if "ss_log (dispatch_record batch (k, i) res st) = l1 @ SentItem q r # l2"
      using that d(5)[of l1 q r] by (auto simp: a snoc_split)
    show "\<exists>j ba. tbl_get (ss_items (dispatch_record batch (k, i) res st)) q = Some j \<and>
        tbl_get (ss_batches (dispatch_record batch (k, i) res st)) (fst q) = Some ba \<and> r = item_request ba j"
      if "SentItem q r \<in> set (ss_log (dispatch_record batch (k, i) res st))"
    proof -
      from that have "SentItem q r \<in> set (ss_log st)" by (simp add: a)
      then obtain j ba where "tbl_get (ss_items st) q = Some j" "tbl_get (ss_batches st) (fst q) = Some ba" "r = item_request ba j"
        using d(6) by blast
      then show ?thesis by (simp add: a same_item_request[OF same_item_apply(1)])
    qed
    show "\<exists>ba. tbl_get (ss_batches (dispatch_record batch (k, i) res st)) (fst q) = Some ba \<and> ab_TenantID ba = ai_TenantID y"
      if "tbl_get (ss_items (dispatch_record batch (k, i) res st)) q = Some y" for y
    proof -
      from that obtain j where "tbl_get (ss_items st) q = Some j" "ai_TenantID y = ai_TenantID j"
        by (auto simp: a apply_itemUpdate_def split: option.splits if_splits)
      then show ?thesis using d(7)[of q j] by (simp add: a)
    qed
  qed
qed

interpretation acting: preserved action_step "act_inv :: saas_fleet \<Rightarrow> bool"
proof
  fix st st' :: saas_fleet assume "act_inv st" "action_step st st'"
  from this(2,1) show "act_inv st'"
  proof (induction rule: action_step.induct)
    case (killed st k)
    note d = act_invD[OF killed]
    show ?case by (rule act_invI) (use d in \<open>auto simp: distinct_remove1 dest: notin_set_remove1\<close>)
  next
    case (outage st u v)
    then show ?case by (simp add: act_inv_def)
  next
    case (other st' st)
    then show ?case by (simp add: act_inv_def)
  qed (blast intro: act_inv_create act_inv_claim act_inv_answer act_inv_quiet quiet_refreshItems quiet_halt quiet_mark)+
qed

definition no_actions :: "'m saas_actions_scheme \<Rightarrow> bool" where
  "no_actions st = (tbl_rows (ss_items st) = [] \<and> ss_log st = [] \<and> ss_inflight st = [])"

lemma act_inv_start: "no_actions st \<Longrightarrow> act_inv st"
  by (rule act_invI) (auto simp: no_actions_def tbl_wf_def tbl_get_def)

text \<open>
  Property C14. Whatever is created, polled, halted, killed or lost in between, no item is
  ever sent to the farmer a second time unless the farmer bus answered the first request
  with \<open>no responders\<close>; a second request is the same as the first, and every request
  names the tenant, the action and the sprout of the batch and item it belongs to.
\<close>

theorem sent_at_most_once:
  assumes "no_actions st0" "action_step\<^sup>*\<^sup>* st0 st"
  shows "(\<forall>l1 k r l2 r' l3. ss_log st = l1 @ SentItem k r # l2 @ SentItem k r' # l3 \<longrightarrow> AnswerItem k NoResponders \<in> set l2 \<and> r' = r) \<and>
    (\<forall>k r. SentItem k r \<in> set (ss_log st) \<longrightarrow> (\<exists>i batch. tbl_get (ss_items st) k = Some i \<and> tbl_get (ss_batches st) (fst k) = Some batch \<and>
       r = item_request batch i))"
proof -
  note d = act_invD[OF acting.run_keeps[OF assms(2) act_inv_start[OF assms(1)]]]
  have "AnswerItem k NoResponders \<in> set l2 \<and> r' = r" if log: "ss_log st = l1 @ SentItem k r # l2 @ SentItem k r' # l3" for l1 k r l2 r' l3
  proof
    show "AnswerItem k NoResponders \<in> set l2" using owes_sent[of k l2 l1 r] d(5)[of "l1 @ SentItem k r # l2" k r' l3] log by auto
    have "SentItem k r \<in> set (ss_log st)" "SentItem k r' \<in> set (ss_log st)" by (simp_all add: log)
    then show "r' = r" using d(6)[of k r] d(6)[of k r'] by auto
  qed
  then show ?thesis using d(6) by blast
qed

section \<open>The life of an item\<close>

lemma quiet_row_moves: "quiet_row i j \<Longrightarrow> same_item i j \<and> (j = i \<or> item_move (ai_Status i) (ai_Status j))"
  by (auto simp: quiet_row_def)

lemma step_row:
  assumes "action_step st st'" "act_inv st" "tbl_get (ss_items st) k = Some i"
  shows "\<exists>j. tbl_get (ss_items st') k = Some j \<and> same_item i j \<and> (j = i \<or> item_move (ai_Status i) (ai_Status j))"
  using assms
proof (induction rule: action_step.induct)
  case (create rand batch assets rows blocked st st' b queued)
  then show ?case using createBatch_rows(4,5)[OF create(1,2), of k] by (auto split: option.splits)
next
  case (claim st q batch j' i')
  obtain st' ok where c: "dispatch_claim batch (q, i') st = (st', ok)" by fastforce
  from act_invD(1)[OF claim(4)] c show ?case
  proof (cases rule: claim_cases)
    case (taken j)
    then show ?thesis using claim(5) c by (cases "q = k") (auto simp: claimed_def same_item_def)
  qed (use claim(5) c in simp)
next
  case (answer q st batch i' res)
  then show ?case using outcome_status(2)[of batch i' res] by (auto simp: answer_row(1))
next
  case (refresh st reader tid items)
  then show ?case using quiet_get[OF quiet_refreshItems refresh(2)] quiet_row_moves by blast
next
  case (halt st b tid code)
  then show ?case using quiet_get[OF quiet_halt halt(2)] quiet_row_moves by blast
next
  case (mark st items)
  then show ?case using quiet_get[OF quiet_mark mark(2)] quiet_row_moves by blast
qed simp_all

lemma run_row:
  assumes "action_step\<^sup>*\<^sup>* st st'" "act_inv st" "tbl_get (ss_items st) k = Some i"
  shows "\<exists>j. tbl_get (ss_items st') k = Some j \<and> same_item i j \<and> (terminal (ai_Status i) \<longrightarrow> j = i) \<and> item_move\<^sup>*\<^sup>* (ai_Status i) (ai_Status j)"
  using assms(1)
proof induction
  case (step s s')
  then obtain j where j: "tbl_get (ss_items s) k = Some j" "same_item i j" "terminal (ai_Status i) \<Longrightarrow> j = i" "item_move\<^sup>*\<^sup>* (ai_Status i) (ai_Status j)" by blast
  from step_row[OF step(2) acting.run_keeps[OF step(1) assms(2)] j(1)]
  obtain j' where j': "tbl_get (ss_items s') k = Some j'" "same_item j j'" "j' = j \<or> item_move (ai_Status j) (ai_Status j')" by blast
  have "item_move\<^sup>*\<^sup>* (ai_Status i) (ai_Status j')" using j(4) j'(3) by (auto intro: rtranclp.rtrancl_into_rtrancl)
  moreover have "same_item i j'" using j(2) j'(2) by (simp add: same_item_def)
  moreover have "terminal (ai_Status i) \<Longrightarrow> j' = i" using j(3) j'(3) item_move_terminal by auto
  ultimately show ?case using j'(1) by blast
qed (use assms(3) in simp)

lemma claim_batches: "ss_batches (fst (dispatch_claim batch ki st)) = ss_batches st"
  by (auto simp: dispatch_claim_def updateItem_def Let_def split: prod.split)

lemma run_batch:
  assumes "action_step\<^sup>*\<^sup>* st st'" "tbl_get (ss_batches st) b = Some batch"
  shows "tbl_get (ss_batches st') b = Some batch"
  using assms(1)
proof induction
  case (step s s')
  from step(2,3) show ?case
  proof (induction rule: action_step.induct)
    case (create rand ba assets rows blocked st st' b' queued)
    then show ?case using createBatch_rows(2,3)[OF create(1,2)] by auto
  next
    case (claim st k ba j i)
    then show ?case by (simp add: claim_batches)
  next
    case (refresh st reader tid items)
    then show ?case using quiet_refreshItems[of st reader tid items] by (simp add: quiet_def)
  next
    case (halt st b' tid code)
    then show ?case using quiet_halt[of st b' tid code] by (simp add: quiet_def)
  next
    case (mark st items)
    then show ?case using quiet_mark[of st items] by (simp add: quiet_def)
  qed (simp_all add: answer_row)
qed (use assms(2) in simp)

text \<open>
  From the first batch on, an item keeps its tenant, its sprout and its
  place, its status moves only along the life the model documents, and a terminal item
  never changes again: not its status, its error, its exit code nor its job.
\<close>

theorem item_life:
  assumes "no_actions st0" "action_step\<^sup>*\<^sup>* st0 st" "action_step\<^sup>*\<^sup>* st st'" "tbl_get (ss_items st) k = Some i"
  shows "\<exists>j. tbl_get (ss_items st') k = Some j \<and> same_item i j \<and> item_move\<^sup>*\<^sup>* (ai_Status i) (ai_Status j) \<and> (terminal (ai_Status i) \<longrightarrow> j = i)"
  using run_row[OF assms(3) acting.run_keeps[OF assms(2) act_inv_start[OF assms(1)]] assms(4)] by blast

text \<open>An item whose worker is gone before its answer was recorded.\<close>

lemma stranded_step:
  assumes "action_step st st'" "act_inv st" "tbl_get (ss_items st) k = Some i" "ai_Status i = ActionItemDispatching" "k \<notin> set (ss_inflight st)"
  shows "tbl_get (ss_items st') k = Some i \<and> k \<notin> set (ss_inflight st')"
  using assms
proof (induction rule: action_step.induct)
  case (create rand batch assets rows blocked st st' b queued)
  then show ?case using createBatch_rows(4,5)[OF create(1,2), of k] createBatch_rows(7)[OF create(1,2)] by (auto split: option.splits)
next
  case (claim st q batch j' i')
  obtain st' ok where c: "dispatch_claim batch (q, i') st = (st', ok)" by fastforce
  from act_invD(1)[OF claim(4)] c show ?case
  proof (cases rule: claim_cases)
    case (taken j)
    then show ?thesis using claim(5-) c by (cases "q = k") auto
  qed (use claim(5-) c in \<open>simp add: quiet_def\<close>)
next
  case (answer q st batch i' res)
  then show ?case by (auto simp: answer_row dest: notin_set_remove1)
next
  case (refresh st reader tid items)
  then show ?case using quiet_get[OF quiet_refreshItems refresh(2)] quiet_refreshItems[of st reader tid items] by (metis quiet_def quiet_row_def)
next
  case (halt st b tid code)
  then show ?case using quiet_get[OF quiet_halt halt(2)] quiet_halt[of st b tid code] by (metis quiet_def quiet_row_def)
next
  case (mark st items)
  then show ?case using quiet_get[OF quiet_mark mark(2)] quiet_mark[of st items] by (metis quiet_def quiet_row_def)
qed (auto dest: notin_set_remove1)

lemma stranded_run:
  assumes "action_step\<^sup>*\<^sup>* st st'" "act_inv st" "tbl_get (ss_items st) k = Some i" "ai_Status i = ActionItemDispatching" "k \<notin> set (ss_inflight st)"
  shows "tbl_get (ss_items st') k = Some i \<and> k \<notin> set (ss_inflight st')"
  using assms(1)
proof induction
  case (step s s')
  then show ?case using stranded_step[OF step(2) acting.run_keeps[OF step(1) assms(2)] _ assms(4)] by blast
qed (use assms(3,5) in simp)

text \<open>
  Property C39. An update item that is dispatching when its worker goes away (the process is
  killed, or the answer could not be recorded) stays dispatching in every later state,
  whatever is polled, halted or timed out; and from then on no rollout of the tenant
  is ever given its sprout again: every later request leaves that sprout out as having an
  update in progress, whatever other workers do while it is handled.
\<close>

theorem stranded_update_blocks_sprout:
  assumes "no_actions st0" "action_step\<^sup>*\<^sup>* st0 st" "tbl_get (ss_items st) k = Some i" "ai_Status i = ActionItemDispatching"
    and "k \<notin> set (ss_inflight st)" "tbl_get (ss_batches st) (fst k) = Some batch" "ab_TenantID batch = ai_TenantID i" "ab_ActionType batch = ActionSelfUpdate"
    and "action_step\<^sup>*\<^sup>* st st'"
  shows "tbl_get (ss_items st') k = Some i \<and>
    (\<forall>env rand body others st'' code b queued version q j.
       (\<forall>n s. action_step\<^sup>*\<^sup>* s (others n s)) \<longrightarrow>
       CreateFleetUpdateBatch env rand body (ai_TenantID i) others st' = (st'', Reply code b, queued, version) \<longrightarrow> (q, j) \<in> set queued \<longrightarrow>
       ai_SproutID j \<noteq> ai_SproutID i)"
proof -
  have inv: "act_inv st" by (rule acting.run_keeps[OF assms(2) act_inv_start[OF assms(1)]])
  have run: "action_step\<^sup>*\<^sup>* st (after others n st')" if "\<forall>n s. action_step\<^sup>*\<^sup>* s (others n s)" for others n
    by (induction n) (use assms(9) that in \<open>auto intro: rtranclp_trans\<close>)
  have row: "tbl_get (ss_items s) k = Some i" "tbl_get (ss_batches s) (fst k) = Some batch" if "action_step\<^sup>*\<^sup>* st s" for s
    using stranded_run[OF that inv assms(3-5)] run_batch[OF that assms(6)] by blast+
  have un: "unfinished (ai_Status i)" by (simp add: unfinished_def assms(4))
  have "ai_SproutID j \<noteq> ai_SproutID i" if "\<forall>n s. action_step\<^sup>*\<^sup>* s (others n s)"
      "CreateFleetUpdateBatch env rand body (ai_TenantID i) others st' = (st'', Reply code b, queued, version)" "(q, j) \<in> set queued"
    for env rand body others st'' code b queued version q j
    using admitted_not_busy[OF that(2,3) row(1)[OF run[OF that(1)]]] row(2)[OF run[OF that(1)]] un assms(7,8) by metis
  then show ?thesis using row(1)[OF assms(9)] by blast
qed

section \<open>A rollout returns\<close>

lemma await_returns:
  assumes "\<And>m. N \<le> m \<Longrightarrow> deadline \<le> re_now env m"
  shows "\<exists>fuel r. \<forall>f \<ge> fuel. await_loop f env b batch wave deadline n st = Some r"
proof (induction "N - n" arbitrary: n st)
  case 0
  then have now: "\<not> re_now env n < deadline" using assms[of n] by simp
  show ?case
  proof (intro exI[of _ 1] exI allI impI)
    fix f :: nat assume "1 \<le> f"
    then obtain g where "f = Suc g" by (cases f) auto
    then show "await_loop f env b batch wave deadline n st = Some (the (await_loop 1 env b batch wave deadline n st))"
      using now by (auto simp: Let_def split: option.split prod.split)
  qed
next
  case (Suc d)
  have d: "d = N - Suc n" using Suc(2) by simp
  obtain fuel r where ih: "\<forall>f \<ge> fuel. await_loop f env b batch wave deadline (Suc n) (fst (refreshItems (map_option (\<lambda>r. r n) (re_reader env))
      (ab_TenantID batch) (the (loadWaveItems b (ab_TenantID batch) wave (re_world env n st))) (re_world env n st))) = Some r"
    using Suc(1)[OF d] by blast
  show ?case
  proof (intro exI[of _ "Suc fuel"] exI allI impI)
    fix f :: nat assume "Suc fuel \<le> f"
    then obtain g where g: "f = Suc g" "fuel \<le> g" by (cases f) auto
    show "await_loop f env b batch wave deadline n st = Some (the (await_loop (Suc fuel) env b batch wave deadline n st))"
      using ih g by (auto simp: Let_def split: option.split prod.split)
  qed
qed

lemma waves_return:
  assumes clock: "\<And>t. \<exists>n. \<forall>m \<ge> n. t \<le> re_now env m"
  shows "\<exists>fuel r. \<forall>f \<ge> fuel. rollout_waves f env b batch version width queued n st = Some r"
proof (induction "length queued" arbitrary: queued n st rule: less_induct)
  case less
  show ?case
  proof (cases "queued = []")
    case True
    then show ?thesis by (simp add: rollout_waves.simps)
  next
    case False
    let ?wave = "take (max 1 width) queued" and ?st1 = "re_world env n st"
    let ?st2 = "dispatchBatch (re_bus env) batch ?wave ?st1"
    obtain N where "\<And>m. N \<le> m \<Longrightarrow> re_now env (Suc n) + rolloutWaveTimeout \<le> re_now env m" using clock by meson
    then obtain fuel1 st3 n' passed where a: "\<forall>f \<ge> fuel1. awaitWave f env b batch ?wave (Suc n) ?st2 = Some (st3, n', passed)"
      unfolding awaitWave_def by (metis await_returns prod_cases3)
    have "length (drop (max 1 width) queued) < length queued" using False by simp
    then obtain fuel2 r where w: "\<forall>f \<ge> fuel2. rollout_waves f env b batch version width (drop (max 1 width) queued) n' st3 = Some r"
      using less by meson
    let ?f = "max fuel1 fuel2"
    have "rollout_waves f env b batch version width queued n st = Some (the (rollout_waves ?f env b batch version width queued n st))"
      if "?f \<le> f" for f
    proof -
      have "awaitWave f env b batch ?wave (Suc n) ?st2 = Some (st3, n', passed)" "awaitWave ?f env b batch ?wave (Suc n) ?st2 = Some (st3, n', passed)"
        "rollout_waves f env b batch version width (drop (max 1 width) queued) n' st3 = Some r"
        "rollout_waves ?f env b batch version width (drop (max 1 width) queued) n' st3 = Some r"
        using a w that by auto
      then show ?thesis using False
        by (subst (1 2) rollout_waves.simps) (simp add: Let_def)
    qed
    then show ?thesis by blast
  qed
qed

text \<open>
  Property C16. A rollout ends: whatever the rest of the service, the farmer and the job
  index do while it runs, as long as its clock passes every time it comes to an end, in a
  state that does not depend on how long one is ready to wait.
\<close>

theorem rollout_returns:
  assumes "\<And>t. \<exists>n. \<forall>m \<ge> n. t \<le> re_now env m"
  shows "\<exists>fuel st'. \<forall>f \<ge> fuel. runRollout f env b batch queued version st = Some st'"
proof -
  obtain fuel r where r: "\<And>f. fuel \<le> f \<Longrightarrow> rollout_waves f env b batch version (nat (ab_RolloutBatchSize batch)) queued 0 st = Some r"
    using waves_return[OF assms] by blast
  have "runRollout f env b batch queued version st = Some (if re_bus env = None then st
      else if ab_RolloutGate batch = gateJobStatus \<and> re_reader env = None then haltRollout b (ab_TenantID batch) ErrorInternal st else r)"
    if "fuel \<le> f" for f using r[OF that] by (simp add: runRollout_def)
  then show ?thesis by blast
qed

section \<open>The waves of a rollout\<close>

definition sent_keys :: "string \<Rightarrow> 'm saas_actions_scheme \<Rightarrow> item_key set" where
  "sent_keys b st = {k. fst k = b \<and> (\<exists>r. SentItem k r \<in> set (ss_log st))}"

definition succeeded :: "item_key \<Rightarrow> 'm saas_actions_scheme \<Rightarrow> bool" where
  "succeeded k st = (\<exists>i. tbl_get (ss_items st) k = Some i \<and> ai_Status i = ActionItemSucceeded)"

text \<open>The items of the batch that were sent and did not succeed.\<close>

definition missed :: "string \<Rightarrow> 'm saas_actions_scheme \<Rightarrow> item_key set" where
  "missed b st = {k \<in> sent_keys b st. \<not> succeeded k st}"

text \<open>The rest of the service does what it may, but only its rollout dispatches a rollout's batch.\<close>

definition world_ok :: "rollout_env \<Rightarrow> string \<Rightarrow> bool" where
  "world_ok env b = (\<forall>n st. action_step\<^sup>*\<^sup>* st (re_world env n st) \<and> sent_keys b (re_world env n st) = sent_keys b st)"

definition copies :: "string \<Rightarrow> AssetActionBatch \<Rightarrow> (item_key \<times> AssetActionItem) list \<Rightarrow> 'm saas_actions_scheme \<Rightarrow> bool" where
  "copies b batch queued st = (tbl_get (ss_batches st) b = Some batch \<and>
     (\<forall>(k, i) \<in> set queued. fst k = b \<and> (\<exists>j. tbl_get (ss_items st) k = Some j \<and> same_item j i)))"

lemma copies_run:
  assumes "action_step\<^sup>*\<^sup>* st st'" "act_inv st" "copies b batch queued st"
  shows "copies b batch queued st'"
proof -
  have "\<exists>j. tbl_get (ss_items st') k = Some j \<and> same_item j i" if "(k, i) \<in> set queued" for k i
  proof -
    obtain j where "tbl_get (ss_items st) k = Some j" "same_item j i" using assms(3) \<open>(k, i) \<in> set queued\<close> by (fastforce simp: copies_def)
    then show ?thesis using run_row[OF assms(1,2)] by (fastforce simp: same_item_def)
  qed
  then show ?thesis using assms(3) run_batch[OF assms(1)] by (fastforce simp: copies_def)
qed

lemma copies_subset: "copies b batch queued st \<Longrightarrow> set w \<subseteq> set queued \<Longrightarrow> copies b batch w st"
  by (auto simp: copies_def)

lemma succeeded_run: "action_step\<^sup>*\<^sup>* st st' \<Longrightarrow> act_inv st \<Longrightarrow> succeeded k st \<Longrightarrow> succeeded k st'"
  using run_row[of st st' k] by (fastforce simp: succeeded_def)

lemma missed_run:
  assumes "action_step\<^sup>*\<^sup>* st st'" "act_inv st" "sent_keys b st' \<subseteq> sent_keys b st \<union> W"
  shows "missed b st' \<subseteq> missed b st \<union> W"
  using assms(3) succeeded_run[OF assms(1,2)] by (auto simp: missed_def)

lemma sent_quiet: "quiet st st' \<Longrightarrow> sent_keys b st' = sent_keys b st"
  by (simp add: quiet_def sent_keys_def)

lemma sent_append: "ss_log st' = ss_log st @ [e] \<Longrightarrow> sent_keys b st' \<subseteq> sent_keys b st \<union> (case e of SentItem k r \<Rightarrow> {k} | _ \<Rightarrow> {})"
  by (auto simp: sent_keys_def split: bus_entry.splits)

lemma dispatchItem_run:
  assumes inv: "act_inv st" and c: "copies b batch [(k, i)] st"
  shows "action_step\<^sup>*\<^sup>* st (dispatchItem bus batch (k, i) st)" "sent_keys b (dispatchItem bus batch (k, i) st) \<subseteq> sent_keys b st \<union> {k}"
proof -
  obtain j where j: "tbl_get (ss_items st) k = Some j" "same_item j i" "tbl_get (ss_batches st) (fst k) = Some batch" using c by (auto simp: copies_def)
  obtain st1 ok where cl: "dispatch_claim batch (k, i) st = (st1, ok)" by fastforce
  have s1: "action_step st st1" using action_step.claim[OF j(3,1,2)] cl by simp
  let ?res = "bus (item_request batch i)"
  from act_invD(1)[OF inv] cl
  have "action_step\<^sup>*\<^sup>* st (dispatchItem bus batch (k, i) st) \<and> sent_keys b (dispatchItem bus batch (k, i) st) \<subseteq> sent_keys b st \<union> {k}"
  proof (cases rule: claim_cases)
    case (taken j')
    have "action_step st1 (dispatch_record batch (k, i) ?res st1)" by (rule action_step.answer) (simp add: taken(8))
    moreover have "sent_keys b (dispatch_record batch (k, i) ?res st1) \<subseteq> sent_keys b st \<union> {k}"
      using sent_append[OF taken(7), of b] sent_append[OF answer_row(2), of b batch k i ?res st1] by auto
    ultimately show ?thesis using s1 taken(1) cl by (simp add: dispatchItem_def)
  next
    case lost
    then show ?thesis using r_into_rtranclp[of action_step, OF s1] cl sent_quiet[OF lost(2), of b] by (simp add: dispatchItem_def subset_insertI)
  qed
  then show "action_step\<^sup>*\<^sup>* st (dispatchItem bus batch (k, i) st)" "sent_keys b (dispatchItem bus batch (k, i) st) \<subseteq> sent_keys b st \<union> {k}" by blast+
qed

lemma dispatchBatch_run:
  assumes "act_inv st" "copies b batch wave st"
  shows "action_step\<^sup>*\<^sup>* st (dispatchBatch (Some bus) batch wave st) \<and> sent_keys b (dispatchBatch (Some bus) batch wave st) \<subseteq> sent_keys b st \<union> fst ` set wave"
  using assms
proof (induction wave arbitrary: st)
  case Nil
  then show ?case by (simp add: dispatchBatch_def)
next
  case (Cons ki wave)
  obtain k i where ki: "ki = (k, i)" by fastforce
  let ?st1 = "dispatchItem bus batch (k, i) st"
  note d = dispatchItem_run[OF Cons(2) copies_subset[OF Cons(3), of "[(k, i)]"], of bus]
  have d: "action_step\<^sup>*\<^sup>* st ?st1" "sent_keys b ?st1 \<subseteq> sent_keys b st \<union> {k}" using d by (simp_all add: ki)
  have "copies b batch wave ?st1" using copies_run[OF d(1) Cons(2)] copies_subset[OF Cons(3), of wave] by (simp add: subset_insertI)
  note ih = Cons(1)[OF acting.run_keeps[OF d(1) Cons(2)] this]
  have f: "dispatchBatch (Some bus) batch (ki # wave) st = dispatchBatch (Some bus) batch wave ?st1" by (simp add: dispatchBatch_def ki)
  show ?case unfolding f using ih d ki by (auto intro: rtranclp_trans)
qed

text \<open>Within one poll, what the rollout holds of an item is what its row says.\<close>

lemma refresh_rows_exact:
  assumes "tbl_up (ss_items st)" "distinct (map fst items)" "\<And>k i. (k, i) \<in> set items \<Longrightarrow> tbl_get (ss_items st) k = Some i"
    and "refresh_rows outcomes items st = (st', items')"
  shows "map fst items' = map fst items \<and> (\<forall>k i. (k, i) \<in> set items' \<longrightarrow> tbl_get (ss_items st') k = Some i) \<and>
    (\<forall>k. k \<notin> fst ` set items \<longrightarrow> tbl_get (ss_items st') k = tbl_get (ss_items st) k)"
  using assms
proof (induction items arbitrary: st items')
  case (Cons ki items)
  obtain k i where ki: "ki = (k, i)" by fastforce
  obtain st1 i1 where h: "(case refresh_update outcomes i of None \<Rightarrow> (st, i)
      | Some u \<Rightarrow> (fst (updateItem k (ai_TenantID i) ActionItemRunning (apply_itemUpdate u) st), if tbl_up (ss_items st) then apply_itemUpdate u i else i)) = (st1, i1)"
    by fastforce
  obtain rest' where r: "refresh_rows outcomes items st1 = (st', rest')" "items' = (k, i1) # rest'"
    using Cons(5) by (auto simp: ki h split: prod.splits)
  have row: "tbl_get (ss_items st) k = Some i" using Cons(4) by (simp add: ki)
  have own: "tbl_get (ss_items st1) k = Some i1" and rest: "\<And>q. q \<noteq> k \<Longrightarrow> tbl_get (ss_items st1) q = tbl_get (ss_items st) q"
      and up: "tbl_up (ss_items st1)"
  proof -
    have run: "refresh_update outcomes i = Some u \<Longrightarrow> ai_Status i = ActionItemRunning" for u by (auto simp: refresh_update_def split: if_splits)
    show "tbl_get (ss_items st1) k = Some i1" using h row Cons(2) run by (auto simp: updateItem_get split: option.splits)
    show "tbl_get (ss_items st1) q = tbl_get (ss_items st) q" if "q \<noteq> k" for q using h that by (auto simp: updateItem_get split: option.splits)
    show "tbl_up (ss_items st1)" using h Cons(2) by (auto split: option.splits)
  qed
  have "\<And>q j. (q, j) \<in> set items \<Longrightarrow> tbl_get (ss_items st1) q = Some j" using Cons(3,4) rest by (force simp: ki)
  from Cons(1)[OF up _ this r(1)] Cons(3)
  have ih: "map fst rest' = map fst items" "\<forall>k i. (k, i) \<in> set rest' \<longrightarrow> tbl_get (ss_items st') k = Some i"
      "\<forall>q. q \<notin> fst ` set items \<longrightarrow> tbl_get (ss_items st') q = tbl_get (ss_items st1) q" by auto
  have "k \<notin> fst ` set items" using Cons(3) by (simp add: ki)
  then show ?case using ih own rest r(2) by (auto simp: ki)
qed simp

lemma refreshItems_exact:
  assumes "tbl_up (ss_items st)" "distinct (map fst items)" "\<And>k i. (k, i) \<in> set items \<Longrightarrow> tbl_get (ss_items st) k = Some i"
    and "refreshItems reader tid items st = (st', items')"
  shows "map fst items' = map fst items \<and> (\<forall>k i. (k, i) \<in> set items' \<longrightarrow> tbl_get (ss_items st') k = Some i)"
  using assms(3,4) refresh_rows_exact[OF assms(1-3)] by (auto simp: refreshItems_def split: option.splits if_splits)

lemma loadWaveItems_Some:
  assumes "loadWaveItems b tid wave st = Some items" "tbl_wf (ss_items st)"
  shows "tbl_up (ss_items st)" "distinct (map fst items)"
    "(k, i) \<in> set items \<longleftrightarrow> tbl_get (ss_items st) k = Some i \<and> fst k = b \<and> ai_TenantID i = tid \<and> snd k \<in> snd ` fst ` set wave"
proof -
  show up: "tbl_up (ss_items st)" using assms(1) by (auto simp: loadWaveItems_def split: if_splits)
  then have items: "items = sort_key (\<lambda>(_, i). ai_Position i)
      (tbl_find (ss_items st) (\<lambda>k i. fst k = b \<and> ai_TenantID i = tid \<and> snd k \<in> set (map (\<lambda>(k, _). snd k) wave)))"
    using assms(1) by (simp add: loadWaveItems_def)
  show "distinct (map fst items)" unfolding items using tbl_find_keys_distinct[OF assms(2)]
    by (metis (no_types, lifting) mset_eq_imp_distinct_iff mset_map mset_sort)
  have "(\<lambda>(k, _). snd k) ` set wave = snd ` fst ` set wave" by (force simp: image_iff)
  then show "(k, i) \<in> set items \<longleftrightarrow> tbl_get (ss_items st) k = Some i \<and> fst k = b \<and> ai_TenantID i = tid \<and> snd k \<in> snd ` fst ` set wave"
    unfolding items by (simp add: tbl_find_get[OF up assms(2)])
qed

lemma await_run:
  assumes "world_ok env b" "ab_RolloutGate batch \<noteq> gateDispatch" "act_inv st" "copies b batch wave st"
    and "await_loop fuel env b batch wave deadline n st = Some (st', n', passed)"
  shows "action_step\<^sup>*\<^sup>* st st' \<and> sent_keys b st' = sent_keys b st \<and> (passed \<longrightarrow> (\<forall>(k, i) \<in> set wave. succeeded k st'))"
  using assms(3-5)
proof (induction fuel arbitrary: n st)
  case (Suc fuel)
  define st1 where "st1 = re_world env n st"
  have w: "action_step\<^sup>*\<^sup>* st st1" "sent_keys b st1 = sent_keys b st" using assms(1) by (simp_all add: world_ok_def st1_def)
  have inv1: "act_inv st1" and cp: "copies b batch wave st1" using acting.run_keeps[OF w(1) Suc(2)] copies_run[OF w(1) Suc(2,3)] by auto
  show ?case
  proof (cases "loadWaveItems b (ab_TenantID batch) wave st1")
    case None
    then show ?thesis using Suc(4) w by (auto simp: st1_def)
  next
    case (Some items)
    note l = loadWaveItems_Some[OF Some act_invD(1)[OF inv1]]
    obtain st2 items' where rf: "refreshItems (map_option (\<lambda>r. r n) (re_reader env)) (ab_TenantID batch) items st1 = (st2, items')" by fastforce
    have q: "quiet st1 st2" using quiet_refreshItems[of st1] rf by (metis fst_conv)
    have s2: "action_step\<^sup>*\<^sup>* st st2" using w(1) action_step.refresh[of st1] rf by (metis fst_conv rtranclp.rtrancl_into_rtrancl)
    have sk: "sent_keys b st2 = sent_keys b st" using sent_quiet[OF q] w(2) by simp
    note ex = refreshItems_exact[OF l(1,2) _ rf]
    have ex: "map fst items' = map fst items" "\<And>k i. (k, i) \<in> set items' \<Longrightarrow> tbl_get (ss_items st2) k = Some i" using ex l(3) by blast+
    have pass: "succeeded k st2" if all: "list_all (\<lambda>(_, i). ai_Status i = ActionItemSucceeded) items'" and mem: "(k, i) \<in> set wave" for k i
    proof -
      obtain j where j: "fst k = b" "tbl_get (ss_items st1) k = Some j" using cp mem by (fastforce simp: copies_def)
      have "ai_TenantID j = ab_TenantID batch" using j(1) act_invD(7)[OF inv1 j(2)] cp by (auto simp: copies_def)
      moreover have "snd k \<in> snd ` fst ` set wave" using mem by (metis fst_conv image_eqI)
      ultimately have "(k, j) \<in> set items" using l(3)[of k j] j by simp
      then have "k \<in> fst ` set items'" using ex(1) by (metis image_eqI fst_conv set_map)
      then show ?thesis using ex(2) all by (fastforce simp: succeeded_def list_all_iff)
    qed
    have body: "(if settled items' then Some (st2, Suc n, list_all (\<lambda>(_, i). ai_Status i = ActionItemSucceeded) items')
        else if \<not> re_now env n < deadline then Some (markUnresponsive items' st2, Suc n, False)
        else await_loop fuel env b batch wave deadline (Suc n) st2) = Some (st', n', passed)"
      using Suc(4) Some assms(2) rf by (simp add: st1_def[symmetric])
    consider (ok) "st' = st2" "passed = list_all (\<lambda>(_, i). ai_Status i = ActionItemSucceeded) items'"
      | (late) "st' = markUnresponsive items' st2" "\<not> passed" | (again) "await_loop fuel env b batch wave deadline (Suc n) st2 = Some (st', n', passed)"
      using body by (auto split: if_splits)
    then show ?thesis
    proof cases
      case ok
      then show ?thesis using s2 sk pass by auto
    next
      case late
      have "sent_keys b (markUnresponsive items' st2) = sent_keys b st2" by (rule sent_quiet[OF quiet_mark])
      then show ?thesis using late rtranclp.rtrancl_into_rtrancl[OF s2 action_step.mark] sk by simp
    next
      case again
      from Suc(1)[OF acting.run_keeps[OF s2 Suc(2)] copies_run[OF s2 Suc(2,3)] again] show ?thesis using s2 sk by (auto intro: rtranclp_trans)
    qed
  qed
qed simp

lemma halted:
  assumes "act_inv st" "tbl_get (ss_batches st) b = Some batch" "tbl_up (ss_items (haltRollout b (ab_TenantID batch) code st))"
    and "tbl_get (ss_items (haltRollout b (ab_TenantID batch) code st)) k = Some i" "fst k = b"
  shows "ai_Status i \<noteq> ActionItemQueued"
proof -
  obtain j where j: "tbl_get (ss_items st) k = Some j" using assms(4) by (auto simp: haltRollout_def tbl_update_where_get split: option.splits)
  then have "ai_TenantID j = ab_TenantID batch" using act_invD(7)[OF assms(1) j] assms(2,5) by auto
  then show ?thesis using assms(3-5) j by (auto simp: haltRollout_def tbl_update_where_get split: if_splits)
qed

lemma halt_run:
  assumes "act_inv s" "copies b batch queued s" "missed b s \<subseteq> M" "s' = haltRollout b (ab_TenantID batch) c s"
  shows "action_step s s' \<and> missed b s' \<subseteq> M \<and>
    (tbl_up (ss_items s') \<longrightarrow> (\<forall>k i. tbl_get (ss_items s') k = Some i \<longrightarrow> fst k = b \<longrightarrow> ai_Status i \<noteq> ActionItemQueued))"
proof -
  have st: "action_step s s'" unfolding assms(4) by (rule action_step.halt)
  have "sent_keys b s' = sent_keys b s" unfolding assms(4) by (rule sent_quiet[OF quiet_halt])
  then have "missed b s' \<subseteq> M"
    using missed_run[OF r_into_rtranclp[of action_step, OF st] assms(1), of b "{}"] assms(3) by simp
  moreover have "tbl_get (ss_batches s) b = Some batch" using assms(2) by (simp add: copies_def)
  ultimately show ?thesis using st halted[OF assms(1)] assms(4) by blast
qed

lemma waves_run:
  assumes env: "world_ok env b" "re_bus env = Some bus" "ab_RolloutGate batch \<noteq> gateDispatch"
    and "act_inv st" "copies b batch queued st" "missed b st = {}"
    and "rollout_waves fuel env b batch version width queued n st = Some st'"
  shows "action_step\<^sup>*\<^sup>* st st' \<and> (\<exists>w. length w \<le> max 1 width \<and> set w \<subseteq> set queued \<and> missed b st' \<subseteq> fst ` set w) \<and>
    ((\<forall>(k, i) \<in> set queued. succeeded k st') \<or>
     (tbl_up (ss_items st') \<longrightarrow> (\<forall>k i. tbl_get (ss_items st') k = Some i \<longrightarrow> fst k = b \<longrightarrow> ai_Status i \<noteq> ActionItemQueued)))"
  using assms(4-)
proof (induction "length queued" arbitrary: queued n st rule: less_induct)
  case less
  show ?case
  proof (cases "queued = []")
    case True
    then show ?thesis using less(4,5) by (auto simp: rollout_waves.simps)
  next
    case False
    define st1 where "st1 = re_world env n st"
    define wave where "wave = take (max 1 width) queued"
    have w: "action_step\<^sup>*\<^sup>* st st1" "sent_keys b st1 = sent_keys b st" using env(1) by (simp_all add: world_ok_def st1_def)
    have i1: "act_inv st1" and c1: "copies b batch queued st1" using acting.run_keeps[OF w(1) less(2)] copies_run[OF w(1) less(2,3)] by auto
    have m1: "missed b st1 = {}" using missed_run[OF w(1) less(2), of b "{}"] w(2) less(4) by simp
    have wv: "length wave \<le> max 1 width" "set wave \<subseteq> set queued" by (auto simp: wave_def dest: in_set_takeD)
    obtain code where code: "code = (case rolloutPolicyCheck (ab_TenantID batch) version (re_now env n) st1 of None \<Rightarrow> ErrorInternal | Some c \<Rightarrow> c)" by simp
    have halt: "action_step\<^sup>*\<^sup>* st s' \<and> (\<exists>w. length w \<le> max 1 width \<and> set w \<subseteq> set queued \<and> missed b s' \<subseteq> fst ` set w) \<and>
        (tbl_up (ss_items s') \<longrightarrow> (\<forall>k i. tbl_get (ss_items s') k = Some i \<longrightarrow> fst k = b \<longrightarrow> ai_Status i \<noteq> ActionItemQueued))"
      if s: "action_step\<^sup>*\<^sup>* st1 s" "missed b s \<subseteq> fst ` set wave" "s' = haltRollout b (ab_TenantID batch) c s" for s s' c
    proof -
      have "copies b batch queued s" using copies_run[OF s(1) i1 c1] .
      from halt_run[OF acting.run_keeps[OF s(1) i1] this s(2,3)]
      have h: "action_step s s'" "missed b s' \<subseteq> fst ` set wave" "tbl_up (ss_items s') \<Longrightarrow> tbl_get (ss_items s') k = Some i \<Longrightarrow> fst k = b \<Longrightarrow> ai_Status i \<noteq> ActionItemQueued" for k i
        by blast+
      have "action_step\<^sup>*\<^sup>* st s'" using w(1) s(1) h(1) by (meson rtranclp_trans rtranclp.rtrancl_into_rtrancl)
      then show ?thesis using wv h(2,3) by blast
    qed
    show ?thesis
    proof (cases "code = []")
      case no: False
      then have "st' = haltRollout b (ab_TenantID batch) code st1"
        using less(5) False code by (subst (asm) rollout_waves.simps) (simp add: Let_def st1_def)
      then show ?thesis using halt[of st1 st' code] m1 by blast
    next
      case True
      define st2 where "st2 = dispatchBatch (Some bus) batch wave st1"
      have d: "action_step\<^sup>*\<^sup>* st1 st2" "sent_keys b st2 \<subseteq> sent_keys b st1 \<union> fst ` set wave"
        using dispatchBatch_run[OF i1 copies_subset[OF c1 wv(2)]] by (auto simp: st2_def)
      note i2 = acting.run_keeps[OF d(1) i1] and c2 = copies_run[OF d(1) i1 c1]
      have m2: "missed b st2 \<subseteq> fst ` set wave" using missed_run[OF d(1) i1 d(2)] m1 by blast
      have rw: "(case awaitWave fuel env b batch wave (Suc n) st2 of None \<Rightarrow> None
          | Some (st3, n', passed) \<Rightarrow> if \<not> passed then Some (haltRollout b (ab_TenantID batch) errCodeRolloutHalted (re_world env n' st3))
              else rollout_waves fuel env b batch version width (drop (max 1 width) queued) n' st3) = Some st'"
        using less(5) False True code env(2) by (subst (asm) rollout_waves.simps) (simp add: Let_def st1_def wave_def st2_def)
      then obtain st3 n' passed where a: "awaitWave fuel env b batch wave (Suc n) st2 = Some (st3, n', passed)" by (auto split: option.splits)
      from await_run[OF env(1,3) i2 copies_subset[OF c2 wv(2)] a[unfolded awaitWave_def]]
      have a3: "action_step\<^sup>*\<^sup>* st2 st3" "sent_keys b st3 = sent_keys b st2" "passed \<Longrightarrow> \<forall>(k, i) \<in> set wave. succeeded k st3" by auto
      have r3: "action_step\<^sup>*\<^sup>* st1 st3" using d(1) a3(1) by (rule rtranclp_trans)
      have m3: "missed b st3 \<subseteq> fst ` set wave" using missed_run[OF a3(1) i2, of b "{}"] a3(2) m2 by auto
      have i3: "act_inv st3" by (rule acting.run_keeps[OF r3 i1])
      show ?thesis
      proof (cases passed)
        case no: False
        have w4: "action_step\<^sup>*\<^sup>* st3 (re_world env n' st3)" "sent_keys b (re_world env n' st3) = sent_keys b st3"
          using env(1) by (simp_all add: world_ok_def)
        have "missed b (re_world env n' st3) \<subseteq> fst ` set wave" using missed_run[OF w4(1) i3, of b "{}"] w4(2) m3 by auto
        moreover have "st' = haltRollout b (ab_TenantID batch) errCodeRolloutHalted (re_world env n' st3)" using rw a no by simp
        ultimately show ?thesis using halt[of "re_world env n' st3" st'] rtranclp_trans[OF r3 w4(1)] by blast
      next
        case yes: True
        let ?rest = "drop (max 1 width) queued"
        have m0: "missed b st3 = {}" using m3 a3(3)[OF yes] by (force simp: missed_def)
        have rest: "set ?rest \<subseteq> set queued" "length ?rest < length queued" using False by (auto dest: in_set_dropD)
        have "copies b batch ?rest st3" using copies_run[OF r3 i1 c1] rest(1) by (rule copies_subset)
        from less(1)[OF rest(2) i3 this m0] rw a yes
        have ih: "action_step\<^sup>*\<^sup>* st3 st'" "\<exists>w. length w \<le> max 1 width \<and> set w \<subseteq> set ?rest \<and> missed b st' \<subseteq> fst ` set w"
          "(\<forall>(k, i) \<in> set ?rest. succeeded k st') \<or>
           (tbl_up (ss_items st') \<longrightarrow> (\<forall>k i. tbl_get (ss_items st') k = Some i \<longrightarrow> fst k = b \<longrightarrow> ai_Status i \<noteq> ActionItemQueued))"
          by simp_all
        have "\<forall>(k, i) \<in> set wave. succeeded k st'" using a3(3)[OF yes] succeeded_run[OF ih(1) i3] by auto
        then have all: "(\<forall>(k, i) \<in> set ?rest. succeeded k st') \<Longrightarrow> \<forall>(k, i) \<in> set queued. succeeded k st'"
          unfolding wave_def by (metis Un_iff append_take_drop_id set_append)
        have "action_step\<^sup>*\<^sup>* st st'" using w(1) r3 ih(1) by (meson rtranclp_trans)
        moreover have "\<exists>w. length w \<le> max 1 width \<and> set w \<subseteq> set queued \<and> missed b st' \<subseteq> fst ` set w" using ih(2) rest(1) by (meson subset_trans)
        ultimately show ?thesis using ih(3) all by blast
      qed
    qed
  qed
qed

text \<open>
  Property C15. The blast radius of a rollout with the job-status gate, beside any other
  activity: every step it takes is one of the service's steps (so items are sent at most once and
  end states stay); at most one wave's worth of its items, never more than the batch
  size, was sent without succeeding; all of those are items it was given; and
  unless every item succeeded, no item of the batch is left queued, provided the database
  answers.
\<close>

theorem rollout_blast_radius:
  assumes "no_actions st0" "action_step\<^sup>*\<^sup>* st0 st" "copies b batch queued st" "sent_keys b st = {}"
    and "world_ok env b" "re_bus env = Some bus" "ab_RolloutGate batch = gateJobStatus"
    and "runRollout fuel env b batch queued version st = Some st'"
  shows "action_step\<^sup>*\<^sup>* st st' \<and> card (missed b st') \<le> max 1 (nat (ab_RolloutBatchSize batch)) \<and> missed b st' \<subseteq> fst ` set queued \<and>
    ((\<forall>(k, i) \<in> set queued. succeeded k st') \<or>
     (tbl_up (ss_items st') \<longrightarrow> (\<forall>k i. tbl_get (ss_items st') k = Some i \<longrightarrow> fst k = b \<longrightarrow> ai_Status i \<noteq> ActionItemQueued)))"
proof -
  have inv: "act_inv st" by (rule acting.run_keeps[OF assms(2) act_inv_start[OF assms(1)]])
  have none: "missed b st = {}" using assms(4) by (simp add: missed_def)
  show ?thesis
  proof (cases "re_reader env")
    case None
    then have "st' = haltRollout b (ab_TenantID batch) ErrorInternal st" using assms(6-8) by (simp add: runRollout_def)
    from halt_run[OF inv assms(3) _ this, of "{}"] show ?thesis using none by auto
  next
    case (Some rd)
    have g: "ab_RolloutGate batch \<noteq> gateDispatch" by (simp add: assms(7) gateJobStatus_def gateDispatch_def)
    have "rollout_waves fuel env b batch version (nat (ab_RolloutBatchSize batch)) queued 0 st = Some st'"
      using assms(6,8) Some by (simp add: runRollout_def)
    from waves_run[OF assms(5,6) g inv assms(3) none this] obtain w where w:
      "action_step\<^sup>*\<^sup>* st st'" "length w \<le> max 1 (nat (ab_RolloutBatchSize batch))" "set w \<subseteq> set queued" "missed b st' \<subseteq> fst ` set w"
      "(\<forall>(k, i) \<in> set queued. succeeded k st') \<or>
       (tbl_up (ss_items st') \<longrightarrow> (\<forall>k i. tbl_get (ss_items st') k = Some i \<longrightarrow> fst k = b \<longrightarrow> ai_Status i \<noteq> ActionItemQueued))" by blast
    have "card (missed b st') \<le> card (set (map fst w))" using w(4) by (intro card_mono) auto
    also have "\<dots> \<le> length w" using card_length[of "map fst w"] by simp
    finally have "card (missed b st') \<le> length w" .
    moreover have "missed b st' \<subseteq> fst ` set queued" using w(3,4) by (meson image_mono subset_trans)
    ultimately show ?thesis using w(1,2,5) le_trans by blast
  qed
qed

section \<open>Witnesses\<close>

lemma claim_succeeds:
  assumes inv: "act_inv s" and cp: "copies b batch [(k, i)] s" and row: "tbl_get (ss_items s) k = Some j" "ai_Status j = ActionItemQueued"
    and up: "tbl_up (ss_items s)"
  shows "\<exists>s'. action_step\<^sup>*\<^sup>* s s' \<and> ss_log s' = ss_log s @ [SentItem k (item_request batch i)] \<and> k \<in> set (ss_inflight s') \<and>
      tbl_up (ss_items s') \<and> tbl_get (ss_items s') k = Some (claimed j) \<and> same_item j i"
proof -
  obtain s' ok where c: "dispatch_claim batch (k, i) s = (s', ok)" by fastforce
  have j: "same_item j i" "tbl_get (ss_batches s) (fst k) = Some batch" using cp row(1) by (auto simp: copies_def)
  have st: "action_step s s'" using action_step.claim[OF j(2) row(1) j(1)] c by simp
  have ok: "ok" using c row up j(1) act_invD(1)[OF inv]
    by (cases k) (auto simp: dispatch_claim_def updateItem_def Let_def tbl_affects_iff itemScope_def same_item_def split: if_splits)
  from act_invD(1)[OF inv] c show ?thesis
  proof (cases rule: claim_cases)
    case (taken j')
    then show ?thesis using st row(1) j(1) by (intro exI[of _ s']) auto
  qed (use ok in simp)
qed

lemma demo_no_actions: "no_actions demo_approved"
  by (simp add: no_actions_def demo_approved_def demo_fleet_def saas_actions.defs saas_fleet.defs demo_actions_def)

lemma demo_started:
  "\<exists>st b. action_step\<^sup>*\<^sup>* demo_approved st \<and> copies b (demo_update\<lparr>ab_Requested := [''a1'', ''a2'']\<rparr>) [((b, ''a1''), demo_web_item)] st \<and>
     tbl_get (ss_items st) (b, ''a1'') = Some demo_web_item \<and> tbl_up (ss_items st) \<and> ss_log st = []"
proof -
  obtain st b where c: "createBatch demo_rand demo_update [''a1'', ''a2''] demo_resolved Map.empty demo_approved = Some (st, b, [((b, ''a1''), demo_web_item)])"
    using demo_update_created by blast
  note cr = createBatch_rows[OF c]
  have d: "distinct [''a1'', ''a2'']" by simp
  have q: "((b, ''a1''), demo_web_item) \<in> set (batch_items b (ab_TenantID demo_update) [''a1'', ''a2''] (byAsset demo_resolved) Map.empty)"
    using arg_cong[OF cr(1)[OF d], of set] by auto
  have "distinct (map fst (batch_items b (ab_TenantID demo_update) [''a1'', ''a2''] (byAsset demo_resolved) Map.empty))"
    by (simp add: batch_items_def upt_rec)
  then have row: "tbl_get (ss_items st) (b, ''a1'') = Some demo_web_item" using cr(4)[OF d, of "(b, ''a1'')"] q by (simp add: map_of_is_SomeI)
  have up: "tbl_up (ss_items st)" "ss_log st = []"
  proof -
    show "ss_log st = []" using cr(6)[OF d] demo_no_actions by (simp add: no_actions_def)
    show "tbl_up (ss_items st)" using c create_items_get[of "ss_items demo_approved"]
      by (auto simp: createBatch_def Let_def demo_approved_def demo_fleet_def saas_actions.defs saas_fleet.defs demo_actions_def tbl_create_def
          batch_items_def upt_rec split: option.splits if_splits)
  qed
  have "copies b (demo_update\<lparr>ab_Requested := [''a1'', ''a2'']\<rparr>) [((b, ''a1''), demo_web_item)] st"
    using cr(2)[OF d, of b] row by (simp add: copies_def)
  then show ?thesis using row up action_step.create[OF c d] by blast
qed

theorem sent_at_most_once_witness:
  "\<exists>st k r r'. action_step\<^sup>*\<^sup>* demo_approved st \<and> ss_log st = [SentItem k r, AnswerItem k NoResponders, SentItem k r'] \<and> r' = r"
proof -
  obtain st b where s: "action_step\<^sup>*\<^sup>* demo_approved st" "copies b (demo_update\<lparr>ab_Requested := [''a1'', ''a2'']\<rparr>) [((b, ''a1''), demo_web_item)] st"
    "tbl_get (ss_items st) (b, ''a1'') = Some demo_web_item" "tbl_up (ss_items st)" "ss_log st = []" using demo_started by blast
  let ?ba = "demo_update\<lparr>ab_Requested := [''a1'', ''a2'']\<rparr>" and ?k = "(b, ''a1'')"
  have i0: "act_inv st" by (rule acting.run_keeps[OF s(1) act_inv_start[OF demo_no_actions]])
  obtain s1 j where s1: "action_step\<^sup>*\<^sup>* st s1" "ss_log s1 = [SentItem ?k (item_request ?ba demo_web_item)]" "?k \<in> set (ss_inflight s1)" "tbl_up (ss_items s1)"
      "tbl_get (ss_items s1) ?k = Some (claimed j)" "same_item j demo_web_item" using claim_succeeds[OF i0 s(2,3) _ s(4)] s(5) by (auto simp: demo_web_item_def)
  let ?s2 = "dispatch_record ?ba (?k, demo_web_item) NoResponders s1"
  have s2: "action_step s1 ?s2" by (rule action_step.answer[OF s1(3)])
  have r2: "action_step\<^sup>*\<^sup>* st ?s2" using s1(1) s2 by (rule rtranclp.rtrancl_into_rtrancl)
  have "tbl_get (ss_items ?s2) ?k = Some (apply_itemUpdate (set_status ActionItemQueued) (claimed j))" "tbl_up (ss_items ?s2)"
    using s1(4-6) by (auto simp: answer_row claimed_def same_item_def)
  from claim_succeeds[OF acting.run_keeps[OF r2 i0] copies_run[OF r2 i0 s(2)] this(1) _ this(2)]
  obtain s3 where s3: "action_step\<^sup>*\<^sup>* ?s2 s3" "ss_log s3 = ss_log ?s2 @ [SentItem ?k (item_request ?ba demo_web_item)]" by auto
  have log: "ss_log s3 = [] @ SentItem ?k (item_request ?ba demo_web_item) # [AnswerItem ?k NoResponders] @ SentItem ?k (item_request ?ba demo_web_item) # []"
    by (simp add: s3(2) answer_row s1(2))
  have run: "action_step\<^sup>*\<^sup>* demo_approved s3" using s(1) r2 s3(1) by (meson rtranclp_trans)
  have "AnswerItem ?k NoResponders \<in> set [AnswerItem ?k NoResponders] \<and> item_request ?ba demo_web_item = item_request ?ba demo_web_item"
    using sent_at_most_once[OF demo_no_actions run] log by blast
  then show ?thesis using run log by (metis append.left_neutral append_Cons)
qed

theorem item_life_witness:
  "\<exists>st k j. action_step\<^sup>*\<^sup>* demo_approved st \<and> tbl_get (ss_items st) k = Some j \<and> same_item demo_web_item j"
proof -
  obtain st b where s: "action_step\<^sup>*\<^sup>* demo_approved st" "tbl_get (ss_items st) (b, ''a1'') = Some demo_web_item" using demo_started by blast
  have h: "action_step\<^sup>*\<^sup>* st (haltRollout b ''t_1'' errCodeRolloutHalted st)" using action_step.halt by blast
  show ?thesis using item_life[OF demo_no_actions s(1) h s(2)] rtranclp_trans[OF s(1) h] by blast
qed

theorem stranded_update_blocks_sprout_witness:
  "\<exists>st k i. action_step\<^sup>*\<^sup>* demo_approved st \<and> tbl_get (ss_items st) k = Some i \<and> ai_Status i = ActionItemDispatching \<and> ai_TenantID i = ''t_1'' \<and>
     (\<forall>env rand body others st'' code b queued version q j. (\<forall>n s. action_step\<^sup>*\<^sup>* s (others n s)) \<longrightarrow>
       CreateFleetUpdateBatch env rand body ''t_1'' others st = (st'', Reply code b, queued, version) \<longrightarrow> (q, j) \<in> set queued \<longrightarrow> ai_SproutID j \<noteq> ''web'')"
proof -
  let ?ba = "demo_update\<lparr>ab_Requested := [''a1'', ''a2'']\<rparr>"
  obtain st b where s: "action_step\<^sup>*\<^sup>* demo_approved st" "copies b ?ba [((b, ''a1''), demo_web_item)] st"
    "tbl_get (ss_items st) (b, ''a1'') = Some demo_web_item" "tbl_up (ss_items st)" using demo_started by blast
  have i0: "act_inv st" by (rule acting.run_keeps[OF s(1) act_inv_start[OF demo_no_actions]])
  obtain s1 where s1: "action_step\<^sup>*\<^sup>* st s1" "tbl_get (ss_items s1) (b, ''a1'') = Some (claimed demo_web_item)"
    using claim_succeeds[OF i0 s(2,3) _ s(4)] by (auto simp: demo_web_item_def)
  have r1: "action_step\<^sup>*\<^sup>* demo_approved s1" using s(1) s1(1) by (rule rtranclp_trans)
  note i1 = acting.run_keeps[OF s1(1) i0]
  let ?s2 = "s1\<lparr>ss_inflight := remove1 (b, ''a1'') (ss_inflight s1)\<rparr>"
  have r2: "action_step\<^sup>*\<^sup>* demo_approved ?s2" using r1 action_step.killed by (rule rtranclp.rtrancl_into_rtrancl)
  have row: "tbl_get (ss_items ?s2) (b, ''a1'') = Some (claimed demo_web_item)" "ai_Status (claimed demo_web_item) = ActionItemDispatching"
    "(b, ''a1'') \<notin> set (ss_inflight ?s2)" "tbl_get (ss_batches ?s2) (fst (b, ''a1'')) = Some ?ba"
    "ab_TenantID ?ba = ai_TenantID (claimed demo_web_item)" "ab_ActionType ?ba = ActionSelfUpdate"
    using s1(2) act_invD(2)[OF i1] copies_run[OF s1(1) i0 s(2)] by (auto simp: claimed_def copies_def demo_update_def demo_web_item_def)
  from stranded_update_blocks_sprout[OF demo_no_actions r2 row rtranclp.rtrancl_refl] r2 row(1,2)
  show ?thesis by (intro exI[of _ ?s2] exI[of _ "(b, ''a1'')"] exI[of _ "claimed demo_web_item"]) (simp add: claimed_def demo_web_item_def)
qed

definition demo_rollout_env :: rollout_env where
  "demo_rollout_env = \<lparr>re_world = (\<lambda>n st. st), re_now = int, re_bus = Some (\<lambda>r. NoReply), re_reader = Some (\<lambda>n tid jobs. Some Map.empty)\<rparr>"

lemma demo_clock: "\<exists>n. \<forall>m \<ge> n. t \<le> re_now demo_rollout_env m"
  by (intro exI[of _ "nat t"]) (auto simp: demo_rollout_env_def)

theorem rollout_returns_witness:
  "\<exists>fuel st'. \<forall>f \<ge> fuel. runRollout f demo_rollout_env ''b_1'' demo_update [((''b_1'', ''a1''), demo_web_item)] ''1.0'' demo_approved = Some st'"
  by (rule rollout_returns[OF demo_clock])

theorem rollout_blast_radius_witness:
  "\<exists>st b fuel st'. action_step\<^sup>*\<^sup>* demo_approved st \<and>
     runRollout fuel demo_rollout_env b (demo_update\<lparr>ab_Requested := [''a1'', ''a2'']\<rparr>) [((b, ''a1''), demo_web_item)] ''1.0'' st = Some st' \<and>
     card (missed b st') \<le> 5 \<and> action_step\<^sup>*\<^sup>* st st'"
proof -
  let ?ba = "demo_update\<lparr>ab_Requested := [''a1'', ''a2'']\<rparr>"
  obtain st b where s: "action_step\<^sup>*\<^sup>* demo_approved st" "copies b ?ba [((b, ''a1''), demo_web_item)] st" "ss_log st = []" using demo_started by blast
  have sent: "sent_keys b st = {}" by (simp add: sent_keys_def s(3))
  have env: "world_ok demo_rollout_env b" "re_bus demo_rollout_env = Some (\<lambda>r. NoReply)" "ab_RolloutGate ?ba = gateJobStatus"
    by (simp_all add: world_ok_def demo_rollout_env_def demo_update_def)
  obtain fuel st' where "rollout_waves fuel demo_rollout_env b ?ba ''1.0'' (nat (ab_RolloutBatchSize ?ba)) [((b, ''a1''), demo_web_item)] 0 st = Some st'"
    using waves_return[of demo_rollout_env, OF demo_clock] by blast
  then have run: "runRollout fuel demo_rollout_env b ?ba [((b, ''a1''), demo_web_item)] ''1.0'' st = Some st'"
    by (simp add: runRollout_def demo_rollout_env_def)
  have "ab_RolloutBatchSize ?ba = 5" by (simp add: demo_update_def)
  then show ?thesis using rollout_blast_radius[OF demo_no_actions s(1,2) sent env run] s(1) run by auto
qed

end
