(* ===== verification/Saas_Limits.thy ===== *)
theory Saas_Limits
  imports Saas_Base
begin

text \<open>
  Rate limits of the hosted service (\<open>internal/saasapi/middleware.go\<close>,
  \<open>ratelimit_valkey.go\<close>): the buckets a process keeps per caller, the script that runs inside
  Valkey and its fallback.  The token bucket of the rate library is a parameter.
  Times of the script are milliseconds of Valkey's clock.
\<close>

section \<open>Buckets of one process\<close>

record ('r, 'b) rate_lib =
  rt_NewLimiter :: "'r \<Rightarrow> int \<Rightarrow> 'b"
  rt_AllowN :: "'b \<Rightarrow> int \<Rightarrow> 'b \<times> bool"

record 'b callerBucket =
  cb_limiter :: 'b
  cb_lastSeen :: int

record ('r, 'b) perCallerLimiter =
  pl_limit :: 'r
  pl_burst :: int
  pl_callers :: "(string \<times> 'b callerBucket) list"

definition NewPerCallerLimiter :: "'r \<Rightarrow> int \<Rightarrow> ('r, 'b) perCallerLimiter" where
  "NewPerCallerLimiter r burst = \<lparr>pl_limit = r, pl_burst = burst, pl_callers = []\<rparr>"

text \<open>Ten minutes, in nanoseconds.\<close>

definition callerBucketTTL :: int where "callerBucketTTL = 10 * 60 * 1000000000"

definition evictLocked :: "int \<Rightarrow> ('r, 'b) perCallerLimiter \<Rightarrow> ('r, 'b) perCallerLimiter" where
  "evictLocked now l = l\<lparr>pl_callers := filter (\<lambda>(k, b). \<not> cb_lastSeen b < now - callerBucketTTL) (pl_callers l)\<rparr>"

definition allowAt :: "('r, 'b) rate_lib \<Rightarrow> string \<Rightarrow> int \<Rightarrow> ('r, 'b) perCallerLimiter \<Rightarrow> ('r, 'b) perCallerLimiter \<times> bool" where
  "allowAt lib key now l =
     (let l1 = evictLocked now l;
          b = (case map_of (pl_callers l1) key of None \<Rightarrow> rt_NewLimiter lib (pl_limit l) (pl_burst l) | Some cb \<Rightarrow> cb_limiter cb);
          (b', ok) = rt_AllowN lib b now
      in (l1\<lparr>pl_callers := AList.update key \<lparr>cb_limiter = b', cb_lastSeen = now\<rparr> (pl_callers l1)\<rparr>, ok))"

section \<open>The shared limiter\<close>

text \<open>The keys of Valkey with their values and the times they expire; a key past its time reads as absent.\<close>

type_synonym tat_store = "(string \<times> int \<times> int) list"

definition tat_get :: "tat_store \<Rightarrow> int \<Rightarrow> string \<Rightarrow> int option" where
  "tat_get store now key = (case map_of store key of None \<Rightarrow> None | Some (v, e) \<Rightarrow> if e < now then None else Some v)"

definition tat_set :: "tat_store \<Rightarrow> int \<Rightarrow> string \<Rightarrow> int \<Rightarrow> int \<Rightarrow> tat_store" where
  "tat_set store now key v px = AList.update key (v, now + px) store"

definition gcraScript :: "int \<Rightarrow> int \<Rightarrow> int \<Rightarrow> string \<Rightarrow> tat_store \<Rightarrow> tat_store \<times> bool" where
  "gcraScript interval burst now key store =
     (let tat = (case tat_get store now key of None \<Rightarrow> now | Some t \<Rightarrow> if t < now then now else t);
          new_tat = tat + interval
      in if new_tat - burst * interval > now then (store, False)
         else (tat_set store now key new_tat (new_tat - now), True))"

definition valkeyLimiterKeyPrefix :: string where "valkeyLimiterKeyPrefix = ''grlx:saasapi:ratelimit:''"

definition maxIntervalMS :: int where "maxIntervalMS = 24 * 60 * 60 * 1000"

text \<open>\<open>ms\<close> is the rounded number of milliseconds per request, \<^term>\<open>None\<close> when it is not finite.\<close>

definition limiter_interval :: "int option \<Rightarrow> int" where
  "limiter_interval ms = (case ms of Some n \<Rightarrow> if n < maxIntervalMS then max n 1 else maxIntervalMS | None \<Rightarrow> maxIntervalMS)"

record ('r, 'b) valkeyLimiter =
  vl_name :: string
  vl_intervalMS :: int
  vl_burst :: int
  vl_fallback :: "('r, 'b) perCallerLimiter"

definition NewValkeyLimiter :: "string \<Rightarrow> 'r \<Rightarrow> int option \<Rightarrow> int \<Rightarrow> ('r, 'b) valkeyLimiter" where
  "NewValkeyLimiter name r ms burst =
     \<lparr>vl_name = name, vl_intervalMS = limiter_interval ms, vl_burst = burst, vl_fallback = NewPerCallerLimiter r burst\<rparr>"

text \<open>\<open>up\<close> says whether Valkey answers in time; \<open>now\<close> is its clock, \<open>local\<close> the process's.\<close>

definition allowShared :: "bool \<Rightarrow> int \<Rightarrow> ('r, 'b) valkeyLimiter \<Rightarrow> string \<Rightarrow> tat_store \<Rightarrow> (tat_store \<times> bool) option" where
  "allowShared up now l key store =
     (if \<not> up then None
      else Some (gcraScript (vl_intervalMS l) (vl_burst l) now (valkeyLimiterKeyPrefix @ vl_name l @ '':'' @ key) store))"

definition valkey_allow ::
  "('r, 'b) rate_lib \<Rightarrow> bool \<Rightarrow> int \<Rightarrow> int \<Rightarrow> string \<Rightarrow> ('r, 'b) valkeyLimiter \<times> tat_store \<Rightarrow> (('r, 'b) valkeyLimiter \<times> tat_store) \<times> bool" where
  "valkey_allow lib up now loc key ls =
     (let (l, store) = ls in
      case allowShared up now l key store of
        Some (store', ok) \<Rightarrow> ((l, store'), ok)
      | None \<Rightarrow> let (f, ok) = allowAt lib key loc (vl_fallback l) in ((l\<lparr>vl_fallback := f\<rparr>, store), ok))"

section \<open>Callers do not share a budget\<close>

text \<open>The decisions of a limiter on requests in order, and those of one key.\<close>

primrec decisions :: "(int \<Rightarrow> string \<Rightarrow> 'l \<Rightarrow> 'l \<times> bool) \<Rightarrow> 'l \<Rightarrow> (int \<times> string) list \<Rightarrow> bool list" where
  "decisions allow l [] = []"
| "decisions allow l (r # rs) = snd (allow (fst r) (snd r) l) # decisions allow (fst (allow (fst r) (snd r) l)) rs"

definition granted :: "(int \<Rightarrow> string \<Rightarrow> 'l \<Rightarrow> 'l \<times> bool) \<Rightarrow> string \<Rightarrow> 'l \<Rightarrow> (int \<times> string) list \<Rightarrow> bool list" where
  "granted allow key l rs = map snd (filter (\<lambda>(r, ok). snd r = key) (zip rs (decisions allow l rs)))"

lemma granted_simps [simp]:
  "granted allow key l [] = []"
  "granted allow key l (r # rs) = (if snd r = key then [snd (allow (fst r) key l)] else []) @ granted allow key (fst (allow (fst r) (snd r) l)) rs"
  by (auto simp: granted_def)

text \<open>
  What a limiter promises its callers: a request touches what is kept of its own key
  only, and is decided by that alone.
\<close>

locale caller_limiter =
  fixes allow :: "int \<Rightarrow> string \<Rightarrow> 'l \<Rightarrow> 'l \<times> bool"
    and view :: "'l \<Rightarrow> string \<Rightarrow> 'v"
  assumes other: "k \<noteq> key \<Longrightarrow> view (fst (allow now key l)) k = view l k"
    and own: "view l key = view l' key \<Longrightarrow>
      snd (allow now key l) = snd (allow now key l') \<and> view (fst (allow now key l)) key = view (fst (allow now key l')) key"
begin

lemma granted_own: "view l key = view l' key \<Longrightarrow> granted allow key l rs = granted allow key l' (filter (\<lambda>r. snd r = key) rs)"
proof (induction rs arbitrary: l l')
  case (Cons r rs)
  show ?case
  proof (cases "snd r = key")
    case True
    with own[of l key l' "fst r"] Cons(2) show ?thesis using Cons(1) by simp
  next
    case False
    then have "view (fst (allow (fst r) (snd r) l)) key = view l' key" using other Cons(2) by auto
    then show ?thesis using Cons(1) False by simp
  qed
qed simp

end

lemma gcra_own:
  "k \<noteq> key \<Longrightarrow> map_of (fst (gcraScript interval burst now key store)) k = map_of store k"
  "map_of store key = map_of store' key \<Longrightarrow> snd (gcraScript interval burst now key store) = snd (gcraScript interval burst now key store') \<and>
     map_of (fst (gcraScript interval burst now key store)) key = map_of (fst (gcraScript interval burst now key store')) key"
  by (simp_all add: gcraScript_def tat_get_def tat_set_def update_conv' Let_def split: option.splits)

interpretation gcra: caller_limiter "gcraScript interval burst" map_of
  by unfold_locales (use gcra_own in \<open>blast+\<close>)

text \<open>The reference: buckets that refill one unit per millisecond up to their capacity; a request takes its cost.\<close>

record bucket =
  bk_level :: int
  bk_last :: int

definition refilled :: "int \<Rightarrow> int \<Rightarrow> bucket \<Rightarrow> int" where
  "refilled cap now b = min cap (bk_level b + (now - bk_last b))"

definition bucket_allow :: "int \<Rightarrow> int \<Rightarrow> int \<Rightarrow> string \<Rightarrow> (string \<Rightarrow> bucket) \<Rightarrow> (string \<Rightarrow> bucket) \<times> bool" where
  "bucket_allow cap cost now key bs =
     (let l = refilled cap now (bs key) in
      if cost \<le> l then (bs(key := \<lparr>bk_level = l - cost, bk_last = now\<rparr>), True) else (bs(key := \<lparr>bk_level = l, bk_last = now\<rparr>), False))"

interpretation bucket: caller_limiter "bucket_allow cap cost" "\<lambda>bs. bs"
  by unfold_locales (simp_all add: bucket_allow_def Let_def)

section \<open>The script is a token bucket\<close>

text \<open>Values expire at the time they name, so an expired value is one in the past.\<close>

definition tat_ok :: "tat_store \<Rightarrow> bool" where
  "tat_ok store = (\<forall>k v e. map_of store k = Some (v, e) \<longrightarrow> e = v)"

definition tat_at :: "tat_store \<Rightarrow> int \<Rightarrow> string \<Rightarrow> int" where
  "tat_at store now key = (case map_of store key of None \<Rightarrow> now | Some (v, e) \<Rightarrow> max now v)"

lemma tat_at_later: "s \<le> now \<Longrightarrow> tat_at store now key = max now (tat_at store s key)"
  by (auto simp: tat_at_def split: option.splits)

lemma gcra_tat:
  assumes "tat_ok store" "store' = fst (gcraScript interval burst now key store)" "0 < interval"
  shows "snd (gcraScript interval burst now key store) \<longleftrightarrow> tat_at store now key + interval \<le> now + burst * interval"
    "tat_ok store'"
    "tat_at store' now k = (if k = key \<and> snd (gcraScript interval burst now key store) then tat_at store now key + interval else tat_at store now k)"
proof -
  have tat: "(case tat_get store now key of None \<Rightarrow> now | Some t \<Rightarrow> if t < now then now else t) = tat_at store now key"
    using assms(1) by (auto simp: tat_get_def tat_at_def tat_ok_def split: option.splits)
  show dec: "snd (gcraScript interval burst now key store) \<longleftrightarrow> tat_at store now key + interval \<le> now + burst * interval"
    unfolding gcraScript_def tat Let_def by auto
  have st: "store' = (if snd (gcraScript interval burst now key store) then AList.update key (tat_at store now key + interval, tat_at store now key + interval) store
      else store)"
    unfolding assms(2) gcraScript_def tat Let_def tat_set_def by auto
  show "tat_ok store'" using assms(1) unfolding st by (auto simp: tat_ok_def update_conv')
  have "now \<le> tat_at store now key" by (auto simp: tat_at_def split: option.splits)
  then show "tat_at store' now k = (if k = key \<and> snd (gcraScript interval burst now key store) then tat_at store now key + interval else tat_at store now k)"
    unfolding st using assms(3) by (auto simp: tat_at_def update_conv' split: option.splits)
qed

definition same_budget :: "int \<Rightarrow> int \<Rightarrow> tat_store \<Rightarrow> (string \<Rightarrow> bucket) \<Rightarrow> bool" where
  "same_budget cap now store bs = (\<forall>k. refilled cap now (bs k) = cap - (tat_at store now k - now))"

lemma same_budget_later:
  assumes "same_budget cap s store bs" "s \<le> now" "0 \<le> cap"
  shows "same_budget cap now store bs"
proof -
  have "refilled cap now (bs k) = cap - (tat_at store now k - now)" for k
  proof -
    have "refilled cap now (bs k) = min cap (refilled cap s (bs k) + (now - s))" using assms(2) by (simp add: refilled_def)
    also have "\<dots> = min cap (cap - (tat_at store s k - s) + (now - s))" using assms(1) by (simp add: same_budget_def)
    also have "\<dots> = cap - (tat_at store now k - now)" unfolding tat_at_later[OF assms(2)] by auto
    finally show ?thesis .
  qed
  then show ?thesis by (simp add: same_budget_def)
qed

lemma same_decision:
  assumes "tat_ok store" "same_budget (burst * interval) now store bs" "0 < interval" "0 \<le> burst"
  shows "snd (gcraScript interval burst now key store) = snd (bucket_allow (burst * interval) interval now key bs)"
    "same_budget (burst * interval) now (fst (gcraScript interval burst now key store)) (fst (bucket_allow (burst * interval) interval now key bs))"
proof -
  note g = gcra_tat[OF assms(1) refl assms(3), of burst now key]
  have l: "refilled (burst * interval) now (bs k) = burst * interval - (tat_at store now k - now)" for k using assms(2) by (simp add: same_budget_def)
  show dec: "snd (gcraScript interval burst now key store) = snd (bucket_allow (burst * interval) interval now key bs)"
    unfolding g(1) bucket_allow_def Let_def l by auto
  have "refilled (burst * interval) now (fst (bucket_allow (burst * interval) interval now key bs) k) =
      burst * interval - (tat_at (fst (gcraScript interval burst now key store)) now k - now)" for k
  proof -
    have "tat_at store now key \<ge> now" by (auto simp: tat_at_def split: option.splits)
    then show ?thesis unfolding g(3) dec using l[of k] l[of key] assms(3)
      by (auto simp: bucket_allow_def Let_def refilled_def)
  qed
  then show "same_budget (burst * interval) now (fst (gcraScript interval burst now key store)) (fst (bucket_allow (burst * interval) interval now key bs))"
    by (simp add: same_budget_def)
qed

lemma decisions_agree:
  assumes "tat_ok store" "same_budget (burst * interval) t store bs" "0 < interval" "0 \<le> burst" "sorted (map fst rs)" "\<forall>r \<in> set rs. t \<le> fst r"
  shows "decisions (gcraScript interval burst) store rs = decisions (bucket_allow (burst * interval) interval) bs rs"
  using assms
proof (induction rs arbitrary: store bs t)
  case (Cons r rs)
  have "same_budget (burst * interval) (fst r) store bs" using same_budget_later[OF Cons(3)] Cons(4,5,7) by simp
  note d = same_decision[OF Cons(2) this Cons(4,5), of "snd r"]
  show ?case using d(1) Cons(1)[OF gcra_tat(2)[OF Cons(2) refl Cons(4)] d(2) Cons(4,5)] Cons(6) by simp
qed simp

text \<open>
  Property C23. The script that runs in Valkey, whose state is one time per caller and whose keys
  expire on their own, decides every sequence of requests of any callers exactly as token
  buckets of the configured burst do that refill one token per interval and start full.
\<close>

theorem gcra_is_token_bucket:
  assumes "0 < interval" "0 \<le> burst" "sorted (map fst rs)" "\<forall>r \<in> set rs. t \<le> fst r"
  shows "decisions (gcraScript interval burst) [] rs =
    decisions (bucket_allow (burst * interval) interval) (\<lambda>k. \<lparr>bk_level = burst * interval, bk_last = t\<rparr>) rs"
  by (rule decisions_agree[OF _ _ assms]) (simp_all add: tat_ok_def same_budget_def refilled_def tat_at_def)

lemma granted_bound:
  assumes "tat_ok store" "0 < interval" "0 \<le> burst" "sorted (map fst rs)" "\<forall>r \<in> set rs. t \<le> fst r \<and> fst r \<le> e" "t \<le> e"
  shows "int (length (filter (\<lambda>ok. ok) (granted (gcraScript interval burst) key store rs))) * interval \<le>
    max 0 (e + burst * interval - tat_at store t key)"
  using assms
proof (induction rs arbitrary: store t)
  case (Cons r rs)
  obtain now k where r: "r = (now, k)" by fastforce
  have t: "t \<le> now" "now \<le> e" using Cons(6) by (auto simp: r)
  let ?st = "fst (gcraScript interval burst now k store)"
  note g = gcra_tat[OF Cons(2) refl Cons(3), of burst now k]
  have ih: "int (length (filter (\<lambda>ok. ok) (granted (gcraScript interval burst) key ?st rs))) * interval \<le>
      max 0 (e + burst * interval - tat_at ?st now key)"
    using Cons(1)[OF g(2) Cons(3,4), of now] Cons(5,6) t by (simp add: r)
  have later: "tat_at store now key = max now (tat_at store t key)" by (rule tat_at_later[OF t(1)])
  show ?case
  proof (cases "k = key \<and> snd (gcraScript interval burst now k store)")
    case True
    then have k: "k = key" and ok: "snd (gcraScript interval burst now key store)" and le: "tat_at store now key + interval \<le> now + burst * interval"
      and tat: "tat_at ?st now key = tat_at store now key + interval" using g(1) g(3)[of key] by auto
    let ?n = "int (length (filter (\<lambda>ok. ok) (granted (gcraScript interval burst) key ?st rs)))"
    have "?n * interval + interval \<le> e + burst * interval - tat_at store now key" using ih le t(2) unfolding tat by auto
    then have "(?n + 1) * interval \<le> max 0 (e + burst * interval - tat_at store t key)" using later by (simp add: algebra_simps)
    then show ?thesis using k ok by (simp add: r add.commute)
  next
    case False
    then have "tat_at ?st now key = tat_at store now key" using g(3)[of key] by auto
    then have "int (length (filter (\<lambda>ok. ok) (granted (gcraScript interval burst) key ?st rs))) * interval \<le> max 0 (e + burst * interval - tat_at store t key)"
      using ih later by auto
    then show ?thesis using False by (auto simp: r)
  qed
qed simp

text \<open>
  However a caller spreads its requests, in any window of \<open>w\<close> milliseconds the script lets
  through at most the burst and one more per interval that fits, whatever was stored before and
  whatever other callers do; and what others do never changes what a caller is granted.
\<close>

theorem gcra_window_bound:
  assumes "tat_ok store" "0 < interval" "0 \<le> burst" "sorted (map fst rs)" "\<forall>r \<in> set rs. t \<le> fst r \<and> fst r \<le> t + w" "0 \<le> w"
  shows "int (length (filter (\<lambda>ok. ok) (granted (gcraScript interval burst) key store rs))) \<le> burst + w div interval \<and>
    granted (gcraScript interval burst) key store rs = granted (gcraScript interval burst) key store (filter (\<lambda>r. snd r = key) rs)"
proof
  have "t \<le> tat_at store t key" by (auto simp: tat_at_def split: option.splits)
  moreover have "0 \<le> burst * interval" using assms(2,3) by simp
  ultimately have "int (length (filter (\<lambda>ok. ok) (granted (gcraScript interval burst) key store rs))) * interval \<le> w + burst * interval"
    using granted_bound[OF assms(1-5), of key] assms(6) by auto
  then have "int (length (filter (\<lambda>ok. ok) (granted (gcraScript interval burst) key store rs))) \<le> (w + burst * interval) div interval"
    using zdiv_mono1[OF _ assms(2)] assms(2) by fastforce
  then show "int (length (filter (\<lambda>ok. ok) (granted (gcraScript interval burst) key store rs))) \<le> burst + w div interval"
    using assms(2) by simp
  show "granted (gcraScript interval burst) key store rs = granted (gcraScript interval burst) key store (filter (\<lambda>r. snd r = key) rs)"
    by (rule gcra.granted_own) simp
qed

section \<open>Idle callers of one process\<close>

text \<open>
  A caller that was quiet for more than ten minutes is decided by a fresh bucket, whatever
  it had spent: its whole burst is back, also where the configured rate would take
  longer than ten minutes to refill it.
\<close>

theorem idle_caller_starts_over:
  assumes "distinct (map fst (pl_callers l))" "map_of (pl_callers l) key = Some cb" "cb_lastSeen cb < now - callerBucketTTL"
  shows "snd (allowAt lib key now l) = snd (rt_AllowN lib (rt_NewLimiter lib (pl_limit l) (pl_burst l)) now)"
proof -
  have "map_of (pl_callers (evictLocked now l)) key = None"
    using assms eq_key_imp_eq_value[OF assms(1)] by (fastforce simp: evictLocked_def map_of_eq_None_iff dest: map_of_SomeD)
  then show ?thesis by (simp add: allowAt_def Let_def split: prod.split)
qed

section \<open>Examples\<close>

definition demo_requests :: "(int \<times> string) list" where
  "demo_requests = [(0, ''a''), (1, ''b''), (2, ''a''), (3, ''a''), (12, ''a'')]"

theorem gcra_is_token_bucket_witness:
  "decisions (gcraScript 10 2) [] demo_requests = [True, True, True, False, True] \<and>
   decisions (bucket_allow 20 10) (\<lambda>k. \<lparr>bk_level = 20, bk_last = 0\<rparr>) demo_requests = [True, True, True, False, True]"
proof -
  have "decisions (gcraScript 10 2) [] demo_requests = decisions (bucket_allow (2 * 10) 10) (\<lambda>k. \<lparr>bk_level = 2 * 10, bk_last = 0\<rparr>) demo_requests"
    by (rule gcra_is_token_bucket) (simp_all add: demo_requests_def)
  moreover have "decisions (gcraScript 10 2) [] demo_requests = [True, True, True, False, True]"
    by (simp add: demo_requests_def gcraScript_def tat_get_def tat_set_def)
  ultimately show ?thesis by simp
qed

theorem gcra_window_bound_witness:
  "granted (gcraScript 10 2) ''a'' [] demo_requests = [True, True, False, True] \<and> int (length (filter (\<lambda>ok. ok) [True, True, False, True])) \<le> 2 + 12 div 10"
proof -
  have "int (length (filter (\<lambda>ok. ok) (granted (gcraScript 10 2) ''a'' [] demo_requests))) \<le> 2 + 12 div 10"
    by (rule conjunct1, rule gcra_window_bound[where t = 0]) (simp_all add: tat_ok_def demo_requests_def)
  moreover have "granted (gcraScript 10 2) ''a'' [] demo_requests = [True, True, False, True]"
    by (simp add: demo_requests_def gcraScript_def tat_get_def tat_set_def)
  ultimately show ?thesis by simp
qed

end
