(* ===== verification/Saas_Http.thy ===== *)
theory Saas_Http
  imports Saas_Limits
begin

text \<open>
  The HTTP front of the hosted service (\<open>auth_config.go\<close>, \<open>middleware.go\<close>, \<open>router.go\<close>): the
  route table, the two layers of authentication, the rate limit gate, and the way a
  request passes through them.  The theorem is the tenant boundary: whatever the
  handlers do, a request below a tenant's path reaches one only with credentials of that
  tenant.  The token library is a parameter.
\<close>

section \<open>The configuration of the two layers\<close>

text \<open>A JSON object of a token is a Go map: its keys are distinct and printed in order.\<close>

record Organization =
  og_ID :: string
  og_Name :: string
  og_Attributes :: "(string \<times> val) list"

datatype orgError = OrgAbsent | OrgUndecodable | OrgEmptyID

definition dec_anymap :: "(string \<times> val) list dec" where
  "dec_anymap v a = (case v of VMap kvs \<Rightarrow> (kvs, False) | VNull \<Rightarrow> ([], False) | _ \<Rightarrow> (a, True))"

definition decode_Organization :: "val \<Rightarrow> Organization \<times> bool" where
  "decode_Organization v =
     (let (kvs, bad) = struct_fields v;
          (i, bad_i) = dec_field dec_str ''id'' kvs [];
          (n, bad_n) = dec_field dec_str ''name'' kvs [];
          (a, bad_a) = dec_field dec_anymap ''attributes'' kvs []
      in (\<lparr>og_ID = i, og_Name = n, og_Attributes = a\<rparr>, bad \<or> bad_i \<or> bad_n \<or> bad_a))"

definition parseOrganizationClaim :: "(string \<times> val) list \<Rightarrow> orgError + Organization" where
  "parseOrganizationClaim tok =
     (case map_of tok ''organization'' of
        None \<Rightarrow> Inl OrgAbsent
      | Some v \<Rightarrow> let (org, err) = decode_Organization v in
          if err then Inl OrgUndecodable else if og_ID org = [] then Inl OrgEmptyID else Inr org)"

definition InternalAuthHeader :: string where "InternalAuthHeader = ''X-Internal-Auth''"

record AuthConfig =
  ac_secretCurrent :: string
  ac_secretPrevious :: string
  ac_hasPrevious :: bool
  ac_jwksURL :: string
  ac_issuer :: string
  ac_audience :: string

datatype authConfigError = NoSecret | NoJWKSURL | NoIssuer | NoAudience | RegisterFailed

text \<open>\<open>register\<close> says whether the key cache takes the URL.\<close>

definition NewAuthConfig ::
  "(string \<Rightarrow> bool) \<Rightarrow> string \<Rightarrow> string \<Rightarrow> string \<Rightarrow> string \<Rightarrow> string \<Rightarrow> authConfigError + AuthConfig" where
  "NewAuthConfig register secretCurrent secretPrevious jwksURL issuer audience =
     (if secretCurrent = [] then Inl NoSecret
      else if jwksURL = [] then Inl NoJWKSURL
      else if issuer = [] then Inl NoIssuer
      else if audience = [] then Inl NoAudience
      else if \<not> register jwksURL then Inl RegisterFailed
      else let cfg = \<lparr>ac_secretCurrent = secretCurrent, ac_secretPrevious = [], ac_hasPrevious = False,
                      ac_jwksURL = jwksURL, ac_issuer = issuer, ac_audience = audience\<rparr>
        in Inr (if secretPrevious \<noteq> [] then cfg\<lparr>ac_secretPrevious := secretPrevious, ac_hasPrevious := True\<rparr> else cfg))"

definition constantTimeEqual :: "string \<Rightarrow> string \<Rightarrow> bool" where
  "constantTimeEqual a b = (if length a \<noteq> length b then False else list_all2 (=) a b)"

definition validInternalSecret :: "AuthConfig \<Rightarrow> string \<Rightarrow> bool" where
  "validInternalSecret c provided =
     (if provided = [] then False
      else if constantTimeEqual provided (ac_secretCurrent c) then True
      else if ac_hasPrevious c \<and> constantTimeEqual provided (ac_secretPrevious c) then True
      else False)"

text \<open>The key cache, and the parser that checks signature, issuer, audience and expiry and gives the claims.\<close>

record 'ks jwks_lib =
  jk_cacheGet :: "string \<Rightarrow> 'ks option"
  jk_Parse :: "'ks \<Rightarrow> string \<Rightarrow> string \<Rightarrow> string \<Rightarrow> (string \<times> val) list option"

definition verifyBearerToken :: "'ks jwks_lib \<Rightarrow> AuthConfig \<Rightarrow> string \<Rightarrow> (string \<times> val) list option" where
  "verifyBearerToken lib c raw =
     (case jk_cacheGet lib (ac_jwksURL c) of
        None \<Rightarrow> None
      | Some keySet \<Rightarrow> jk_Parse lib keySet (ac_issuer c) (ac_audience c) raw)"

section \<open>Requests and the middleware\<close>

text \<open>
  A request: its path split at the slashes after cleaning and unescaping, as the router
  sees it, the values of the wildcards, and the organization on its context.
\<close>

record http_req =
  rq_Method :: string
  rq_Path :: "string list"
  rq_Header :: "(string \<times> string) list"
  rq_PathValues :: "(string \<times> string) list"
  rq_Org :: "Organization option"

type_synonym ('s, 'a) http_handler = "http_req \<Rightarrow> 's \<Rightarrow> 's \<times> 'a response"

definition HeaderGet :: "http_req \<Rightarrow> string \<Rightarrow> string" where
  "HeaderGet r k = (case map_of (rq_Header r) k of None \<Rightarrow> [] | Some v \<Rightarrow> v)"

definition PathValue :: "http_req \<Rightarrow> string \<Rightarrow> string" where
  "PathValue r k = (case map_of (rq_PathValues r) k of None \<Rightarrow> [] | Some v \<Rightarrow> v)"

definition unauthorized :: "'a response" where "unauthorized = writeError 401 ''unauthorized'' ''unauthorized''"
definition forbidden :: "'a response" where "forbidden = writeError 403 ''forbidden'' ''forbidden''"

definition rate_limited :: "'a response" where
  "rate_limited = writeError 429 ''rate_limited'' ''too many requests, slow down and retry later''"

definition bearerPrefix :: string where "bearerPrefix = ''Bearer ''"

definition withOrganization :: "http_req \<Rightarrow> Organization \<Rightarrow> http_req" where
  "withOrganization r org = r\<lparr>rq_Org := Some org\<rparr>"

definition Auth_mw :: "'ks jwks_lib \<Rightarrow> AuthConfig option \<Rightarrow> ('s, 'a) http_handler \<Rightarrow> ('s, 'a) http_handler" where
  "Auth_mw lib authCfg inner r st =
     (case authCfg of
        None \<Rightarrow> (st, unauthorized)
      | Some cfg \<Rightarrow>
          if \<not> validInternalSecret cfg (HeaderGet r InternalAuthHeader) then (st, unauthorized)
          else let authz = HeaderGet r ''Authorization'' in
            if \<not> HasPrefix authz bearerPrefix \<or> authz = bearerPrefix then (st, unauthorized)
            else (case verifyBearerToken lib cfg (TrimPrefix authz bearerPrefix) of
                    None \<Rightarrow> (st, unauthorized)
                  | Some tok \<Rightarrow>
                      let org = parseOrganizationClaim tok; tenantID = PathValue r ''tenant_id'' in
                      if tenantID \<noteq> [] \<and> (case org of Inl _ \<Rightarrow> True | Inr g \<Rightarrow> og_ID g \<noteq> tenantID)
                      then (st, forbidden)
                      else inner (case org of Inl _ \<Rightarrow> r | Inr g \<Rightarrow> withOrganization r g) st))"

text \<open>The three limiters the routes use; each is a \<open>callerLimiter\<close> with its own state.\<close>

datatype limiterID = enrollmentKeyIssuanceLimiter | sproutActionLimiter | fleetUpdateLimiter

type_synonym 'l allow = "int \<Rightarrow> string \<Rightarrow> 'l \<Rightarrow> 'l \<times> bool"

definition RateLimit ::
  "'l allow \<Rightarrow> int \<Rightarrow> limiterID \<Rightarrow> ((limiterID \<Rightarrow> 'l) \<times> 's, 'a) http_handler \<Rightarrow> ((limiterID \<Rightarrow> 'l) \<times> 's, 'a) http_handler" where
  "RateLimit allow now limiter inner r st =
     (case rq_Org r of
        None \<Rightarrow> (st, forbidden)
      | Some org \<Rightarrow>
          if og_ID org = [] then (st, forbidden)
          else let (l, ok) = allow now (og_ID org) (fst st limiter); st' = ((fst st)(limiter := l), snd st) in
            if \<not> ok then (st', rate_limited) else inner r st')"

text \<open>A handler of the service, which does not see the limiters.\<close>

definition plain :: "('s, 'a) http_handler \<Rightarrow> ('m \<times> 's, 'a) http_handler" where
  "plain h r st = apfst (Pair (fst st)) (h r (snd st))"

section \<open>The routes\<close>

datatype seg = Lit string | Wild string

record routeEntry =
  re_method :: string
  re_path :: "seg list"
  re_name :: string
  re_limiter :: "limiterID option"

abbreviation tenantPath :: "seg list \<Rightarrow> seg list" where
  "tenantPath rest \<equiv> Lit ''v1'' # Lit ''tenants'' # Wild ''tenant_id'' # rest"

definition route :: "string \<Rightarrow> seg list \<Rightarrow> string \<Rightarrow> routeEntry" where
  "route m p name = \<lparr>re_method = m, re_path = p, re_name = name, re_limiter = None\<rparr>"

definition routeRateLimited :: "string \<Rightarrow> seg list \<Rightarrow> string \<Rightarrow> limiterID \<Rightarrow> routeEntry" where
  "routeRateLimited m p name l = \<lparr>re_method = m, re_path = p, re_name = name, re_limiter = Some l\<rparr>"

definition NewRouter :: "bool \<Rightarrow> routeEntry list" where
  "NewRouter fleetUpdateDispatchEnabled =
     [route ''POST'' [Lit ''v1'', Lit ''tenants''] ''CreateTenant'',
      route ''GET'' (tenantPath []) ''GetTenant'',
      route ''PATCH'' (tenantPath []) ''PatchTenant'',
      route ''DELETE'' (tenantPath []) ''DeleteTenant'',
      route ''GET'' (tenantPath [Lit ''status'']) ''GetTenantStatus'',
      routeRateLimited ''POST'' (tenantPath [Lit ''enrollment-keys'']) ''CreateEnrollmentKey'' enrollmentKeyIssuanceLimiter,
      route ''GET'' (tenantPath [Lit ''enrollment-keys'']) ''ListEnrollmentKeys'',
      route ''DELETE'' (tenantPath [Lit ''enrollment-keys'', Wild ''key_id'']) ''DeleteEnrollmentKey'',
      route ''POST'' (tenantPath [Lit ''sprouts'', Wild ''sprout_id'', Lit ''asset-link'']) ''LinkAsset'',
      route ''DELETE'' (tenantPath [Lit ''sprouts'', Wild ''sprout_id'', Lit ''asset-link'']) ''UnlinkAsset'',
      route ''GET'' (tenantPath [Lit ''sprouts'']) ''ListSproutsByAssetIDs'',
      routeRateLimited ''POST'' (tenantPath [Lit ''sprouts'', Lit ''actions'']) ''CreateSproutActionBatch'' sproutActionLimiter,
      route ''GET'' (tenantPath [Lit ''sprouts'', Lit ''actions'', Wild ''batch_id'']) ''GetSproutActionBatch'',
      route ''GET'' [Lit ''v1'', Lit ''versions''] ''ListFleetVersions'',
      route ''GET'' (tenantPath [Lit ''update-policy'']) ''GetUpdatePolicy'',
      route ''PATCH'' (tenantPath [Lit ''update-policy'']) ''PatchUpdatePolicy''] @
     (if fleetUpdateDispatchEnabled then
        [routeRateLimited ''POST'' (tenantPath [Lit ''sprouts'', Lit ''updates'']) ''CreateFleetUpdateBatch'' fleetUpdateLimiter,
         route ''GET'' (tenantPath [Lit ''sprouts'', Lit ''updates'', Wild ''batch_id'']) ''GetFleetUpdateBatch'']
      else [])"

text \<open>
  \<open>http.ServeMux\<close>: a wildcard takes one segment that is not empty and not a slash, and a
  pattern for \<open>GET\<close> takes \<open>HEAD\<close> too.
\<close>

fun match_segs :: "seg list \<Rightarrow> string list \<Rightarrow> (string \<times> string) list option" where
  "match_segs [] [] = Some []"
| "match_segs (Lit a # ps) (s # ss) = (if a = s then match_segs ps ss else None)"
| "match_segs (Wild n # ps) (s # ss) =
     (if s = [] \<or> s = ''/'' then None else map_option ((#) (n, s)) (match_segs ps ss))"
| "match_segs _ _ = None"

definition method_match :: "string \<Rightarrow> string \<Rightarrow> bool" where
  "method_match pat m = (m = pat \<or> m = ''HEAD'' \<and> pat = ''GET'')"

definition matches :: "http_req \<Rightarrow> routeEntry \<Rightarrow> bool" where
  "matches r e = (method_match (re_method e) (rq_Method r) \<and> match_segs (re_path e) (rq_Path r) \<noteq> None)"

text \<open>The handler a route registers: the limiter, where there is one, sits inside \<open>Auth\<close>.\<close>

definition routed ::
  "'ks jwks_lib \<Rightarrow> AuthConfig option \<Rightarrow> 'l allow \<Rightarrow> int \<Rightarrow> (string \<Rightarrow> ('s, 'a) http_handler) \<Rightarrow> routeEntry \<Rightarrow>
   ((limiterID \<Rightarrow> 'l) \<times> 's, 'a) http_handler" where
  "routed lib cfg allow now handlers e =
     Auth_mw lib cfg (case re_limiter e of
         None \<Rightarrow> plain (handlers (re_name e))
       | Some l \<Rightarrow> RateLimit allow now l (plain (handlers (re_name e))))"

text \<open>A request served; the answer is \<^term>\<open>None\<close> where the router answers itself (no route, or another method).\<close>

definition serve ::
  "'ks jwks_lib \<Rightarrow> AuthConfig option \<Rightarrow> bool \<Rightarrow> 'l allow \<Rightarrow> int \<Rightarrow> (string \<Rightarrow> ('s, 'a) http_handler) \<Rightarrow> http_req \<Rightarrow>
   (limiterID \<Rightarrow> 'l) \<times> 's \<Rightarrow> ((limiterID \<Rightarrow> 'l) \<times> 's) \<times> 'a response option" where
  "serve lib cfg enabled allow now handlers r st =
     (case find (matches r) (NewRouter enabled) of
        None \<Rightarrow> (st, None)
      | Some e \<Rightarrow> apsnd Some (routed lib cfg allow now handlers e
          (r\<lparr>rq_PathValues := the (match_segs (re_path e) (rq_Path r)), rq_Org := None\<rparr>) st))"

section \<open>The credentials a request carries\<close>

text \<open>
  The tenant a request's credentials speak for, read off the documentation of the two
  layers and not the middleware: a configured secret in its header, and a token that
  verifies and names an organization.
\<close>

definition secrets :: "AuthConfig \<Rightarrow> string set" where
  "secrets c = ({ac_secretCurrent c} \<union> (if ac_hasPrevious c then {ac_secretPrevious c} else {})) - {[]}"

definition claimed_tenant :: "(string \<times> val) list \<Rightarrow> string option" where
  "claimed_tenant tok = (case parseOrganizationClaim tok of Inl _ \<Rightarrow> None | Inr g \<Rightarrow> Some (og_ID g))"

definition token_claims :: "'ks jwks_lib \<Rightarrow> AuthConfig \<Rightarrow> http_req \<Rightarrow> (string \<times> val) list option" where
  "token_claims lib c r =
     (let raw = drop (length bearerPrefix) (HeaderGet r ''Authorization'') in
      if HeaderGet r ''Authorization'' = bearerPrefix @ raw \<and> raw \<noteq> [] \<and> HeaderGet r InternalAuthHeader \<in> secrets c
      then verifyBearerToken lib c raw else None)"

definition caller_tenant :: "'ks jwks_lib \<Rightarrow> AuthConfig option \<Rightarrow> http_req \<Rightarrow> string option" where
  "caller_tenant lib cfg r = Option.bind cfg (\<lambda>c. Option.bind (token_claims lib c r) claimed_tenant)"

lemma constantTimeEqual_iff [simp]: "constantTimeEqual a b = (a = b)"
  by (auto simp: constantTimeEqual_def list_all2_eq[symmetric])

lemma validInternalSecret_iff: "validInternalSecret c s = (s \<in> secrets c)"
  by (auto simp: validInternalSecret_def secrets_def)

lemma bearer_iff:
  "(HasPrefix a bearerPrefix \<and> a \<noteq> bearerPrefix) =
     (a = bearerPrefix @ drop (length bearerPrefix) a \<and> drop (length bearerPrefix) a \<noteq> [])"
  by (auto simp: HasPrefix_def prefix_def)

lemma claimed_tenant_Some: "claimed_tenant tok = Some t \<longleftrightarrow> (\<exists>g. parseOrganizationClaim tok = Inr g \<and> og_ID g = t)"
  by (cases "parseOrganizationClaim tok") (auto simp: claimed_tenant_def)

text \<open>A secret rotation: exactly the current secret and, while it is set, the previous one are accepted.\<close>

theorem rotation_accepts:
  assumes "NewAuthConfig register cur prev url iss aud = Inr c"
  shows "validInternalSecret c s = (s = cur \<or> prev \<noteq> [] \<and> s = prev)"
  using assms by (auto simp: NewAuthConfig_def validInternalSecret_iff secrets_def Let_def split: if_splits)

text \<open>What \<open>Auth\<close> does, in terms of the claims: refuse, or call what it guards with the organization.\<close>

lemma Auth_mw_claims:
  "Auth_mw lib cfg inner r st =
     (case Option.bind cfg (\<lambda>c. token_claims lib c r) of
        None \<Rightarrow> (st, unauthorized)
      | Some tok \<Rightarrow>
          if PathValue r ''tenant_id'' \<noteq> [] \<and> claimed_tenant tok \<noteq> Some (PathValue r ''tenant_id'') then (st, forbidden)
          else inner (case parseOrganizationClaim tok of Inl _ \<Rightarrow> r | Inr g \<Rightarrow> withOrganization r g) st)"
proof (cases cfg)
  case (Some c)
  let ?a = "HeaderGet r ''Authorization''"
  show ?thesis
  proof (cases "HeaderGet r InternalAuthHeader \<in> secrets c \<and> HasPrefix ?a bearerPrefix \<and> ?a \<noteq> bearerPrefix")
    case True
    then have "token_claims lib c r = verifyBearerToken lib c (TrimPrefix ?a bearerPrefix)"
      using bearer_iff[of ?a] by (simp add: token_claims_def TrimPrefix_def HasPrefix_def)
    with True show ?thesis
      by (simp add: Some Auth_mw_def validInternalSecret_iff claimed_tenant_def Let_def split: option.split sum.split)
  next
    case False
    then have "token_claims lib c r = None" using bearer_iff[of ?a] by (auto simp: token_claims_def Let_def)
    with False show ?thesis by (auto simp: Some Auth_mw_def validInternalSecret_iff Let_def)
  qed
qed (simp add: Auth_mw_def)

lemma caller_tenant_binds:
  "caller_tenant lib cfg r = Option.bind (Option.bind cfg (\<lambda>c. token_claims lib c r)) claimed_tenant"
  by (simp add: caller_tenant_def)

section \<open>The router\<close>

lemma router_paths:
  "e \<in> set (NewRouter enabled) \<Longrightarrow>
     (\<exists>ps. re_path e = tenantPath ps) \<or> re_path e = [Lit ''v1'', Lit ''tenants''] \<or> re_path e = [Lit ''v1'', Lit ''versions'']"
  by (auto simp: NewRouter_def route_def routeRateLimited_def split: if_splits)

lemma tenant_route:
  assumes "find (matches r) (NewRouter enabled) = Some e" "rq_Path r = ''v1'' # ''tenants'' # t # rest"
  obtains pv where "match_segs (re_path e) (rq_Path r) = Some ((''tenant_id'', t) # pv)" "t \<noteq> []"
proof -
  from assms have e: "e \<in> set (NewRouter enabled)" "match_segs (re_path e) (rq_Path r) \<noteq> None"
    by (auto simp: find_Some_iff matches_def)
  with router_paths[OF e(1)] assms(2) that show ?thesis by (auto split: if_splits)
qed

text \<open>Two patterns that no path satisfies together.\<close>

fun segs_apart :: "seg list \<Rightarrow> seg list \<Rightarrow> bool" where
  "segs_apart [] [] = False"
| "segs_apart (Lit a # ps) (Lit b # qs) = (a \<noteq> b \<or> segs_apart ps qs)"
| "segs_apart (_ # ps) (_ # qs) = segs_apart ps qs"
| "segs_apart _ _ = True"

lemma match_Cons:
  "match_segs (p # ps) ss = Some m \<Longrightarrow> \<exists>s ss' m'. ss = s # ss' \<and> match_segs ps ss' = Some m' \<and> (\<forall>a. p = Lit a \<longrightarrow> s = a)"
  by (cases p; cases ss) (auto split: if_splits)

lemma match_Nil: "match_segs [] ss = Some m \<Longrightarrow> ss = []"
  by (cases ss) auto

lemma segs_apart_sound: "segs_apart ps qs \<Longrightarrow> match_segs ps ss = Some m \<Longrightarrow> match_segs qs ss = Some n \<Longrightarrow> False"
  by (induction ps qs arbitrary: ss m n rule: segs_apart.induct) (auto dest!: match_Cons match_Nil)

definition routes_apart :: "routeEntry \<Rightarrow> routeEntry \<Rightarrow> bool" where
  "routes_apart e f = (re_method e \<noteq> re_method f \<and> ''HEAD'' \<notin> {re_method e, re_method f} \<or> segs_apart (re_path e) (re_path f))"

lemma routes_apart_sound: "routes_apart e f \<Longrightarrow> \<not> (matches r e \<and> matches r f)"
  by (auto simp: routes_apart_def matches_def method_match_def dest: segs_apart_sound)

lemma router_apart: "sorted_wrt routes_apart (NewRouter enabled)"
  by (simp add: NewRouter_def route_def routeRateLimited_def routes_apart_def)

text \<open>
  No request matches two routes: the order of registration and the router's preference
  for the more specific pattern never decide.
\<close>

theorem one_route:
  assumes "e \<in> set (NewRouter enabled)" "f \<in> set (NewRouter enabled)" "matches r e" "matches r f"
  shows "e = f"
proof -
  from assms obtain i j where "i < length (NewRouter enabled)" "j < length (NewRouter enabled)"
    and ij: "e = NewRouter enabled ! i" "f = NewRouter enabled ! j" by (metis in_set_conv_nth)
  then have "i < j \<Longrightarrow> routes_apart e f" "j < i \<Longrightarrow> routes_apart f e"
    using router_apart[of enabled] by (auto simp: sorted_wrt_iff_nth_less)
  then show ?thesis using assms(3,4) ij routes_apart_sound by (metis linorder_neqE_nat)
qed

section \<open>The tenant boundary\<close>

lemma caller_tenant_values [simp]:
  "caller_tenant lib cfg (r\<lparr>rq_PathValues := pv, rq_Org := g\<rparr>) = caller_tenant lib cfg r"
  by (simp add: caller_tenant_def token_claims_def HeaderGet_def)

lemma PathValue_head [simp]: "PathValue (r\<lparr>rq_PathValues := (k, v) # pv, rq_Org := g\<rparr>) k = v"
  by (simp add: PathValue_def)

lemma PathValue_org [simp]: "PathValue (withOrganization r g) k = PathValue r k"
  and rq_Org_org [simp]: "rq_Org (withOrganization r g) = Some g"
  by (simp_all add: PathValue_def withOrganization_def)

text \<open>A request below a tenant's path: not routed, refused, or given to the route with that tenant's organization.\<close>

lemma serve_cases:
  fixes st :: "(limiterID \<Rightarrow> 'l) \<times> 's"
  assumes "rq_Path r = ''v1'' # ''tenants'' # t # rest"
  obtains (unrouted) "\<And>allow (handlers :: string \<Rightarrow> ('s, 'ans) http_handler). serve lib cfg enabled allow now handlers r st = (st, None)"
  | (refused) ans :: "'ans response" where "caller_tenant lib cfg r \<noteq> Some t" "ans \<in> {unauthorized, forbidden}"
      "\<And>allow (handlers :: string \<Rightarrow> ('s, 'ans) http_handler). serve lib cfg enabled allow now handlers r st = (st, Some ans)"
  | (served) e r' where "caller_tenant lib cfg r = Some t" "find (matches r) (NewRouter enabled) = Some e"
      "PathValue r' ''tenant_id'' = t" "\<exists>g. rq_Org r' = Some g \<and> og_ID g = t"
      "\<And>allow (handlers :: string \<Rightarrow> ('s, 'ans) http_handler). serve lib cfg enabled allow now handlers r st =
        apsnd Some ((case re_limiter e of None \<Rightarrow> plain (handlers (re_name e))
          | Some l \<Rightarrow> RateLimit allow now l (plain (handlers (re_name e)))) r' st)"
proof (cases "find (matches r) (NewRouter enabled)")
  case None
  then show ?thesis using unrouted by (simp add: serve_def)
next
  case (Some e)
  obtain pv where pv: "match_segs (re_path e) (rq_Path r) = Some ((''tenant_id'', t) # pv)" "t \<noteq> []"
    using tenant_route[OF Some assms] by blast
  define q where "q = r\<lparr>rq_PathValues := (''tenant_id'', t) # pv, rq_Org := None\<rparr>"
  have serve: "serve lib cfg enabled allow now handlers r st = apsnd Some (routed lib cfg allow now handlers e q st)"
    for allow and handlers :: "string \<Rightarrow> ('s, 'ans) http_handler" by (simp add: serve_def Some pv q_def)
  have q: "PathValue q ''tenant_id'' = t" "caller_tenant lib cfg q = caller_tenant lib cfg r" by (simp_all add: q_def)
  define ans :: "'ans response"
    where "ans = (case Option.bind cfg (\<lambda>c. token_claims lib c q) of None \<Rightarrow> unauthorized | Some _ \<Rightarrow> forbidden)"
  show ?thesis
  proof (cases "caller_tenant lib cfg r = Some t")
    case False
    then have "Auth_mw lib cfg inner q st = (st, ans)" for inner
      using q pv(2)
      by (cases "Option.bind cfg (\<lambda>c. token_claims lib c q)") (simp_all add: ans_def Auth_mw_claims caller_tenant_binds)
    moreover have "ans \<in> {unauthorized, forbidden}" by (simp add: ans_def split: option.split)
    ultimately show ?thesis by (intro refused[OF False]) (simp_all add: serve routed_def)
  next
    case True
    then obtain c tok g where g: "cfg = Some c" "token_claims lib c q = Some tok" "parseOrganizationClaim tok = Inr g" "og_ID g = t"
      unfolding q(2)[symmetric] by (auto simp: caller_tenant_def claimed_tenant_Some bind_eq_Some_conv)
    then have "Auth_mw lib cfg inner q st = inner (withOrganization q g) st" for inner :: "((limiterID \<Rightarrow> 'l) \<times> 's, 'ans) http_handler"
      using q by (simp add: Auth_mw_claims claimed_tenant_def)
    then show ?thesis using q(1) g(4) by (intro served[OF True Some, of "withOrganization q g"]) (simp_all add: serve routed_def)
  qed
qed

text \<open>
  Property C19. The tenant boundary of the hosted service.  Let a request name tenant \<open>t\<close> in its
  path.  Unless it carries a configured service secret and a verified token of the organization
  \<open>t\<close>, it changes nothing (no limiter either) and is answered by the router, with 401 or with 403.
  In every case, what happens depends on the handlers only at requests whose path tenant and
  whose organization are both \<open>t\<close>, and on the limiters only at the key \<open>t\<close>: no handler runs for,
  and no budget is charged to, another tenant.
\<close>

theorem tenant_boundary:
  fixes handlers :: "string \<Rightarrow> ('s, 'ans) http_handler"
  assumes "rq_Path r = ''v1'' # ''tenants'' # t # rest"
  shows "(caller_tenant lib cfg r \<noteq> Some t \<longrightarrow>
      fst (serve lib cfg enabled allow now handlers r st) = st \<and>
      snd (serve lib cfg enabled allow now handlers r st) \<in> {None, Some unauthorized, Some forbidden}) \<and>
    ((\<forall>n r' g. PathValue r' ''tenant_id'' = t \<and> rq_Org r' = Some g \<and> og_ID g = t \<longrightarrow> handlers n r' = handlers' n r') \<and>
      (\<forall>at l. allow at t l = allow' at t l) \<longrightarrow>
      serve lib cfg enabled allow now handlers r st = serve lib cfg enabled allow' now handlers' r st)"
  using assms
proof (cases rule: serve_cases[where 'ans = 'ans and lib = lib and cfg = cfg and enabled = enabled and now = now and st = st])
  case (served e r')
  then show ?thesis
    by (auto simp: plain_def RateLimit_def Let_def split: option.splits prod.splits)
qed auto

text \<open>The demonstration server: one secret, tokens that are the name of their organization, and a handler that counts.\<close>

definition demo_jwks :: "unit jwks_lib" where
  "demo_jwks = \<lparr>jk_cacheGet = \<lambda>_. Some (),
     jk_Parse = \<lambda>_ _ _ raw. Some [(''organization'', VMap [(''id'', VStr raw)])]\<rparr>"

definition demo_auth :: AuthConfig where
  "demo_auth = \<lparr>ac_secretCurrent = ''s'', ac_secretPrevious = [], ac_hasPrevious = False,
     ac_jwksURL = ''u'', ac_issuer = ''i'', ac_audience = ''a''\<rparr>"

definition demo_http :: "string \<Rightarrow> http_req" where
  "demo_http org = \<lparr>rq_Method = ''POST'', rq_Path = [''v1'', ''tenants'', ''t1'', ''enrollment-keys''],
     rq_Header = [(InternalAuthHeader, ''s''), (''Authorization'', bearerPrefix @ org)], rq_PathValues = [], rq_Org = None\<rparr>"

definition demo_count :: "string \<Rightarrow> (nat, unit) http_handler" where
  "demo_count _ _ n = (Suc n, writeJSON 201 ())"

definition demo_serve :: "string \<Rightarrow> ((limiterID \<Rightarrow> tat_store) \<times> nat) \<times> unit response option" where
  "demo_serve org = serve demo_jwks (Some demo_auth) False (gcraScript 1000 5) 0 demo_count (demo_http org) (\<lambda>_. [], 0)"

text \<open>The other tenant is refused and the state kept; the tenant itself is served and charged.\<close>

lemma demo_served: "snd (fst (demo_serve ''t1'')) = 1"
  by code_simp

theorem tenant_boundary_witness:
  "snd (fst (demo_serve ''t2'')) = 0 \<and> snd (demo_serve ''t2'') \<in> {None, Some unauthorized, Some forbidden} \<and>
   snd (fst (demo_serve ''t1'')) = 1"
proof -
  have "caller_tenant demo_jwks (Some demo_auth) (demo_http ''t2'') \<noteq> Some ''t1''" by code_simp
  then show ?thesis
    using tenant_boundary[of "demo_http ''t2''" "''t1''" "[''enrollment-keys'']" demo_jwks "Some demo_auth" False "gcraScript 1000 5" 0
        demo_count "(\<lambda>_. [], 0)" demo_count "gcraScript 1000 5"] demo_served
    by (simp add: demo_serve_def demo_http_def)
qed

end
