(* ===== verification/Spec2Isabelle.thy ===== *)
theory Spec2Isabelle
  imports Natsapi_Props Heartbeat Cook_Recipe Cook_Vars Sprout_Action Saas_Rollout Saas_Http
begin

text \<open>
  A verification of the core of grlx, a fleet configuration manager.

  \<^bold>\<open>The program.\<close>  An administrator's command line client talks to the \<open>farmer\<close> over a
  NATS bus; every managed host runs a \<open>sprout\<close>.  The farmer decides who may do what
  (\<open>internal/rbac\<close>, \<open>internal/auth\<close>), which hosts belong to the fleet
  (\<open>internal/pki\<close>, \<open>internal/heartbeat\<close>), keeps properties of hosts
  (\<open>internal/props\<close>) and the log and status of jobs (\<open>internal/jobs\<close>), and answers
  requests on the bus (\<open>internal/natsapi\<close>).  A job is a recipe, which the farmer turns
  into an envelope of steps and the sprout cooks (\<open>internal/cook\<close>).  One farmer serves
  several tenants; all rows and all requests carry a tenant.

  \<^bold>\<open>The theories.\<close>
  \<^item> \<open>Grlx_Prelude\<close>: Go's \<open>strings\<close> functions, dynamic values of JSON and YAML documents,
    keyed tables with an outage mode, and the locales the components share: \<open>keyed_store\<close>
    and \<open>tenant_store\<close> (what a table promises) and \<open>preserved\<close> (an invariant of a step).
    Every locale is interpreted on the definitions of the component that provides it.
  \<^item> \<open>Rbac_Role\<close>, \<open>Rbac_Cohort\<close>, \<open>Rbac_Config\<close>, \<open>Rbac_Policy\<close>: \<open>role.go\<close>, \<open>cohort.go\<close>,
    \<open>config.go\<close>, \<open>policy.go\<close> and \<open>store.go\<close> of \<open>internal/rbac\<close>.  Scoped access against its
    specification, the meaning of compound cohorts, and that a registry which validates
    resolves.  \<open>Resolve\<close> carries the code's own recursion limit, so it needs no fuel.
  \<^item> \<open>Auth\<close>: \<open>internal/auth\<close>: policy load, token checks, user management, signed tokens.
  \<^item> \<open>Props\<close>: \<open>internal/props\<close>; \<open>Heartbeat\<close>: \<open>internal/heartbeat\<close>.
  \<^item> \<open>Pki\<close>, \<open>Pki_Enroll\<close>: key lifecycle, tenants, bootstrap and the ownership check;
    join tokens, enrollment and box keys.  The lifecycle refines an abstract map from
    tenant and sprout to a key row.
  \<^item> \<open>Pki_Access\<close>, \<open>Bus_Subjects\<close>, \<open>Controlplane\<close>: the tenants' accounts on the bus, the revocation
    lists and tokens the farmer pushes, provisioning; which subjects a sprout and the farmer
    hear; the contract with the hosted service.
  \<^item> \<open>Go_Encoding\<close>, \<open>Fleetsign\<close>, \<open>Fleetkeys\<close>, \<open>File_Http\<close>, \<open>Selfupdate\<close>, \<open>Sprout_Action\<close>: base 64 and
    decimal numbers; releases, signatures and key sets; the key request over the bus;
    downloads and digests; the sprout's self update; the farmer's handling of the hosted
    service's actions and provisioning requests, up to what the sprout verifies.
  \<^item> \<open>Saas_Base\<close>, \<open>Saas_Tenants\<close>, \<open>Saas_Assets\<close>, \<open>Saas_Actions\<close>, \<open>Saas_Fleet\<close>, \<open>Saas_Rollout\<close>, \<open>Saas_Limits\<close>,
    \<open>Saas_Http\<close>:
    the hosted service \<open>internal/saasapi\<close>, a file or two each: IDs and responses; tenants and the provisioning outbox,
    up to the farmer's handler; registration keys, up to the farmer's redemption, and
    asset links; batch actions, up to the farmer's checks and back; update policies and
    rollouts; everything that acts on items as one step relation, with the waves of a rollout beside it; the
    rate limits against a token bucket; the routes and the authentication in front of the handlers.
  \<^item> \<open>Cook_Types\<close>, \<open>Cook_Dag\<close>, \<open>Go_Path\<close>, \<open>Cook_Recipe\<close>, \<open>Cook_Engine\<close>, \<open>Cook_Vars\<close>: steps and
    completions; validation and pruning of the step graph; recipe names, includes, the
    extraction of steps and the envelope the farmer sends; the sprout's completion loop as a
    transition system over goroutines in flight; what one step does, with variables,
    secrets and redaction.
  \<^item> \<open>Jobs_Index\<close>, \<open>Jobs_Store\<close>, \<open>Jobs\<close>: the status index that several replicas write, the
    object log of jobs with its listeners, queries, deletion and expiry.
  \<^item> \<open>Audit_Log\<close>: queries of the audit log (\<open>internal/audit/query.go\<close>).
  \<^item> \<open>Go_Json\<close>, \<open>Natsapi_Scope\<close>, \<open>Natsapi\<close>, \<open>Natsapi_Props\<close>: request decoding, the permission
    and scope middleware, every handler of the route table, and what the API
    guarantees as a whole.

  \<^bold>\<open>Conventions.\<close>  A Go string is a list of bytes.  A struct is a record, an enumeration of
  string constants a group of definitions, a Go map a table, an association list or a
  partial function; where Go iterates a map in no particular order the model quantifies
  over the order.  An error return is \<^term>\<open>Inl\<close> or \<^term>\<open>Some\<close>, a panic a value of its own.  Time is a
  parameter, in nanoseconds.  A database is a table that may be down, in which case every
  statement fails.  Where requests or goroutines race on shared state inside one operation,
  the operation takes what the others do as an argument: the steps of a job
  between their accesses to the variables (\<open>run_step\<close> of \<open>Cook_Vars\<close>) and the database between the
  reads and the write of a rollout request (\<open>CreateFleetUpdateBatch\<close> of \<open>Saas_Fleet\<close>).

  \<^bold>\<open>Fuel and bounds.\<close>  \<open>findCycle\<close> need not return; its
  fuel counts nested calls, and more fuel than there are steps gives the answer whenever
  no ID is empty (\<open>ValidateTrees_exact\<close>), while no fuel does for an empty ID on a cycle
  (\<open>empty_id_search_diverges\<close>).  The collection of
  includes needs more fuel than there are recipes to reach (\<open>collectAllIncludes_exact\<close>).  The
  cook engine takes at most three transitions per step and
  two more (\<open>cook_run_bounded\<close>).  The polling loop of a rollout takes as much fuel as its clock takes
  ticks to pass the deadline of a wave (\<open>rollout_returns\<close>).  Everything else is total.

  \<^bold>\<open>Parameters.\<close>  Libraries and services are arguments: the NKey library and the token codec
  (\<open>token_lib\<close>), hashing and JWT minting (\<open>enroll_lib\<close>), account claims (\<open>jwt_lib\<close> with
  \<open>jwt_laws\<close>; the fields the code assigns itself are \<open>AccountClaims\<close>), Ed25519 and URL parsing (\<open>fleet_lib\<close>), JSON web keys (\<open>jwk_lib\<close>), the verification of
  bearer tokens (\<open>jwks_lib\<close>), one HTTP
  round trip (\<open>http_world\<close>), the bus's subject matching (\<open>subject_law\<close>), the Valkey server (\<open>valkey\<close>), the
  shell, the secret store and the ingredients (\<open>step_world\<close>), and what sprouts answer on the
  bus (\<open>world\<close>).

  \<^bold>\<open>What is not modelled.\<close>  Ingredients (system calls on the managed host), the command line
  client, process start-up, HTTP and TLS transport, terminal sessions, the object store and
  database drivers, and cryptography.  Of the hosted service, the configuration, the
  gateway tokens and the connection set-up.
\<close>

section \<open>From a recipe to a finished run\<close>

lemma sound_envelope_never_stalls:
  assumes ok: "distinct (step_ids e)" "closed_steps (env_Steps e)" "acyclic (requires (env_Steps e))"
    and start: "start_id e \<notin> set (step_ids e)"
    and run: "reachable e st" "es_result st = None" "\<forall>c \<in> set (es_received st). sc_Status c \<noteq> StepSkipped"
  shows "\<exists>st'. engine_step e st st' \<and> es_result st' \<noteq> Some RunTimeout"
proof -
  have inv: "run_inv e st" by (rule reachable_run_inv[OF run(1)])
  have busy: "es_chan st \<noteq> [] \<or> es_running st \<noteq> [] \<or> es_failing st \<noteq> []"
  proof (rule ccontr)
    assume "\<not> ?thesis"
    then have idle: "es_chan st = []" "es_running st = []" "es_failing st = []" by auto
    have "set (step_ids e) \<subseteq> sc_ID ` set (es_received st)"
      using nothing_in_flight_all_reported[OF inv idle ok(3) _ run(3)] ok(2)
      by (auto simp: closed_steps_def step_ids_def reqs_of_def)
    then have "set (start_id e # step_ids e) \<subseteq> sc_ID ` set (es_received st)"
      using inv idle by (auto simp: run_inv_def engine_inv_def split: if_splits)
    then have "card (set (start_id e # step_ids e)) \<le> length (es_received st)"
      by (metis List.finite_set card_mono card_length length_map list.set_map order_trans)
    then show False
      using inv start run(2) ok(1) distinct_card[of "step_ids e"]
      by (simp add: run_inv_def result_ok_def expected_def step_ids_def)
  qed
  then show ?thesis by (rule busy_steps[OF reachable_inv[OF run(1)] run(2)])
qed

text \<open>
  Property C11. A recipe the farmer sends does not get stuck on the sprout.  Whatever the
  files hold, once the farmer has resolved the recipe, pruned it to a target when one
  was asked for, and sent the envelope, every state the sprout's run can reach before it
  returns has a goroutine running or a completion to receive, so there is always a step
  other than the timeout to take, as long as no step was skipped.
\<close>

theorem sent_recipe_never_stalls:
  assumes "shuffles (re_names E)" "shuffles (re_entries E)"
    and "finite (included E tid sid (getBasePath E) recipeID)" "card (included E tid sid (getBasePath E) recipeID) < n"
    and "(\<Sum>a \<in> included E tid sid (getBasePath E) recipeID. length (steps_doc E tid sid (getBasePath E) a)) < n"
    and "\<forall>a \<in> included E tid sid (getBasePath E) recipeID. [] \<notin> fst ` set (steps_doc E tid sid (getBasePath E) a)"
    and "SendCookEvent n E bus tid sid recipeID JID test invokedBy target = Some (Some (c, subject, e), err)"
    and "start_id e \<notin> set (step_ids e)"
    and "reachable e st" "es_result st = None" "\<forall>c \<in> set (es_received st). sc_Status c \<noteq> StepSkipped"
  shows "\<exists>st'. engine_step e st st' \<and> es_result st' \<noteq> Some RunTimeout"
  using SendCookEvent_envelope[OF assms(1-7)] sound_envelope_never_stalls[OF _ _ _ assms(8-11)]
  by (simp add: step_ids_def)

definition demo_bus :: "unit cook_bus" where
  "demo_bus = \<lparr>farmerConns = [(''t'', ())], cb_request = (\<lambda>c subject e. Ack True (env_JobID e))\<rparr>"

definition demo_sent :: RecipeEnvelope where
  "demo_sent = (case SendCookEvent 3 demo_env demo_bus ''t'' ''s'' ''web'' ''j'' False [] [] of
     Some (Some (c, subject, e), err) \<Rightarrow> e | _ \<Rightarrow> two_steps)"

theorem sent_recipe_never_stalls_witness:
  "\<exists>st'. engine_step demo_sent (initial demo_sent) st' \<and> es_result st' \<noteq> Some RunTimeout"
proof -
  have fuel: "finite {''web'', ''base''}" "card {''web'', ''base''} < 3"
    "(\<Sum>a \<in> {''web'', ''base''}. length (steps_doc demo_env ''t'' ''s'' ''r'' a)) < 3"
    "\<forall>a \<in> {''web'', ''base''}. [] \<notin> fst ` set (steps_doc demo_env ''t'' ''s'' ''r'' a)"
    by (simp_all add: demo_doc_keys)
  have "case SendCookEvent 3 demo_env demo_bus ''t'' ''s'' ''web'' ''j'' False [] [] of
      Some (Some (c, subject, e), err) \<Rightarrow> True | _ \<Rightarrow> False" by code_simp
  then obtain c subject err where sent: "SendCookEvent 3 demo_env demo_bus ''t'' ''s'' ''web'' ''j'' False [] [] =
      Some (Some (c, subject, demo_sent), err)"
    by (auto simp: demo_sent_def split: option.splits prod.splits)
  have "start_id demo_sent \<notin> set (step_ids demo_sent)" "es_result (initial demo_sent) = None"
    "\<forall>c \<in> set (es_received (initial demo_sent)). sc_Status c \<noteq> StepSkipped"
    by code_simp+
  then show ?thesis
    using sent_recipe_never_stalls[OF demo_orders, of "''t''" "''s''" "''web''" 3, unfolded demo_base demo_included,
        OF fuel sent _ rtranclp.rtrancl_refl] by blast
qed

end
